(* ===== verification/Prelude.thy ===== *)
theory Prelude
  imports Main "HOL-Library.Word" "HOL-Library.Char_ord" "HOL-Library.List_Lexorder"
    "HOL-Library.Sublist"
begin

text \<open>
  Shared ground of the development: the part of Rust's standard library the program uses
  (characters, strings, integer parsing and printing) and the generic list lemmas that the
  component theories share.

  A Rust \<open>char\<close> is modelled by a HOL \<^typ>\<open>char\<close>, read as the Unicode scalar value
  \<open>U+0000\<close> to \<open>U+00FF\<close>; a \<open>String\<close> is the list of its characters, which is what
  \<open>str::chars\<close> iterates. On this range the character classes below are the ones of the
  standard library, and \<open>str_len\<close> is the UTF-8 byte length that \<open>str::len\<close> returns.
\<close>

section \<open>Collections of facts\<close>

named_theorems char_defs \<open>definitions of the character classes\<close>
named_theorems str_defs \<open>definitions of the string operations\<close>
named_theorems ring_simps \<open>index arithmetic of the ring buffer\<close>

section \<open>Types\<close>

type_synonym u8 = "8 word"
type_synonym u16 = "16 word"
type_synonym u32 = "32 word"
type_synonym u64 = "64 word"

section \<open>Characters\<close>

abbreviation code :: "char \<Rightarrow> nat" where
  "code c \<equiv> of_char c"

definition is_ascii :: "char \<Rightarrow> bool" where
  [char_defs]: "is_ascii c \<longleftrightarrow> code c < 128"

definition is_ascii_digit :: "char \<Rightarrow> bool" where
  [char_defs]: "is_ascii_digit c \<longleftrightarrow> 48 \<le> code c \<and> code c \<le> 57"

definition is_ascii_lowercase :: "char \<Rightarrow> bool" where
  [char_defs]: "is_ascii_lowercase c \<longleftrightarrow> 97 \<le> code c \<and> code c \<le> 122"

definition is_ascii_uppercase :: "char \<Rightarrow> bool" where
  [char_defs]: "is_ascii_uppercase c \<longleftrightarrow> 65 \<le> code c \<and> code c \<le> 90"

definition is_whitespace :: "char \<Rightarrow> bool" where
  [char_defs]: "is_whitespace c \<longleftrightarrow>
     (9 \<le> code c \<and> code c \<le> 13) \<or> code c = 32 \<or> code c = 133 \<or> code c = 160"

definition is_uppercase :: "char \<Rightarrow> bool" where
  [char_defs]: "is_uppercase c \<longleftrightarrow> (65 \<le> code c \<and> code c \<le> 90) \<or>
     (192 \<le> code c \<and> code c \<le> 222 \<and> code c \<noteq> 215)"

definition is_lowercase :: "char \<Rightarrow> bool" where
  [char_defs]: "is_lowercase c \<longleftrightarrow> (97 \<le> code c \<and> code c \<le> 122) \<or> code c = 170 \<or> code c = 181 \<or>
     code c = 186 \<or> (223 \<le> code c \<and> code c \<noteq> 247)"

definition is_alphabetic :: "char \<Rightarrow> bool" where
  [char_defs]: "is_alphabetic c \<longleftrightarrow> is_uppercase c \<or> is_lowercase c"

definition is_numeric :: "char \<Rightarrow> bool" where
  [char_defs]: "is_numeric c \<longleftrightarrow> is_ascii_digit c \<or> code c = 178 \<or> code c = 179 \<or> code c = 185 \<or>
     (188 \<le> code c \<and> code c \<le> 190)"

definition is_alphanumeric :: "char \<Rightarrow> bool" where
  [char_defs]: "is_alphanumeric c \<longleftrightarrow> is_alphabetic c \<or> is_numeric c"

definition to_ascii_lowercase :: "char \<Rightarrow> char" where
  "to_ascii_lowercase c = (if is_ascii_uppercase c then char_of (code c + 32) else c)"

definition to_lowercase :: "char \<Rightarrow> char" where
  "to_lowercase c = (if is_uppercase c then char_of (code c + 32) else c)"

text \<open>
  \<open>char::to_uppercase\<close> yields one or more characters: the sharp s becomes \<open>SS\<close>. The two
  characters whose upper case lies beyond \<open>U+00FF\<close> (the micro sign and y with diaeresis)
  stay as they are in the model.
\<close>

definition to_uppercase :: "char \<Rightarrow> string" where
  "to_uppercase c =
     (if code c = 223 then ''SS''
      else if (97 \<le> code c \<and> code c \<le> 122) \<or>
              (224 \<le> code c \<and> code c \<le> 254 \<and> code c \<noteq> 247)
      then [char_of (code c - 32)] else [c])"

lemma code_char_of [simp]: "n < 256 \<Longrightarrow> code (char_of n) = n"
  by (simp add: of_char_of)

lemma code_inject: "code c = code d \<longleftrightarrow> c = d"
  by simp

lemma not_whitespace_alphanumeric: "is_alphanumeric c \<Longrightarrow> \<not> is_whitespace c"
  by (auto simp: char_defs)

lemma not_whitespace_digit [simp]: "is_ascii_digit c \<Longrightarrow> \<not> is_whitespace c"
  by (auto simp: char_defs)

lemma not_whitespace_lower [simp]: "is_ascii_lowercase c \<Longrightarrow> \<not> is_whitespace c"
  by (auto simp: char_defs)

lemma to_ascii_lowercase_idem [simp]:
  "to_ascii_lowercase (to_ascii_lowercase c) = to_ascii_lowercase c"
  by (auto simp: to_ascii_lowercase_def char_defs)

lemma to_lowercase_idem [simp]: "to_lowercase (to_lowercase c) = to_lowercase c"
  by (auto simp: to_lowercase_def char_defs)

lemma to_ascii_lowercase_id: "\<not> is_ascii_uppercase c \<Longrightarrow> to_ascii_lowercase c = c"
  by (simp add: to_ascii_lowercase_def)

lemma is_whitespace_to_ascii_lowercase [simp]:
  "is_whitespace (to_ascii_lowercase c) = is_whitespace c"
  by (auto simp: to_ascii_lowercase_def char_defs)

section \<open>Strings\<close>

definition str_len :: "string \<Rightarrow> nat" where
  [str_defs]: "str_len s = sum_list (map (\<lambda>c. if is_ascii c then 1 else 2) s)"

definition str_to_lowercase :: "string \<Rightarrow> string" where
  [str_defs]: "str_to_lowercase s = map to_lowercase s"

definition str_to_ascii_lowercase :: "string \<Rightarrow> string" where
  [str_defs]: "str_to_ascii_lowercase s = map to_ascii_lowercase s"

definition str_to_uppercase :: "string \<Rightarrow> string" where
  [str_defs]: "str_to_uppercase s = concat (map to_uppercase s)"

definition trim_start :: "string \<Rightarrow> string" where
  [str_defs]: "trim_start s = dropWhile is_whitespace s"

definition trim_end :: "string \<Rightarrow> string" where
  [str_defs]: "trim_end s = rev (dropWhile is_whitespace (rev s))"

definition str_trim :: "string \<Rightarrow> string" where
  [str_defs]: "str_trim s = trim_end (trim_start s)"

definition strip_prefix :: "string \<Rightarrow> string \<Rightarrow> string option" where
  [str_defs]: "strip_prefix p s = (if prefix p s then Some (drop (length p) s) else None)"

definition strip_suffix :: "string \<Rightarrow> string \<Rightarrow> string option" where
  [str_defs]: "strip_suffix p s = (if suffix p s then Some (take (length s - length p) s) else None)"

text \<open>\<open>str::split\<close> on one character: always at least one piece, empty pieces included.\<close>

fun split_on :: "char \<Rightarrow> string \<Rightarrow> string list" where
  "split_on d [] = [[]]"
| "split_on d (c # cs) =
     (if c = d then [] # split_on d cs
      else case split_on d cs of [] \<Rightarrow> [[c]] | w # ws \<Rightarrow> (c # w) # ws)"

text \<open>\<open>[_]::join\<close>: the pieces with the separator between them.\<close>

fun join_with :: "string \<Rightarrow> string list \<Rightarrow> string" where
  "join_with sep [] = []"
| "join_with sep [x] = x"
| "join_with sep (x # y # xs) = x @ sep @ join_with sep (y # xs)"

text \<open>\<open>str::split_whitespace\<close>: the maximal runs of characters that are not whitespace.\<close>

fun split_ws_acc :: "string \<Rightarrow> string \<Rightarrow> string list" where
  "split_ws_acc acc [] = (if acc = [] then [] else [rev acc])"
| "split_ws_acc acc (c # cs) =
     (if is_whitespace c
      then (if acc = [] then split_ws_acc [] cs else rev acc # split_ws_acc [] cs)
      else split_ws_acc (c # acc) cs)"

definition split_whitespace :: "string \<Rightarrow> string list" where
  "split_whitespace s = split_ws_acc [] s"

lemma split_on_nonempty [simp]: "split_on d s \<noteq> []"
  by (induction s) (auto split: list.splits)

lemma split_on_append:
  "d \<notin> set w \<Longrightarrow> split_on d (w @ d # s) = w # split_on d s"
  by (induction w) (auto split: list.splits)

lemma split_on_single: "d \<notin> set w \<Longrightarrow> split_on d w = [w]"
  by (induction w) auto

lemma split_on_join:
  assumes "ws \<noteq> []" and "\<forall>w\<in>set ws. d \<notin> set w"
  shows "split_on d (join_with [d] ws) = ws"
  using assms
proof (induction ws rule: induct_list012)
  case 1
  then show ?case by simp
next
  case (2 x)
  then show ?case by (simp add: split_on_single)
next
  case (3 x y zs)
  then have "split_on d (join_with [d] (y # zs)) = y # zs" and "d \<notin> set x" by auto
  then show ?case using split_on_append [of d x "join_with [d] (y # zs)"] by simp
qed

lemma join_split_on: "join_with [d] (split_on d s) = s"
proof (induction s)
  case (Cons c cs)
  then show ?case
    by (cases "split_on d cs"; cases "tl (split_on d cs)") auto
qed simp

lemma join_with_Cons: "xs \<noteq> [] \<Longrightarrow> join_with sep (x # xs) = x @ sep @ join_with sep xs"
  by (cases xs) auto

lemma join_with_snoc: "xs \<noteq> [] \<Longrightarrow> join_with sep (xs @ [x]) = join_with sep xs @ sep @ x"
  by (induction xs rule: induct_list012) auto

lemma rev_join_with: "rev (join_with [d] ws) = join_with [d] (rev (map rev ws))"
proof (induction ws)
  case (Cons w ws)
  then show ?case by (cases "ws = []") (simp_all add: join_with_Cons join_with_snoc)
qed simp

lemma split_on_no_sep: "w \<in> set (split_on d s) \<Longrightarrow> d \<notin> set w"
  by (induction s arbitrary: w) (auto split: list.splits if_splits)

lemma str_trim_id:
  "s \<noteq> [] \<Longrightarrow> \<not> is_whitespace (hd s) \<Longrightarrow> \<not> is_whitespace (last s) \<Longrightarrow> str_trim s = s"
proof -
  assume "s \<noteq> []" and "\<not> is_whitespace (hd s)" and "\<not> is_whitespace (last s)"
  then have "dropWhile is_whitespace s = s" and "dropWhile is_whitespace (rev s) = rev s"
    by (simp_all add: dropWhile_eq_self_iff hd_rev)
  then show ?thesis by (simp add: str_defs)
qed

lemma str_trim_no_ws: "\<forall>c\<in>set s. \<not> is_whitespace c \<Longrightarrow> str_trim s = s"
  by (cases "s = []") (simp add: str_defs, simp add: str_trim_id)

lemma set_str_trim: "set (str_trim s) \<subseteq> set s"
  unfolding str_defs set_rev by (auto dest!: set_dropWhileD)

lemma set_split_on: "w \<in> set (split_on d s) \<Longrightarrow> set w \<subseteq> set s"
proof (induction s arbitrary: w)
  case (Cons c cs)
  obtain v vs where v: "split_on d cs = v # vs" by (cases "split_on d cs") auto
  show ?case
  proof (cases "c = d")
    case True
    then show ?thesis using Cons by auto
  next
    case False
    then have "w = c # v \<or> w \<in> set vs" using Cons.prems v by auto
    then show ?thesis using Cons.IH [of v] Cons.IH [of w] v by auto
  qed
qed simp

lemma hd_last_str_trim:
  assumes "str_trim s \<noteq> []"
  shows "\<not> is_whitespace (hd (str_trim s)) \<and> \<not> is_whitespace (last (str_trim s))"
proof -
  let ?t = "dropWhile is_whitespace s"
  let ?r = "dropWhile is_whitespace (rev ?t)"
  have eq: "str_trim s = rev ?r" by (simp add: str_defs)
  with assms have ne: "?r \<noteq> []" by auto
  then have "\<not> is_whitespace (hd ?r)" by (rule hd_dropWhile)
  then have "\<not> is_whitespace (last (rev ?r))" using ne by (simp add: last_rev)
  moreover have "prefix (rev ?r) ?t"
    by (metis rev_rev_ident suffix_dropWhile suffix_to_prefix)
  moreover from this ne have "hd (rev ?r) = hd ?t"
    by (metis hd_append2 prefixE rev_is_Nil_conv)
  moreover have "?t \<noteq> []" using ne by (metis dropWhile.simps(1) rev.simps(1))
  then have "\<not> is_whitespace (hd ?t)" by (rule hd_dropWhile)
  ultimately show ?thesis using eq by simp
qed

lemma str_trim_idem [simp]: "str_trim (str_trim s) = str_trim s"
  by (cases "str_trim s = []") (simp_all add: str_trim_id hd_last_str_trim, simp add: str_defs)

lemma str_trim_empty_iff: "str_trim s = [] \<longleftrightarrow> (\<forall>c\<in>set s. is_whitespace c)"
proof -
  have "str_trim s = [] \<longleftrightarrow> (\<forall>c\<in>set (dropWhile is_whitespace s). is_whitespace c)"
    by (simp add: str_defs)
  also have "\<dots> \<longleftrightarrow> dropWhile is_whitespace s = []"
    using hd_dropWhile [of is_whitespace s] by (metis empty_iff empty_set hd_in_set)
  finally show ?thesis by (auto dest: set_dropWhileD)
qed

section \<open>Options\<close>

text \<open>\<open>Option::or_else\<close>: the first result that is there.\<close>

fun or_else :: "'a option \<Rightarrow> 'a option \<Rightarrow> 'a option" where
  "or_else None y = y"
| "or_else (Some x) y = Some x"

lemma or_else_None [simp]: "or_else x None = x"
  by (cases x) auto

lemma or_else_eq_None [simp]: "or_else x y = None \<longleftrightarrow> x = None \<and> y = None"
  by (cases x) auto

lemma or_else_Some_iff: "or_else x y = Some v \<longleftrightarrow> x = Some v \<or> (x = None \<and> y = Some v)"
  by (cases x) auto

lemma or_else_assoc: "or_else (or_else x y) z = or_else x (or_else y z)"
  by (cases x) auto

section \<open>The last characters of a list\<close>

definition lastn :: "nat \<Rightarrow> 'a list \<Rightarrow> 'a list" where
  "lastn n xs = drop (length xs - n) xs"

lemma lastn_all [simp]: "length xs \<le> n \<Longrightarrow> lastn n xs = xs"
  by (simp add: lastn_def)

lemma length_lastn [simp]: "length (lastn n xs) = min n (length xs)"
  by (simp add: lastn_def)

lemma lastn_lastn_append [simp]: "lastn n (lastn n xs @ ys) = lastn n (xs @ ys)"
  by (cases "n \<le> length xs") (auto simp: lastn_def intro: arg_cong2 [where f = drop])

lemma rev_lastn: "rev (lastn n xs) = take n (rev xs)"
  by (simp add: lastn_def take_rev)

lemma suffix_lastn: "suffix (lastn n xs) xs"
  by (simp add: lastn_def suffix_drop)

lemma lastn_suffix: "suffix t s \<Longrightarrow> lastn (length t) s = t"
  by (auto simp: suffix_def lastn_def)

lemma nth_map_from_one:
  assumes "1 \<le> k" and "k \<le> n"
  shows "map f [1..<n + 1] ! (k - 1) = f k"
proof -
  have "k - 1 < length [1..<n + 1]" using assms by (simp del: upt_Suc)
  then have "map f [1..<n + 1] ! (k - 1) = f ([1..<n + 1] ! (k - 1))" by (rule nth_map)
  moreover have "[1..<n + 1] ! (k - 1) = k"
    using assms nth_upt [of 1 "k - 1" "n + 1"] by linarith
  ultimately show ?thesis by simp
qed

section \<open>Decimal numbers\<close>

definition digit_char :: "nat \<Rightarrow> char" where
  "digit_char d = char_of (48 + d)"

definition digit_val :: "char \<Rightarrow> nat" where
  "digit_val c = code c - 48"

fun show_nat :: "nat \<Rightarrow> string" where
  "show_nat n = (if n < 10 then [digit_char n] else show_nat (n div 10) @ [digit_char (n mod 10)])"

declare show_nat.simps [simp del]

definition digits_val :: "string \<Rightarrow> nat" where
  "digits_val s = foldl (\<lambda>n c. 10 * n + digit_val c) 0 s"

text \<open>\<open>str::parse\<close> at type \<open>u8\<close>: an optional plus sign, one or more digits, no overflow.\<close>

definition parse_u8 :: "string \<Rightarrow> u8 option" where
  "parse_u8 s =
     (let d = (case s of [] \<Rightarrow> [] | c # cs \<Rightarrow> if c = CHR ''+'' \<and> cs \<noteq> [] then cs else s)
      in if d \<noteq> [] \<and> list_all is_ascii_digit d \<and> digits_val d < 256
         then Some (word_of_nat (digits_val d)) else None)"

lemma is_ascii_digit_digit_char [simp]: "d < 10 \<Longrightarrow> is_ascii_digit (digit_char d)"
  by (simp add: digit_char_def char_defs)

lemma digit_val_digit_char [simp]: "d < 10 \<Longrightarrow> digit_val (digit_char d) = d"
  by (simp add: digit_char_def digit_val_def)

lemma digit_char_digit_val [simp]: "is_ascii_digit c \<Longrightarrow> digit_char (digit_val c) = c"
  by (simp add: digit_char_def digit_val_def char_defs)

lemma digit_val_less [simp]: "is_ascii_digit c \<Longrightarrow> digit_val c < 10"
  by (auto simp: digit_val_def char_defs)

lemma digits_val_snoc [simp]: "digits_val (s @ [c]) = 10 * digits_val s + digit_val c"
  by (simp add: digits_val_def)

lemma show_nat_nonempty [simp]: "show_nat n \<noteq> []"
  by (subst show_nat.simps) simp

lemma show_nat_digits: "list_all is_ascii_digit (show_nat n)"
proof (induction n rule: show_nat.induct)
  case (1 n)
  then show ?case by (subst show_nat.simps) auto
qed

lemma digits_val_show_nat [simp]: "digits_val (show_nat n) = n"
proof (induction n rule: show_nat.induct)
  case (1 n)
  show ?case
  proof (cases "n < 10")
    case True
    then show ?thesis by (subst show_nat.simps) (simp add: digits_val_def)
  next
    case False
    then show ?thesis using 1 by (subst show_nat.simps) simp
  qed
qed

lemma hd_show_nat_digit: "is_ascii_digit (hd (show_nat n))"
  using show_nat_digits [of n] by (cases "show_nat n") auto

lemma parse_u8_show_nat [simp]: "parse_u8 (show_nat (unat w)) = Some w"
proof -
  obtain c cs where s: "show_nat (unat w) = c # cs"
    using show_nat_nonempty by (cases "show_nat (unat w)") auto
  moreover from s hd_show_nat_digit [of "unat w"] have "c \<noteq> CHR ''+''"
    by (auto simp: char_defs)
  ultimately show ?thesis
    using show_nat_digits [of "unat w"] digits_val_show_nat [of "unat w"] unsigned_less [of w]
    by (simp add: parse_u8_def)
qed

end
