(* ===== verification/Buffer.thy ===== *)
theory Buffer
  imports Prelude
begin

text \<open>
  Model of \<open>core/src/engine/buffer.rs\<close>: \<open>FastBuffer\<close>, the ring of the characters typed
  last, and the queries the evaluator asks it. The record keeps the vector, the write index and
  the count of the code; \<open>contents\<close> reads it as the list of the characters in typing order.

  The lemmas show that the operations keep the ring invariant and act on the contents as list
  operations, and that the loops, which walk the ring by index, compute list functions of the
  contents.
\<close>

section \<open>The ring\<close>

definition fast_buffer_capacity :: nat where
  "fast_buffer_capacity = 1024 * 1024"

definition initial_buffer_capacity :: nat where
  "initial_buffer_capacity = 512"

record fast_buffer =
  buf_data :: string
  buf_head :: nat
  buf_len :: nat

abbreviation NUL :: char where
  "NUL \<equiv> CHR 0x00"

abbreviation capacity :: "fast_buffer \<Rightarrow> nat" where
  "capacity b \<equiv> length (buf_data b)"

definition buffer_new :: fast_buffer where
  "buffer_new = \<lparr>buf_data = replicate initial_buffer_capacity NUL, buf_head = 0, buf_len = 0\<rparr>"

text \<open>The index of the oldest character, and the step back of one position.\<close>

definition buf_start :: "fast_buffer \<Rightarrow> nat" where
  "buf_start b = (buf_head b + capacity b - buf_len b) mod capacity b"

definition buf_prev :: "fast_buffer \<Rightarrow> nat \<Rightarrow> nat" where
  "buf_prev b cur = (cur + capacity b - 1) mod capacity b"

definition grow :: "fast_buffer \<Rightarrow> fast_buffer" where
  "grow b =
     (let old_capacity = capacity b;
          new_capacity = min (old_capacity * 2) fast_buffer_capacity
      in if new_capacity \<le> old_capacity then b
         else \<lparr>buf_data = map (\<lambda>i. if i < buf_len b
                                 then buf_data b ! ((buf_start b + i) mod old_capacity)
                                 else NUL) [0..<new_capacity],
               buf_head = buf_len b, buf_len = buf_len b\<rparr>)"

definition push :: "fast_buffer \<Rightarrow> char \<Rightarrow> fast_buffer" where
  "push b c =
     (if buf_len b \<ge> capacity b \<and> capacity b \<ge> fast_buffer_capacity
      then b\<lparr>buf_data := (buf_data b)[buf_head b := c],
             buf_head := (buf_head b + 1) mod capacity b\<rparr>
      else
        (let b1 = (if buf_len b \<ge> capacity b then grow b else b) in
         b1\<lparr>buf_data := (buf_data b1)[buf_head b1 := c],
            buf_head := (buf_head b1 + 1) mod capacity b1,
            buf_len := (if buf_len b1 < capacity b1 then buf_len b1 + 1 else buf_len b1)\<rparr>))"

definition pop :: "fast_buffer \<Rightarrow> fast_buffer" where
  "pop b =
     (if buf_len b > 0 then
        (let h = buf_prev b (buf_head b) in
         b\<lparr>buf_data := (buf_data b)[h := NUL], buf_head := h, buf_len := buf_len b - 1\<rparr>)
      else b)"

fun pop_n :: "fast_buffer \<Rightarrow> nat \<Rightarrow> fast_buffer" where
  "pop_n b 0 = b"
| "pop_n b (Suc n) = pop_n (pop b) n"

lemma buf_len_pop [simp]: "buf_len (pop b) = buf_len b - 1"
  by (simp add: pop_def Let_def)

lemma capacity_pop [simp]: "capacity (pop b) = capacity b"
  by (simp add: pop_def Let_def)

text \<open>The two loops of \<open>pop_word\<close>.\<close>

function pop_whitespace :: "fast_buffer \<Rightarrow> fast_buffer" where
  "pop_whitespace b =
     (if buf_len b > 0 \<and> is_whitespace (buf_data b ! buf_prev b (buf_head b))
      then pop_whitespace (pop b) else b)"
  by pat_completeness auto
termination by (relation "measure buf_len") auto

function pop_class :: "bool \<Rightarrow> fast_buffer \<Rightarrow> fast_buffer" where
  "pop_class is_alnum b =
     (let c = buf_data b ! buf_prev b (buf_head b) in
      if buf_len b > 0 \<and> \<not> is_whitespace c \<and> is_alphanumeric c = is_alnum
      then pop_class is_alnum (pop b) else b)"
  by pat_completeness auto
termination by (relation "measure (\<lambda>(_, b). buf_len b)") auto

declare pop_whitespace.simps [simp del] pop_class.simps [simp del]

definition pop_word :: "fast_buffer \<Rightarrow> fast_buffer" where
  "pop_word b =
     (if buf_len b = 0 then b
      else let b1 = pop_whitespace b in
           if buf_len b1 = 0 then b1
           else pop_class (is_alphanumeric (buf_data b1 ! buf_prev b1 (buf_head b1))) b1)"

definition buffer_clear :: "fast_buffer \<Rightarrow> fast_buffer" where
  "buffer_clear b = \<lparr>buf_data = replicate (capacity b) NUL, buf_head = 0, buf_len = 0\<rparr>"

definition buffer_string :: "fast_buffer \<Rightarrow> string" where
  "buffer_string b =
     map (\<lambda>i. buf_data b ! ((buf_start b + i) mod capacity b)) [0..<buf_len b]"

text \<open>\<open>as_str\<close> copies one or two slices of the vector instead of reading index by index.\<close>

definition as_str :: "fast_buffer \<Rightarrow> string" where
  "as_str b =
     (if buf_len b = 0 then []
      else let start = buf_start b; stop = start + buf_len b in
           if stop \<le> capacity b then take (stop - start) (drop start (buf_data b))
           else let first_part = capacity b - start in
                drop start (buf_data b) @ take (buf_len b - first_part) (buf_data b))"

text \<open>\<open>Evaluator::is_word_boundary\<close> reads the ring directly: the last character but one.\<close>

definition is_word_boundary :: "fast_buffer \<Rightarrow> bool" where
  "is_word_boundary b =
     (if buf_len b < 2 then True
      else is_whitespace (buf_data b ! ((buf_head b + capacity b - 2) mod capacity b)))"

section \<open>The queries\<close>

function count_backslashes :: "fast_buffer \<Rightarrow> nat \<Rightarrow> nat \<Rightarrow> nat" where
  "count_backslashes b cur available =
     (if available > 0 \<and> buf_data b ! cur = CHR 0x5C
      then 1 + count_backslashes b (buf_prev b cur) (available - 1) else 0)"
  by pat_completeness auto
termination by (relation "measure (\<lambda>(_, _, a). a)") auto

declare count_backslashes.simps [simp del]

definition is_quote :: "char \<Rightarrow> bool" where
  "is_quote c \<longleftrightarrow> c = CHR 0x22 \<or> c = CHR 0x27"

text \<open>Opening and closing of a quote at an unescaped quote character.\<close>

definition toggle_quote :: "char option \<Rightarrow> char \<Rightarrow> char option" where
  "toggle_quote active c =
     (case active of Some q \<Rightarrow> if q = c then None else active | None \<Rightarrow> Some c)"

definition escaped_at :: "fast_buffer \<Rightarrow> nat \<Rightarrow> nat \<Rightarrow> char \<Rightarrow> bool" where
  "escaped_at b cur available c \<longleftrightarrow>
     is_quote c \<and> odd (count_backslashes b (buf_prev b cur) available)"

function open_quote_loop :: "fast_buffer \<Rightarrow> nat \<Rightarrow> char option \<Rightarrow> char option" where
  "open_quote_loop b i active =
     (if i < buf_len b then
        (let cur = (buf_start b + i) mod capacity b; c = buf_data b ! cur in
         open_quote_loop b (i + 1)
           (if is_quote c \<and> \<not> escaped_at b cur i c then toggle_quote active c else active))
      else active)"
  by pat_completeness auto
termination by (relation "measure (\<lambda>(b, i, _). buf_len b - i)") auto

declare open_quote_loop.simps [simp del]

definition is_inside_open_quote :: "fast_buffer \<Rightarrow> bool" where
  "is_inside_open_quote b = (if buf_len b = 0 then False else open_quote_loop b 0 None \<noteq> None)"

function trigger_count_loop ::
  "fast_buffer \<Rightarrow> char \<Rightarrow> nat \<Rightarrow> nat \<Rightarrow> char option \<Rightarrow> nat \<Rightarrow> nat" where
  "trigger_count_loop b tc cur n active count =
     (if n < buf_len b then
        (let c = buf_data b ! cur; next = trigger_count_loop b tc (buf_prev b cur) (n + 1) in
         if is_quote c \<and> \<not> escaped_at b cur (buf_len b - n - 1) c
         then next (toggle_quote active c) count
         else if is_whitespace c \<and> active = None
         then (if c = CHR 0x20 \<and> count = 0 then next active count else count)
         else if c = tc \<and> active = None then next active (count + 1)
         else next active count)
      else count)"
  by pat_completeness auto
termination by (relation "measure (\<lambda>(b, _, _, n, _, _). buf_len b - n)") auto

declare trigger_count_loop.simps [simp del]

definition trigger_char_count_in_nonwhitespace_suffix :: "fast_buffer \<Rightarrow> char \<Rightarrow> nat" where
  "trigger_char_count_in_nonwhitespace_suffix b tc =
     (if buf_len b = 0 then 0 else trigger_count_loop b tc (buf_prev b (buf_head b)) 0 None 0)"

function trigger_word_loop ::
  "fast_buffer \<Rightarrow> char \<Rightarrow> nat \<Rightarrow> nat \<Rightarrow> char option \<Rightarrow> string \<Rightarrow> string option" where
  "trigger_word_loop b tc cur n active collected =
     (if n < buf_len b then
        (let c = buf_data b ! cur; next = trigger_word_loop b tc (buf_prev b cur) (n + 1) in
         if is_quote c \<and> \<not> escaped_at b cur (buf_len b - n - 1) c
         then next (toggle_quote active c) (collected @ [c])
         else if is_whitespace c \<and> active = None
         then (if c = CHR 0x20 then next active (collected @ [c]) else None)
         else if c = tc \<and> active = None then Some (rev collected)
         else next active (collected @ [c]))
      else None)"
  by pat_completeness auto
termination by (relation "measure (\<lambda>(b, _, _, n, _, _). buf_len b - n)") auto

declare trigger_word_loop.simps [simp del]

definition extract_trigger_word :: "fast_buffer \<Rightarrow> char \<Rightarrow> string option" where
  "extract_trigger_word b tc =
     (if buf_len b = 0 then None
      else if trigger_char_count_in_nonwhitespace_suffix b tc > 1 then None
      else trigger_word_loop b tc (buf_prev b (buf_head b)) 0 None [])"

function tail_word_loop :: "fast_buffer \<Rightarrow> nat \<Rightarrow> nat \<Rightarrow> string \<Rightarrow> string" where
  "tail_word_loop b cur n collected =
     (if n < buf_len b \<and> \<not> is_whitespace (buf_data b ! cur)
      then tail_word_loop b (buf_prev b cur) (n + 1) (collected @ [buf_data b ! cur])
      else collected)"
  by pat_completeness auto
termination by (relation "measure (\<lambda>(b, _, n, _). buf_len b - n)") auto

declare tail_word_loop.simps [simp del]

definition extract_tail_word :: "fast_buffer \<Rightarrow> string option" where
  "extract_tail_word b =
     (if buf_len b = 0 then None
      else let collected = tail_word_loop b (buf_prev b (buf_head b)) 0 [] in
           if collected = [] then None else Some (rev collected))"

text \<open>\<open>windows(k).any(|w| w == kw)\<close> for a keyword of length \<open>k\<close>.\<close>

fun has_window :: "string \<Rightarrow> string \<Rightarrow> bool" where
  "has_window kw s = (prefix kw s \<or> (case s of [] \<Rightarrow> False | _ # s' \<Rightarrow> has_window kw s'))"

declare has_window.simps [simp del]

definition dictionary_keywords :: "string list" where
  "dictionary_keywords = [''mean'', ''defin'', ''synonym'', ''antonym'', ''opposit'']"

definition has_dictionary_intent :: "fast_buffer \<Rightarrow> bool" where
  "has_dictionary_intent b =
     (if buf_len b < 4 then False
      else let check_len = min (buf_len b) 80;
               tail = map (\<lambda>i. let c = buf_data b ! ((buf_head b + capacity b - check_len + i)
                                                       mod capacity b)
                              in if is_ascii c then to_ascii_lowercase c else CHR 0x20)
                          [0..<check_len]
           in list_ex (\<lambda>kw. has_window kw tail) dictionary_keywords)"

text \<open>
  \<open>extract_suffix_candidates\<close>: the inner loop that looks for three upper-case letters before a
  space, the guarded append to the 30-character stack buffer, and the outer loop.
\<close>

fun upper_run :: "fast_buffer \<Rightarrow> nat \<Rightarrow> nat \<Rightarrow> nat \<Rightarrow> string \<Rightarrow> bool \<times> string \<times> nat \<times> nat" where
  "upper_run b 0 check_curr check_n chars = (True, chars, check_curr, check_n)"
| "upper_run b (Suc slots) check_curr check_n chars =
     (if check_n < buf_len b \<and> check_n < 30 \<and> is_ascii_uppercase (buf_data b ! check_curr)
      then upper_run b slots (buf_prev b check_curr) (check_n + 1)
             (chars @ [buf_data b ! check_curr])
      else (False, chars, check_curr, check_n))"

definition collect :: "string \<Rightarrow> char \<Rightarrow> string" where
  "collect collected c = (if length collected < 30 then collected @ [c] else collected)"

lemma upper_run_count: "upper_run b k cc cn cs = (ok, cs', cc', cn') \<Longrightarrow> cn \<le> cn'"
  by (induction b k cc cn cs rule: upper_run.induct) (auto split: if_splits)

function candidates_loop :: "fast_buffer \<Rightarrow> nat \<Rightarrow> nat \<Rightarrow> string \<Rightarrow> string" where
  "candidates_loop b cur n collected =
     (if n < buf_len b \<and> n < 30 \<and> length collected < 30 then
        (let c = buf_data b ! cur in
         if is_whitespace c then
           (let (ok, chars, check_curr, check_n) =
              (if c = CHR 0x20 \<and> n > 0 then upper_run b 3 (buf_prev b cur) (n + 1) []
               else (False, [], cur, n + 1))
            in if ok then
                 (let has_minus = check_n < buf_len b \<and> check_n < 30 \<and>
                                  buf_data b ! check_curr = CHR ''-'';
                      collected1 = foldl collect (collect collected (CHR 0x20)) chars;
                      collected2 = (if has_minus then collect collected1 (CHR ''-'')
                                    else collected1)
                  in candidates_loop b
                       (if has_minus then buf_prev b check_curr else check_curr)
                       (if has_minus then check_n + 1 else check_n) collected2)
               else candidates_loop b (buf_prev b cur) (n + 1) (collect collected (CHR 0x20)))
         else candidates_loop b (buf_prev b cur) (n + 1) (collect collected c))
      else collected)"
  by pat_completeness auto
termination
proof (relation "measure (\<lambda>(b, _, n, _). 30 - n)", goal_cases)
  case (2 b cur n collected c p ok q chars r check_curr check_n has_minus c1 c2)
  then have "n + 1 \<le> check_n"
    by (auto split: if_splits dest: upper_run_count [OF sym])
  with 2 show ?case by auto
qed auto

declare candidates_loop.simps [simp del]

definition extract_suffix_candidates :: "fast_buffer \<Rightarrow> (string \<times> char option) list" where
  "extract_suffix_candidates b =
     (if buf_len b = 0 then []
      else let collected = candidates_loop b (buf_prev b (buf_head b)) 0 [] in
           map (\<lambda>k. (rev (take k collected),
                     if k < length collected then Some (collected ! k) else None))
               [1..<length collected + 1])"

section \<open>The ring invariant and the contents\<close>

definition ring_inv :: "fast_buffer \<Rightarrow> bool" where
  "ring_inv b \<longleftrightarrow> 0 < capacity b \<and> capacity b \<le> fast_buffer_capacity \<and>
     buf_head b < capacity b \<and> buf_len b \<le> capacity b"

abbreviation contents :: "fast_buffer \<Rightarrow> string" where
  "contents \<equiv> buffer_string"

text \<open>The index of the \<open>k\<close>-th character from the end.\<close>

definition from_end :: "fast_buffer \<Rightarrow> nat \<Rightarrow> nat" where
  "from_end b k = (buf_head b + capacity b - k) mod capacity b"

lemma wrap_sub [ring_simps]:
  assumes "h < (n::nat)" and "0 < k" and "k \<le> n"
  shows "(h + n - k) mod n = (if k \<le> h then h - k else h + n - k)"
proof (cases "k \<le> h")
  case True
  then have eq: "h + n - k = (h - k) + n" by simp
  have "(h + n - k) mod n = h - k" unfolding eq using assms by simp
  with True show ?thesis by simp
qed (use assms in simp)

lemma wrap_sub_twice [ring_simps]:
  assumes "h < k" and "k \<le> (n::nat)"
  shows "(h + n + n - k) mod n = h + n - k"
proof -
  have eq: "h + n + n - k = (h + n - k) + n" using assms by simp
  have "h + n - k < n" using assms by linarith
  then have "((h + n - k) + n) mod n = h + n - k" by simp
  then show ?thesis by (simp only: eq)
qed

lemma wrap_add [ring_simps]:
  assumes "(a::nat) < n" and "b < n"
  shows "(a + b) mod n = (if a + b < n then a + b else a + b - n)"
  using assms by (simp add: mod_if)

lemma wrap_Suc [ring_simps]: "h < (n::nat) \<Longrightarrow> Suc h mod n = (if Suc h < n then Suc h else 0)"
  by (auto simp: mod_Suc)

lemma wrap_zero [ring_simps]: "h < (n::nat) \<Longrightarrow> (h + n) mod n = h"
  by simp

lemma from_end_less [simp]: "0 < capacity b \<Longrightarrow> from_end b k < capacity b"
  by (simp add: from_end_def)

lemma from_end_eq:
  "ring_inv b \<Longrightarrow> 0 < k \<Longrightarrow> k \<le> capacity b \<Longrightarrow>
   from_end b k = (if k \<le> buf_head b then buf_head b - k else buf_head b + capacity b - k)"
  by (simp add: from_end_def ring_inv_def wrap_sub)

lemma from_end_inject:
  "ring_inv b \<Longrightarrow> 0 < j \<Longrightarrow> j \<le> capacity b \<Longrightarrow> 0 < k \<Longrightarrow> k \<le> capacity b \<Longrightarrow>
   from_end b j = from_end b k \<longleftrightarrow> j = k"
  by (auto simp: from_end_eq ring_inv_def split: if_splits)

lemma from_end_full: "ring_inv b \<Longrightarrow> from_end b (capacity b) = buf_head b"
  by (simp add: from_end_def ring_inv_def)

lemma prev_from_end:
  assumes "ring_inv b" and "0 < k" and "k < capacity b"
  shows "buf_prev b (from_end b k) = from_end b (Suc k)"
  using assms by (auto simp: buf_prev_def from_end_eq ring_inv_def wrap_sub wrap_sub_twice)

lemma prev_head: "ring_inv b \<Longrightarrow> buf_prev b (buf_head b) = from_end b 1"
  by (simp add: buf_prev_def from_end_def)

lemma start_add:
  assumes "ring_inv b" and "i < buf_len b"
  shows "(buf_start b + i) mod capacity b = from_end b (buf_len b - i)"
proof -
  from assms have len: "0 < buf_len b" "buf_len b \<le> capacity b" and h: "buf_head b < capacity b"
    by (auto simp: ring_inv_def)
  then have start: "buf_start b = from_end b (buf_len b)" by (simp add: buf_start_def from_end_def)
  moreover have "0 < capacity b" using h by linarith
  ultimately have "buf_start b < capacity b" using from_end_less by simp
  then have sum: "(buf_start b + i) mod capacity b =
      (if buf_start b + i < capacity b then buf_start b + i else buf_start b + i - capacity b)"
    using assms len by (intro wrap_add) simp_all
  have "from_end b k = (if k \<le> buf_head b then buf_head b - k else buf_head b + capacity b - k)"
    if "0 < k" "k \<le> buf_len b" for k
    using that assms(1) len by (intro from_end_eq) simp_all
  note fe = this [of "buf_len b"] this [of "buf_len b - i"]
  show ?thesis unfolding sum unfolding start using assms(2) len h fe by auto
qed

lemma length_contents [simp]: "length (contents b) = buf_len b"
  by (simp add: buffer_string_def)

lemma contents_Nil_iff: "contents b = [] \<longleftrightarrow> buf_len b = 0"
  by (simp add: buffer_string_def)

lemma contents_empty [simp]: "buf_len b = 0 \<Longrightarrow> contents b = []"
  by (simp add: buffer_string_def)

lemma contents_nth:
  "ring_inv b \<Longrightarrow> i < buf_len b \<Longrightarrow> contents b ! i = buf_data b ! from_end b (buf_len b - i)"
  by (simp add: buffer_string_def start_add)

lemma data_from_end:
  assumes "ring_inv b" and "0 < k" and "k \<le> buf_len b"
  shows "buf_data b ! from_end b k = rev (contents b) ! (k - 1)"
  using assms by (simp add: rev_nth contents_nth)

lemma contents_eqI:
  assumes "ring_inv b" and "length xs = buf_len b"
    and "\<And>k. 0 < k \<Longrightarrow> k \<le> buf_len b \<Longrightarrow> buf_data b ! from_end b k = xs ! (buf_len b - k)"
  shows "contents b = xs"
proof (rule nth_equalityI)
  fix i assume "i < length (contents b)"
  then show "contents b ! i = xs ! i"
    using assms(1,2) assms(3) [of "buf_len b - i"] by (simp add: contents_nth)
qed (simp add: assms(2))

lemma ring_inv_new [simp]: "ring_inv buffer_new"
  by (simp add: ring_inv_def buffer_new_def initial_buffer_capacity_def fast_buffer_capacity_def)

lemma contents_new [simp]: "contents buffer_new = []"
  by (simp add: buffer_new_def)

lemma ring_inv_clear [simp]: "ring_inv b \<Longrightarrow> ring_inv (buffer_clear b)"
  by (simp add: ring_inv_def buffer_clear_def)

lemma contents_clear [simp]: "contents (buffer_clear b) = []"
  by (simp add: buffer_clear_def)

lemma ring_inv_pop [simp]: "ring_inv b \<Longrightarrow> ring_inv (pop b)"
  by (auto simp: ring_inv_def pop_def Let_def buf_prev_def)

lemma contents_pop [simp]:
  assumes "ring_inv b"
  shows "contents (pop b) = butlast (contents b)"
proof (cases "buf_len b = 0")
  case False
  let ?p = "pop b"
  have head: "buf_head ?p = from_end b 1"
    using False assms by (simp add: pop_def Let_def prev_head)
  have data: "buf_data ?p = (buf_data b)[from_end b 1 := NUL]"
    using False assms by (simp add: pop_def Let_def prev_head)
  show ?thesis
  proof (rule contents_eqI)
    fix k assume k: "0 < k" "k \<le> buf_len ?p"
    then have "k < buf_len b" using False by simp
    then have "k < capacity b" using assms by (simp add: ring_inv_def)
    then have "from_end ?p k = from_end b (Suc k)"
      using assms k by (auto simp: from_end_def [of ?p] head from_end_eq ring_inv_def wrap_sub
          wrap_sub_twice)
    moreover have "from_end b (Suc k) \<noteq> from_end b 1"
      using \<open>k < capacity b\<close> k assms by (simp add: from_end_inject del: One_nat_def)
    ultimately show "buf_data ?p ! from_end ?p k = butlast (contents b) ! (buf_len ?p - k)"
      using k \<open>k < buf_len b\<close> assms by (simp add: data data_from_end rev_nth nth_butlast)
  qed (use assms in simp_all)
qed (simp add: pop_def buffer_string_def)

text \<open>Growing keeps the contents and makes room.\<close>

lemma grow_props:
  assumes "ring_inv b" and "capacity b < fast_buffer_capacity"
  shows "ring_inv (grow b) \<and> contents (grow b) = contents b \<and> buf_len (grow b) = buf_len b \<and>
     buf_len b < capacity (grow b)"
proof -
  let ?n = "min (capacity b * 2) fast_buffer_capacity"
  have lt: "capacity b < ?n" using assms by (auto simp: ring_inv_def)
  then have g: "grow b = \<lparr>buf_data = map (\<lambda>i. if i < buf_len b
        then buf_data b ! ((buf_start b + i) mod capacity b) else NUL) [0..<?n],
      buf_head = buf_len b, buf_len = buf_len b\<rparr>"
    by (simp only: grow_def Let_def not_le [symmetric] if_False)
  have len: "buf_len b < ?n" using lt assms by (auto simp: ring_inv_def)
  have inv: "ring_inv (grow b)" using len assms by (auto simp: g ring_inv_def)
  moreover have "contents (grow b) = contents b"
  proof (rule contents_eqI [OF inv])
    fix k assume k: "0 < k" "k \<le> buf_len (grow b)"
    then have "from_end (grow b) k = buf_len b - k"
      using inv len by (subst from_end_eq) (auto simp: g)
    then show "buf_data (grow b) ! from_end (grow b) k = contents b ! (buf_len (grow b) - k)"
    proof -
      have "buf_len b - k < ?n" using len by (rule le_less_trans [rotated]) simp
      moreover have "buf_len b - k < buf_len b" using k by (simp add: g)
      ultimately have "buf_len b - k < ?n" "buf_len b - k < buf_len b" by blast+
      with \<open>from_end (grow b) k = buf_len b - k\<close> show ?thesis
        by (simp add: g buffer_string_def del: min_less_iff_conj)
    qed
  qed (simp add: g)
  ultimately show ?thesis using len by (simp add: g)
qed

text \<open>One write at the head: with room the contents grow, in a full ring the oldest is lost.\<close>

lemma write_head:
  assumes inv: "ring_inv b"
    and b': "b' = b\<lparr>buf_data := (buf_data b)[buf_head b := c],
        buf_head := (buf_head b + 1) mod capacity b, buf_len := l\<rparr>"
    and l: "l = min (Suc (buf_len b)) (capacity b)"
  shows "ring_inv b' \<and> contents b' = lastn (capacity b) (contents b @ [c])"
proof -
  have cap: "capacity b' = capacity b" and len: "buf_len b' = l" by (simp_all add: b')
  have inv': "ring_inv b'" using inv by (auto simp: b' l ring_inv_def)
  moreover have "contents b' = lastn (capacity b) (contents b @ [c])"
  proof (rule contents_eqI [OF inv'])
    have "buf_len b \<le> capacity b" using inv by (simp add: ring_inv_def)
    then show "length (lastn (capacity b) (contents b @ [c])) = buf_len b'"
      by (simp add: len l)
    fix k assume k: "0 < k" "k \<le> buf_len b'"
    show "buf_data b' ! from_end b' k = lastn (capacity b) (contents b @ [c]) ! (buf_len b' - k)"
    proof (cases "k = 1")
      case True
      then have "from_end b' k = buf_head b"
        using inv by (auto simp: from_end_def b' ring_inv_def wrap_Suc wrap_sub)
      then show ?thesis
        using inv True by (auto simp: b' l ring_inv_def lastn_def nth_append)
    next
      case False
      with k have k1: "0 < k - 1" "k - 1 \<le> buf_len b" "k - 1 < capacity b"
        by (auto simp: len l)
      have "from_end b' k = (Suc (buf_head b) mod capacity b + capacity b - k) mod capacity b"
        by (simp add: from_end_def b')
      also have "\<dots> = from_end b (k - 1)"
        using inv k k1 False by (auto simp: from_end_eq ring_inv_def wrap_Suc wrap_sub)
      finally have "from_end b' k = from_end b (k - 1)" .
      moreover have "from_end b (k - 1) \<noteq> buf_head b"
        using k1 inv from_end_inject [of b "k - 1" "capacity b"] by (simp add: from_end_full ring_inv_def)
      moreover have "buf_data b ! from_end b (k - 1) = contents b ! (buf_len b - (k - 1))"
        using k1 inv by (simp add: data_from_end rev_nth)
      ultimately show ?thesis
        using k1 k \<open>buf_len b \<le> capacity b\<close>
        by (auto simp: b' l lastn_def nth_append min_def)
    qed
  qed
  ultimately show ?thesis by simp
qed

lemma push_props:
  assumes "ring_inv b"
  shows "ring_inv (push b c) \<and> contents (push b c) = lastn fast_buffer_capacity (contents b @ [c])"
proof -
  have len: "buf_len b \<le> capacity b" "capacity b \<le> fast_buffer_capacity"
    using assms by (auto simp: ring_inv_def)
  show ?thesis
  proof (cases "buf_len b < capacity b")
    case True
    then show ?thesis
      using write_head [OF assms, where b' = "push b c" and c = c and l = "Suc (buf_len b)"] len
      by (simp add: push_def Let_def)
  next
    case full: False
    then have eq: "buf_len b = capacity b" using len by simp
    show ?thesis
    proof (cases "capacity b < fast_buffer_capacity")
      case True
      from grow_props [OF assms this] have g: "ring_inv (grow b)" "contents (grow b) = contents b"
        "buf_len (grow b) = buf_len b" "buf_len b < capacity (grow b)"
        by auto
      moreover have "capacity (grow b) \<le> fast_buffer_capacity" using g(1) by (simp add: ring_inv_def)
      ultimately show ?thesis
        using write_head [OF g(1), where b' = "push b c" and c = c and l = "Suc (buf_len b)"] True eq
        by (simp add: push_def Let_def)
    next
      case False
      then have "capacity b = fast_buffer_capacity" using len by simp
      then show ?thesis
        using write_head [OF assms, where b' = "push b c" and c = c and l = "capacity b"] eq
        by (simp add: push_def Let_def)
    qed
  qed
qed

lemma ring_inv_push [simp]: "ring_inv b \<Longrightarrow> ring_inv (push b c)"
  using push_props by blast

lemma contents_push [simp]:
  "ring_inv b \<Longrightarrow> contents (push b c) = lastn fast_buffer_capacity (contents b @ [c])"
  using push_props by blast

lemma length_contents_cap: "ring_inv b \<Longrightarrow> length (contents b) \<le> fast_buffer_capacity"
  by (auto simp: ring_inv_def)

section \<open>The contract of a bounded text tail\<close>

text \<open>
  What the evaluator and the completion code need of a buffer: it is a list of at most
  \<open>cap\<close> characters, \<open>push\<close> appends and forgets the oldest on overflow, \<open>pop\<close> removes the last.
  The lemmas about typing, deleting and rewriting text are proved here once.
\<close>

locale text_tail =
  fixes invar :: "'b \<Rightarrow> bool" and text_of :: "'b \<Rightarrow> string" and cap :: nat
    and add :: "'b \<Rightarrow> char \<Rightarrow> 'b" and remove :: "'b \<Rightarrow> 'b"
  assumes invar_add: "invar b \<Longrightarrow> invar (add b c)"
    and invar_remove: "invar b \<Longrightarrow> invar (remove b)"
    and text_add: "invar b \<Longrightarrow> text_of (add b c) = lastn cap (text_of b @ [c])"
    and text_remove: "invar b \<Longrightarrow> text_of (remove b) = butlast (text_of b)"
    and text_bound: "invar b \<Longrightarrow> length (text_of b) \<le> cap"
begin

lemma invar_foldl_add: "invar b \<Longrightarrow> invar (foldl add b cs)"
  by (induction cs arbitrary: b) (simp_all add: invar_add)

lemma text_foldl_add: "invar b \<Longrightarrow> text_of (foldl add b cs) = lastn cap (text_of b @ cs)"
proof (induction cs arbitrary: b)
  case Nil
  then show ?case by (simp add: text_bound)
next
  case (Cons c cs)
  then show ?case by (simp add: invar_add text_add)
qed

lemma invar_funpow_remove: "invar b \<Longrightarrow> invar ((remove ^^ n) b)"
  by (induction n) (simp_all add: invar_remove)

lemma text_funpow_remove:
  "invar b \<Longrightarrow> text_of ((remove ^^ n) b) = take (length (text_of b) - n) (text_of b)"
proof (induction n)
  case (Suc n)
  then show ?case
    by (simp add: invar_funpow_remove text_remove butlast_take)
qed simp

text \<open>Deleting a suffix and typing a replacement.\<close>

lemma text_rewrite:
  assumes "invar b" and "text_of b = p @ w"
  shows "text_of (foldl add ((remove ^^ length w) b) r) = lastn cap (p @ r)"
  using assms by (simp add: text_foldl_add invar_funpow_remove text_funpow_remove)

end

interpretation fb: text_tail ring_inv contents fast_buffer_capacity push pop
  by unfold_locales (simp_all add: length_contents_cap [simplified])

lemma pop_n_funpow: "pop_n b n = (pop ^^ n) b"
  by (induction n arbitrary: b) (simp_all add: funpow_swap1)

section \<open>Deleting a word\<close>

lemma read_last:
  "ring_inv b \<Longrightarrow> 0 < buf_len b \<Longrightarrow> buf_data b ! buf_prev b (buf_head b) = last (contents b)"
  using data_from_end [of b 1]
  by (simp add: prev_head rev_nth last_conv_nth [of "contents b"] contents_Nil_iff)

text \<open>\<open>pop_word\<close> on the reversed text: drop whitespace, then the run of one class.\<close>

definition drop_word :: "string \<Rightarrow> string" where
  "drop_word r =
     (case dropWhile is_whitespace r of
        [] \<Rightarrow> []
      | c # cs \<Rightarrow> dropWhile (\<lambda>x. \<not> is_whitespace x \<and> is_alphanumeric x = is_alphanumeric c) (c # cs))"

lemma rev_butlast: "rev (butlast xs) = tl (rev xs)"
  by (metis butlast_rev rev_rev_ident)

lemma rev_contents_pop: "ring_inv b \<Longrightarrow> rev (contents (pop b)) = tl (rev (contents b))"
  by (simp add: rev_butlast)

lemma rev_contents_Cons:
  "ring_inv b \<Longrightarrow> 0 < buf_len b \<Longrightarrow>
   rev (contents b) = buf_data b ! buf_prev b (buf_head b) # rev (contents (pop b))"
proof -
  assume b: "ring_inv b" "0 < buf_len b"
  then have "contents b \<noteq> []" by (simp add: contents_Nil_iff)
  then have "contents b = butlast (contents b) @ [last (contents b)]" by simp
  then have "rev (contents b) = last (contents b) # rev (butlast (contents b))"
    by (metis rev_append append_Cons append_Nil rev.simps)
  then show ?thesis using b by (simp add: read_last)
qed

lemma pop_whitespace_spec:
  "ring_inv b \<Longrightarrow> ring_inv (pop_whitespace b) \<and>
     rev (contents (pop_whitespace b)) = dropWhile is_whitespace (rev (contents b))"
proof (induction b rule: pop_whitespace.induct)
  case (1 b)
  show ?case
  proof (cases "buf_len b = 0")
    case True
    with 1 show ?thesis by (simp add: pop_whitespace.simps [of b])
  next
    case False
    then show ?thesis
      using 1 rev_contents_Cons [of b]
      by (simp add: pop_whitespace.simps [of b] del: contents_pop)
  qed
qed

lemma pop_class_spec:
  "ring_inv b \<Longrightarrow> ring_inv (pop_class a b) \<and>
     rev (contents (pop_class a b)) =
       dropWhile (\<lambda>x. \<not> is_whitespace x \<and> is_alphanumeric x = a) (rev (contents b))"
proof (induction a b rule: pop_class.induct)
  case (1 a b)
  show ?case
  proof (cases "buf_len b = 0")
    case True
    with 1 show ?thesis by (simp add: pop_class.simps [of a b] Let_def)
  next
    case False
    then show ?thesis
      using 1 rev_contents_Cons [of b]
      by (simp add: pop_class.simps [of a b] Let_def del: contents_pop)
  qed
qed

lemma pop_word_spec:
  assumes "ring_inv b"
  shows "ring_inv (pop_word b) \<and> rev (contents (pop_word b)) = drop_word (rev (contents b))"
proof -
  let ?w = "pop_whitespace b"
  from pop_whitespace_spec [OF assms] have w: "ring_inv ?w"
    "rev (contents ?w) = dropWhile is_whitespace (rev (contents b))"
    by auto
  show ?thesis
  proof (cases "buf_len ?w = 0")
    case True
    then have "dropWhile is_whitespace (rev (contents b)) = []" using w(2) by simp
    then have "rev (contents (pop_word b)) = [] \<and> drop_word (rev (contents b)) = []"
      using True w(2) by (cases "buf_len b = 0") (simp_all add: pop_word_def drop_word_def Let_def)
    moreover have "ring_inv (pop_word b)"
      using assms w(1) True by (simp add: pop_word_def Let_def)
    ultimately show ?thesis by simp
  next
    case False
    then have "rev (contents ?w) = buf_data ?w ! buf_prev ?w (buf_head ?w) # rev (contents (pop ?w))"
      using w(1) by (simp add: rev_contents_Cons del: contents_pop)
    moreover have "0 < buf_len b"
    proof (rule ccontr)
      assume "\<not> 0 < buf_len b"
      then have "contents b = []" by simp
      then show False using w(2) False contents_Nil_iff [of ?w] by simp
    qed
    ultimately show ?thesis
      using False pop_class_spec [OF w(1)] w(2) [symmetric]
      by (simp add: pop_word_def drop_word_def Let_def del: contents_pop)
  qed
qed

section \<open>Reading the ring backwards\<close>

definition at_pos :: "fast_buffer \<Rightarrow> nat \<Rightarrow> nat \<Rightarrow> bool" where
  "at_pos b n cur \<longleftrightarrow> (n < buf_len b \<longrightarrow> cur = from_end b (Suc n))"

abbreviation rtext :: "fast_buffer \<Rightarrow> string" where
  "rtext b \<equiv> rev (contents b)"

lemma at_pos_start: "ring_inv b \<Longrightarrow> at_pos b 0 (buf_prev b (buf_head b))"
  by (simp add: at_pos_def prev_head)

lemma at_pos_next:
  "ring_inv b \<Longrightarrow> at_pos b n cur \<Longrightarrow> n < buf_len b \<Longrightarrow> at_pos b (Suc n) (buf_prev b cur)"
  by (auto simp: at_pos_def ring_inv_def intro!: prev_from_end)

lemma drop_rtext:
  assumes "ring_inv b" and "at_pos b n cur" and "n < buf_len b"
  shows "drop n (rtext b) = buf_data b ! cur # drop (Suc n) (rtext b)"
proof -
  have "buf_data b ! cur = rtext b ! n"
    using assms data_from_end [of b "Suc n"] by (simp add: at_pos_def)
  then show ?thesis using assms(3) by (simp add: Cons_nth_drop_Suc)
qed

lemma drop_rtext_end: "\<not> n < buf_len b \<Longrightarrow> drop n (rtext b) = []"
  by simp

text \<open>The number of backslashes a reversed text begins with; an odd number escapes a quote.\<close>

definition backslashes :: "string \<Rightarrow> nat" where
  "backslashes r = length (takeWhile (\<lambda>c. c = CHR 0x5C) r)"

lemma count_backslashes_spec:
  assumes "ring_inv b"
    and "at_pos b n cur" and "n + available = buf_len b"
  shows "count_backslashes b cur available = backslashes (drop n (rtext b))"
  using assms
proof (induction b cur available arbitrary: n rule: count_backslashes.induct)
  case (1 b cur available)
  show ?case
  proof (cases "available > 0")
    case True
    then have n: "n < buf_len b" using 1 by simp
    note d = drop_rtext [OF "1.prems"(1,2) n] and nx = at_pos_next [OF "1.prems"(1,2) n]
    show ?thesis
      using True 1 nx by (simp add: count_backslashes.simps [of b cur] d backslashes_def)
  next
    case False
    then show ?thesis
      using 1 by (simp add: count_backslashes.simps [of b cur] backslashes_def)
  qed
qed

lemma escaped_at_spec:
  assumes "ring_inv b" and "at_pos b n cur" and "n < buf_len b" and "available = buf_len b - n - 1"
  shows "escaped_at b cur available c \<longleftrightarrow> is_quote c \<and> odd (backslashes (drop (Suc n) (rtext b)))"
  using count_backslashes_spec [OF assms(1) at_pos_next [OF assms(1-3)], of available] assms(3,4)
  by (simp add: escaped_at_def)

section \<open>The queries as list functions\<close>

fun trigger_count_list :: "char \<Rightarrow> char option \<Rightarrow> nat \<Rightarrow> string \<Rightarrow> nat" where
  "trigger_count_list tc active count [] = count"
| "trigger_count_list tc active count (c # rest) =
     (if is_quote c \<and> even (backslashes rest)
      then trigger_count_list tc (toggle_quote active c) count rest
      else if is_whitespace c \<and> active = None
      then (if c = CHR 0x20 \<and> count = 0 then trigger_count_list tc active count rest else count)
      else if c = tc \<and> active = None then trigger_count_list tc active (count + 1) rest
      else trigger_count_list tc active count rest)"

fun trigger_word_list :: "char \<Rightarrow> char option \<Rightarrow> string \<Rightarrow> string \<Rightarrow> string option" where
  "trigger_word_list tc active collected [] = None"
| "trigger_word_list tc active collected (c # rest) =
     (if is_quote c \<and> even (backslashes rest)
      then trigger_word_list tc (toggle_quote active c) (collected @ [c]) rest
      else if is_whitespace c \<and> active = None
      then (if c = CHR 0x20 then trigger_word_list tc active (collected @ [c]) rest else None)
      else if c = tc \<and> active = None then Some (rev collected)
      else trigger_word_list tc active (collected @ [c]) rest)"

lemma trigger_count_loop_spec:
  assumes "ring_inv b" and "at_pos b n cur"
  shows "trigger_count_loop b tc cur n active count =
    trigger_count_list tc active count (drop n (rtext b))"
  using assms
proof (induction b tc cur n active count rule: trigger_count_loop.induct)
  case (1 b tc cur n active count)
  show ?case
  proof (cases "n < buf_len b")
    case True
    note d = drop_rtext [OF "1.prems" True] and nx = at_pos_next [OF "1.prems" True]
    note e = escaped_at_spec [OF "1.prems" True refl]
    have ih: "trigger_count_loop b tc (buf_prev b cur) (n + 1) a k =
        trigger_count_list tc a k (drop (Suc n) (rtext b))" for a k
      using "1.IH" [OF True refl "1.prems"(1)] nx by simp
    show ?thesis
      unfolding trigger_count_loop.simps [of b tc cur] Let_def ih d trigger_count_list.simps e
      using True by simp
  next
    case False
    then show ?thesis by (simp add: trigger_count_loop.simps [of b tc cur])
  qed
qed

lemma trigger_word_loop_spec:
  assumes "ring_inv b" and "at_pos b n cur"
  shows "trigger_word_loop b tc cur n active collected =
    trigger_word_list tc active collected (drop n (rtext b))"
  using assms
proof (induction b tc cur n active collected rule: trigger_word_loop.induct)
  case (1 b tc cur n active collected)
  show ?case
  proof (cases "n < buf_len b")
    case True
    note d = drop_rtext [OF "1.prems" True] and nx = at_pos_next [OF "1.prems" True]
    note e = escaped_at_spec [OF "1.prems" True refl]
    have ih: "trigger_word_loop b tc (buf_prev b cur) (n + 1) a s =
        trigger_word_list tc a s (drop (Suc n) (rtext b))" for a s
      using "1.IH" [OF True refl "1.prems"(1)] nx by simp
    show ?thesis
      unfolding trigger_word_loop.simps [of b tc cur] Let_def ih d trigger_word_list.simps e
      using True by simp
  next
    case False
    then show ?thesis by (simp add: trigger_word_loop.simps [of b tc cur])
  qed
qed

lemma extract_trigger_word_list:
  assumes "ring_inv b"
  shows "extract_trigger_word b tc =
    (if trigger_count_list tc None 0 (rtext b) > 1 then None
     else trigger_word_list tc None [] (rtext b))"
  using trigger_count_loop_spec [OF assms at_pos_start [OF assms], of tc None 0]
    trigger_word_loop_spec [OF assms at_pos_start [OF assms], of tc None "[]"]
  by (auto simp: extract_trigger_word_def trigger_char_count_in_nonwhitespace_suffix_def)

lemma trigger_word_list_split:
  "trigger_word_list tc active collected r = Some w \<Longrightarrow>
   \<exists>pre post. r = pre @ tc # post \<and> w = rev (collected @ pre)"
proof (induction tc active collected r rule: trigger_word_list.induct)
  case (2 tc active collected c rest)
  show ?case
  proof (cases "trigger_word_list tc active collected (c # rest) = Some (rev collected) \<and> c = tc
      \<and> w = rev collected")
    case True
    then show ?thesis by (intro exI [of _ "[]"] exI [of _ rest]) simp
  next
    case False
    then obtain a where "trigger_word_list tc a (collected @ [c]) rest = Some w"
      and IH: "\<exists>pre post. rest = pre @ tc # post \<and> w = rev ((collected @ [c]) @ pre)"
      using 2 by (auto split: if_splits)
    then show ?thesis by (metis append_Cons append_assoc append_Nil)
  qed
qed simp

lemma tail_word_loop_spec:
  assumes "ring_inv b" and "at_pos b n cur"
  shows "tail_word_loop b cur n collected =
    collected @ takeWhile (\<lambda>c. \<not> is_whitespace c) (drop n (rtext b))"
  using assms
proof (induction b cur n collected rule: tail_word_loop.induct)
  case (1 b cur n collected)
  show ?case
  proof (cases "n < buf_len b")
    case True
    note d = drop_rtext [OF "1.prems" True] and nx = at_pos_next [OF "1.prems" True]
    show ?thesis
      using "1.IH" "1.prems"(1) nx True
      by (simp add: tail_word_loop.simps [of b cur] d)
  next
    case False
    then show ?thesis by (simp add: tail_word_loop.simps [of b cur])
  qed
qed

lemma extract_tail_word_list:
  assumes "ring_inv b"
  shows "extract_tail_word b =
    (let t = takeWhile (\<lambda>c. \<not> is_whitespace c) (rtext b) in
     if t = [] then None else Some (rev t))"
  using tail_word_loop_spec [OF assms at_pos_start [OF assms], of "[]"]
  by (auto simp: extract_tail_word_def Let_def)

text \<open>The quote state of a text, read forwards; \<open>seen\<close> is the reversed text before it.\<close>

fun quote_state :: "string \<Rightarrow> char option \<Rightarrow> string \<Rightarrow> char option" where
  "quote_state seen active [] = active"
| "quote_state seen active (c # cs) =
     quote_state (c # seen)
       (if is_quote c \<and> even (backslashes seen) then toggle_quote active c else active) cs"

lemma open_quote_loop_spec:
  assumes "ring_inv b"
  shows "open_quote_loop b i active =
    quote_state (rev (take i (contents b))) active (drop i (contents b))"
  using assms
proof (induction b i active rule: open_quote_loop.induct)
  case (1 b i active)
  show ?case
  proof (cases "i < buf_len b")
    case True
    let ?cur = "from_end b (buf_len b - i)" and ?n = "buf_len b - Suc i"
    have pos: "at_pos b ?n ?cur" and n: "?n < buf_len b"
      using True by (simp_all add: at_pos_def Suc_diff_Suc)
    have cur: "(buf_start b + i) mod capacity b = ?cur" using True 1 by (simp add: start_add)
    have rd: "buf_data b ! ?cur = contents b ! i" using True 1 by (simp add: contents_nth)
    have "drop (Suc ?n) (rtext b) = rev (take i (contents b))"
      using True by (simp add: rev_take Suc_diff_Suc)
    moreover have "i = buf_len b - ?n - 1" using True by simp
    ultimately have e: "escaped_at b ?cur i c \<longleftrightarrow>
        is_quote c \<and> odd (backslashes (rev (take i (contents b))))" for c
      using escaped_at_spec [OF "1.prems" pos n, of i c] by simp
    have "drop i (contents b) = contents b ! i # drop (Suc i) (contents b)"
      and "rev (take (Suc i) (contents b)) = contents b ! i # rev (take i (contents b))"
      using True by (simp_all add: Cons_nth_drop_Suc take_Suc_conv_app_nth)
    then show ?thesis
      using "1.IH" [OF True refl refl "1.prems", unfolded cur rd e] True
      by (auto simp: open_quote_loop.simps [of b i] cur rd e Let_def split: if_splits)
  next
    case False
    then show ?thesis by (simp add: open_quote_loop.simps [of b i])
  qed
qed

lemma is_inside_open_quote_list:
  assumes "ring_inv b"
  shows "is_inside_open_quote b \<longleftrightarrow> quote_state [] None (contents b) \<noteq> None"
  using open_quote_loop_spec [OF assms, of 0 None]
  by (simp add: is_inside_open_quote_def)

lemma nth_start:
  assumes "ring_inv b" and "k \<le> buf_len b" and "i < k"
  shows "(buf_head b + capacity b - k + i) mod capacity b = from_end b (k - i)"
proof -
  have "buf_head b + capacity b - k + i = buf_head b + capacity b - (k - i)"
    using assms by (auto simp: ring_inv_def)
  then show ?thesis by (simp add: from_end_def)
qed

lemma as_str_contents:
  assumes "ring_inv b"
  shows "as_str b = contents b"
proof (cases "buf_len b = 0")
  case False
  let ?s = "buf_start b"
  have bnd: "?s < capacity b" "buf_len b \<le> capacity b"
    using assms by (auto simp: ring_inv_def buf_start_def)
  show ?thesis
  proof (rule nth_equalityI)
    show "length (as_str b) = length (contents b)"
      using bnd False by (simp add: as_str_def Let_def)
    fix i assume "i < length (as_str b)"
    then have i: "i < buf_len b" using bnd False by (simp add: as_str_def Let_def split: if_splits)
    have "contents b ! i = buf_data b ! ((?s + i) mod capacity b)"
      using i by (simp add: buffer_string_def)
    also have "(?s + i) mod capacity b =
        (if ?s + i < capacity b then ?s + i else ?s + i - capacity b)"
      using bnd i by (intro wrap_add) simp_all
    finally show "as_str b ! i = contents b ! i"
      using bnd i False
      by (auto simp: as_str_def Let_def nth_append add.commute [of "buf_start b" i])
  qed
qed (simp add: as_str_def)

lemma is_word_boundary_contents:
  assumes "ring_inv b"
  shows "is_word_boundary b \<longleftrightarrow>
    (length (contents b) < 2 \<or> is_whitespace (rtext b ! 1))"
  using assms data_from_end [of b 2] by (auto simp: is_word_boundary_def from_end_def)

lemma has_window_sublist: "has_window kw s \<longleftrightarrow> sublist kw s"
proof (induction s)
  case Nil
  then show ?case by (simp add: has_window.simps [of kw "[]"])
next
  case (Cons c s)
  then show ?case by (simp add: has_window.simps [of kw "c # s"] sublist_Cons_right)
qed

definition ascii_fold :: "char \<Rightarrow> char" where
  "ascii_fold c = (if is_ascii c then to_ascii_lowercase c else CHR 0x20)"

lemma has_dictionary_intent_spec:
  assumes "ring_inv b"
  shows "has_dictionary_intent b \<longleftrightarrow>
    4 \<le> length (contents b) \<and>
    (\<exists>kw\<in>set dictionary_keywords. sublist kw (map ascii_fold (lastn 80 (contents b))))"
proof -
  let ?k = "min (buf_len b) 80"
  have "buf_data b ! ((buf_head b + capacity b - ?k + i) mod capacity b) = lastn 80 (contents b) ! i"
    if "i < ?k" for i
    using that assms
    by (simp add: nth_start lastn_def data_from_end rev_nth min_def split: if_splits)
  then have "map (\<lambda>i. let c = buf_data b ! ((buf_head b + capacity b - ?k + i) mod capacity b)
                 in if is_ascii c then to_ascii_lowercase c else CHR 0x20) [0..<?k]
      = map ascii_fold (lastn 80 (contents b))"
    by (intro nth_equalityI) (simp_all add: ascii_fold_def min.commute)
  then show ?thesis
    by (simp add: has_dictionary_intent_def Let_def has_window_sublist list_ex_iff not_less)
qed

section \<open>Suffix candidates\<close>

text \<open>A whitespace character is collected as a space.\<close>

definition flat_space :: "char \<Rightarrow> char" where
  "flat_space c = (if is_whitespace c then CHR 0x20 else c)"

lemma flat_space_upper: "is_ascii_uppercase c \<Longrightarrow> flat_space c = c"
  by (auto simp: flat_space_def char_defs)

lemma upper_run_spec:
  assumes "ring_inv b" and "at_pos b n cur" and "upper_run b k cur n chars = (ok, chars', cur', n')"
  shows "at_pos b n' cur' \<and> n \<le> n' \<and> (n \<le> 30 \<longrightarrow> n' \<le> 30) \<and> (n \<le> buf_len b \<longrightarrow> n' \<le> buf_len b) \<and>
    chars' = chars @ map flat_space (take (n' - n) (drop n (rtext b)))"
  using assms
proof (induction b k cur n chars rule: upper_run.induct)
  case (2 b slots cur n chars)
  show ?case
  proof (cases "n < buf_len b \<and> n < 30 \<and> is_ascii_uppercase (buf_data b ! cur)")
    case True
    note d = drop_rtext [OF "2.prems"(1,2)]
    have "at_pos b n' cur' \<and> n + 1 \<le> n' \<and> (n + 1 \<le> 30 \<longrightarrow> n' \<le> 30) \<and>
       (n + 1 \<le> buf_len b \<longrightarrow> n' \<le> buf_len b) \<and>
       chars' = (chars @ [buf_data b ! cur]) @ map flat_space (take (n' - (n + 1)) (drop (n + 1) (rtext b)))"
      using "2.IH" [OF True "2.prems"(1)] at_pos_next [OF "2.prems"(1,2)] True "2.prems"(3) by simp
    then show ?thesis
      using True d by (auto simp: take_Cons' flat_space_upper Suc_diff_le split: nat.splits)
  next
    case False
    then show ?thesis using "2.prems" by (auto split: if_splits)
  qed
qed simp

lemma collect_append: "length cs < 30 \<Longrightarrow> collect cs c = cs @ [c]"
  by (simp add: collect_def)

lemma foldl_collect: "length cs + length ds \<le> 30 \<Longrightarrow> foldl collect cs ds = cs @ ds"
  by (induction ds arbitrary: cs) (simp_all add: collect_append)

text \<open>The state of the outer loop: position, and what has been collected up to it.\<close>

definition cand_inv :: "fast_buffer \<Rightarrow> nat \<Rightarrow> nat \<Rightarrow> string \<Rightarrow> bool" where
  "cand_inv b cur n collected \<longleftrightarrow>
     at_pos b n cur \<and> n \<le> buf_len b \<and> n \<le> 30 \<and> collected = map flat_space (take n (rtext b))"

lemma cand_inv_length: "cand_inv b cur n collected \<Longrightarrow> length collected = n"
  by (simp add: cand_inv_def)

lemma cand_inv_step:
  assumes "ring_inv b" and "cand_inv b cur n collected" and "n < buf_len b" and "n < 30"
  shows "cand_inv b (buf_prev b cur) (n + 1) (collect collected (flat_space (buf_data b ! cur)))"
proof -
  from assms(2) have pos: "at_pos b n cur" and c: "collected = map flat_space (take n (rtext b))"
    by (simp_all add: cand_inv_def)
  have "rtext b ! n = buf_data b ! cur"
    using drop_rtext [OF assms(1) pos assms(3)] assms(3)
    by (metis Cons_nth_drop_Suc length_contents length_rev list.inject)
  then have "take (Suc n) (rtext b) = take n (rtext b) @ [buf_data b ! cur]"
    using assms(3) by (simp add: take_Suc_conv_app_nth)
  then show ?thesis
    using assms pos at_pos_next [OF assms(1) pos assms(3)] cand_inv_length [OF assms(2)]
    by (simp add: cand_inv_def collect_append c)
qed

lemma cand_inv_upper:
  assumes inv: "ring_inv b" and ci: "cand_inv b cur n collected" and n: "n < buf_len b" "n < 30"
    and sp: "buf_data b ! cur = CHR 0x20"
    and run: "upper_run b 3 (buf_prev b cur) (n + 1) [] = (ok, chars, cc, cn)"
  shows "cand_inv b cc cn (foldl collect (collect collected (CHR 0x20)) chars) \<and> n + 1 \<le> cn"
proof -
  have step: "cand_inv b (buf_prev b cur) (n + 1) (collect collected (CHR 0x20))"
    using cand_inv_step [OF inv ci n] by (simp add: sp flat_space_def)
  then have pos: "at_pos b (n + 1) (buf_prev b cur)" and le: "n + 1 \<le> buf_len b" "n + 1 \<le> 30"
    by (simp_all add: cand_inv_def)
  have sp: "at_pos b cn cc" "n + 1 \<le> cn" "cn \<le> 30" "cn \<le> buf_len b"
    and ch: "chars = map flat_space (take (cn - (n + 1)) (drop (n + 1) (rtext b)))"
    using upper_run_spec [OF inv pos run] le by auto
  have "length (collect collected (CHR 0x20)) = n + 1" using step by (rule cand_inv_length)
  moreover have "length chars \<le> cn - (n + 1)" by (simp add: ch)
  ultimately have "foldl collect (collect collected (CHR 0x20)) chars =
      collect collected (CHR 0x20) @ chars"
    using sp by (intro foldl_collect) simp
  also have "\<dots> = map flat_space (take cn (rtext b))"
    using step sp(2) take_add [of "n + 1" "cn - (n + 1)" "rtext b"]
    by (simp add: cand_inv_def ch)
  finally show ?thesis using sp by (simp add: cand_inv_def)
qed

lemma candidates_loop_spec:
  assumes "ring_inv b" and "cand_inv b cur n collected"
  shows "candidates_loop b cur n collected = map flat_space (take 30 (rtext b))"
  using assms
proof (induction b cur n collected rule: candidates_loop.induct)
  case (1 b cur n collected)
  note inv = "1.prems"(1) and ci = "1.prems"(2)
  have len: "length collected = n" using ci by (rule cand_inv_length)
  let ?c = "buf_data b ! cur"
  show ?case
  proof (cases "n < buf_len b \<and> n < 30")
    case False
    then have "take 30 (rtext b) = take n (rtext b)"
      using ci by (cases "n = 30") (auto simp: cand_inv_def)
    then show ?thesis
      using False ci len by (auto simp: candidates_loop.simps [of b cur] cand_inv_def)
  next
    case True
    then have n: "n < buf_len b" "n < 30" and cond: "n < buf_len b \<and> n < 30 \<and> length collected < 30"
      using len by auto
    note step = cand_inv_step [OF inv ci n]
    show ?thesis
    proof (cases "is_whitespace ?c")
      case False
      then have "candidates_loop b (buf_prev b cur) (n + 1) (collect collected ?c) =
          map flat_space (take 30 (rtext b))"
        using "1.IH"(3) [OF cond refl False inv] step by (simp add: flat_space_def)
      then show ?thesis using False cond by (simp add: candidates_loop.simps [of b cur])
    next
      case ws: True
      obtain ok chars cc cn where run:
        "(if ?c = CHR 0x20 \<and> n > 0 then upper_run b 3 (buf_prev b cur) (n + 1) []
          else (False, [], cur, n + 1)) = (ok, chars, cc, cn)"
        by (metis prod_cases4)
      show ?thesis
      proof (cases ok)
        case False
        have "candidates_loop b (buf_prev b cur) (n + 1) (collect collected (CHR 0x20)) =
            map flat_space (take 30 (rtext b))"
          using "1.IH"(2) [OF cond refl ws run [symmetric] refl refl] False inv step ws
          by (simp add: flat_space_def)
        then show ?thesis
          using False cond ws run by (simp add: candidates_loop.simps [of b cur] Let_def)
      next
        case True
        then have run3: "upper_run b 3 (buf_prev b cur) (n + 1) [] = (ok, chars, cc, cn)"
          and sp: "?c = CHR 0x20"
          using run by (auto split: if_splits)
        note up = cand_inv_upper [OF inv ci n sp run3]
        let ?coll = "foldl collect (collect collected (CHR 0x20)) chars"
        let ?minus = "cn < buf_len b \<and> cn < 30 \<and> buf_data b ! cc = CHR ''-''"
        let ?coll2 = "if ?minus then collect ?coll (CHR ''-'') else ?coll"
        have "cand_inv b (if ?minus then buf_prev b cc else cc) (if ?minus then cn + 1 else cn) ?coll2"
        proof (cases ?minus)
          case True
          then show ?thesis
            using cand_inv_step [OF inv conjunct1 [OF up]]
            by (simp add: flat_space_def is_whitespace_def)
        next
          case False
          show ?thesis unfolding if_not_P [OF False] using up by blast
        qed
        then have "candidates_loop b (if ?minus then buf_prev b cc else cc)
            (if ?minus then cn + 1 else cn) ?coll2 = map flat_space (take 30 (rtext b))"
          using "1.IH"(1) [OF cond refl ws run [symmetric] refl refl refl True refl refl refl inv]
          by simp
        then show ?thesis
          using True cond ws run by (simp add: candidates_loop.simps [of b cur] Let_def)
      qed
    qed
  qed
qed

lemma extract_suffix_candidates_spec:
  assumes "ring_inv b"
  shows "extract_suffix_candidates b =
    (let c = map flat_space (take 30 (rtext b)) in
     map (\<lambda>k. (rev (take k c), if k < length c then Some (c ! k) else None)) [1..<length c + 1])"
proof (cases "buf_len b = 0")
  case False
  have "cand_inv b (buf_prev b (buf_head b)) 0 []"
    using at_pos_start [OF assms] by (simp add: cand_inv_def)
  from candidates_loop_spec [OF assms this] show ?thesis
    using False by (simp add: extract_suffix_candidates_def Let_def)
qed (simp add: extract_suffix_candidates_def)

section \<open>Properties\<close>

text \<open>A ring of four cells that has wrapped around, for the witnesses.\<close>

definition demo_ring :: fast_buffer where
  "demo_ring = \<lparr>buf_data = ''m a>'', buf_head = 1, buf_len = 3\<rparr>"

lemma demo_ring_inv: "ring_inv demo_ring"
  by (simp add: demo_ring_def ring_inv_def fast_buffer_capacity_def)

lemma demo_ring_contents: "contents demo_ring = ''a>m''"
  by code_simp

text \<open>A ring that holds a given text and one free cell.\<close>

definition ring_of :: "string \<Rightarrow> fast_buffer" where
  "ring_of s = \<lparr>buf_data = s @ [NUL], buf_head = length s, buf_len = length s\<rparr>"

lemma ring_inv_ring_of [simp]: "length s < fast_buffer_capacity \<Longrightarrow> ring_inv (ring_of s)"
  by (simp add: ring_of_def ring_inv_def)

lemma contents_ring_of [simp]:
  assumes "length s < fast_buffer_capacity"
  shows "contents (ring_of s) = s"
proof (rule contents_eqI)
  fix k assume k: "0 < k" "k \<le> buf_len (ring_of s)"
  then have "from_end (ring_of s) k = length s - k"
    using wrap_sub [of "length s" "Suc (length s)" k] by (simp add: from_end_def ring_of_def)
  then show "buf_data (ring_of s) ! from_end (ring_of s) k = s ! (buf_len (ring_of s) - k)"
    using k diff_less [of k "length s"] by (auto simp: ring_of_def nth_append)
qed (use assms in \<open>simp_all add: ring_of_def ring_inv_def\<close>)

text \<open>C1: The ring refines a list of at most 1,048,576 characters: \<open>push\<close> appends and, when the
  hard cap is reached, forgets the oldest character; \<open>pop\<close> removes the last one, \<open>pop_n\<close> the last
  \<open>n\<close>, \<open>clear\<close> all; growing the vector is not visible. Every operation keeps the ring invariant.\<close>

theorem ring_buffer_refines_list:
  assumes "ring_inv b"
  shows "ring_inv (push b c) \<and> contents (push b c) = lastn fast_buffer_capacity (contents b @ [c]) \<and>
    ring_inv (pop b) \<and> contents (pop b) = butlast (contents b) \<and>
    ring_inv (pop_n b n) \<and> contents (pop_n b n) = take (length (contents b) - n) (contents b) \<and>
    ring_inv (buffer_clear b) \<and> contents (buffer_clear b) = [] \<and>
    (capacity b < fast_buffer_capacity \<longrightarrow> ring_inv (grow b) \<and> contents (grow b) = contents b)"
  using assms grow_props [OF assms]
  by (simp add: pop_n_funpow fb.invar_funpow_remove fb.text_funpow_remove)

theorem ring_buffer_refines_list_witness:
  "contents (push demo_ring (CHR ''x'')) = lastn fast_buffer_capacity ''a>mx'' \<and>
   contents (pop_n demo_ring 2) = ''a''"
  using ring_buffer_refines_list [OF demo_ring_inv, of "CHR ''x''" 2]
  by (simp add: demo_ring_contents)

text \<open>C35: Copying the ring by slices (\<open>as_str\<close>) gives the same string as reading it index by
  index (\<open>buffer_string\<close>), wrapped or not.\<close>

theorem as_str_equals_buffer_string:
  "ring_inv b \<Longrightarrow> as_str b = buffer_string b"
  by (rule as_str_contents)

theorem as_str_equals_buffer_string_witness: "as_str demo_ring = ''a>m''"
  using as_str_equals_buffer_string [OF demo_ring_inv] by (simp add: demo_ring_contents)

text \<open>\<open>pop_word\<close> deletes the trailing whitespace and then the maximal run of characters of the
  class (alphanumeric or not) of the last one left: what it removes is such a run followed by
  whitespace, and what remains cannot be extended by the run.\<close>

theorem pop_word_removes_one_word:
  assumes "ring_inv b"
  shows "\<exists>run ws. contents b = contents (pop_word b) @ run @ ws \<and>
    list_all is_whitespace ws \<and> (\<forall>x\<in>set run. \<not> is_whitespace x) \<and>
    (\<forall>x\<in>set run. \<forall>y\<in>set run. is_alphanumeric x = is_alphanumeric y) \<and>
    (run = [] \<longrightarrow> contents (pop_word b) = []) \<and>
    (contents (pop_word b) \<noteq> [] \<longrightarrow>
       is_whitespace (last (contents (pop_word b))) \<or>
       is_alphanumeric (last (contents (pop_word b))) \<noteq> is_alphanumeric (last run)) \<and>
    ring_inv (pop_word b)"
proof -
  let ?r = "rtext b"
  let ?ws = "takeWhile is_whitespace ?r" and ?r1 = "dropWhile is_whitespace ?r"
  from pop_word_spec [OF assms] have inv: "ring_inv (pop_word b)"
    and w: "contents (pop_word b) = rev (drop_word ?r)"
    by (metis, metis rev_rev_ident)
  have ws: "list_all is_whitespace (rev ?ws)" by (auto simp: list_all_iff dest: set_takeWhileD)
  show ?thesis
  proof (cases ?r1)
    case Nil
    then have "contents b = rev ?ws" by (metis append_Nil2 rev_rev_ident takeWhile_dropWhile_id)
    moreover have "drop_word ?r = []" unfolding drop_word_def Nil by simp
    then have "contents (pop_word b) = []" by (simp add: w)
    ultimately show ?thesis
      using ws inv by (intro exI [of _ "[]"] exI [of _ "rev ?ws"]) simp
  next
    case (Cons c cs)
    let ?P = "\<lambda>x. \<not> is_whitespace x \<and> is_alphanumeric x = is_alphanumeric c"
    obtain run rest ws where defs: "run = takeWhile ?P ?r1" "rest = dropWhile ?P ?r1"
      "ws = takeWhile is_whitespace ?r" by simp
    have "\<not> is_whitespace c"
      using hd_dropWhile [of is_whitespace ?r] Cons by auto
    then have ne: "run \<noteq> []" and hd: "hd run = c" by (simp_all add: defs Cons)
    have rest: "contents (pop_word b) = rev rest" unfolding w drop_word_def Cons defs by simp
    have "?r = ws @ run @ rest" by (simp add: defs)
    then have eq: "contents b = rev rest @ rev run @ rev ws"
      by (metis append.assoc rev_append rev_rev_ident)
    have run: "\<forall>x\<in>set run. ?P x" by (auto simp: defs dest: set_takeWhileD)
    have "rest \<noteq> [] \<Longrightarrow> \<not> ?P (hd rest)" unfolding defs by (rule hd_dropWhile)
    then have stop: "rest \<noteq> [] \<longrightarrow> is_whitespace (hd rest) \<or> is_alphanumeric (hd rest) \<noteq> is_alphanumeric c"
      by blast
    have "list_all is_whitespace (rev ws)"
      by (auto simp: defs list_all_iff dest: set_takeWhileD)
    with ne hd run stop inv eq show ?thesis
      by (intro exI [of _ "rev run"] exI [of _ "rev ws"]) (simp add: rest last_rev)
  qed
qed

theorem pop_word_removes_one_word_witness:
  "\<exists>run ws. ''a>m'' = contents (pop_word demo_ring) @ run @ ws \<and> list_all is_whitespace ws"
  using pop_word_removes_one_word [OF demo_ring_inv] unfolding demo_ring_contents by blast

text \<open>C21: A trigger word that \<open>extract_trigger_word\<close> returns stands at the very end of the text,
  directly after the trigger character, so deleting one character more than its length removes
  exactly the trigger and the word; with two unquoted trigger characters nothing is returned.\<close>

theorem extract_trigger_word_deletes_safely:
  assumes "ring_inv b" and "extract_trigger_word b tc = Some w"
  shows "(\<exists>p. contents b = p @ tc # w \<and> contents (pop_n b (1 + length w)) = p) \<and>
    trigger_char_count_in_nonwhitespace_suffix b tc \<le> 1"
proof -
  from assms have "trigger_word_list tc None [] (rtext b) = Some w"
    by (auto simp: extract_trigger_word_list split: if_splits)
  then obtain pre post where "rtext b = pre @ tc # post" and "w = rev pre"
    by (auto dest: trigger_word_list_split)
  then have c: "contents b = rev post @ tc # w"
    by (metis append.assoc append_Cons append_Nil rev.simps(2) rev_append rev_rev_ident)
  moreover have "contents (pop_n b (1 + length w)) = rev post"
    unfolding pop_n_funpow fb.text_funpow_remove [OF assms(1)] c by simp
  moreover have "trigger_char_count_in_nonwhitespace_suffix b tc \<le> 1"
    using assms(2) by (auto simp: extract_trigger_word_def split: if_splits)
  ultimately show ?thesis by blast
qed

theorem extract_trigger_word_deletes_safely_witness:
  "\<exists>p. ''a>m'' = p @ ''>m'' \<and> contents (pop_n demo_ring 2) = p"
proof -
  have "extract_trigger_word demo_ring (CHR ''>'') = Some ''m''" by code_simp
  from extract_trigger_word_deletes_safely [OF demo_ring_inv this] show ?thesis
    by (simp add: demo_ring_contents numeral_2_eq_2)
qed

text \<open>C23: \<open>extract_tail_word\<close> returns exactly the maximal whitespace-free suffix of the text, when it
  is not empty.\<close>

theorem extract_tail_word_maximal:
  assumes "ring_inv b"
  shows "extract_tail_word b = Some w \<longleftrightarrow>
    w \<noteq> [] \<and> (\<exists>p. contents b = p @ w \<and> (\<forall>c\<in>set w. \<not> is_whitespace c) \<and>
                (p \<noteq> [] \<longrightarrow> is_whitespace (last p)))"
proof
  let ?t = "takeWhile (\<lambda>c. \<not> is_whitespace c) (rtext b)"
  let ?d = "dropWhile (\<lambda>c. \<not> is_whitespace c) (rtext b)"
  assume "extract_tail_word b = Some w"
  then have w: "w = rev ?t" "w \<noteq> []"
    using assms by (auto simp: extract_tail_word_list Let_def split: if_splits)
  have "contents b = rev ?d @ w"
    unfolding w(1) by (metis rev_append rev_rev_ident takeWhile_dropWhile_id)
  moreover have "\<forall>c\<in>set w. \<not> is_whitespace c" by (auto simp: w dest: set_takeWhileD)
  moreover have "rev ?d \<noteq> [] \<longrightarrow> is_whitespace (last (rev ?d))"
    using hd_dropWhile [of "\<lambda>c. \<not> is_whitespace c" "rtext b"] by (simp add: last_rev)
  ultimately show "w \<noteq> [] \<and> (\<exists>p. contents b = p @ w \<and> (\<forall>c\<in>set w. \<not> is_whitespace c) \<and>
      (p \<noteq> [] \<longrightarrow> is_whitespace (last p)))"
    using w(2) by blast
next
  assume "w \<noteq> [] \<and> (\<exists>p. contents b = p @ w \<and> (\<forall>c\<in>set w. \<not> is_whitespace c) \<and>
      (p \<noteq> [] \<longrightarrow> is_whitespace (last p)))"
  then obtain p where w: "w \<noteq> []" "contents b = p @ w" "\<forall>c\<in>set w. \<not> is_whitespace c"
    "p \<noteq> [] \<longrightarrow> is_whitespace (last p)"
    by blast
  have "takeWhile (\<lambda>c. \<not> is_whitespace c) (rev w @ rev p) = rev w"
  proof (cases "rev p")
    case (Cons a l)
    then have "is_whitespace a" using w(4) by (metis last_rev list.sel(1) rev_is_Nil_conv rev_rev_ident list.simps(3))
    then show ?thesis using w(3) Cons by (subst takeWhile_append2) auto
  qed (use w(3) in \<open>auto simp: takeWhile_eq_all_conv\<close>)
  then show "extract_tail_word b = Some w"
    using assms w by (simp add: extract_tail_word_list Let_def)
qed

theorem extract_tail_word_maximal_witness:
  "extract_tail_word demo_ring = Some ''a>m''"
  using extract_tail_word_maximal [OF demo_ring_inv, of "''a>m''"]
  by (simp add: demo_ring_contents is_whitespace_def)

text \<open>C39: The expansion candidates are, shortest first, the suffixes of the last thirty characters of
  the text with every whitespace character, line breaks and tabs included, read as a space, so that
  candidates reach across lines; each comes with the character before it, except the longest one.\<close>

theorem suffix_candidates_characterised:
  assumes "ring_inv b"
  shows "let n = min 30 (length (contents b)) in
    length (extract_suffix_candidates b) = n \<and>
    (\<forall>k. 1 \<le> k \<longrightarrow> k \<le> n \<longrightarrow>
      extract_suffix_candidates b ! (k - 1) =
        (map flat_space (lastn k (contents b)),
         if k < n then Some (flat_space (rtext b ! k)) else None))"
proof -
  let ?c = "map flat_space (take 30 (rtext b))" and ?n = "min 30 (length (contents b))"
  let ?f = "\<lambda>k. (rev (take k ?c), if k < ?n then Some (?c ! k) else None)"
  have eq: "extract_suffix_candidates b = map ?f [1..<?n + 1]"
    using assms by (simp add: extract_suffix_candidates_spec Let_def min.commute)
  have "extract_suffix_candidates b ! (k - 1) =
      (map flat_space (lastn k (contents b)),
       if k < ?n then Some (flat_space (rtext b ! k)) else None)" if k: "1 \<le> k" "k \<le> ?n" for k
  proof -
    have "extract_suffix_candidates b ! (k - 1) = ?f k"
      unfolding eq using k by (rule nth_map_from_one)
    moreover have "rev (take k ?c) = map flat_space (rev (take k (rtext b)))"
      using k by (simp add: take_map rev_map)
    moreover have "rev (take k (rtext b)) = lastn k (contents b)"
      by (metis rev_lastn rev_rev_ident)
    moreover have "k < ?n \<Longrightarrow> ?c ! k = flat_space (rtext b ! k)" by simp
    ultimately show ?thesis by auto
  qed
  then show ?thesis unfolding Let_def by (simp add: eq)
qed

theorem suffix_candidates_characterised_witness:
  "length (extract_suffix_candidates demo_ring) = 3 \<and>
   extract_suffix_candidates demo_ring ! 0 = (''m'', Some (CHR ''>''))"
proof -
  have len: "length (contents demo_ring) = 3" by (simp add: demo_ring_contents)
  from suffix_candidates_characterised [OF demo_ring_inv] show ?thesis
    unfolding Let_def len
    by (elim conjE allE [of _ 1])
      (simp add: demo_ring_contents lastn_def flat_space_def is_whitespace_def)
qed

text \<open>A keyword of the dictionary feature is recognised exactly when it occurs, ASCII case folded,
  within the last eighty characters of a text of at least four characters.\<close>

theorem dictionary_intent_characterised:
  assumes "ring_inv b"
  shows "has_dictionary_intent b \<longleftrightarrow> 4 \<le> length (contents b) \<and>
    (\<exists>kw\<in>set dictionary_keywords. sublist kw (map ascii_fold (lastn 80 (contents b))))"
  by (rule has_dictionary_intent_spec [OF assms])

theorem dictionary_intent_characterised_witness: "\<not> has_dictionary_intent demo_ring"
  using dictionary_intent_characterised [OF demo_ring_inv] by (simp add: demo_ring_def)

end
