(* ===== verification/Keys.thy ===== *)
theory Keys
  imports Prelude
begin

text \<open>
  Model of \<open>core/src/keys/key.rs\<close>: modifier families, the modifier bit set \<open>Modifiers\<close>
  (a 16-bit word), logical keys and mouse buttons, their alias tables and canonical names.

  The lemmas show that the bit set keeps at most one bit per family, that \<open>family_state\<close>
  determines a well-formed set, that every alias yields a well-formed key, and that a key is
  read back from its canonical name.
\<close>

unbundle bit_operations_syntax

section \<open>Modifiers\<close>

datatype modifier_family = FamCtrl | FamShift | FamAlt | FamMeta

datatype modifier_side = SideLeft | SideRight

datatype modifier_state = Absent | Generic | LeftOnly | RightOnly | Both

datatype modifier =
    Ctrl | LeftCtrl | RightCtrl
  | Shift | LeftShift | RightShift
  | Alt | LeftAlt | RightAlt
  | Meta | LeftMeta | RightMeta

definition family_ordered :: "modifier_family list" where
  "family_ordered = [FamCtrl, FamShift, FamAlt, FamMeta]"

fun family_canonical_name :: "modifier_family \<Rightarrow> string" where
  "family_canonical_name FamCtrl = ''ctrl''"
| "family_canonical_name FamShift = ''shift''"
| "family_canonical_name FamAlt = ''alt''"
| "family_canonical_name FamMeta = ''meta''"

fun modifier_canonical_name :: "modifier \<Rightarrow> string" where
  "modifier_canonical_name Ctrl = ''ctrl''"
| "modifier_canonical_name LeftCtrl = ''lctrl''"
| "modifier_canonical_name RightCtrl = ''rctrl''"
| "modifier_canonical_name Shift = ''shift''"
| "modifier_canonical_name LeftShift = ''lshift''"
| "modifier_canonical_name RightShift = ''rshift''"
| "modifier_canonical_name Alt = ''alt''"
| "modifier_canonical_name LeftAlt = ''lalt''"
| "modifier_canonical_name RightAlt = ''ralt''"
| "modifier_canonical_name Meta = ''meta''"
| "modifier_canonical_name LeftMeta = ''lmeta''"
| "modifier_canonical_name RightMeta = ''rmeta''"

fun family :: "modifier \<Rightarrow> modifier_family" where
  "family Ctrl = FamCtrl" | "family LeftCtrl = FamCtrl" | "family RightCtrl = FamCtrl"
| "family Shift = FamShift" | "family LeftShift = FamShift" | "family RightShift = FamShift"
| "family Alt = FamAlt" | "family LeftAlt = FamAlt" | "family RightAlt = FamAlt"
| "family Meta = FamMeta" | "family LeftMeta = FamMeta" | "family RightMeta = FamMeta"

fun side :: "modifier \<Rightarrow> modifier_side option" where
  "side LeftCtrl = Some SideLeft" | "side LeftShift = Some SideLeft"
| "side LeftAlt = Some SideLeft" | "side LeftMeta = Some SideLeft"
| "side RightCtrl = Some SideRight" | "side RightShift = Some SideRight"
| "side RightAlt = Some SideRight" | "side RightMeta = Some SideRight"
| "side Ctrl = None" | "side Shift = None" | "side Alt = None" | "side Meta = None"

fun generic_for_family :: "modifier_family \<Rightarrow> modifier" where
  "generic_for_family FamCtrl = Ctrl"
| "generic_for_family FamShift = Shift"
| "generic_for_family FamAlt = Alt"
| "generic_for_family FamMeta = Meta"

fun sided_for_family :: "modifier_family \<Rightarrow> modifier_side \<Rightarrow> modifier" where
  "sided_for_family FamCtrl SideLeft = LeftCtrl"
| "sided_for_family FamCtrl SideRight = RightCtrl"
| "sided_for_family FamShift SideLeft = LeftShift"
| "sided_for_family FamShift SideRight = RightShift"
| "sided_for_family FamAlt SideLeft = LeftAlt"
| "sided_for_family FamAlt SideRight = RightAlt"
| "sided_for_family FamMeta SideLeft = LeftMeta"
| "sided_for_family FamMeta SideRight = RightMeta"

text \<open>The shift distance of \<open>Modifier::bit\<close>, and the bit itself.\<close>

fun bit_index :: "modifier \<Rightarrow> nat" where
  "bit_index Ctrl = 0" | "bit_index LeftCtrl = 1" | "bit_index RightCtrl = 2"
| "bit_index Shift = 3" | "bit_index LeftShift = 4" | "bit_index RightShift = 5"
| "bit_index Alt = 6" | "bit_index LeftAlt = 7" | "bit_index RightAlt = 8"
| "bit_index Meta = 9" | "bit_index LeftMeta = 10" | "bit_index RightMeta = 11"

definition modifier_bit :: "modifier \<Rightarrow> u16" where
  "modifier_bit m = push_bit (bit_index m) 1"

definition modifier_aliases :: "(string \<times> modifier) list" where
  "modifier_aliases =
    [(''ctrl'', Ctrl), (''control'', Ctrl),
     (''lctrl'', LeftCtrl), (''leftctrl'', LeftCtrl), (''leftcontrol'', LeftCtrl),
     (''rctrl'', RightCtrl), (''rightctrl'', RightCtrl), (''rightcontrol'', RightCtrl),
     (''shift'', Shift),
     (''lshift'', LeftShift), (''leftshift'', LeftShift),
     (''rshift'', RightShift), (''rightshift'', RightShift),
     (''alt'', Alt), (''opt'', Alt), (''option'', Alt),
     (''lalt'', LeftAlt), (''leftalt'', LeftAlt), (''leftoption'', LeftAlt),
     (''ralt'', RightAlt), (''rightalt'', RightAlt), (''rightoption'', RightAlt),
     (''altgr'', RightAlt),
     (''meta'', Meta), (''cmd'', Meta), (''command'', Meta), (''win'', Meta), (''super'', Meta),
     (''mod'', Meta),
     (''lmeta'', LeftMeta), (''leftmeta'', LeftMeta), (''lwin'', LeftMeta),
     (''leftwin'', LeftMeta), (''leftsuper'', LeftMeta), (''leftcmd'', LeftMeta),
     (''leftcommand'', LeftMeta),
     (''rmeta'', RightMeta), (''rightmeta'', RightMeta), (''rwin'', RightMeta),
     (''rightwin'', RightMeta), (''rightsuper'', RightMeta), (''rightcmd'', RightMeta),
     (''rightcommand'', RightMeta)]"

definition modifier_from_alias :: "string \<Rightarrow> modifier option" where
  "modifier_from_alias alias = map_of modifier_aliases alias"

datatype modifier_insert_error = Duplicate modifier | Conflict modifier modifier

section \<open>The modifier bit set\<close>

datatype modifiers = Modifiers (mbits: u16)

definition modifiers_new :: modifiers where
  "modifiers_new = Modifiers 0"

definition modifiers_is_empty :: "modifiers \<Rightarrow> bool" where
  "modifiers_is_empty ms \<longleftrightarrow> mbits ms = 0"

definition contains_exact :: "modifiers \<Rightarrow> modifier \<Rightarrow> bool" where
  "contains_exact ms m \<longleftrightarrow> mbits ms AND modifier_bit m \<noteq> 0"

definition family_state :: "modifiers \<Rightarrow> modifier_family \<Rightarrow> modifier_state" where
  "family_state ms f =
     (let generic = mbits ms AND modifier_bit (generic_for_family f) \<noteq> 0;
          left = mbits ms AND modifier_bit (sided_for_family f SideLeft) \<noteq> 0;
          right = mbits ms AND modifier_bit (sided_for_family f SideRight) \<noteq> 0
      in if generic then Generic
         else if left \<and> right then Both
         else if left then LeftOnly
         else if right then RightOnly
         else Absent)"

definition modifiers_contains :: "modifiers \<Rightarrow> modifier \<Rightarrow> bool" where
  "modifiers_contains ms m =
     (case side m of
        Some _ \<Rightarrow> mbits ms AND modifier_bit m \<noteq> 0
      | None \<Rightarrow> family_state ms (family m) \<noteq> Absent)"

fun canonical_for_state :: "modifier_state \<Rightarrow> modifier_family \<Rightarrow> modifier option" where
  "canonical_for_state Absent f = None"
| "canonical_for_state Generic f = Some (generic_for_family f)"
| "canonical_for_state LeftOnly f = Some (sided_for_family f SideLeft)"
| "canonical_for_state RightOnly f = Some (sided_for_family f SideRight)"
| "canonical_for_state Both f = Some (generic_for_family f)"

definition canonical_modifier_for_family :: "modifiers \<Rightarrow> modifier_family \<Rightarrow> modifier option" where
  "canonical_modifier_for_family ms f = canonical_for_state (family_state ms f) f"

definition insert_active :: "modifiers \<Rightarrow> modifier \<Rightarrow> modifiers" where
  "insert_active ms m = Modifiers (mbits ms OR modifier_bit m)"

definition modifiers_insert :: "modifiers \<Rightarrow> modifier \<Rightarrow> modifier_insert_error + modifiers" where
  "modifiers_insert ms m =
     (let f = family m; existing_state = family_state ms f in
      if existing_state = Absent then Inr (Modifiers (mbits ms OR modifier_bit m))
      else let existing = (case canonical_modifier_for_family ms f of
                             Some e \<Rightarrow> e | None \<Rightarrow> generic_for_family f)
           in if contains_exact ms m then Inl (Duplicate existing)
              else Inl (Conflict existing m))"

definition modifiers_ordered :: "modifiers \<Rightarrow> modifier list" where
  "modifiers_ordered ms = List.map_filter (canonical_modifier_for_family ms) family_ordered"

fun family_states_overlap :: "modifier_state \<Rightarrow> modifier_state \<Rightarrow> bool" where
  "family_states_overlap Absent r \<longleftrightarrow> r = Absent"
| "family_states_overlap Generic r \<longleftrightarrow> r \<in> {Generic, LeftOnly, RightOnly, Both}"
| "family_states_overlap LeftOnly r \<longleftrightarrow> r \<in> {Generic, LeftOnly}"
| "family_states_overlap RightOnly r \<longleftrightarrow> r \<in> {Generic, RightOnly}"
| "family_states_overlap Both r \<longleftrightarrow> r \<in> {Generic, Both}"

fun family_requirement_matches :: "modifier_state \<Rightarrow> modifier_state \<Rightarrow> bool" where
  "family_requirement_matches Absent a \<longleftrightarrow> a = Absent"
| "family_requirement_matches Generic a \<longleftrightarrow> a \<in> {Generic, LeftOnly, RightOnly, Both}"
| "family_requirement_matches LeftOnly a \<longleftrightarrow> a = LeftOnly"
| "family_requirement_matches RightOnly a \<longleftrightarrow> a = RightOnly"
| "family_requirement_matches Both a \<longleftrightarrow> a = Both"

definition modifiers_overlaps :: "modifiers \<Rightarrow> modifiers \<Rightarrow> bool" where
  "modifiers_overlaps l r \<longleftrightarrow>
     list_all (\<lambda>f. family_states_overlap (family_state l f) (family_state r f)) family_ordered"

definition modifiers_matches_active :: "modifiers \<Rightarrow> modifiers \<Rightarrow> bool" where
  "modifiers_matches_active req act \<longleftrightarrow>
     list_all (\<lambda>f. family_requirement_matches (family_state req f) (family_state act f))
       family_ordered"

section \<open>Mouse buttons and logical keys\<close>

datatype mouse_button =
  MouseLeft | MouseRight | MouseMiddle | Button4 | Button5 | MouseOther u8

fun mouse_canonical_name :: "mouse_button \<Rightarrow> string" where
  "mouse_canonical_name MouseLeft = ''mouse1''"
| "mouse_canonical_name MouseRight = ''mouse2''"
| "mouse_canonical_name MouseMiddle = ''mouse3''"
| "mouse_canonical_name Button4 = ''mouse4''"
| "mouse_canonical_name Button5 = ''mouse5''"
| "mouse_canonical_name (MouseOther n) = ''mouse'' @ show_nat (unat n)"

definition mouse_of_number :: "u8 \<Rightarrow> mouse_button" where
  "mouse_of_number n =
     (if n = 1 then MouseLeft else if n = 2 then MouseRight else if n = 3 then MouseMiddle
      else if n = 4 then Button4 else if n = 5 then Button5 else MouseOther n)"

definition mouse_aliases :: "(string \<times> mouse_button) list" where
  "mouse_aliases =
    [(''left'', MouseLeft), (''1'', MouseLeft), (''l'', MouseLeft), (''mouseleft'', MouseLeft),
     (''lclick'', MouseLeft), (''leftclick'', MouseLeft), (''primary'', MouseLeft),
     (''right'', MouseRight), (''2'', MouseRight), (''r'', MouseRight),
     (''mouseright'', MouseRight), (''rclick'', MouseRight), (''rightclick'', MouseRight),
     (''secondary'', MouseRight),
     (''middle'', MouseMiddle), (''3'', MouseMiddle), (''m'', MouseMiddle),
     (''mousemiddle'', MouseMiddle), (''mclick'', MouseMiddle), (''midclick'', MouseMiddle),
     (''middleclick'', MouseMiddle), (''wheelclick'', MouseMiddle), (''wheel'', MouseMiddle),
     (''m4'', Button4), (''4'', Button4), (''thumb1'', Button4), (''xbutton1'', Button4),
     (''x1'', Button4), (''back'', Button4),
     (''m5'', Button5), (''5'', Button5), (''thumb2'', Button5), (''xbutton2'', Button5),
     (''x2'', Button5), (''forward'', Button5)]"

text \<open>A prefix followed by a \<open>u8\<close>, as the \<open>strip_prefix\<close> and \<open>parse\<close> chains read it.\<close>

definition prefixed_number :: "string \<Rightarrow> string \<Rightarrow> u8 option" where
  "prefixed_number p s = Option.bind (strip_prefix p s) parse_u8"

definition mouse_from_alias :: "string \<Rightarrow> mouse_button option" where
  "mouse_from_alias alias0 =
     (let alias = str_to_ascii_lowercase (str_trim alias0) in
      case prefixed_number ''mouse'' alias of
        Some n \<Rightarrow> Some (mouse_of_number n)
      | None \<Rightarrow> (case map_of mouse_aliases alias of
            Some b \<Rightarrow> Some b
          | None \<Rightarrow> map_option mouse_of_number (prefixed_number ''m'' alias)))"

datatype logical_key =
    Letter char | Digit u8 | NumpadDigit u8
  | Enter | Escape | Tab | Space | Backspace | Delete
  | KUp | KDown | KLeft | KRight | Home | End | PageUp | PageDown | Insert
  | Function u8
  | Backquote | Minus | Equal | Backslash | Semicolon | Quote | Comma | Period | Slash
  | LeftBracket | RightBracket
  | CapsLock | NumLock | ScrollLock | PrintScreen | Pause
  | ModifierKey modifier | MouseKey mouse_button

definition key_aliases :: "(string \<times> logical_key) list" where
  "key_aliases =
    [(''mouseleft'', MouseKey MouseLeft), (''lclick'', MouseKey MouseLeft),
     (''leftclick'', MouseKey MouseLeft),
     (''mouseright'', MouseKey MouseRight), (''rclick'', MouseKey MouseRight),
     (''rightclick'', MouseKey MouseRight),
     (''mousemiddle'', MouseKey MouseMiddle), (''mclick'', MouseKey MouseMiddle),
     (''midclick'', MouseKey MouseMiddle), (''middleclick'', MouseKey MouseMiddle),
     (''wheelclick'', MouseKey MouseMiddle),
     (''m4'', MouseKey Button4), (''thumb1'', MouseKey Button4), (''xbutton1'', MouseKey Button4),
     (''x1'', MouseKey Button4), (''back'', MouseKey Button4),
     (''m5'', MouseKey Button5), (''thumb2'', MouseKey Button5), (''xbutton2'', MouseKey Button5),
     (''x2'', MouseKey Button5), (''forward'', MouseKey Button5),
     (''enter'', Enter), (''return'', Enter), (''esc'', Escape), (''escape'', Escape),
     (''tab'', Tab), (''space'', Space), (''backspace'', Backspace),
     (''delete'', Delete), (''del'', Delete),
     (''up'', KUp), (''arrowup'', KUp), (''down'', KDown), (''arrowdown'', KDown),
     (''left'', KLeft), (''arrowleft'', KLeft), (''right'', KRight), (''arrowright'', KRight),
     (''home'', Home), (''end'', End), (''pgup'', PageUp), (''pageup'', PageUp),
     (''pgdown'', PageDown), (''pagedown'', PageDown), (''insert'', Insert), (''ins'', Insert),
     (''`'', Backquote), (''backtick'', Backquote), (''grave'', Backquote), (''~'', Backquote),
     (''tilde'', Backquote),
     (''-'', Minus), (''minus'', Minus), (''dash'', Minus),
     (''='', Equal), (''equal'', Equal), (''equals'', Equal),
     ([CHR 0x5C], Backslash), (''backslash'', Backslash),
     ('';'', Semicolon), (''semicolon'', Semicolon),
     ([CHR 0x27], Quote), (''quote'', Quote), (''apostrophe'', Quote),
     ('','', Comma), (''comma'', Comma),
     (''.'', Period), (''dot'', Period), (''period'', Period),
     (''/'', Slash), (''slash'', Slash),
     (''['', LeftBracket), (''lbracket'', LeftBracket), (''leftbracket'', LeftBracket),
     ('']'', RightBracket), (''rbracket'', RightBracket), (''rightbracket'', RightBracket),
     (''capslock'', CapsLock), (''numlock'', NumLock), (''scrolllock'', ScrollLock),
     (''printscreen'', PrintScreen), (''prtsc'', PrintScreen),
     (''pause'', Pause), (''break'', Pause)]"

definition single_char_key :: "string \<Rightarrow> logical_key option" where
  "single_char_key alias =
     (if str_len alias = 1 then
        (let ch = hd alias in
         if is_ascii_lowercase ch then Some (Letter ch)
         else if is_ascii_digit ch then Some (Digit (word_of_nat (digit_val ch)))
         else None)
      else None)"

definition numpad_key :: "string \<Rightarrow> string \<Rightarrow> logical_key option" where
  "numpad_key p alias =
     (case strip_prefix p alias of
        Some rest \<Rightarrow>
          if str_len rest = 1 \<and> is_ascii_digit (hd rest)
          then Some (NumpadDigit (word_of_nat (digit_val (hd rest)))) else None
      | None \<Rightarrow> None)"

definition function_key :: "string \<Rightarrow> logical_key option" where
  "function_key alias =
     (case prefixed_number ''f'' alias of
        Some n \<Rightarrow> if 1 \<le> n \<and> n \<le> 12 then Some (Function n) else None
      | None \<Rightarrow> None)"

definition key_from_alias :: "string \<Rightarrow> logical_key option" where
  "key_from_alias alias =
     or_else (single_char_key alias)
    (or_else (numpad_key ''num'' alias)
    (or_else (numpad_key ''numpad'' alias)
    (or_else (function_key alias)
    (or_else (map_option (\<lambda>n. MouseKey (mouse_of_number n)) (prefixed_number ''mouse'' alias))
    (or_else (map_of key_aliases alias)
             (map_option ModifierKey (modifier_from_alias alias)))))))"

fun is_modifier_key :: "logical_key \<Rightarrow> modifier option" where
  "is_modifier_key (ModifierKey m) = Some m"
| "is_modifier_key _ = None"

fun is_mouse_button :: "logical_key \<Rightarrow> mouse_button option" where
  "is_mouse_button (MouseKey b) = Some b"
| "is_mouse_button _ = None"

fun key_canonical_name :: "logical_key \<Rightarrow> string" where
  "key_canonical_name (Letter ch) = [ch]"
| "key_canonical_name (Digit d) = show_nat (unat d)"
| "key_canonical_name (NumpadDigit d) = ''num'' @ show_nat (unat d)"
| "key_canonical_name Enter = ''enter''"
| "key_canonical_name Escape = ''esc''"
| "key_canonical_name Tab = ''tab''"
| "key_canonical_name Space = ''space''"
| "key_canonical_name Backspace = ''backspace''"
| "key_canonical_name Delete = ''delete''"
| "key_canonical_name KUp = ''up''"
| "key_canonical_name KDown = ''down''"
| "key_canonical_name KLeft = ''left''"
| "key_canonical_name KRight = ''right''"
| "key_canonical_name Home = ''home''"
| "key_canonical_name End = ''end''"
| "key_canonical_name PageUp = ''pgup''"
| "key_canonical_name PageDown = ''pgdown''"
| "key_canonical_name Insert = ''insert''"
| "key_canonical_name (Function n) = ''f'' @ show_nat (unat n)"
| "key_canonical_name Backquote = ''`''"
| "key_canonical_name Minus = ''-''"
| "key_canonical_name Equal = ''=''"
| "key_canonical_name Backslash = [CHR 0x5C]"
| "key_canonical_name Semicolon = '';''"
| "key_canonical_name Quote = [CHR 0x27]"
| "key_canonical_name Comma = '',''"
| "key_canonical_name Period = ''.''"
| "key_canonical_name Slash = ''/''"
| "key_canonical_name LeftBracket = ''[''"
| "key_canonical_name RightBracket = '']''"
| "key_canonical_name CapsLock = ''capslock''"
| "key_canonical_name NumLock = ''numlock''"
| "key_canonical_name ScrollLock = ''scrolllock''"
| "key_canonical_name PrintScreen = ''printscreen''"
| "key_canonical_name Pause = ''pause''"
| "key_canonical_name (ModifierKey m) = modifier_canonical_name m"
| "key_canonical_name (MouseKey b) = mouse_canonical_name b"

section \<open>The bit set: facts\<close>

lemma bit_index_less [simp]: "bit_index m < 12"
  by (cases m) simp_all

lemma bit_index_inject [simp]: "bit_index m = bit_index n \<longleftrightarrow> m = n"
  by (cases m; cases n) simp_all

lemma and_modifier_bit [simp]: "w AND modifier_bit m \<noteq> 0 \<longleftrightarrow> bit w (bit_index m)"
  using bit_index_less [of m] by (simp add: modifier_bit_def push_bit_eq_mult and_exp_eq_0_iff_not_bit)

lemma bit_modifier_bit [simp]: "bit (modifier_bit m) n \<longleftrightarrow> n = bit_index m"
  by (auto simp: modifier_bit_def bit_exp_iff possible_bit_word
      intro: less_trans [OF bit_index_less])

lemma contains_exact_bit: "contains_exact ms m \<longleftrightarrow> bit (mbits ms) (bit_index m)"
  by (simp add: contains_exact_def)

text \<open>The state of a family, read from its three bits.\<close>

definition state_of_bits :: "bool \<Rightarrow> bool \<Rightarrow> bool \<Rightarrow> modifier_state" where
  "state_of_bits g l r =
     (if g then Generic else if l \<and> r then Both else if l then LeftOnly
      else if r then RightOnly else Absent)"

lemma family_state_bits:
  "family_state ms f =
     state_of_bits (contains_exact ms (generic_for_family f))
       (contains_exact ms (sided_for_family f SideLeft))
       (contains_exact ms (sided_for_family f SideRight))"
  by (simp add: family_state_def state_of_bits_def contains_exact_bit)

lemma family_generic [simp]: "family (generic_for_family f) = f"
  by (cases f) simp_all

lemma family_sided [simp]: "family (sided_for_family f s) = f"
  by (cases f; cases s) simp_all

lemma modifier_exhaust:
  "m = generic_for_family (family m) \<or> m = sided_for_family (family m) SideLeft \<or>
   m = sided_for_family (family m) SideRight"
  by (cases m) simp_all

lemma generic_sided_distinct [simp]:
  "generic_for_family f \<noteq> sided_for_family g s" "sided_for_family g s \<noteq> generic_for_family f"
  by (cases f; cases g; cases s; simp)+

lemma sided_inject [simp]: "sided_for_family f s = sided_for_family g t \<longleftrightarrow> f = g \<and> s = t"
  by (cases f; cases g; cases s; cases t) simp_all

lemma generic_inject [simp]: "generic_for_family f = generic_for_family g \<longleftrightarrow> f = g"
  by (cases f; cases g) simp_all

lemma contains_exact_or [simp]:
  "contains_exact (Modifiers (w OR modifier_bit m)) n \<longleftrightarrow> contains_exact (Modifiers w) n \<or> n = m"
  by (auto simp: contains_exact_bit bit_or_iff)

lemma contains_exact_zero [simp]: "\<not> contains_exact (Modifiers 0) m"
  by (simp add: contains_exact_bit)

lemma family_state_new [simp]: "family_state modifiers_new f = Absent"
  by (simp add: family_state_bits modifiers_new_def state_of_bits_def)

text \<open>
  A set built by \<open>insert\<close> has no bit beyond the twelve and at most one bit per family.
\<close>

definition wf_modifiers :: "modifiers \<Rightarrow> bool" where
  "wf_modifiers ms \<longleftrightarrow>
     (\<forall>n\<ge>12. \<not> bit (mbits ms) n) \<and>
     (\<forall>m n. contains_exact ms m \<longrightarrow> contains_exact ms n \<longrightarrow> family m = family n \<longrightarrow> m = n)"

lemma wf_modifiers_new [simp]: "wf_modifiers modifiers_new"
  by (simp add: wf_modifiers_def modifiers_new_def)

lemma family_state_Absent_iff:
  "family_state ms f = Absent \<longleftrightarrow> (\<forall>m. family m = f \<longrightarrow> \<not> contains_exact ms m)"
proof
  assume "family_state ms f = Absent"
  then have none: "\<not> contains_exact ms (generic_for_family f)"
    "\<not> contains_exact ms (sided_for_family f SideLeft)"
    "\<not> contains_exact ms (sided_for_family f SideRight)"
    by (auto simp: family_state_bits state_of_bits_def split: if_splits)
  show "\<forall>m. family m = f \<longrightarrow> \<not> contains_exact ms m"
    using none modifier_exhaust by metis
qed (simp add: family_state_bits state_of_bits_def)

lemma modifiers_insert_Inr:
  "modifiers_insert ms m = Inr ms' \<longleftrightarrow>
     family_state ms (family m) = Absent \<and> ms' = insert_active ms m"
  by (auto simp: modifiers_insert_def insert_active_def Let_def)

lemma contains_exact_insert_active:
  "contains_exact (insert_active ms m) n \<longleftrightarrow> contains_exact ms n \<or> n = m"
  by (cases ms) (simp add: insert_active_def)

lemma family_state_insert_other:
  "family m \<noteq> f \<Longrightarrow> family_state (insert_active ms m) f = family_state ms f"
proof -
  assume "family m \<noteq> f"
  then have "generic_for_family f \<noteq> m" "sided_for_family f SideLeft \<noteq> m"
    "sided_for_family f SideRight \<noteq> m"
    by auto
  then show ?thesis by (simp add: family_state_bits contains_exact_insert_active)
qed

fun state_of_modifier :: "modifier \<Rightarrow> modifier_state" where
  "state_of_modifier m =
     (case side m of None \<Rightarrow> Generic | Some SideLeft \<Rightarrow> LeftOnly | Some SideRight \<Rightarrow> RightOnly)"

lemma family_state_insert_same:
  "family_state ms (family m) = Absent \<Longrightarrow>
   family_state (insert_active ms m) (family m) = state_of_modifier m"
  by (cases m)
     (auto simp: family_state_bits contains_exact_insert_active state_of_bits_def split: if_splits)

lemma wf_modifiers_insert:
  assumes "wf_modifiers ms" and "modifiers_insert ms m = Inr ms'"
  shows "wf_modifiers ms'"
proof -
  from assms(2) have ab: "family_state ms (family m) = Absent" and ms': "ms' = insert_active ms m"
    by (auto simp: modifiers_insert_Inr)
  have "\<not> bit (mbits ms') n" if "12 \<le> n" for n
    using assms(1) that less_le_not_le [of "bit_index m" 12]
    by (auto simp: wf_modifiers_def ms' insert_active_def bit_or_iff)
  moreover have "x = y"
    if "contains_exact ms' x" "contains_exact ms' y" "family x = family y" for x y
    using that assms(1) ab
    by (auto simp: ms' contains_exact_insert_active wf_modifiers_def family_state_Absent_iff)
  ultimately show ?thesis by (auto simp: wf_modifiers_def)
qed

lemma wf_contains_exact_state:
  assumes "wf_modifiers ms"
  shows "contains_exact ms m \<longleftrightarrow> family_state ms (family m) = state_of_modifier m"
proof -
  have uniq: "\<And>x y. contains_exact ms x \<Longrightarrow> contains_exact ms y \<Longrightarrow> family x = family y \<Longrightarrow> x = y"
    using assms by (auto simp: wf_modifiers_def)
  show ?thesis
    by (cases m)
       (auto simp: family_state_bits state_of_bits_def dest: uniq [of Ctrl] uniq [of LeftCtrl]
         uniq [of Shift] uniq [of LeftShift] uniq [of Alt] uniq [of LeftAlt] uniq [of Meta]
         uniq [of LeftMeta] uniq [of RightCtrl] uniq [of RightShift] uniq [of RightAlt]
         uniq [of RightMeta])
qed

lemma bit_index_surj: "n < 12 \<Longrightarrow> \<exists>m. bit_index m = n"
proof -
  assume "n < 12"
  then have "n = 11 \<or> n = 9 \<or> n = 7 \<or> n = 5 \<or> n = 3 \<or> n = 1 \<or> n = 10 \<or> n = 8 \<or> n = 6 \<or>
    n = 4 \<or> n = 2 \<or> n = 0"
    by arith
  then show ?thesis by (elim disjE) (metis bit_index.simps)+
qed

lemma wf_modifiers_eqI:
  assumes "wf_modifiers x" and "wf_modifiers y"
    and "\<And>f. family_state x f = family_state y f"
  shows "x = y"
proof -
  have "bit (mbits x) n = bit (mbits y) n" for n
  proof (cases "n < 12")
    case True
    then obtain m where "bit_index m = n" using bit_index_surj by blast
    then show ?thesis
      using assms wf_contains_exact_state [of x m] wf_contains_exact_state [of y m]
      by (auto simp: contains_exact_bit)
  next
    case False
    then show ?thesis using assms by (auto simp: wf_modifiers_def)
  qed
  then have "mbits x = mbits y" by (simp add: bit_eq_iff)
  then show ?thesis by (simp add: modifiers.expand)
qed

lemma wf_family_state_not_Both:
  assumes "wf_modifiers ms"
  shows "family_state ms f \<noteq> Both"
proof
  assume "family_state ms f = Both"
  then have "contains_exact ms (sided_for_family f SideLeft)"
    and "contains_exact ms (sided_for_family f SideRight)"
    by (auto simp: family_state_bits state_of_bits_def split: if_splits)
  then have "sided_for_family f SideLeft = sided_for_family f SideRight"
    using assms unfolding wf_modifiers_def by (metis family_sided)
  then show False by simp
qed

lemma list_all_families [simp]: "list_all P family_ordered \<longleftrightarrow> (\<forall>f. P f)"
  unfolding family_ordered_def by simp (metis modifier_family.exhaust)

section \<open>Matching and overlap of modifier sets\<close>

text \<open>
  Any assignment of states to families is the state of some bit set; the two side bits make
  \<open>Both\<close>.
\<close>

definition state_bits :: "modifier_state \<Rightarrow> modifier_family \<Rightarrow> u16" where
  "state_bits s f =
     (case s of Absent \<Rightarrow> 0 | Generic \<Rightarrow> modifier_bit (generic_for_family f)
      | LeftOnly \<Rightarrow> modifier_bit (sided_for_family f SideLeft)
      | RightOnly \<Rightarrow> modifier_bit (sided_for_family f SideRight)
      | Both \<Rightarrow> modifier_bit (sided_for_family f SideLeft)
                 OR modifier_bit (sided_for_family f SideRight))"

definition modifiers_of_states :: "(modifier_family \<Rightarrow> modifier_state) \<Rightarrow> modifiers" where
  "modifiers_of_states st =
     Modifiers (state_bits (st FamCtrl) FamCtrl OR state_bits (st FamShift) FamShift OR
                state_bits (st FamAlt) FamAlt OR state_bits (st FamMeta) FamMeta)"

lemma bit_state_bits:
  "bit (state_bits s f) (bit_index m) \<longleftrightarrow>
     family m = f \<and> (state_of_modifier m = s \<or> (s = Both \<and> side m \<noteq> None))"
  by (cases s; cases m; cases f) (simp_all add: state_bits_def bit_or_iff)

lemma family_state_of_states [simp]: "family_state (modifiers_of_states st) f = st f"
proof -
  have c: "contains_exact (modifiers_of_states st) m \<longleftrightarrow>
      state_of_modifier m = st (family m) \<or> (st (family m) = Both \<and> side m \<noteq> None)" for m
    unfolding contains_exact_bit modifiers_of_states_def
    by (cases m) (simp_all only: modifiers.sel bit_or_iff bit_state_bits family.simps, auto)
  have sd: "side (generic_for_family f) = None" "side (sided_for_family f SideLeft) = Some SideLeft"
    "side (sided_for_family f SideRight) = Some SideRight"
    by (cases f; simp)+
  show ?thesis
    unfolding family_state_bits c by (cases "st f") (simp_all add: sd state_of_bits_def)
qed

lemma family_states_overlap_iff:
  "family_states_overlap l r \<longleftrightarrow>
     (\<exists>a. family_requirement_matches l a \<and> family_requirement_matches r a)"
  by (cases l; cases r) (auto intro: exI [of _ Generic] exI [of _ LeftOnly] exI [of _ RightOnly])

lemma modifiers_overlaps_iff:
  "modifiers_overlaps l r \<longleftrightarrow>
     (\<exists>a. modifiers_matches_active l a \<and> modifiers_matches_active r a)"
proof
  assume "modifiers_overlaps l r"
  then have "\<forall>f. \<exists>a. family_requirement_matches (family_state l f) a \<and>
      family_requirement_matches (family_state r f) a"
    by (simp add: modifiers_overlaps_def family_states_overlap_iff)
  then obtain st where "\<forall>f. family_requirement_matches (family_state l f) (st f) \<and>
      family_requirement_matches (family_state r f) (st f)"
    by metis
  then have "modifiers_matches_active l (modifiers_of_states st) \<and>
      modifiers_matches_active r (modifiers_of_states st)"
    by (simp add: modifiers_matches_active_def)
  then show "\<exists>a. modifiers_matches_active l a \<and> modifiers_matches_active r a" by blast
next
  assume "\<exists>a. modifiers_matches_active l a \<and> modifiers_matches_active r a"
  then show "modifiers_overlaps l r"
    by (auto simp: modifiers_overlaps_def modifiers_matches_active_def family_states_overlap_iff)
qed

lemma modifiers_matches_active_refl [simp]: "modifiers_matches_active ms ms"
proof -
  have "family_requirement_matches s s" for s by (cases s) simp_all
  then show ?thesis by (simp add: modifiers_matches_active_def)
qed

section \<open>Keys: facts\<close>

text \<open>The keys the alias parser can produce.\<close>

fun wf_mouse :: "mouse_button \<Rightarrow> bool" where
  "wf_mouse (MouseOther n) \<longleftrightarrow> n = 0 \<or> 5 < n"
| "wf_mouse _ \<longleftrightarrow> True"

fun wf_key :: "logical_key \<Rightarrow> bool" where
  "wf_key (Letter c) \<longleftrightarrow> is_ascii_lowercase c"
| "wf_key (Digit d) \<longleftrightarrow> d < 10"
| "wf_key (NumpadDigit d) \<longleftrightarrow> d < 10"
| "wf_key (Function n) \<longleftrightarrow> 1 \<le> n \<and> n \<le> 12"
| "wf_key (MouseKey b) \<longleftrightarrow> wf_mouse b"
| "wf_key _ \<longleftrightarrow> True"

lemma wf_mouse_of_number [simp]: "wf_mouse (mouse_of_number n)"
proof -
  have "5 < n \<or> n = 5 \<or> n = 4 \<or> n = 3 \<or> n = 2 \<or> n = 1 \<or> n = 0"
  proof -
    have "5 < unat n \<or> unat n = 5 \<or> unat n = 4 \<or> unat n = 3 \<or> unat n = 2 \<or> unat n = 1 \<or> unat n = 0"
      by arith
    then show ?thesis by (auto simp: word_less_nat_alt word_unat_eq_iff)
  qed
  then show ?thesis by (auto simp: mouse_of_number_def)
qed

lemma digit_val_word_less [simp]: "is_ascii_digit c \<Longrightarrow> (word_of_nat (digit_val c) :: u8) < 10"
proof -
  assume "is_ascii_digit c"
  then have "digit_val c < 10" by simp
  then show ?thesis by (simp add: word_less_nat_alt unat_of_nat)
qed

lemma wf_key_aliases: "map_of key_aliases a = Some k \<Longrightarrow> wf_key k"
proof -
  have "\<forall>(b, k)\<in>set key_aliases. wf_key k" by (simp add: key_aliases_def)
  then show "map_of key_aliases a = Some k \<Longrightarrow> wf_key k" by (auto dest: map_of_SomeD)
qed

lemma wf_key_from_alias: "key_from_alias a = Some k \<Longrightarrow> wf_key k"
  by (auto simp: key_from_alias_def or_else_Some_iff single_char_key_def numpad_key_def
      function_key_def Let_def dest: wf_key_aliases split: if_splits option.splits)

section \<open>Reading a canonical name back\<close>

lemma prefixed_number_append [simp]:
  "prefixed_number p (p @ s) = parse_u8 s"
  by (simp add: prefixed_number_def strip_prefix_def)

lemma prefixed_number_None: "\<not> prefix p s \<Longrightarrow> prefixed_number p s = None"
  by (simp add: prefixed_number_def strip_prefix_def)

lemma numpad_key_None: "\<not> prefix p s \<Longrightarrow> numpad_key p s = None"
  by (simp add: numpad_key_def strip_prefix_def)

lemma show_nat_single: "n < 10 \<Longrightarrow> show_nat n = [digit_char n]"
  by (subst show_nat.simps) simp

lemma digit_char_ascii [simp]: "d < 10 \<Longrightarrow> is_ascii (digit_char d)"
  by (simp add: digit_char_def is_ascii_def)

lemma str_len_pos: "s \<noteq> [] \<Longrightarrow> 1 \<le> str_len s"
  by (cases s) (auto simp: str_len_def)

lemma str_len_Cons: "str_len (c # s) = (if is_ascii c then 1 else 2) + str_len s"
  by (simp add: str_len_def)

lemma single_char_key_long: "s \<noteq> [] \<Longrightarrow> single_char_key (c # s) = None"
  using str_len_pos [of s] by (auto simp: single_char_key_def str_len_Cons)

lemma modifier_from_canonical [simp]:
  "modifier_from_alias (modifier_canonical_name m) = Some m"
  by (cases m) (simp_all add: modifier_from_alias_def modifier_aliases_def)

lemma key_from_canonical_letter:
  "is_ascii_lowercase c \<Longrightarrow> key_from_alias [c] = Some (Letter c)"
  by (simp add: key_from_alias_def single_char_key_def str_len_def char_defs)

lemma key_from_canonical_digit:
  assumes "d < 10"
  shows "key_from_alias (show_nat (unat d)) = Some (Digit d)"
proof -
  from assms have lt: "unat d < 10" by (simp add: word_less_nat_alt)
  then have "\<not> is_ascii_lowercase (digit_char (unat d))"
    by (simp add: digit_char_def char_defs)
  with lt show ?thesis
    by (simp add: key_from_alias_def single_char_key_def show_nat_single str_len_def)
qed

lemma key_from_canonical_numpad:
  assumes "d < 10"
  shows "key_from_alias (''num'' @ show_nat (unat d)) = Some (NumpadDigit d)"
proof -
  from assms have lt: "unat d < 10" by (simp add: word_less_nat_alt)
  then show ?thesis
    by (simp add: key_from_alias_def single_char_key_long numpad_key_def strip_prefix_def
        show_nat_single str_len_def)
qed

lemma key_from_canonical_function:
  assumes "1 \<le> n" and "n \<le> 12"
  shows "key_from_alias (''f'' @ show_nat (unat n)) = Some (Function n)"
  using assms
  by (simp add: key_from_alias_def single_char_key_long numpad_key_None function_key_def
      prefixed_number_append [of "''f''", simplified])

lemma key_from_canonical_mouse_other:
  assumes "wf_mouse (MouseOther n)"
  shows "key_from_alias (''mouse'' @ show_nat (unat n)) = Some (MouseKey (MouseOther n))"
proof -
  have "mouse_of_number n = MouseOther n"
    using assms by (auto simp: mouse_of_number_def)
  moreover have "prefixed_number ''mouse'' (''mouse'' @ show_nat (unat n)) = Some n"
    by (simp only: prefixed_number_append parse_u8_show_nat)
  ultimately show ?thesis
    by (simp add: key_from_alias_def single_char_key_long numpad_key_None function_key_def
        prefixed_number_None)
qed

lemmas key_eval = key_from_alias_def single_char_key_def numpad_key_def function_key_def
  prefixed_number_def strip_prefix_def parse_u8_def str_len_def char_defs digits_val_def
  digit_val_def key_aliases_def mouse_of_number_def

lemma key_from_canonical_mouse:
  "wf_mouse b \<Longrightarrow> key_from_alias (mouse_canonical_name b) = Some (MouseKey b)"
proof (cases b)
  case (MouseOther n)
  assume "wf_mouse b"
  then show ?thesis using MouseOther key_from_canonical_mouse_other [of n]
    by (simp only: mouse_canonical_name.simps)
qed (simp_all add: key_eval)

lemma key_from_canonical_modifier:
  "key_from_alias (modifier_canonical_name m) = Some (ModifierKey m)"
  by (cases m) (simp_all add: key_eval modifier_from_alias_def modifier_aliases_def)

lemma key_from_canonical:
  assumes "wf_key k"
  shows "key_from_alias (key_canonical_name k) = Some k"
proof (cases k)
  case (Letter c)
  then show ?thesis using assms by (simp add: key_from_canonical_letter)
next
  case (Digit d)
  then show ?thesis using assms by (simp add: key_from_canonical_digit)
next
  case (NumpadDigit d)
  then show ?thesis
    using assms key_from_canonical_numpad [of d]
    by (simp only: key_canonical_name.simps wf_key.simps)
next
  case (Function n)
  then show ?thesis
    using assms key_from_canonical_function [of n]
    by (simp only: key_canonical_name.simps wf_key.simps)
next
  case (ModifierKey m)
  then show ?thesis by (simp add: key_from_canonical_modifier)
next
  case (MouseKey b)
  then show ?thesis using assms by (simp add: key_from_canonical_mouse)
qed (simp_all add: key_eval)

section \<open>Properties\<close>

text \<open>Inserting a modifier into a well-formed set succeeds exactly when no modifier of its
  family is present; the result is well-formed and contains the modifier besides the old ones.
  Otherwise the error names the modifier that is present: a duplicate when it is the same one,
  a conflict when it is another of the family.\<close>

theorem modifiers_insert_spec:
  assumes "wf_modifiers ms"
  shows "case modifiers_insert ms m of
      Inr ms' \<Rightarrow> (\<forall>n. family n = family m \<longrightarrow> \<not> contains_exact ms n) \<and> wf_modifiers ms' \<and>
                 (\<forall>n. contains_exact ms' n \<longleftrightarrow> contains_exact ms n \<or> n = m)
    | Inl (Duplicate existing) \<Rightarrow> contains_exact ms m \<and> existing = m
    | Inl (Conflict existing incoming) \<Rightarrow> \<not> contains_exact ms m \<and> incoming = m \<and>
        contains_exact ms existing \<and> family existing = family m"
proof (cases "modifiers_insert ms m")
  case (Inr ms')
  then have ms': "ms' = insert_active ms m" and "family_state ms (family m) = Absent"
    by (simp_all add: modifiers_insert_Inr)
  moreover have "wf_modifiers ms'" using assms Inr by (rule wf_modifiers_insert)
  ultimately show ?thesis
    by (simp add: Inr contains_exact_insert_active family_state_Absent_iff)
next
  case (Inl e)
  then have na: "family_state ms (family m) \<noteq> Absent"
    by (auto simp: modifiers_insert_def Let_def split: if_splits)
  then obtain x where x: "canonical_modifier_for_family ms (family m) = Some x"
    by (cases "family_state ms (family m)") (simp_all add: canonical_modifier_for_family_def)
  moreover have "family x = family m \<and> contains_exact ms x"
    using x assms wf_family_state_not_Both [OF assms, of "family m"]
    by (cases "family_state ms (family m)"; cases m)
      (auto simp: canonical_modifier_for_family_def wf_contains_exact_state)
  moreover from this have "contains_exact ms m \<Longrightarrow> x = m"
    using assms by (simp add: wf_modifiers_def)
  ultimately show ?thesis using na by (simp add: modifiers_insert_def)
qed

theorem modifiers_insert_spec_witness:
  "wf_modifiers (Modifiers 1) \<and> modifiers_insert (Modifiers 1) RightCtrl = Inl (Conflict Ctrl RightCtrl)
   \<and> \<not> contains_exact (Modifiers 1) RightCtrl \<and> contains_exact (Modifiers 1) Ctrl"
proof -
  have ins: "modifiers_insert modifiers_new Ctrl = Inr (Modifiers 1)" by code_simp
  have wf: "wf_modifiers (Modifiers 1)" by (rule wf_modifiers_insert [OF _ ins]) simp
  have "modifiers_insert (Modifiers 1) RightCtrl = Inl (Conflict Ctrl RightCtrl)" by code_simp
  with wf modifiers_insert_spec [OF wf, of RightCtrl] show ?thesis by simp
qed

text \<open>Whatever key an alias denotes, the key's canonical name denotes the same key, and the
  key is in the range the parser promises (digits below ten, function keys one to twelve,
  extra mouse buttons other than the five named ones).\<close>

theorem key_alias_roundtrip:
  assumes "key_from_alias a = Some k"
  shows "wf_key k \<and> key_from_alias (key_canonical_name k) = Some k"
  using wf_key_from_alias [OF assms] key_from_canonical by blast

theorem key_alias_roundtrip_witness:
  "wf_key (Function 7) \<and> key_from_alias (key_canonical_name (Function 7)) = Some (Function 7)"
proof -
  have "key_from_alias ''f+07'' = Some (Function 7)" by code_simp
  then show ?thesis by (rule key_alias_roundtrip)
qed

end
