(* ===== verification/Hotkeys.thy ===== *)
theory Hotkeys
  imports Keys
begin

text \<open>
  Model of \<open>core/src/keys/hotkey.rs\<close>: parsing of hotkeys and key presses into a modifier set
  and a base key, their canonical strings, matching and overlap, and the tables of dangerous
  and reserved hotkeys. \<open>KeyParseError\<close> of \<open>core/src/keys/error.rs\<close> is the error type; the
  rendering of its messages is not modelled.
\<close>

record key_press =
  modifiers :: modifiers
  key :: logical_key

type_synonym hotkey = key_press

datatype key_parse_error =
    EmptyInput
  | MalformedSeparator
  | UnknownAlias string
  | DuplicateModifier string
  | ConflictingModifiers string string
  | MissingBaseKey
  | ModifierOnlyHotkey
  | MultipleBaseKeys string string
  | MissingKeypressMainKey
  | MouseButtonRequiresModifier string

datatype hotkey_platform = Windows | Linux | Mac

datatype dangerous_hotkey =
    Copy | Paste | Cut | Undo | SelectAll | Save | AppSwitcher | CloseWindow
  | SecureAttention | QuitApplication

datatype taurine_reserved_hotkey = PauseToggle

section \<open>Parsing\<close>

definition canonical_string :: "modifiers \<Rightarrow> logical_key \<Rightarrow> string" where
  "canonical_string ms k =
     join_with ''+'' (map modifier_canonical_name (modifiers_ordered ms) @ [key_canonical_name k])"

definition keypress_canonical :: "key_press \<Rightarrow> string" where
  "keypress_canonical h = canonical_string (modifiers h) (key h)"

definition insert_modifier :: "modifiers \<Rightarrow> modifier \<Rightarrow> key_parse_error + modifiers" where
  "insert_modifier ms m =
     (case modifiers_insert ms m of
        Inr ms' \<Rightarrow> Inr ms'
      | Inl (Duplicate existing) \<Rightarrow> Inl (DuplicateModifier (modifier_canonical_name existing))
      | Inl (Conflict existing incoming) \<Rightarrow>
          Inl (ConflictingModifiers (modifier_canonical_name existing)
                                    (modifier_canonical_name incoming)))"

text \<open>\<open>collect\<close> of an iterator of results: the first error, or all the values.\<close>

fun collect_segments :: "string list \<Rightarrow> key_parse_error + string list" where
  "collect_segments [] = Inr []"
| "collect_segments (segment # rest) =
     (let token = str_to_ascii_lowercase (str_trim segment) in
      if token = [] then Inl MalformedSeparator
      else case collect_segments rest of Inl e \<Rightarrow> Inl e | Inr ts \<Rightarrow> Inr (token # ts))"

definition split_tokens :: "string \<Rightarrow> key_parse_error + string list" where
  "split_tokens input =
     (let trimmed = str_trim input in
      if trimmed = [] then Inl EmptyInput else collect_segments (split_on CHR ''+'' trimmed))"

text \<open>The loop of \<open>parse_hotkey\<close>, with its two accumulators (base key and base token).\<close>

fun parse_hotkey_loop ::
  "modifiers \<Rightarrow> (logical_key \<times> string) option \<Rightarrow> string list
    \<Rightarrow> key_parse_error + modifiers \<times> (logical_key \<times> string) option" where
  "parse_hotkey_loop ms base [] = Inr (ms, base)"
| "parse_hotkey_loop ms base (token # tokens) =
     (case modifier_from_alias token of
        Some m \<Rightarrow>
          (case insert_modifier ms m of
             Inl e \<Rightarrow> Inl e
           | Inr ms' \<Rightarrow> parse_hotkey_loop ms' base tokens)
      | None \<Rightarrow>
          (case key_from_alias token of
             None \<Rightarrow> Inl (UnknownAlias token)
           | Some k \<Rightarrow>
               (case base of
                  Some (_, existing_token) \<Rightarrow> Inl (MultipleBaseKeys existing_token token)
                | None \<Rightarrow> parse_hotkey_loop ms (Some (k, token)) tokens)))"

definition parse_hotkey :: "string \<Rightarrow> key_parse_error + hotkey" where
  "parse_hotkey input =
     (case split_tokens input of
        Inl e \<Rightarrow> Inl e
      | Inr tokens \<Rightarrow>
          (case parse_hotkey_loop modifiers_new None tokens of
             Inl e \<Rightarrow> Inl e
           | Inr (ms, None) \<Rightarrow>
               if modifiers_is_empty ms then Inl MissingBaseKey else Inl ModifierOnlyHotkey
           | Inr (ms, Some (k, token)) \<Rightarrow>
               if is_modifier_key k \<noteq> None then Inl ModifierOnlyHotkey
               else if is_mouse_button k \<noteq> None \<and> modifiers_is_empty ms
               then Inl (MouseButtonRequiresModifier token)
               else Inr \<lparr>modifiers = ms, key = k\<rparr>))"

definition normalize_hotkey :: "string \<Rightarrow> key_parse_error + string" where
  "normalize_hotkey input =
     (case parse_hotkey input of Inl e \<Rightarrow> Inl e | Inr h \<Rightarrow> Inr (keypress_canonical h))"

fun insert_aliases :: "modifiers \<Rightarrow> string list \<Rightarrow> key_parse_error + modifiers" where
  "insert_aliases ms [] = Inr ms"
| "insert_aliases ms (alias # rest) =
     (case modifier_from_alias alias of
        None \<Rightarrow> Inl (UnknownAlias alias)
      | Some m \<Rightarrow>
          (case insert_modifier ms m of
             Inl e \<Rightarrow> Inl e
           | Inr ms' \<Rightarrow> insert_aliases ms' rest))"

definition parse_keypress_alias :: "string \<Rightarrow> key_parse_error + key_press" where
  "parse_keypress_alias input =
     (case split_tokens input of
        Inl e \<Rightarrow> Inl e
      | Inr tokens \<Rightarrow>
          (if tokens = [] then Inl MissingKeypressMainKey
           else
             (case insert_aliases modifiers_new (butlast tokens) of
                Inl e \<Rightarrow> Inl e
              | Inr ms \<Rightarrow>
                  (case key_from_alias (last tokens) of
                     None \<Rightarrow> Inl (UnknownAlias (last tokens))
                   | Some k \<Rightarrow> Inr \<lparr>modifiers = ms, key = k\<rparr>))))"

definition normalize_keypress_alias :: "string \<Rightarrow> key_parse_error + string" where
  "normalize_keypress_alias input =
     (case parse_keypress_alias input of Inl e \<Rightarrow> Inl e | Inr h \<Rightarrow> Inr (keypress_canonical h))"

section \<open>Matching, overlap, dangerous hotkeys\<close>

definition hotkey_matches :: "hotkey \<Rightarrow> hotkey \<Rightarrow> bool" where
  "hotkey_matches required active \<longleftrightarrow>
     key required = key active \<and>
     modifiers_matches_active (modifiers required) (modifiers active)"

definition hotkeys_overlap :: "hotkey \<Rightarrow> hotkey \<Rightarrow> bool" where
  "hotkeys_overlap l r \<longleftrightarrow> key l = key r \<and> modifiers_overlaps (modifiers l) (modifiers r)"

definition hotkey_strings_overlap :: "string \<Rightarrow> string \<Rightarrow> key_parse_error + bool" where
  "hotkey_strings_overlap l r =
     (case parse_hotkey l of
        Inl e \<Rightarrow> Inl e
      | Inr hl \<Rightarrow>
          (case parse_hotkey r of
             Inl e \<Rightarrow> Inl e
           | Inr hr \<Rightarrow> Inr (hotkeys_overlap hl hr)))"

text \<open>\<open>hotkey_with\<close> inserts the modifiers one by one and skips those that are refused.\<close>

fun insert_all :: "modifiers \<Rightarrow> modifier list \<Rightarrow> modifiers" where
  "insert_all ms [] = ms"
| "insert_all ms (m # rest) =
     insert_all (case modifiers_insert ms m of Inr ms' \<Rightarrow> ms' | Inl _ \<Rightarrow> ms) rest"

definition hotkey_with :: "modifier list \<Rightarrow> logical_key \<Rightarrow> hotkey" where
  "hotkey_with mods k = \<lparr>modifiers = insert_all modifiers_new mods, key = k\<rparr>"

definition danger_match ::
  "hotkey \<Rightarrow> dangerous_hotkey \<Rightarrow> modifier list \<Rightarrow> logical_key \<Rightarrow> dangerous_hotkey option" where
  "danger_match h d mods k = (if hotkeys_overlap h (hotkey_with mods k) then Some d else None)"

definition windows_linux_danger :: "hotkey \<Rightarrow> dangerous_hotkey option" where
  "windows_linux_danger h =
     or_else (danger_match h Copy [Ctrl] (Letter CHR ''c''))
    (or_else (danger_match h Paste [Ctrl] (Letter CHR ''v''))
    (or_else (danger_match h Cut [Ctrl] (Letter CHR ''x''))
    (or_else (danger_match h Undo [Ctrl] (Letter CHR ''z''))
    (or_else (danger_match h SelectAll [Ctrl] (Letter CHR ''a''))
    (or_else (danger_match h Save [Ctrl] (Letter CHR ''s''))
    (or_else (danger_match h AppSwitcher [Alt] Tab)
    (or_else (danger_match h CloseWindow [Alt] (Function 4))
             (danger_match h SecureAttention [Ctrl, Alt] Delete))))))))"

definition mac_danger :: "hotkey \<Rightarrow> dangerous_hotkey option" where
  "mac_danger h =
     or_else (danger_match h Copy [Meta] (Letter CHR ''c''))
    (or_else (danger_match h Paste [Meta] (Letter CHR ''v''))
    (or_else (danger_match h Cut [Meta] (Letter CHR ''x''))
    (or_else (danger_match h Undo [Meta] (Letter CHR ''z''))
    (or_else (danger_match h SelectAll [Meta] (Letter CHR ''a''))
    (or_else (danger_match h Save [Meta] (Letter CHR ''s''))
    (or_else (danger_match h AppSwitcher [Meta] Tab)
             (danger_match h QuitApplication [Meta] (Letter CHR ''q'')))))))) "

fun danger_for_platform :: "hotkey \<Rightarrow> hotkey_platform \<Rightarrow> dangerous_hotkey option" where
  "danger_for_platform h Windows = windows_linux_danger h"
| "danger_for_platform h Linux = windows_linux_danger h"
| "danger_for_platform h Mac = mac_danger h"

definition taurine_pause_hotkey :: hotkey where
  "taurine_pause_hotkey = hotkey_with [Alt] Backquote"

definition conflicts_with_taurine_global_hotkey :: "hotkey \<Rightarrow> taurine_reserved_hotkey option" where
  "conflicts_with_taurine_global_hotkey h =
     (if hotkeys_overlap h taurine_pause_hotkey then Some PauseToggle else None)"

section \<open>The contract of matching\<close>

text \<open>
  The clients of a matching relation (conflict detection, the catalogue, the danger tables)
  rest on one law: two requirements overlap exactly when some pressed combination fires both,
  and a requirement fires on itself.
\<close>

locale trigger_matching =
  fixes fires :: "'h \<Rightarrow> 'h \<Rightarrow> bool" and overlap :: "'h \<Rightarrow> 'h \<Rightarrow> bool"
  assumes overlap_iff: "overlap l r \<longleftrightarrow> (\<exists>a. fires l a \<and> fires r a)"
    and fires_refl: "fires h h"
begin

lemma overlap_refl: "overlap h h"
  using fires_refl by (auto simp: overlap_iff)

lemma overlap_sym: "overlap l r \<longleftrightarrow> overlap r l"
  by (auto simp: overlap_iff)

lemma fires_overlap: "fires l a \<Longrightarrow> overlap l a"
  using fires_refl by (auto simp: overlap_iff)

lemma disjoint_never_both: "\<not> overlap l r \<Longrightarrow> fires l a \<Longrightarrow> \<not> fires r a"
  by (auto simp: overlap_iff)

end

lemma hotkeys_overlap_iff_fires:
  "hotkeys_overlap l r \<longleftrightarrow> (\<exists>a. hotkey_matches l a \<and> hotkey_matches r a)"
proof
  assume ov: "hotkeys_overlap l r"
  then obtain a where "modifiers_matches_active (modifiers l) a"
    and "modifiers_matches_active (modifiers r) a"
    by (auto simp: hotkeys_overlap_def modifiers_overlaps_iff)
  with ov have "hotkey_matches l \<lparr>modifiers = a, key = key l\<rparr> \<and>
      hotkey_matches r \<lparr>modifiers = a, key = key l\<rparr>"
    by (simp add: hotkeys_overlap_def hotkey_matches_def)
  then show "\<exists>a. hotkey_matches l a \<and> hotkey_matches r a" by blast
next
  assume "\<exists>a. hotkey_matches l a \<and> hotkey_matches r a"
  then show "hotkeys_overlap l r"
    by (auto simp: hotkeys_overlap_def hotkey_matches_def modifiers_overlaps_iff)
qed

interpretation hk: trigger_matching hotkey_matches hotkeys_overlap
  by unfold_locales (simp_all add: hotkeys_overlap_iff_fires hotkey_matches_def)

section \<open>Well-formed hotkeys\<close>

definition wf_hotkey :: "hotkey \<Rightarrow> bool" where
  "wf_hotkey h \<longleftrightarrow> wf_modifiers (modifiers h) \<and> wf_key (key h) \<and>
     is_modifier_key (key h) = None \<and>
     (is_mouse_button (key h) \<noteq> None \<longrightarrow> \<not> modifiers_is_empty (modifiers h))"

lemma insert_modifier_Inr: "insert_modifier ms m = Inr ms' \<longleftrightarrow> modifiers_insert ms m = Inr ms'"
  by (auto simp: insert_modifier_def split: sum.splits modifier_insert_error.splits)

lemma parse_hotkey_loop_wf:
  "parse_hotkey_loop ms base ts = Inr (ms', base') \<Longrightarrow> wf_modifiers ms \<Longrightarrow>
   (\<forall>k t. base = Some (k, t) \<longrightarrow> wf_key k) \<Longrightarrow>
   wf_modifiers ms' \<and> (\<forall>k t. base' = Some (k, t) \<longrightarrow> wf_key k)"
  by (induction ms base ts rule: parse_hotkey_loop.induct)
     (auto split: option.splits sum.splits simp: insert_modifier_Inr
       dest: wf_modifiers_insert wf_key_from_alias)

lemma parse_hotkey_wf: "parse_hotkey s = Inr h \<Longrightarrow> wf_hotkey h"
  using parse_hotkey_loop_wf [of modifiers_new None]
  by (fastforce simp: parse_hotkey_def wf_hotkey_def
      split: sum.splits option.splits prod.splits if_splits)

section \<open>Tokens of a canonical string\<close>

definition token_ok :: "string \<Rightarrow> bool" where
  "token_ok t \<longleftrightarrow> t \<noteq> [] \<and>
     list_all (\<lambda>c. c \<noteq> CHR ''+'' \<and> \<not> is_whitespace c \<and> \<not> is_ascii_uppercase c) t"

lemma token_ok_show_nat [simp]: "token_ok (show_nat n)"
proof -
  have "list_all (\<lambda>c. c \<noteq> CHR ''+'' \<and> \<not> is_whitespace c \<and> \<not> is_ascii_uppercase c) (show_nat n)"
    by (rule list.pred_mono_strong [OF show_nat_digits]) (auto simp: char_defs)
  then show ?thesis by (simp add: token_ok_def)
qed

lemma token_ok_append: "token_ok p \<Longrightarrow> token_ok s \<Longrightarrow> token_ok (p @ s)"
  by (simp add: token_ok_def)

lemma token_ok_modifier [simp]: "token_ok (modifier_canonical_name m)"
  by (cases m) (simp_all add: token_ok_def char_defs)

lemma token_ok_mouse: "token_ok (mouse_canonical_name b)"
proof -
  have "token_ok ''mouse''" by (simp add: token_ok_def char_defs)
  then show ?thesis
    by (cases b) (simp_all only: mouse_canonical_name.simps token_ok_append token_ok_show_nat,
        simp_all add: token_ok_def char_defs)
qed

lemma token_ok_key: "wf_key k \<Longrightarrow> token_ok (key_canonical_name k)"
proof (cases k)
  case (NumpadDigit d)
  have "token_ok ''num''" by (simp add: token_ok_def char_defs)
  then show ?thesis
    by (simp only: NumpadDigit key_canonical_name.simps token_ok_append token_ok_show_nat)
next
  case (Function n)
  have "token_ok ''f''" by (simp add: token_ok_def char_defs)
  then show ?thesis
    by (simp only: Function key_canonical_name.simps token_ok_append token_ok_show_nat)
next
  case (MouseKey b)
  then show ?thesis by (simp add: token_ok_mouse)
next
  case (Letter c)
  assume "wf_key k"
  then show ?thesis by (auto simp: Letter token_ok_def char_defs)
next
  case (Digit d)
  then show ?thesis by simp
next
  case (ModifierKey m)
  then show ?thesis by simp
qed (simp_all add: token_ok_def char_defs)

lemma token_ok_normal: "token_ok t \<Longrightarrow> str_to_ascii_lowercase (str_trim t) = t"
proof -
  assume ok: "token_ok t"
  then have "\<forall>c\<in>set t. \<not> is_whitespace c" and up: "\<forall>c\<in>set t. \<not> is_ascii_uppercase c"
    by (auto simp: token_ok_def list_all_iff)
  then have "str_trim t = t" by (simp add: str_trim_no_ws)
  with up show ?thesis by (simp add: str_to_ascii_lowercase_def map_idI to_ascii_lowercase_id)
qed

lemma collect_segments_ok: "list_all token_ok ts \<Longrightarrow> collect_segments ts = Inr ts"
  by (induction ts) (auto simp: token_ok_normal Let_def, simp add: token_ok_def)

lemma join_with_nonempty: "t \<noteq> [] \<Longrightarrow> join_with sep (t # ts) \<noteq> []"
  by (cases ts) auto

lemma set_join_with: "set (join_with sep ts) \<subseteq> set sep \<union> \<Union> (set ` set ts)"
  by (induction sep ts rule: join_with.induct) auto

lemma split_tokens_join:
  assumes ne: "ts \<noteq> []" and ok: "list_all token_ok ts"
  shows "split_tokens (join_with ''+'' ts) = Inr ts"
proof -
  have "\<forall>c\<in>set (join_with ''+'' ts). \<not> is_whitespace c"
  proof
    fix c assume "c \<in> set (join_with ''+'' ts)"
    then have "c \<in> set ''+'' \<union> \<Union> (set ` set ts)" using set_join_with by (rule rev_subsetD)
    then consider "c = CHR ''+''" | t where "t \<in> set ts" "c \<in> set t" by auto
    then show "\<not> is_whitespace c"
    proof cases
      case 1
      then show ?thesis by (simp add: char_defs)
    next
      case 2
      then show ?thesis using ok by (simp add: list_all_iff token_ok_def)
    qed
  qed
  then have trim: "str_trim (join_with ''+'' ts) = join_with ''+'' ts" by (rule str_trim_no_ws)
  have "join_with ''+'' ts \<noteq> []"
    using ne ok by (cases ts) (auto simp: token_ok_def join_with_nonempty)
  moreover have "split_on CHR ''+'' (join_with ''+'' ts) = ts"
    using ok by (intro split_on_join ne) (auto simp: list_all_iff token_ok_def)
  ultimately show ?thesis by (simp add: split_tokens_def trim collect_segments_ok ok)
qed

section \<open>Reading a canonical string back\<close>

lemma modifier_alias_not_key:
  assumes "wf_key k" and "is_modifier_key k = None"
  shows "modifier_from_alias (key_canonical_name k) = None"
proof (cases k)
  case (Digit d)
  then have "unat d < 10" using assms by (simp add: word_less_nat_alt)
  then show ?thesis
    by (simp add: Digit show_nat_single modifier_from_alias_def modifier_aliases_def)
next
  case (MouseKey b)
  then show ?thesis
    by (cases b) (simp_all add: modifier_from_alias_def modifier_aliases_def)
next
  case (ModifierKey m)
  then show ?thesis using assms by simp
qed (simp_all add: modifier_from_alias_def modifier_aliases_def)

lemma absent_after_insert:
  assumes "distinct (map family (x # xs))"
    and "\<forall>y\<in>set (x # xs). family_state ms (family y) = Absent"
  shows "\<forall>y\<in>set xs. family_state (insert_active ms x) (family y) = Absent"
proof
  fix y assume "y \<in> set xs"
  moreover from this assms(1) have "family x \<noteq> family y" by (auto dest: image_eqI)
  ultimately show "family_state (insert_active ms x) (family y) = Absent"
    using assms(2) by (simp add: family_state_insert_other)
qed

text \<open>Inserting modifiers of distinct, still absent families never fails.\<close>

lemma family_state_foldl_insert:
  assumes "distinct (map family xs)" and "\<forall>x\<in>set xs. family_state ms (family x) = Absent"
  shows "family_state (foldl insert_active ms xs) f =
      (case find (\<lambda>x. family x = f) xs of None \<Rightarrow> family_state ms f
       | Some x \<Rightarrow> state_of_modifier x)"
  using assms
proof (induction xs arbitrary: ms)
  case (Cons x xs)
  have rest: "find (\<lambda>y. family y = f) xs = None" if "family x = f"
  proof -
    have "family x \<notin> family ` set xs" using Cons.prems(1) by simp
    then show ?thesis using that by (metis (mono_tags, lifting) find_None_iff imageI)
  qed
  have "\<forall>y\<in>set xs. family_state (insert_active ms x) (family y) = Absent"
    using Cons.prems(1,2) by (rule absent_after_insert)
  then show ?case
    using Cons.IH [of "insert_active ms x"] Cons.prems rest
    by (cases "family x = f")
      (auto simp: family_state_insert_same family_state_insert_other split: option.splits)
qed simp

lemma parse_hotkey_loop_modifiers:
  assumes "distinct (map family xs)" and "\<forall>x\<in>set xs. family_state ms (family x) = Absent"
  shows "parse_hotkey_loop ms base (map modifier_canonical_name xs @ ts) =
      parse_hotkey_loop (foldl insert_active ms xs) base ts"
  using assms
proof (induction xs arbitrary: ms)
  case (Cons x xs)
  have "\<forall>y\<in>set xs. family_state (insert_active ms x) (family y) = Absent"
    using Cons.prems(1,2) by (rule absent_after_insert)
  moreover have "insert_modifier ms x = Inr (insert_active ms x)"
    using Cons.prems by (simp add: insert_modifier_Inr modifiers_insert_Inr)
  ultimately show ?case using Cons by simp
qed simp

lemma wf_modifiers_foldl:
  assumes "distinct (map family xs)" and "\<forall>x\<in>set xs. family_state ms (family x) = Absent"
    and "wf_modifiers ms"
  shows "wf_modifiers (foldl insert_active ms xs)"
  using assms
proof (induction xs arbitrary: ms)
  case (Cons x xs)
  have "\<forall>y\<in>set xs. family_state (insert_active ms x) (family y) = Absent"
    using Cons.prems(1,2) by (rule absent_after_insert)
  moreover have "wf_modifiers (insert_active ms x)"
  proof (rule wf_modifiers_insert)
    show "wf_modifiers ms" by (rule Cons.prems(3))
    show "modifiers_insert ms x = Inr (insert_active ms x)"
      using Cons.prems(2) by (simp add: modifiers_insert_Inr)
  qed
  ultimately show ?case using Cons by simp
qed simp

lemma canonical_modifier_Some:
  "canonical_modifier_for_family ms f = Some x \<Longrightarrow> family x = f"
  by (cases "family_state ms f") (auto simp: canonical_modifier_for_family_def)

lemma family_modifiers_ordered:
  "map family (modifiers_ordered ms) =
     filter (\<lambda>f. canonical_modifier_for_family ms f \<noteq> None) family_ordered"
proof -
  have "map family (List.map_filter (canonical_modifier_for_family ms) fs) =
      filter (\<lambda>f. canonical_modifier_for_family ms f \<noteq> None) fs" for fs
    by (induction fs) (auto simp: map_filter_simps dest: canonical_modifier_Some split: option.splits)
  then show ?thesis by (simp add: modifiers_ordered_def)
qed

lemma find_modifiers_ordered:
  "find (\<lambda>x. family x = f) (modifiers_ordered ms) = canonical_modifier_for_family ms f"
proof -
  have "find (\<lambda>x. family x = f) (List.map_filter (canonical_modifier_for_family ms) fs) =
      (if f \<in> set fs then canonical_modifier_for_family ms f else None)" for fs
    by (induction fs) (auto simp: map_filter_simps dest: canonical_modifier_Some split: option.splits)
  moreover have "f \<in> set family_ordered" by (cases f) (simp_all add: family_ordered_def)
  ultimately show ?thesis by (simp add: modifiers_ordered_def)
qed

lemma distinct_family_ordered [simp]: "distinct (map family (modifiers_ordered ms))"
  by (simp add: family_modifiers_ordered family_ordered_def)

lemma state_of_canonical:
  assumes "wf_modifiers ms"
  shows "(case canonical_modifier_for_family ms f of None \<Rightarrow> Absent
          | Some x \<Rightarrow> state_of_modifier x) = family_state ms f"
  using wf_family_state_not_Both [OF assms, of f]
  by (cases "family_state ms f"; cases f) (simp_all add: canonical_modifier_for_family_def)

lemma rebuild_modifiers:
  assumes "wf_modifiers ms"
  shows "foldl insert_active modifiers_new (modifiers_ordered ms) = ms"
proof (rule wf_modifiers_eqI)
  show "wf_modifiers (foldl insert_active modifiers_new (modifiers_ordered ms))"
    by (rule wf_modifiers_foldl) simp_all
  show "family_state (foldl insert_active modifiers_new (modifiers_ordered ms)) f =
      family_state ms f" for f
    using family_state_foldl_insert [of "modifiers_ordered ms" modifiers_new f]
      state_of_canonical [OF assms, of f]
    by (cases "canonical_modifier_for_family ms f") (simp_all add: find_modifiers_ordered)
qed (rule assms)

text \<open>The canonical string is read back token by token; so it determines the modifiers.\<close>

lemma canonical_tokens:
  assumes ms: "wf_modifiers ms" and k: "wf_key k" and nm: "is_modifier_key k = None"
  defines "ts \<equiv> map modifier_canonical_name (modifiers_ordered ms) @ [key_canonical_name k]"
  shows "split_tokens (canonical_string ms k) = Inr ts \<and>
    parse_hotkey_loop modifiers_new None ts = Inr (ms, Some (k, key_canonical_name k))"
proof
  show "split_tokens (canonical_string ms k) = Inr ts"
    unfolding ts_def canonical_string_def
    using token_ok_key [OF k] by (intro split_tokens_join) (simp_all add: list_all_iff)
  show "parse_hotkey_loop modifiers_new None ts = Inr (ms, Some (k, key_canonical_name k))"
    unfolding ts_def
    by (subst parse_hotkey_loop_modifiers)
      (simp_all add: rebuild_modifiers [OF ms] modifier_alias_not_key [OF k nm]
        key_from_canonical [OF k])
qed

lemma canonical_string_modifiers:
  assumes "wf_modifiers ms" and "wf_modifiers ms'" and "wf_key k" and "is_modifier_key k = None"
    and "canonical_string ms k = canonical_string ms' k"
  shows "ms = ms'"
  using canonical_tokens [OF assms(1,3,4)] canonical_tokens [OF assms(2,3,4)] assms(5)
  by (metis prod.inject sum.inject(2))

lemma parse_canonical:
  assumes wf: "wf_hotkey h"
  shows "parse_hotkey (keypress_canonical h) = Inr h"
  using canonical_tokens [of "modifiers h" "key h"] wf
  by (auto simp: parse_hotkey_def keypress_canonical_def wf_hotkey_def)

text \<open>The modifiers that the canonical string of any set shows: where both sides of a modifier are held,
  the plain modifier.\<close>

definition shown_modifiers :: "modifiers \<Rightarrow> modifiers" where
  "shown_modifiers ms = foldl insert_active modifiers_new (modifiers_ordered ms)"

lemma wf_shown_modifiers [simp]: "wf_modifiers (shown_modifiers ms)"
  unfolding shown_modifiers_def by (rule wf_modifiers_foldl) simp_all

lemma canonical_shown_modifiers:
  "canonical_modifier_for_family (shown_modifiers ms) f = canonical_modifier_for_family ms f"
  using family_state_foldl_insert [of "modifiers_ordered ms" modifiers_new f]
  by (cases "family_state ms f"; cases f)
    (simp_all add: shown_modifiers_def find_modifiers_ordered canonical_modifier_for_family_def)

lemma canonical_string_shown: "canonical_string (shown_modifiers ms) k = canonical_string ms k"
proof -
  have "canonical_modifier_for_family (shown_modifiers ms) = canonical_modifier_for_family ms"
    by (rule ext) (rule canonical_shown_modifiers)
  then show ?thesis by (simp add: canonical_string_def modifiers_ordered_def)
qed

section \<open>Properties\<close>

text \<open>C37: Normalising a hotkey yields a string that parses to the same hotkey and that
  normalising leaves unchanged, so a stored canonical string is stable.\<close>

theorem normalize_hotkey_stable:
  assumes "normalize_hotkey s = Inr t"
  shows "normalize_hotkey t = Inr t \<and> parse_hotkey t = parse_hotkey s"
proof -
  from assms obtain h where h: "parse_hotkey s = Inr h" and t: "t = keypress_canonical h"
    by (auto simp: normalize_hotkey_def split: sum.splits)
  from h have "parse_hotkey t = Inr h" by (simp add: t parse_canonical parse_hotkey_wf)
  then show ?thesis by (simp add: normalize_hotkey_def t h)
qed

lemma normalize_example: "normalize_hotkey '' Shift + CONTROL+G'' = Inr ''ctrl+shift+g''"
  by code_simp

theorem normalize_hotkey_stable_witness:
  "normalize_hotkey ''ctrl+shift+g'' = Inr ''ctrl+shift+g'' \<and>
   parse_hotkey ''ctrl+shift+g'' = parse_hotkey '' Shift + CONTROL+G''"
  by (rule normalize_hotkey_stable [OF normalize_example])

text \<open>A hotkey that parses has a base key that is not a modifier, a well-formed modifier set,
  and at least one modifier when its base key is a mouse button.\<close>

theorem parse_hotkey_safe:
  assumes "parse_hotkey s = Inr h"
  shows "is_modifier_key (key h) = None \<and> wf_key (key h) \<and> wf_modifiers (modifiers h) \<and>
     (is_mouse_button (key h) \<noteq> None \<longrightarrow> \<not> modifiers_is_empty (modifiers h))"
  using parse_hotkey_wf [OF assms] by (simp add: wf_hotkey_def)

theorem parse_hotkey_safe_witness:
  "is_mouse_button (MouseKey Button4) \<noteq> None \<and> \<not> modifiers_is_empty (Modifiers 256)"
proof -
  have "parse_hotkey ''altgr+x1'' = Inr \<lparr>modifiers = Modifiers 256, key = MouseKey Button4\<rparr>"
    by code_simp
  from parse_hotkey_safe [OF this] show ?thesis by simp
qed

text \<open>C36: Two hotkeys overlap exactly when some pressed combination fires both; overlap is
  symmetric, and a hotkey that fires on a combination overlaps the combination itself.\<close>

theorem hotkeys_overlap_characterised:
  "(hotkeys_overlap l r \<longleftrightarrow> (\<exists>a. hotkey_matches l a \<and> hotkey_matches r a)) \<and>
   (hotkeys_overlap l r \<longleftrightarrow> hotkeys_overlap r l) \<and>
   (hotkey_matches l a \<longrightarrow> hotkeys_overlap l a)"
  using hk.overlap_iff hk.overlap_sym hk.fires_overlap by blast

theorem hotkeys_overlap_characterised_witness:
  "hotkeys_overlap (hotkey_with [Alt] (Letter CHR ''m'')) (hotkey_with [RightAlt] (Letter CHR ''m''))"
proof -
  have "hotkey_matches (hotkey_with [Alt] (Letter CHR ''m'')) (hotkey_with [RightAlt] (Letter CHR ''m''))"
    by code_simp
  then show ?thesis using hotkeys_overlap_characterised by blast
qed

text \<open>The reserved combinations of each platform.\<close>

fun reserved_hotkeys :: "hotkey_platform \<Rightarrow> hotkey list" where
  "reserved_hotkeys Mac =
     map (\<lambda>c. hotkey_with [Meta] (Letter c)) ''cvxzasq'' @ [hotkey_with [Meta] Tab]"
| "reserved_hotkeys _ =
     map (\<lambda>c. hotkey_with [Ctrl] (Letter c)) ''cvxzas'' @
     [hotkey_with [Alt] Tab, hotkey_with [Alt] (Function 4), hotkey_with [Ctrl, Alt] Delete]"

lemma danger_match_None [simp]:
  "danger_match h d mods k = None \<longleftrightarrow> \<not> hotkeys_overlap h (hotkey_with mods k)"
  by (simp add: danger_match_def)

text \<open>A hotkey is flagged as dangerous on a platform exactly when some pressed combination
  would fire both it and one of the platform's reserved combinations.\<close>

theorem danger_for_platform_complete:
  "danger_for_platform h p \<noteq> None \<longleftrightarrow>
     (\<exists>d\<in>set (reserved_hotkeys p). \<exists>a. hotkey_matches h a \<and> hotkey_matches d a)"
  unfolding hk.overlap_iff [symmetric]
  by (cases p) (auto simp: windows_linux_danger_def mac_danger_def simp del: or_else.simps)

end
