(* ===== verification/AppFilter.thy ===== *)
theory AppFilter
  imports Prelude
begin

text \<open>
  Application filters of a trigger, \<open>core/src/engine/catalog/expansion.rs\<close> (\<open>split_app_filters\<close>,
  \<open>match_rules\<close>, \<open>entry_has_app_filters\<close>, \<open>is_app_allowed\<close>), their stored form
  (\<open>core/src/db/crud/triggers/trigger_set.rs\<close>, \<open>app_filter.rs\<close>), the lazily fetched window of
  \<open>catalog/window_resolver.rs\<close>, and the action record of \<open>trigger_types.rs\<close>.

  A \<open>OnceLock\<close> is an option that is written once; the \<open>FnOnce\<close> that fetches the window is the value it
  will return, and \<open>None\<close> once it is taken.  The JSON parser of \<open>from_static\<close> is a parameter.
\<close>

section \<open>Actions\<close>

datatype script_interpreter = Bash | PowerShell | Python | Node | Cmd
datatype script_behavior = Inline | Silent
datatype action_type = Text_Action | Script_Action

fun interpreter_as_str :: "script_interpreter \<Rightarrow> string" where
  "interpreter_as_str Bash = ''bash''"
| "interpreter_as_str PowerShell = ''powershell''"
| "interpreter_as_str Python = ''python''"
| "interpreter_as_str Node = ''node''"
| "interpreter_as_str Cmd = ''cmd''"

definition interpreter_parse_str :: "string \<Rightarrow> script_interpreter option" where
  "interpreter_parse_str s =
     (let t = str_to_lowercase (str_trim s) in
      if t \<in> {''bash'', ''sh''} then Some Bash
      else if t \<in> {''powershell'', ''pwsh'', ''ps1''} then Some PowerShell
      else if t \<in> {''python'', ''py''} then Some Python
      else if t \<in> {''node'', ''js'', ''cjs''} then Some Node
      else if t \<in> {''cmd'', ''bat''} then Some Cmd
      else None)"

fun behavior_as_str :: "script_behavior \<Rightarrow> string" where
  "behavior_as_str Inline = ''inline''"
| "behavior_as_str Silent = ''silent''"

definition behavior_parse_str :: "string \<Rightarrow> script_behavior option" where
  "behavior_parse_str s =
     (let t = str_to_lowercase (str_trim s) in
      if t = ''inline'' then Some Inline else if t = ''silent'' then Some Silent else None)"

fun action_as_str :: "action_type \<Rightarrow> string" where
  "action_as_str Text_Action = ''text''"
| "action_as_str Script_Action = ''script''"

definition action_parse_str :: "string \<Rightarrow> action_type option" where
  "action_parse_str s =
     (let t = str_to_lowercase (str_trim s) in
      if t = ''text'' then Some Text_Action else if t = ''script'' then Some Script_Action else None)"

record trigger_action =
  ta_output :: string
  ta_action_type :: string
  ta_only_apps :: "string option"
  ta_except_apps :: "string option"
  ta_auto_case :: bool
  ta_parent_id :: string
  ta_interpreter :: "script_interpreter option"
  ta_behavior :: "script_behavior option"
  ta_script_binary :: "u8 list option"

definition text_action :: "string \<Rightarrow> trigger_action" where
  "text_action output =
     \<lparr>ta_output = output, ta_action_type = action_as_str Text_Action, ta_only_apps = None,
      ta_except_apps = None, ta_auto_case = False, ta_parent_id = [], ta_interpreter = None,
      ta_behavior = None, ta_script_binary = None\<rparr>"

definition is_script :: "trigger_action \<Rightarrow> bool" where
  "is_script a \<longleftrightarrow> action_parse_str (ta_action_type a) = Some Script_Action"

definition is_text :: "trigger_action \<Rightarrow> bool" where
  "is_text a \<longleftrightarrow> action_parse_str (ta_action_type a) = Some Text_Action"

section \<open>Filter lists\<close>

definition push_item :: "string list \<Rightarrow> string \<Rightarrow> string list" where
  "push_item items current = (if str_trim current = [] then items else items @ [str_trim current])"

text \<open>The loop over the characters: a comma ends an item, a backslash before a comma escapes it.\<close>

fun split_loop :: "string \<Rightarrow> string list \<Rightarrow> string \<Rightarrow> string list" where
  "split_loop [] items current = push_item items current"
| "split_loop (c # cs) items current =
     (case cs of
        d # ds \<Rightarrow>
          if c = CHR 0x5C \<and> d = CHR '','' then split_loop ds items (current @ [CHR '',''])
          else if c = CHR '','' then split_loop cs (push_item items current) []
          else split_loop cs items (current @ [c])
      | [] \<Rightarrow>
          if c = CHR '','' then split_loop cs (push_item items current) []
          else split_loop cs items (current @ [c]))"

definition split_app_filters :: "string \<Rightarrow> string list" where
  "split_app_filters input = split_loop input [] []"

record active_window_info =
  aw_title :: "string option"
  aw_class :: "string option"
  aw_exec_name :: "string option"
  aw_exec_path :: "string option"

definition no_window :: active_window_info where
  "no_window = \<lparr>aw_title = None, aw_class = None, aw_exec_name = None, aw_exec_path = None\<rparr>"

definition replace_char :: "char \<Rightarrow> char \<Rightarrow> string \<Rightarrow> string" where
  "replace_char a b s = map (\<lambda>c. if c = a then b else c) s"

definition strip_exe :: "string \<Rightarrow> string" where
  "strip_exe s = (case strip_suffix ''.exe'' s of None \<Rightarrow> s | Some t \<Rightarrow> t)"

text \<open>The prefix of a rule: \<open>exe\<close>, \<open>class\<close> or \<open>title\<close> before the first colon, else the whole rule is
  an executable name.\<close>

definition rule_parts :: "string \<Rightarrow> string \<times> string" where
  "rule_parts rule =
     (let p = takeWhile (\<lambda>c. c \<noteq> CHR '':'') rule;
          v = drop (length p) rule;
          p_lower = str_to_lowercase p
      in if v \<noteq> [] \<and> p_lower \<in> {''exe'', ''class'', ''title''} then (p_lower, tl v)
         else (''exe'', rule))"

definition name_matches :: "active_window_info \<Rightarrow> string \<Rightarrow> bool" where
  "name_matches info val_lower =
     (case aw_exec_name info of
        None \<Rightarrow> False
      | Some name \<Rightarrow> strip_exe (str_to_lowercase name) = strip_exe val_lower)"

definition rule_matches :: "active_window_info \<Rightarrow> string \<Rightarrow> bool" where
  "rule_matches info rule =
     (let (pre, val) = rule_parts rule; val_lower = str_to_lowercase val in
      if pre = ''exe'' then
        (if aw_exec_path info \<noteq> None \<and> (CHR ''/'' \<in> set val \<or> CHR 0x5C \<in> set val) then
           str_to_lowercase (replace_char CHR ''/'' CHR 0x5C (the (aw_exec_path info))) =
             replace_char CHR ''/'' CHR 0x5C val_lower
         else name_matches info val_lower)
      else if pre = ''class'' then
        (case aw_class info of None \<Rightarrow> False | Some c \<Rightarrow> str_to_lowercase c = val_lower)
      else if pre = ''title'' then
        (case aw_title info of None \<Rightarrow> False | Some t \<Rightarrow> sublist val_lower (str_to_lowercase t))
      else name_matches info val_lower)"

definition match_rules :: "string \<Rightarrow> active_window_info \<Rightarrow> bool" where
  "match_rules filter_list info =
     (let rules = split_app_filters filter_list in
      if rules = [] then False else list_ex (rule_matches info) rules)"

definition filter_set :: "string option \<Rightarrow> bool" where
  "filter_set f = (case f of None \<Rightarrow> False | Some s \<Rightarrow> str_trim s \<noteq> [])"

definition entry_has_app_filters :: "trigger_action \<Rightarrow> bool" where
  "entry_has_app_filters a \<longleftrightarrow> filter_set (ta_only_apps a) \<or> filter_set (ta_except_apps a)"

definition is_app_allowed :: "trigger_action \<Rightarrow> active_window_info option \<Rightarrow> bool" where
  "is_app_allowed a window =
     (let has_only = filter_set (ta_only_apps a); has_except = filter_set (ta_except_apps a) in
      if \<not> has_only \<and> \<not> has_except then True
      else case window of
        None \<Rightarrow> False
      | Some info \<Rightarrow>
          if has_only \<and> \<not> match_rules (the (ta_only_apps a)) info then False
          else if has_except \<and> match_rules (the (ta_except_apps a)) info then False
          else True)"

section \<open>The window resolver\<close>

type_synonym window_resolver = "active_window_info option option"
type_synonym window_fetch = "active_window_info option option"

definition lazy :: window_resolver where
  "lazy = None"

definition from_info :: "active_window_info option \<Rightarrow> window_resolver" where
  "from_info info = Some info"

definition exec_only :: "string \<Rightarrow> active_window_info" where
  "exec_only s = no_window\<lparr>aw_exec_name := Some s\<rparr>"

definition from_static :: "(string \<Rightarrow> active_window_info option) \<Rightarrow> string option \<Rightarrow> window_resolver" where
  "from_static from_json window =
     from_info (case window of
        None \<Rightarrow> None
      | Some s \<Rightarrow>
          Some (if s \<noteq> [] \<and> hd s = CHR 0x7B
                then (case from_json s of None \<Rightarrow> exec_only s | Some info \<Rightarrow> info)
                else exec_only s))"

text \<open>\<open>window.resolve(|| fetch_window.take().and_then(|f| f()))\<close>: the window, the resolver and the
  fetcher afterwards.\<close>

definition resolve_window ::
  "window_resolver \<Rightarrow> window_fetch \<Rightarrow> active_window_info option \<times> window_resolver \<times> window_fetch" where
  "resolve_window window fetch =
     (case window of
        Some w \<Rightarrow> (w, window, fetch)
      | None \<Rightarrow> (case fetch of None \<Rightarrow> (None, Some None, None) | Some w \<Rightarrow> (w, Some w, None)))"

definition get_cached :: "window_resolver \<Rightarrow> active_window_info option" where
  "get_cached window = (case window of None \<Rightarrow> None | Some w \<Rightarrow> w)"

lemma get_cached_simps [simp]: "get_cached None = None" "get_cached (Some w) = w"
  by (simp_all add: get_cached_def)

text \<open>The resolver and the fetcher can still only answer \<open>w\<close>; without a fetcher that is no window.\<close>

definition will_see :: "active_window_info option \<Rightarrow> window_resolver \<Rightarrow> window_fetch \<Rightarrow> bool" where
  "will_see w window fetch \<longleftrightarrow> window = Some w \<or> (window = None \<and> get_cached fetch = w)"

lemma resolve_will_see:
  "will_see w window fetch \<Longrightarrow>
   \<exists>window' fetch'. resolve_window window fetch = (w, window', fetch') \<and> will_see w window' fetch'"
  by (auto simp: will_see_def resolve_window_def split: option.splits)

lemma unfiltered_allowed: "\<not> entry_has_app_filters a \<Longrightarrow> is_app_allowed a w"
  by (simp add: entry_has_app_filters_def is_app_allowed_def)

lemma filtered_unknown: "entry_has_app_filters a \<Longrightarrow> \<not> is_app_allowed a None"
  by (auto simp: entry_has_app_filters_def is_app_allowed_def)

section \<open>The stored form of a filter list\<close>

datatype app_filter_prefix = Exe | Class | Title

fun as_prefix_str :: "app_filter_prefix \<Rightarrow> string" where
  "as_prefix_str Exe = ''exe''"
| "as_prefix_str Class = ''class''"
| "as_prefix_str Title = ''title''"

definition parse_prefix :: "string \<Rightarrow> app_filter_prefix option" where
  "parse_prefix s =
     (let t = str_to_lowercase (str_trim s) in
      if t = ''exe'' then Some Exe else if t = ''class'' then Some Class
      else if t = ''title'' then Some Title else None)"

datatype filter_error = Unknown_Prefix string

fun check_items :: "string list \<Rightarrow> filter_error + string list" where
  "check_items [] = Inr []"
| "check_items (item # items) =
     (if CHR '':'' \<in> set item \<and> parse_prefix (takeWhile (\<lambda>c. c \<noteq> CHR '':'') item) = None
      then Inl (Unknown_Prefix (takeWhile (\<lambda>c. c \<noteq> CHR '':'') item))
      else case check_items items of Inl e \<Rightarrow> Inl e | Inr xs \<Rightarrow> Inr (item # xs))"

definition clean_app_filter_value :: "string option \<Rightarrow> filter_error + string option" where
  "clean_app_filter_value input =
     (case input of
        None \<Rightarrow> Inr None
      | Some raw \<Rightarrow>
          (case check_items (split_app_filters raw) of
             Inl e \<Rightarrow> Inl e
           | Inr items \<Rightarrow> Inr (if items = [] then None else Some (join_with '','' items))))"

section \<open>Overlapping scopes\<close>

definition target_os_values_overlap :: "string \<Rightarrow> string \<Rightarrow> bool" where
  "target_os_values_overlap l r \<longleftrightarrow> l = r \<or> l = ''all'' \<or> r = ''all''"

definition clean_list :: "string \<Rightarrow> string list" where
  "clean_list s = map str_to_lowercase (split_app_filters s)"

definition app_filters_overlap ::
  "string option \<Rightarrow> string option \<Rightarrow> string option \<Rightarrow> string option \<Rightarrow> bool" where
  "app_filters_overlap only_a except_a only_b except_b =
     (case (map_option clean_list only_a, map_option clean_list except_a,
            map_option clean_list only_b, map_option clean_list except_b) of
        (None, None, None, None) \<Rightarrow> True
      | (Some oa, None, Some ob, None) \<Rightarrow> list_ex (\<lambda>a. a \<in> set ob) oa
      | (Some oa, None, None, Some eb) \<Rightarrow> list_ex (\<lambda>a. a \<notin> set eb) oa
      | (None, Some ea, Some ob, None) \<Rightarrow> list_ex (\<lambda>b. b \<notin> set ea) ob
      | _ \<Rightarrow> True)"

section \<open>Writing and reading filter lists\<close>

definition escape_item :: "string \<Rightarrow> string" where
  "escape_item w = concat (map (\<lambda>c. if c = CHR '','' then [CHR 0x5C, CHR '',''] else [c]) w)"

text \<open>An item that survives a round trip: not blank, no surrounding blanks, no trailing backslash.\<close>

definition item_ok :: "string \<Rightarrow> bool" where
  "item_ok w \<longleftrightarrow> w \<noteq> [] \<and> str_trim w = w \<and> last w \<noteq> CHR 0x5C"

lemma split_loop_other:
  "c \<noteq> CHR '','' \<Longrightarrow> (c = CHR 0x5C \<Longrightarrow> cs = [] \<or> hd cs \<noteq> CHR '','') \<Longrightarrow>
   split_loop (c # cs) items cur = split_loop cs items (cur @ [c])"
  by (cases cs) auto

lemma split_loop_comma: "split_loop (CHR '','' # cs) items cur = split_loop cs (push_item items cur) []"
  by (cases cs) auto

declare split_loop.simps(2) [simp del]

lemma split_loop_escaped: "split_loop (CHR 0x5C # CHR '','' # cs) items cur = split_loop cs items (cur @ [CHR '',''])"
  by (simp add: split_loop.simps(2))

lemma escape_item_simps [simp]:
  "escape_item [] = []"
  "escape_item (c # w) = (if c = CHR '','' then [CHR 0x5C, CHR '',''] else [c]) @ escape_item w"
  by (simp_all add: escape_item_def)

lemma split_loop_item:
  assumes "w \<noteq> [] \<Longrightarrow> last w \<noteq> CHR 0x5C" and "rest = [] \<or> hd rest = CHR '',''"
  shows "split_loop (escape_item w @ rest) items cur = split_loop rest items (cur @ w)"
  using assms
proof (induction w arbitrary: cur)
  case (Cons c w)
  have ih: "split_loop (escape_item w @ rest) items cur = split_loop rest items (cur @ w)" for cur
    using Cons by (cases "w = []") auto
  show ?case
  proof (cases "c = CHR '',''")
    case True
    then show ?thesis by (simp add: split_loop_escaped ih)
  next
    case False
    have "escape_item w @ rest = [] \<or> hd (escape_item w @ rest) \<noteq> CHR '',''" if "c = CHR 0x5C"
      using Cons.prems(1) that by (cases w) auto
    then show ?thesis using False by (simp add: split_loop_other ih)
  qed
qed simp

lemma push_item_ok: "item_ok w \<Longrightarrow> push_item items w = items @ [w]"
  by (simp add: push_item_def item_ok_def)

lemma split_loop_join:
  "ws \<noteq> [] \<Longrightarrow> list_all item_ok ws \<Longrightarrow>
   split_loop (join_with '','' (map escape_item ws)) items [] = items @ ws"
proof (induction ws arbitrary: items)
  case (Cons w ws)
  then have w: "last w \<noteq> CHR 0x5C" "item_ok w" by (simp_all add: item_ok_def)
  show ?case
  proof (cases "ws = []")
    case True
    then show ?thesis
      using split_loop_item [of w "[]" items "[]"] w by (simp add: push_item_ok)
  next
    case False
    then have "split_loop (join_with '','' (map escape_item (w # ws))) items [] =
        split_loop (CHR '','' # join_with '','' (map escape_item ws)) items w"
      using split_loop_item [of w "CHR '','' # join_with '','' (map escape_item ws)" items "[]"] w
      by (simp add: join_with_Cons)
    then show ?thesis using Cons False w by (simp add: split_loop_comma push_item_ok)
  qed
qed simp

definition clean_items :: "string list \<Rightarrow> bool" where
  "clean_items items \<longleftrightarrow> (\<forall>w\<in>set items. w \<noteq> [] \<and> str_trim w = w)"

lemma clean_items_push: "clean_items items \<Longrightarrow> clean_items (push_item items cur)"
  by (auto simp: push_item_def clean_items_def)

lemma split_items_clean: "clean_items items \<Longrightarrow> clean_items (split_loop cs items cur)"
proof (induction "length cs" arbitrary: cs items cur rule: less_induct)
  case less
  show ?case
  proof (cases cs)
    case Nil
    then show ?thesis using less.prems by (simp add: clean_items_push)
  next
    case (Cons c ds)
    show ?thesis
    proof (cases "c = CHR '',''")
      case True
      then show ?thesis
        using less.hyps [of ds "push_item items cur"] clean_items_push [OF less.prems] Cons
        by (simp add: split_loop_comma)
    next
      case False
      show ?thesis
      proof (cases "c = CHR 0x5C \<and> ds \<noteq> [] \<and> hd ds = CHR '',''")
        case True
        then obtain es where "cs = CHR 0x5C # CHR '','' # es" using Cons by (cases ds) auto
        then show ?thesis using less by (simp add: split_loop_escaped)
      next
        case no: False
        have "split_loop cs items cur = split_loop ds items (cur @ [c])"
          unfolding Cons by (rule split_loop_other) (use False no in auto)
        then show ?thesis using less Cons by simp
      qed
    qed
  qed
qed

lemma split_items:
  "\<forall>w\<in>set (split_loop cs [] cur). w \<noteq> [] \<and> str_trim w = w"
  using split_items_clean [of "[]" cs cur] by (simp add: clean_items_def)

text \<open>A filter list written with its commas escaped is read back as it was written, whatever the
  items are, as long as none is blank, padded or ends in a backslash; and reading any text gives
  items without blanks around them.\<close>

theorem app_filters_roundtrip:
  assumes "list_all item_ok ws"
  shows "split_app_filters (join_with '','' (map escape_item ws)) = ws \<and>
    (\<forall>w\<in>set (split_app_filters s). w \<noteq> [] \<and> str_trim w = w)"
proof
  show "split_app_filters (join_with '','' (map escape_item ws)) = ws"
    using split_loop_join [of ws "[]"] assms
    by (cases "ws = []") (simp_all add: split_app_filters_def push_item_def str_defs)
  show "\<forall>w\<in>set (split_app_filters s). w \<noteq> [] \<and> str_trim w = w"
    unfolding split_app_filters_def by (rule split_items)
qed

theorem app_filters_roundtrip_witness:
  "split_app_filters (join_with '','' (map escape_item [''Foo, Inc'', ''class:Term''])) =
     [''Foo, Inc'', ''class:Term'']"
  using app_filters_roundtrip [of "[''Foo, Inc'', ''class:Term'']"] by (simp add: item_ok_def str_defs char_defs)

lemma check_items_Inr: "check_items items = Inr xs \<Longrightarrow> xs = items"
  by (induction items arbitrary: xs) (auto split: if_splits sum.splits)

lemma escape_no_comma: "CHR '','' \<notin> set w \<Longrightarrow> escape_item w = w"
  by (induction w) auto

text \<open>The stored form of a filter list means what the user wrote only while no item holds a comma
  or ends in a backslash: then storing it is idempotent and keeps the items.  An escaped comma is
  lost, because the items are joined without escaping them again: a filter for the one program
  ``Foo, Inc'' is stored as filters for the two programs ``Foo'' and ``Inc''.\<close>

theorem stored_filters_keep_meaning:
  assumes "clean_app_filter_value (Some raw) = Inr (Some stored)"
    and "\<forall>w\<in>set (split_app_filters raw). CHR '','' \<notin> set w \<and> last w \<noteq> CHR 0x5C"
  shows "split_app_filters stored = split_app_filters raw \<and>
    clean_app_filter_value (Some stored) = Inr (Some stored) \<and>
    (\<forall>info. match_rules stored info = match_rules raw info) \<and>
    clean_app_filter_value (Some [CHR ''F'', CHR ''o'', CHR ''o'', CHR 0x5C, CHR '','', CHR ''b'']) =
      Inr (Some ''Foo,b'') \<and>
    split_app_filters [CHR ''F'', CHR ''o'', CHR ''o'', CHR 0x5C, CHR '','', CHR ''b''] = [''Foo,b''] \<and>
    split_app_filters ''Foo,b'' = [''Foo'', ''b'']"
proof -
  let ?ws = "split_app_filters raw"
  from assms(1) have ck: "check_items ?ws = Inr ?ws" and ne: "?ws \<noteq> []" and st: "stored = join_with '','' ?ws"
    by (auto simp: clean_app_filter_value_def dest: check_items_Inr split: sum.splits if_splits)
  have "list_all item_ok ?ws"
    using assms(2) split_items [of raw "[]"] by (auto simp: list_all_iff item_ok_def split_app_filters_def)
  moreover have "map escape_item ?ws = ?ws"
    using assms(2) by (intro map_idI escape_no_comma) blast
  ultimately have same: "split_app_filters stored = ?ws"
    using split_loop_join [OF ne, of "[]"] st by (simp add: split_app_filters_def)
  then have "clean_app_filter_value (Some stored) = Inr (Some stored)"
    using ck ne st by (simp add: clean_app_filter_value_def)
  moreover have "clean_app_filter_value (Some [CHR ''F'', CHR ''o'', CHR ''o'', CHR 0x5C, CHR '','', CHR ''b'']) =
      Inr (Some ''Foo,b'')" by code_simp
  moreover have "split_app_filters [CHR ''F'', CHR ''o'', CHR ''o'', CHR 0x5C, CHR '','', CHR ''b''] = [''Foo,b'']"
    by code_simp
  moreover have "split_app_filters ''Foo,b'' = [''Foo'', ''b'']" by code_simp
  ultimately show ?thesis using same by (simp add: match_rules_def)
qed

theorem stored_filters_keep_meaning_witness:
  "split_app_filters ''code,class:Term'' = split_app_filters '' code , class:Term''"
proof -
  have a: "clean_app_filter_value (Some '' code , class:Term'') = Inr (Some ''code,class:Term'')" by code_simp
  have "split_app_filters '' code , class:Term'' = [''code'', ''class:Term'']" by code_simp
  then have "\<forall>w\<in>set (split_app_filters '' code , class:Term''). CHR '','' \<notin> set w \<and> last w \<noteq> CHR 0x5C"
    by simp
  from stored_filters_keep_meaning [OF a this] show ?thesis by blast
qed

section \<open>Overlap detection and matching\<close>

lemma list_ex_clean: "list_ex P xs \<longleftrightarrow> (\<exists>x\<in>set xs. P x)"
  by (simp add: list_ex_iff)

text \<open>A bare executable name: no prefix, no path, no \<open>.exe\<close>.\<close>

definition bare_name :: "string \<Rightarrow> bool" where
  "bare_name w \<longleftrightarrow> CHR '':'' \<notin> set w \<and> CHR ''/'' \<notin> set w \<and> CHR 0x5C \<notin> set w \<and>
     strip_exe (str_to_lowercase w) = str_to_lowercase w"

definition bare_filter :: "string option \<Rightarrow> bool" where
  "bare_filter f \<longleftrightarrow> (case f of None \<Rightarrow> True
     | Some s \<Rightarrow> str_trim s \<noteq> [] \<and> list_all bare_name (split_app_filters s))"

lemma rule_matches_bare: "bare_name w \<Longrightarrow> rule_matches info w \<longleftrightarrow>
    (\<exists>n. aw_exec_name info = Some n \<and> strip_exe (str_to_lowercase n) = str_to_lowercase w)"
proof -
  assume b: "bare_name w"
  then have tw: "takeWhile (\<lambda>c. c \<noteq> CHR '':'') w = w"
    by (auto simp: bare_name_def takeWhile_eq_all_conv)
  have "rule_parts w = (''exe'', w)" unfolding rule_parts_def tw Let_def by simp
  then show ?thesis using b
    by (auto simp: rule_matches_def bare_name_def name_matches_def split: option.splits)
qed

lemma match_rules_iff: "match_rules s info \<longleftrightarrow> (\<exists>w\<in>set (split_app_filters s). rule_matches info w)"
  by (auto simp: match_rules_def list_ex_iff Let_def)

lemma filters_met:
  assumes "is_app_allowed a (Some info)"
  shows "filter_set (ta_only_apps a) \<Longrightarrow> match_rules (the (ta_only_apps a)) info"
    and "filter_set (ta_except_apps a) \<Longrightarrow> \<not> match_rules (the (ta_except_apps a)) info"
  using assms by (auto simp: is_app_allowed_def Let_def split: if_splits)

lemma allowed_filters_overlap:
  assumes "bare_filter (ta_only_apps a)" and "bare_filter (ta_except_apps a)"
    and "bare_filter (ta_only_apps b)" and "bare_filter (ta_except_apps b)"
    and "is_app_allowed a (Some info)" and "is_app_allowed b (Some info)"
  shows "app_filters_overlap (ta_only_apps a) (ta_except_apps a) (ta_only_apps b) (ta_except_apps b)"
proof -
  have set_iff: "filter_set f \<longleftrightarrow> f \<noteq> None" if "bare_filter f" for f
    using that by (auto simp: bare_filter_def filter_set_def split: option.splits)
  have bare: "match_rules s info \<longleftrightarrow>
      (\<exists>n. aw_exec_name info = Some n \<and> strip_exe (str_to_lowercase n) \<in> set (clean_list s))"
    if "bare_filter (Some s)" for s
    using that
    by (auto simp: bare_filter_def match_rules_iff clean_list_def list_all_iff rule_matches_bare image_iff
        dest: rule_matches_bare)
  note met = filters_met [OF assms(5)] filters_met [OF assms(6)]
  have oo: "\<exists>x\<in>set (clean_list s). x \<in> set (clean_list t)"
    if "ta_only_apps a = Some s" "ta_only_apps b = Some t" for s t
    using met(1,3) that assms(1,3) bare set_iff by fastforce
  have oe: "\<exists>x\<in>set (clean_list s). x \<notin> set (clean_list t)"
    if "ta_only_apps a = Some s" "ta_except_apps b = Some t" for s t
    using met(1,4) that assms(1,4) bare set_iff by fastforce
  have eo: "\<exists>x\<in>set (clean_list t). x \<notin> set (clean_list s)"
    if "ta_except_apps a = Some s" "ta_only_apps b = Some t" for s t
    using met(2,3) that assms(2,3) bare set_iff by fastforce
  show ?thesis
    using oo oe eo
    by (auto simp: app_filters_overlap_def list_ex_clean split: option.splits)
qed

text \<open>Two triggers that some window lets both run are reported as overlapping, when their filters
  are lists of bare executable names.\<close>

theorem app_filters_overlap_complete:
  assumes "bare_filter (ta_only_apps a)" and "bare_filter (ta_except_apps a)"
    and "bare_filter (ta_only_apps b)" and "bare_filter (ta_except_apps b)"
    and "is_app_allowed a (Some info)" and "is_app_allowed b (Some info)"
  shows "app_filters_overlap (ta_only_apps a) (ta_except_apps a) (ta_only_apps b) (ta_except_apps b)"
  using assms by (rule allowed_filters_overlap)

theorem app_filters_overlap_complete_witness:
  "app_filters_overlap (Some ''code,vim'') None (Some ''Code'') None"
proof -
  let ?a = "(text_action [])\<lparr>ta_only_apps := Some ''code,vim''\<rparr>"
  let ?b = "(text_action [])\<lparr>ta_only_apps := Some ''Code''\<rparr>"
  have "bare_filter (Some ''code,vim'')" and "bare_filter (Some ''Code'')" by code_simp+
  moreover have "is_app_allowed ?a (Some (exec_only ''CODE.exe''))"
    and "is_app_allowed ?b (Some (exec_only ''CODE.exe''))" by code_simp+
  ultimately show ?thesis
    using app_filters_overlap_complete [of ?a ?b "exec_only ''CODE.exe''"]
    by (simp add: text_action_def bare_filter_def)
qed

text \<open>Outside bare names the overlap test misses triggers that run in the same window: the filters
  ``code'' and ``exe:code'' accept the same program, and are reported as disjoint.\<close>

theorem overlap_ignores_prefixes:
  "\<not> app_filters_overlap (Some ''code'') None (Some ''exe:code'') None \<and>
   is_app_allowed ((text_action [])\<lparr>ta_only_apps := Some ''code''\<rparr>) (Some (exec_only ''code'')) \<and>
   is_app_allowed ((text_action [])\<lparr>ta_only_apps := Some ''exe:code''\<rparr>) (Some (exec_only ''code''))"
  by code_simp

end
