(* ===== verification/HotkeyCatalog.thy ===== *)
theory HotkeyCatalog
  imports Hotkeys AppFilter
begin

text \<open>
  The hotkey catalog, \<open>core/src/engine/catalog/hotkey.rs\<close>: the snapshot is the map from base keys to
  buckets of parsed actions, in load order.  \<open>match_action_info\<close> has the window at hand;
  \<open>match_action_lazy\<close> fetches it when the first filtered entry needs it, and is proved to give the
  same answer.
\<close>

record parsed_hotkey_action =
  pa_trigger :: string
  pa_hotkey :: hotkey
  pa_action :: trigger_action

type_synonym hotkey_snapshot = "logical_key \<rightharpoonup> parsed_hotkey_action list"

definition hotkey_entry :: "string \<times> trigger_action \<Rightarrow> parsed_hotkey_action option" where
  "hotkey_entry ta =
     (case parse_hotkey (fst ta) of
        Inl e \<Rightarrow> None
      | Inr h \<Rightarrow> Some \<lparr>pa_trigger = fst ta, pa_hotkey = h, pa_action = snd ta\<rparr>)"

definition push_entry :: "hotkey_snapshot \<Rightarrow> parsed_hotkey_action \<Rightarrow> hotkey_snapshot" where
  "push_entry snap e =
     (let k = key (pa_hotkey e); bucket = (case snap k of None \<Rightarrow> [] | Some b \<Rightarrow> b)
      in snap(k \<mapsto> bucket @ [e]))"

fun load_hotkeys_loop :: "hotkey_snapshot \<Rightarrow> (string \<times> trigger_action) list \<Rightarrow> hotkey_snapshot" where
  "load_hotkeys_loop snap [] = snap"
| "load_hotkeys_loop snap (ta # rest) =
     (case hotkey_entry ta of
        None \<Rightarrow> load_hotkeys_loop snap rest
      | Some e \<Rightarrow> load_hotkeys_loop (push_entry snap e) rest)"

definition load_hotkeys :: "(string \<times> trigger_action) list \<Rightarrow> hotkey_snapshot" where
  "load_hotkeys actions = load_hotkeys_loop Map.empty actions"

definition has_entry_for :: "hotkey_snapshot \<Rightarrow> logical_key \<Rightarrow> bool" where
  "has_entry_for snap k \<longleftrightarrow> snap k \<noteq> None"

definition hotkey_get_action :: "hotkey_snapshot \<Rightarrow> string \<Rightarrow> trigger_action option" where
  "hotkey_get_action snap trigger =
     (case parse_hotkey trigger of
        Inl e \<Rightarrow> None
      | Inr h \<Rightarrow>
          (case snap (key h) of
             None \<Rightarrow> None
           | Some bucket \<Rightarrow>
               map_option pa_action (find (\<lambda>e. pa_trigger e = trigger \<or> pa_hotkey e = h) bucket)))"

definition exact_for :: "hotkey \<Rightarrow> parsed_hotkey_action \<Rightarrow> bool" where
  "exact_for pressed e \<longleftrightarrow> keypress_canonical (pa_hotkey e) = keypress_canonical pressed"

definition answer :: "parsed_hotkey_action \<Rightarrow> string \<times> trigger_action" where
  "answer e = (pa_trigger e, pa_action e)"

definition match_action_info ::
  "hotkey_snapshot \<Rightarrow> hotkey \<Rightarrow> active_window_info option \<Rightarrow> (string \<times> trigger_action) option" where
  "match_action_info snap pressed window =
     (case snap (key pressed) of
        None \<Rightarrow> None
      | Some bucket \<Rightarrow>
          (case find (\<lambda>e. exact_for pressed e \<and> is_app_allowed (pa_action e) window) bucket of
             Some e \<Rightarrow> Some (answer e)
           | None \<Rightarrow>
               map_option answer
                 (find (\<lambda>e. hotkey_matches (pa_hotkey e) pressed \<and> is_app_allowed (pa_action e) window)
                    bucket)))"

definition hotkey_match_action ::
  "(string \<Rightarrow> active_window_info option) \<Rightarrow> hotkey_snapshot \<Rightarrow> hotkey \<Rightarrow> string option \<Rightarrow>
   (string \<times> trigger_action) option" where
  "hotkey_match_action from_json snap pressed window =
     match_action_info snap pressed (get_cached (from_static from_json window))"

text \<open>One pass of \<open>match_action_lazy\<close>, with the resolver and the fetcher it leaves behind.\<close>

fun lazy_pass ::
  "(parsed_hotkey_action \<Rightarrow> bool) \<Rightarrow> parsed_hotkey_action list \<Rightarrow> window_resolver \<Rightarrow> window_fetch \<Rightarrow>
   parsed_hotkey_action option \<times> window_resolver \<times> window_fetch" where
  "lazy_pass p [] window fetch = (None, window, fetch)"
| "lazy_pass p (e # es) window fetch =
     (if \<not> p e then lazy_pass p es window fetch
      else if \<not> entry_has_app_filters (pa_action e) then (Some e, window, fetch)
      else
        (let (w, window', fetch') = resolve_window window fetch in
         case w of
           None \<Rightarrow> lazy_pass p es window' fetch'
         | Some info \<Rightarrow>
             if is_app_allowed (pa_action e) (Some info) then (Some e, window', fetch')
             else lazy_pass p es window' fetch'))"

definition match_action_lazy ::
  "hotkey_snapshot \<Rightarrow> hotkey \<Rightarrow> active_window_info option \<Rightarrow> (string \<times> trigger_action) option" where
  "match_action_lazy snap pressed fetch_result =
     (case snap (key pressed) of
        None \<Rightarrow> None
      | Some bucket \<Rightarrow>
          (case lazy_pass (exact_for pressed) bucket lazy (Some fetch_result) of
             (Some e, _, _) \<Rightarrow> Some (answer e)
           | (None, window, fetch) \<Rightarrow>
               map_option answer
                 (fst (lazy_pass (\<lambda>e. hotkey_matches (pa_hotkey e) pressed) bucket window fetch))))"

section \<open>Lazy and eager matching agree\<close>

lemma lazy_pass_find:
  "will_see w window fetch \<Longrightarrow>
   \<exists>window' fetch'. lazy_pass p es window fetch =
       (find (\<lambda>e. p e \<and> is_app_allowed (pa_action e) w) es, window', fetch') \<and> will_see w window' fetch'"
proof (induction p es window fetch rule: lazy_pass.induct)
  case (2 p e es window fetch)
  obtain window' fetch' where r: "resolve_window window fetch = (w, window', fetch')"
    and s: "will_see w window' fetch'"
    using resolve_will_see [OF 2(4)] by blast
  show ?case
  proof (cases "p e")
    case False
    then show ?thesis using 2 by simp
  next
    case p: True
    show ?thesis
    proof (cases "entry_has_app_filters (pa_action e)")
      case False
      then show ?thesis using p unfiltered_allowed 2(4) by simp
    next
      case True
      then show ?thesis
        using p 2 r s filtered_unknown [OF True] by (cases w) auto
    qed
  qed
qed simp

text \<open>C26: Fetching the window lazily changes nothing: for the window the fetcher would return, the lazy
  lookup answers exactly what the lookup with that window answers.\<close>

theorem lazy_match_is_eager:
  "match_action_lazy snap pressed w = match_action_info snap pressed w"
proof (cases "snap (key pressed)")
  case (Some bucket)
  have "will_see w lazy (Some w)" by (simp add: will_see_def lazy_def)
  from lazy_pass_find [OF this, of "exact_for pressed" bucket] obtain window fetch where
    one: "lazy_pass (exact_for pressed) bucket lazy (Some w) =
      (find (\<lambda>e. exact_for pressed e \<and> is_app_allowed (pa_action e) w) bucket, window, fetch)"
    and s: "will_see w window fetch" by blast
  from lazy_pass_find [OF s, of "\<lambda>e. hotkey_matches (pa_hotkey e) pressed" bucket]
  have two: "fst (lazy_pass (\<lambda>e. hotkey_matches (pa_hotkey e) pressed) bucket window fetch) =
      find (\<lambda>e. hotkey_matches (pa_hotkey e) pressed \<and> is_app_allowed (pa_action e) w) bucket"
    by auto
  show ?thesis
    by (simp add: match_action_lazy_def match_action_info_def Some one two split: option.split)
qed (simp add: match_action_lazy_def match_action_info_def)

section \<open>What a press finds\<close>

definition hotkey_entries :: "(string \<times> trigger_action) list \<Rightarrow> parsed_hotkey_action list" where
  "hotkey_entries actions = List.map_filter hotkey_entry actions"

definition in_bucket :: "logical_key \<Rightarrow> parsed_hotkey_action \<Rightarrow> bool" where
  "in_bucket k e \<longleftrightarrow> key (pa_hotkey e) = k"

definition bucket_of :: "hotkey_snapshot \<Rightarrow> logical_key \<Rightarrow> parsed_hotkey_action list" where
  "bucket_of snap k = (case snap k of None \<Rightarrow> [] | Some b \<Rightarrow> b)"

lemma bucket_of_push:
  "bucket_of (push_entry snap e) k = bucket_of snap k @ (if in_bucket k e then [e] else [])"
  by (auto simp: bucket_of_def push_entry_def in_bucket_def Let_def)

lemma load_bucket:
  "bucket_of (load_hotkeys_loop snap actions) k =
   bucket_of snap k @ filter (in_bucket k) (hotkey_entries actions)"
  by (induction snap actions rule: load_hotkeys_loop.induct)
    (auto simp: hotkey_entries_def map_filter_simps bucket_of_push split: option.splits)

lemma load_no_empty_bucket:
  "\<forall>k. snap k \<noteq> Some [] \<Longrightarrow> load_hotkeys_loop snap actions k \<noteq> Some []"
  by (induction snap actions rule: load_hotkeys_loop.induct)
    (auto simp: push_entry_def Let_def split: option.splits)

lemma match_info_bucket:
  "match_action_info snap pressed w =
   map_option answer (or_else
     (find (\<lambda>e. exact_for pressed e \<and> is_app_allowed (pa_action e) w) (bucket_of snap (key pressed)))
     (find (\<lambda>e. hotkey_matches (pa_hotkey e) pressed \<and> is_app_allowed (pa_action e) w)
        (bucket_of snap (key pressed))))"
proof (cases "snap (key pressed)")
  case (Some bucket)
  then show ?thesis
    by (cases "find (\<lambda>e. exact_for pressed e \<and> is_app_allowed (pa_action e) w) bucket")
      (simp_all add: match_action_info_def bucket_of_def)
qed (simp add: match_action_info_def bucket_of_def)

lemma find_filter: "(\<And>x. x \<in> set xs \<Longrightarrow> p x \<Longrightarrow> q x) \<Longrightarrow> find p (filter q xs) = find p xs"
  by (induction xs) auto

lemma entries_wf: "e \<in> set (hotkey_entries actions) \<Longrightarrow> wf_hotkey (pa_hotkey e)"
proof -
  assume "e \<in> set (hotkey_entries actions)"
  then obtain ta where "hotkey_entry ta = Some e"
    by (auto simp: hotkey_entries_def map_filter_def)
  then obtain h where "parse_hotkey (fst ta) = Inr h" and "pa_hotkey e = h"
    by (auto simp: hotkey_entry_def split: sum.splits)
  then show ?thesis by (simp add: parse_hotkey_wf)
qed

text \<open>A press as its canonical string shows it: a modifier held on both sides is the plain modifier.\<close>

definition shown_press :: "hotkey \<Rightarrow> hotkey" where
  "shown_press pressed = pressed\<lparr>modifiers := shown_modifiers (modifiers pressed)\<rparr>"

lemma exact_iff_shown:
  assumes "wf_hotkey (pa_hotkey e)" and "key (pa_hotkey e) = key pressed"
  shows "exact_for pressed e \<longleftrightarrow> pa_hotkey e = shown_press pressed"
proof
  assume "exact_for pressed e"
  then have "canonical_string (modifiers (pa_hotkey e)) (key pressed) =
      canonical_string (shown_modifiers (modifiers pressed)) (key pressed)"
    by (simp add: exact_for_def keypress_canonical_def canonical_string_shown assms(2))
  then have "modifiers (pa_hotkey e) = shown_modifiers (modifiers pressed)"
    using assms by (auto simp: wf_hotkey_def intro: canonical_string_modifiers)
  then show "pa_hotkey e = shown_press pressed"
    using assms(2) by (simp add: shown_press_def)
qed (simp add: exact_for_def keypress_canonical_def shown_press_def canonical_string_shown)

lemma find_cong_set: "(\<And>x. x \<in> set xs \<Longrightarrow> p x = q x) \<Longrightarrow> find p xs = find q xs"
  by (induction xs) auto

text \<open>C23: The buckets lose nothing.  After loading a list of triggers, pressing any combination answers the
  first loaded trigger, in load order, whose hotkey is the pressed one, where a modifier held on both
  sides counts as the plain modifier, and that the window lets run; failing that, the first whose hotkey
  matches the pressed one and that the window lets run.  Triggers that do not parse are never answered.\<close>

theorem press_finds_first_match:
  "match_action_info (load_hotkeys actions) pressed w =
    map_option answer (or_else
      (find (\<lambda>e. pa_hotkey e = shown_press pressed \<and> is_app_allowed (pa_action e) w) (hotkey_entries actions))
      (find (\<lambda>e. hotkey_matches (pa_hotkey e) pressed \<and> is_app_allowed (pa_action e) w)
         (hotkey_entries actions)))"
proof -
  let ?es = "hotkey_entries actions"
  let ?b = "filter (in_bucket (key pressed)) ?es"
  have b: "bucket_of (load_hotkeys actions) (key pressed) = ?b"
    by (simp add: load_hotkeys_def load_bucket) (simp add: bucket_of_def)
  have "find (\<lambda>e. exact_for pressed e \<and> is_app_allowed (pa_action e) w) ?b =
      find (\<lambda>e. pa_hotkey e = shown_press pressed \<and> is_app_allowed (pa_action e) w) ?b"
    by (rule find_cong_set) (use exact_iff_shown entries_wf in \<open>auto simp: in_bucket_def\<close>)
  also have "\<dots> = find (\<lambda>e. pa_hotkey e = shown_press pressed \<and> is_app_allowed (pa_action e) w) ?es"
    by (rule find_filter) (auto simp: in_bucket_def shown_press_def)
  finally have one: "find (\<lambda>e. exact_for pressed e \<and> is_app_allowed (pa_action e) w) ?b =
      find (\<lambda>e. pa_hotkey e = shown_press pressed \<and> is_app_allowed (pa_action e) w) ?es" .
  have two: "find (\<lambda>e. hotkey_matches (pa_hotkey e) pressed \<and> is_app_allowed (pa_action e) w) ?b =
      find (\<lambda>e. hotkey_matches (pa_hotkey e) pressed \<and> is_app_allowed (pa_action e) w) ?es"
    by (rule find_filter) (auto simp: in_bucket_def hotkey_matches_def)
  show ?thesis unfolding match_info_bucket b one two ..
qed

text \<open>With both Alt keys held, the trigger that names the plain modifier is the exact one, although an
  earlier trigger matches too.\<close>

theorem press_finds_first_match_witness:
  "match_action_info
     (load_hotkeys [(''ctrl+alt+m'', text_action ''a''), (''nonsense+m'', text_action ''b''),
                    (''lctrl+alt+m'', text_action ''c'')])
     \<lparr>modifiers = foldl insert_active modifiers_new [LeftCtrl, LeftAlt, RightAlt], key = Letter (CHR ''m'')\<rparr>
     None = Some (''lctrl+alt+m'', text_action ''c'')"
proof -
  let ?p = "\<lparr>modifiers = foldl insert_active modifiers_new [LeftCtrl, LeftAlt, RightAlt], key = Letter (CHR ''m'')\<rparr>"
  have e: "hotkey_entries [(''ctrl+alt+m'', text_action ''a''), (''nonsense+m'', text_action ''b''),
      (''lctrl+alt+m'', text_action ''c'')] =
    [\<lparr>pa_trigger = ''ctrl+alt+m'', pa_hotkey = projr (parse_hotkey ''ctrl+alt+m''), pa_action = text_action ''a''\<rparr>,
     \<lparr>pa_trigger = ''lctrl+alt+m'', pa_hotkey = projr (parse_hotkey ''lctrl+alt+m''), pa_action = text_action ''c''\<rparr>]"
    by code_simp
  have "projr (parse_hotkey ''ctrl+alt+m'') \<noteq> shown_press ?p" and
    "projr (parse_hotkey ''lctrl+alt+m'') = shown_press ?p" by code_simp+
  moreover have "is_app_allowed (text_action ''c'') None" by code_simp
  ultimately show ?thesis
    unfolding press_finds_first_match e by (simp add: answer_def)
qed

end
