(* ===== verification/Args.thy ===== *)
theory Args
  imports Prelude
begin

text \<open>
  Arguments of triggers and of system calls, \<open>core/src/engine/variables/parser.rs\<close>: quote-aware
  splitting, the argument map of a hybrid trigger (\<open>tokenize\<close>, \<open>parse_tokens\<close>) and the binding of a
  call's arguments to its parameters (\<open>bind_call\<close>).  An \<open>IndexMap\<close> is an association list in
  insertion order without repeated keys; a string slice is the string it shows.
\<close>

section \<open>Insertion-ordered maps\<close>

type_synonym index_map = "(string \<times> string) list"

fun index_insert :: "string \<Rightarrow> string \<Rightarrow> index_map \<Rightarrow> index_map" where
  "index_insert k v [] = [(k, v)]"
| "index_insert k v ((k', v') # m) = (if k' = k then (k, v) # m else (k', v') # index_insert k v m)"

lemma map_of_index_insert [simp]: "map_of (index_insert k v m) = (map_of m)(k \<mapsto> v)"
  by (induction m) auto

lemma keys_index_insert: "k \<notin> fst ` set m \<Longrightarrow> map fst (index_insert k v m) = map fst m @ [k]"
  by (induction m) auto

section \<open>Parameters and bound arguments\<close>

record param =
  p_name :: string
  p_required :: bool
  p_default :: string

record bound_args =
  b_positional :: "string list"
  b_named :: index_map

datatype bind_error =
    UnknownKey string string string
  | Duplicate string string string
  | MissingRequired string string string
  | PositionalAfterNamed string string
  | Arity string string

definition usage_hint :: "string \<Rightarrow> param list \<Rightarrow> string" where
  "usage_hint namespace ps =
     namespace @ ''('' @
     join_with '', '' (map (\<lambda>p. if p_required p then p_name p
                            else ''['' @ p_name p @ ''='' @ p_default p @ '']'') ps) @ '')''"

section \<open>Splitting\<close>

definition quote_char :: "char \<Rightarrow> bool" where
  "quote_char c \<longleftrightarrow> c = CHR 0x22 \<or> c = CHR 0x27"

text \<open>The loop of \<open>split_call_args\<close>: finished parts, current part, quote, open parens and brackets.\<close>

fun split_call_loop ::
  "string \<Rightarrow> string list \<Rightarrow> string \<Rightarrow> char option \<Rightarrow> nat \<Rightarrow> nat \<Rightarrow> string list" where
  "split_call_loop [] parts current quote paren bracket = parts @ [current]"
| "split_call_loop (c # cs) parts current quote paren bracket =
     (case quote of
        Some q \<Rightarrow>
          split_call_loop cs parts (current @ [c]) (if c = q then None else quote) paren bracket
      | None \<Rightarrow>
          if quote_char c then split_call_loop cs parts (current @ [c]) (Some c) paren bracket
          else if c = CHR ''('' then split_call_loop cs parts (current @ [c]) None (paren + 1) bracket
          else if c = CHR '')'' then split_call_loop cs parts (current @ [c]) None (paren - 1) bracket
          else if c = CHR ''['' then split_call_loop cs parts (current @ [c]) None paren (bracket + 1)
          else if c = CHR '']'' then split_call_loop cs parts (current @ [c]) None paren (bracket - 1)
          else if c = CHR '','' \<and> paren = 0 \<and> bracket = 0
          then split_call_loop cs (parts @ [current]) [] None paren bracket
          else split_call_loop cs parts (current @ [c]) None paren bracket)"

definition split_call_args :: "string \<Rightarrow> string list" where
  "split_call_args raw = split_call_loop raw [] [] None 0 0"

text \<open>\<open>split_named\<close>: the text before and after the first equals sign outside quotes.\<close>

fun split_named_loop :: "string \<Rightarrow> string \<Rightarrow> char option \<Rightarrow> (string \<times> string) option" where
  "split_named_loop before [] quote = None"
| "split_named_loop before (c # cs) quote =
     (case quote of
        Some q \<Rightarrow> split_named_loop (before @ [c]) cs (if c = q then None else quote)
      | None \<Rightarrow>
          if quote_char c then split_named_loop (before @ [c]) cs (Some c)
          else if c = CHR ''='' then Some (before, cs)
          else split_named_loop (before @ [c]) cs None)"

definition split_named :: "string \<Rightarrow> (string \<times> string) option" where
  "split_named token = split_named_loop [] token None"

definition strip_quotes :: "string \<Rightarrow> string" where
  "strip_quotes s =
     (let t = str_trim s in
      if 2 \<le> str_len t then
        (if (hd t = CHR 0x22 \<and> last t = CHR 0x22) \<or> (hd t = CHR 0x27 \<and> last t = CHR 0x27)
         then butlast (tl t) else t)
      else t)"

fun tokenize_args_loop :: "char \<Rightarrow> string \<Rightarrow> string list \<Rightarrow> string \<Rightarrow> char option \<Rightarrow> string list" where
  "tokenize_args_loop delimiter [] tokens current active_quote = tokens @ [current]"
| "tokenize_args_loop delimiter (c # cs) tokens current active_quote =
     (if quote_char c \<and> (active_quote = None \<or> active_quote = Some c) then
        tokenize_args_loop delimiter cs tokens (current @ [c])
          (if active_quote \<noteq> None then None else Some c)
      else if c = delimiter \<and> active_quote = None then
        tokenize_args_loop delimiter cs (tokens @ [current]) [] active_quote
      else tokenize_args_loop delimiter cs tokens (current @ [c]) active_quote)"

definition tokenize_args :: "string \<Rightarrow> char \<Rightarrow> string list" where
  "tokenize_args raw delimiter =
     (if raw = [] then [] else tokenize_args_loop delimiter raw [] [] None)"

section \<open>The argument map of a hybrid trigger\<close>

record arg_map =
  a_named :: index_map
  a_positional :: "string list"

definition no_args :: arg_map where
  "no_args = \<lparr>a_named = [], a_positional = []\<rparr>"

fun split_once :: "char \<Rightarrow> string \<Rightarrow> (string \<times> string) option" where
  "split_once d [] = None"
| "split_once d (c # cs) =
     (if c = d then Some ([], cs)
      else map_option (\<lambda>(a, b). (c # a, b)) (split_once d cs))"

definition parse_token :: "arg_map \<Rightarrow> string \<Rightarrow> arg_map" where
  "parse_token m token =
     (if str_trim token = [] then m\<lparr>a_positional := a_positional m @ [[]]\<rparr>
      else
        (let t = strip_quotes (str_trim token) in
         case split_once CHR ''='' t of
           Some (k, v) \<Rightarrow> m\<lparr>a_named := index_insert (strip_quotes k) (strip_quotes v) (a_named m)\<rparr>
         | None \<Rightarrow> m\<lparr>a_positional := a_positional m @ [t]\<rparr>))"

definition parse_tokens :: "string list \<Rightarrow> arg_map" where
  "parse_tokens tokens = foldl parse_token no_args tokens"

section \<open>Binding a call\<close>

definition eq_ignore_ascii_case :: "string \<Rightarrow> string \<Rightarrow> bool" where
  "eq_ignore_ascii_case s t \<longleftrightarrow> str_to_ascii_lowercase s = str_to_ascii_lowercase t"

fun position :: "('a \<Rightarrow> bool) \<Rightarrow> 'a list \<Rightarrow> nat option" where
  "position p [] = None"
| "position p (x # xs) = (if p x then Some 0 else map_option Suc (position p xs))"

text \<open>The state of the loop: the value slots, the positional values and whether a named one was seen.\<close>

record bind_state =
  bs_values :: "string option list"
  bs_positional :: "string list"
  bs_seen_named :: bool

definition bind_named ::
  "string \<Rightarrow> string \<Rightarrow> param list \<Rightarrow> bind_state \<Rightarrow> string \<Rightarrow> string \<Rightarrow> bind_error + bind_state" where
  "bind_named namespace hint ps st raw_key raw_value =
     (let k = strip_quotes (str_trim raw_key); v = strip_quotes (str_trim raw_value) in
      case position (\<lambda>p. eq_ignore_ascii_case (p_name p) k) ps of
        None \<Rightarrow> Inl (UnknownKey k namespace hint)
      | Some i \<Rightarrow>
          if bs_values st ! i \<noteq> None then Inl (Duplicate k namespace hint)
          else Inr (st\<lparr>bs_values := (bs_values st)[i := Some v], bs_seen_named := True\<rparr>))"

definition bind_positional ::
  "string \<Rightarrow> string \<Rightarrow> bind_state \<Rightarrow> string \<Rightarrow> bind_error + bind_state" where
  "bind_positional namespace hint st piece =
     (if bs_seen_named st then Inl (PositionalAfterNamed namespace hint)
      else
        (let v = strip_quotes piece;
             st1 = st\<lparr>bs_positional := bs_positional st @ [v]\<rparr>
         in case position (\<lambda>x. x = None) (bs_values st) of
              None \<Rightarrow> Inr st1
            | Some i \<Rightarrow> Inr (st1\<lparr>bs_values := (bs_values st)[i := Some v]\<rparr>)))"

fun bind_loop ::
  "string \<Rightarrow> string \<Rightarrow> param list \<Rightarrow> string list \<Rightarrow> bind_state \<Rightarrow> bind_error + bind_state" where
  "bind_loop namespace hint ps [] st = Inr st"
| "bind_loop namespace hint ps (part # parts) st =
     (let piece = str_trim part in
      if strip_quotes piece = [] then bind_loop namespace hint ps parts st
      else
        (case (case split_named piece of
                 Some (k, v) \<Rightarrow> bind_named namespace hint ps st k v
               | None \<Rightarrow> bind_positional namespace hint st piece) of
           Inl e \<Rightarrow> Inl e
         | Inr st' \<Rightarrow> bind_loop namespace hint ps parts st'))"

fun fill_named ::
  "string \<Rightarrow> string \<Rightarrow> (param \<times> string option) list \<Rightarrow> index_map \<Rightarrow> bind_error + index_map" where
  "fill_named namespace hint [] named = Inr named"
| "fill_named namespace hint ((p, slot) # rest) named =
     (case slot of
        Some v \<Rightarrow> fill_named namespace hint rest (index_insert (p_name p) v named)
      | None \<Rightarrow>
          if p_required p then Inl (MissingRequired (p_name p) namespace hint)
          else fill_named namespace hint rest (index_insert (p_name p) (p_default p) named))"

definition bind_call :: "string \<Rightarrow> string \<Rightarrow> param list \<Rightarrow> bind_error + bound_args" where
  "bind_call namespace raw ps =
     (let hint = usage_hint namespace ps;
          st0 = \<lparr>bs_values = replicate (length ps) None, bs_positional = [], bs_seen_named = False\<rparr>
      in case bind_loop namespace hint ps (split_call_args raw) st0 of
           Inl e \<Rightarrow> Inl e
         | Inr st \<Rightarrow>
             (case fill_named namespace hint (zip ps (bs_values st)) [] of
                Inl e \<Rightarrow> Inl e
              | Inr named \<Rightarrow> Inr \<lparr>b_positional = bs_positional st, b_named = named\<rparr>))"

definition has_named_args :: "bound_args \<Rightarrow> param list \<Rightarrow> bool" where
  "has_named_args bound ps =
     (let n = min (length (b_positional bound)) (length ps) in
      list_ex (\<lambda>p. (case map_of (b_named bound) (p_name p) of None \<Rightarrow> p_default p | Some v \<Rightarrow> v)
                   \<noteq> p_default p) (drop n ps))"

section \<open>Splitting loses nothing\<close>

lemma tokenize_loop_join:
  "join_with [d] (tokenize_args_loop d cs tokens current q) =
   (if tokens = [] then [] else join_with [d] tokens @ [d]) @ current @ cs"
proof (induction cs arbitrary: tokens current q)
  case Nil
  then show ?case by (simp add: join_with_snoc)
next
  case (Cons c cs)
  then show ?case by (auto simp: join_with_snoc)
qed

text \<open>A field that stays whole: without quotes and delimiter, or a quoted text.\<close>

definition whole_field :: "char \<Rightarrow> string \<Rightarrow> bool" where
  "whole_field d w \<longleftrightarrow> (\<forall>c\<in>set w. \<not> quote_char c \<and> c \<noteq> d) \<or>
     (\<exists>q v. quote_char q \<and> w = q # v @ [q] \<and> q \<notin> set v)"

lemma tokenize_loop_plain:
  "\<forall>c\<in>set w. \<not> quote_char c \<and> c \<noteq> d \<Longrightarrow>
   tokenize_args_loop d (w @ cs) tokens current None = tokenize_args_loop d cs tokens (current @ w) None"
  by (induction w arbitrary: current) auto

lemma tokenize_loop_quoted:
  "quote_char q \<Longrightarrow> q \<notin> set v \<Longrightarrow>
   tokenize_args_loop d (v @ q # cs) tokens current (Some q) =
   tokenize_args_loop d cs tokens (current @ v @ [q]) None"
  by (induction v arbitrary: current) auto

lemma tokenize_loop_whole:
  "whole_field d w \<Longrightarrow>
   tokenize_args_loop d (w @ cs) tokens current None = tokenize_args_loop d cs tokens (current @ w) None"
  unfolding whole_field_def
  by (elim disjE exE conjE) (simp_all add: tokenize_loop_plain tokenize_loop_quoted)

lemma tokenize_loop_fields:
  "pieces \<noteq> [] \<Longrightarrow> list_all (whole_field d) pieces \<Longrightarrow> \<not> quote_char d \<Longrightarrow>
   tokenize_args_loop d (join_with [d] pieces) tokens [] None = tokens @ pieces"
proof (induction pieces arbitrary: tokens)
  case (Cons w pieces)
  show ?case
  proof (cases "pieces = []")
    case True
    then show ?thesis using Cons.prems tokenize_loop_whole [of d w "[]" tokens "[]"] by simp
  next
    case False
    then show ?thesis
      using Cons tokenize_loop_whole [of d w "d # join_with [d] pieces" tokens "[]"]
      by (simp add: join_with_Cons)
  qed
qed simp

text \<open>Splitting an invocation at a delimiter loses no character, and gives back the fields it was
  joined from whenever every field is free of quotes and delimiters or is one quoted text, which may
  hold delimiters.\<close>

theorem tokenize_args_roundtrip:
  assumes "\<not> quote_char d" and "list_all (whole_field d) pieces" and "join_with [d] pieces \<noteq> []"
  shows "tokenize_args (join_with [d] pieces) d = pieces \<and>
    (\<forall>raw. join_with [d] (tokenize_args raw d) = raw)"
proof
  have "pieces \<noteq> []" using assms(3) by auto
  then show "tokenize_args (join_with [d] pieces) d = pieces"
    using assms tokenize_loop_fields [of pieces d "[]"] by (simp add: tokenize_args_def)
  show "\<forall>raw. join_with [d] (tokenize_args raw d) = raw"
    by (simp add: tokenize_args_def tokenize_loop_join)
qed

theorem tokenize_args_roundtrip_witness:
  "tokenize_args (join_with '';'' [''mail'', CHR 0x22 # ''a;b'' @ [CHR 0x22], ''x'']) CHR '';'' =
     [''mail'', CHR 0x22 # ''a;b'' @ [CHR 0x22], ''x'']"
proof -
  have "whole_field CHR '';'' ''mail''" "whole_field CHR '';'' ''x''"
    by (simp_all add: whole_field_def quote_char_def)
  moreover have "whole_field CHR '';'' (CHR 0x22 # ''a;b'' @ [CHR 0x22])"
    unfolding whole_field_def by (intro disjI2 exI [of _ "CHR 0x22"] exI [of _ "''a;b''"]) (simp add: quote_char_def)
  ultimately show ?thesis
    using tokenize_args_roundtrip [of "CHR '';''" "[''mail'', CHR 0x22 # ''a;b'' @ [CHR 0x22], ''x'']"]
    by (simp add: quote_char_def)
qed

section \<open>The binding loop\<close>

lemma position_Some:
  "position p xs = Some i \<Longrightarrow> i < length xs \<and> p (xs ! i) \<and> (\<forall>j<i. \<not> p (xs ! j))"
proof (induction xs arbitrary: i)
  case (Cons x xs)
  show ?case
  proof (cases "p x")
    case False
    with Cons.prems obtain k where k: "position p xs = Some k" "i = Suc k" by auto
    from Cons.IH [OF k(1)] show ?thesis using False k(2) by (auto simp: less_Suc_eq_0_disj)
  qed (use Cons.prems in auto)
qed simp

lemma position_None: "position p xs = None \<longleftrightarrow> (\<forall>x\<in>set xs. \<not> p x)"
  by (induction xs) auto

text \<open>
  What a call says, read off its text: its arguments, each a value alone or a key with a value, in order.
  A call can be bound if its named arguments follow its positional ones, every key is the name of a
  parameter (in any case), no two keys are the same parameter's and none is that of a parameter a
  positional argument already filled, and every required parameter is supplied.
\<close>

definition classify_piece :: "string \<Rightarrow> string + string \<times> string" where
  "classify_piece piece =
     (case split_named piece of
        Some (k, v) \<Rightarrow> Inr (strip_quotes (str_trim k), strip_quotes (str_trim v))
      | None \<Rightarrow> Inl (strip_quotes piece))"

definition arguments_of :: "string list \<Rightarrow> (string + string \<times> string) list" where
  "arguments_of parts = map classify_piece (filter (\<lambda>piece. strip_quotes piece \<noteq> []) (map str_trim parts))"

definition call_arguments :: "string \<Rightarrow> (string + string \<times> string) list" where
  "call_arguments raw = arguments_of (split_call_args raw)"

definition positional_of :: "(string + string \<times> string) list \<Rightarrow> string list" where
  "positional_of args = map projl (filter isl args)"

definition named_of :: "(string + string \<times> string) list \<Rightarrow> (string \<times> string) list" where
  "named_of args = map projr (filter (\<lambda>a. \<not> isl a) args)"

definition key_index :: "param list \<Rightarrow> string \<Rightarrow> nat option" where
  "key_index ps k = position (\<lambda>p. eq_ignore_ascii_case (p_name p) k) ps"

definition value_for :: "param list \<Rightarrow> string list \<Rightarrow> (string \<times> string) list \<Rightarrow> nat \<Rightarrow> string option" where
  "value_for ps pos named i =
     (if i < length pos then Some (pos ! i)
      else map_option snd (find (\<lambda>(k, v). key_index ps k = Some i) named))"

definition supplied :: "param list \<Rightarrow> (string + string \<times> string) list \<Rightarrow> nat \<Rightarrow> string option" where
  "supplied ps args = value_for ps (positional_of args) (named_of args)"

definition names_ok :: "param list \<Rightarrow> nat \<Rightarrow> (string \<times> string) list \<Rightarrow> bool" where
  "names_ok ps n named \<longleftrightarrow>
     (\<forall>(k, v)\<in>set named. \<exists>i. key_index ps k = Some i \<and> n \<le> i) \<and>
     distinct (map (key_index ps \<circ> fst) named)"

definition call_ok :: "param list \<Rightarrow> (string + string \<times> string) list \<Rightarrow> bool" where
  "call_ok ps args \<longleftrightarrow>
     args = map Inl (positional_of args) @ map Inr (named_of args) \<and>
     names_ok ps (length (positional_of args)) (named_of args) \<and>
     (\<forall>i<length ps. p_required (ps ! i) \<longrightarrow> supplied ps args i \<noteq> None)"

definition bound_call :: "param list \<Rightarrow> (string + string \<times> string) list \<Rightarrow> bound_args" where
  "bound_call ps args =
     \<lparr>b_positional = positional_of args,
      b_named = map (\<lambda>i. (p_name (ps ! i),
                          case supplied ps args i of Some v \<Rightarrow> v | None \<Rightarrow> p_default (ps ! i)))
                    [0..<length ps]\<rparr>"

text \<open>The state of the loop after the given arguments.\<close>

definition bound_state :: "param list \<Rightarrow> string list \<Rightarrow> (string \<times> string) list \<Rightarrow> bind_state" where
  "bound_state ps pos named =
     \<lparr>bs_values = map (value_for ps pos named) [0..<length ps], bs_positional = pos, bs_seen_named = (named \<noteq> [])\<rparr>"

lemma key_index_bound: "key_index ps k = Some i \<Longrightarrow> i < length ps"
  unfolding key_index_def by (drule position_Some) simp

lemma value_for_None:
  "value_for ps pos named i = None \<longleftrightarrow> length pos \<le> i \<and> Some i \<notin> set (map (key_index ps \<circ> fst) named)"
  by (auto simp: value_for_def find_None_iff case_prod_beta intro: rev_image_eqI)

lemma first_free_slot:
  "position (\<lambda>x. x = None) (map (value_for ps pos []) [0..<n]) = (if length pos < n then Some (length pos) else None)"
proof (cases "length pos < n")
  case True
  have "value_for ps pos [] (length pos) = None" by (simp add: value_for_None)
  moreover have "value_for ps pos [] (length pos) \<in> set (map (value_for ps pos []) [0..<n])"
    using True by simp
  ultimately have "position (\<lambda>x. x = None) (map (value_for ps pos []) [0..<n]) \<noteq> None"
    unfolding position_None by blast
  then obtain j where j: "position (\<lambda>x. x = None) (map (value_for ps pos []) [0..<n]) = Some j" by blast
  note pj = position_Some [OF j]
  then have "j < n" and "length pos \<le> j" by (auto simp: value_for_None)
  moreover have "\<not> length pos < j"
  proof
    assume "length pos < j"
    with pj \<open>j < n\<close> have "value_for ps pos [] (length pos) \<noteq> None" by auto
    then show False by (simp add: value_for_None)
  qed
  ultimately show ?thesis using True j by simp
qed (auto simp: position_None value_for_def)

lemma bind_positional_state:
  "bind_positional ns hint (bound_state ps pos named) piece =
     (if named \<noteq> [] then Inl (PositionalAfterNamed ns hint)
      else Inr (bound_state ps (pos @ [strip_quotes piece]) []))"
proof (cases "named = []")
  case True
  have "map (value_for ps (pos @ [v]) []) [0..<length ps] =
      (if length pos < length ps then (map (value_for ps pos []) [0..<length ps])[length pos := Some v]
       else map (value_for ps pos []) [0..<length ps])" for v
    by (rule nth_equalityI) (auto simp: nth_list_update value_for_def nth_append less_Suc_eq)
  then show ?thesis
    using True by (simp add: bind_positional_def bound_state_def first_free_slot Let_def)
qed (simp add: bind_positional_def bound_state_def)

lemma value_for_snoc:
  assumes "key_index ps k = Some i" and "value_for ps pos named i = None"
  shows "value_for ps pos (named @ [(k, v)]) j = (if j = i then Some v else value_for ps pos named j)"
proof -
  have "find q (xs @ ys) = or_else (find q xs) (find q ys)" for q and xs ys :: "(string \<times> string) list"
    by (induction xs) auto
  then show ?thesis
    using assms by (auto simp: value_for_def split: option.splits if_splits)
qed

lemma bind_named_state:
  "bind_named ns hint ps (bound_state ps pos named) rk rv =
     (let k = strip_quotes (str_trim rk); v = strip_quotes (str_trim rv) in
      case key_index ps k of
        None \<Rightarrow> Inl (UnknownKey k ns hint)
      | Some i \<Rightarrow> if value_for ps pos named i \<noteq> None then Inl (bind_error.Duplicate k ns hint)
                  else Inr (bound_state ps pos (named @ [(k, v)])))"
proof -
  let ?k = "strip_quotes (str_trim rk)" and ?v = "strip_quotes (str_trim rv)"
  have "(map (value_for ps pos named) [0..<length ps])[i := Some ?v] =
      map (value_for ps pos (named @ [(?k, ?v)])) [0..<length ps]"
    if "key_index ps ?k = Some i" "value_for ps pos named i = None" for i
    using that key_index_bound [OF that(1)]
    by (intro nth_equalityI) (auto simp: nth_list_update value_for_snoc [OF that])
  then show ?thesis
    by (auto simp: bind_named_def bound_state_def key_index_def [symmetric] Let_def
        dest: key_index_bound split: option.split)
qed

lemma arguments_of_simps:
  "arguments_of [] = []"
  "arguments_of (part # parts) =
     (if strip_quotes (str_trim part) = [] then arguments_of parts
      else classify_piece (str_trim part) # arguments_of parts)"
  by (simp_all add: arguments_of_def)

text \<open>The loop accepts exactly the arguments that continue what it has seen.\<close>

definition continues ::
  "param list \<Rightarrow> string list \<Rightarrow> (string \<times> string) list \<Rightarrow> (string + string \<times> string) list \<Rightarrow>
   bind_state \<Rightarrow> bool" where
  "continues ps pos named args st \<longleftrightarrow>
     args = map Inl (positional_of args) @ map Inr (named_of args) \<and>
     (positional_of args \<noteq> [] \<longrightarrow> named = []) \<and>
     names_ok ps (length pos + length (positional_of args)) (named @ named_of args) \<and>
     st = bound_state ps (pos @ positional_of args) (named @ named_of args)"

lemma continues_Nil: "continues ps pos named [] st \<longleftrightarrow> names_ok ps (length pos) named \<and> st = bound_state ps pos named"
  by (simp add: continues_def positional_of_def named_of_def)

lemma continues_Inl:
  "continues ps pos named (Inl v # args) st \<longleftrightarrow> named = [] \<and> continues ps (pos @ [v]) [] args st"
  by (auto simp: continues_def positional_of_def named_of_def)

lemma continues_Inr:
  "continues ps pos named (Inr (k, v) # args) st \<longleftrightarrow>
     positional_of args = [] \<and> continues ps pos (named @ [(k, v)]) args st"
  by (cases "positional_of args") (auto simp: continues_def positional_of_def named_of_def)

lemma continues_named:
  "named \<noteq> [] \<Longrightarrow> continues ps pos named args st \<Longrightarrow> positional_of args = []"
  by (auto simp: continues_def)

lemma names_ok_snoc:
  "names_ok ps n (named @ [(k, v)]) \<longleftrightarrow>
     names_ok ps n named \<and> (\<exists>i. key_index ps k = Some i \<and> n \<le> i \<and> Some i \<notin> set (map (key_index ps \<circ> fst) named))"
  by (force simp: names_ok_def)

lemma names_ok_prefix: "continues ps pos named args st \<Longrightarrow> names_ok ps (length pos) named"
  by (fastforce simp: continues_def names_ok_def)

lemma bind_loop_iff:
  "names_ok ps (length pos) named \<Longrightarrow>
   bind_loop ns hint ps parts (bound_state ps pos named) = Inr st \<longleftrightarrow>
   continues ps pos named (arguments_of parts) st"
proof (induction parts arbitrary: pos named)
  case Nil
  then show ?case by (auto simp: arguments_of_simps continues_Nil)
next
  case (Cons part parts)
  show ?case
  proof (cases "strip_quotes (str_trim part) = []")
    case True
    then show ?thesis using Cons by (simp add: arguments_of_simps)
  next
    case ne: False
    show ?thesis
    proof (cases "split_named (str_trim part)")
      case None
      have "names_ok ps (length (pos @ [strip_quotes (str_trim part)])) []" by (simp add: names_ok_def)
      note ih = Cons.IH [OF this]
      show ?thesis
        using ne None ih
        by (simp add: arguments_of_simps classify_piece_def bind_positional_state continues_Inl Let_def)
    next
      case (Some kv)
      obtain rk rv where kv: "kv = (rk, rv)" by (cases kv)
      let ?k = "strip_quotes (str_trim rk)" and ?v = "strip_quotes (str_trim rv)"
      have args: "arguments_of (part # parts) = Inr (?k, ?v) # arguments_of parts"
        using ne by (simp add: arguments_of_simps classify_piece_def Some kv)
      show ?thesis
      proof (cases "names_ok ps (length pos) (named @ [(?k, ?v)])")
        case True
        note ih = Cons.IH [OF True]
        from True obtain i where "key_index ps ?k = Some i" "value_for ps pos named i = None"
          by (auto simp: names_ok_snoc value_for_None)
        then show ?thesis
          using ne ih by (auto simp: Some kv args bind_named_state continues_Inr Let_def
              dest: continues_named [rotated])
      next
        case False
        then have "\<exists>e. bind_named ns hint ps (bound_state ps pos named) rk rv = Inl e"
          using Cons.prems by (auto simp: bind_named_state names_ok_snoc value_for_None Let_def split: option.split)
        then show ?thesis
          using ne False by (auto simp: Some kv args continues_Inr Let_def dest: names_ok_prefix)
      qed
    qed
  qed
qed

lemma index_insert_new: "k \<notin> fst ` set m \<Longrightarrow> index_insert k v m = m @ [(k, v)]"
  by (induction m) auto

lemma fill_named_iff:
  "distinct (map fst named @ map (p_name \<circ> fst) slots) \<Longrightarrow>
   fill_named ns hint slots named = Inr out \<longleftrightarrow>
   (\<forall>(p, slot)\<in>set slots. p_required p \<longrightarrow> slot \<noteq> None) \<and>
   out = named @ map (\<lambda>(p, slot). (p_name p, case slot of Some v \<Rightarrow> v | None \<Rightarrow> p_default p)) slots"
proof (induction slots arbitrary: named)
  case (Cons ps slots)
  obtain p slot where ps: "ps = (p, slot)" by (cases ps)
  have "p_name p \<notin> fst ` set named" using Cons.prems by (auto simp: ps)
  then show ?case
    using Cons.IH [of "named @ [(p_name p, v)]" for v] Cons.prems
    by (auto simp: ps index_insert_new split: option.split)
qed auto

lemma bind_call_iff:
  assumes "distinct (map p_name ps)"
  shows "bind_call ns raw ps = Inr b \<longleftrightarrow>
    call_ok ps (call_arguments raw) \<and> b = bound_call ps (call_arguments raw)"
proof -
  let ?args = "call_arguments raw"
  let ?vals = "map (supplied ps ?args) [0..<length ps]"
  have st0: "\<lparr>bs_values = replicate (length ps) None, bs_positional = [], bs_seen_named = False\<rparr> =
      bound_state ps [] []"
    by (auto simp: bound_state_def value_for_def intro!: nth_equalityI)
  have loop: "bind_loop ns hint ps (split_call_args raw) (bound_state ps [] []) = Inr st \<longleftrightarrow>
      continues ps [] [] ?args st" for hint st
    unfolding call_arguments_def by (rule bind_loop_iff) (simp add: names_ok_def)
  have slots: "zip ps ?vals = map (\<lambda>i. (ps ! i, supplied ps ?args i)) [0..<length ps]"
    by (rule nth_equalityI) simp_all
  have names: "map (p_name \<circ> fst) (zip ps ?vals) = map p_name ps"
    by (rule nth_equalityI) simp_all
  have dist: "distinct (map fst [] @ map (p_name \<circ> fst) (zip ps ?vals))" by (simp add: names assms)
  have fill: "fill_named ns hint (zip ps ?vals) [] = Inr out \<longleftrightarrow>
      (\<forall>i<length ps. p_required (ps ! i) \<longrightarrow> supplied ps ?args i \<noteq> None) \<and>
      out = b_named (bound_call ps ?args)" for hint out
    unfolding fill_named_iff [OF dist] by (auto simp: slots bound_call_def comp_def)
  have cont: "continues ps [] [] ?args st \<longleftrightarrow>
      ?args = map Inl (positional_of ?args) @ map Inr (named_of ?args) \<and>
      names_ok ps (length (positional_of ?args)) (named_of ?args) \<and>
      st = bound_state ps (positional_of ?args) (named_of ?args)" for st
    by (auto simp: continues_def)
  show ?thesis
  proof (cases "bind_loop ns (usage_hint ns ps) ps (split_call_args raw) (bound_state ps [] [])")
    case (Inl e)
    then have "\<not> call_ok ps ?args"
      using loop [of "usage_hint ns ps"] cont by (auto simp: call_ok_def)
    then show ?thesis by (simp add: bind_call_def st0 Inl Let_def)
  next
    case (Inr st)
    then have st: "?args = map Inl (positional_of ?args) @ map Inr (named_of ?args)"
      "names_ok ps (length (positional_of ?args)) (named_of ?args)"
      "st = bound_state ps (positional_of ?args) (named_of ?args)"
      using loop [of "usage_hint ns ps" st] cont by simp_all
    have vals: "bs_values st = ?vals" "bs_positional st = positional_of ?args"
      by (simp_all add: st(3) bound_state_def supplied_def)
    show ?thesis
      using st(1,2) fill [of "usage_hint ns ps"]
      by (auto simp: bind_call_def st0 Inr vals call_ok_def Let_def bound_call_def split: sum.split) blast
  qed
qed

text \<open>C38: A call binds exactly if it can be bound: its named arguments follow its positional ones, each key
  names (in any ASCII case) a parameter that no other argument fills, and every required parameter is
  supplied.  Then every parameter gets one value, in the order of the parameters: the positional arguments
  go to the first parameters in order, a named one to the parameter of that name, and a parameter that is
  not supplied has its default.  The names of the parameters are distinct.\<close>

theorem bind_call_binds_every_parameter:
  assumes "distinct (map p_name ps)"
  shows "bind_call ns raw ps = Inr b \<longleftrightarrow>
    call_ok ps (call_arguments raw) \<and> b = bound_call ps (call_arguments raw)"
  by (rule bind_call_iff [OF assms])

theorem bind_call_binds_every_parameter_witness:
  "\<not> isl (bind_call ''random'' ''1, MAX=5''
      [\<lparr>p_name = ''min'', p_required = True, p_default = []\<rparr>,
       \<lparr>p_name = ''max'', p_required = False, p_default = ''9''\<rparr>]) \<and>
   isl (bind_call ''random'' ''max=5''
      [\<lparr>p_name = ''min'', p_required = True, p_default = []\<rparr>,
       \<lparr>p_name = ''max'', p_required = False, p_default = ''9''\<rparr>])"
proof -
  let ?ps = "[\<lparr>p_name = ''min'', p_required = True, p_default = []\<rparr>,
       \<lparr>p_name = ''max'', p_required = False, p_default = ''9''\<rparr>]"
  have d: "distinct (map p_name ?ps)" by simp
  have "bind_call ''random'' ''1, MAX=5'' ?ps =
      Inr \<lparr>b_positional = [''1''], b_named = [(''min'', ''1''), (''max'', ''5'')]\<rparr>" by code_simp
  moreover have "\<not> p_required (?ps ! 1) \<and> p_required (?ps ! 0) \<and> supplied ?ps (call_arguments ''max=5'') 0 = None"
    by code_simp
  then have "\<not> call_ok ?ps (call_arguments ''max=5'')" unfolding call_ok_def by fastforce
  then have "bind_call ''random'' ''max=5'' ?ps \<noteq> Inr b" for b
    using bind_call_binds_every_parameter [OF d] by blast
  then have "isl (bind_call ''random'' ''max=5'' ?ps)" by (metis isl_def obj_sumE)
  ultimately show ?thesis by simp
qed

end
