(* ===== verification/Expansion.thy ===== *)
theory Expansion
  imports Keys AppFilter Args
begin

text \<open>
  What an expansion is, \<open>core/src/engine/variables/types.rs\<close>, and what the engine decides from its
  steps: whether it may be undone blindly (\<open>core/src/engine/undo.rs\<close>), how it is counted
  (\<open>stat_kind_for_steps\<close> of \<open>core/src/engine/expansion.rs\<close>) and how a trigger's case is carried over
  to the output (\<open>apply_auto_case\<close> of \<open>catalog/expansion.rs\<close>).
\<close>

section \<open>Steps\<close>

record script_metadata =
  sm_interpreter :: script_interpreter
  sm_behavior :: script_behavior
  sm_compressed :: "u8 list"

datatype expansion_step =
    TextStep string
  | ImageStep "u8 list" string
  | KeyPressStep string
  | DelayStep "64 word"
  | ScriptStep script_metadata
  | InlineRun script_metadata "string list"
  | MouseClick mouse_button u32
  | MouseMove u16 u16
  | MouseScroll u32
  | MouseDown mouse_button
  | MouseUp mouse_button

record final_expansion =
  fe_steps :: "expansion_step list"
  fe_is_calculation :: bool
  fe_ai_template :: "string option"

definition text_expansion :: "string \<Rightarrow> final_expansion" where
  "text_expansion t = \<lparr>fe_steps = [TextStep t], fe_is_calculation = False, fe_ai_template = None\<rparr>"

definition calculation :: "string \<Rightarrow> final_expansion" where
  "calculation t = (text_expansion t)\<lparr>fe_is_calculation := True\<rparr>"

datatype trigger_stat_kind =
  Snippet | Hotkey_Stat | Script_Stat | Calculation | InlineAi | VoiceTrigger | VoiceDictation

fun stat_kind_for_steps :: "bool \<Rightarrow> expansion_step list \<Rightarrow> trigger_stat_kind" where
  "stat_kind_for_steps is_calculation steps =
     (if is_calculation then Calculation
      else case steps of [ScriptStep md] \<Rightarrow> Script_Stat | _ \<Rightarrow> Snippet)"

section \<open>Blind undo\<close>

definition usize_max :: nat where
  "usize_max = 2 ^ 64 - 1"

definition max_payload_bytes :: nat where
  "max_payload_bytes = 1048576"

fun blind_undo_loop :: "nat \<Rightarrow> expansion_step list \<Rightarrow> bool" where
  "blind_undo_loop text_bytes [] = (text_bytes < max_payload_bytes)"
| "blind_undo_loop text_bytes (step # steps) =
     (case step of
        TextStep t \<Rightarrow> blind_undo_loop (min usize_max (text_bytes + str_len t)) steps
      | _ \<Rightarrow> False)"

definition allows_blind_undo :: "expansion_step list \<Rightarrow> bool" where
  "allows_blind_undo steps = blind_undo_loop 0 steps"

definition undo_trigger_for_steps :: "string \<Rightarrow> expansion_step list \<Rightarrow> string option" where
  "undo_trigger_for_steps keyword steps = (if allows_blind_undo steps then Some keyword else None)"

definition step_text :: "expansion_step \<Rightarrow> string option" where
  "step_text step = (case step of TextStep t \<Rightarrow> Some t | _ \<Rightarrow> None)"

lemma blind_undo_loop_iff:
  "n \<le> usize_max \<Longrightarrow>
   blind_undo_loop n steps \<longleftrightarrow>
     (\<exists>ts. steps = map TextStep ts \<and> n + sum_list (map str_len ts) < max_payload_bytes)"
proof (induction n steps rule: blind_undo_loop.induct)
  case (2 n step steps)
  show ?case
  proof (cases step)
    case (TextStep t)
    have cap: "max_payload_bytes \<le> usize_max" by (simp add: max_payload_bytes_def usize_max_def)
    have "min usize_max (n + str_len t) + k < max_payload_bytes \<longleftrightarrow> n + (str_len t + k) < max_payload_bytes" for k
      using cap by (auto simp: min_def)
    moreover have "(\<exists>ts. TextStep t # steps = map TextStep ts \<and> P ts) \<longleftrightarrow>
        (\<exists>ts. steps = map TextStep ts \<and> P (t # ts))" for P
      by (auto simp: Cons_eq_map_conv)
    ultimately show ?thesis using 2(1) [OF TextStep] TextStep by simp
  qed (auto simp: Cons_eq_map_conv)
qed auto

text \<open>An expansion may be undone by replaying backspaces only when it does nothing but insert text,
  and less than 1 MiB of it: then, and only then, an undo trigger is kept.\<close>

theorem blind_undo_only_for_small_text:
  "undo_trigger_for_steps keyword steps =
     (if \<exists>ts. steps = map TextStep ts \<and> sum_list (map str_len ts) < max_payload_bytes
      then Some keyword else None)"
  using blind_undo_loop_iff [of 0 steps] by (simp add: undo_trigger_for_steps_def allows_blind_undo_def)

section \<open>Case carried over from the trigger\<close>

definition capitalize_first :: "string \<Rightarrow> string" where
  "capitalize_first output = (case output of [] \<Rightarrow> [] | c # cs \<Rightarrow> to_uppercase c @ cs)"

definition apply_auto_case :: "string \<Rightarrow> string \<Rightarrow> string" where
  "apply_auto_case output typed =
     (if list_all (\<lambda>c. \<not> is_alphabetic c \<or> is_uppercase c) typed then str_to_uppercase output
      else if (case find is_alphabetic typed of None \<Rightarrow> False | Some c \<Rightarrow> is_uppercase c)
      then capitalize_first output else output)"

text \<open>The case of the typed trigger carries over: all capitals upper-case the output, a capital at
  the first letter capitalises its first character, and any other typing leaves it alone.  A trigger
  without a letter, such as one of digits or punctuation, counts as all capitals: with automatic case
  its output is always upper-cased.\<close>

theorem auto_case_by_typing:
  "apply_auto_case output typed =
     (let letters = filter is_alphabetic typed in
      if list_all is_uppercase letters then str_to_uppercase output
      else if is_uppercase (hd letters) then capitalize_first output
      else output)"
proof -
  have f: "find is_alphabetic typed = (case filter is_alphabetic typed of [] \<Rightarrow> None | c # _ \<Rightarrow> Some c)"
    by (induction typed) auto
  show ?thesis
    unfolding apply_auto_case_def f Let_def
    by (cases "filter is_alphabetic typed") (auto simp: list_all_iff filter_empty_conv filter_eq_Cons_iff)
qed

end
