(* ===== verification/Comma.thy ===== *)
theory Comma
  imports Prelude
begin

text \<open>
  The thousands separators of inline arithmetic, \<open>core/src/engine/comma.rs\<close>: \<open>preprocess\<close> reads
  the digit grouping off the user's expression and drops the commas, \<open>format_result\<close> puts the
  grouping back into the result.

  The two regular expressions are matched by the \<open>regex\<close> crate, which is a parameter of the model:
  \<open>find_re\<close> is the first match of \<open>[0-9]+(?:,[0-9]+)+\<close>, \<open>split_re\<close> the two captures of
  \<open>^([+-]?[0-9]+(?:\.[0-9]+)?)(.*)$\<close>.  \<open>find_contract\<close> and \<open>split_contract\<close> state what a match of
  these expressions is.  The grouping loop of \<open>format_result\<close> advances only when the interval is
  positive, so it is a partial function; it is proved to return on every interval list that
  \<open>preprocess\<close> can produce.
\<close>

section \<open>The grouping that the expression shows\<close>

type_synonym intervals = "nat list"

text \<open>The loop over the reversed characters: the length of every group that a comma closes.\<close>

fun interval_loop :: "string \<Rightarrow> nat \<Rightarrow> intervals \<Rightarrow> intervals" where
  "interval_loop [] current_len ivs = ivs"
| "interval_loop (c # cs) current_len ivs =
     (if c = CHR '','' then
        (if 0 < current_len then interval_loop cs 0 (ivs @ [current_len])
         else interval_loop cs current_len ivs)
      else if is_ascii_digit c then interval_loop cs (current_len + 1) ivs
      else interval_loop cs current_len ivs)"

definition remove_commas :: "string \<Rightarrow> string" where
  "remove_commas s = filter (\<lambda>c. c \<noteq> CHR '','') s"

definition preprocess :: "(string \<Rightarrow> string option) \<Rightarrow> string \<Rightarrow> string \<times> intervals option" where
  "preprocess find_re input =
     (let intervals =
        (case find_re input of
           None \<Rightarrow> None
         | Some matched \<Rightarrow>
             (let integer_part = hd (split_on CHR ''.'' matched);
                  ivs = interval_loop (rev integer_part) 0 []
              in if ivs = [] then None else Some ivs))
      in (remove_commas input, intervals))"

section \<open>Formatting the result\<close>

definition interval_at :: "intervals \<Rightarrow> nat \<Rightarrow> nat" where
  "interval_at ivs i = (if i < length ivs then ivs ! i else if ivs = [] then 3 else last ivs)"

text \<open>\<open>formatted_integer\<close> is built backwards: \<open>digits\<close> are the reversed digits still to come.\<close>

partial_function (option) group_loop :: "intervals \<Rightarrow> nat \<Rightarrow> string \<Rightarrow> string \<Rightarrow> string option" where
  "group_loop ivs i digits formatted =
     (if digits = [] then Some formatted
      else
        (let block = take (interval_at ivs i) digits;
             formatted1 = (if formatted \<noteq> [] \<and> block \<noteq> [] then formatted @ [CHR '',''] else formatted)
         in group_loop ivs (i + 1) (drop (interval_at ivs i) digits) (formatted1 @ block)))"

fun take_sign :: "string \<Rightarrow> string \<times> string" where
  "take_sign [] = ([], [])"
| "take_sign (c # cs) = (if c = CHR ''+'' \<or> c = CHR ''-'' then ([c], cs) else ([], c # cs))"

definition format_result :: "(string \<Rightarrow> (string \<times> string) option) \<Rightarrow> string \<Rightarrow> intervals \<Rightarrow> string option" where
  "format_result split_re result ivs =
     (if ivs = [] then Some result
      else case split_re result of
        None \<Rightarrow> Some result
      | Some (num_str, rest) \<Rightarrow>
          (if num_str = [] then Some result
           else
             (let (sign, remaining) = take_sign num_str;
                  parts = split_on CHR ''.'' remaining;
                  integer_part = hd parts;
                  decimal_part = (if 1 < length parts then CHR ''.'' # parts ! 1 else [])
              in case group_loop ivs 0 (rev integer_part) [] of
                   None \<Rightarrow> None
                 | Some formatted \<Rightarrow> Some (sign @ rev formatted @ decimal_part @ rest))))"

section \<open>What the regular expressions promise\<close>

definition digit_run :: "string \<Rightarrow> bool" where
  "digit_run s \<longleftrightarrow> s \<noteq> [] \<and> list_all is_ascii_digit s"

text \<open>The texts \<open>[0-9]+(?:,[0-9]+)+\<close> matches.\<close>

definition comma_number :: "string \<Rightarrow> bool" where
  "comma_number s \<longleftrightarrow> 1 < length (split_on CHR '','' s) \<and> list_all digit_run (split_on CHR '','' s)"

text \<open>The texts \<open>[+-]?[0-9]+(?:\.[0-9]+)?\<close> matches.\<close>

definition signed_decimal :: "string \<Rightarrow> bool" where
  "signed_decimal s \<longleftrightarrow>
     (let parts = split_on CHR ''.'' (snd (take_sign s)) in length parts \<le> 2 \<and> list_all digit_run parts)"

definition find_contract :: "(string \<Rightarrow> string option) \<Rightarrow> bool" where
  "find_contract find_re \<longleftrightarrow> (\<forall>s m. find_re s = Some m \<longrightarrow> sublist m s \<and> comma_number m)"

definition split_contract :: "(string \<Rightarrow> (string \<times> string) option) \<Rightarrow> bool" where
  "split_contract split_re \<longleftrightarrow>
     (\<forall>s n r. split_re s = Some (n, r) \<longrightarrow> s = n @ r \<and> signed_decimal n) \<and>
     (\<forall>s. digit_run s \<longrightarrow> split_re s = Some (s, []))"

section \<open>The grouping loop\<close>

text \<open>The blocks the loop cuts, as a list; structural in the number of digits.\<close>

function blocks :: "intervals \<Rightarrow> nat \<Rightarrow> string \<Rightarrow> string list" where
  "blocks ivs i digits =
     (if digits = [] \<or> interval_at ivs i = 0 then []
      else take (interval_at ivs i) digits # blocks ivs (i + 1) (drop (interval_at ivs i) digits))"
  by auto
termination
  by (relation "measure (\<lambda>(ivs, i, digits). length digits)") auto

declare blocks.simps [simp del]

lemma blocks_Nil [simp]: "blocks ivs i [] = []"
  by (simp add: blocks.simps)

fun join_blocks :: "string \<Rightarrow> string list \<Rightarrow> string" where
  "join_blocks acc [] = acc"
| "join_blocks acc (b # bs) = join_blocks ((if acc = [] then [] else acc @ [CHR '','']) @ b) bs"

lemma join_blocks_acc:
  "acc \<noteq> [] \<Longrightarrow> \<forall>b\<in>set bs. b \<noteq> [] \<Longrightarrow> join_blocks acc bs = join_with '','' (acc # bs)"
proof (induction bs arbitrary: acc)
  case (Cons b bs)
  have "join_with '','' ((acc @ '','' @ b) # bs) = acc @ '','' @ join_with '','' (b # bs)"
    by (cases bs) auto
  then show ?case using Cons by simp
qed simp

lemma join_blocks_join:
  "\<forall>b\<in>set bs. b \<noteq> [] \<Longrightarrow> join_blocks [] bs = join_with '','' bs"
  by (cases bs) (simp_all add: join_blocks_acc)

lemma interval_at_pos: "ivs \<noteq> [] \<Longrightarrow> \<forall>k\<in>set ivs. 0 < k \<Longrightarrow> 0 < interval_at ivs i"
  by (simp add: interval_at_def)

lemma group_loop_blocks:
  assumes "ivs \<noteq> []" and "\<forall>k\<in>set ivs. 0 < k"
  shows "group_loop ivs i digits acc = Some (join_blocks acc (blocks ivs i digits))"
  using assms
proof (induction ivs i digits arbitrary: acc rule: blocks.induct)
  case (1 ivs i digits)
  have pos: "0 < interval_at ivs i" using interval_at_pos 1 by blast
  show ?case
  proof (cases "digits = []")
    case True
    then show ?thesis by (simp add: group_loop.simps)
  next
    case False
    then have ne: "take (interval_at ivs i) digits \<noteq> []" using pos by simp
    show ?thesis
      using False pos ne 1
      by (subst group_loop.simps, subst blocks.simps) (simp add: Let_def)
  qed
qed

lemma blocks_spec:
  assumes "ivs \<noteq> []" and "\<forall>k\<in>set ivs. 0 < k"
  shows "concat (blocks ivs i digits) = digits \<and> (\<forall>b\<in>set (blocks ivs i digits). b \<noteq> []) \<and>
    (\<forall>j<length (blocks ivs i digits).
       length (blocks ivs i digits ! j) \<le> interval_at ivs (i + j) \<and>
       (j + 1 < length (blocks ivs i digits) \<longrightarrow>
          length (blocks ivs i digits ! j) = interval_at ivs (i + j)))"
  using assms
proof (induction ivs i digits rule: blocks.induct)
  case (1 ivs i digits)
  let ?k = "interval_at ivs i"
  let ?bs = "blocks ivs (i + 1) (drop ?k digits)"
  have pos: "0 < ?k" using interval_at_pos 1 by blast
  show ?case
  proof (cases "digits = []")
    case False
    then have eq: "blocks ivs i digits = take ?k digits # ?bs"
      using pos by (subst blocks.simps) simp
    have ih: "concat ?bs = drop ?k digits" "\<forall>b\<in>set ?bs. b \<noteq> []"
      "\<forall>j<length ?bs. length (?bs ! j) \<le> interval_at ivs (i + 1 + j) \<and>
         (j + 1 < length ?bs \<longrightarrow> length (?bs ! j) = interval_at ivs (i + 1 + j))"
      using 1 False pos by auto
    have full: "?k \<le> length digits" if "?bs \<noteq> []"
      using that by (cases "?k \<le> length digits") auto
    show ?thesis
      unfolding eq
    proof (intro conjI allI impI)
      fix j assume j: "j < length (take ?k digits # ?bs)"
      show "length ((take ?k digits # ?bs) ! j) \<le> interval_at ivs (i + j)"
        using j ih(3) by (cases j) auto
      assume "j + 1 < length (take ?k digits # ?bs)"
      then show "length ((take ?k digits # ?bs) ! j) = interval_at ivs (i + j)"
        using ih(3) full by (cases j) auto
    qed (use ih(1,2) False pos in auto)
  qed simp
qed

lemma remove_commas_join: "remove_commas (join_with '','' ws) = remove_commas (concat ws)"
  by (induction ws rule: induct_list012) (auto simp: remove_commas_def)

section \<open>Reading a grouped number\<close>

lemma comma_number_groups:
  assumes "comma_number m"
  obtains gs where "split_on CHR '','' m = gs" and "1 < length gs" and "list_all digit_run gs"
    and "m = join_with '','' gs"
  using assms join_split_on [of "CHR '',''" m] unfolding comma_number_def by metis

lemma digit_not_sep: "is_ascii_digit c \<Longrightarrow> c \<noteq> CHR '',''" "is_ascii_digit c \<Longrightarrow> c \<noteq> CHR ''.''"
  "is_ascii_digit c \<Longrightarrow> c \<noteq> CHR ''+'' \<and> c \<noteq> CHR ''-''"
  by (auto simp: char_defs)

lemma digit_run_rev [simp]: "digit_run (rev s) = digit_run s"
  by (simp add: digit_run_def)

lemma interval_loop_digits:
  "list_all is_ascii_digit g \<Longrightarrow>
   interval_loop (g @ cs) k ivs = interval_loop cs (k + length g) ivs"
  by (induction g arbitrary: k) (auto dest: digit_not_sep)

lemma interval_loop_join:
  "list_all digit_run hs \<Longrightarrow>
   interval_loop (join_with '','' hs) 0 ivs = ivs @ map length (butlast hs)"
proof (induction hs arbitrary: ivs)
  case (Cons h hs)
  show ?case
  proof (cases "hs = []")
    case True
    then show ?thesis
      using Cons.prems interval_loop_digits [of h "[]" 0 ivs] by (simp add: digit_run_def)
  next
    case False
    then show ?thesis
      using Cons by (simp add: join_with_Cons interval_loop_digits digit_run_def)
  qed
qed simp

lemma set_join_comma: "set (join_with '','' ws) \<subseteq> insert CHR '','' (\<Union>w\<in>set ws. set w)"
  by (induction ws rule: induct_list012) auto

lemma comma_number_no_dot: "comma_number m \<Longrightarrow> CHR ''.'' \<notin> set m"
proof (elim comma_number_groups)
  fix gs assume "list_all digit_run gs" and "m = join_with '','' gs"
  moreover from this have "\<forall>w\<in>set gs. CHR ''.'' \<notin> set w"
    using digit_not_sep(2) by (fastforce simp: digit_run_def list_all_iff)
  ultimately show "CHR ''.'' \<notin> set m"
    using set_join_comma [of gs] by auto
qed

lemma preprocess_reads_grouping_aux:
  assumes "find_contract find_re"
  shows "fst (preprocess find_re input) = filter (\<lambda>c. c \<noteq> CHR '','') input \<and>
    (find_re input = None \<longrightarrow> snd (preprocess find_re input) = None) \<and>
    (\<forall>m. find_re input = Some m \<longrightarrow>
       (\<exists>ivs. snd (preprocess find_re input) = Some ivs \<and>
          ivs = rev (map length (tl (split_on CHR '','' m))) \<and> ivs \<noteq> [] \<and> (\<forall>k\<in>set ivs. 0 < k)))"
proof (intro conjI allI impI)
  fix m assume m: "find_re input = Some m"
  with assms have cn: "comma_number m" by (auto simp: find_contract_def)
  from cn obtain gs where gs: "split_on CHR '','' m = gs" "1 < length gs" "list_all digit_run gs"
    "m = join_with '','' gs" by (rule comma_number_groups)
  have hd: "hd (split_on CHR ''.'' m) = m"
    by (simp add: split_on_single comma_number_no_dot [OF cn])
  have "list_all digit_run (rev (map rev gs))"
    using gs(3) by (simp add: list_all_iff)
  then have "interval_loop (rev m) 0 [] = map length (butlast (rev (map rev gs)))"
    unfolding gs(4) rev_join_with using interval_loop_join by simp
  also have "\<dots> = rev (map length (tl gs))"
    by (cases gs) (simp_all add: butlast_append rev_map comp_def)
  finally have loop: "interval_loop (rev m) 0 [] = rev (map length (tl gs))" .
  have ne: "tl gs \<noteq> []" using gs(2) by (cases gs) auto
  have pos: "\<forall>k\<in>set (rev (map length (tl gs))). 0 < k"
    using gs(3) by (cases gs) (auto simp: list_all_iff digit_run_def)
  show "\<exists>ivs. snd (preprocess find_re input) = Some ivs \<and>
      ivs = rev (map length (tl (split_on CHR '','' m))) \<and> ivs \<noteq> [] \<and> (\<forall>k\<in>set ivs. 0 < k)"
    using m loop ne pos gs(1) hd by (simp add: preprocess_def Let_def)
qed (auto simp: preprocess_def Let_def remove_commas_def)

text \<open>C33: The grouping that \<open>preprocess\<close> reads off an expression is the list of the lengths of the
  comma groups of the first grouped number, from the right and without the leftmost group; it is
  never empty and has no zero interval.  The cleaned expression is the expression without its
  commas.\<close>

theorem preprocess_reads_grouping:
  assumes "find_contract find_re"
  shows "fst (preprocess find_re input) = filter (\<lambda>c. c \<noteq> CHR '','') input \<and>
    (find_re input = None \<longrightarrow> snd (preprocess find_re input) = None) \<and>
    (\<forall>m. find_re input = Some m \<longrightarrow>
       (\<exists>ivs. snd (preprocess find_re input) = Some ivs \<and>
          ivs = rev (map length (tl (split_on CHR '','' m))) \<and> ivs \<noteq> [] \<and> (\<forall>k\<in>set ivs. 0 < k)))"
  using preprocess_reads_grouping_aux [OF assms] .

section \<open>The result with its commas\<close>

lemma signed_decimal_parts:
  assumes "signed_decimal n"
  obtains ip where "hd (split_on CHR ''.'' (snd (take_sign n))) = ip" and "digit_run ip"
    and "n = fst (take_sign n) @ ip @
      (if 1 < length (split_on CHR ''.'' (snd (take_sign n)))
       then CHR ''.'' # split_on CHR ''.'' (snd (take_sign n)) ! 1 else [])"
proof -
  let ?parts = "split_on CHR ''.'' (snd (take_sign n))"
  have n: "n = fst (take_sign n) @ snd (take_sign n)" by (cases n) auto
  have j: "snd (take_sign n) = join_with ''.'' ?parts" by (simp add: join_split_on)
  obtain p ps where p: "?parts = p # ps" by (cases ?parts) auto
  have "length ps \<le> 1" "digit_run p" using assms p by (auto simp: signed_decimal_def Let_def)
  then have "snd (take_sign n) = p @ (if 1 < length ?parts then CHR ''.'' # ?parts ! 1 else [])"
    using j unfolding p by (cases ps) auto
  then show ?thesis using that [of p] n p \<open>digit_run p\<close> by simp
qed

lemma format_result_groups_aux:
  assumes "split_contract split_re" and "ivs \<noteq> []" and "\<forall>k\<in>set ivs. 0 < k"
    and "split_re result = Some (n, rest)"
  shows "\<exists>sign gs tail. result = sign @ concat gs @ tail \<and>
    format_result split_re result ivs = Some (sign @ join_with '','' gs @ tail) \<and>
    digit_run (concat gs) \<and> [] \<notin> set gs \<and>
    (\<forall>j<length gs. length (rev gs ! j) \<le> interval_at ivs j \<and>
       (j + 1 < length gs \<longrightarrow> length (rev gs ! j) = interval_at ivs j))"
proof -
  have sd: "signed_decimal n" and res: "result = n @ rest"
    using assms(1,4) by (auto simp: split_contract_def)
  obtain ip where ip: "hd (split_on CHR ''.'' (snd (take_sign n))) = ip" "digit_run ip"
    and n: "n = fst (take_sign n) @ ip @
      (if 1 < length (split_on CHR ''.'' (snd (take_sign n)))
       then CHR ''.'' # split_on CHR ''.'' (snd (take_sign n)) ! 1 else [])"
    using sd by (rule signed_decimal_parts)
  let ?dec = "if 1 < length (split_on CHR ''.'' (snd (take_sign n)))
       then CHR ''.'' # split_on CHR ''.'' (snd (take_sign n)) ! 1 else []"
  let ?bs = "blocks ivs 0 (rev ip)"
  let ?gs = "rev (map rev ?bs)"
  have bs: "concat ?bs = rev ip" "\<forall>b\<in>set ?bs. b \<noteq> []"
    "\<forall>j<length ?bs. length (?bs ! j) \<le> interval_at ivs j \<and>
       (j + 1 < length ?bs \<longrightarrow> length (?bs ! j) = interval_at ivs j)"
    using blocks_spec [OF assms(2,3), of 0 "rev ip"] unfolding add_0 by blast+
  have cat: "concat ?gs = ip" 
    using arg_cong [OF bs(1), of rev] by (simp only: rev_concat rev_map rev_rev_ident)
  have "n \<noteq> []"
  proof
    assume "n = []"
    with ip show False by (simp add: digit_run_def)
  qed
  then have "format_result split_re result ivs =
      Some (fst (take_sign n) @ rev (join_with '','' ?bs) @ ?dec @ rest)"
    using assms(2,4) ip(1) group_loop_blocks [OF assms(2,3), of 0 "rev ip" "[]"]
      join_blocks_join [OF bs(2)]
    by (simp add: format_result_def case_prod_beta Let_def)
  then have "format_result split_re result ivs =
      Some (fst (take_sign n) @ join_with '','' ?gs @ ?dec @ rest)"
    by (simp add: rev_join_with)
  moreover have "result = fst (take_sign n) @ concat ?gs @ ?dec @ rest"
    unfolding cat res by (subst n) simp
  moreover have "digit_run (concat ?gs)" using cat ip(2) by simp
  moreover have "[] \<notin> set ?gs" using bs(2) by auto
  moreover have "\<forall>j<length ?gs. length (rev ?gs ! j) \<le> interval_at ivs j \<and>
       (j + 1 < length ?gs \<longrightarrow> length (rev ?gs ! j) = interval_at ivs j)"
    using bs(3) by simp
  ultimately show ?thesis by blast
qed

lemma format_result_only_adds_commas:
  assumes "split_contract split_re" and "\<forall>k\<in>set ivs. 0 < k"
  shows "\<exists>out. format_result split_re result ivs = Some out \<and> remove_commas out = remove_commas result"
proof (cases "ivs = [] \<or> split_re result = None")
  case True
  then show ?thesis by (auto simp: format_result_def)
next
  case False
  then obtain n r where "split_re result = Some (n, r)" and "ivs \<noteq> []" by auto
  from format_result_groups_aux [OF assms(1) this(2) assms(2) this(1)]
  obtain sign gs tail where "result = sign @ concat gs @ tail"
    and "format_result split_re result ivs = Some (sign @ join_with '','' gs @ tail)" by blast
  then show ?thesis using remove_commas_join [of gs] by (auto simp: remove_commas_def)
qed

text \<open>C15: With positive intervals \<open>format_result\<close> always returns, and only adds commas: its output is
  the result with the integer part of its leading number cut into groups.  Counted from the right,
  the groups have the sizes of the intervals, the last interval repeated; only the leftmost group
  may be shorter.  No group is empty.\<close>

theorem format_result_groups:
  assumes "split_contract split_re" and "ivs \<noteq> []" and "\<forall>k\<in>set ivs. 0 < k"
    and "split_re result = Some (n, rest)"
  shows "\<exists>sign gs tail. result = sign @ concat gs @ tail \<and>
    format_result split_re result ivs = Some (sign @ join_with '','' gs @ tail) \<and>
    digit_run (concat gs) \<and> [] \<notin> set gs \<and>
    (\<forall>j<length gs. length (rev gs ! j) \<le> interval_at ivs j \<and>
       (j + 1 < length gs \<longrightarrow> length (rev gs ! j) = interval_at ivs j))"
  using format_result_groups_aux [OF assms] .

text \<open>A split that answers on bare numbers only; it keeps the contract.\<close>

definition plain_split :: "string \<Rightarrow> (string \<times> string) option" where
  "plain_split s = (if digit_run s then Some (s, []) else None)"

lemma take_sign_digits: "digit_run s \<Longrightarrow> take_sign s = ([], s)"
  by (cases s) (auto simp: digit_run_def dest: digit_not_sep(3))

lemma split_dot_digits: "digit_run s \<Longrightarrow> split_on CHR ''.'' s = [s]"
  by (rule split_on_single) (auto simp: digit_run_def list_all_iff dest: digit_not_sep(2))

lemma plain_split_contract: "split_contract plain_split"
  by (auto simp: split_contract_def plain_split_def signed_decimal_def take_sign_digits
      split_dot_digits)

theorem format_result_groups_witness:
  "\<exists>sign gs tail. ''1234567'' = sign @ concat gs @ tail \<and>
    format_result plain_split ''1234567'' [3, 2] = Some (sign @ join_with '','' gs @ tail)"
proof -
  have d: "plain_split ''1234567'' = Some (''1234567'', [])" by code_simp
  show ?thesis
    using format_result_groups [OF plain_split_contract _ _ d, of "[3, 2]"] by auto
qed

definition plain_find :: "string \<Rightarrow> string option" where
  "plain_find s = (if comma_number s then Some s else None)"

lemma plain_find_contract: "find_contract plain_find"
  by (auto simp: find_contract_def plain_find_def)

theorem preprocess_reads_grouping_witness:
  "snd (preprocess plain_find ''2,00,000'') = Some [3, 2]"
proof -
  have f: "plain_find ''2,00,000'' = Some ''2,00,000''" by code_simp
  have g: "rev (map length (tl (split_on CHR '','' ''2,00,000''))) = [3, 2]" by code_simp
  show ?thesis
    using preprocess_reads_grouping [OF plain_find_contract, of "''2,00,000''"] f g by auto
qed

section \<open>Reading and writing a grouped number\<close>

lemma interval_at_lengths:
  assumes "i < length hs" and "length hs = n + 2"
    and "length (last hs) \<le> length (hs ! n)"
  shows "interval_at (map length (butlast hs)) i \<ge> length (hs ! i) \<and>
    (i \<le> n \<longrightarrow> interval_at (map length (butlast hs)) i = length (hs ! i))"
proof (cases "i \<le> n")
  case True
  then show ?thesis using assms by (simp add: interval_at_def nth_butlast)
next
  case False
  then have i: "i = n + 1" using assms by simp
  have ne: "butlast hs \<noteq> []" using assms(2) by (cases hs) auto
  then have "last (map length (butlast hs)) = length (last (butlast hs))"
    by (simp add: last_map)
  also have "last (butlast hs) = hs ! n"
    using ne assms(2) by (simp add: last_conv_nth nth_butlast)
  finally have "interval_at (map length (butlast hs)) i = length (hs ! n)"
    using i ne assms(2) by (simp add: interval_at_def)
  moreover have "hs ! i = last hs" using i assms(2) last_conv_nth [of hs] by force
  ultimately show ?thesis using False assms(3) by simp
qed

lemma blocks_concat:
  assumes "length hs = n + 2" and "list_all digit_run hs"
    and "length (last hs) \<le> length (hs ! n)" and "i \<le> length hs"
  shows "blocks (map length (butlast hs)) i (concat (drop i hs)) = drop i hs"
  using assms(4)
proof (induction "length hs - i" arbitrary: i)
  case (Suc k)
  then have i: "i < length hs" by simp
  then have d: "drop i hs = hs ! i # drop (Suc i) hs" by (simp add: Cons_nth_drop_Suc)
  let ?k = "interval_at (map length (butlast hs)) i"
  have k: "length (hs ! i) \<le> ?k" "i \<le> n \<Longrightarrow> ?k = length (hs ! i)"
    using interval_at_lengths [OF i assms(1,3)] by auto
  have last: "drop (Suc i) hs = []" if "\<not> i \<le> n" using that assms(1) by simp
  have ne: "hs ! i \<noteq> []" using assms(2) i by (simp add: list_all_length digit_run_def)
  have t: "take ?k (concat (drop i hs)) = hs ! i" and r: "drop ?k (concat (drop i hs)) = concat (drop (Suc i) hs)"
    using k last unfolding d by (cases "i \<le> n"; simp)+
  have ih: "blocks (map length (butlast hs)) (Suc i) (concat (drop (Suc i) hs)) = drop (Suc i) hs"
    using Suc by auto
  have "concat (drop i hs) \<noteq> []" using d ne by simp
  moreover have "0 < ?k" using k(1) ne by (cases "hs ! i") auto
  ultimately have "blocks (map length (butlast hs)) i (concat (drop i hs)) =
      take ?k (concat (drop i hs)) #
      blocks (map length (butlast hs)) (Suc i) (drop ?k (concat (drop i hs)))"
    by (subst blocks.simps) simp
  with ih show ?case unfolding t r by (simp add: d)
qed simp

lemma format_bare:
  "split_re s = Some (s, []) \<Longrightarrow> digit_run s \<Longrightarrow> ivs \<noteq> [] \<Longrightarrow> s \<noteq> [] \<Longrightarrow>
   group_loop ivs 0 (rev s) [] = Some f \<Longrightarrow> format_result split_re s ivs = Some (rev f)"
  by (simp add: format_result_def take_sign_digits split_dot_digits Let_def)

text \<open>C30: Reading the grouping off a number and formatting the bare number with it gives the number
  back, whenever its leftmost group is no longer than the one after it: what the user wrote as
  12,34,567 is printed as 12,34,567.\<close>

theorem grouping_roundtrip:
  assumes "find_contract find_re" and "split_contract split_re" and "find_re m = Some m"
    and "length (split_on CHR '','' m ! 0) \<le> length (split_on CHR '','' m ! 1)"
  shows "format_result split_re (fst (preprocess find_re m)) (the (snd (preprocess find_re m))) = Some m"
proof -
  have cn: "comma_number m" using assms(1,3) by (auto simp: find_contract_def)
  from cn obtain gs where gs: "split_on CHR '','' m = gs" "1 < length gs" "list_all digit_run gs"
    "m = join_with '','' gs" by (rule comma_number_groups)
  let ?hs = "rev (map rev gs)"
  let ?ivs = "map length (butlast ?hs)"
  have pre: "fst (preprocess find_re m) = remove_commas m"
    "the (snd (preprocess find_re m)) = rev (map length (tl gs))"
    "rev (map length (tl gs)) \<noteq> []" "\<forall>k\<in>set (rev (map length (tl gs))). 0 < k"
    using preprocess_reads_grouping_aux [OF assms(1), of m] assms(3) gs(1)
    by (auto simp: remove_commas_def)
  have ivs: "rev (map length (tl gs)) = ?ivs"
    by (cases gs) (simp_all add: butlast_append rev_map comp_def)
  have "\<forall>c\<in>set (concat gs). c \<noteq> CHR '',''"
    using gs(3) by (fastforce simp: list_all_iff digit_run_def dest: digit_not_sep(1))
  then have bare: "remove_commas m = concat gs"
    unfolding gs(4) remove_commas_join by (simp add: remove_commas_def filter_id_conv)
  have dr: "digit_run (concat gs)"
    using gs(2,3) by (cases gs) (auto simp: digit_run_def list_all_iff)
  obtain n where n: "length gs = n + 2" using gs(2) by (metis add.commute less_iff_Suc_add add_Suc_right numeral_2_eq_2 plus_1_eq_Suc add_2_eq_Suc')
  have hs: "length ?hs = n + 2" "list_all digit_run ?hs" using n gs(3) by (auto simp: list_all_iff)
  have "last ?hs = rev (gs ! 0)" using n by (cases gs) auto
  moreover have "?hs ! n = rev (gs ! 1)" using n by (simp add: rev_nth)
  ultimately have le: "length (last ?hs) \<le> length (?hs ! n)" using assms(4) gs(1) by simp
  have "blocks ?ivs 0 (concat ?hs) = ?hs" using blocks_concat [OF hs le, of 0] by simp
  moreover have "concat ?hs = rev (concat gs)" by (simp add: rev_concat rev_map)
  ultimately have bs: "blocks ?ivs 0 (rev (concat gs)) = ?hs" by simp
  have pos: "?ivs \<noteq> []" "\<forall>k\<in>set ?ivs. 0 < k" using pre(3,4) unfolding ivs by auto
  have ne: "\<forall>b\<in>set ?hs. b \<noteq> []" using hs(2) by (auto simp: list_all_iff digit_run_def)
  have "split_re (concat gs) = Some (concat gs, [])"
    using assms(2) dr by (simp add: split_contract_def)
  moreover have "group_loop ?ivs 0 (rev (concat gs)) [] = Some (join_with '','' ?hs)"
    using group_loop_blocks [OF pos, of 0 "rev (concat gs)" "[]"]
    unfolding bs join_blocks_join [OF ne] .
  moreover have "concat gs \<noteq> []" using dr by (auto simp only: digit_run_def)
  ultimately have "format_result split_re (concat gs) ?ivs = Some (rev (join_with '','' ?hs))"
    using format_bare dr pos(1) by metis
  then show ?thesis
    unfolding pre ivs bare by (simp add: rev_join_with gs(4) rev_map comp_def)
qed

theorem grouping_roundtrip_witness:
  "format_result plain_split (fst (preprocess plain_find ''2,00,000''))
     (the (snd (preprocess plain_find ''2,00,000''))) = Some ''2,00,000''"
  by (rule grouping_roundtrip [OF plain_find_contract plain_split_contract]) code_simp+

end
