(* ===== verification/MathEval.thy ===== *)
theory MathEval
  imports Comma
begin

text \<open>
  Inline arithmetic, \<open>core/src/engine/math/\<close>: \<open>tokenize\<close>, the recursive descent parser that
  evaluates while it parses, \<open>is_single_operand\<close> and the driver \<open>evaluate\<close>.

  The floating point type is a parameter \<open>'f\<close> with its operations in the record \<open>f64_ops\<close> (the
  arithmetic of \<open>f64\<close>, \<open>str::parse::<f64>\<close> and \<open>format!("{:.4}")\<close>); no law of it is assumed.  The
  parser's pair of a token slice and a position is the list of the tokens from that position on:
  the code only reads \<open>tokens[*pos]\<close> under a bounds check and increments \<open>pos\<close>.  The mutually
  recursive functions carry a fuel; \<open>fuel_for\<close> is enough on every token list, as proved below, so
  \<open>Out_Of_Fuel\<close> is never seen and the code's termination is proved with it.
\<close>

section \<open>Tokens\<close>

record 'f f64_ops =
  f_add :: "'f \<Rightarrow> 'f \<Rightarrow> 'f"
  f_sub :: "'f \<Rightarrow> 'f \<Rightarrow> 'f"
  f_mul :: "'f \<Rightarrow> 'f \<Rightarrow> 'f"
  f_div :: "'f \<Rightarrow> 'f \<Rightarrow> 'f"
  f_rem :: "'f \<Rightarrow> 'f \<Rightarrow> 'f"
  f_neg :: "'f \<Rightarrow> 'f"
  f_powf :: "'f \<Rightarrow> 'f \<Rightarrow> 'f"
  f_sqrt :: "'f \<Rightarrow> 'f"
  f_abs :: "'f \<Rightarrow> 'f"
  f_floor :: "'f \<Rightarrow> 'f"
  f_ceil :: "'f \<Rightarrow> 'f"
  f_round :: "'f \<Rightarrow> 'f"
  f_pi :: 'f
  f_e :: 'f
  f_parse :: "string \<Rightarrow> 'f option"
  f_format4 :: "'f \<Rightarrow> string"

datatype 'f token = Number 'f | Plus | Minus | Star | Slash | Percent | Caret
  | OpenParen | CloseParen | Ident string

type_synonym 'f tokens = "('f token \<times> bool) list"

fun operator_token :: "char \<Rightarrow> 'f token option" where
  "operator_token c =
     (if c = CHR ''+'' then Some Plus else if c = CHR ''-'' then Some Minus
      else if c = CHR ''*'' then Some Star else if c = CHR ''/'' then Some Slash
      else if c = CHR ''%'' then Some Percent else if c = CHR ''^'' then Some Caret
      else if c = CHR ''('' then Some OpenParen else if c = CHR '')'' then Some CloseParen
      else None)"

text \<open>The inner loop over the characters of a number: the consumed text and what is left.\<close>

definition take_exponent :: "string \<Rightarrow> string \<times> string" where
  "take_exponent cs =
     (let (sign, rest) = (case cs of
            [] \<Rightarrow> ([], [])
          | c # cs' \<Rightarrow> if c = CHR ''+'' \<or> c = CHR ''-'' then ([c], cs') else ([], c # cs'))
      in (sign @ takeWhile is_ascii_digit rest, dropWhile is_ascii_digit rest))"

lemma length_take_exponent: "length (snd (take_exponent cs)) \<le> length cs"
  by (auto simp: take_exponent_def length_dropWhile_le le_Suc_eq split: list.splits)

function take_number :: "string \<Rightarrow> string \<times> string" where
  "take_number [] = ([], [])"
| "take_number (c # cs) =
     (if is_ascii_digit c \<or> c = CHR ''.'' then
        (let (num, rest) = take_number cs in (c # num, rest))
      else if c = CHR ''e'' \<or> c = CHR ''E'' then
        (let (num, rest) = take_number (snd (take_exponent cs))
         in (c # fst (take_exponent cs) @ num, rest))
      else ([], c # cs))"
  by pat_completeness auto
termination
  by (relation "measure length") (auto simp: less_Suc_eq_le length_take_exponent)

definition word_token :: "'f f64_ops \<Rightarrow> string \<Rightarrow> 'f token" where
  "word_token ops ident =
     (let name = str_to_lowercase ident in
      if name = ''pi'' then Number (f_pi ops)
      else if name = ''e'' then Number (f_e ops)
      else Ident name)"

lemma length_take_number: "length (snd (take_number cs)) \<le> length cs"
proof (induction cs rule: take_number.induct)
  case (2 c cs)
  then show ?case using length_take_exponent [of cs]
    by (auto simp: case_prod_beta Let_def)
qed simp

lemma length_take_number_lt:
  "is_ascii_digit c \<or> c = CHR ''.'' \<Longrightarrow> length (snd (take_number (c # cs))) \<le> length cs"
  using length_take_number [of cs] by (simp add: case_prod_beta Let_def)

function tokenize_loop :: "'f f64_ops \<Rightarrow> string \<Rightarrow> bool \<Rightarrow> 'f tokens option" where
  "tokenize_loop ops [] whitespace_pending = Some []"
| "tokenize_loop ops (c # cs) whitespace_pending =
     (if c \<in> {CHR '' '', CHR 0x09, CHR 0x0D, CHR 0x0A} then tokenize_loop ops cs True
      else case operator_token c of
        Some t \<Rightarrow> map_option (Cons (t, whitespace_pending)) (tokenize_loop ops cs False)
      | None \<Rightarrow>
          if is_alphabetic c then
            map_option (Cons (word_token ops (takeWhile is_alphabetic (c # cs)), whitespace_pending))
              (tokenize_loop ops (dropWhile is_alphabetic (c # cs)) False)
          else if is_ascii_digit c \<or> c = CHR ''.'' then
            (case f_parse ops (fst (take_number (c # cs))) of
               None \<Rightarrow> None
             | Some num \<Rightarrow> map_option (Cons (Number num, whitespace_pending))
                             (tokenize_loop ops (snd (take_number (c # cs))) False))
          else None)"
  by pat_completeness auto
termination
  by (relation "measure (\<lambda>(ops, cs, w). length cs)")
    (simp_all add: length_take_number_lt less_Suc_eq_le length_dropWhile_le del: take_number.simps)

definition tokenize :: "'f f64_ops \<Rightarrow> string \<Rightarrow> 'f tokens option" where
  "tokenize ops expr =
     (case tokenize_loop ops expr False of
        None \<Rightarrow> None
      | Some tokens \<Rightarrow> if tokens = [] then None else Some tokens)"

section \<open>The parser\<close>

datatype 'a outcome = Out_Of_Fuel | Failed | Parsed 'a

fun and_then :: "'a outcome \<Rightarrow> ('a \<Rightarrow> 'b outcome) \<Rightarrow> 'b outcome" where
  "and_then Out_Of_Fuel f = Out_Of_Fuel"
| "and_then Failed f = Failed"
| "and_then (Parsed x) f = f x"

text \<open>The tokens that start an implicit multiplication: no whitespace in front of them.\<close>

fun adjacent :: "'f tokens \<Rightarrow> bool" where
  "adjacent ((OpenParen, False) # _) = True"
| "adjacent ((Number _, False) # _) = True"
| "adjacent ((Ident _, False) # _) = True"
| "adjacent _ = False"

definition apply_function :: "'f f64_ops \<Rightarrow> string \<Rightarrow> 'f \<Rightarrow> 'f option" where
  "apply_function ops name arg =
     (if name = ''sqrt'' then Some (f_sqrt ops arg) else if name = ''abs'' then Some (f_abs ops arg)
      else if name = ''floor'' then Some (f_floor ops arg)
      else if name = ''ceil'' then Some (f_ceil ops arg)
      else if name = ''round'' then Some (f_round ops arg) else None)"

definition tok_at :: "'f tokens \<Rightarrow> 'f token option" where
  "tok_at ts = (case ts of [] \<Rightarrow> None | (t, _) # _ \<Rightarrow> Some t)"

definition add_sub_op :: "'f f64_ops \<Rightarrow> 'f tokens \<Rightarrow> ('f \<Rightarrow> 'f \<Rightarrow> 'f) option" where
  "add_sub_op ops ts =
     (case tok_at ts of Some Plus \<Rightarrow> Some (f_add ops) | Some Minus \<Rightarrow> Some (f_sub ops) | _ \<Rightarrow> None)"

definition mul_div_op :: "'f f64_ops \<Rightarrow> 'f tokens \<Rightarrow> ('f \<Rightarrow> 'f \<Rightarrow> 'f) option" where
  "mul_div_op ops ts =
     (case tok_at ts of Some Star \<Rightarrow> Some (f_mul ops) | Some Slash \<Rightarrow> Some (f_div ops)
      | Some Percent \<Rightarrow> Some (f_rem ops) | _ \<Rightarrow> None)"

definition close_paren :: "('f \<Rightarrow> 'f option) \<Rightarrow> 'f \<times> 'f tokens \<Rightarrow> ('f \<times> 'f tokens) outcome" where
  "close_paren f st =
     (if tok_at (snd st) = Some CloseParen
      then (case f (fst st) of None \<Rightarrow> Failed | Some u \<Rightarrow> Parsed (u, tl (snd st)))
      else Failed)"

function parse_add_sub :: "'f f64_ops \<Rightarrow> nat \<Rightarrow> 'f tokens \<Rightarrow> ('f \<times> 'f tokens) outcome"
  and add_sub_loop :: "'f f64_ops \<Rightarrow> nat \<Rightarrow> 'f \<times> 'f tokens \<Rightarrow> ('f \<times> 'f tokens) outcome"
  and parse_mul_div :: "'f f64_ops \<Rightarrow> nat \<Rightarrow> 'f tokens \<Rightarrow> ('f \<times> 'f tokens) outcome"
  and mul_div_loop :: "'f f64_ops \<Rightarrow> nat \<Rightarrow> 'f \<times> 'f tokens \<Rightarrow> ('f \<times> 'f tokens) outcome"
  and parse_unary :: "'f f64_ops \<Rightarrow> nat \<Rightarrow> 'f tokens \<Rightarrow> ('f \<times> 'f tokens) outcome"
  and parse_exponent :: "'f f64_ops \<Rightarrow> nat \<Rightarrow> 'f tokens \<Rightarrow> ('f \<times> 'f tokens) outcome"
  and parse_primary :: "'f f64_ops \<Rightarrow> nat \<Rightarrow> 'f tokens \<Rightarrow> ('f \<times> 'f tokens) outcome"
where
  "parse_add_sub ops 0 ts = Out_Of_Fuel"
| "parse_add_sub ops (Suc n) ts = and_then (parse_mul_div ops n ts) (\<lambda>st. add_sub_loop ops n st)"
| "add_sub_loop ops 0 st = Out_Of_Fuel"
| "add_sub_loop ops (Suc n) st =
     (case add_sub_op ops (snd st) of
        Some f \<Rightarrow> and_then (parse_mul_div ops n (tl (snd st)))
                    (\<lambda>right. add_sub_loop ops n (f (fst st) (fst right), snd right))
      | None \<Rightarrow> Parsed st)"
| "parse_mul_div ops 0 ts = Out_Of_Fuel"
| "parse_mul_div ops (Suc n) ts = and_then (parse_unary ops n ts) (\<lambda>st. mul_div_loop ops n st)"
| "mul_div_loop ops 0 st = Out_Of_Fuel"
| "mul_div_loop ops (Suc n) st =
     (case mul_div_op ops (snd st) of
        Some f \<Rightarrow> and_then (parse_unary ops n (tl (snd st)))
                    (\<lambda>right. mul_div_loop ops n (f (fst st) (fst right), snd right))
      | None \<Rightarrow>
          if adjacent (snd st) then
            and_then (parse_unary ops n (snd st))
              (\<lambda>right. mul_div_loop ops n (f_mul ops (fst st) (fst right), snd right))
          else Parsed st)"
| "parse_unary ops 0 ts = Out_Of_Fuel"
| "parse_unary ops (Suc n) ts =
     (if tok_at ts = Some Minus then
        and_then (parse_unary ops n (tl ts)) (\<lambda>st. Parsed (f_neg ops (fst st), snd st))
      else if tok_at ts = Some Plus then parse_unary ops n (tl ts)
      else parse_exponent ops n ts)"
| "parse_exponent ops 0 ts = Out_Of_Fuel"
| "parse_exponent ops (Suc n) ts =
     and_then (parse_primary ops n ts)
       (\<lambda>left.
          if tok_at (snd left) = Some Caret then
            and_then (parse_exponent ops n (tl (snd left)))
              (\<lambda>right. Parsed (f_powf ops (fst left) (fst right), snd right))
          else Parsed left)"
| "parse_primary ops 0 ts = Out_Of_Fuel"
| "parse_primary ops (Suc n) ts =
     (case tok_at ts of
        Some (Number v) \<Rightarrow> Parsed (v, tl ts)
      | Some (Ident name) \<Rightarrow>
          if tok_at (tl ts) = Some OpenParen then
            and_then (parse_add_sub ops n (tl (tl ts))) (\<lambda>st. close_paren (apply_function ops name) st)
          else Failed
      | Some OpenParen \<Rightarrow> and_then (parse_add_sub ops n (tl ts)) (\<lambda>st. close_paren Some st)
      | _ \<Rightarrow> Failed)"
  by pat_completeness auto
termination
  by size_change

definition fuel_for :: "'f tokens \<Rightarrow> nat" where
  "fuel_for ts = 7 * length ts + 7"

definition max_expression_tokens :: nat where
  "max_expression_tokens = 512"

definition parse_expression :: "'f f64_ops \<Rightarrow> 'f tokens \<Rightarrow> 'f outcome" where
  "parse_expression ops tokens =
     (if max_expression_tokens < length tokens then Failed
      else and_then (parse_add_sub ops (fuel_for tokens) tokens)
             (\<lambda>(res, rest). if rest = [] then Parsed res else Failed))"

definition trim_end_matches :: "char \<Rightarrow> string \<Rightarrow> string" where
  "trim_end_matches c s = rev (dropWhile (\<lambda>d. d = c) (rev s))"

definition is_operand :: "'f token \<Rightarrow> bool" where
  "is_operand t \<longleftrightarrow> (case t of Number _ \<Rightarrow> True | Ident _ \<Rightarrow> True | _ \<Rightarrow> False)"

fun is_single_operand_loop :: "'f tokens \<Rightarrow> nat \<Rightarrow> bool" where
  "is_single_operand_loop [] operand_count = (operand_count = 1)"
| "is_single_operand_loop ((t, _) # ts) operand_count =
     (if is_operand t then is_single_operand_loop ts (operand_count + 1)
      else if t = OpenParen \<or> t = CloseParen then is_single_operand_loop ts operand_count
      else False)"

definition is_single_operand :: "'f tokens \<Rightarrow> bool" where
  "is_single_operand tokens = is_single_operand_loop tokens 0"

section \<open>Every call consumes tokens, and the fuel is enough\<close>

lemmas op_defs = tok_at_def add_sub_op_def mul_div_op_def

lemma and_then_Parsed: "and_then x f = Parsed y \<longleftrightarrow> (\<exists>z. x = Parsed z \<and> f z = Parsed y)"
  by (cases x) auto

lemma and_then_fuel: "and_then x f \<noteq> Out_Of_Fuel \<longleftrightarrow>
    x \<noteq> Out_Of_Fuel \<and> (\<forall>z. x = Parsed z \<longrightarrow> f z \<noteq> Out_Of_Fuel)"
  by (cases x) auto

lemma tok_at_Some: "tok_at ts = Some t \<Longrightarrow> ts \<noteq> [] \<and> length (tl ts) < length ts"
  by (cases ts) (auto simp: tok_at_def)

lemma op_nonempty:
  "add_sub_op ops ts = Some f \<Longrightarrow> length (tl ts) < length ts"
  "mul_div_op ops ts = Some f \<Longrightarrow> length (tl ts) < length ts"
  by (cases ts; simp add: op_defs)+

lemma close_paren_Parsed:
  "close_paren f st = Parsed st' \<Longrightarrow> \<exists>u. f (fst st) = Some u \<and> tok_at (snd st) = Some CloseParen \<and>
     st' = (u, tl (snd st))"
  by (auto simp: close_paren_def split: if_splits option.splits)

lemma close_paren_fuel [simp]: "close_paren f st \<noteq> Out_Of_Fuel"
  by (auto simp: close_paren_def split: option.splits)

definition consumes :: "'f tokens \<Rightarrow> ('f \<times> 'f tokens) outcome \<Rightarrow> bool" where
  "consumes ts r \<longleftrightarrow> (\<forall>st. r = Parsed st \<longrightarrow> length (snd st) < length ts)"

definition shrinks :: "'f tokens \<Rightarrow> ('f \<times> 'f tokens) outcome \<Rightarrow> bool" where
  "shrinks ts r \<longleftrightarrow> (\<forall>st. r = Parsed st \<longrightarrow> length (snd st) \<le> length ts)"

lemma consumption:
  fixes ops :: "'f f64_ops"
  shows "(\<forall>ts. consumes ts (parse_add_sub ops n ts)) \<and> (\<forall>st. shrinks (snd st) (add_sub_loop ops n st)) \<and>
    (\<forall>ts. consumes ts (parse_mul_div ops n ts)) \<and> (\<forall>st. shrinks (snd st) (mul_div_loop ops n st)) \<and>
    (\<forall>ts. consumes ts (parse_unary ops n ts)) \<and> (\<forall>ts. consumes ts (parse_exponent ops n ts)) \<and>
    (\<forall>ts. consumes ts (parse_primary ops n ts))"
proof (induction n)
  case 0
  show ?case by (simp add: consumes_def shrinks_def)
next
  case (Suc n)
  then have add: "\<And>ts v r. parse_add_sub ops n ts = Parsed (v, r) \<Longrightarrow> length r < length ts"
    and addl: "\<And>st v r. add_sub_loop ops n st = Parsed (v, r) \<Longrightarrow> length r \<le> length (snd st)"
    and mul: "\<And>ts v r. parse_mul_div ops n ts = Parsed (v, r) \<Longrightarrow> length r < length ts"
    and mull: "\<And>st v r. mul_div_loop ops n st = Parsed (v, r) \<Longrightarrow> length r \<le> length (snd st)"
    and un: "\<And>ts v r. parse_unary ops n ts = Parsed (v, r) \<Longrightarrow> length r < length ts"
    and ex: "\<And>ts v r. parse_exponent ops n ts = Parsed (v, r) \<Longrightarrow> length r < length ts"
    and pr: "\<And>ts v r. parse_primary ops n ts = Parsed (v, r) \<Longrightarrow> length r < length ts"
    unfolding consumes_def shrinks_def by fastforce+
  have "consumes ts (parse_add_sub ops (Suc n) ts)" for ts
    by (auto simp: consumes_def and_then_Parsed dest!: mul addl)
  moreover have "shrinks (snd st) (add_sub_loop ops (Suc n) st)" for st
    by (auto simp: shrinks_def and_then_Parsed split: option.splits dest!: mul addl op_nonempty)
  moreover have "consumes ts (parse_mul_div ops (Suc n) ts)" for ts
    by (auto simp: consumes_def and_then_Parsed dest!: un mull)
  moreover have "shrinks (snd st) (mul_div_loop ops (Suc n) st)" for st
    by (auto simp: shrinks_def and_then_Parsed split: option.splits if_splits dest!: un mull op_nonempty)
  moreover have "consumes ts (parse_unary ops (Suc n) ts)" for ts
    by (auto simp: consumes_def and_then_Parsed split: if_splits dest!: un ex tok_at_Some)
  moreover have "consumes ts (parse_exponent ops (Suc n) ts)" for ts
    by (auto simp: consumes_def and_then_Parsed split: if_splits dest!: pr ex tok_at_Some)
  moreover have "consumes ts (parse_primary ops (Suc n) ts)" for ts
    by (auto simp: consumes_def and_then_Parsed split: option.splits token.splits if_splits
        dest!: add close_paren_Parsed tok_at_Some)
  ultimately show ?case by blast
qed

lemma consumes_unary: "parse_unary ops n ts = Parsed st \<Longrightarrow> length (snd st) < length ts"
  and consumes_mul: "parse_mul_div ops n ts = Parsed st \<Longrightarrow> length (snd st) < length ts"
  and consumes_primary: "parse_primary ops n ts = Parsed st \<Longrightarrow> length (snd st) < length ts"
  using consumption [of ops n] unfolding consumes_def by blast+

lemma enough_fuel:
  fixes ops :: "'f f64_ops"
  shows "(\<forall>ts. 7 * length ts + 6 \<le> n \<longrightarrow> parse_add_sub ops n ts \<noteq> Out_Of_Fuel) \<and>
    (\<forall>st. 7 * length (snd st) + 6 \<le> n \<longrightarrow> add_sub_loop ops n st \<noteq> Out_Of_Fuel) \<and>
    (\<forall>ts. 7 * length ts + 5 \<le> n \<longrightarrow> parse_mul_div ops n ts \<noteq> Out_Of_Fuel) \<and>
    (\<forall>st. 7 * length (snd st) + 5 \<le> n \<longrightarrow> mul_div_loop ops n st \<noteq> Out_Of_Fuel) \<and>
    (\<forall>ts. 7 * length ts + 3 \<le> n \<longrightarrow> parse_unary ops n ts \<noteq> Out_Of_Fuel) \<and>
    (\<forall>ts. 7 * length ts + 2 \<le> n \<longrightarrow> parse_exponent ops n ts \<noteq> Out_Of_Fuel) \<and>
    (\<forall>ts. 7 * length ts + 1 \<le> n \<longrightarrow> parse_primary ops n ts \<noteq> Out_Of_Fuel)"
proof (induction n)
  case (Suc n)
  then have add: "\<And>ts. 7 * length ts + 6 \<le> n \<Longrightarrow> parse_add_sub ops n ts \<noteq> Out_Of_Fuel"
    and addl: "\<And>st. 7 * length (snd st) + 6 \<le> n \<Longrightarrow> add_sub_loop ops n st \<noteq> Out_Of_Fuel"
    and mul: "\<And>ts. 7 * length ts + 5 \<le> n \<Longrightarrow> parse_mul_div ops n ts \<noteq> Out_Of_Fuel"
    and mull: "\<And>st. 7 * length (snd st) + 5 \<le> n \<Longrightarrow> mul_div_loop ops n st \<noteq> Out_Of_Fuel"
    and un: "\<And>ts. 7 * length ts + 3 \<le> n \<Longrightarrow> parse_unary ops n ts \<noteq> Out_Of_Fuel"
    and ex: "\<And>ts. 7 * length ts + 2 \<le> n \<Longrightarrow> parse_exponent ops n ts \<noteq> Out_Of_Fuel"
    and pr: "\<And>ts. 7 * length ts + 1 \<le> n \<Longrightarrow> parse_primary ops n ts \<noteq> Out_Of_Fuel"
    by blast+
  have "parse_add_sub ops (Suc n) ts \<noteq> Out_Of_Fuel" if "7 * length ts + 6 \<le> Suc n" for ts
    using that by (auto simp: and_then_fuel intro!: mul addl dest!: consumes_mul)
  moreover have "add_sub_loop ops (Suc n) st \<noteq> Out_Of_Fuel" if "7 * length (snd st) + 6 \<le> Suc n" for st
    using that by (auto simp: and_then_fuel intro!: mul addl dest!: consumes_mul op_nonempty split: option.splits)
  moreover have "parse_mul_div ops (Suc n) ts \<noteq> Out_Of_Fuel" if "7 * length ts + 5 \<le> Suc n" for ts
    using that by (auto simp: and_then_fuel intro!: un mull dest!: consumes_unary)
  moreover have "mul_div_loop ops (Suc n) st \<noteq> Out_Of_Fuel" if "7 * length (snd st) + 5 \<le> Suc n" for st
    using that by (auto simp: and_then_fuel intro!: un mull dest!: consumes_unary op_nonempty split: option.splits)
  moreover have "parse_unary ops (Suc n) ts \<noteq> Out_Of_Fuel" if "7 * length ts + 3 \<le> Suc n" for ts
    using that by (cases ts) (auto simp: and_then_fuel intro!: un ex simp: tok_at_def)
  moreover have "parse_exponent ops (Suc n) ts \<noteq> Out_Of_Fuel" if "7 * length ts + 2 \<le> Suc n" for ts
    using that by (auto simp: and_then_fuel intro!: pr ex dest!: tok_at_Some consumes_primary)
  moreover have "parse_primary ops (Suc n) ts \<noteq> Out_Of_Fuel" if "7 * length ts + 1 \<le> Suc n" for ts
    using that by (auto simp: and_then_fuel intro!: add simp: tok_at_def split: option.splits token.splits list.splits)
  ultimately show ?case by blast
qed simp

section \<open>The parser without fuel\<close>

lemma more_fuel:
  fixes ops :: "'f f64_ops"
  shows "(\<forall>ts. parse_add_sub ops n ts \<noteq> Out_Of_Fuel \<longrightarrow> parse_add_sub ops (Suc n) ts = parse_add_sub ops n ts) \<and>
    (\<forall>st. add_sub_loop ops n st \<noteq> Out_Of_Fuel \<longrightarrow> add_sub_loop ops (Suc n) st = add_sub_loop ops n st) \<and>
    (\<forall>ts. parse_mul_div ops n ts \<noteq> Out_Of_Fuel \<longrightarrow> parse_mul_div ops (Suc n) ts = parse_mul_div ops n ts) \<and>
    (\<forall>st. mul_div_loop ops n st \<noteq> Out_Of_Fuel \<longrightarrow> mul_div_loop ops (Suc n) st = mul_div_loop ops n st) \<and>
    (\<forall>ts. parse_unary ops n ts \<noteq> Out_Of_Fuel \<longrightarrow> parse_unary ops (Suc n) ts = parse_unary ops n ts) \<and>
    (\<forall>ts. parse_exponent ops n ts \<noteq> Out_Of_Fuel \<longrightarrow> parse_exponent ops (Suc n) ts = parse_exponent ops n ts) \<and>
    (\<forall>ts. parse_primary ops n ts \<noteq> Out_Of_Fuel \<longrightarrow> parse_primary ops (Suc n) ts = parse_primary ops n ts)"
proof (induction n)
  case (Suc n)
  then have ih: "\<And>ts. parse_add_sub ops n ts \<noteq> Out_Of_Fuel \<Longrightarrow> parse_add_sub ops (Suc n) ts = parse_add_sub ops n ts"
    "\<And>st. add_sub_loop ops n st \<noteq> Out_Of_Fuel \<Longrightarrow> add_sub_loop ops (Suc n) st = add_sub_loop ops n st"
    "\<And>ts. parse_mul_div ops n ts \<noteq> Out_Of_Fuel \<Longrightarrow> parse_mul_div ops (Suc n) ts = parse_mul_div ops n ts"
    "\<And>st. mul_div_loop ops n st \<noteq> Out_Of_Fuel \<Longrightarrow> mul_div_loop ops (Suc n) st = mul_div_loop ops n st"
    "\<And>ts. parse_unary ops n ts \<noteq> Out_Of_Fuel \<Longrightarrow> parse_unary ops (Suc n) ts = parse_unary ops n ts"
    "\<And>ts. parse_exponent ops n ts \<noteq> Out_Of_Fuel \<Longrightarrow> parse_exponent ops (Suc n) ts = parse_exponent ops n ts"
    "\<And>ts. parse_primary ops n ts \<noteq> Out_Of_Fuel \<Longrightarrow> parse_primary ops (Suc n) ts = parse_primary ops n ts"
    by blast+
  have cong: "and_then x f = and_then y g"
    if "and_then y g \<noteq> Out_Of_Fuel" and "y \<noteq> Out_Of_Fuel \<Longrightarrow> x = y"
      and "\<And>z. g z \<noteq> Out_Of_Fuel \<Longrightarrow> f z = g z" for x y :: "('f \<times> 'f tokens) outcome" and f g :: "_ \<Rightarrow> ('f \<times> 'f tokens) outcome"
    using that by (cases y) auto
  have "parse_add_sub ops (Suc (Suc n)) ts = parse_add_sub ops (Suc n) ts"
    if "parse_add_sub ops (Suc n) ts \<noteq> Out_Of_Fuel" for ts
    using that unfolding parse_add_sub.simps(2) [of ops "Suc n" ts] parse_add_sub.simps(2) [of ops n ts]
    by (rule cong) (erule ih)+
  moreover have "add_sub_loop ops (Suc (Suc n)) st = add_sub_loop ops (Suc n) st"
    if "add_sub_loop ops (Suc n) st \<noteq> Out_Of_Fuel" for st
    using that unfolding add_sub_loop.simps(2) [of ops "Suc n" st] add_sub_loop.simps(2) [of ops n st]
    by (cases "add_sub_op ops (snd st)") (simp, simp only: option.case, rule cong, assumption, (erule ih)+)
  moreover have "parse_mul_div ops (Suc (Suc n)) ts = parse_mul_div ops (Suc n) ts"
    if "parse_mul_div ops (Suc n) ts \<noteq> Out_Of_Fuel" for ts
    using that unfolding parse_mul_div.simps(2) [of ops "Suc n" ts] parse_mul_div.simps(2) [of ops n ts]
    by (rule cong) (erule ih)+
  moreover have "mul_div_loop ops (Suc (Suc n)) st = mul_div_loop ops (Suc n) st"
    if "mul_div_loop ops (Suc n) st \<noteq> Out_Of_Fuel" for st
    using that unfolding mul_div_loop.simps(2) [of ops "Suc n" st] mul_div_loop.simps(2) [of ops n st]
    by (cases "mul_div_op ops (snd st)"; cases "adjacent (snd st)")
      (simp_all only: option.case if_True if_False simp_thms; rule cong; (assumption | erule ih))+
  moreover have "parse_unary ops (Suc (Suc n)) ts = parse_unary ops (Suc n) ts"
    if "parse_unary ops (Suc n) ts \<noteq> Out_Of_Fuel" for ts
    using that unfolding parse_unary.simps(2) [of ops "Suc n" ts] parse_unary.simps(2) [of ops n ts]
    by (cases "tok_at ts = Some Minus"; cases "tok_at ts = Some Plus")
      (simp_all only: if_True if_False simp_thms option.inject token.distinct ih,
        (rule cong; (assumption | erule ih | rule refl))+)
  moreover have "parse_exponent ops (Suc (Suc n)) ts = parse_exponent ops (Suc n) ts"
    if "parse_exponent ops (Suc n) ts \<noteq> Out_Of_Fuel" for ts
    using that unfolding parse_exponent.simps(2) [of ops "Suc n" ts] parse_exponent.simps(2) [of ops n ts]
  proof (rule cong)
    fix z :: "'f \<times> 'f tokens"
    let ?k = "\<lambda>n. if tok_at (snd z) = Some Caret
      then and_then (parse_exponent ops n (tl (snd z))) (\<lambda>right. Parsed (f_powf ops (fst z) (fst right), snd right))
      else Parsed z"
    assume "?k n \<noteq> Out_Of_Fuel"
    then show "?k (Suc n) = ?k n"
      by (cases "tok_at (snd z) = Some Caret") (simp_all add: and_then_fuel ih del: parse_exponent.simps)
  qed (erule ih)
  moreover have "parse_primary ops (Suc (Suc n)) ts = parse_primary ops (Suc n) ts"
    if "parse_primary ops (Suc n) ts \<noteq> Out_Of_Fuel" for ts
    using that unfolding parse_primary.simps(2) [of ops "Suc n" ts] parse_primary.simps(2) [of ops n ts]
    by (auto simp: and_then_fuel ih simp del: parse_add_sub.simps split: option.splits token.splits)
  ultimately show ?case by blast
qed simp

lemma more_fuel_le:
  assumes "n \<le> m"
  shows "parse_add_sub ops n ts \<noteq> Out_Of_Fuel \<Longrightarrow> parse_add_sub ops m ts = parse_add_sub ops n ts"
    and "add_sub_loop ops n st \<noteq> Out_Of_Fuel \<Longrightarrow> add_sub_loop ops m st = add_sub_loop ops n st"
    and "parse_mul_div ops n ts \<noteq> Out_Of_Fuel \<Longrightarrow> parse_mul_div ops m ts = parse_mul_div ops n ts"
    and "mul_div_loop ops n st \<noteq> Out_Of_Fuel \<Longrightarrow> mul_div_loop ops m st = mul_div_loop ops n st"
    and "parse_unary ops n ts \<noteq> Out_Of_Fuel \<Longrightarrow> parse_unary ops m ts = parse_unary ops n ts"
    and "parse_exponent ops n ts \<noteq> Out_Of_Fuel \<Longrightarrow> parse_exponent ops m ts = parse_exponent ops n ts"
    and "parse_primary ops n ts \<noteq> Out_Of_Fuel \<Longrightarrow> parse_primary ops m ts = parse_primary ops n ts"
  using assms
  by (induction rule: dec_induct; use more_fuel [of ops] in metis)+

text \<open>The functions at a fuel that is enough for their tokens, and the equations of the code.\<close>

abbreviation run_add :: "'f f64_ops \<Rightarrow> 'f tokens \<Rightarrow> ('f \<times> 'f tokens) outcome" where
  "run_add ops ts \<equiv> parse_add_sub ops (fuel_for ts) ts"
abbreviation run_addl :: "'f f64_ops \<Rightarrow> 'f \<times> 'f tokens \<Rightarrow> ('f \<times> 'f tokens) outcome" where
  "run_addl ops st \<equiv> add_sub_loop ops (fuel_for (snd st)) st"
abbreviation run_mul :: "'f f64_ops \<Rightarrow> 'f tokens \<Rightarrow> ('f \<times> 'f tokens) outcome" where
  "run_mul ops ts \<equiv> parse_mul_div ops (fuel_for ts) ts"
abbreviation run_mull :: "'f f64_ops \<Rightarrow> 'f \<times> 'f tokens \<Rightarrow> ('f \<times> 'f tokens) outcome" where
  "run_mull ops st \<equiv> mul_div_loop ops (fuel_for (snd st)) st"
abbreviation run_unary :: "'f f64_ops \<Rightarrow> 'f tokens \<Rightarrow> ('f \<times> 'f tokens) outcome" where
  "run_unary ops ts \<equiv> parse_unary ops (fuel_for ts) ts"
abbreviation run_exp :: "'f f64_ops \<Rightarrow> 'f tokens \<Rightarrow> ('f \<times> 'f tokens) outcome" where
  "run_exp ops ts \<equiv> parse_exponent ops (fuel_for ts) ts"
abbreviation run_prim :: "'f f64_ops \<Rightarrow> 'f tokens \<Rightarrow> ('f \<times> 'f tokens) outcome" where
  "run_prim ops ts \<equiv> parse_primary ops (fuel_for ts) ts"

lemma parser_returns:
  "7 * length ts + 6 \<le> n \<Longrightarrow> parse_add_sub ops n ts \<noteq> Out_Of_Fuel"
  "7 * length (snd st) + 6 \<le> n \<Longrightarrow> add_sub_loop ops n st \<noteq> Out_Of_Fuel"
  "7 * length ts + 5 \<le> n \<Longrightarrow> parse_mul_div ops n ts \<noteq> Out_Of_Fuel"
  "7 * length (snd st) + 5 \<le> n \<Longrightarrow> mul_div_loop ops n st \<noteq> Out_Of_Fuel"
  "7 * length ts + 3 \<le> n \<Longrightarrow> parse_unary ops n ts \<noteq> Out_Of_Fuel"
  "7 * length ts + 2 \<le> n \<Longrightarrow> parse_exponent ops n ts \<noteq> Out_Of_Fuel"
  "7 * length ts + 1 \<le> n \<Longrightarrow> parse_primary ops n ts \<noteq> Out_Of_Fuel"
  using enough_fuel [of n ops] by blast+

lemma same_fuel:
  assumes "x n \<noteq> Out_Of_Fuel" and "x m \<noteq> Out_Of_Fuel"
    and "\<And>n m. n \<le> m \<Longrightarrow> x n \<noteq> Out_Of_Fuel \<Longrightarrow> x m = x n"
  shows "x n = x (m :: nat)"
  using assms by (metis nat_le_linear)

lemma any_fuel:
  "7 * length ts + 6 \<le> n \<Longrightarrow> parse_add_sub ops n ts = run_add ops ts"
  "7 * length (snd st) + 6 \<le> n \<Longrightarrow> add_sub_loop ops n st = run_addl ops st"
  "7 * length ts + 5 \<le> n \<Longrightarrow> parse_mul_div ops n ts = run_mul ops ts"
  "7 * length (snd st) + 5 \<le> n \<Longrightarrow> mul_div_loop ops n st = run_mull ops st"
  "7 * length ts + 3 \<le> n \<Longrightarrow> parse_unary ops n ts = run_unary ops ts"
  "7 * length ts + 2 \<le> n \<Longrightarrow> parse_exponent ops n ts = run_exp ops ts"
  "7 * length ts + 1 \<le> n \<Longrightarrow> parse_primary ops n ts = run_prim ops ts"
  subgoal by (rule same_fuel [where x = "\<lambda>n. parse_add_sub ops n ts"]) (simp_all add: parser_returns fuel_for_def more_fuel_le)
  subgoal by (rule same_fuel [where x = "\<lambda>n. add_sub_loop ops n st"]) (simp_all add: parser_returns fuel_for_def more_fuel_le)
  subgoal by (rule same_fuel [where x = "\<lambda>n. parse_mul_div ops n ts"]) (simp_all add: parser_returns fuel_for_def more_fuel_le)
  subgoal by (rule same_fuel [where x = "\<lambda>n. mul_div_loop ops n st"]) (simp_all add: parser_returns fuel_for_def more_fuel_le)
  subgoal by (rule same_fuel [where x = "\<lambda>n. parse_unary ops n ts"]) (simp_all add: parser_returns fuel_for_def more_fuel_le)
  subgoal by (rule same_fuel [where x = "\<lambda>n. parse_exponent ops n ts"]) (simp_all add: parser_returns fuel_for_def more_fuel_le)
  subgoal by (rule same_fuel [where x = "\<lambda>n. parse_primary ops n ts"]) (simp_all add: parser_returns fuel_for_def more_fuel_le)
  done

lemma and_then_cong:
  "x = y \<Longrightarrow> (\<And>z. y = Parsed z \<Longrightarrow> f z = g z) \<Longrightarrow> and_then x f = and_then y g"
  by (cases y) auto

lemma fuel_for_Suc: "fuel_for ts = Suc (7 * length ts + 6)"
  by (simp add: fuel_for_def)

lemma run_eqs:
  "run_add ops ts = and_then (run_mul ops ts) (run_addl ops)"
  "run_addl ops st =
     (case add_sub_op ops (snd st) of
        Some f \<Rightarrow> and_then (run_mul ops (tl (snd st)))
                    (\<lambda>right. run_addl ops (f (fst st) (fst right), snd right))
      | None \<Rightarrow> Parsed st)"
  "run_mul ops ts = and_then (run_unary ops ts) (run_mull ops)"
  "run_mull ops st =
     (case mul_div_op ops (snd st) of
        Some f \<Rightarrow> and_then (run_unary ops (tl (snd st)))
                    (\<lambda>right. run_mull ops (f (fst st) (fst right), snd right))
      | None \<Rightarrow>
          if adjacent (snd st) then
            and_then (run_unary ops (snd st))
              (\<lambda>right. run_mull ops (f_mul ops (fst st) (fst right), snd right))
          else Parsed st)"
  "run_unary ops ts =
     (if tok_at ts = Some Minus then
        and_then (run_unary ops (tl ts)) (\<lambda>st. Parsed (f_neg ops (fst st), snd st))
      else if tok_at ts = Some Plus then run_unary ops (tl ts)
      else run_exp ops ts)"
  "run_exp ops ts =
     and_then (run_prim ops ts)
       (\<lambda>left.
          if tok_at (snd left) = Some Caret then
            and_then (run_exp ops (tl (snd left)))
              (\<lambda>right. Parsed (f_powf ops (fst left) (fst right), snd right))
          else Parsed left)"
  "run_prim ops ts =
     (case tok_at ts of
        Some (Number v) \<Rightarrow> Parsed (v, tl ts)
      | Some (Ident name) \<Rightarrow>
          if tok_at (tl ts) = Some OpenParen then
            and_then (run_add ops (tl (tl ts))) (\<lambda>st. close_paren (apply_function ops name) st)
          else Failed
      | Some OpenParen \<Rightarrow> and_then (run_add ops (tl ts)) (\<lambda>st. close_paren Some st)
      | _ \<Rightarrow> Failed)"
  subgoal
    by (subst fuel_for_Suc, subst parse_add_sub.simps(2))
      (intro and_then_cong, auto simp: any_fuel dest!: consumes_mul)
  subgoal
    by (subst fuel_for_Suc, subst add_sub_loop.simps(2))
      (auto intro!: and_then_cong simp: any_fuel dest!: consumes_mul op_nonempty split: option.split)
  subgoal
    by (subst fuel_for_Suc, subst parse_mul_div.simps(2))
      (intro and_then_cong, auto simp: any_fuel dest!: consumes_unary)
  subgoal
    by (subst fuel_for_Suc, subst mul_div_loop.simps(2))
      (auto intro!: and_then_cong simp: any_fuel dest!: consumes_unary op_nonempty split: option.split)
  subgoal
    by (subst fuel_for_Suc, subst parse_unary.simps(2))
      (auto intro!: and_then_cong simp: any_fuel)
  subgoal
    by (subst fuel_for_Suc, subst parse_exponent.simps(2))
      (auto intro!: and_then_cong simp: any_fuel dest!: consumes_primary)
  subgoal
    by (subst fuel_for_Suc, subst parse_primary.simps(2))
      (auto intro!: and_then_cong simp: any_fuel split: option.split token.split)
  done

section \<open>The grammar, with the value of every phrase\<close>

text \<open>\<open>g_add ops ts v r\<close>: the tokens \<open>ts\<close> are an expression of value \<open>v\<close> followed by \<open>r\<close>.  Sums and
  products group to the left, powers to the right, signs bind weaker than powers.\<close>

inductive g_add :: "'f f64_ops \<Rightarrow> 'f tokens \<Rightarrow> 'f \<Rightarrow> 'f tokens \<Rightarrow> bool"
  and g_mul :: "'f f64_ops \<Rightarrow> 'f tokens \<Rightarrow> 'f \<Rightarrow> 'f tokens \<Rightarrow> bool"
  and g_unary :: "'f f64_ops \<Rightarrow> 'f tokens \<Rightarrow> 'f \<Rightarrow> 'f tokens \<Rightarrow> bool"
  and g_exp :: "'f f64_ops \<Rightarrow> 'f tokens \<Rightarrow> 'f \<Rightarrow> 'f tokens \<Rightarrow> bool"
  and g_prim :: "'f f64_ops \<Rightarrow> 'f tokens \<Rightarrow> 'f \<Rightarrow> 'f tokens \<Rightarrow> bool"
  for ops :: "'f f64_ops"
where
  add_one: "g_mul ops ts v r \<Longrightarrow> g_add ops ts v r"
| add_op: "g_add ops ts l (t # ts1) \<Longrightarrow> add_sub_op ops (t # ts1) = Some f \<Longrightarrow> g_mul ops ts1 v r \<Longrightarrow>
    g_add ops ts (f l v) r"
| mul_one: "g_unary ops ts v r \<Longrightarrow> g_mul ops ts v r"
| mul_op: "g_mul ops ts l (t # ts1) \<Longrightarrow> mul_div_op ops (t # ts1) = Some f \<Longrightarrow> g_unary ops ts1 v r \<Longrightarrow>
    g_mul ops ts (f l v) r"
| mul_adjacent: "g_mul ops ts l ts1 \<Longrightarrow> adjacent ts1 \<Longrightarrow> g_unary ops ts1 v r \<Longrightarrow>
    g_mul ops ts (f_mul ops l v) r"
| unary_minus: "g_unary ops ts v r \<Longrightarrow> g_unary ops ((Minus, w) # ts) (f_neg ops v) r"
| unary_plus: "g_unary ops ts v r \<Longrightarrow> g_unary ops ((Plus, w) # ts) v r"
| unary_none: "g_exp ops ts v r \<Longrightarrow> g_unary ops ts v r"
| exp_one: "g_prim ops ts v r \<Longrightarrow> g_exp ops ts v r"
| exp_caret: "g_prim ops ts b ((Caret, w) # ts1) \<Longrightarrow> g_exp ops ts1 v r \<Longrightarrow>
    g_exp ops ts (f_powf ops b v) r"
| prim_number: "g_prim ops ((Number v, w) # r) v r"
| prim_paren: "g_add ops ts v ((CloseParen, w2) # r) \<Longrightarrow> g_prim ops ((OpenParen, w1) # ts) v r"
| prim_call: "g_add ops ts v ((CloseParen, w3) # r) \<Longrightarrow> apply_function ops name v = Some u \<Longrightarrow>
    g_prim ops ((Ident name, w1) # (OpenParen, w2) # ts) u r"

lemma tok_at_Cons: "tok_at ts = Some t \<longleftrightarrow> (\<exists>w ts'. ts = (t, w) # ts')"
  by (cases ts) (auto simp: tok_at_def)

lemma tl_op: "add_sub_op ops ts = Some f \<Longrightarrow> \<exists>t ts1. ts = t # ts1"
  "mul_div_op ops ts = Some f \<Longrightarrow> \<exists>t ts1. ts = t # ts1"
  by (cases ts; simp add: op_defs)+

lemma parser_sound:
  fixes ops :: "'f f64_ops"
  shows "(\<forall>ts st. parse_add_sub ops n ts = Parsed st \<longrightarrow> g_add ops ts (fst st) (snd st)) \<and>
    (\<forall>ts s st. add_sub_loop ops n s = Parsed st \<longrightarrow> g_add ops ts (fst s) (snd s) \<longrightarrow>
       g_add ops ts (fst st) (snd st)) \<and>
    (\<forall>ts st. parse_mul_div ops n ts = Parsed st \<longrightarrow> g_mul ops ts (fst st) (snd st)) \<and>
    (\<forall>ts s st. mul_div_loop ops n s = Parsed st \<longrightarrow> g_mul ops ts (fst s) (snd s) \<longrightarrow>
       g_mul ops ts (fst st) (snd st)) \<and>
    (\<forall>ts st. parse_unary ops n ts = Parsed st \<longrightarrow> g_unary ops ts (fst st) (snd st)) \<and>
    (\<forall>ts st. parse_exponent ops n ts = Parsed st \<longrightarrow> g_exp ops ts (fst st) (snd st)) \<and>
    (\<forall>ts st. parse_primary ops n ts = Parsed st \<longrightarrow> g_prim ops ts (fst st) (snd st))"
proof (induction n)
  case (Suc n)
  then have add: "\<And>ts st. parse_add_sub ops n ts = Parsed st \<Longrightarrow> g_add ops ts (fst st) (snd st)"
    and addl: "\<And>ts s st. add_sub_loop ops n s = Parsed st \<Longrightarrow> g_add ops ts (fst s) (snd s) \<Longrightarrow>
       g_add ops ts (fst st) (snd st)"
    and mul: "\<And>ts st. parse_mul_div ops n ts = Parsed st \<Longrightarrow> g_mul ops ts (fst st) (snd st)"
    and mull: "\<And>ts s st. mul_div_loop ops n s = Parsed st \<Longrightarrow> g_mul ops ts (fst s) (snd s) \<Longrightarrow>
       g_mul ops ts (fst st) (snd st)"
    and un: "\<And>ts st. parse_unary ops n ts = Parsed st \<Longrightarrow> g_unary ops ts (fst st) (snd st)"
    and ex: "\<And>ts st. parse_exponent ops n ts = Parsed st \<Longrightarrow> g_exp ops ts (fst st) (snd st)"
    and pr: "\<And>ts st. parse_primary ops n ts = Parsed st \<Longrightarrow> g_prim ops ts (fst st) (snd st)"
    by blast+
  have "g_add ops ts (fst st) (snd st)" if "parse_add_sub ops (Suc n) ts = Parsed st" for ts st
    using that unfolding parse_add_sub.simps and_then_Parsed by (blast intro: addl add_one mul)
  moreover have "g_add ops ts (fst st) (snd st)"
    if p: "add_sub_loop ops (Suc n) s = Parsed st" and g: "g_add ops ts (fst s) (snd s)" for ts s st
  proof (cases "add_sub_op ops (snd s)")
    case (Some f)
    then obtain t ts1 where ts1: "snd s = t # ts1" by (auto dest: tl_op)
    from p Some ts1 obtain right where "parse_mul_div ops n ts1 = Parsed right"
      and l: "add_sub_loop ops n (f (fst s) (fst right), snd right) = Parsed st"
      by (auto simp: and_then_Parsed)
    then have "g_add ops ts (f (fst s) (fst right)) (snd right)"
      using g Some ts1 by (auto intro: add_op dest: mul)
    with addl [OF l] show ?thesis by simp
  qed (use p g in simp)
  moreover have "g_mul ops ts (fst st) (snd st)" if "parse_mul_div ops (Suc n) ts = Parsed st" for ts st
    using that unfolding parse_mul_div.simps and_then_Parsed by (blast intro: mull mul_one un)
  moreover have "g_mul ops ts (fst st) (snd st)"
    if p: "mul_div_loop ops (Suc n) s = Parsed st" and g: "g_mul ops ts (fst s) (snd s)" for ts s st
  proof (cases "mul_div_op ops (snd s)")
    case (Some f)
    then obtain t ts1 where ts1: "snd s = t # ts1" by (auto dest: tl_op)
    from p Some ts1 obtain right where "parse_unary ops n ts1 = Parsed right"
      and l: "mul_div_loop ops n (f (fst s) (fst right), snd right) = Parsed st"
      by (auto simp: and_then_Parsed)
    then have "g_mul ops ts (f (fst s) (fst right)) (snd right)"
      using g Some ts1 by (auto intro: mul_op dest: un)
    with mull [OF l] show ?thesis by simp
  next
    case None
    show ?thesis
    proof (cases "adjacent (snd s)")
      case True
      from p None True obtain right where "parse_unary ops n (snd s) = Parsed right"
        and l: "mul_div_loop ops n (f_mul ops (fst s) (fst right), snd right) = Parsed st"
        by (auto simp: and_then_Parsed)
      then have "g_mul ops ts (f_mul ops (fst s) (fst right)) (snd right)"
        using g True by (auto intro: mul_adjacent dest: un)
      with mull [OF l] show ?thesis by simp
    qed (use p g None in simp)
  qed
  moreover have "g_unary ops ts (fst st) (snd st)" if "parse_unary ops (Suc n) ts = Parsed st" for ts st
    using that
    by (auto simp: and_then_Parsed tok_at_Cons split: if_splits
        intro: unary_minus unary_plus unary_none dest!: un ex)
  moreover have "g_exp ops ts (fst st) (snd st)" if p: "parse_exponent ops (Suc n) ts = Parsed st" for ts st
  proof -
    from p obtain left where l: "parse_primary ops n ts = Parsed left"
      and k: "(if tok_at (snd left) = Some Caret then
            and_then (parse_exponent ops n (tl (snd left)))
              (\<lambda>right. Parsed (f_powf ops (fst left) (fst right), snd right))
          else Parsed left) = Parsed st"
      unfolding parse_exponent.simps and_then_Parsed by blast
    note pl = pr [OF l]
    show ?thesis
    proof (cases "tok_at (snd left) = Some Caret")
      case True
      then obtain w ts1 where ts1: "snd left = (Caret, w) # ts1" by (auto simp: tok_at_Cons)
      from k True ts1 obtain right where "parse_exponent ops n ts1 = Parsed right"
        and "st = (f_powf ops (fst left) (fst right), snd right)"
        by (auto simp: and_then_Parsed)
      then show ?thesis using exp_caret pl [unfolded ts1] ex by fastforce
    qed (use k pl exp_one in auto)
  qed
  moreover have "g_prim ops ts (fst st) (snd st)" if p: "parse_primary ops (Suc n) ts = Parsed st" for ts st
  proof -
    have paren: "\<exists>w r v. g_add ops ts1 v ((CloseParen, w) # r) \<and> f v = Some (fst st) \<and> snd st = r"
      if "and_then (parse_add_sub ops n ts1) (\<lambda>st. close_paren f st) = Parsed st" for f ts1
    proof -
      from that obtain z where z: "parse_add_sub ops n ts1 = Parsed z" "close_paren f z = Parsed st"
        by (auto simp: and_then_Parsed)
      from close_paren_Parsed [OF z(2)] obtain u where "f (fst z) = Some u"
        "tok_at (snd z) = Some CloseParen" "st = (u, tl (snd z))" by blast
      moreover from this(2) obtain w r where "snd z = (CloseParen, w) # r" by (auto simp: tok_at_Cons)
      ultimately show ?thesis using add [OF z(1)] by fastforce
    qed
    from p consider (num) v where "tok_at ts = Some (Number v)" "st = (v, tl ts)"
      | (call) name where "tok_at ts = Some (Ident name)" "tok_at (tl ts) = Some OpenParen"
          "and_then (parse_add_sub ops n (tl (tl ts))) (\<lambda>st. close_paren (apply_function ops name) st) = Parsed st"
      | (open_paren) "tok_at ts = Some OpenParen"
          "and_then (parse_add_sub ops n (tl ts)) (\<lambda>st. close_paren Some st) = Parsed st"
      by (auto split: option.splits token.splits if_splits)
    then show ?thesis
    proof cases
      case num
      then show ?thesis by (auto simp: tok_at_Cons intro: prim_number)
    next
      case call
      from paren [OF call(3)] call(1,2) show ?thesis
        by (cases ts; cases "tl ts") (auto simp: tok_at_def intro: prim_call)
    next
      case open_paren
      from paren [OF open_paren(2)] open_paren(1) show ?thesis
        by (cases ts) (auto simp: tok_at_def intro: prim_paren)
    qed
  qed
  ultimately show ?case by blast
qed simp

section \<open>The parser finds every phrase of the grammar\<close>

definition not_caret :: "'f tokens \<Rightarrow> bool" where
  "not_caret ts \<longleftrightarrow> tok_at ts \<noteq> Some Caret"

definition ends_product :: "'f f64_ops \<Rightarrow> 'f tokens \<Rightarrow> bool" where
  "ends_product ops ts \<longleftrightarrow> not_caret ts \<and> mul_div_op ops ts = None \<and> \<not> adjacent ts"

lemma ends_product_op: "add_sub_op ops (t # ts) = Some f \<Longrightarrow> ends_product ops (t # ts)"
  by (cases t; cases "fst t") (auto simp: ends_product_def not_caret_def op_defs)

lemma ends_product_close [simp]: "ends_product ops ((CloseParen, w) # ts)"
  by (simp add: ends_product_def not_caret_def op_defs)

lemma not_caret_op: "mul_div_op ops (t # ts) = Some f \<Longrightarrow> not_caret (t # ts)"
  by (cases t; cases "fst t") (auto simp: not_caret_def op_defs)

lemma not_caret_adjacent: "adjacent ts \<Longrightarrow> not_caret ts \<and> mul_div_op ops ts = None"
  by (cases ts rule: adjacent.cases) (auto simp: not_caret_def op_defs)

lemma not_op_close [simp]: "add_sub_op ops ((CloseParen, w) # ts) = None"
  by (simp add: op_defs)

lemma parser_complete:
  fixes ops :: "'f f64_ops"
  shows "g_add ops ts v r \<Longrightarrow> ends_product ops r \<longrightarrow> run_add ops ts = run_addl ops (v, r)"
    "g_mul ops ts v r \<Longrightarrow> not_caret r \<longrightarrow> run_mul ops ts = run_mull ops (v, r)"
    "g_unary ops ts v r \<Longrightarrow> not_caret r \<longrightarrow> run_unary ops ts = Parsed (v, r)"
    "g_exp ops ts v r \<Longrightarrow> (not_caret r \<longrightarrow> run_exp ops ts = Parsed (v, r)) \<and>
       tok_at ts \<noteq> Some Minus \<and> tok_at ts \<noteq> Some Plus"
    "g_prim ops ts v r \<Longrightarrow> run_prim ops ts = Parsed (v, r) \<and>
       tok_at ts \<noteq> Some Minus \<and> tok_at ts \<noteq> Some Plus"
proof (induction rule: g_add_g_mul_g_unary_g_exp_g_prim.inducts)
  case (add_one ts v r)
  then show ?case
    by (subst run_eqs) (auto simp: ends_product_def run_eqs(4) [of ops "(v, r)", simplified])
next
  case (add_op ts l t ts1 f v r)
  have "run_mul ops ts1 = Parsed (v, r)" if "ends_product ops r"
    using add_op that by (auto simp: ends_product_def run_eqs(4) [of ops "(v, r)", simplified])
  then show ?case
    using add_op ends_product_op [OF add_op(3)] by (simp add: run_eqs(2) [of ops "(l, t # ts1)", simplified])
next
  case (mul_one ts v r)
  then show ?case by (subst run_eqs) simp
next
  case (mul_op ts l t ts1 f v r)
  then show ?case
    using not_caret_op [OF mul_op(3)] by (simp add: run_eqs(4) [of ops "(l, t # ts1)", simplified])
next
  case (mul_adjacent ts l ts1 v r)
  then have adj: "adjacent ts1" by simp
  from mul_adjacent show ?case
    using not_caret_adjacent [OF adj, of ops]
    by (simp add: run_eqs(4) [of ops "(l, ts1)", simplified])
next
  case (unary_minus ts v r w)
  then show ?case by (subst run_eqs) (simp add: tok_at_def)
next
  case (unary_plus ts v r w)
  then show ?case by (subst run_eqs) (simp add: tok_at_def)
next
  case (unary_none ts v r)
  then show ?case by (subst run_eqs) simp
next
  case (exp_one ts v r)
  then show ?case by (subst run_eqs) (simp add: not_caret_def)
next
  case (exp_caret ts b w ts1 v r)
  then show ?case by (subst run_eqs) (simp add: tok_at_def)
next
  case (prim_number v w r)
  then show ?case by (subst run_eqs) (simp add: tok_at_def)
next
  case (prim_paren ts v w2 r w1)
  then show ?case
    by (subst run_eqs) (simp add: tok_at_def run_eqs(2) [of ops "(v, (CloseParen, w2) # r)", simplified] close_paren_def)
next
  case (prim_call ts v w3 r name u w1 w2)
  then show ?case
    by (subst run_eqs) (simp add: tok_at_def run_eqs(2) [of ops "(v, (CloseParen, w3) # r)", simplified] close_paren_def)
qed

lemma parse_add_iff_grammar:
  "(\<exists>r. run_add ops ts = Parsed (v, r) \<and> r = []) \<longleftrightarrow> g_add ops ts v []"
proof
  assume "\<exists>r. run_add ops ts = Parsed (v, r) \<and> r = []"
  then show "g_add ops ts v []" using parser_sound [of ops "fuel_for ts"] by fastforce
next
  assume "g_add ops ts v []"
  moreover have "ends_product ops []" by (simp add: ends_product_def not_caret_def op_defs)
  ultimately have "run_add ops ts = run_addl ops (v, [])" 
    using parser_complete(1) [of ops ts v "[]"] by simp
  also have "\<dots> = Parsed (v, [])" by (subst run_eqs) (simp add: op_defs)
  finally show "\<exists>r. run_add ops ts = Parsed (v, r) \<and> r = []" by simp
qed

lemma parse_expression_iff:
  "parse_expression ops tokens = Parsed v \<longleftrightarrow>
     length tokens \<le> max_expression_tokens \<and> g_add ops tokens v []"
  using parse_add_iff_grammar [of ops tokens v]
  by (auto simp: parse_expression_def and_then_Parsed split: if_splits)

lemma parse_expression_returns: "parse_expression ops tokens \<noteq> Out_Of_Fuel"
proof -
  have "run_add ops tokens \<noteq> Out_Of_Fuel" by (rule parser_returns) (simp add: fuel_for_def)
  then show ?thesis by (auto simp: parse_expression_def and_then_fuel)
qed

text \<open>C22: The recursive descent parser is exactly the grammar: it always returns, and it returns the
  value \<open>v\<close> precisely when the tokens are within the budget and form one whole expression whose
  value is \<open>v\<close>, with sums and products grouped to the left, powers to the right, and an implicit
  product only where no space separates the operands.\<close>

theorem parser_is_grammar:
  "parse_expression ops tokens \<noteq> Out_Of_Fuel \<and>
   (parse_expression ops tokens = Parsed v \<longleftrightarrow>
      length tokens \<le> max_expression_tokens \<and> g_add ops tokens v [])"
  by (intro conjI parse_expression_returns parse_expression_iff)

text \<open>The grammar is unambiguous: an expression has one value, whichever way it is derived.\<close>

theorem grammar_unambiguous:
  assumes "g_add ops tokens v []" and "g_add ops tokens w []"
  shows "v = w"
  using assms parse_add_iff_grammar [of ops tokens v] parse_add_iff_grammar [of ops tokens w] by auto

text \<open>Natural numbers as a stand-in for the floating point type.\<close>

definition nat_ops :: "nat f64_ops" where
  "nat_ops = \<lparr>f_add = (+), f_sub = (-), f_mul = (*), f_div = (div), f_rem = (mod), f_neg = id,
     f_powf = (\<lambda>a b. a ^ b), f_sqrt = id, f_abs = id, f_floor = id, f_ceil = id, f_round = id,
     f_pi = 3, f_e = 2,
     f_parse = (\<lambda>s. if list_all is_ascii_digit s then Some (digits_val s) else None),
     f_format4 = (\<lambda>n. show_nat n @ ''.0000'')\<rparr>"

theorem grammar_unambiguous_witness:
  "\<exists>!v. g_add nat_ops [(Number 2, False), (Star, False), (Number 3, False)] v []"
proof -
  have "parse_expression nat_ops [(Number 2, False), (Star, False), (Number 3, False)] = Parsed 6"
    by code_simp
  then have "g_add nat_ops [(Number 2, False), (Star, False), (Number 3, False)] 6 []"
    by (rule parse_expression_iff [THEN iffD1, THEN conjunct2])
  moreover from this have "v = 6"
    if "g_add nat_ops [(Number 2, False), (Star, False), (Number 3, False)] v []" for v
    using that by (rule grammar_unambiguous [rotated])
  ultimately show ?thesis by (rule ex1I)
qed

section \<open>The driver\<close>

fun single_operand_count :: "'f tokens \<Rightarrow> nat" where
  "single_operand_count [] = 0"
| "single_operand_count ((t, _) # ts) = (if is_operand t then 1 else 0) + single_operand_count ts"

lemma is_single_operand_loop_spec:
  "is_single_operand_loop ts k \<longleftrightarrow>
     (\<forall>(t, w)\<in>set ts. is_operand t \<or> t = OpenParen \<or> t = CloseParen) \<and> k + single_operand_count ts = 1"
  by (induction ts k rule: is_single_operand_loop.induct) auto

definition has_math_feature :: "string \<Rightarrow> bool" where
  "has_math_feature s \<longleftrightarrow> list_ex (\<lambda>c. is_ascii_digit c \<or> c \<in> set ''piPIeE'') s"

definition trim_decimal :: "string \<Rightarrow> string" where
  "trim_decimal formatted =
     (let trimmed = trim_end_matches CHR ''.'' (trim_end_matches CHR ''0'' formatted)
      in if trimmed = [] then ''0'' else trimmed)"

text \<open>\<open>evaluate\<close>: \<open>Failed\<close> is the code's \<open>None\<close>.\<close>

definition evaluate :: "'f f64_ops \<Rightarrow> (string \<Rightarrow> string option) \<Rightarrow>
    (string \<Rightarrow> (string \<times> string) option) \<Rightarrow> string \<Rightarrow> string outcome" where
  "evaluate ops find_re split_re expr =
     (let (cleaned, intervals) = preprocess find_re expr in
      if \<not> has_math_feature cleaned then Failed
      else case tokenize ops cleaned of
        None \<Rightarrow> Failed
      | Some tokens \<Rightarrow>
          if is_single_operand tokens then Failed
          else and_then (parse_expression ops tokens)
            (\<lambda>result.
               let final_res = trim_decimal (f_format4 ops result) in
               case intervals of
                 None \<Rightarrow> Parsed final_res
               | Some ivs \<Rightarrow>
                   (case format_result split_re final_res ivs of
                      None \<Rightarrow> Out_Of_Fuel | Some out \<Rightarrow> Parsed out)))"

text \<open>C35: \<open>evaluate\<close> always returns.  When it gives a text, the input without its commas is a
  grammatical expression that is more than one bare operand, and the text is the value of that
  expression, printed to four decimals and trimmed, with nothing but commas added.\<close>

theorem evaluate_prints_the_value:
  assumes "find_contract find_re" and "split_contract split_re"
  shows "evaluate ops find_re split_re expr \<noteq> Out_Of_Fuel \<and>
    (\<forall>out. evaluate ops find_re split_re expr = Parsed out \<longrightarrow>
       (\<exists>tokens v. tokenize ops (remove_commas expr) = Some tokens \<and> \<not> is_single_operand tokens \<and>
          g_add ops tokens v [] \<and>
          remove_commas out = remove_commas (trim_decimal (f_format4 ops v))))"
proof -
  obtain ivs where pre: "preprocess find_re expr = (remove_commas expr, ivs)"
    and pos: "\<forall>is. ivs = Some is \<longrightarrow> (\<forall>k\<in>set is. 0 < k)"
    using preprocess_reads_grouping_aux [OF assms(1), of expr]
    by (cases "preprocess find_re expr"; cases "find_re expr") (auto simp: remove_commas_def)
  have fmt: "\<exists>out. format_result split_re t is = Some out \<and> remove_commas out = remove_commas t"
    if "ivs = Some is" for t "is"
    using format_result_only_adds_commas [OF assms(2)] pos that by blast
  show ?thesis
  proof (cases "\<not> has_math_feature (remove_commas expr) \<or> tokenize ops (remove_commas expr) = None")
    case True
    then show ?thesis by (auto simp: evaluate_def pre Let_def)
  next
    case False
    then obtain tokens where t: "has_math_feature (remove_commas expr)"
      "tokenize ops (remove_commas expr) = Some tokens" by auto
    show ?thesis
    proof (cases "parse_expression ops tokens")
      case Out_Of_Fuel
      then show ?thesis using parse_expression_returns by blast
    next
      case Failed
      then show ?thesis using t by (simp add: evaluate_def pre Let_def)
    next
      case (Parsed v)
      then have g: "g_add ops tokens v []" by (simp add: parse_expression_iff)
      show ?thesis
      proof (cases ivs)
        case None
        then show ?thesis using t Parsed g by (auto simp: evaluate_def pre Let_def)
      next
        case (Some "is")
        with fmt obtain out where "format_result split_re (trim_decimal (f_format4 ops v)) is = Some out"
          and "remove_commas out = remove_commas (trim_decimal (f_format4 ops v))" by blast
        then show ?thesis using t Parsed g Some by (auto simp: evaluate_def pre Let_def)
      qed
    qed
  qed
qed

theorem evaluate_prints_the_value_witness:
  "\<exists>tokens v. tokenize nat_ops ''1000*2'' = Some tokens \<and> g_add nat_ops tokens v [] \<and>
     remove_commas ''2000'' = remove_commas (trim_decimal (f_format4 nat_ops v))"
proof -
  have "evaluate nat_ops plain_find plain_split ''1000*2'' = Parsed ''2000''" by code_simp
  moreover have "remove_commas ''1000*2'' = ''1000*2''" by code_simp
  ultimately show ?thesis
    using evaluate_prints_the_value [OF plain_find_contract plain_split_contract, of nat_ops "''1000*2''"]
    by auto
qed

text \<open>C37: A bare operand is never a calculation: when the tokens of the input are one number or one
  word with any parentheses around it, \<open>evaluate\<close> answers \<open>None\<close>.\<close>

theorem single_operand_is_not_evaluated:
  assumes "tokenize ops (remove_commas expr) = Some tokens"
    and "\<forall>(t, w)\<in>set tokens. is_operand t \<or> t = OpenParen \<or> t = CloseParen"
    and "single_operand_count tokens = 1"
  shows "evaluate ops find_re split_re expr = Failed"
proof -
  have "is_single_operand tokens" using assms(2,3) by (simp add: is_single_operand_def is_single_operand_loop_spec)
  moreover have "fst (preprocess find_re expr) = remove_commas expr" by (simp add: preprocess_def Let_def)
  ultimately show ?thesis
    using assms(1) by (simp add: evaluate_def case_prod_beta)
qed

theorem single_operand_is_not_evaluated_witness:
  "evaluate nat_ops plain_find plain_split ''((42))'' = Failed"
proof -
  let ?ts = "[(OpenParen, False), (OpenParen, False), (Number 42, False), (CloseParen, False), (CloseParen, False)]"
  have "tokenize nat_ops (remove_commas ''((42))'') = Some ?ts" by code_simp
  from single_operand_is_not_evaluated [OF this] show ?thesis by (simp add: is_operand_def)
qed

section \<open>The size of the token list\<close>

lemma tokenize_loop_length:
  "tokenize_loop ops cs w = Some tokens \<Longrightarrow> length tokens \<le> length cs"
proof (induction ops cs w arbitrary: tokens rule: tokenize_loop.induct)
  case (2 ops c cs w)
  have w: "length (dropWhile is_alphabetic (c # cs)) \<le> length cs" if "is_alphabetic c"
    using that by (simp add: length_dropWhile_le)
  have n: "length (snd (take_number (c # cs))) \<le> length cs" if "is_ascii_digit c \<or> c = CHR ''.''"
    using that by (rule length_take_number_lt)
  consider (space) "c \<in> {CHR '' '', CHR 0x09, CHR 0x0D, CHR 0x0A}"
    | (oper) t where "c \<notin> {CHR '' '', CHR 0x09, CHR 0x0D, CHR 0x0A}" "(operator_token c :: 'a token option) = Some t"
    | (word) "c \<notin> {CHR '' '', CHR 0x09, CHR 0x0D, CHR 0x0A}" "(operator_token c :: 'a token option) = None" "is_alphabetic c"
    | (rest) "c \<notin> {CHR '' '', CHR 0x09, CHR 0x0D, CHR 0x0A}" "(operator_token c :: 'a token option) = None" "\<not> is_alphabetic c"
    by (cases "operator_token c :: 'a token option") blast+
  then show ?case
  proof cases
    case space
    with 2(1) [OF space] 2(5) show ?thesis by (simp only: tokenize_loop.simps if_True) fastforce
  next
    case oper
    with 2(5) obtain ts where "tokenize_loop ops cs False = Some ts" "tokens = (t, w) # ts"
      by (simp only: tokenize_loop.simps if_False option.case) auto
    with 2(4) [OF oper] show ?thesis by simp
  next
    case word
    with 2(5) obtain ts u where "tokenize_loop ops (dropWhile is_alphabetic (c # cs)) False = Some ts"
      "tokens = u # ts"
      by (simp only: tokenize_loop.simps if_False if_True option.case) auto
    with 2(2) [OF word] w [OF word(3)] show ?thesis by fastforce
  next
    case rest
    then have d: "is_ascii_digit c \<or> c = CHR ''.''"
      using 2(5) by (simp only: tokenize_loop.simps if_False option.case) (auto split: if_splits)
    with rest 2(5) obtain v ts u where v: "f_parse ops (fst (take_number (c # cs))) = Some v"
      and "tokenize_loop ops (snd (take_number (c # cs))) False = Some ts" "tokens = u # ts"
      by (simp only: tokenize_loop.simps if_False if_True option.case)
        (auto split: option.splits simp del: take_number.simps)
    with 2(3) [OF rest(1,2,3) d v] n [OF d] show ?thesis by fastforce
  qed
qed simp

text \<open>Tokenizing makes at most one token per character and never an empty list, so no expression
  of up to 512 characters is refused for its size.\<close>

theorem tokens_within_budget:
  assumes "tokenize ops expr = Some tokens"
  shows "tokens \<noteq> [] \<and> length tokens \<le> length expr \<and>
    (length expr \<le> max_expression_tokens \<longrightarrow>
       (parse_expression ops tokens = Failed \<longleftrightarrow> (\<nexists>v. g_add ops tokens v [])))"
proof -
  have t: "tokens \<noteq> []" "tokenize_loop ops expr False = Some tokens"
    using assms by (auto simp: tokenize_def split: option.splits if_splits)
  then have l: "length tokens \<le> length expr" using tokenize_loop_length by blast
  have "parse_expression ops tokens = Failed \<longleftrightarrow> (\<nexists>v. g_add ops tokens v [])"
    if "length expr \<le> max_expression_tokens"
    using parse_expression_iff [of ops tokens] parse_expression_returns [of ops tokens] that l
    by (cases "parse_expression ops tokens") auto
  then show ?thesis using t l by blast
qed

theorem tokens_within_budget_witness:
  "\<not> (\<exists>v. g_add nat_ops [(Number 2, False), (Number 2, True)] v [])"
proof -
  have t: "tokenize nat_ops ''2 2'' = Some [(Number 2, False), (Number 2, True)]" by code_simp
  have "parse_expression nat_ops [(Number 2, False), (Number 2, True)] = Failed" by code_simp
  with tokens_within_budget [OF t] show ?thesis by (simp add: max_expression_tokens_def)
qed

end
