(* ===== verification/ExpansionCatalog.thy ===== *)
theory ExpansionCatalog
  imports Expansion MathEval "HOL-Library.List_Lexorder"
begin

text \<open>
  The word and regex catalogs: the snippet sources of \<open>core/src/engine/source.rs\<close>,
  \<open>ExpansionCatalog\<close> of \<open>catalog/expansion.rs\<close> (loading, prefix completion, lookup and the chain of
  fallbacks) and \<open>RegexCatalog\<close> of \<open>catalog/regex.rs\<close>.

  Natural-language dates, time zones, currencies and units, the template compiler, the compression
  of scripts, the cached settings and the regex crate are fields of \<open>catalog_env\<close> and
  \<open>regex_engine\<close>.  The plan cache memoises a pure function and is not modelled.  A lookup that may
  fetch the window returns the resolver and the fetcher it leaves behind.
\<close>

section \<open>Snippet sources\<close>

type_synonym action_map = "string \<rightharpoonup> trigger_action"

definition memory_get :: "action_map \<Rightarrow> string \<Rightarrow> trigger_action option" where
  "memory_get m keyword = m keyword"

definition memory_load :: "action_map \<Rightarrow> (string \<times> trigger_action) list \<Rightarrow> action_map" where
  "memory_load m actions = foldl (\<lambda>m (k, v). m(k \<mapsto> v)) Map.empty actions"

text \<open>\<open>AdaptiveSource\<close>: \<open>dev\<close> says that the developer override is set, \<open>db\<close> is the database lookup.\<close>

definition adaptive_get :: "bool \<Rightarrow> (string \<Rightarrow> trigger_action option) \<Rightarrow> action_map \<Rightarrow> string \<Rightarrow> trigger_action option" where
  "adaptive_get dev db m keyword =
     (case memory_get m keyword of
        Some a \<Rightarrow> Some a
      | None \<Rightarrow> if dev then db keyword else None)"

definition adaptive_load :: "action_map \<Rightarrow> (string \<times> trigger_action) list \<Rightarrow> action_map" where
  "adaptive_load m actions = memory_load m actions"

locale snippet_source =
  fixes get :: "'s \<Rightarrow> string \<Rightarrow> trigger_action option"
    and load :: "'s \<Rightarrow> (string \<times> trigger_action) list \<Rightarrow> 's"
    and backup :: "string \<Rightarrow> trigger_action option"
  assumes get_load: "get (load s actions) k = or_else (map_of (rev actions) k) (backup k)"
begin

lemma get_loaded:
  assumes "distinct (map fst actions)" and "(k, a) \<in> set actions"
  shows "get (load s actions) k = Some a"
proof -
  have "map_of (rev actions) k = Some a"
    using assms by (simp add: rev_map [symmetric] map_of_eq_Some_iff)
  then show ?thesis by (simp add: get_load)
qed

lemma get_last_wins: "get (load s (actions @ [(k, a)])) k = Some a"
  by (simp add: get_load)

lemma get_forgets: "k \<notin> fst ` set actions \<Longrightarrow> get (load s actions) k = backup k"
proof -
  assume "k \<notin> fst ` set actions"
  then have "map_of (rev actions) k = None" by (simp add: map_of_eq_None_iff)
  then show ?thesis by (simp add: get_load)
qed

lemma load_forgets_state: "get (load s actions) = get (load s' actions)"
  by (simp add: get_load fun_eq_iff)

end

lemma foldl_upd: "foldl (\<lambda>m (k, v). m(k \<mapsto> v)) m0 actions k = or_else (map_of (rev actions) k) (m0 k)"
  by (induction actions rule: rev_induct) auto

interpretation memory: snippet_source memory_get memory_load "\<lambda>_. None"
  by unfold_locales (simp add: memory_get_def memory_load_def foldl_upd)

interpretation adaptive: snippet_source "adaptive_get dev db" adaptive_load "\<lambda>k. if dev then db k else None"
  for dev db
proof unfold_locales
  fix m actions k
  show "adaptive_get dev db (adaptive_load m actions) k =
      or_else (map_of (rev actions) k) (if dev then db k else None)"
    using memory.get_load [of m actions k]
    by (cases "map_of (rev actions) k") (auto simp: adaptive_get_def adaptive_load_def)
qed

section \<open>Triggers for prefix completion\<close>

datatype pre_normalized_trigger = PreNormalized (normalized: string) (original: string)

instantiation pre_normalized_trigger :: linorder
begin

definition less_eq_pre_normalized_trigger :: "pre_normalized_trigger \<Rightarrow> pre_normalized_trigger \<Rightarrow> bool" where
  "less_eq_pre_normalized_trigger a b \<longleftrightarrow>
     normalized a < normalized b \<or> (normalized a = normalized b \<and> original a \<le> original b)"

definition less_pre_normalized_trigger :: "pre_normalized_trigger \<Rightarrow> pre_normalized_trigger \<Rightarrow> bool" where
  "less_pre_normalized_trigger a b \<longleftrightarrow>
     normalized a < normalized b \<or> (normalized a = normalized b \<and> original a < original b)"

instance
proof
  fix a b c :: pre_normalized_trigger
  show "(a < b) = (a \<le> b \<and> \<not> b \<le> a)"
    by (auto simp: less_eq_pre_normalized_trigger_def less_pre_normalized_trigger_def)
  show "a \<le> a" by (simp add: less_eq_pre_normalized_trigger_def)
  show "a \<le> b \<Longrightarrow> b \<le> c \<Longrightarrow> a \<le> c"
    by (auto simp: less_eq_pre_normalized_trigger_def)
  show "a \<le> b \<Longrightarrow> b \<le> a \<Longrightarrow> a = b"
    by (cases a; cases b) (auto simp: less_eq_pre_normalized_trigger_def)
  show "a \<le> b \<or> b \<le> a"
    by (auto simp: less_eq_pre_normalized_trigger_def)
qed

end

definition sort_completion_triggers :: "pre_normalized_trigger list \<Rightarrow> pre_normalized_trigger list" where
  "sort_completion_triggers triggers = remdups_adj (sort triggers)"

definition pre_normalize :: "string \<Rightarrow> pre_normalized_trigger" where
  "pre_normalize trigger = PreNormalized (str_to_lowercase trigger) trigger"

record expansion_catalog =
  ec_source :: action_map
  ec_triggers :: "pre_normalized_trigger list"

definition catalog_new :: expansion_catalog where
  "catalog_new = \<lparr>ec_source = Map.empty, ec_triggers = []\<rparr>"

definition load_actions :: "expansion_catalog \<Rightarrow> (string \<times> trigger_action) list \<Rightarrow> expansion_catalog" where
  "load_actions cat actions =
     \<lparr>ec_source = adaptive_load (ec_source cat) actions,
      ec_triggers = sort_completion_triggers (map (\<lambda>(t, _). pre_normalize t) actions)\<rparr>"

text \<open>\<open>partition_point\<close> on a sorted slice is the length of the prefix that satisfies the predicate.\<close>

definition partition_point :: "('a \<Rightarrow> bool) \<Rightarrow> 'a list \<Rightarrow> nat" where
  "partition_point p xs = length (takeWhile p xs)"

definition matching_triggers :: "expansion_catalog \<Rightarrow> string \<Rightarrow> string list" where
  "matching_triggers cat pre =
     (if pre = [] then []
      else
        (let normalized_prefix = str_to_lowercase pre;
             start_idx = partition_point (\<lambda>e. normalized e < normalized_prefix) (ec_triggers cat)
         in map original
              (takeWhile (\<lambda>e. prefix normalized_prefix (normalized e)) (drop start_idx (ec_triggers cat)))))"

lemma prefix_ge: "prefix p b \<Longrightarrow> p \<le> (b :: string)"
proof (induction p arbitrary: b)
  case (Cons c p)
  then show ?case by (cases b) auto
qed simp

lemma no_prefix_above:
  "p \<le> a \<Longrightarrow> \<not> prefix p a \<Longrightarrow> a \<le> b \<Longrightarrow> \<not> prefix p (b :: string)"
proof (induction p arbitrary: a b)
  case (Cons c p)
  from Cons.prems(1) obtain d as where a: "a = d # as" by (cases a) auto
  from Cons.prems(3) obtain e bs where b: "b = e # bs" unfolding a by (cases b) auto
  show ?case
  proof (cases "c = d \<and> d = e")
    case True
    then show ?thesis using Cons.IH [of as bs] Cons.prems unfolding a b by simp
  next
    case False
    then show ?thesis using Cons.prems unfolding a b by auto
  qed
qed simp

lemma block_is_filter:
  fixes xs :: "'a list" and key :: "'a \<Rightarrow> string"
  assumes "sorted_wrt (\<lambda>x y. key x \<le> key y) xs"
  shows "takeWhile (\<lambda>x. prefix p (key x)) (dropWhile (\<lambda>x. key x < p) xs) = filter (\<lambda>x. prefix p (key x)) xs"
  using assms
proof (induction xs)
  case (Cons x xs)
  show ?case
  proof (cases "key x < p")
    case True
    then have "\<not> prefix p (key x)" using prefix_ge [of p "key x"] by auto
    then show ?thesis using True Cons by simp
  next
    case ge: False
    show ?thesis
    proof (cases "prefix p (key x)")
      case True
      have "dropWhile (\<lambda>y. key y < p) xs = xs"
        using Cons.prems ge by (cases xs) auto
      then show ?thesis using Cons ge True by simp
    next
      case False
      then have "\<forall>y\<in>set xs. \<not> prefix p (key y)"
        using Cons.prems ge no_prefix_above [of p "key x"] by auto
      then show ?thesis using ge False by (simp add: filter_empty_conv)
    qed
  qed
qed simp

lemma sorted_keys: "sorted ts \<Longrightarrow> sorted_wrt (\<lambda>a b. normalized a \<le> normalized b) ts"
  by (rule sorted_wrt_mono_rel) (auto simp: less_eq_pre_normalized_trigger_def)

lemma distinct_remdups_adj_sorted: "sorted xs \<Longrightarrow> distinct (remdups_adj xs)"
  by (induction xs rule: remdups_adj.induct) (auto simp: order.antisym)

lemma sort_completion_triggers_props:
  "sorted (sort_completion_triggers ts)" "distinct (sort_completion_triggers ts)"
  "set (sort_completion_triggers ts) = set ts"
  by (simp_all add: sort_completion_triggers_def distinct_remdups_adj_sorted)

text \<open>C28: Completing a prefix finds exactly the loaded triggers that start with it, ignoring case: each
  once, ordered by their lower-case form and then by their spelling.  The binary search over the
  sorted list misses none of them.\<close>

theorem matching_triggers_spec:
  assumes "pre \<noteq> []"
  shows "set (matching_triggers (load_actions cat actions) pre) =
      {t \<in> fst ` set actions. prefix (str_to_lowercase pre) (str_to_lowercase t)} \<and>
    distinct (matching_triggers (load_actions cat actions) pre) \<and>
    sorted (map pre_normalize (matching_triggers (load_actions cat actions) pre))"
proof -
  let ?ts = "sort_completion_triggers (map (\<lambda>(t, _). pre_normalize t) actions)"
  let ?p = "str_to_lowercase pre"
  have st: "set ?ts = pre_normalize ` fst ` set actions"
    by (auto simp: sort_completion_triggers_props(3) image_image case_prod_beta)
  then have norm: "pre_normalize (original e) = e" if "e \<in> set ?ts" for e
    using that by (auto simp: pre_normalize_def)
  have m: "matching_triggers (load_actions cat actions) pre =
      map original (filter (\<lambda>e. prefix ?p (normalized e)) ?ts)"
    using assms block_is_filter [OF sorted_keys [OF sort_completion_triggers_props(1)], of ?p]
    by (simp add: matching_triggers_def load_actions_def partition_point_def dropWhile_eq_drop [symmetric])
  have back_again: "map pre_normalize (map original (filter q ?ts)) = filter q ?ts" for q
    unfolding map_map by (rule map_idI) (simp add: norm)
  have "sorted (filter (\<lambda>e. prefix ?p (normalized e)) ?ts)"
    using sort_completion_triggers_props(1) by (rule sorted_wrt_filter)
  moreover have "distinct (map original (filter (\<lambda>e. prefix ?p (normalized e)) ?ts))"
  proof -
    have "distinct (map pre_normalize (map original (filter (\<lambda>e. prefix ?p (normalized e)) ?ts)))"
      unfolding back_again by (simp add: sort_completion_triggers_props(2))
    then show ?thesis using distinct_map by blast
  qed
  moreover have "set (map original (filter (\<lambda>e. prefix ?p (normalized e)) ?ts)) =
      {t \<in> fst ` set actions. prefix ?p (str_to_lowercase t)}"
    unfolding set_map set_filter st by (auto simp: pre_normalize_def image_iff) force+
  ultimately show ?thesis unfolding m by (simp only: back_again)
qed

theorem matching_triggers_spec_witness:
  "''Btw'' \<in> set (matching_triggers (load_actions catalog_new
     [(''Btw'', text_action ''by the way''), (''brb'', text_action ''be right back'')]) ''BT'') \<and>
   ''brb'' \<notin> set (matching_triggers (load_actions catalog_new
     [(''Btw'', text_action ''by the way''), (''brb'', text_action ''be right back'')]) ''BT'')"
proof -
  have "str_to_lowercase ''BT'' = ''bt''" "str_to_lowercase ''Btw'' = ''btw''"
    "str_to_lowercase ''brb'' = ''brb''"
    by code_simp+
  moreover have "set (matching_triggers (load_actions catalog_new
      [(''Btw'', text_action ''by the way''), (''brb'', text_action ''be right back'')]) ''BT'') =
    {t \<in> fst ` set [(''Btw'', text_action ''by the way''), (''brb'', text_action ''be right back'')].
       prefix (str_to_lowercase ''BT'') (str_to_lowercase t)}"
    by (rule matching_triggers_spec [THEN conjunct1]) simp
  ultimately show ?thesis by simp
qed

section \<open>Looking up an action\<close>

text \<open>The guard of every lookup: an action without filters runs anywhere, any other needs the window.\<close>

definition allowed_lazy ::
  "trigger_action \<Rightarrow> window_resolver \<Rightarrow> window_fetch \<Rightarrow> bool \<times> window_resolver \<times> window_fetch" where
  "allowed_lazy action window fetch =
     (if \<not> entry_has_app_filters action then (True, window, fetch)
      else (let (w, window', fetch') = resolve_window window fetch
            in (is_app_allowed action w, window', fetch')))"

definition try_action ::
  "(string \<Rightarrow> trigger_action option) \<Rightarrow> string \<Rightarrow> window_resolver \<Rightarrow> window_fetch \<Rightarrow>
   trigger_action option \<times> window_resolver \<times> window_fetch" where
  "try_action get keyword window fetch =
     (case get keyword of
        None \<Rightarrow> (None, window, fetch)
      | Some action \<Rightarrow>
          (let (ok, w, f) = allowed_lazy action window fetch in (if ok then Some action else None, w, f)))"

definition get_raw_action_lazy ::
  "(string \<Rightarrow> trigger_action option) \<Rightarrow> string \<Rightarrow> window_resolver \<Rightarrow> window_fetch \<Rightarrow>
   trigger_action option \<times> window_resolver \<times> window_fetch" where
  "get_raw_action_lazy get keyword window fetch =
     (let (found, window1, fetch1) = try_action get keyword window fetch;
          lower_keyword = str_to_lowercase keyword
      in case found of
           Some action \<Rightarrow> (Some action, window1, fetch1)
         | None \<Rightarrow>
             if lower_keyword \<noteq> keyword then try_action get lower_keyword window1 fetch1
             else (None, window1, fetch1))"

text \<open>The same lookup with the window at hand.\<close>

definition allowed_action ::
  "(string \<Rightarrow> trigger_action option) \<Rightarrow> active_window_info option \<Rightarrow> string \<Rightarrow> trigger_action option" where
  "allowed_action get w keyword =
     (case get keyword of
        None \<Rightarrow> None
      | Some action \<Rightarrow> if is_app_allowed action w then Some action else None)"

definition get_raw_action ::
  "(string \<Rightarrow> trigger_action option) \<Rightarrow> active_window_info option \<Rightarrow> string \<Rightarrow> trigger_action option" where
  "get_raw_action get w keyword =
     or_else (allowed_action get w keyword) (allowed_action get w (str_to_lowercase keyword))"

lemma allowed_lazy_will_see:
  "will_see w window fetch \<Longrightarrow>
   \<exists>window' fetch'. allowed_lazy action window fetch = (is_app_allowed action w, window', fetch') \<and>
     will_see w window' fetch'"
  using resolve_will_see [of w window fetch] unfiltered_allowed [of action w]
  by (auto simp: allowed_lazy_def)

lemma try_action_will_see:
  assumes "will_see w window fetch"
  shows "\<exists>window' fetch'. try_action get keyword window fetch =
      (allowed_action get w keyword, window', fetch') \<and> will_see w window' fetch'"
proof (cases "get keyword")
  case None
  then show ?thesis using assms by (simp add: try_action_def allowed_action_def)
next
  case (Some action)
  then show ?thesis
    using allowed_lazy_will_see [OF assms, of action]
    by (auto simp: try_action_def allowed_action_def)
qed

lemma get_raw_action_lazy_will_see:
  assumes "will_see w window fetch"
  shows "\<exists>window' fetch'. get_raw_action_lazy get keyword window fetch =
      (get_raw_action get w keyword, window', fetch') \<and> will_see w window' fetch'"
proof -
  obtain window1 fetch1 where one: "try_action get keyword window fetch =
      (allowed_action get w keyword, window1, fetch1)" and s1: "will_see w window1 fetch1"
    using try_action_will_see [OF assms] by blast
  obtain window2 fetch2 where two: "try_action get (str_to_lowercase keyword) window1 fetch1 =
      (allowed_action get w (str_to_lowercase keyword), window2, fetch2)" and s2: "will_see w window2 fetch2"
    using try_action_will_see [OF s1] by blast
  show ?thesis
  proof (cases "allowed_action get w keyword")
    case (Some action)
    then show ?thesis using one s1 by (simp add: get_raw_action_lazy_def get_raw_action_def)
  next
    case None
    then show ?thesis
      using one two s1 s2
      by (cases "str_to_lowercase keyword = keyword") (auto simp: get_raw_action_lazy_def get_raw_action_def)
  qed
qed

text \<open>The lookup of a typed keyword is the lookup with the window at hand, whenever the resolver can
  still see that window, and it leaves the resolver able to see it: the spelling as typed is tried
  first, then its lower-case form, each only if the window lets it run.\<close>

theorem raw_lookup_sees_the_window:
  assumes "window = Some w \<or> (window = None \<and> fetch = Some w)"
  shows "fst (get_raw_action_lazy get keyword window fetch) =
      or_else (allowed_action get w keyword) (allowed_action get w (str_to_lowercase keyword)) \<and>
    will_see w (fst (snd (get_raw_action_lazy get keyword window fetch)))
      (snd (snd (get_raw_action_lazy get keyword window fetch)))"
  using get_raw_action_lazy_will_see [of w window fetch get keyword] assms
  by (auto simp: will_see_def get_raw_action_def)

theorem raw_lookup_sees_the_window_witness:
  "fst (get_raw_action_lazy [''sig'' \<mapsto> text_action ''x''\<lparr>ta_only_apps := Some ''code''\<rparr>] ''SIG'' None
     (Some (Some (exec_only ''Code.exe'')))) \<noteq> None"
proof -
  let ?a = "text_action ''x''\<lparr>ta_only_apps := Some ''code''\<rparr>"
  have "is_app_allowed ?a (Some (exec_only ''Code.exe''))" by code_simp
  moreover have "str_to_lowercase ''SIG'' = ''sig''" by code_simp
  ultimately show ?thesis
    using raw_lookup_sees_the_window [of None "Some (exec_only ''Code.exe'')" "Some (Some (exec_only ''Code.exe''))"
      "[''sig'' \<mapsto> ?a]" "''SIG''"]
    by (simp add: allowed_action_def)
qed

section \<open>The regex catalog\<close>

text \<open>The regex crate: whether a pattern compiles, the last match in a text with what is before and
  after it, and the captured groups of a text.\<close>

record regex_engine =
  re_compiles :: "string \<Rightarrow> bool"
  re_last_match :: "string \<Rightarrow> string \<Rightarrow> (string \<times> string \<times> string) option"
  re_captures :: "string \<Rightarrow> string \<Rightarrow> string list"

definition regex_contract :: "regex_engine \<Rightarrow> bool" where
  "regex_contract re \<longleftrightarrow>
     (\<forall>p s b m a. re_last_match re p s = Some (b, m, a) \<longrightarrow> s = b @ m @ a)"

definition max_regex_pattern_bytes :: nat where
  "max_regex_pattern_bytes = 64 * 1024"

definition max_regex_patterns_count :: nat where
  "max_regex_patterns_count = 512"

type_synonym regex_catalog = "(string \<times> trigger_action) list"

fun load_regex_loop :: "regex_catalog \<Rightarrow> (string \<times> trigger_action) list \<Rightarrow> regex_catalog" where
  "load_regex_loop entries [] = entries"
| "load_regex_loop entries ((pattern, action) # rest) =
     (if max_regex_pattern_bytes < str_len pattern then load_regex_loop entries rest
      else
        (let entries1 = entries @ [(pattern, action)] in
         if max_regex_patterns_count \<le> length entries1 then entries1
         else load_regex_loop entries1 rest))"

definition load_regex :: "(string \<times> trigger_action) list \<Rightarrow> regex_catalog" where
  "load_regex actions = load_regex_loop [] actions"

definition regex_hit :: "regex_engine \<Rightarrow> string \<Rightarrow> string \<Rightarrow> string option" where
  "regex_hit re pattern buffer =
     (if \<not> re_compiles re pattern then None
      else case re_last_match re pattern buffer of
        None \<Rightarrow> None
      | Some (b, m, a) \<Rightarrow> if a = [] \<and> m \<noteq> [] then Some m else None)"

fun regex_match_lazy ::
  "regex_engine \<Rightarrow> regex_catalog \<Rightarrow> string \<Rightarrow> window_resolver \<Rightarrow> window_fetch \<Rightarrow>
   (string \<times> trigger_action \<times> string list) option \<times> window_resolver \<times> window_fetch" where
  "regex_match_lazy re [] buffer window fetch = (None, window, fetch)"
| "regex_match_lazy re ((pattern, action) # entries) buffer window fetch =
     (case regex_hit re pattern buffer of
        None \<Rightarrow> regex_match_lazy re entries buffer window fetch
      | Some m \<Rightarrow>
          (let (ok, window', fetch') = allowed_lazy action window fetch in
           if ok then (Some (m, action, re_captures re pattern m), window', fetch')
           else regex_match_lazy re entries buffer window' fetch'))"

definition regex_match_action ::
  "(string \<Rightarrow> active_window_info option) \<Rightarrow> regex_engine \<Rightarrow> regex_catalog \<Rightarrow> string \<Rightarrow> string option \<Rightarrow>
   (string \<times> trigger_action \<times> string list) option" where
  "regex_match_action from_json re cat buffer window =
     fst (regex_match_lazy re cat buffer (from_static from_json window) None)"

lemma load_regex_loop_take:
  "length entries < max_regex_patterns_count \<Longrightarrow>
   load_regex_loop entries actions =
   take max_regex_patterns_count
     (entries @ filter (\<lambda>(p, _). str_len p \<le> max_regex_pattern_bytes) actions)"
proof (induction entries actions rule: load_regex_loop.induct)
  case (2 entries pattern action rest)
  show ?case
  proof (cases "max_regex_pattern_bytes < str_len pattern")
    case False
    show ?thesis
    proof (cases "max_regex_patterns_count \<le> length (entries @ [(pattern, action)])")
      case True
      then have "max_regex_patterns_count - length entries = Suc 0" using 2(3) by simp
      then show ?thesis using True False 2(3) by (simp add: Let_def not_less)
    next
      case full: False
      from 2(2) [OF False refl full] full False show ?thesis by (simp add: Let_def not_less)
    qed
  qed (use 2 in simp)
qed simp

lemma regex_match_will_see:
  "will_see w window fetch \<Longrightarrow>
   \<exists>window' fetch'. regex_match_lazy re entries buffer window fetch =
     (map_option (\<lambda>(p, a). (the (regex_hit re p buffer), a, re_captures re p (the (regex_hit re p buffer))))
        (find (\<lambda>(p, a). regex_hit re p buffer \<noteq> None \<and> is_app_allowed a w) entries), window', fetch') \<and>
     will_see w window' fetch'"
proof (induction re entries buffer window fetch rule: regex_match_lazy.induct)
  case (2 re pattern action entries buffer window fetch)
  obtain window' fetch' where a: "allowed_lazy action window fetch = (is_app_allowed action w, window', fetch')"
    and s: "will_see w window' fetch'"
    using allowed_lazy_will_see [OF 2(3)] by blast
  show ?case
  proof (cases "regex_hit re pattern buffer")
    case None
    then show ?thesis using 2(1) [OF None 2(3)] by auto
  next
    case (Some m)
    show ?thesis
    proof (cases "is_app_allowed action w")
      case True
      then show ?thesis using Some a s by simp
    next
      case False
      then show ?thesis using 2(2) [OF Some refl a [symmetric] refl False s] Some a by auto
    qed
  qed
qed simp

text \<open>The regex catalog keeps the first 512 patterns of at most 64 KiB, in order.  A match answers
  the first kept entry whose pattern compiles and whose last match ends the typed text and is not
  empty, among those the window lets run; the matched text is a non-empty suffix of the typed text.\<close>

theorem regex_catalog_first_suffix_match:
  assumes "regex_contract re" and "window = Some w \<or> (window = None \<and> fetch = Some w)"
  shows "load_regex actions = take 512 (filter (\<lambda>(p, _). str_len p \<le> 65536) actions) \<and>
    (\<forall>m a cs. fst (regex_match_lazy re (load_regex actions) buffer window fetch) = Some (m, a, cs) \<longrightarrow>
       m \<noteq> [] \<and> suffix m buffer \<and> is_app_allowed a w \<and>
       (\<exists>p. find (\<lambda>(p, a). regex_hit re p buffer \<noteq> None \<and> is_app_allowed a w) (load_regex actions) =
          Some (p, a) \<and> regex_hit re p buffer = Some m)) \<and>
    (fst (regex_match_lazy re (load_regex actions) buffer window fetch) = None \<longrightarrow>
       (\<forall>(p, a)\<in>set (load_regex actions). regex_hit re p buffer = None \<or> \<not> is_app_allowed a w))"
proof (intro conjI)
  show "load_regex actions = take 512 (filter (\<lambda>(p, _). str_len p \<le> 65536) actions)"
    using load_regex_loop_take [of "[]" actions]
    by (simp add: load_regex_def max_regex_patterns_count_def max_regex_pattern_bytes_def)
  let ?p = "\<lambda>(p, a). regex_hit re p buffer \<noteq> None \<and> is_app_allowed a w"
  have r: "fst (regex_match_lazy re (load_regex actions) buffer window fetch) =
      map_option (\<lambda>(p, a). (the (regex_hit re p buffer), a, re_captures re p (the (regex_hit re p buffer))))
        (find ?p (load_regex actions))"
    using regex_match_will_see [of w window fetch re "load_regex actions" buffer] assms(2)
    by (auto simp: will_see_def)
  show "\<forall>m a cs. fst (regex_match_lazy re (load_regex actions) buffer window fetch) = Some (m, a, cs) \<longrightarrow>
       m \<noteq> [] \<and> suffix m buffer \<and> is_app_allowed a w \<and>
       (\<exists>p. find ?p (load_regex actions) = Some (p, a) \<and> regex_hit re p buffer = Some m)"
  proof (intro allI impI)
    fix m a cs
    assume "fst (regex_match_lazy re (load_regex actions) buffer window fetch) = Some (m, a, cs)"
    then obtain p where f: "find ?p (load_regex actions) = Some (p, a)" and m: "m = the (regex_hit re p buffer)"
      unfolding r by auto
    from f have "regex_hit re p buffer \<noteq> None \<and> is_app_allowed a w"
      by (auto simp: find_Some_iff)
    moreover from this m have h: "regex_hit re p buffer = Some m" by auto
    then have "m \<noteq> [] \<and> suffix m buffer"
      using assms(1) by (auto simp: regex_hit_def regex_contract_def suffix_def split: if_splits option.splits) blast
    ultimately show "m \<noteq> [] \<and> suffix m buffer \<and> is_app_allowed a w \<and>
       (\<exists>p. find ?p (load_regex actions) = Some (p, a) \<and> regex_hit re p buffer = Some m)"
      using f h by blast
  qed
  show "fst (regex_match_lazy re (load_regex actions) buffer window fetch) = None \<longrightarrow>
       (\<forall>(p, a)\<in>set (load_regex actions). regex_hit re p buffer = None \<or> \<not> is_app_allowed a w)"
    unfolding r by (fastforce simp: find_None_iff)
qed

text \<open>An engine that only finds literal suffixes; it keeps the contract.\<close>

definition literal_engine :: regex_engine where
  "literal_engine = \<lparr>re_compiles = (\<lambda>p. p \<noteq> []),
     re_last_match = (\<lambda>p s. if suffix p s then Some (take (length s - length p) s, p, []) else None),
     re_captures = (\<lambda>p s. [])\<rparr>"

lemma literal_engine_contract: "regex_contract literal_engine"
  by (auto simp: regex_contract_def literal_engine_def suffix_def split: if_splits)

theorem regex_catalog_first_suffix_match_witness:
  "suffix ''thx'' ''ok thx''"
proof -
  have "suffix ''thx'' ''ok thx''" by (simp add: suffix_def)
  then have h: "regex_hit literal_engine ''thx'' ''ok thx'' = Some ''thx''"
    by (simp add: regex_hit_def literal_engine_def)
  have l: "load_regex [(''thx'', text_action ''thanks'')] = [(''thx'', text_action ''thanks'')]"
    by (simp add: load_regex_def max_regex_pattern_bytes_def max_regex_patterns_count_def str_len_def)
  have a: "allowed_lazy (text_action ''thanks'') (Some None) None = (True, Some None, None)"
    by (simp add: allowed_lazy_def entry_has_app_filters_def filter_set_def text_action_def)
  have m: "fst (regex_match_lazy literal_engine (load_regex [(''thx'', text_action ''thanks'')]) ''ok thx'' (Some None) None) =
      Some (''thx'', text_action ''thanks'', re_captures literal_engine ''thx'' ''thx'')"
    by (simp add: l h a)
  show ?thesis
    using regex_catalog_first_suffix_match [OF literal_engine_contract, of "Some None" None None
        "[(''thx'', text_action ''thanks'')]" "''ok thx''"] m by auto
qed

end
