(* ===== verification/ExpansionLookup.thy ===== *)
theory ExpansionLookup
  imports ExpansionCatalog
begin

text \<open>
  Turning a keyword into an expansion, the second half of \<open>core/src/engine/catalog/expansion.rs\<close>:
  \<open>expand_trigger_action_with_args\<close> with the script case, and the chain \<open>fetch_expansion\<close> tries in
  order, exact trigger, hybrid trigger with arguments, arithmetic, dates, time zones, currency words,
  unit conversion.  The parts of the chain that other modules provide are fields of \<open>catalog_env\<close>;
  a date is a value of the type \<open>'d\<close> that only \<open>ce_format_datetime\<close> reads.
\<close>

record ('f, 'd) catalog_env =
  ce_f64 :: "'f f64_ops"
  ce_find_re :: "string \<Rightarrow> string option"
  ce_split_re :: "string \<Rightarrow> (string \<times> string) option"
  ce_plan :: "string \<Rightarrow> arg_map \<Rightarrow> string \<Rightarrow> final_expansion"
  ce_interpolate :: "string \<Rightarrow> arg_map \<Rightarrow> string"
  ce_decompress :: "u8 list \<Rightarrow> string option"
  ce_compress :: "string \<Rightarrow> u8 list option"
  ce_scripts_enabled :: bool
  ce_datetime_enabled :: bool
  ce_dialect :: string
  ce_date_format :: string
  ce_time_format :: string
  ce_datetime_format :: string
  ce_currency_words_enabled :: bool
  ce_countdown :: "string \<Rightarrow> string \<Rightarrow> string option"
  ce_date_query :: "string \<Rightarrow> string \<Rightarrow> string option"
  ce_has_intent :: "string \<Rightarrow> bool"
  ce_natural_date :: "string \<Rightarrow> string \<Rightarrow> ('d \<times> bool \<times> bool) option"
  ce_format_datetime :: "'d \<Rightarrow> string \<Rightarrow> string"
  ce_timezone :: "string \<Rightarrow> string \<Rightarrow> string \<Rightarrow> string option"
  ce_has_currency_prefix :: "string \<Rightarrow> bool"
  ce_convert_to_words :: "string \<Rightarrow> string option"
  ce_convert_natural :: "string \<Rightarrow> string option"

section \<open>Expanding an action\<close>

definition interpolate_script_action ::
  "('f, 'd) catalog_env \<Rightarrow> trigger_action \<Rightarrow> arg_map \<Rightarrow> final_expansion option" where
  "interpolate_script_action env action args =
     (case ta_script_binary action of
        None \<Rightarrow> None
      | Some compressed \<Rightarrow>
          (let decompressed = (case ce_decompress env compressed of None \<Rightarrow> [] | Some t \<Rightarrow> t);
               interpolated = ce_interpolate env decompressed args;
               recompressed = (case ce_compress env interpolated of None \<Rightarrow> compressed | Some b \<Rightarrow> b)
           in case ta_interpreter action of
                None \<Rightarrow> None
              | Some interpreter \<Rightarrow>
                  (case ta_behavior action of
                     None \<Rightarrow> None
                   | Some behavior \<Rightarrow>
                       Some \<lparr>fe_steps =
                               (if ce_scripts_enabled env
                                then [ScriptStep \<lparr>sm_interpreter = interpreter, sm_behavior = behavior,
                                                 sm_compressed = recompressed\<rparr>]
                                else []),
                             fe_is_calculation = False, fe_ai_template = None\<rparr>)))"

definition auto_case_step :: "string \<Rightarrow> expansion_step \<Rightarrow> expansion_step" where
  "auto_case_step keyword step =
     (case step of TextStep t \<Rightarrow> TextStep (apply_auto_case t keyword) | _ \<Rightarrow> step)"

definition expand_trigger_action_with_args ::
  "('f, 'd) catalog_env \<Rightarrow> trigger_action \<Rightarrow> arg_map \<Rightarrow> string \<Rightarrow> final_expansion option" where
  "expand_trigger_action_with_args env action args matched_keyword =
     (if is_script action then interpolate_script_action env action args
      else
        (let final_exp = ce_plan env (ta_output action) args matched_keyword
         in Some (if ta_auto_case action
                  then final_exp\<lparr>fe_steps := map (auto_case_step matched_keyword) (fe_steps final_exp)\<rparr>
                  else final_exp)))"

definition expand_trigger_action ::
  "('f, 'd) catalog_env \<Rightarrow> trigger_action \<Rightarrow> string \<Rightarrow> final_expansion option" where
  "expand_trigger_action env action matched_keyword =
     expand_trigger_action_with_args env action no_args matched_keyword"

section \<open>The fallbacks\<close>

definition bare_words :: "string list" where
  "bare_words =
     [''monday'', ''tuesday'', ''wednesday'', ''thursday'', ''friday'', ''saturday'', ''sunday'',
      ''mon'', ''tue'', ''wed'', ''thu'', ''fri'', ''sat'', ''sun'',
      ''january'', ''february'', ''march'', ''april'', ''may'', ''june'', ''july'', ''august'',
      ''september'', ''october'', ''november'', ''december'',
      ''jan'', ''feb'', ''mar'', ''apr'', ''jun'', ''jul'', ''aug'', ''sep'', ''oct'', ''nov'', ''dec'']"

definition is_excluded_phrase :: "string \<Rightarrow> bool" where
  "is_excluded_phrase phrase =
     (let trimmed = str_to_lowercase (str_trim phrase) in
      if list_all is_ascii_digit trimmed then True else trimmed \<in> set bare_words)"

definition trim_plus :: "string \<Rightarrow> string" where
  "trim_plus s = dropWhile (\<lambda>c. c = CHR ''+'') s"

definition fetch_math_fallback ::
  "('f, 'd) catalog_env \<Rightarrow> string \<Rightarrow> bool \<Rightarrow> final_expansion option" where
  "fetch_math_fallback env keyword instant_expand =
     (if instant_expand then None
      else case evaluate (ce_f64 env) (ce_find_re env) (ce_split_re env) keyword of
        Parsed t \<Rightarrow> Some (calculation t)
      | _ \<Rightarrow> None)"

text \<open>The format a date is printed with: date and time, time only, or date only.\<close>

definition date_pattern :: "('f, 'd) catalog_env \<Rightarrow> bool \<Rightarrow> bool \<Rightarrow> string" where
  "date_pattern env is_date is_time =
     (if is_date \<and> is_time then ce_datetime_format env
      else if is_time then ce_time_format env else ce_date_format env)"

definition fetch_date_fallback ::
  "('f, 'd) catalog_env \<Rightarrow> string \<Rightarrow> bool \<Rightarrow> final_expansion option" where
  "fetch_date_fallback env keyword instant_expand =
     (if instant_expand then None
      else if \<not> ce_datetime_enabled env then None
      else case ce_countdown env keyword (ce_dialect env) of
        Some t \<Rightarrow> Some (calculation t)
      | None \<Rightarrow>
          (case ce_date_query env keyword (ce_dialect env) of
             Some t \<Rightarrow> Some (calculation t)
           | None \<Rightarrow>
               if str_trim keyword \<noteq> ''now'' \<and> \<not> ce_has_intent env keyword then None
               else
                 (let cleaned = trim_plus keyword in
                  if is_excluded_phrase cleaned then None
                  else case ce_natural_date env cleaned (ce_dialect env) of
                    None \<Rightarrow> None
                  | Some (dt, is_date, is_time) \<Rightarrow>
                      Some (calculation (ce_format_datetime env dt (date_pattern env is_date is_time))))))"

definition fetch_currency_words_fallback ::
  "('f, 'd) catalog_env \<Rightarrow> string \<Rightarrow> bool \<Rightarrow> final_expansion option" where
  "fetch_currency_words_fallback env keyword instant_expand =
     (if instant_expand then None
      else if \<not> ce_currency_words_enabled env then None
      else if \<not> ce_has_currency_prefix env keyword then None
      else map_option calculation (ce_convert_to_words env keyword))"

definition fetch_nl_unit_conversion_fallback ::
  "('f, 'd) catalog_env \<Rightarrow> string \<Rightarrow> bool \<Rightarrow> final_expansion option" where
  "fetch_nl_unit_conversion_fallback env keyword instant_expand =
     (if instant_expand then None else map_option calculation (ce_convert_natural env keyword))"

definition fetch_timezone_fallback ::
  "('f, 'd) catalog_env \<Rightarrow> string \<Rightarrow> bool \<Rightarrow> final_expansion option" where
  "fetch_timezone_fallback env keyword instant_expand =
     (if instant_expand then None
      else if \<not> ce_datetime_enabled env then None
      else map_option calculation (ce_timezone env keyword (ce_time_format env) (ce_dialect env)))"

section \<open>The chain\<close>

type_synonym 'a with_window = "'a option \<times> window_resolver \<times> window_fetch"

definition fetch_exact_match_lazy ::
  "('f, 'd) catalog_env \<Rightarrow> (string \<Rightarrow> trigger_action option) \<Rightarrow> string \<Rightarrow> window_resolver \<Rightarrow>
   window_fetch \<Rightarrow> final_expansion with_window" where
  "fetch_exact_match_lazy env get keyword window fetch =
     (case get_raw_action_lazy get keyword window fetch of
        (None, w, f) \<Rightarrow> (None, w, f)
      | (Some action, w, f) \<Rightarrow> (expand_trigger_action_with_args env action no_args keyword, w, f))"

definition fetch_hybrid_arguments_lazy ::
  "('f, 'd) catalog_env \<Rightarrow> (string \<Rightarrow> trigger_action option) \<Rightarrow> string \<Rightarrow> window_resolver \<Rightarrow>
   window_fetch \<Rightarrow> final_expansion with_window" where
  "fetch_hybrid_arguments_lazy env get keyword window fetch =
     (let tokens = tokenize_args keyword CHR '';'' in
      if length tokens \<le> 1 then (None, window, fetch)
      else
        (let base = str_trim (hd tokens) in
         case get_raw_action_lazy get base window fetch of
           (None, w, f) \<Rightarrow> (None, w, f)
         | (Some action, w, f) \<Rightarrow>
             (expand_trigger_action_with_args env action (parse_tokens (tl tokens)) base, w, f)))"

text \<open>\<open>or_else\<close> with the window handed on.\<close>

definition then_try :: "'a with_window \<Rightarrow> (window_resolver \<Rightarrow> window_fetch \<Rightarrow> 'a with_window) \<Rightarrow> 'a with_window" where
  "then_try r next_try = (case r of (Some x, w, f) \<Rightarrow> (Some x, w, f) | (None, w, f) \<Rightarrow> next_try w f)"

definition fetch_expansion_lazy ::
  "('f, 'd) catalog_env \<Rightarrow> (string \<Rightarrow> trigger_action option) \<Rightarrow> string \<Rightarrow> bool \<Rightarrow> window_resolver \<Rightarrow>
   window_fetch \<Rightarrow> final_expansion with_window" where
  "fetch_expansion_lazy env get keyword instant window fetch =
     then_try (fetch_exact_match_lazy env get keyword window fetch) (\<lambda>w f.
     then_try (fetch_hybrid_arguments_lazy env get keyword w f) (\<lambda>w f.
       (or_else (fetch_math_fallback env keyword instant)
       (or_else (fetch_date_fallback env keyword instant)
       (or_else (fetch_timezone_fallback env keyword instant)
       (or_else (fetch_currency_words_fallback env keyword instant)
                (fetch_nl_unit_conversion_fallback env keyword instant)))), w, f)))"

definition fetch_expansion_no_date_fallback_lazy ::
  "('f, 'd) catalog_env \<Rightarrow> (string \<Rightarrow> trigger_action option) \<Rightarrow> string \<Rightarrow> bool \<Rightarrow> window_resolver \<Rightarrow>
   window_fetch \<Rightarrow> final_expansion with_window" where
  "fetch_expansion_no_date_fallback_lazy env get keyword instant window fetch =
     then_try (fetch_exact_match_lazy env get keyword window fetch) (\<lambda>w f.
     then_try (fetch_hybrid_arguments_lazy env get keyword w f) (\<lambda>w f.
       (or_else (fetch_math_fallback env keyword instant)
       (or_else (fetch_currency_words_fallback env keyword instant)
                (fetch_nl_unit_conversion_fallback env keyword instant)), w, f)))"

definition fetch_expansion_info ::
  "('f, 'd) catalog_env \<Rightarrow> (string \<Rightarrow> trigger_action option) \<Rightarrow> string \<Rightarrow> bool \<Rightarrow>
   active_window_info option \<Rightarrow> final_expansion option" where
  "fetch_expansion_info env get keyword instant active_window =
     fst (fetch_expansion_lazy env get keyword instant (from_info active_window) None)"

definition fetch_expansion_no_date_fallback_info ::
  "('f, 'd) catalog_env \<Rightarrow> (string \<Rightarrow> trigger_action option) \<Rightarrow> string \<Rightarrow> bool \<Rightarrow>
   active_window_info option \<Rightarrow> final_expansion option" where
  "fetch_expansion_no_date_fallback_info env get keyword instant active_window =
     fst (fetch_expansion_no_date_fallback_lazy env get keyword instant (from_info active_window) None)"

section \<open>The chain with the window at hand\<close>

definition exact_match ::
  "('f, 'd) catalog_env \<Rightarrow> (string \<Rightarrow> trigger_action option) \<Rightarrow> active_window_info option \<Rightarrow> string \<Rightarrow>
   final_expansion option" where
  "exact_match env get w keyword =
     (case get_raw_action get w keyword of
        None \<Rightarrow> None
      | Some action \<Rightarrow> expand_trigger_action_with_args env action no_args keyword)"

definition hybrid_match ::
  "('f, 'd) catalog_env \<Rightarrow> (string \<Rightarrow> trigger_action option) \<Rightarrow> active_window_info option \<Rightarrow> string \<Rightarrow>
   final_expansion option" where
  "hybrid_match env get w keyword =
     (case tokenize_args keyword CHR '';'' of
        base # t # ts \<Rightarrow>
          (case get_raw_action get w (str_trim base) of
             None \<Rightarrow> None
           | Some action \<Rightarrow>
               expand_trigger_action_with_args env action (parse_tokens (t # ts)) (str_trim base))
      | _ \<Rightarrow> None)"

lemma exact_will_see:
  assumes "will_see w window fetch"
  shows "\<exists>window' fetch'. fetch_exact_match_lazy env get keyword window fetch =
    (exact_match env get w keyword, window', fetch') \<and> will_see w window' fetch'"
  using get_raw_action_lazy_will_see [OF assms, of get keyword]
  by (auto simp: fetch_exact_match_lazy_def exact_match_def split: option.split)

lemma hybrid_will_see:
  assumes "will_see w window fetch"
  shows "\<exists>window' fetch'. fetch_hybrid_arguments_lazy env get keyword window fetch =
    (hybrid_match env get w keyword, window', fetch') \<and> will_see w window' fetch'"
proof (cases "tokenize_args keyword CHR '';''")
  case Nil
  then show ?thesis using assms by (simp add: fetch_hybrid_arguments_lazy_def hybrid_match_def)
next
  case (Cons base rest)
  show ?thesis
  proof (cases rest)
    case Nil
    then show ?thesis using assms Cons by (simp add: fetch_hybrid_arguments_lazy_def hybrid_match_def)
  next
    case (Cons t ts)
    with \<open>tokenize_args keyword CHR '';'' = base # rest\<close> show ?thesis
      using get_raw_action_lazy_will_see [OF assms, of get "str_trim base"]
      by (auto simp: fetch_hybrid_arguments_lazy_def hybrid_match_def split: option.split)
  qed
qed

lemma then_try_will_see:
  assumes "\<exists>window' fetch'. r = (x, window', fetch') \<and> will_see w window' fetch'"
    and "\<And>window' fetch'. will_see w window' fetch' \<Longrightarrow>
      \<exists>window'' fetch''. k window' fetch' = (y, window'', fetch'') \<and> will_see w window'' fetch''"
  shows "\<exists>window'' fetch''. then_try r k = (or_else x y, window'', fetch'') \<and> will_see w window'' fetch''"
  using assms by (cases x) (auto simp: then_try_def)

lemma fetch_no_date_will_see:
  assumes "will_see w window fetch"
  shows "\<exists>window' fetch'. fetch_expansion_no_date_fallback_lazy env get keyword instant window fetch =
    (or_else (exact_match env get w keyword) (or_else (hybrid_match env get w keyword)
       (or_else (fetch_math_fallback env keyword instant)
       (or_else (fetch_currency_words_fallback env keyword instant)
                (fetch_nl_unit_conversion_fallback env keyword instant)))), window', fetch') \<and>
    will_see w window' fetch'"
  unfolding fetch_expansion_no_date_fallback_lazy_def
  by (intro then_try_will_see exact_will_see hybrid_will_see assms) auto

lemma fetch_will_see:
  assumes "will_see w window fetch"
  shows "\<exists>window' fetch'. fetch_expansion_lazy env get keyword instant window fetch =
    (or_else (exact_match env get w keyword) (or_else (hybrid_match env get w keyword)
       (or_else (fetch_math_fallback env keyword instant)
       (or_else (fetch_date_fallback env keyword instant)
       (or_else (fetch_timezone_fallback env keyword instant)
       (or_else (fetch_currency_words_fallback env keyword instant)
                (fetch_nl_unit_conversion_fallback env keyword instant)))))), window', fetch') \<and>
    will_see w window' fetch'"
  unfolding fetch_expansion_lazy_def
  by (intro then_try_will_see exact_will_see hybrid_will_see assms) auto

lemma fallbacks_off_when_instant [simp]:
  "fetch_math_fallback env keyword True = None" "fetch_date_fallback env keyword True = None"
  "fetch_timezone_fallback env keyword True = None" "fetch_currency_words_fallback env keyword True = None"
  "fetch_nl_unit_conversion_fallback env keyword True = None"
  by (simp_all add: fetch_math_fallback_def fetch_date_fallback_def fetch_timezone_fallback_def
      fetch_currency_words_fallback_def fetch_nl_unit_conversion_fallback_def)

text \<open>C29: The expansion of a keyword is the first that is there of: the trigger spelled like the keyword,
  the trigger before the first semicolon with the rest as arguments, arithmetic, dates, time zones,
  currency words and units.  Fetching the window lazily gives the same answer as having it, and under
  instant expansion only stored triggers are answered.\<close>

theorem fetch_expansion_in_order:
  assumes "window = Some w \<or> (window = None \<and> fetch = Some w)"
  shows "fst (fetch_expansion_lazy env get keyword instant window fetch) =
    (if instant then or_else (exact_match env get w keyword) (hybrid_match env get w keyword)
     else or_else (exact_match env get w keyword) (or_else (hybrid_match env get w keyword)
       (or_else (fetch_math_fallback env keyword False)
       (or_else (fetch_date_fallback env keyword False)
       (or_else (fetch_timezone_fallback env keyword False)
       (or_else (fetch_currency_words_fallback env keyword False)
                (fetch_nl_unit_conversion_fallback env keyword False))))))) \<and>
    fst (fetch_expansion_lazy env get keyword instant window fetch) =
      fetch_expansion_info env get keyword instant w"
proof -
  have "will_see w window fetch" using assms by (auto simp: will_see_def)
  from fetch_will_see [OF this, of env get keyword instant]
  have lazily: "fst (fetch_expansion_lazy env get keyword instant window fetch) =
    or_else (exact_match env get w keyword) (or_else (hybrid_match env get w keyword)
       (or_else (fetch_math_fallback env keyword instant)
       (or_else (fetch_date_fallback env keyword instant)
       (or_else (fetch_timezone_fallback env keyword instant)
       (or_else (fetch_currency_words_fallback env keyword instant)
                (fetch_nl_unit_conversion_fallback env keyword instant))))))" by auto
  have "will_see w (from_info w) None" by (simp add: will_see_def from_info_def)
  from fetch_will_see [OF this, of env get keyword instant] lazily
  show ?thesis by (cases instant) (auto simp: fetch_expansion_info_def)
qed

text \<open>An environment in which nothing but stored texts and arithmetic expands.\<close>

definition plain_env :: "(nat, unit) catalog_env" where
  "plain_env = \<lparr>ce_f64 = nat_ops, ce_find_re = plain_find, ce_split_re = plain_split,
     ce_plan = (\<lambda>t a k. text_expansion t), ce_interpolate = (\<lambda>t a. t), ce_decompress = (\<lambda>b. Some []),
     ce_compress = (\<lambda>t. Some []), ce_scripts_enabled = False, ce_datetime_enabled = False,
     ce_dialect = ''uk'', ce_date_format = [], ce_time_format = [], ce_datetime_format = [],
     ce_currency_words_enabled = False, ce_countdown = (\<lambda>k d. None), ce_date_query = (\<lambda>k d. None),
     ce_has_intent = (\<lambda>k. False), ce_natural_date = (\<lambda>k d. None), ce_format_datetime = (\<lambda>d p. []),
     ce_timezone = (\<lambda>k t d. None), ce_has_currency_prefix = (\<lambda>k. False),
     ce_convert_to_words = (\<lambda>k. None), ce_convert_natural = (\<lambda>k. None)\<rparr>"

theorem fetch_expansion_in_order_witness:
  "fst (fetch_expansion_lazy plain_env [''sig'' \<mapsto> text_action ''Best''] ''SIG'' True None (Some None)) =
     or_else (exact_match plain_env [''sig'' \<mapsto> text_action ''Best''] None ''SIG'')
             (hybrid_match plain_env [''sig'' \<mapsto> text_action ''Best''] None ''SIG'')"
  using fetch_expansion_in_order [of None None "Some None" plain_env "[''sig'' \<mapsto> text_action ''Best'']" "''SIG''" True]
  by simp

text \<open>A script trigger never reaches the injector while scripts are disabled: its expansion has no
  steps at all.  While they are enabled it is exactly one script step with the trigger's interpreter
  and behaviour.\<close>

theorem scripts_run_only_when_enabled:
  assumes "is_script action" and "expand_trigger_action_with_args env action args keyword = Some fe"
  shows "(\<not> ce_scripts_enabled env \<longrightarrow> fe_steps fe = []) \<and>
    (ce_scripts_enabled env \<longrightarrow>
       (\<exists>md. fe_steps fe = [ScriptStep md] \<and> ta_interpreter action = Some (sm_interpreter md) \<and>
          ta_behavior action = Some (sm_behavior md))) \<and>
    undo_trigger_for_steps keyword (fe_steps fe) = (if ce_scripts_enabled env then None else Some keyword)"
  using assms
  by (auto simp: expand_trigger_action_with_args_def interpolate_script_action_def Let_def
      undo_trigger_for_steps_def allows_blind_undo_def max_payload_bytes_def split: option.splits if_splits)

theorem scripts_run_only_when_enabled_witness:
  "\<exists>fe. expand_trigger_action_with_args plain_env
      ((text_action [])\<lparr>ta_action_type := ''script'', ta_script_binary := Some [1],
         ta_interpreter := Some Bash, ta_behavior := Some Inline\<rparr>) no_args ''run'' = Some fe \<and> fe_steps fe = []"
proof -
  let ?a = "(text_action [])\<lparr>ta_action_type := ''script'', ta_script_binary := Some [1],
         ta_interpreter := Some Bash, ta_behavior := Some Inline\<rparr>"
  have s: "is_script ?a" by code_simp
  have "expand_trigger_action_with_args plain_env ?a no_args ''run'' =
      Some \<lparr>fe_steps = [], fe_is_calculation = False, fe_ai_template = None\<rparr>"
    using s by (simp add: expand_trigger_action_with_args_def interpolate_script_action_def plain_env_def
        text_action_def)
  with scripts_run_only_when_enabled [OF s this] show ?thesis by (simp add: plain_env_def)
qed

end
