(* ===== verification/CaseCycle.thy ===== *)
theory CaseCycle
  imports Prelude
begin

text \<open>
  Model of \<open>core/src/engine/case_cycle.rs\<close>: the session that cycles the text inserted last
  through its case variants. Instants and durations are counted in nanoseconds; the clock reading
  that the code takes inside a function is an argument here.
\<close>

type_synonym instant = nat

definition millis :: "nat \<Rightarrow> nat" where
  "millis n = n * 1000000"

definition case_cycle_window :: nat where
  "case_cycle_window = millis 5000"

datatype case_variant = Original | Sentence | Title | Upper | Lower

datatype cycle_direction = Next | Prev

definition case_cycle_order :: "case_variant list" where
  "case_cycle_order = [Original, Sentence, Title, Upper, Lower]"

section \<open>Rendering\<close>

fun sentence_loop :: "bool \<Rightarrow> string \<Rightarrow> string" where
  "sentence_loop did_first [] = []"
| "sentence_loop did_first (ch # cs) =
     (if \<not> did_first \<and> is_alphabetic ch then to_uppercase ch @ sentence_loop True cs
      else ch # sentence_loop did_first cs)"

definition sentence_case :: "string \<Rightarrow> string" where
  "sentence_case text = sentence_loop False text"

fun title_loop :: "bool \<Rightarrow> string \<Rightarrow> string" where
  "title_loop new_word [] = []"
| "title_loop new_word (ch # cs) =
     (if is_whitespace ch then ch # title_loop True cs
      else if new_word \<and> is_alphabetic ch then to_uppercase ch @ title_loop False cs
      else ch # title_loop False cs)"

definition title_case :: "string \<Rightarrow> string" where
  "title_case text = title_loop True text"

fun render_case :: "string \<Rightarrow> case_variant \<Rightarrow> string" where
  "render_case text Original = text"
| "render_case text Upper = str_to_uppercase text"
| "render_case text Lower = str_to_lowercase text"
| "render_case text Sentence = sentence_case text"
| "render_case text Title = title_case text"

section \<open>The session\<close>

record case_cycle_session =
  original_text :: string
  current_text :: string
  variant :: case_variant
  entered_at :: instant
  engaged :: bool

definition session_new :: "string \<Rightarrow> instant \<Rightarrow> case_cycle_session" where
  "session_new original now =
     \<lparr>original_text = original, current_text = render_case original Original,
      variant = Original, entered_at = now, engaged = False\<rparr>"

text \<open>\<open>saturating_duration_since\<close> is the subtraction of natural numbers, which stops at zero.\<close>

definition is_ready :: "case_cycle_session \<Rightarrow> instant \<Rightarrow> bool" where
  "is_ready s now \<longleftrightarrow> engaged s \<or> now - entered_at s < case_cycle_window"

text \<open>\<open>position\<close> in the order of the cycle, and one step of the index modulo five
  (\<open>rem_euclid\<close> is \<open>mod\<close> of the integers).\<close>

fun order_pos :: "case_variant \<Rightarrow> nat" where
  "order_pos Original = 0"
| "order_pos Sentence = 1"
| "order_pos Title = 2"
| "order_pos Upper = 3"
| "order_pos Lower = 4"

fun cycle_step :: "cycle_direction \<Rightarrow> int" where
  "cycle_step Next = 1"
| "cycle_step Prev = -1"

definition next_variant :: "cycle_direction \<Rightarrow> case_variant \<Rightarrow> case_variant" where
  "next_variant dir v =
     case_cycle_order ! nat ((int (order_pos v) + cycle_step dir) mod int (length case_cycle_order))"

lemma next_variant_simps [simp]:
  "next_variant Next Original = Sentence" "next_variant Next Sentence = Title"
  "next_variant Next Title = Upper" "next_variant Next Upper = Lower"
  "next_variant Next Lower = Original"
  "next_variant Prev Original = Lower" "next_variant Prev Lower = Upper"
  "next_variant Prev Upper = Title" "next_variant Prev Title = Sentence"
  "next_variant Prev Sentence = Original"
  by (simp_all add: next_variant_def case_cycle_order_def)

text \<open>How many steps the loop can still take before it is back at its start.\<close>

definition steps_left :: "cycle_direction \<Rightarrow> case_variant \<Rightarrow> case_variant \<Rightarrow> nat" where
  "steps_left dir start v =
     nat ((case dir of Next \<Rightarrow> int (order_pos start) - int (order_pos v) - 1
           | Prev \<Rightarrow> int (order_pos v) - int (order_pos start) - 1) mod 5)"

lemma steps_left_less:
  "next_variant dir v \<noteq> start \<Longrightarrow> steps_left dir start (next_variant dir v) < steps_left dir start v"
  by (cases dir; cases v; cases start) (simp_all add: steps_left_def)

function advance_loop ::
  "cycle_direction \<Rightarrow> case_variant \<Rightarrow> case_variant \<Rightarrow> case_cycle_session \<Rightarrow> case_cycle_session" where
  "advance_loop dir start i s =
     (let cand = next_variant dir i; rendered = render_case (original_text s) cand in
      if cand = start
      then s\<lparr>variant := Original, current_text := original_text s, engaged := True\<rparr>
      else if rendered \<noteq> current_text s
      then s\<lparr>variant := cand, current_text := rendered, engaged := True\<rparr>
      else advance_loop dir start cand s)"
  by pat_completeness auto
termination
  by (relation "measure (\<lambda>(dir, start, i, _). steps_left dir start i)")
    (auto simp: steps_left_less)

declare advance_loop.simps [simp del]

definition advance :: "cycle_direction \<Rightarrow> case_cycle_session \<Rightarrow> case_cycle_session \<times> string" where
  "advance dir s =
     (let s' = advance_loop dir (variant s) (variant s) s in (s', current_text s'))"

section \<open>Facts\<close>

text \<open>The session shows the rendering of its variant.\<close>

definition session_inv :: "case_cycle_session \<Rightarrow> bool" where
  "session_inv s \<longleftrightarrow> current_text s = render_case (original_text s) (variant s)"

lemma session_inv_new: "session_inv (session_new t now)"
  by (simp add: session_inv_def session_new_def)

lemma advance_loop_inv: "session_inv (advance_loop dir start i s)"
proof (induction dir start i s rule: advance_loop.induct)
  case (1 dir start i s)
  then show ?case
    by (subst advance_loop.simps) (auto simp: Let_def session_inv_def)
qed

lemma advance_loop_frame:
  "original_text (advance_loop dir start i s) = original_text s \<and>
   engaged (advance_loop dir start i s) \<and>
   entered_at (advance_loop dir start i s) = entered_at s"
proof (induction dir start i s rule: advance_loop.induct)
  case (1 dir start i s)
  then show ?case by (subst (1 2 3) advance_loop.simps) (auto simp: Let_def)
qed

lemma next_variant_covers:
  "v = start \<or> v \<in> {next_variant dir start, next_variant dir (next_variant dir start),
     next_variant dir (next_variant dir (next_variant dir start)),
     next_variant dir (next_variant dir (next_variant dir (next_variant dir start)))}"
  by (cases dir; cases start; cases v) simp_all

text \<open>The loop passes over exactly the variants that look like the current text.\<close>

lemma advance_loop_unchanged:
  "current_text (advance_loop dir start i s) = current_text s \<Longrightarrow>
   next_variant dir i \<noteq> start \<Longrightarrow>
   render_case (original_text s) (next_variant dir i) = current_text s \<and>
   current_text (advance_loop dir start (next_variant dir i) s) = current_text s"
  by (subst (asm) advance_loop.simps) (auto simp: Let_def split: if_splits)

lemma next_variant_distinct:
  "next_variant dir v \<noteq> v" "next_variant dir (next_variant dir v) \<noteq> v"
  "next_variant dir (next_variant dir (next_variant dir v)) \<noteq> v"
  "next_variant dir (next_variant dir (next_variant dir (next_variant dir v))) \<noteq> v"
  by (cases dir; cases v; simp)+

lemma advance_loop_all_same:
  assumes "current_text (advance_loop dir start start s) = current_text s" and "v \<noteq> start"
  shows "render_case (original_text s) v = current_text s"
proof -
  note u = advance_loop_unchanged
  note u1 = u [OF assms(1) next_variant_distinct(1)]
  note u2 = u [OF conjunct2 [OF u1] next_variant_distinct(2)]
  note u3 = u [OF conjunct2 [OF u2] next_variant_distinct(3)]
  note u4 = u [OF conjunct2 [OF u3] next_variant_distinct(4)]
  from assms(2) u1 u2 u3 u4 next_variant_covers [of v start dir] show ?thesis by auto
qed

lemma to_uppercase_non_alphabetic: "\<not> is_alphabetic c \<Longrightarrow> to_uppercase c = [c]"
  by (auto simp: to_uppercase_def char_defs)

lemma to_lowercase_non_alphabetic: "\<not> is_alphabetic c \<Longrightarrow> to_lowercase c = c"
  by (auto simp: to_lowercase_def is_alphabetic_def)

lemma sentence_loop_no_letters: "\<forall>c\<in>set t. \<not> is_alphabetic c \<Longrightarrow> sentence_loop f t = t"
  by (induction t) auto

lemma title_loop_no_letters: "\<forall>c\<in>set t. \<not> is_alphabetic c \<Longrightarrow> title_loop f t = t"
  by (induction t arbitrary: f) auto

lemma render_no_letters:
  assumes "\<forall>c\<in>set t. \<not> is_alphabetic c"
  shows "render_case t v = t"
proof (cases v)
  case Upper
  have "concat (map to_uppercase t) = t"
    using assms by (induction t) (simp_all add: to_uppercase_non_alphabetic)
  then show ?thesis by (simp add: Upper str_to_uppercase_def)
next
  case Lower
  then show ?thesis
    using assms by (simp add: str_to_lowercase_def map_idI to_lowercase_non_alphabetic)
qed (use assms in \<open>simp_all add: sentence_case_def title_case_def sentence_loop_no_letters
  title_loop_no_letters\<close>)

section \<open>Properties\<close>

text \<open>Advancing a session always yields a session that shows the rendering of its variant of the
  unchanged original text and is engaged. The text on screen changes unless all five variants
  look the same, and in that case the session is back at the original variant.\<close>

theorem advance_changes_text_if_possible:
  assumes "session_inv s"
  shows "let (s', t) = advance dir s in
    t = current_text s' \<and> session_inv s' \<and> engaged s' \<and> original_text s' = original_text s \<and>
    (t = current_text s \<longleftrightarrow> (\<forall>v. render_case (original_text s) v = current_text s)) \<and>
    (t = current_text s \<longrightarrow> variant s' = Original)"
proof -
  let ?s' = "advance_loop dir (variant s) (variant s) s"
  have self: "render_case (original_text s) (variant s) = current_text s"
    using assms by (simp add: session_inv_def)
  have same: "\<forall>v. render_case (original_text s) v = current_text s"
    if "current_text ?s' = current_text s"
    using advance_loop_all_same [OF that] self by metis
  have back_to_start: "variant (advance_loop dir start i s) = Original \<and>
      current_text (advance_loop dir start i s) = original_text s"
    if all: "\<forall>v. render_case (original_text s) v = current_text s" for start i
    using all
  proof (induction dir start i s rule: advance_loop.induct)
    case (1 dir start i s)
    then show ?case by (subst (1 2) advance_loop.simps) (auto simp: Let_def)
  qed
  have "current_text ?s' = current_text s \<longleftrightarrow> (\<forall>v. render_case (original_text s) v = current_text s)"
    using same back_to_start by (metis render_case.simps(1))
  moreover have "current_text ?s' = current_text s \<Longrightarrow> variant ?s' = Original"
    using same back_to_start by blast
  ultimately show ?thesis
    using advance_loop_inv advance_loop_frame by (simp add: advance_def Let_def)
qed

theorem advance_changes_text_if_possible_witness:
  "snd (advance Next (session_new ''hello world'' 0)) \<noteq> ''hello world''"
proof -
  have diff: "render_case ''hello world'' Upper \<noteq> ''hello world''" by code_simp
  have t: "current_text (session_new ''hello world'' 0) = ''hello world''"
    "original_text (session_new ''hello world'' 0) = ''hello world''"
    by (simp_all add: session_new_def)
  have "\<not> (\<forall>v. render_case ''hello world'' v = ''hello world'')"
    using diff by blast
  then show ?thesis
    using advance_changes_text_if_possible [OF session_inv_new, of Next "''hello world''" 0]
    unfolding t case_prod_beta Let_def by metis
qed

text \<open>A text without letters looks the same in every variant, so advancing leaves it as it is.\<close>

theorem advance_without_letters:
  assumes "\<forall>c\<in>set t. \<not> is_alphabetic c"
  shows "snd (advance dir (session_new t now)) = t \<and> (\<forall>v. render_case t v = t)"
proof -
  have r: "\<forall>v. render_case t v = t" using render_no_letters [OF assms] by blast
  have "current_text (advance_loop dir start i (session_new t now)) = t" for start i
  proof (induction dir start i "session_new t now" rule: advance_loop.induct)
    case (1 dir start i)
    then show ?case
      by (subst advance_loop.simps) (simp add: Let_def r, simp add: session_new_def r)
  qed
  with r show ?thesis by (simp add: advance_def Let_def)
qed

theorem advance_without_letters_witness:
  "snd (advance Prev (session_new ''2026-08'' 7)) = ''2026-08''"
  using advance_without_letters [of "''2026-08''" Prev 7] by (simp add: char_defs)

end
