(* ===== verification/EngineState.thy ===== *)
theory EngineState
  imports HotkeyCatalog ExpansionLookup CaseCycle
begin

text \<open>
  The state shared by the listener, the tray and the engine, \<open>core/src/engine/state.rs\<close>: the
  switches, the date formats, the undo window, the case-cycle session and the three catalogs.
  Atomics and locks hold plain values; an instant is the number of nanoseconds since some start, and
  every operation that reads the clock takes the instant as an argument.
\<close>

section \<open>The record\<close>

definition undo_window :: nat where
  "undo_window = millis 5000"

record undo_state =
  us_trigger :: string
  us_output_length :: nat
  us_timestamp :: instant

definition undo_is_active :: "undo_state \<Rightarrow> instant \<Rightarrow> bool" where
  "undo_is_active u now \<longleftrightarrow> now - us_timestamp u < undo_window"

record engine_state =
  es_inline_ai_enabled :: bool
  es_inline_tab_completion_enabled :: bool
  es_inline_case_transform_enabled :: bool
  es_inline_datetime_enabled :: bool
  es_inline_currency_to_words_enabled :: bool
  es_inline_dictionary_enabled :: bool
  es_date_format :: string
  es_time_format :: string
  es_datetime_format :: string
  es_dialect :: string
  es_instant_expand :: bool
  es_ignore_fullscreen_enabled :: bool
  es_is_os_fullscreen :: bool
  es_completion_active :: bool
  es_wpm :: u32
  es_clipboard_restore_delay_ms :: u32
  es_script_timeout :: u32
  es_undo_state :: "undo_state option"
  es_case_cycle :: "case_cycle_session option"
  es_word_catalog :: expansion_catalog
  es_hotkey_catalog :: hotkey_snapshot
  es_regex_catalog :: regex_catalog

definition engine_state_new :: engine_state where
  "engine_state_new =
     \<lparr>es_inline_ai_enabled = True, es_inline_tab_completion_enabled = True,
      es_inline_case_transform_enabled = True, es_inline_datetime_enabled = True,
      es_inline_currency_to_words_enabled = False, es_inline_dictionary_enabled = False,
      es_date_format = ''MMMM D, YYYY'', es_time_format = ''h:mm A'',
      es_datetime_format = ''MMMM D, YYYY '' @ [CHR 0x27] @ ''at'' @ [CHR 0x27] @ '' h:mm A'',
      es_dialect = ''uk'', es_instant_expand = False, es_ignore_fullscreen_enabled = True,
      es_is_os_fullscreen = False, es_completion_active = False, es_wpm = 60,
      es_clipboard_restore_delay_ms = 250, es_script_timeout = 15, es_undo_state = None,
      es_case_cycle = None, es_word_catalog = catalog_new, es_hotkey_catalog = Map.empty,
      es_regex_catalog = []\<rparr>"

definition fullscreen_suppressed :: "engine_state \<Rightarrow> bool" where
  "fullscreen_suppressed st \<longleftrightarrow> es_ignore_fullscreen_enabled st \<and> es_is_os_fullscreen st"

section \<open>Catalogs\<close>

definition load_word_actions :: "engine_state \<Rightarrow> (string \<times> trigger_action) list \<Rightarrow> engine_state" where
  "load_word_actions st actions = st\<lparr>es_word_catalog := load_actions (es_word_catalog st) actions\<rparr>"

definition load_hotkey_actions :: "engine_state \<Rightarrow> (string \<times> trigger_action) list \<Rightarrow> engine_state" where
  "load_hotkey_actions st actions = st\<lparr>es_hotkey_catalog := load_hotkeys actions\<rparr>"

definition load_regex_actions :: "engine_state \<Rightarrow> (string \<times> trigger_action) list \<Rightarrow> engine_state" where
  "load_regex_actions st actions = st\<lparr>es_regex_catalog := load_regex actions\<rparr>"

text \<open>The lookup of the word catalog: the adaptive source over the loaded map.\<close>

record dev_database =
  dd_dev :: bool
  dd_lookup :: "string \<Rightarrow> trigger_action option"

definition source_get :: "dev_database \<Rightarrow> engine_state \<Rightarrow> string \<Rightarrow> trigger_action option" where
  "source_get db st = adaptive_get (dd_dev db) (dd_lookup db) (ec_source (es_word_catalog st))"

definition state_fetch_expansion_lazy ::
  "('f, 'd) catalog_env \<Rightarrow> dev_database \<Rightarrow> engine_state \<Rightarrow> string \<Rightarrow> window_resolver \<Rightarrow> window_fetch \<Rightarrow>
   final_expansion with_window" where
  "state_fetch_expansion_lazy env db st keyword window fetch =
     fetch_expansion_lazy env (source_get db st) keyword (es_instant_expand st) window fetch"

definition state_fetch_no_date_lazy ::
  "('f, 'd) catalog_env \<Rightarrow> dev_database \<Rightarrow> engine_state \<Rightarrow> string \<Rightarrow> window_resolver \<Rightarrow> window_fetch \<Rightarrow>
   final_expansion with_window" where
  "state_fetch_no_date_lazy env db st keyword window fetch =
     fetch_expansion_no_date_fallback_lazy env (source_get db st) keyword (es_instant_expand st) window fetch"

definition matching_word_triggers :: "engine_state \<Rightarrow> string \<Rightarrow> string list" where
  "matching_word_triggers st pre = matching_triggers (es_word_catalog st) pre"

definition has_hotkey_entry_for :: "engine_state \<Rightarrow> logical_key \<Rightarrow> bool" where
  "has_hotkey_entry_for st k = has_entry_for (es_hotkey_catalog st) k"

definition fetch_hotkey_expansion_info ::
  "('f, 'd) catalog_env \<Rightarrow> engine_state \<Rightarrow> hotkey \<Rightarrow> active_window_info option \<Rightarrow>
   (string \<times> final_expansion) option" where
  "fetch_hotkey_expansion_info env st h window =
     (case match_action_info (es_hotkey_catalog st) h window of
        None \<Rightarrow> None
      | Some (trigger, action) \<Rightarrow> map_option (Pair trigger) (expand_trigger_action env action trigger))"

definition fetch_hotkey_expansion_lazy ::
  "('f, 'd) catalog_env \<Rightarrow> engine_state \<Rightarrow> hotkey \<Rightarrow> active_window_info option \<Rightarrow>
   (string \<times> final_expansion) option" where
  "fetch_hotkey_expansion_lazy env st h fetch_result =
     (case match_action_lazy (es_hotkey_catalog st) h fetch_result of
        None \<Rightarrow> None
      | Some (trigger, action) \<Rightarrow> map_option (Pair trigger) (expand_trigger_action env action trigger))"

section \<open>Undo and case cycling\<close>

definition clear_case_cycle :: "engine_state \<Rightarrow> engine_state" where
  "clear_case_cycle st = st\<lparr>es_case_cycle := None\<rparr>"

definition clear_undo_state :: "engine_state \<Rightarrow> engine_state" where
  "clear_undo_state st = (clear_case_cycle st)\<lparr>es_undo_state := None\<rparr>"

definition set_undo_state :: "engine_state \<Rightarrow> instant \<Rightarrow> string \<Rightarrow> nat \<Rightarrow> engine_state" where
  "set_undo_state st now trigger len =
     (if trigger = [] \<or> len = 0 then clear_undo_state st
      else st\<lparr>es_undo_state :=
                Some \<lparr>us_trigger = trigger, us_output_length = len, us_timestamp = now\<rparr>\<rparr>)"

definition refresh_undo_state :: "engine_state \<Rightarrow> instant \<Rightarrow> string \<Rightarrow> nat \<Rightarrow> engine_state" where
  "refresh_undo_state st now trigger len =
     (case es_undo_state st of
        None \<Rightarrow> st
      | Some u \<Rightarrow>
          if us_trigger u = trigger
          then st\<lparr>es_undo_state := Some (u\<lparr>us_output_length := len, us_timestamp := now\<rparr>)\<rparr>
          else st)"

definition register_case_cycle :: "engine_state \<Rightarrow> instant \<Rightarrow> string \<Rightarrow> engine_state" where
  "register_case_cycle st now txt = st\<lparr>es_case_cycle := Some (session_new txt now)\<rparr>"

record completion_rewrite =
  cr_delete_count :: nat
  cr_replacement :: string

definition advance_case_variant ::
  "engine_state \<Rightarrow> instant \<Rightarrow> cycle_direction \<Rightarrow> engine_state \<times> completion_rewrite option" where
  "advance_case_variant st now dir =
     (case es_case_cycle st of
        None \<Rightarrow> (st, None)
      | Some s \<Rightarrow>
          if \<not> is_ready s now then (st, None)
          else
            (let previous_len = length (current_text s);
                 (s', new_text) = advance dir s
             in (st\<lparr>es_case_cycle := Some s',
                    es_undo_state := map_option (\<lambda>u. u\<lparr>us_output_length := length new_text\<rparr>)
                                       (es_undo_state st)\<rparr>,
                 Some \<lparr>cr_delete_count = previous_len, cr_replacement = new_text\<rparr>)))"

definition take_active_undo_state :: "engine_state \<Rightarrow> instant \<Rightarrow> engine_state \<times> undo_state option" where
  "take_active_undo_state st now =
     (let st1 = clear_case_cycle st in
      case es_undo_state st1 of
        None \<Rightarrow> (st1, None)
      | Some u \<Rightarrow>
          if undo_is_active u now then (st1\<lparr>es_undo_state := None\<rparr>, Some u)
          else (st1\<lparr>es_undo_state := None\<rparr>, None))"

end
