(* ===== verification/Emoji.thy ===== *)
theory Emoji
  imports Expansion "HOL-Library.Product_Lexorder"
begin

text \<open>
  The emoji searches of \<open>core/src/engine/emoji.rs\<close>.  The data of the \<open>emojis\<close> crate and the alias
  table, whose emoji lie outside the characters of the model, are the record \<open>emoji_data\<close>; an
  emoji is an opaque string.  The program keeps the answers to the exact names in a cache that is
  filled on first use: it is the map \<open>exact_nl_emoji_cache\<close>.
\<close>

section \<open>Data\<close>

record emoji_entry =
  em_str :: string
  em_name :: string
  em_shortcodes :: "string list"

record emoji_data =
  ed_aliases :: "(string \<times> string list) list"
  ed_emojis :: "emoji_entry list"
  ed_get_by_shortcode :: "string \<Rightarrow> string option"

section \<open>Shortcodes\<close>

definition replace_with :: "char \<Rightarrow> char \<Rightarrow> string \<Rightarrow> string" where
  "replace_with a b s = map (\<lambda>c. if c = a then b else c) s"

definition search_emoji_shortcodes :: "emoji_data \<Rightarrow> string \<Rightarrow> string list" where
  "search_emoji_shortcodes ed query =
     (if query = [] then []
      else
        (let wanted = replace_with CHR ''_'' CHR ''-'' query;
             shortcodes = map (replace_with CHR ''_'' CHR ''-'') (concat (map em_shortcodes (ed_emojis ed)))
         in remdups_adj (sort (filter (prefix wanted) shortcodes))))"

definition lookup_emoji :: "emoji_data \<Rightarrow> string \<Rightarrow> string option" where
  "lookup_emoji ed shortcode = ed_get_by_shortcode ed (replace_with CHR ''-'' CHR ''_'' shortcode)"

section \<open>Search by words\<close>

text \<open>The maximal alphanumeric runs of a text: \<open>split\<close> on the other characters, without the empty pieces.\<close>

fun words_acc :: "string \<Rightarrow> string \<Rightarrow> string list" where
  "words_acc acc [] = (if acc = [] then [] else [acc])"
| "words_acc acc (c # cs) =
     (if is_alphanumeric c then words_acc (acc @ [c]) cs
      else if acc = [] then words_acc [] cs else acc # words_acc [] cs)"

definition words_of :: "string \<Rightarrow> string list" where
  "words_of s = words_acc [] s"

definition check_match :: "string \<Rightarrow> string list \<Rightarrow> bool" where
  "check_match txt query_words = list_all (\<lambda>qw. qw \<in> set (words_of txt)) query_words"

type_synonym scored = "string \<times> int \<times> nat"

definition alias_matches :: "emoji_data \<Rightarrow> string \<Rightarrow> scored list" where
  "alias_matches ed query =
     concat (map (\<lambda>(emoji, aliases).
       map (\<lambda>alias. (emoji, 1000 + (if str_to_lowercase alias = query then 500 else 0), str_len alias))
         (filter (\<lambda>alias. check_match alias (words_of query)) aliases)) (ed_aliases ed))"

definition name_matches_of :: "emoji_data \<Rightarrow> string \<Rightarrow> scored list" where
  "name_matches_of ed query =
     map (\<lambda>(emoji, name). (emoji, if name = query then 500 else 0, str_len name))
       (filter (\<lambda>(emoji, name). check_match name (words_of query))
         (map (\<lambda>e. (em_str e, str_to_lowercase (em_name e))) (ed_emojis ed)))"

definition i32_min :: int where
  "i32_min = - (2 ^ 31)"

text \<open>
  The best score per emoji, the shorter text first among equal scores.  The hash map is an
  association list in insertion order; its order does not survive the sort below.
\<close>

definition better :: "int \<times> nat \<Rightarrow> int \<times> nat \<Rightarrow> bool" where
  "better new old \<longleftrightarrow> fst new > fst old \<or> (fst new = fst old \<and> snd new < snd old)"

fun keep_best :: "(string \<times> (int \<times> nat)) list \<Rightarrow> scored \<Rightarrow> (string \<times> (int \<times> nat)) list" where
  "keep_best [] (e, s, l) = [(e, (if better (s, l) (i32_min, usize_max) then (s, l) else (i32_min, usize_max)))]"
| "keep_best ((e', old) # m) (e, s, l) =
     (if e' = e then (e', if better (s, l) old then (s, l) else old) # m
      else (e', old) # keep_best m (e, s, l))"

definition search_uncached :: "emoji_data \<Rightarrow> string \<Rightarrow> string list" where
  "search_uncached ed query =
     (if words_of query = [] then []
      else
        (let matches = alias_matches ed query @ name_matches_of ed query;
             unique = foldl keep_best [] matches
         in map fst (sort_key (\<lambda>(e, s, l). (- s, l, e)) unique)))"

definition exact_nl_emoji_cache :: "emoji_data \<Rightarrow> string \<rightharpoonup> string list" where
  "exact_nl_emoji_cache ed =
     foldl (\<lambda>m key. if m key = None then m(key \<mapsto> search_uncached ed key) else m) Map.empty
       (map str_to_lowercase (concat (map snd (ed_aliases ed))) @
        map (\<lambda>e. str_to_lowercase (em_name e)) (ed_emojis ed))"

definition search_natural_language_emojis :: "emoji_data \<Rightarrow> string \<Rightarrow> string list" where
  "search_natural_language_emojis ed query =
     (let normalized_query = str_trim (str_to_lowercase query) in
      if normalized_query = [] then []
      else case exact_nl_emoji_cache ed normalized_query of
        Some cached \<Rightarrow> cached
      | None \<Rightarrow> search_uncached ed normalized_query)"

section \<open>The search returns the best matches first\<close>

lemma cache_loop:
  assumes "\<forall>k v. m k = Some v \<longrightarrow> v = f k"
  shows "\<forall>k v. foldl (\<lambda>m key. if m key = None then m(key \<mapsto> f key) else m) m keys k = Some v \<longrightarrow> v = f k"
  using assms
proof (induction keys arbitrary: m)
  case (Cons key keys)
  show ?case unfolding foldl.simps by (rule Cons.IH) (use Cons.prems in auto)
qed simp

lemma cache_transparent:
  "exact_nl_emoji_cache ed q = Some v \<Longrightarrow> v = search_uncached ed q"
  unfolding exact_nl_emoji_cache_def using cache_loop [of Map.empty "search_uncached ed"] by (simp del: foldl_append)

definition all_matches :: "emoji_data \<Rightarrow> string \<Rightarrow> scored list" where
  "all_matches ed query = alias_matches ed query @ name_matches_of ed query"

text \<open>What the table holds after some matches: for each emoji a match that no other one beats.\<close>

definition best_of :: "scored list \<Rightarrow> string \<Rightarrow> int \<times> nat \<Rightarrow> bool" where
  "best_of matches e v \<longleftrightarrow> (e, v) \<in> set matches \<and> (\<forall>w. (e, w) \<in> set matches \<longrightarrow> \<not> better w v)"

definition best_table :: "scored list \<Rightarrow> (string \<times> (int \<times> nat)) list \<Rightarrow> bool" where
  "best_table matches m \<longleftrightarrow> distinct (map fst m) \<and> fst ` set m = fst ` set matches \<and>
     (\<forall>e v. (e, v) \<in> set m \<longrightarrow> best_of matches e v)"

lemma better_irrefl: "\<not> better a a"
  by (simp add: better_def)

lemma better_trans: "better a b \<Longrightarrow> \<not> better c b \<Longrightarrow> \<not> better c a"
  by (auto simp: better_def)

lemma keep_best_keys: "fst ` set (keep_best m x) = insert (fst x) (fst ` set m)"
  by (induction m x rule: keep_best.induct) auto

lemma keep_best_distinct: "distinct (map fst m) \<Longrightarrow> distinct (map fst (keep_best m x))"
proof (induction m x rule: keep_best.induct)
  case (2 e' old m e s l)
  then show ?case using keep_best_keys [of m "(e, s, l)"] by (auto simp: image_iff)
qed simp

lemma keep_best_entries:
  assumes "distinct (map fst m)" and "0 \<le> s"
  shows "(e', v) \<in> set (keep_best m (e, s, l)) \<longleftrightarrow>
    (if e' = e then
       (e \<notin> fst ` set m \<and> v = (s, l)) \<or>
       (\<exists>old. (e, old) \<in> set m \<and> v = (if better (s, l) old then (s, l) else old))
     else (e', v) \<in> set m)"
  using assms
proof (induction m "(e, s, l)" arbitrary: e s l rule: keep_best.induct)
  case (1 e s l)
  then show ?case by (auto simp: better_def i32_min_def)
next
  case (2 k old m e s l)
  show ?case
  proof (cases "k = e")
    case True
    then have "e \<notin> fst ` set m" using "2.prems"(1) by (auto simp: image_iff)
    then have "(e, w) \<notin> set m" for w by (metis fst_conv image_eqI)
    then show ?thesis using True by auto
  next
    case False
    then show ?thesis using 2 by (auto simp: image_iff)
  qed
qed

lemma best_table_step:
  assumes "best_table matches m" and "0 \<le> s"
  shows "best_table (matches @ [(e, s, l)]) (keep_best m (e, s, l))"
proof -
  have d: "distinct (map fst m)" and k: "fst ` set m = fst ` set matches"
    and b: "\<And>e v. (e, v) \<in> set m \<Longrightarrow> best_of matches e v"
    using assms(1) by (auto simp: best_table_def)
  have "best_of (matches @ [(e, s, l)]) e' v" if "(e', v) \<in> set (keep_best m (e, s, l))" for e' v
  proof (cases "e' = e")
    case False
    with that have "(e', v) \<in> set m" using keep_best_entries [OF d assms(2)] by simp
    then show ?thesis using b [of e' v] False by (auto simp: best_of_def)
  next
    case True
    with that keep_best_entries [OF d assms(2), of e' v e l]
    have "(e \<notin> fst ` set m \<and> v = (s, l)) \<or>
      (\<exists>old. (e, old) \<in> set m \<and> v = (if better (s, l) old then (s, l) else old))"
      by (simp only: if_P)
    then consider "e \<notin> fst ` set m" "v = (s, l)"
      | old where "(e, old) \<in> set m" "v = (if better (s, l) old then (s, l) else old)"
      by blast
    then show ?thesis
    proof cases
      case 1
      then have "(e, w) \<notin> set matches" for w using k by force
      then show ?thesis using True 1 by (auto simp: best_of_def better_def)
    next
      case 2
      then show ?thesis using True b [of e old] better_trans [of "(s, l)" old]
        by (auto simp: best_of_def better_irrefl simp del: split_paired_All split: if_splits)
    qed
  qed
  then show ?thesis
    using keep_best_distinct [OF d] keep_best_keys [of m "(e, s, l)"] k
    by (simp add: best_table_def)
qed

lemma best_table_foldl:
  "best_table ms m \<Longrightarrow> \<forall>(e, s, l)\<in>set xs. 0 \<le> s \<Longrightarrow> best_table (ms @ xs) (foldl keep_best m xs)"
proof (induction xs arbitrary: ms m)
  case (Cons x xs)
  obtain e s l where x: "x = (e, s, l)" by (cases x)
  then have "best_table (ms @ [x]) (keep_best m x)" using best_table_step Cons.prems by auto
  from Cons.IH [OF this] show ?case using Cons.prems by simp
qed simp

lemma all_matches_nonneg: "\<forall>(e, s, l)\<in>set (all_matches ed q). 0 \<le> s"
  by (auto simp: all_matches_def alias_matches_def name_matches_of_def)

lemma best_table_all: "best_table (all_matches ed q) (foldl keep_best [] (all_matches ed q))"
  using best_table_foldl [of "[]" "[]", OF _ all_matches_nonneg] by (simp add: best_table_def)

lemma sorted_wrt_sort_key: "sorted_wrt (\<lambda>a b. f a \<le> f b) (sort_key f xs)"
  using sorted_sort_key [of f xs] by (simp add: sorted_map)

text \<open>The search by words lists every emoji that some alias or name matches, each once, and an
  emoji stands before another only when its best match has a higher score, or the same score and a
  text that is not longer; the cache of exact names never changes the answer.\<close>

theorem emoji_search_best_first:
  assumes "q = str_trim (str_to_lowercase query)" and "words_of q \<noteq> []"
  shows "set (search_natural_language_emojis ed query) = fst ` set (all_matches ed q) \<and>
    distinct (search_natural_language_emojis ed query) \<and>
    sorted_wrt (\<lambda>a b. \<exists>v w. best_of (all_matches ed q) a v \<and> best_of (all_matches ed q) b w \<and> \<not> better w v)
      (search_natural_language_emojis ed query)"
proof -
  let ?m = "foldl keep_best [] (all_matches ed q)"
  let ?s = "sort_key (\<lambda>(e, s, l). (- s, l, e)) ?m"
  have "q \<noteq> []" using assms(2) by (auto simp: words_of_def)
  then have eq: "search_natural_language_emojis ed query = map fst ?s"
    using assms(2) cache_transparent [of ed q]
    by (auto simp: search_natural_language_emojis_def assms(1) [symmetric] search_uncached_def
        all_matches_def split: option.splits)
  have t: "distinct (map fst ?m)" "fst ` set ?m = fst ` set (all_matches ed q)"
    "\<And>e v. (e, v) \<in> set ?m \<Longrightarrow> best_of (all_matches ed q) e v"
    using best_table_all [of ed q] by (auto simp: best_table_def)
  have "distinct (map fst ?s)"
    using t(1) by (simp add: distinct_map)
  moreover have "sorted_wrt (\<lambda>a b. \<exists>v w. best_of (all_matches ed q) (fst a) v \<and>
      best_of (all_matches ed q) (fst b) w \<and> \<not> better w v) ?s"
  proof (rule sorted_wrt_mono_rel [OF _ sorted_wrt_sort_key])
    fix a b assume "a \<in> set ?s" "b \<in> set ?s"
      and le: "(case a of (e, s, l) \<Rightarrow> (- s, l, e)) \<le> (case b of (e, s, l) \<Rightarrow> (- s, l, e))"
    then show "\<exists>v w. best_of (all_matches ed q) (fst a) v \<and>
      best_of (all_matches ed q) (fst b) w \<and> \<not> better w v"
      using t(3) [of "fst a" "snd a"] t(3) [of "fst b" "snd b"]
      by (intro exI [of _ "snd a"] exI [of _ "snd b"])
        (auto simp: better_def split: prod.splits)
  qed
  ultimately show ?thesis using t(2) by (simp add: eq sorted_wrt_map)
qed

definition demo_emojis :: emoji_data where
  "demo_emojis =
     \<lparr>ed_aliases = [(''A'', [''happy'', ''happy face'']), (''B'', [''happy'', ''smile''])],
      ed_emojis = [\<lparr>em_str = ''C'', em_name = ''Happy'', em_shortcodes = [''happy'']\<rparr>],
      ed_get_by_shortcode = (\<lambda>_. None)\<rparr>"

theorem emoji_search_best_first_witness:
  "set (search_natural_language_emojis demo_emojis '' Happy'') = {''A'', ''B'', ''C''}"
proof -
  have q: "''happy'' = str_trim (str_to_lowercase '' Happy'')" by code_simp
  have w: "words_of ''happy'' \<noteq> []" by code_simp
  have "all_matches demo_emojis ''happy'' =
    [(''A'', 1500, 5), (''A'', 1000, 10), (''B'', 1500, 5), (''C'', 500, 5)]" by code_simp
  then show ?thesis using emoji_search_best_first [OF q w, of demo_emojis] by auto
qed

end
