(* ===== verification/Completion.thy ===== *)
theory Completion
  imports Buffer EngineState Emoji
begin

text \<open>
  Prefix completion, \<open>core/src/engine/completion.rs\<close> and the record \<open>TriggerCompletionState\<close> of
  \<open>core/src/engine/evaluator.rs\<close>: the word (or emoji shortcode) under the caret, its suggestions and
  the text that stands for it on the screen.  \<open>Evaluator\<close> holds the shared \<open>EngineState\<close>, so the flag
  \<open>completion_active\<close> in it is the second copy of the field \<open>active\<close>.  What the settings cache and
  the emoji data answer is the record \<open>assist_env\<close>.
\<close>

section \<open>State\<close>

datatype selection_mode = Completion_Mode

record completion_state =
  cs_active :: bool
  cs_is_emoji :: bool
  cs_original_query :: string
  cs_current_text :: string
  cs_suggestions :: "string list"
  cs_selected_index :: "nat option"
  cs_selection_mode :: "selection_mode option"

record evaluator =
  ev_buffer :: fast_buffer
  ev_state :: engine_state
  ev_completion :: completion_state
  ev_captured_ai_clipboard :: "string option"

record assist_env =
  ae_emoji_enabled :: bool
  ae_emoji_trigger :: char
  ae_emojis :: emoji_data

definition completion_default :: completion_state where
  "completion_default =
     \<lparr>cs_active = False, cs_is_emoji = False, cs_original_query = [], cs_current_text = [],
      cs_suggestions = [], cs_selected_index = None, cs_selection_mode = None\<rparr>"

definition activate :: "evaluator \<Rightarrow> bool \<Rightarrow> evaluator" where
  "activate ev emoji =
     ev\<lparr>ev_completion := (ev_completion ev)\<lparr>cs_active := True, cs_is_emoji := emoji,
          cs_original_query := [], cs_current_text := [], cs_suggestions := [],
          cs_selected_index := None, cs_selection_mode := None\<rparr>,
        ev_state := (ev_state ev)\<lparr>es_completion_active := True\<rparr>\<rparr>"

definition deactivate :: "evaluator \<Rightarrow> evaluator" where
  "deactivate ev =
     ev\<lparr>ev_completion := (ev_completion ev)\<lparr>cs_active := False, cs_is_emoji := False,
          cs_original_query := [], cs_current_text := [], cs_suggestions := [],
          cs_selected_index := None, cs_selection_mode := None\<rparr>,
        ev_state := (ev_state ev)\<lparr>es_completion_active := False\<rparr>\<rparr>"

definition clear_selection :: "completion_state \<Rightarrow> completion_state" where
  "clear_selection cs = cs\<lparr>cs_selected_index := None, cs_selection_mode := None\<rparr>"

definition has_selection :: "completion_state \<Rightarrow> bool" where
  "has_selection cs \<longleftrightarrow> cs_selection_mode cs \<noteq> None"

definition evaluator_new :: "engine_state \<Rightarrow> evaluator" where
  "evaluator_new st =
     \<lparr>ev_buffer = buffer_new, ev_state = st\<lparr>es_completion_active := False\<rparr>,
      ev_completion = completion_default, ev_captured_ai_clipboard = None\<rparr>"

definition evaluator_reset :: "evaluator \<Rightarrow> evaluator" where
  "evaluator_reset ev =
     (deactivate (ev\<lparr>ev_buffer := buffer_clear (ev_buffer ev)\<rparr>))\<lparr>ev_captured_ai_clipboard := None\<rparr>"

section \<open>Queries\<close>

definition pop_char_from_query :: "string \<Rightarrow> string" where
  "pop_char_from_query query = butlast query"

fun strip_ws_end :: "string \<Rightarrow> string" where
  "strip_ws_end chars =
     (if chars \<noteq> [] \<and> is_whitespace (last chars) then strip_ws_end (butlast chars) else chars)"

fun strip_class_end :: "bool \<Rightarrow> string \<Rightarrow> string" where
  "strip_class_end alphanumeric chars =
     (if chars = [] then []
      else if is_whitespace (last chars) then chars
      else if is_alphanumeric (last chars) = alphanumeric then strip_class_end alphanumeric (butlast chars)
      else chars)"

declare strip_ws_end.simps [simp del] strip_class_end.simps [simp del]

definition pop_word_from_query :: "string \<Rightarrow> string" where
  "pop_word_from_query query =
     (let chars = strip_ws_end query in
      if chars = [] then [] else strip_class_end (is_alphanumeric (last chars)) chars)"

definition is_buffer_valid_for_completion :: "assist_env \<Rightarrow> evaluator \<Rightarrow> bool" where
  "is_buffer_valid_for_completion ae ev =
     (if cs_is_emoji (ev_completion ev)
      then extract_trigger_word (ev_buffer ev) (ae_emoji_trigger ae) \<noteq> None
      else extract_tail_word (ev_buffer ev) \<noteq> None)"

definition is_completion_active :: "assist_env \<Rightarrow> evaluator \<Rightarrow> bool" where
  "is_completion_active ae ev \<longleftrightarrow> cs_active (ev_completion ev) \<and> is_buffer_valid_for_completion ae ev"

definition has_active_selection :: "assist_env \<Rightarrow> evaluator \<Rightarrow> bool" where
  "has_active_selection ae ev \<longleftrightarrow> is_completion_active ae ev \<and> has_selection (ev_completion ev)"

definition cancel_completion :: "evaluator \<Rightarrow> evaluator" where
  "cancel_completion ev = deactivate ev"

text \<open>The suggestions for a query: emoji shortcodes behind the trigger character, or word triggers.\<close>

definition suggestions_for :: "assist_env \<Rightarrow> evaluator \<Rightarrow> string \<Rightarrow> string list" where
  "suggestions_for ae ev query =
     (if cs_is_emoji (ev_completion ev)
      then (let clean_query = (case strip_prefix [ae_emoji_trigger ae] query of None \<Rightarrow> query | Some q \<Rightarrow> q)
            in map (\<lambda>s. ae_emoji_trigger ae # s) (search_emoji_shortcodes (ae_emojis ae) clean_query))
      else matching_word_triggers (ev_state ev) query)"

definition set_suggestions :: "evaluator \<Rightarrow> string list \<Rightarrow> evaluator" where
  "set_suggestions ev sugg = ev\<lparr>ev_completion := (ev_completion ev)\<lparr>cs_suggestions := sugg\<rparr>\<rparr>"

definition rebuild_completion_suggestions :: "assist_env \<Rightarrow> evaluator \<Rightarrow> string \<Rightarrow> evaluator" where
  "rebuild_completion_suggestions ae ev query =
     (if \<not> cs_active (ev_completion ev) \<or> \<not> es_inline_tab_completion_enabled (ev_state ev) \<or> query = []
      then set_suggestions ev []
      else set_suggestions ev (suggestions_for ae ev query))"

definition apply_user_query :: "assist_env \<Rightarrow> evaluator \<Rightarrow> string \<Rightarrow> evaluator" where
  "apply_user_query ae ev query =
     (let trigger = ae_emoji_trigger ae;
          shown = (if cs_is_emoji (ev_completion ev)
                   then (if prefix [trigger] query then query else trigger # query)
                   else query);
          cs = clear_selection ((ev_completion ev)\<lparr>cs_current_text := shown, cs_original_query := query\<rparr>)
      in rebuild_completion_suggestions ae (ev\<lparr>ev_completion := cs\<rparr>) query)"

definition rewrite_current_text :: "evaluator \<Rightarrow> string \<Rightarrow> evaluator \<times> completion_rewrite" where
  "rewrite_current_text ev replacement =
     (let delete_count = length (cs_current_text (ev_completion ev));
          b = foldl push (pop_n (ev_buffer ev) delete_count) replacement
      in (ev\<lparr>ev_buffer := b, ev_completion := (ev_completion ev)\<lparr>cs_current_text := replacement\<rparr>\<rparr>,
          \<lparr>cr_delete_count = delete_count, cr_replacement = replacement\<rparr>))"

definition rewrite_selected_query :: "assist_env \<Rightarrow> evaluator \<Rightarrow> bool \<Rightarrow> evaluator \<times> completion_rewrite option" where
  "rewrite_selected_query ae ev word =
     (if \<not> is_buffer_valid_for_completion ae ev then (deactivate ev, None)
      else if \<not> cs_active (ev_completion ev) \<or> \<not> has_selection (ev_completion ev) then (ev, None)
      else
        (let lookup_query = cs_original_query (ev_completion ev);
             next_query = (if word then pop_word_from_query lookup_query else pop_char_from_query lookup_query);
             (ev', rewrite) = rewrite_current_text ev next_query
         in (apply_user_query ae ev' next_query, Some rewrite)))"

definition update_completion_after_char :: "assist_env \<Rightarrow> evaluator \<Rightarrow> char \<Rightarrow> evaluator" where
  "update_completion_after_char ae ev c =
     (if es_instant_expand (ev_state ev) then ev
      else if ae_emoji_enabled ae \<and> c = ae_emoji_trigger ae \<and> \<not> cs_active (ev_completion ev) \<and>
              is_word_boundary (ev_buffer ev)
      then activate ev True
      else if \<not> cs_active (ev_completion ev) then ev
      else apply_user_query ae ev (cs_current_text (ev_completion ev) @ [c]))"

definition sync_completion_from_buffer :: "assist_env \<Rightarrow> evaluator \<Rightarrow> evaluator" where
  "sync_completion_from_buffer ae ev =
     (if \<not> cs_active (ev_completion ev) then ev
      else if cs_is_emoji (ev_completion ev) then
        (case extract_trigger_word (ev_buffer ev) (ae_emoji_trigger ae) of
           None \<Rightarrow> deactivate ev
         | Some query \<Rightarrow>
             if list_ex (\<lambda>ch. \<not> is_alphanumeric ch \<and> ch \<noteq> CHR ''-'' \<and> ch \<noteq> CHR ''_'') query
             then deactivate ev
             else apply_user_query ae ev query)
      else
        (case extract_tail_word (ev_buffer ev) of
           None \<Rightarrow> deactivate ev
         | Some tail \<Rightarrow> apply_user_query ae ev tail))"

section \<open>Cycling\<close>

definition next_index :: "nat option \<Rightarrow> bool \<Rightarrow> nat \<Rightarrow> nat" where
  "next_index selected forward suggestion_count =
     (case (selected, forward) of
        (Some index, True) \<Rightarrow> (index + 1) mod suggestion_count
      | (Some index, False) \<Rightarrow> (index + suggestion_count - 1) mod suggestion_count
      | (None, True) \<Rightarrow> 0
      | (None, False) \<Rightarrow> suggestion_count - 1)"

definition cycle_completion :: "assist_env \<Rightarrow> evaluator \<Rightarrow> bool \<Rightarrow> evaluator \<times> completion_rewrite option" where
  "cycle_completion ae ev forward =
     (let cs = ev_completion ev in
      if \<not> es_inline_tab_completion_enabled (ev_state ev)
      then (ev\<lparr>ev_completion := cs\<lparr>cs_suggestions := [], cs_selected_index := None,
                 cs_selection_mode := (if cs_selection_mode cs = Some Completion_Mode then None
                                       else cs_selection_mode cs)\<rparr>\<rparr>, None)
      else if \<not> is_buffer_valid_for_completion ae ev then (deactivate ev, None)
      else if \<not> cs_active cs \<or> cs_original_query cs = [] then (ev, None)
      else
        (let suggestions = suggestions_for ae ev (cs_original_query cs) in
         if suggestions = []
         then (ev\<lparr>ev_completion := cs\<lparr>cs_suggestions := [], cs_selected_index := None\<rparr>\<rparr>, None)
         else
           (let i = next_index (cs_selected_index cs) forward (length suggestions);
                (ev', rewrite) = rewrite_current_text (set_suggestions ev suggestions) (suggestions ! i)
            in (ev'\<lparr>ev_completion := (ev_completion ev')\<lparr>cs_selected_index := Some i,
                      cs_selection_mode := Some Completion_Mode\<rparr>\<rparr>, Some rewrite))))"

text \<open>Both activations share all but the last step.\<close>

definition start_completion :: "evaluator \<Rightarrow> evaluator option" where
  "start_completion ev =
     (case extract_tail_word (ev_buffer ev) of
        None \<Rightarrow> None
      | Some tail_word \<Rightarrow>
          (let suggestions = matching_word_triggers (ev_state ev) tail_word in
           if suggestions = [] then None
           else
             (let ev' = activate ev False
              in Some (ev'\<lparr>ev_completion := (ev_completion ev')\<lparr>cs_current_text := tail_word,
                         cs_original_query := tail_word, cs_suggestions := suggestions\<rparr>\<rparr>))))"

definition activate_triggerless_completion :: "assist_env \<Rightarrow> evaluator \<Rightarrow> evaluator \<times> completion_rewrite option" where
  "activate_triggerless_completion ae ev =
     (case start_completion ev of
        None \<Rightarrow> (ev, None)
      | Some ev' \<Rightarrow> cycle_completion ae ev' True)"

definition activate_triggerless_completion_no_cycle :: "evaluator \<Rightarrow> evaluator \<times> unit option" where
  "activate_triggerless_completion_no_cycle ev =
     (case start_completion ev of
        None \<Rightarrow> (ev, None)
      | Some ev' \<Rightarrow> (ev', Some ()))"

section \<open>Deleting a word\<close>

lemma strip_ws_end_rev: "strip_ws_end s = rev (dropWhile is_whitespace (rev s))"
proof (induction s rule: strip_ws_end.induct)
  case (1 s)
  show ?case
  proof (cases "rev s")
    case Nil
    then show ?thesis by (simp add: strip_ws_end.simps [of "[]"])
  next
    case (Cons c cs)
    then have s: "s = rev cs @ [c]" by (simp add: rev_eq_Cons_iff)
    show ?thesis
    proof (cases "is_whitespace c")
      case True
      then show ?thesis using 1 unfolding s by (simp add: strip_ws_end.simps [of "rev cs @ [c]"])
    next
      case False
      then show ?thesis unfolding s by (simp add: strip_ws_end.simps [of "rev cs @ [c]"])
    qed
  qed
qed

lemma strip_class_end_rev:
  "strip_class_end a s = rev (dropWhile (\<lambda>x. \<not> is_whitespace x \<and> is_alphanumeric x = a) (rev s))"
proof (induction a s rule: strip_class_end.induct)
  case (1 a s)
  show ?case
  proof (cases "rev s")
    case Nil
    then show ?thesis by (simp add: strip_class_end.simps [of a "[]"])
  next
    case (Cons c cs)
    then have s: "s = rev cs @ [c]" by (simp add: rev_eq_Cons_iff)
    show ?thesis
    proof (cases "\<not> is_whitespace c \<and> is_alphanumeric c = a")
      case True
      then show ?thesis using 1 unfolding s by (simp add: strip_class_end.simps [of a "rev cs @ [c]"])
    next
      case False
      then show ?thesis unfolding s by (auto simp: strip_class_end.simps [of a "rev cs @ [c]"])
    qed
  qed
qed

lemma pop_word_from_query_drop: "pop_word_from_query q = rev (drop_word (rev q))"
proof (cases "dropWhile is_whitespace (rev q)")
  case (Cons c cs)
  then show ?thesis
    by (simp add: pop_word_from_query_def strip_ws_end_rev drop_word_def strip_class_end_rev Let_def)
next
  case Nil
  then show ?thesis
    unfolding pop_word_from_query_def strip_ws_end_rev drop_word_def Nil by simp
qed

text \<open>Deleting a word of the query and deleting a word of the typing buffer are the same
  operation on texts, and so are the two ways of deleting a character.\<close>

theorem query_deletion_is_buffer_deletion:
  assumes "ring_inv b"
  shows "pop_word_from_query (contents b) = contents (pop_word b) \<and>
    pop_char_from_query (contents b) = contents (pop b)"
  using pop_word_spec [OF assms] assms
  by (metis contents_pop pop_char_from_query_def pop_word_from_query_drop rev_rev_ident)

theorem query_deletion_is_buffer_deletion_witness:
  "pop_word_from_query ''a>m'' = ''a>'' \<and> contents (pop_word demo_ring) = ''a>''"
proof -
  have "pop_word_from_query ''a>m'' = ''a>''" by code_simp
  then show ?thesis
    using query_deletion_is_buffer_deletion [OF demo_ring_inv] by (simp add: demo_ring_contents)
qed

section \<open>The invariant of the completion\<close>

text \<open>
  The text on the screen: the buffer ends with it, up to the characters the full buffer forgot.
\<close>

definition shown_in :: "fast_buffer \<Rightarrow> string \<Rightarrow> bool" where
  "shown_in b t \<longleftrightarrow> (\<exists>p. contents b = lastn fast_buffer_capacity (p @ t))"

lemma shown_push: "ring_inv b \<Longrightarrow> shown_in b t \<Longrightarrow> shown_in (push b c) (t @ [c])"
  unfolding shown_in_def
proof -
  assume b: "ring_inv b" and "\<exists>p. contents b = lastn fast_buffer_capacity (p @ t)"
  then obtain p where "contents b = lastn fast_buffer_capacity (p @ t)" by blast
  then have "contents (push b c) = lastn fast_buffer_capacity (p @ t @ [c])"
    using b by simp
  then show "\<exists>p. contents (push b c) = lastn fast_buffer_capacity (p @ t @ [c])" by blast
qed

lemma shown_rewrite: "ring_inv b \<Longrightarrow> shown_in (foldl push (pop_n b n) r) r"
  unfolding shown_in_def pop_n_funpow
  by (metis fb.invar_funpow_remove fb.text_foldl_add)

lemma shown_suffix: "ring_inv b \<Longrightarrow> suffix t (contents b) \<Longrightarrow> shown_in b t"
  unfolding shown_in_def by (metis lastn_all length_contents_cap suffixE)

lemma tail_word_suffix: "ring_inv b \<Longrightarrow> extract_tail_word b = Some w \<Longrightarrow> suffix w (contents b)"
proof -
  assume "ring_inv b" and "extract_tail_word b = Some w"
  then have "w = rev (takeWhile (\<lambda>c. \<not> is_whitespace c) (rtext b))"
    by (auto simp: extract_tail_word_list Let_def split: if_splits)
  then show ?thesis
    by (metis rev_rev_ident suffix_to_prefix takeWhile_is_prefix)
qed

definition assist_inv :: "evaluator \<Rightarrow> bool" where
  "assist_inv ev \<longleftrightarrow>
     (let cs = ev_completion ev in
      ring_inv (ev_buffer ev) \<and>
      es_completion_active (ev_state ev) = cs_active cs \<and>
      (\<not> cs_active cs \<longrightarrow> cs = completion_default) \<and>
      (\<forall>i. cs_selected_index cs = Some i \<longrightarrow>
         has_selection cs \<and> i < length (cs_suggestions cs) \<and> cs_current_text cs = cs_suggestions cs ! i) \<and>
      (cs_active cs \<and> \<not> cs_is_emoji cs \<longrightarrow> shown_in (ev_buffer ev) (cs_current_text cs)))"

lemma assist_inv_new: "assist_inv (evaluator_new st)"
  by (simp add: assist_inv_def evaluator_new_def completion_default_def)

lemma deactivate_default: "ev_completion (deactivate ev) = completion_default"
  by (simp add: deactivate_def completion_default_def)

lemma assist_inv_deactivate: "ring_inv (ev_buffer ev) \<Longrightarrow> assist_inv (deactivate ev)"
  by (simp add: assist_inv_def deactivate_def completion_default_def)

lemma assist_inv_reset: "ring_inv (ev_buffer ev) \<Longrightarrow> assist_inv (evaluator_reset ev)"
  by (simp add: assist_inv_def evaluator_reset_def deactivate_def completion_default_def)

lemma assist_inv_ring [dest]: "assist_inv ev \<Longrightarrow> ring_inv (ev_buffer ev)"
  by (simp add: assist_inv_def Let_def)

lemma apply_user_query_frame [simp]:
  "ev_buffer (apply_user_query ae ev q) = ev_buffer ev"
  "ev_state (apply_user_query ae ev q) = ev_state ev"
  "ev_captured_ai_clipboard (apply_user_query ae ev q) = ev_captured_ai_clipboard ev"
  by (simp_all add: apply_user_query_def rebuild_completion_suggestions_def set_suggestions_def Let_def)

lemma apply_user_query_completion:
  "cs_active (ev_completion (apply_user_query ae ev q)) = cs_active (ev_completion ev)"
  "cs_is_emoji (ev_completion (apply_user_query ae ev q)) = cs_is_emoji (ev_completion ev)"
  "cs_selected_index (ev_completion (apply_user_query ae ev q)) = None"
  "\<not> cs_is_emoji (ev_completion ev) \<Longrightarrow> cs_current_text (ev_completion (apply_user_query ae ev q)) = q"
  by (simp_all add: apply_user_query_def rebuild_completion_suggestions_def set_suggestions_def
      clear_selection_def Let_def)

lemma assist_inv_apply:
  assumes "ring_inv (ev_buffer ev)" and "es_completion_active (ev_state ev)" and "cs_active (ev_completion ev)"
    and "\<not> cs_is_emoji (ev_completion ev) \<Longrightarrow> shown_in (ev_buffer ev) q"
  shows "assist_inv (apply_user_query ae ev q)"
  using assms by (simp add: assist_inv_def Let_def apply_user_query_completion)

lemma assist_inv_sync:
  assumes "ring_inv (ev_buffer ev)" and "es_completion_active (ev_state ev) = cs_active (ev_completion ev)"
    and "\<not> cs_active (ev_completion ev) \<Longrightarrow> ev_completion ev = completion_default"
  shows "assist_inv (sync_completion_from_buffer ae ev)"
proof (cases "cs_active (ev_completion ev)")
  case False
  with assms have "assist_inv ev"
    by (simp add: assist_inv_def Let_def completion_default_def)
  then show ?thesis using False by (simp add: sync_completion_from_buffer_def)
next
  case True
  note d = assist_inv_deactivate [OF assms(1)]
  show ?thesis
  proof (cases "cs_is_emoji (ev_completion ev)")
    case e: True
    then show ?thesis using True assms d
      by (auto simp: sync_completion_from_buffer_def intro!: assist_inv_apply split: option.split)
  next
    case False
    then show ?thesis using True assms d
      by (auto simp: sync_completion_from_buffer_def intro!: assist_inv_apply shown_suffix
          dest: tail_word_suffix split: option.split)
  qed
qed

lemma assist_inv_char:
  assumes "assist_inv ev" and "\<not> es_instant_expand (ev_state ev)"
  shows "assist_inv (update_completion_after_char ae (ev\<lparr>ev_buffer := push (ev_buffer ev) c\<rparr>) c)"
proof -
  let ?ev = "ev\<lparr>ev_buffer := push (ev_buffer ev) c\<rparr>"
  have r: "ring_inv (push (ev_buffer ev) c)" using assms(1) by auto
  show ?thesis
  proof (cases "cs_active (ev_completion ev)")
    case False
    then have "assist_inv ?ev" "assist_inv (activate ?ev True)"
      using assms(1) r
      by (simp_all add: assist_inv_def Let_def activate_def completion_default_def)
    then show ?thesis using False assms(2) by (auto simp: update_completion_after_char_def)
  next
    case True
    then have "assist_inv (apply_user_query ae ?ev (cs_current_text (ev_completion ev) @ [c]))"
      using assms(1) r by (intro assist_inv_apply) (auto simp: assist_inv_def Let_def intro: shown_push)
    then show ?thesis using True assms(2) by (simp add: update_completion_after_char_def)
  qed
qed

lemma rewrite_current_text_frame:
  "rewrite_current_text ev r = (ev', rw) \<Longrightarrow>
   ev_state ev' = ev_state ev \<and> ev_captured_ai_clipboard ev' = ev_captured_ai_clipboard ev \<and>
   ev_completion ev' = (ev_completion ev)\<lparr>cs_current_text := r\<rparr> \<and>
   ev_buffer ev' = foldl push (pop_n (ev_buffer ev) (cr_delete_count rw)) r \<and>
   cr_delete_count rw = length (cs_current_text (ev_completion ev)) \<and> cr_replacement rw = r"
  by (auto simp: rewrite_current_text_def Let_def)

lemma ring_inv_rewrite: "ring_inv b \<Longrightarrow> ring_inv (foldl push (pop_n b n) r)"
  by (simp add: pop_n_funpow fb.invar_foldl_add fb.invar_funpow_remove)

lemma assist_inv_selected_query:
  assumes "assist_inv ev"
  shows "assist_inv (fst (rewrite_selected_query ae ev word))"
proof -
  have r: "ring_inv (ev_buffer ev)" using assms by auto
  have "assist_inv (apply_user_query ae (fst (rewrite_current_text ev q)) q)"
    if "cs_active (ev_completion ev)" for q
  proof -
    obtain ev' rw where e: "rewrite_current_text ev q = (ev', rw)" by (cases "rewrite_current_text ev q")
    note f = rewrite_current_text_frame [OF e]
    show ?thesis unfolding e fst_conv
      using assms that f r ring_inv_rewrite [OF r] shown_rewrite [OF r]
      by (intro assist_inv_apply) (auto simp: assist_inv_def Let_def)
  qed
  then show ?thesis
    using assms assist_inv_deactivate [OF r]
    by (auto simp: rewrite_selected_query_def Let_def split: prod.splits) (metis fst_conv)+
qed

lemma next_index_less: "0 < n \<Longrightarrow> next_index sel forward n < n"
  by (cases sel; cases forward) (auto simp: next_index_def)

lemma assist_inv_cycle:
  assumes "assist_inv ev"
  shows "assist_inv (fst (cycle_completion ae ev forward))"
proof -
  let ?cs = "ev_completion ev"
  have r: "ring_inv (ev_buffer ev)" using assms by auto
  let ?sg = "suggestions_for ae ev (cs_original_query ?cs)"
  let ?i = "next_index (cs_selected_index ?cs) forward (length ?sg)"
  obtain ev' rw where e: "rewrite_current_text (set_suggestions ev ?sg) (?sg ! ?i) = (ev', rw)"
    by (cases "rewrite_current_text (set_suggestions ev ?sg) (?sg ! ?i)")
  note f = rewrite_current_text_frame [OF e]
  consider (off) "\<not> es_inline_tab_completion_enabled (ev_state ev)"
    | (invalid) "es_inline_tab_completion_enabled (ev_state ev)" "\<not> is_buffer_valid_for_completion ae ev"
    | (idle) "es_inline_tab_completion_enabled (ev_state ev)" "is_buffer_valid_for_completion ae ev"
        "\<not> cs_active ?cs \<or> cs_original_query ?cs = []"
    | (none) "es_inline_tab_completion_enabled (ev_state ev)" "is_buffer_valid_for_completion ae ev"
        "cs_active ?cs" "cs_original_query ?cs \<noteq> []" "?sg = []"
    | (turn) "es_inline_tab_completion_enabled (ev_state ev)" "is_buffer_valid_for_completion ae ev"
        "cs_active ?cs" "cs_original_query ?cs \<noteq> []" "?sg \<noteq> []"
    by blast
  then show ?thesis
  proof cases
    case off
    then show ?thesis using assms
      by (auto simp: cycle_completion_def assist_inv_def Let_def has_selection_def completion_default_def)
  next
    case invalid
    then show ?thesis using assist_inv_deactivate [OF r] by (simp add: cycle_completion_def Let_def)
  next
    case idle
    then show ?thesis using assms by (auto simp: cycle_completion_def Let_def)
  next
    case none
    then show ?thesis using assms by (simp add: cycle_completion_def assist_inv_def Let_def)
  next
    case turn
    then have "fst (cycle_completion ae ev forward) =
        ev'\<lparr>ev_completion := (ev_completion ev')\<lparr>cs_selected_index := Some ?i,
              cs_selection_mode := Some Completion_Mode\<rparr>\<rparr>"
      using e by (simp add: cycle_completion_def Let_def)
    then show ?thesis
      using assms turn f ring_inv_rewrite [OF r] shown_rewrite [OF r] next_index_less [of "length ?sg"]
      by (simp add: assist_inv_def Let_def has_selection_def set_suggestions_def)
  qed
qed

lemma assist_inv_start:
  assumes "assist_inv ev" and "start_completion ev = Some ev'"
  shows "assist_inv ev'"
proof -
  have r: "ring_inv (ev_buffer ev)" using assms(1) by auto
  obtain w where w: "extract_tail_word (ev_buffer ev) = Some w"
    and ev': "ev_buffer ev' = ev_buffer ev" "es_completion_active (ev_state ev')"
      "cs_active (ev_completion ev')" "cs_selected_index (ev_completion ev') = None"
      "cs_current_text (ev_completion ev') = w"
    using assms(2) by (auto simp: start_completion_def activate_def Let_def split: option.splits if_splits)
  from r w have "shown_in (ev_buffer ev) w" by (blast intro: shown_suffix tail_word_suffix)
  with r ev' show ?thesis by (simp add: assist_inv_def Let_def)
qed

lemma assist_inv_activate:
  "assist_inv ev \<Longrightarrow> assist_inv (fst (activate_triggerless_completion ae ev))"
  "assist_inv ev \<Longrightarrow> assist_inv (fst (activate_triggerless_completion_no_cycle ev))"
  by (auto simp: activate_triggerless_completion_def activate_triggerless_completion_no_cycle_def
      intro: assist_inv_cycle assist_inv_start split: option.splits)

section \<open>Cycling offers every suggestion in turn\<close>

lemma tail_word_exists:
  "ring_inv b \<Longrightarrow> extract_tail_word b \<noteq> None \<longleftrightarrow> contents b \<noteq> [] \<and> \<not> is_whitespace (last (contents b))"
  by (cases "rtext b") (auto simp: extract_tail_word_list Let_def rev_eq_Cons_iff)

definition completing :: "evaluator \<Rightarrow> string \<Rightarrow> string \<Rightarrow> bool" where
  "completing ev p q \<longleftrightarrow>
     ring_inv (ev_buffer ev) \<and> es_inline_tab_completion_enabled (ev_state ev) \<and>
     cs_active (ev_completion ev) \<and> \<not> cs_is_emoji (ev_completion ev) \<and>
     cs_original_query (ev_completion ev) = q \<and>
     contents (ev_buffer ev) = p @ cs_current_text (ev_completion ev) \<and>
     cs_current_text (ev_completion ev) \<noteq> [] \<and>
     \<not> is_whitespace (last (cs_current_text (ev_completion ev)))"

definition offers :: "string \<Rightarrow> string list \<Rightarrow> bool" where
  "offers p sugg \<longleftrightarrow> sugg \<noteq> [] \<and>
     (\<forall>s\<in>set sugg. s \<noteq> [] \<and> \<not> is_whitespace (last s) \<and> length (p @ s) \<le> fast_buffer_capacity)"

lemma cycle_step:
  fixes forward :: bool
  assumes "completing ev p q" and "q \<noteq> []" and "offers p (matching_word_triggers (ev_state ev) q)"
  defines "sugg \<equiv> matching_word_triggers (ev_state ev) q"
  defines "i \<equiv> next_index (cs_selected_index (ev_completion ev)) forward (length sugg)"
  shows "completing (fst (cycle_completion ae ev forward)) p q \<and>
    ev_state (fst (cycle_completion ae ev forward)) = ev_state ev \<and>
    cs_selected_index (ev_completion (fst (cycle_completion ae ev forward))) = Some i \<and>
    cs_current_text (ev_completion (fst (cycle_completion ae ev forward))) = sugg ! i \<and>
    snd (cycle_completion ae ev forward) =
      Some \<lparr>cr_delete_count = length (cs_current_text (ev_completion ev)), cr_replacement = sugg ! i\<rparr>"
proof -
  note c = assms(1) [unfolded completing_def]
  have i: "i < length sugg"
    using assms(3) by (simp add: i_def sugg_def offers_def next_index_less)
  then have si: "sugg ! i \<in> set sugg" by simp
  have valid: "is_buffer_valid_for_completion ae ev"
    using c tail_word_exists [of "ev_buffer ev"] by (simp add: is_buffer_valid_for_completion_def)
  have sf: "suggestions_for ae ev (cs_original_query (ev_completion ev)) = sugg"
    using c by (simp add: suggestions_for_def sugg_def)
  let ?n = "length (cs_current_text (ev_completion ev))"
  let ?b = "foldl push (pop_n (ev_buffer ev) ?n) (sugg ! i)"
  have "contents ?b = lastn fast_buffer_capacity (p @ sugg ! i)"
    using c unfolding pop_n_funpow by (blast intro: fb.text_rewrite)
  then have b: "contents ?b = p @ sugg ! i"
    using assms(3) si by (simp add: offers_def sugg_def)
  have "cycle_completion ae ev forward =
    (ev\<lparr>ev_buffer := ?b, ev_completion := (ev_completion ev)\<lparr>cs_suggestions := sugg,
       cs_current_text := sugg ! i, cs_selected_index := Some i, cs_selection_mode := Some Completion_Mode\<rparr>\<rparr>,
     Some \<lparr>cr_delete_count = ?n, cr_replacement = sugg ! i\<rparr>)"
    using c valid sf assms(2,3)
    by (simp add: cycle_completion_def Let_def rewrite_current_text_def set_suggestions_def
        i_def offers_def sugg_def)
  then show ?thesis
    using c b si ring_inv_rewrite assms(3) by (simp add: completing_def offers_def sugg_def)
qed

lemma cycle_many:
  fixes ae :: assist_env
  assumes "completing ev p q" and "q \<noteq> []" and "cs_selected_index (ev_completion ev) = None"
    and "offers p (matching_word_triggers (ev_state ev) q)"
  defines "sugg \<equiv> matching_word_triggers (ev_state ev) q"
  defines "turn \<equiv> \<lambda>ev. fst (cycle_completion ae ev True)"
  shows "completing ((turn ^^ Suc k) ev) p q \<and> ev_state ((turn ^^ Suc k) ev) = ev_state ev \<and>
    cs_selected_index (ev_completion ((turn ^^ Suc k) ev)) = Some (k mod length sugg) \<and>
    cs_current_text (ev_completion ((turn ^^ Suc k) ev)) = sugg ! (k mod length sugg)"
proof (induction k)
  case 0
  show ?case
    using cycle_step [OF assms(1,2,4), where ae = ae and forward = True] assms(3)
    by (simp add: turn_def next_index_def sugg_def)
next
  case (Suc k)
  let ?e = "(turn ^^ Suc k) ev"
  have "completing ?e p q" "ev_state ?e = ev_state ev"
    "cs_selected_index (ev_completion ?e) = Some (k mod length sugg)"
    using Suc by auto
  moreover have "next_index (Some (k mod length sugg)) True (length sugg) = Suc k mod length sugg"
    by (simp add: next_index_def mod_Suc_eq)
  ultimately show ?case
    using cycle_step [where ev = ?e and p = p and q = q and ae = ae and forward = True] assms(2,4)
    by (simp add: turn_def sugg_def)
qed

text \<open>C12: After the completion of a word has started, \<open>k + 1\<close> presses of the completion key leave the
  suggestion number \<open>k\<close>, counted around the list, in the place of the word: every suggestion is
  offered, in order, and the text before the word is untouched.\<close>

theorem cycling_offers_every_suggestion:
  assumes "completing ev p q" and "q \<noteq> []" and "cs_selected_index (ev_completion ev) = None"
    and "offers p (matching_word_triggers (ev_state ev) q)"
  shows "contents (ev_buffer (((\<lambda>e. fst (cycle_completion ae e True)) ^^ Suc k) ev)) =
    p @ matching_word_triggers (ev_state ev) q ! (k mod length (matching_word_triggers (ev_state ev) q))"
  using cycle_many [OF assms, of k ae] unfolding completing_def by simp

definition demo_words :: engine_state where
  "demo_words = load_word_actions engine_state_new
     [(''hello'', text_action ''Hello!''), (''help'', text_action ''Help me''), (''gm'', text_action ''Good morning'')]"

definition demo_assist :: assist_env where
  "demo_assist = \<lparr>ae_emoji_enabled = True, ae_emoji_trigger = CHR '':'',
     ae_emojis = \<lparr>ed_aliases = [],
       ed_emojis = [\<lparr>em_str = ''E'', em_name = ''smiling'', em_shortcodes = [''smile'', ''smirk'']\<rparr>],
       ed_get_by_shortcode = (\<lambda>s. if s = ''smile'' then Some ''E'' else None)\<rparr>\<rparr>"

lemma demo_matching: "matching_word_triggers demo_words ''he'' = [''hello'', ''help'']"
  by code_simp

definition demo_typing :: evaluator where
  "demo_typing =
     (evaluator_new demo_words)\<lparr>ev_buffer := ring_of ''say he'',
       ev_completion := completion_default\<lparr>cs_active := True, cs_current_text := ''he'',
         cs_original_query := ''he''\<rparr>\<rparr>"

theorem cycling_offers_every_suggestion_witness:
  "contents (ev_buffer (((\<lambda>e. fst (cycle_completion demo_assist e True)) ^^ Suc 3) demo_typing)) = ''say help''"
proof -
  have st: "ev_state demo_typing = demo_words\<lparr>es_completion_active := False\<rparr>"
    by (simp add: demo_typing_def evaluator_new_def)
  then have m: "matching_word_triggers (ev_state demo_typing) ''he'' = [''hello'', ''help'']"
    using demo_matching by (simp add: matching_word_triggers_def)
  have tab: "es_inline_tab_completion_enabled demo_words" by code_simp
  have "completing demo_typing ''say '' ''he''"
    using tab by (simp add: completing_def st)
      (simp add: demo_typing_def completion_default_def is_whitespace_def fast_buffer_capacity_def)
  moreover have "offers ''say '' (matching_word_triggers (ev_state demo_typing) ''he'')"
    by (simp add: m offers_def is_whitespace_def fast_buffer_capacity_def)
  moreover have "cs_selected_index (ev_completion demo_typing) = None"
    by (simp add: demo_typing_def completion_default_def)
  ultimately show ?thesis
    using cycling_offers_every_suggestion [of demo_typing "''say ''" "''he''" 3 demo_assist]
    by (simp add: m numeral_3_eq_3 mod_Suc)
qed

end
