(* ===== verification/Evaluator.thy ===== *)
theory Evaluator
  imports Completion
begin

text \<open>
  The evaluator, \<open>core/src/engine/evaluator.rs\<close>, \<open>expansion.rs\<close> and \<open>fallback.rs\<close>: what one input event
  does to the typing buffer, to the completion and to the text on the screen.  The services it calls
  (colours, units, time zones, dictionaries, the clipboard, regular expressions) are fields of
  \<open>eval_env\<close>; a spinner frame, whose characters lie outside the model's, is one of them.
\<close>

section \<open>Events and results\<close>

datatype engine_event =
    CharEvent char
  | BackspaceEvent
  | WordBackspaceEvent
  | ActionKeyEvent
  | InterruptEvent
  | PasteEvent string

datatype dictionary_lookup_type = Meaning | Synonyms | Antonyms

datatype expansion_follow_up =
    FollowInlineAi string "string option"
  | FollowAiTransformer string
  | FollowDictionary string dictionary_lookup_type

record expansion_result =
  er_delete_count :: nat
  er_steps :: "expansion_step list"
  er_trigger :: string
  er_undo_trigger :: "string option"
  er_is_calculation :: bool
  er_stat_kind :: trigger_stat_kind
  er_track_usage :: bool
  er_follow_up :: "expansion_follow_up option"

record ('f, 'd) eval_env =
  ee_assist :: assist_env
  ee_catalog :: "('f, 'd) catalog_env"
  ee_db :: dev_database
  ee_regex :: regex_engine
  ee_convert_color :: "string \<Rightarrow> string option"
  ee_is_conversion_pattern :: "string \<Rightarrow> bool"
  ee_convert :: "string \<Rightarrow> string option"
  ee_is_indian_currency :: "string \<Rightarrow> bool"
  ee_f64_at_least_1000 :: "'f \<Rightarrow> bool"
  ee_dict_captures :: "string \<Rightarrow> (string \<times> (string \<Rightarrow> string option)) option"
  ee_tau_prefix :: "string \<Rightarrow> bool"
  ee_tau_captures :: "string \<Rightarrow> (string \<times> string) option"
  ee_placeholder_matches :: "string \<Rightarrow> bool"
  ee_placeholder_replace :: "string \<Rightarrow> string \<Rightarrow> string"
  ee_clipboard :: "string option"
  ee_thinking_text :: string
  ee_first_frame :: string

section \<open>Markers\<close>

text \<open>
  \<open>contains_non_sys_markers\<close>: whether some marker between the control characters 3 and 4 is not a
  \<open>sys:\<close> one.  \<open>split_once\<close> is \<open>find\<close> followed by the two slices.
\<close>

lemma split_once_shorter: "split_once c s = Some (a, b) \<Longrightarrow> length b < length s"
proof (induction s arbitrary: a b)
  case (Cons d s)
  then show ?case by (cases "d = c") (auto intro: less_SucI)
qed simp

function contains_non_sys_markers :: "string \<Rightarrow> bool" where
  "contains_non_sys_markers s =
     (case split_once (CHR 0x03) s of
        None \<Rightarrow> False
      | Some (_, after) \<Rightarrow>
          (case split_once (CHR 0x04) after of
             None \<Rightarrow> False
           | Some (content, rest) \<Rightarrow>
               (case split_once (CHR 0x1F) content of
                  None \<Rightarrow> True
                | Some (_, kind) \<Rightarrow>
                    if \<not> prefix ''sys:'' kind then True else contains_non_sys_markers rest)))"
  by pat_completeness auto
termination
  by (relation "measure length") (auto dest!: split_once_shorter)

declare contains_non_sys_markers.simps [simp del]

definition get_initial_spinner_text :: "('f, 'd) eval_env \<Rightarrow> string \<Rightarrow> string" where
  "get_initial_spinner_text env template =
     (if contains_non_sys_markers template then ee_thinking_text env else ee_first_frame env)"

section \<open>Inline conversions, emoji and dictionary\<close>

definition calculation_result :: "string \<Rightarrow> string \<Rightarrow> expansion_result" where
  "calculation_result word result_text =
     \<lparr>er_delete_count = length word, er_steps = [TextStep result_text], er_trigger = word,
      er_undo_trigger = Some word, er_is_calculation = True, er_stat_kind = Calculation,
      er_track_usage = True, er_follow_up = None\<rparr>"

text \<open>
  The thousands of the result: as in the input, or by lakh and crore for an Indian target of a
  thousand or more.  \<open>None\<close> of \<open>format_result\<close> is its loop not ending, which needs a group of no
  digits; \<open>grouping_returns\<close> below shows that it does not happen here.
\<close>

definition grouped :: "('f, 'd) eval_env \<Rightarrow> string \<Rightarrow> nat list \<Rightarrow> string" where
  "grouped env result_text ivs =
     (case format_result (ce_split_re (ee_catalog env)) result_text ivs of None \<Rightarrow> result_text | Some t \<Rightarrow> t)"

definition leading_number :: "string \<Rightarrow> string" where
  "leading_number s =
     takeWhile (\<lambda>c. is_ascii_digit c \<or> c = CHR ''.'' \<or> c = CHR ''+'' \<or> c = CHR ''-'') s"

definition needs_indian_grouping :: "('f, 'd) eval_env \<Rightarrow> string \<Rightarrow> string \<Rightarrow> bool" where
  "needs_indian_grouping env to_unit result_text \<longleftrightarrow>
     ee_is_indian_currency env to_unit \<and>
     (case f_parse (ce_f64 (ee_catalog env)) (leading_number result_text) of
        None \<Rightarrow> False
      | Some n \<Rightarrow> ee_f64_at_least_1000 env (f_abs (ce_f64 (ee_catalog env)) n))"

definition conversion_stage :: "('f, 'd) eval_env \<Rightarrow> fast_buffer \<Rightarrow> expansion_result option" where
  "conversion_stage env b =
     (case extract_tail_word b of
        None \<Rightarrow> None
      | Some word \<Rightarrow>
          (case ee_convert_color env word of
             Some result_text \<Rightarrow> Some (calculation_result word result_text)
           | None \<Rightarrow>
               (let (cleaned_word, ivs) = preprocess (ce_find_re (ee_catalog env)) word in
                if \<not> ee_is_conversion_pattern env cleaned_word then None
                else case ee_convert env cleaned_word of
                  None \<Rightarrow> None
                | Some result_text \<Rightarrow>
                    (let to_unit = last (split_on CHR ''='' cleaned_word);
                         formatted =
                           (if needs_indian_grouping env to_unit result_text
                            then grouped env result_text [3, 2]
                            else case ivs of
                              Some i \<Rightarrow> grouped env result_text i
                            | None \<Rightarrow> result_text)
                     in Some (calculation_result word formatted)))))"

definition emoji_stage :: "('f, 'd) eval_env \<Rightarrow> fast_buffer \<Rightarrow> expansion_result option" where
  "emoji_stage env b =
     (let trigger = ae_emoji_trigger (ee_assist env) in
      if \<not> ae_emoji_enabled (ee_assist env) then None
      else case extract_trigger_word b trigger of
        None \<Rightarrow> None
      | Some word \<Rightarrow>
          (case lookup_emoji (ae_emojis (ee_assist env)) word of
             None \<Rightarrow> None
           | Some emoji \<Rightarrow>
               Some \<lparr>er_delete_count = 1 + length word, er_steps = [TextStep emoji], er_trigger = word,
                     er_undo_trigger = Some (trigger # word), er_is_calculation = False,
                     er_stat_kind = Snippet, er_track_usage = True, er_follow_up = None\<rparr>))"

fun first_group :: "(string \<Rightarrow> string option) \<Rightarrow> string list \<Rightarrow> string option" where
  "first_group caps [] = None"
| "first_group caps (name # names) =
     (case caps name of Some w \<Rightarrow> Some w | None \<Rightarrow> first_group caps names)"

definition dictionary_word :: "(string \<Rightarrow> string option) \<Rightarrow> (string \<times> dictionary_lookup_type) option" where
  "dictionary_word caps =
     (case first_group caps [''def1'', ''def2'', ''def3'', ''def4''] of
        Some w \<Rightarrow> Some (w, Meaning)
      | None \<Rightarrow>
          (case first_group caps [''syn1'', ''syn2''] of
             Some w \<Rightarrow> Some (w, Synonyms)
           | None \<Rightarrow>
               (case first_group caps [''ant1'', ''ant2'', ''ant3'', ''ant4''] of
                  Some w \<Rightarrow> Some (w, Antonyms)
                | None \<Rightarrow> None)))"

definition dictionary_stage :: "('f, 'd) eval_env \<Rightarrow> engine_state \<Rightarrow> fast_buffer \<Rightarrow> expansion_result option" where
  "dictionary_stage env st b =
     (if \<not> es_inline_dictionary_enabled st \<or> \<not> has_dictionary_intent b then None
      else case ee_dict_captures env (buffer_string b) of
        None \<Rightarrow> None
      | Some (matched, caps) \<Rightarrow>
          (case dictionary_word caps of
             None \<Rightarrow> None
           | Some (word, lookup_type) \<Rightarrow>
               Some \<lparr>er_delete_count = length matched, er_steps = [TextStep (ee_thinking_text env)],
                     er_trigger = word, er_undo_trigger = None, er_is_calculation = False,
                     er_stat_kind = Snippet, er_track_usage = True,
                     er_follow_up = Some (FollowDictionary word lookup_type)\<rparr>))"

section \<open>Triggers\<close>

definition trigger_result :: "('f, 'd) eval_env \<Rightarrow> string \<Rightarrow> final_expansion \<Rightarrow> expansion_result" where
  "trigger_result env word expansion =
     (case fe_ai_template expansion of
        Some template \<Rightarrow>
          \<lparr>er_delete_count = length word, er_steps = [TextStep (get_initial_spinner_text env template)],
           er_trigger = word, er_undo_trigger = None, er_is_calculation = False, er_stat_kind = InlineAi,
           er_track_usage = True, er_follow_up = Some (FollowAiTransformer template)\<rparr>
      | None \<Rightarrow>
          \<lparr>er_delete_count = length word, er_steps = fe_steps expansion, er_trigger = word,
           er_undo_trigger = undo_trigger_for_steps word (fe_steps expansion),
           er_is_calculation = fe_is_calculation expansion,
           er_stat_kind = stat_kind_for_steps (fe_is_calculation expansion) (fe_steps expansion),
           er_track_usage = True, er_follow_up = None\<rparr>)"

definition is_boundary :: "char option \<Rightarrow> bool" where
  "is_boundary prev_char = (case prev_char of None \<Rightarrow> True | Some c \<Rightarrow> \<not> is_alphanumeric c)"

text \<open>\<open>fetch_window.take()\<close> hands the fetcher to the first boundary candidate; the later ones get none.\<close>

fun candidate_loop ::
  "('f, 'd) eval_env \<Rightarrow> engine_state \<Rightarrow> (string \<times> char option) list \<Rightarrow> window_resolver \<Rightarrow> window_fetch \<Rightarrow>
   expansion_result with_window" where
  "candidate_loop env st [] window fetch = (None, window, fetch)"
| "candidate_loop env st ((word, prev_char) # candidates) window fetch =
     (if is_boundary prev_char then
        (case state_fetch_no_date_lazy (ee_catalog env) (ee_db env) st word window fetch of
           (Some expansion, window', _) \<Rightarrow> (Some (trigger_result env word expansion), window', None)
         | (None, window', _) \<Rightarrow> candidate_loop env st candidates window' None)
      else candidate_loop env st candidates window fetch)"

definition regex_stage ::
  "('f, 'd) eval_env \<Rightarrow> engine_state \<Rightarrow> fast_buffer \<Rightarrow> window_resolver \<Rightarrow> window_fetch \<Rightarrow> expansion_result option" where
  "regex_stage env st b window fetch =
     (if es_regex_catalog st = [] then None
      else case fst (regex_match_lazy (ee_regex env) (es_regex_catalog st) (buffer_string b) window fetch) of
        None \<Rightarrow> None
      | Some (keyword, action, captures) \<Rightarrow>
          map_option (trigger_result env keyword)
            (expand_trigger_action_with_args (ee_catalog env) action
               (no_args\<lparr>a_positional := captures\<rparr>) keyword))"

section \<open>Fallbacks over the last words\<close>

definition fallback_candidates :: "string \<Rightarrow> string list" where
  "fallback_candidates buf_str =
     (let ws = split_whitespace buf_str;
          max_words = min 6 (length ws)
      in map (\<lambda>k. join_with '' '' (drop (length ws - k) ws)) (rev [1..<max_words + 1]))"

fun first_some :: "('a \<Rightarrow> 'b option) \<Rightarrow> 'a list \<Rightarrow> 'b option" where
  "first_some f [] = None"
| "first_some f (x # xs) = (case f x of Some y \<Rightarrow> Some y | None \<Rightarrow> first_some f xs)"

definition answer_for :: "(string \<Rightarrow> string option) \<Rightarrow> string \<Rightarrow> expansion_result option" where
  "answer_for f candidate = map_option (calculation_result candidate) (f candidate)"

definition fallback_date :: "('f, 'd) eval_env \<Rightarrow> engine_state \<Rightarrow> string \<Rightarrow> string option" where
  "fallback_date env st candidate =
     (let cat = ee_catalog env; candidate_clean = trim_plus candidate in
      if \<not> ce_has_intent cat candidate then None
      else if is_excluded_phrase candidate_clean then None
      else case ce_natural_date cat candidate_clean (es_dialect st) of
        None \<Rightarrow> None
      | Some (dt, is_date, is_time) \<Rightarrow>
          Some (ce_format_datetime cat dt
            (if is_date \<and> is_time then es_datetime_format st
             else if is_time then es_time_format st else es_date_format st)))"

definition trim_end_non_alphanumeric :: "string \<Rightarrow> string" where
  "trim_end_non_alphanumeric w = rev (dropWhile (\<lambda>c. \<not> is_alphanumeric c) (rev w))"

definition fallback_emoji :: "('f, 'd) eval_env \<Rightarrow> string \<Rightarrow> expansion_result option" where
  "fallback_emoji env candidate =
     (let phrase = join_with '' '' (map trim_end_non_alphanumeric (split_whitespace candidate)) in
      case strip_suffix '' emoji'' phrase of
        None \<Rightarrow> None
      | Some trimmed \<Rightarrow>
          if trimmed = [] \<or> list_all is_whitespace trimmed then None
          else case search_natural_language_emojis (ae_emojis (ee_assist env)) trimmed of
            [] \<Rightarrow> None
          | emoji # _ \<Rightarrow>
              Some \<lparr>er_delete_count = length candidate, er_steps = [TextStep emoji], er_trigger = candidate,
                    er_undo_trigger = Some candidate, er_is_calculation = False, er_stat_kind = Snippet,
                    er_track_usage = True, er_follow_up = None\<rparr>)"

definition check_all_inline_fallbacks ::
  "('f, 'd) eval_env \<Rightarrow> engine_state \<Rightarrow> fast_buffer \<Rightarrow> expansion_result option" where
  "check_all_inline_fallbacks env st b =
     (let buf_str = buffer_string b; cat = ee_catalog env; candidates = fallback_candidates buf_str in
      if str_trim buf_str = [] then None
      else if min 6 (length (split_whitespace buf_str)) = 0 then None
      else or_else (first_some (answer_for (ce_convert_natural cat)) candidates)
          (or_else (if ce_datetime_enabled cat
                    then or_else
                      (first_some (answer_for (\<lambda>c. ce_timezone cat c (ce_time_format cat) (es_dialect st))) candidates)
                      (first_some (answer_for (fallback_date env st)) candidates)
                    else None)
          (or_else (first_some (answer_for (ee_convert_color env)) candidates)
                   (if ae_emoji_enabled (ee_assist env)
                    then first_some (fallback_emoji env) candidates else None))))"

section \<open>The evaluation of the buffer\<close>

definition evaluation ::
  "('f, 'd) eval_env \<Rightarrow> engine_state \<Rightarrow> fast_buffer \<Rightarrow> window_resolver \<Rightarrow> window_fetch \<Rightarrow> expansion_result option" where
  "evaluation env st b window fetch =
     (let instant = es_instant_expand st in
      or_else (if instant then None else conversion_stage env b)
     (or_else (if instant then None else emoji_stage env b)
     (or_else (if instant then None else dictionary_stage env st b)
     (let (found, window', fetch') = candidate_loop env st (rev (extract_suffix_candidates b)) window fetch in
      or_else found
     (or_else (regex_stage env st b window' fetch')
              (if instant then None else check_all_inline_fallbacks env st b))))))"

text \<open>Every branch that returns a result clears the buffer first.\<close>

definition evaluate_buffer_for_expansion_lazy ::
  "('f, 'd) eval_env \<Rightarrow> evaluator \<Rightarrow> window_resolver \<Rightarrow> window_fetch \<Rightarrow> evaluator \<times> expansion_result option" where
  "evaluate_buffer_for_expansion_lazy env ev window fetch =
     (case evaluation env (ev_state ev) (ev_buffer ev) window fetch of
        Some result \<Rightarrow> (ev\<lparr>ev_buffer := buffer_clear (ev_buffer ev)\<rparr>, Some result)
      | None \<Rightarrow> (ev, None))"

section \<open>Inline prompts\<close>

definition has_inline_ai_prefix :: "('f, 'd) eval_env \<Rightarrow> evaluator \<Rightarrow> bool" where
  "has_inline_ai_prefix env ev = ee_tau_prefix env (last (split_on (CHR 0x0A) (buffer_string (ev_buffer ev))))"

definition set_captured_ai_clipboard :: "evaluator \<Rightarrow> string \<Rightarrow> evaluator" where
  "set_captured_ai_clipboard ev txt = ev\<lparr>ev_captured_ai_clipboard := Some txt\<rparr>"

definition append_to_buffer :: "evaluator \<Rightarrow> string \<Rightarrow> evaluator" where
  "append_to_buffer ev txt = ev\<lparr>ev_buffer := foldl push (ev_buffer ev) txt\<rparr>"

text \<open>\<open>str::replace\<close> of a text that is not empty.\<close>

function str_replace :: "string \<Rightarrow> string \<Rightarrow> string \<Rightarrow> string" where
  "str_replace pat new s =
     (if s = [] then []
      else if pat \<noteq> [] \<and> prefix pat s then new @ str_replace pat new (drop (length pat) s)
      else hd s # str_replace pat new (tl s))"
  by pat_completeness auto
termination
  by (relation "measure (\<lambda>(_, _, s). length s)") auto

declare str_replace.simps [simp del]

definition or_default :: "string option \<Rightarrow> string" where
  "or_default x = (case x of None \<Rightarrow> [] | Some t \<Rightarrow> t)"

definition resolve_prompt :: "('f, 'd) eval_env \<Rightarrow> string option \<Rightarrow> string \<Rightarrow> string \<times> string option" where
  "resolve_prompt env captured prompt =
     (let (resolved, captured') =
            (if ee_placeholder_matches env prompt
             then (ee_placeholder_replace env prompt (or_default (or_else captured (ee_clipboard env))), None)
             else (prompt, None));
          resolved' = (if has_window ''[clip]'' resolved
                       then str_replace ''[clip]'' (or_default (ee_clipboard env)) resolved else resolved)
      in (resolved', captured'))"

definition check_inline_ai_trigger :: "('f, 'd) eval_env \<Rightarrow> evaluator \<Rightarrow> evaluator \<times> expansion_result option" where
  "check_inline_ai_trigger env ev =
     (case ee_tau_captures env (last (split_on (CHR 0x0A) (buffer_string (ev_buffer ev)))) of
        None \<Rightarrow> (ev, None)
      | Some (full_span, prompt) \<Rightarrow>
          (let prompt_raw = str_trim prompt in
           if prompt_raw = [] then (ev, None)
           else
             (let (resolved, captured) = resolve_prompt env (ev_captured_ai_clipboard ev) prompt_raw;
                  ev' = ev\<lparr>ev_buffer := buffer_clear (ev_buffer ev), ev_captured_ai_clipboard := captured\<rparr>;
                  trimmed_prompt = str_trim resolved
              in if trimmed_prompt = [] then (ev', None)
                 else (ev', Some
                   \<lparr>er_delete_count = length full_span, er_steps = [TextStep (ee_thinking_text env)],
                    er_trigger = ''tau,'', er_undo_trigger = None, er_is_calculation = False,
                    er_stat_kind = InlineAi, er_track_usage = False,
                    er_follow_up = Some (FollowInlineAi trimmed_prompt None)\<rparr>))))"

text \<open>The number of lines \<open>str::lines\<close> yields: a final newline does not start another line.\<close>

definition line_count :: "string \<Rightarrow> nat" where
  "line_count s =
     (let pieces = split_on (CHR 0x0A) s in if last pieces = [] then length pieces - 1 else length pieces)"

definition format_clipboard_placeholder :: "string \<Rightarrow> string" where
  "format_clipboard_placeholder clip_text =
     (let lines = line_count clip_text in
      if 1 < lines then ''[clip: '' @ show_nat lines @ '' lines]''
      else
        (let words = length (split_whitespace clip_text) in
         if words = 1 then ''[clip: 1 word]'' else ''[clip: '' @ show_nat words @ '' words]''))"

section \<open>One event\<close>

definition process_event ::
  "('f, 'd) eval_env \<Rightarrow> evaluator \<Rightarrow> engine_event \<Rightarrow> window_resolver \<Rightarrow> window_fetch \<Rightarrow>
   evaluator \<times> expansion_result option" where
  "process_event env ev event window fetch =
     (let ae = ee_assist env in
      if fullscreen_suppressed (ev_state ev)
      then (deactivate (ev\<lparr>ev_buffer := buffer_clear (ev_buffer ev)\<rparr>), None)
      else case event of
        InterruptEvent \<Rightarrow>
          ((deactivate (ev\<lparr>ev_buffer := buffer_clear (ev_buffer ev)\<rparr>))\<lparr>ev_captured_ai_clipboard := None\<rparr>, None)
      | BackspaceEvent \<Rightarrow>
          (if has_selection (ev_completion ev) then (fst (rewrite_selected_query ae ev False), None)
           else (sync_completion_from_buffer ae (ev\<lparr>ev_buffer := pop (ev_buffer ev)\<rparr>), None))
      | WordBackspaceEvent \<Rightarrow>
          (if has_selection (ev_completion ev) then (fst (rewrite_selected_query ae ev True), None)
           else (sync_completion_from_buffer ae (ev\<lparr>ev_buffer := pop_word (ev_buffer ev)\<rparr>), None))
      | ActionKeyEvent \<Rightarrow>
          (let was_completion_active = cs_active (ev_completion ev);
               (ev1, ai_result) = (if es_inline_ai_enabled (ev_state ev)
                                   then check_inline_ai_trigger env ev else (ev, None));
               (ev2, result) = (case ai_result of
                                  Some r \<Rightarrow> (ev1, Some r)
                                | None \<Rightarrow> evaluate_buffer_for_expansion_lazy env ev1 window fetch);
               ev3 = (if was_completion_active then deactivate ev2 else ev2);
               ev4 = (if result = None \<and> \<not> cs_active (ev_completion ev3)
                      then ev3\<lparr>ev_buffer := push (ev_buffer ev3) (CHR 0x0A)\<rparr> else ev3)
           in (ev4, result))
      | PasteEvent _ \<Rightarrow> (ev, None)
      | CharEvent c \<Rightarrow>
          (let ev1 = update_completion_after_char ae (ev\<lparr>ev_buffer := push (ev_buffer ev) c\<rparr>) c in
           if es_instant_expand (ev_state ev1) then
             (case evaluate_buffer_for_expansion_lazy env ev1 window fetch of
                (ev2, Some result) \<Rightarrow>
                  (if cs_active (ev_completion ev2) then deactivate ev2 else ev2, Some result)
              | (ev2, None) \<Rightarrow> (ev2, None))
           else (ev1, None)))"

definition process_event_info ::
  "('f, 'd) eval_env \<Rightarrow> evaluator \<Rightarrow> engine_event \<Rightarrow> active_window_info option \<Rightarrow>
   evaluator \<times> expansion_result option" where
  "process_event_info env ev event w = process_event env ev event (from_info w) None"

definition process_event_lazy ::
  "('f, 'd) eval_env \<Rightarrow> evaluator \<Rightarrow> engine_event \<Rightarrow> active_window_info option \<Rightarrow>
   evaluator \<times> expansion_result option" where
  "process_event_lazy env ev event w = process_event env ev event lazy (Some w)"

section \<open>What the services promise\<close>

text \<open>
  The two regular expressions end in \<open>$\<close>, so their matches are at the end of the text; the number
  expression of \<open>comma.rs\<close> and the patterns of the user keep the contracts stated with them.
\<close>

definition env_contract :: "('f, 'd) eval_env \<Rightarrow> bool" where
  "env_contract env \<longleftrightarrow>
     (\<forall>s m caps. ee_dict_captures env s = Some (m, caps) \<longrightarrow> suffix m s) \<and>
     (\<forall>s full prompt. ee_tau_captures env s = Some (full, prompt) \<longrightarrow> suffix full s) \<and>
     regex_contract (ee_regex env) \<and> split_contract (ce_split_re (ee_catalog env))"

lemma interval_loop_positive:
  "\<forall>k\<in>set ivs. 0 < k \<Longrightarrow> \<forall>k\<in>set (interval_loop cs n ivs). 0 < k"
proof (induction cs arbitrary: n ivs)
  case (Cons c cs)
  consider "c = CHR '',''" "0 < n" | "c = CHR '',''" "n = 0"
    | "c \<noteq> CHR '',''" "is_ascii_digit c" | "c \<noteq> CHR '',''" "\<not> is_ascii_digit c"
    by blast
  then show ?case
  proof cases
    case 1
    then have "\<forall>k\<in>set (ivs @ [n]). 0 < k" using Cons.prems by simp
    from Cons.IH [OF this] show ?thesis using 1 by simp
  qed (use Cons.IH [OF Cons.prems] in simp_all)
qed simp

lemma preprocess_positive:
  "preprocess find_re word = (cleaned, Some ivs) \<Longrightarrow> \<forall>k\<in>set ivs. 0 < k"
  unfolding preprocess_def Let_def using interval_loop_positive [of "[]"]
  by (auto split: option.splits if_splits)

lemma grouping_returns:
  assumes "env_contract env" and "ivs = [3, 2] \<or> preprocess find_re word = (cleaned, Some ivs)"
  shows "format_result (ce_split_re (ee_catalog env)) result_text ivs = Some (grouped env result_text ivs)"
proof -
  have "\<forall>k\<in>set ivs. 0 < k"
    using assms(2) preprocess_positive [of find_re word cleaned ivs] by fastforce
  moreover have "split_contract (ce_split_re (ee_catalog env))"
    using assms(1) by (simp add: env_contract_def)
  ultimately show ?thesis
    using format_result_only_adds_commas [of "ce_split_re (ee_catalog env)" ivs result_text]
    by (auto simp: grouped_def)
qed

section \<open>The text a result deletes\<close>

text \<open>The characters deleted are the last ones of the buffer.\<close>

definition deletes :: "string \<Rightarrow> expansion_result \<Rightarrow> string \<Rightarrow> bool" where
  "deletes s r t \<longleftrightarrow> er_delete_count r = length t \<and> suffix t s"

lemma deletes_bound: "deletes s r t \<Longrightarrow> er_delete_count r \<le> length s"
  by (auto simp: deletes_def dest: suffix_length_le)

lemma trigger_word_suffix:
  assumes "ring_inv b" and "extract_trigger_word b tc = Some w"
  shows "suffix (tc # w) (contents b)"
proof -
  from assms have "trigger_word_list tc None [] (rtext b) = Some w"
    by (auto simp: extract_trigger_word_list split: if_splits)
  then obtain pre post where "rtext b = pre @ tc # post" and "w = rev pre"
    by (auto dest: trigger_word_list_split)
  then have "contents b = rev post @ tc # w"
    by (metis append.assoc append_Cons append_Nil rev.simps(2) rev_append rev_rev_ident)
  then show ?thesis by (simp add: suffix_def)
qed

lemma calculation_result_simps [simp]:
  "er_delete_count (calculation_result w t) = length w" "er_undo_trigger (calculation_result w t) = Some w"
  "er_trigger (calculation_result w t) = w"
  by (simp_all add: calculation_result_def)

lemma conversion_stage_deletes:
  assumes "ring_inv b" and "conversion_stage env b = Some r"
  shows "\<exists>w. deletes (contents b) r w \<and> er_undo_trigger r = Some w"
proof -
  from assms(2) obtain w t where "extract_tail_word b = Some w" and "r = calculation_result w t"
    by (auto simp: conversion_stage_def Let_def split: option.splits prod.splits if_splits)
  then show ?thesis using tail_word_suffix [OF assms(1)] by (auto simp: deletes_def)
qed

lemma emoji_stage_deletes:
  assumes "ring_inv b" and "emoji_stage env b = Some r"
  shows "\<exists>w. deletes (contents b) r w \<and> er_undo_trigger r = Some w"
proof -
  let ?tc = "ae_emoji_trigger (ee_assist env)"
  from assms(2) obtain w where "extract_trigger_word b ?tc = Some w"
    and "er_delete_count r = length (?tc # w)" and "er_undo_trigger r = Some (?tc # w)"
    by (auto simp: emoji_stage_def Let_def split: option.splits if_splits)
  then show ?thesis using trigger_word_suffix [OF assms(1)] by (auto simp: deletes_def)
qed

lemma dictionary_stage_deletes:
  assumes "env_contract env" and "dictionary_stage env st b = Some r"
  shows "\<exists>w. deletes (contents b) r w \<and> er_undo_trigger r = None"
  using assms
  by (auto simp: dictionary_stage_def env_contract_def deletes_def split: option.splits if_splits) blast

lemma trigger_result_simps [simp]:
  "er_delete_count (trigger_result env w fe) = length w"
  "er_trigger (trigger_result env w fe) = w"
  "er_undo_trigger (trigger_result env w fe) = Some u \<Longrightarrow> u = w"
  by (auto simp: trigger_result_def undo_trigger_for_steps_def split: option.splits if_splits)

lemma candidate_loop_word:
  "candidate_loop env st cs window fetch = (Some r, window', fetch') \<Longrightarrow>
   \<exists>word prev fe. (word, prev) \<in> set cs \<and> r = trigger_result env word fe"
proof (induction env st cs window fetch rule: candidate_loop.induct)
  case (2 env st word prev cs window fetch)
  then show ?case by (auto split: if_splits prod.splits option.splits) blast+
qed simp

lemma candidate_word:
  assumes "ring_inv b" and "(word, prev) \<in> set (extract_suffix_candidates b)"
  shows "\<exists>t. suffix t (contents b) \<and> word = map flat_space t"
proof -
  let ?c = "map flat_space (take 30 (rtext b))"
  from assms obtain k where k: "k \<in> set [1..<length ?c + 1]" "word = rev (take k ?c)"
    by (auto simp: extract_suffix_candidates_spec Let_def simp del: upt_Suc)
  let ?t = "rev (take (min k 30) (rtext b))"
  have "suffix ?t (contents b)"
    by (metis rev_rev_ident suffix_to_prefix take_is_prefix)
  moreover have "word = map flat_space ?t"
    unfolding k(2) by (simp add: take_map rev_map [symmetric])
  ultimately show ?thesis by blast
qed

lemma regex_match_lazy_keyword:
  assumes "regex_contract re" and "fst (regex_match_lazy re entries buffer window fetch) = Some (m, action, caps)"
  shows "suffix m buffer"
  using assms
proof (induction re entries buffer window fetch rule: regex_match_lazy.induct)
  case (2 re pattern action' entries buffer window fetch)
  have hit: "suffix x buffer" if "regex_hit re pattern buffer = Some x" for x
  proof -
    from that obtain b where "re_last_match re pattern buffer = Some (b, x, [])"
      by (auto simp: regex_hit_def split: option.splits if_splits)
    then have "buffer = b @ x @ []" using "2.prems"(1) unfolding regex_contract_def by blast
    then show ?thesis by (simp add: suffix_def)
  qed
  show ?case
    using 2 hit by (auto split: option.splits prod.splits if_splits)
qed simp

text \<open>A text whose blanks are single and not at the end; there the joined words are the text.\<close>

fun single_spaced :: "string \<Rightarrow> bool" where
  "single_spaced [] = True"
| "single_spaced [c] = (\<not> is_whitespace c)"
| "single_spaced (c # d # s) = (\<not> (is_whitespace c \<and> is_whitespace d) \<and> single_spaced (d # s))"

lemma single_spaced_tl: "single_spaced (c # s) \<Longrightarrow> single_spaced s"
  by (cases s) auto

lemma single_spaced_ws: "single_spaced (c # s) \<Longrightarrow> is_whitespace c \<Longrightarrow> s \<noteq> [] \<and> \<not> is_whitespace (hd s)"
  by (cases s) auto

lemma join_split_ws_acc:
  assumes "\<forall>c\<in>set acc. \<not> is_whitespace c" and "single_spaced s"
    and "acc = [] \<Longrightarrow> s \<noteq> [] \<Longrightarrow> \<not> is_whitespace (hd s)"
  shows "join_with '' '' (split_ws_acc acc s) = rev acc @ map flat_space s"
  using assms
proof (induction s arbitrary: acc)
  case Nil
  then show ?case by simp
next
  case (Cons c s)
  show ?case
  proof (cases "is_whitespace c")
    case True
    then have acc: "acc \<noteq> []" and s: "s \<noteq> []" "\<not> is_whitespace (hd s)"
      using Cons.prems single_spaced_ws [of c s] by auto
    then have j: "join_with '' '' (split_ws_acc [] s) = map flat_space s"
      using Cons.IH [of "[]"] Cons.prems(2) single_spaced_tl by simp
    then have "split_ws_acc [] s \<noteq> []" using s(1) by auto
    then show ?thesis using acc True j by (simp add: join_with_Cons flat_space_def)
  next
    case False
    then show ?thesis
      using Cons.IH [of "c # acc"] Cons.prems single_spaced_tl [of c s]
      by (simp add: flat_space_def)
  qed
qed

lemma join_split_whitespace:
  assumes "single_spaced s"
  shows "suffix (join_with '' '' (split_whitespace s)) (map flat_space s)"
proof (cases "s \<noteq> [] \<and> is_whitespace (hd s)")
  case True
  then obtain c r where s: "s = c # r" and c: "is_whitespace c" by (cases s) auto
  then have "join_with '' '' (split_ws_acc [] r) = map flat_space r"
    using assms single_spaced_tl single_spaced_ws join_split_ws_acc [of "[]" r] by auto
  then show ?thesis using s c by (simp add: split_whitespace_def suffix_ConsI)
next
  case False
  then show ?thesis using assms join_split_ws_acc [of "[]" s] by (auto simp: split_whitespace_def)
qed

lemma suffix_join_drop: "suffix (join_with sep (drop j ws)) (join_with sep ws)"
proof (induction ws arbitrary: j)
  case (Cons w ws)
  show ?case
  proof (cases j)
    case (Suc i)
    have "suffix (join_with sep ws) (join_with sep (w # ws))"
      by (cases "ws = []") (simp_all add: join_with_Cons suffix_def)
    then show ?thesis using Suc Cons.IH [of i] suffix_order.trans by auto
  qed simp
qed simp

lemma length_join_split_ws: "length (join_with '' '' (split_ws_acc acc s)) \<le> length acc + length s"
proof (induction s arbitrary: acc)
  case (Cons c s)
  show ?case
  proof (cases "is_whitespace c \<and> acc \<noteq> []")
    case True
    have "length (join_with '' '' (rev acc # split_ws_acc [] s)) \<le>
        length acc + 1 + length (join_with '' '' (split_ws_acc [] s))"
      by (cases "split_ws_acc [] s = []") (simp_all add: join_with_Cons)
    then show ?thesis using True Cons.IH [of "[]"] by simp
  next
    case False
    then show ?thesis using Cons.IH [of "[]"] Cons.IH [of "c # acc"] by auto
  qed
qed simp

lemma fallback_candidate:
  assumes "c \<in> set (fallback_candidates s)"
  shows "length c \<le> length s" and "single_spaced s \<Longrightarrow> suffix c (map flat_space s)"
proof -
  obtain j where c: "c = join_with '' '' (drop j (split_whitespace s))"
    using assms by (auto simp: fallback_candidates_def Let_def simp del: upt_Suc)
  have sf: "suffix c (join_with '' '' (split_whitespace s))" unfolding c by (rule suffix_join_drop)
  then show "length c \<le> length s"
    using length_join_split_ws [of "[]" s] by (auto simp: split_whitespace_def dest: suffix_length_le)
  assume "single_spaced s"
  then show "suffix c (map flat_space s)" using sf join_split_whitespace suffix_order.trans by blast
qed

lemma first_some_Some: "first_some f xs = Some y \<Longrightarrow> \<exists>x\<in>set xs. f x = Some y"
  by (induction xs) (auto split: option.splits)

lemma first_some_skip: "\<forall>x\<in>set xs. f x = None \<Longrightarrow> first_some f (xs @ ys) = first_some f ys"
  by (induction xs) auto

lemma fallback_result:
  assumes "check_all_inline_fallbacks env st b = Some r"
  shows "\<exists>c\<in>set (fallback_candidates (contents b)). er_delete_count r = length c \<and> er_undo_trigger r = Some c"
proof -
  have calc: "\<exists>c\<in>set cs. er_delete_count r = length c \<and> er_undo_trigger r = Some c"
    if "first_some (answer_for f) cs = Some r" for f cs
    using first_some_Some [OF that] by (auto simp: answer_for_def)
  have emoji: "\<exists>c\<in>set cs. er_delete_count r = length c \<and> er_undo_trigger r = Some c"
    if "first_some (fallback_emoji env) cs = Some r" for cs
  proof -
    from first_some_Some [OF that] obtain c where "c \<in> set cs" and c: "fallback_emoji env c = Some r" by blast
    moreover from c have "er_delete_count r = length c \<and> er_undo_trigger r = Some c"
      unfolding fallback_emoji_def Let_def
      by (auto split: option.split_asm list.split_asm if_split_asm)
    ultimately show ?thesis by blast
  qed
  show ?thesis
    using assms by (auto simp: check_all_inline_fallbacks_def Let_def or_else_Some_iff split: if_splits
        intro: calc emoji)
qed

lemma flat_space_idem [simp]: "flat_space (flat_space c) = flat_space c"
  by (simp add: flat_space_def is_whitespace_def)

lemma map_flat_space_idem [simp]: "map flat_space (map flat_space t) = map flat_space t"
  by simp

lemma regex_stage_word:
  assumes "env_contract env" and "regex_stage env st b window fetch = Some r"
  shows "\<exists>word fe. suffix word (contents b) \<and> r = trigger_result env word fe"
proof -
  from assms(2) obtain keyword action captures where
    m: "fst (regex_match_lazy (ee_regex env) (es_regex_catalog st) (contents b) window fetch) =
      Some (keyword, action, captures)"
    and r: "map_option (trigger_result env keyword)
      (expand_trigger_action_with_args (ee_catalog env) action
         (no_args\<lparr>a_positional := captures\<rparr>) keyword) = Some r"
    by (auto simp: regex_stage_def split: option.split_asm if_split_asm)
  have "suffix keyword (contents b)"
    using regex_match_lazy_keyword [OF _ m] assms(1) by (simp add: env_contract_def)
  then show ?thesis using r by auto
qed

text \<open>Where a result comes from, with the text it deletes.\<close>

lemma evaluation_cases:
  assumes "ring_inv b" and "env_contract env" and "evaluation env st b window fetch = Some r"
  obtains (inline) w where "deletes (contents b) r w" "er_undo_trigger r \<in> {None, Some w}"
    | (trigger) t fe where "suffix t (contents b)" "r = trigger_result env (map flat_space t) fe"
    | (pattern) t fe where "suffix t (contents b)" "r = trigger_result env t fe"
    | (fallback) c where "c \<in> set (fallback_candidates (contents b))" "er_delete_count r = length c"
        "er_undo_trigger r = Some c" "\<not> es_instant_expand st"
proof -
  obtain found window' fetch' where
    c: "candidate_loop env st (rev (extract_suffix_candidates b)) window fetch = (found, window', fetch')"
    by (cases "candidate_loop env st (rev (extract_suffix_candidates b)) window fetch")
  from assms(3) consider "conversion_stage env b = Some r" | "emoji_stage env b = Some r"
    | "dictionary_stage env st b = Some r" | "found = Some r"
    | "regex_stage env st b window' fetch' = Some r"
    | "\<not> es_instant_expand st" "check_all_inline_fallbacks env st b = Some r"
    by (auto simp: evaluation_def c or_else_Some_iff Let_def split: if_split_asm)
  then show ?thesis
  proof cases
    case 1
    then show ?thesis using conversion_stage_deletes [OF assms(1)] inline by blast
  next
    case 2
    then show ?thesis using emoji_stage_deletes [OF assms(1)] inline by blast
  next
    case 3
    then show ?thesis using dictionary_stage_deletes [OF assms(2)] inline by blast
  next
    case 4
    then obtain word prev fe where "(word, prev) \<in> set (extract_suffix_candidates b)"
      and "r = trigger_result env word fe"
      using candidate_loop_word [of env st _ window fetch r window' fetch'] c by fastforce
    then show ?thesis using candidate_word [OF assms(1)] trigger by blast
  next
    case 5
    then show ?thesis using regex_stage_word [OF assms(2)] pattern by blast
  next
    case 6
    then show ?thesis using fallback_result fallback by blast
  qed
qed

text \<open>C3: An expansion never deletes more characters than the user typed since the buffer was last
  cleared.  If moreover the typed text has no two blanks in a row and no blank at its end, the undo text
  restores exactly what was deleted, up to the kind of blank.\<close>

theorem expansion_deletes_typed_text:
  assumes "ring_inv b" and "env_contract env" and "evaluation env st b window fetch = Some r"
  shows "er_delete_count r \<le> length (contents b) \<and>
    (single_spaced (contents b) \<longrightarrow> (\<forall>u. er_undo_trigger r = Some u \<longrightarrow>
       map flat_space u = map flat_space (lastn (er_delete_count r) (contents b))))"
  using assms
proof (cases rule: evaluation_cases)
  case (inline w)
  then show ?thesis using deletes_bound [of "contents b" r w] by (auto simp: deletes_def lastn_suffix)
next
  case (trigger t fe)
  then show ?thesis
    using suffix_length_le [of t "contents b"]
    by (auto simp: lastn_suffix dest!: trigger_result_simps(3))
next
  case (pattern t fe)
  then show ?thesis
    using suffix_length_le [of t "contents b"]
    by (auto simp: lastn_suffix dest!: trigger_result_simps(3))
next
  case (fallback c)
  have "map flat_space c = map flat_space (lastn (length c) (contents b))" if "single_spaced (contents b)"
  proof -
    from fallback_candidate(2) [OF fallback(1) that] obtain p where p: "map flat_space (contents b) = p @ c"
      by (auto simp: suffix_def)
    then have "length (contents b) - length c = length p" by (metis add_diff_cancel_right' length_append length_map)
    then have "map flat_space (lastn (length c) (contents b)) = c"
      by (simp add: lastn_def drop_map [symmetric] p)
    then show ?thesis by (metis map_flat_space_idem)
  qed
  then show ?thesis using fallback fallback_candidate(1) [OF fallback(1)] by auto
qed

section \<open>The window\<close>

text \<open>With the window at hand every lookup sees it, and leaves it as it is.\<close>

lemma allowed_lazy_known [simp]: "allowed_lazy a (Some w) f = (is_app_allowed a w, Some w, f)"
  using unfiltered_allowed [of a w] by (auto simp: allowed_lazy_def resolve_window_def)

lemma try_action_known [simp]: "try_action get k (Some w) f = (allowed_action get w k, Some w, f)"
  by (simp add: try_action_def allowed_action_def split: option.split)

lemma get_raw_action_known [simp]: "get_raw_action_lazy get k (Some w) f = (get_raw_action get w k, Some w, f)"
  by (cases "allowed_action get w k") (simp_all add: get_raw_action_lazy_def get_raw_action_def Let_def)

lemma exact_known [simp]:
  "fetch_exact_match_lazy env get k (Some w) f = (exact_match env get w k, Some w, f)"
  by (simp add: fetch_exact_match_lazy_def exact_match_def split: option.split)

lemma hybrid_known [simp]:
  "fetch_hybrid_arguments_lazy env get k (Some w) f = (hybrid_match env get w k, Some w, f)"
  by (cases "tokenize_args k CHR '';''"; cases "tl (tokenize_args k CHR '';'')")
    (simp_all add: fetch_hybrid_arguments_lazy_def hybrid_match_def split: option.split)

text \<open>The answer to one word, triggers before arithmetic, currency words and units.\<close>

definition word_answer ::
  "('f, 'd) eval_env \<Rightarrow> engine_state \<Rightarrow> active_window_info option \<Rightarrow> string \<Rightarrow> final_expansion option" where
  "word_answer env st w word =
     (let cat = ee_catalog env; get = source_get (ee_db env) st; instant = es_instant_expand st in
      or_else (exact_match cat get w word) (or_else (hybrid_match cat get w word)
        (or_else (fetch_math_fallback cat word instant)
        (or_else (fetch_currency_words_fallback cat word instant)
                 (fetch_nl_unit_conversion_fallback cat word instant)))))"

definition candidate_answer ::
  "('f, 'd) eval_env \<Rightarrow> engine_state \<Rightarrow> active_window_info option \<Rightarrow> string \<times> char option \<Rightarrow>
   expansion_result option" where
  "candidate_answer env st w candidate =
     (if is_boundary (snd candidate)
      then map_option (trigger_result env (fst candidate)) (word_answer env st w (fst candidate)) else None)"

lemma no_date_known [simp]:
  "state_fetch_no_date_lazy (ee_catalog env) (ee_db env) st word (Some w) f = (word_answer env st w word, Some w, f)"
proof -
  let ?get = "source_get (ee_db env) st"
  show ?thesis
    by (cases "exact_match (ee_catalog env) ?get w word"; cases "hybrid_match (ee_catalog env) ?get w word")
      (simp_all add: state_fetch_no_date_lazy_def fetch_expansion_no_date_fallback_lazy_def then_try_def
        word_answer_def Let_def)
qed

lemma no_date_sees:
  assumes "will_see w window fetch"
  obtains window' fetch' where
    "state_fetch_no_date_lazy (ee_catalog env) (ee_db env) st word window fetch =
       (word_answer env st w word, window', fetch')" "will_see w window' fetch'"
  using fetch_no_date_will_see [OF assms, of "ee_catalog env" "source_get (ee_db env) st" word "es_instant_expand st"]
  by (auto simp: state_fetch_no_date_lazy_def word_answer_def Let_def)

lemma candidate_loop_known:
  "candidate_loop env st cs (Some w) f = (found, window', fetch') \<Longrightarrow>
   found = first_some (candidate_answer env st w) cs \<and> window' = Some w"
proof (induction cs arbitrary: f)
  case (Cons c cs)
  obtain word prev where c: "c = (word, prev)" by (cases c)
  show ?case
    using Cons unfolding c
    by (cases "word_answer env st w word") (auto simp: candidate_answer_def split: if_split_asm)
qed simp

lemma candidate_loop_blind:
  assumes "will_see None window None"
  shows "fst (candidate_loop env st cs window None) = first_some (candidate_answer env st None) cs"
  using assms
proof (induction cs arbitrary: window)
  case (Cons c cs)
  obtain word prev where c: "c = (word, prev)" by (cases c)
  show ?case
  proof (cases "is_boundary prev")
    case True
    obtain window' fetch' where
      f: "state_fetch_no_date_lazy (ee_catalog env) (ee_db env) st word window None =
        (word_answer env st None word, window', fetch')" and "will_see None window' fetch'"
      by (rule no_date_sees [OF Cons.prems])
    then have "will_see None window' None" by (auto simp: will_see_def)
    from Cons.IH [OF this] show ?thesis using True f unfolding c
      by (cases "word_answer env st None word") (simp_all add: candidate_answer_def)
  next
    case False
    then show ?thesis using Cons unfolding c by (simp add: candidate_answer_def)
  qed
qed simp

text \<open>C19: With the window at hand, an expansion by a trigger is the longest candidate at a word
  boundary that has an answer: exact trigger, then trigger with arguments, then arithmetic, currency
  words and units; every candidate is filtered by that window.\<close>

theorem longest_candidate_wins:
  assumes "word_answer env st w (fst (extract_suffix_candidates b ! k)) = Some fe"
    and "k < length (extract_suffix_candidates b)" and "is_boundary (snd (extract_suffix_candidates b ! k))"
    and "\<forall>j. k < j \<and> j < length (extract_suffix_candidates b) \<longrightarrow>
      candidate_answer env st w (extract_suffix_candidates b ! j) = None"
  shows "fst (candidate_loop env st (rev (extract_suffix_candidates b)) (from_info w) None) =
    Some (trigger_result env (fst (extract_suffix_candidates b ! k)) fe)"
proof -
  let ?cs = "extract_suffix_candidates b"
  have "rev ?cs = rev (drop (Suc k) ?cs) @ ?cs ! k # rev (take k ?cs)"
    using assms(2) by (metis append.assoc append_Cons append_Nil id_take_nth_drop rev.simps(2) rev_append)
  moreover have "candidate_answer env st w x = None" if x: "x \<in> set (drop (Suc k) ?cs)" for x
  proof -
    from x obtain i where "i < length (drop (Suc k) ?cs)" and "x = drop (Suc k) ?cs ! i"
      unfolding in_set_conv_nth by blast
    then show ?thesis using assms(4) [rule_format, of "Suc k + i"] by simp
  qed
  moreover have "candidate_answer env st w (?cs ! k) = Some (trigger_result env (fst (?cs ! k)) fe)"
    using assms(1,3) by (simp add: candidate_answer_def)
  ultimately have "first_some (candidate_answer env st w) (rev ?cs) =
      Some (trigger_result env (fst (?cs ! k)) fe)"
    by (simp add: first_some_skip)
  then show ?thesis
    using candidate_loop_known [of env st "rev ?cs" w None] by (cases "candidate_loop env st (rev ?cs) (Some w) None")
      (auto simp: from_info_def)
qed

text \<open>Fetching the window lazily is not the same: the fetcher is handed to the first candidate at a
  boundary, so when that one needs no window, all later ones are filtered as if no window was known
  and every trigger restricted to an application is denied.\<close>

theorem later_candidates_see_no_window:
  assumes "is_boundary prev"
    and "state_fetch_no_date_lazy (ee_catalog env) (ee_db env) st word lazy (Some w) = (None, lazy, fetch')"
  shows "fst (candidate_loop env st ((word, prev) # candidates) lazy (Some w)) =
    first_some (candidate_answer env st None) candidates"
  using assms candidate_loop_blind [of lazy env st candidates]
  by (simp add: lazy_def will_see_def)

section \<open>Examples\<close>

definition demo_env :: "(nat, unit) eval_env" where
  "demo_env =
     \<lparr>ee_assist = demo_assist, ee_catalog = plain_env, ee_db = \<lparr>dd_dev = False, dd_lookup = (\<lambda>_. None)\<rparr>,
      ee_regex = literal_engine,
      ee_convert_color = (\<lambda>w. if w = ''#f00'' then Some ''rgb(255, 0, 0)'' else None),
      ee_is_conversion_pattern = (\<lambda>_. False), ee_convert = (\<lambda>_. None), ee_is_indian_currency = (\<lambda>_. False),
      ee_f64_at_least_1000 = (\<lambda>_. False), ee_dict_captures = (\<lambda>_. None), ee_tau_prefix = (\<lambda>_. False),
      ee_tau_captures = (\<lambda>_. None), ee_placeholder_matches = (\<lambda>_. False),
      ee_placeholder_replace = (\<lambda>s _. s), ee_clipboard = None, ee_thinking_text = ''|'', ee_first_frame = ''|''\<rparr>"

lemma demo_env_contract: "env_contract demo_env"
  using literal_engine_contract plain_split_contract
  by (simp add: env_contract_def demo_env_def plain_env_def)

theorem expansion_deletes_typed_text_witness:
  "\<exists>r. evaluation demo_env engine_state_new (ring_of ''red #f00'') lazy None = Some r \<and>
     er_delete_count r \<le> 8 \<and> er_undo_trigger r = Some ''#f00''"
proof -
  let ?b = "ring_of ''red #f00''"
  have b: "ring_inv ?b" "contents ?b = ''red #f00''" by (simp_all add: fast_buffer_capacity_def)
  then have "extract_tail_word ?b = Some ''#f00''"
    by (simp add: extract_tail_word_list is_whitespace_def)
  then have "evaluation demo_env engine_state_new ?b lazy None = Some (calculation_result ''#f00'' ''rgb(255, 0, 0)'')"
    by (simp add: evaluation_def conversion_stage_def demo_env_def engine_state_new_def)
  from expansion_deletes_typed_text [OF b(1) demo_env_contract this] this show ?thesis
    by (simp add: b(2))
qed

definition filtered_words :: engine_state where
  "filtered_words =
     (load_word_actions engine_state_new
       [(''sig'', text_action ''Best regards''\<lparr>ta_only_apps := Some ''code''\<rparr>)])\<lparr>es_instant_expand := True\<rparr>"

definition in_code :: "active_window_info option" where
  "in_code = Some (exec_only ''code'')"

lemma filtered_source:
  "source_get (ee_db demo_env) filtered_words =
     [''sig'' \<mapsto> text_action ''Best regards''\<lparr>ta_only_apps := Some ''code''\<rparr>]"
  by (rule ext) (simp add: source_get_def demo_env_def filtered_words_def load_word_actions_def load_actions_def
      adaptive_get_def adaptive_load_def memory_get_def memory_load_def engine_state_new_def catalog_new_def)

lemma filtered_instant: "es_instant_expand filtered_words"
  by (simp add: filtered_words_def)

lemma filtered_answer:
  "word_answer demo_env filtered_words w word =
     or_else (exact_match plain_env [''sig'' \<mapsto> text_action ''Best regards''\<lparr>ta_only_apps := Some ''code''\<rparr>] w word)
       (hybrid_match plain_env [''sig'' \<mapsto> text_action ''Best regards''\<lparr>ta_only_apps := Some ''code''\<rparr>] w word)"
proof -
  have cat: "ee_catalog demo_env = plain_env" by (simp add: demo_env_def)
  show ?thesis by (simp add: word_answer_def filtered_source cat filtered_instant Let_def)
qed

lemma demo_candidates:
  "extract_suffix_candidates (ring_of ''a sig'') =
     [(''g'', Some (CHR ''i'')), (''ig'', Some (CHR ''s'')), (''sig'', Some (CHR '' '')),
      ('' sig'', Some (CHR ''a'')), (''a sig'', None)]"
proof -
  have b: "ring_inv (ring_of ''a sig'')" "contents (ring_of ''a sig'') = ''a sig''"
    by (simp_all add: fast_buffer_capacity_def)
  then have r: "map flat_space (take 30 (rtext (ring_of ''a sig''))) = ''gis a''"
    by (simp add: flat_space_def is_whitespace_def)
  have "[1..<6] = [1, 2, 3, 4, 5 :: nat]" by code_simp
  then show ?thesis unfolding extract_suffix_candidates_spec [OF b(1)] r Let_def by simp
qed

lemma in_code_sig: "word_answer demo_env filtered_words in_code ''sig'' = Some (text_expansion ''Best regards'')"
  unfolding filtered_answer by code_simp

lemma not_a_sig: "word_answer demo_env filtered_words w ''a sig'' = None"
proof -
  have "str_to_lowercase ''a sig'' = ''a sig''" by code_simp
  moreover have "tokenize_args ''a sig'' CHR '';'' = [''a sig'']" by code_simp
  ultimately show ?thesis
    by (simp add: filtered_answer exact_match_def hybrid_match_def get_raw_action_def allowed_action_def)
qed

theorem longest_candidate_wins_witness:
  "fst (candidate_loop demo_env filtered_words (rev (extract_suffix_candidates (ring_of ''a sig''))) (from_info in_code) None) =
   Some (trigger_result demo_env ''sig'' (text_expansion ''Best regards''))"
proof -
  let ?cs = "extract_suffix_candidates (ring_of ''a sig'')"
  have k: "?cs ! 2 = (''sig'', Some (CHR '' ''))" "length ?cs = 5" by (simp_all add: demo_candidates)
  have later: "candidate_answer demo_env filtered_words in_code (?cs ! j) = None" if "2 < j" "j < 5" for j
  proof -
    have "j = 3 \<or> j = 4" using that by auto
    then show ?thesis
      by (auto simp: demo_candidates candidate_answer_def is_boundary_def not_a_sig char_defs
          is_alphanumeric_def numeral_3_eq_3)
  qed
  show ?thesis
    using longest_candidate_wins [of demo_env filtered_words in_code "ring_of ''a sig''" 2] later in_code_sig k
    by (simp add: is_boundary_def char_defs)
qed

theorem later_candidates_see_no_window_witness:
  "fst (candidate_loop demo_env filtered_words [(''a sig'', None), (''sig'', Some (CHR '' ''))] lazy (Some in_code)) = None"
proof -
  have low: "str_to_lowercase ''a sig'' = ''a sig''" by code_simp
  have tok: "tokenize_args ''a sig'' CHR '';'' = [''a sig'']" by code_simp
  have cat: "ee_catalog demo_env = plain_env" by (simp add: demo_env_def)
  have "state_fetch_no_date_lazy (ee_catalog demo_env) (ee_db demo_env) filtered_words ''a sig'' lazy (Some in_code) =
      (None, lazy, Some in_code)"
    by (simp add: state_fetch_no_date_lazy_def filtered_source cat filtered_instant low tok
        fetch_expansion_no_date_fallback_lazy_def fetch_exact_match_lazy_def fetch_hybrid_arguments_lazy_def
        get_raw_action_lazy_def try_action_def then_try_def Let_def)
  moreover have "is_boundary None" by (simp add: is_boundary_def)
  moreover have "word_answer demo_env filtered_words None ''sig'' = None"
    unfolding filtered_answer by code_simp
  ultimately show ?thesis
    using later_candidates_see_no_window [of None demo_env filtered_words "''a sig''" in_code "Some in_code"
        "[(''sig'', Some (CHR '' ''))]"]
    by (simp add: candidate_answer_def)
qed

section \<open>One event at a time\<close>

lemma evaluate_lazy_frame:
  assumes "evaluate_buffer_for_expansion_lazy env ev window fetch = (ev', r)"
  shows "ev_state ev' = ev_state ev" "ev_completion ev' = ev_completion ev"
    "ev_captured_ai_clipboard ev' = ev_captured_ai_clipboard ev"
    "ev_buffer ev' = (if r = None then ev_buffer ev else buffer_clear (ev_buffer ev))"
    "r = evaluation env (ev_state ev) (ev_buffer ev) window fetch"
  using assms by (auto simp: evaluate_buffer_for_expansion_lazy_def split: option.split_asm)

lemma check_inline_ai_frame:
  assumes "check_inline_ai_trigger env ev = (ev', r)"
  shows "ev_state ev' = ev_state ev" "ev_completion ev' = ev_completion ev"
    "ev_buffer ev' = ev_buffer ev \<or> ev_buffer ev' = buffer_clear (ev_buffer ev)"
    "r \<noteq> None \<Longrightarrow> ev_buffer ev' = buffer_clear (ev_buffer ev)"
  using assms
  by (auto simp: check_inline_ai_trigger_def Let_def split: option.split_asm prod.split_asm if_split_asm)

lemma suffix_last_line: "suffix (last (split_on d s)) s"
proof (induction s)
  case (Cons c s)
  obtain w ws where w: "split_on d s = w # ws" by (cases "split_on d s") auto
  then show ?case
    using Cons join_split_on [of d s] by (cases "ws = []") (auto simp: suffix_ConsI)
qed simp

lemma check_inline_ai_deletes:
  assumes "env_contract env" and "check_inline_ai_trigger env ev = (ev', Some r)"
  shows "er_delete_count r \<le> length (contents (ev_buffer ev))"
proof -
  let ?line = "last (split_on (CHR 0x0A) (contents (ev_buffer ev)))"
  from assms(2) obtain full prompt where f: "ee_tau_captures env ?line = Some (full, prompt)"
    and r: "er_delete_count r = length full"
    by (auto simp: check_inline_ai_trigger_def Let_def split: option.split_asm prod.split_asm if_split_asm)
  have "suffix full ?line" using assms(1) f unfolding env_contract_def by blast
  then have "suffix full (contents (ev_buffer ev))" using suffix_last_line suffix_order.trans by blast
  then show ?thesis using r suffix_length_le by fastforce
qed

lemma evaluation_bound:
  "ring_inv b \<Longrightarrow> env_contract env \<Longrightarrow> evaluation env st b window fetch = Some r \<Longrightarrow>
   er_delete_count r \<le> length (contents b)"
  by (erule (2) evaluation_cases)
    (auto dest: deletes_bound suffix_length_le fallback_candidate(1))

lemma deactivate_frame [simp]:
  "ev_buffer (deactivate ev) = ev_buffer ev" "cs_active (ev_completion (deactivate ev)) = False"
  "es_instant_expand (ev_state (deactivate ev)) = es_instant_expand (ev_state ev)"
  "es_completion_active (ev_state (deactivate ev)) = False"
  "ev_completion (deactivate ev) = completion_default"
  by (simp_all add: deactivate_def completion_default_def)

lemma update_after_char_buffer [simp]:
  "ev_buffer (update_completion_after_char ae ev c) = ev_buffer ev"
  "es_instant_expand (ev_state (update_completion_after_char ae ev c)) = es_instant_expand (ev_state ev)"
  by (auto simp: update_completion_after_char_def activate_def)

text \<open>C10: Only the action key, or a character under instant expansion, produces a result, never while a
  fullscreen window suppresses expansions.  A result leaves an empty buffer and no completion, and
  deletes at most the characters of the buffer, the new one included.\<close>

theorem result_resets_the_evaluator:
  assumes "assist_inv ev" and "env_contract env"
    and "process_event env ev event window fetch = (ev', Some r)"
  shows "(event = ActionKeyEvent \<and> er_delete_count r \<le> length (contents (ev_buffer ev)) \<or>
      (\<exists>c. event = CharEvent c \<and> es_instant_expand (ev_state ev) \<and>
         er_delete_count r \<le> length (contents (push (ev_buffer ev) c)))) \<and>
    \<not> fullscreen_suppressed (ev_state ev) \<and>
    contents (ev_buffer ev') = [] \<and> ev_completion ev' = completion_default \<and>
    \<not> es_completion_active (ev_state ev')"
proof -
  have r: "ring_inv (ev_buffer ev)" using assms(1) by auto
  have idle: "\<not> cs_active (ev_completion ev) \<Longrightarrow>
      ev_completion ev = completion_default \<and> \<not> es_completion_active (ev_state ev)"
    using assms(1) by (simp add: assist_inv_def Let_def)
  have fs: "\<not> fullscreen_suppressed (ev_state ev)"
    using assms(3) by (auto simp: process_event_def Let_def)
  consider "event = ActionKeyEvent" | c where "event = CharEvent c"
    using assms(3) fs by (cases event) (auto simp: process_event_def Let_def split: if_split_asm)
  then show ?thesis
  proof cases
    case 1
    obtain ev1 ai where ai: "(if es_inline_ai_enabled (ev_state ev)
        then check_inline_ai_trigger env ev else (ev, None)) = (ev1, ai)" by force
    obtain ev2 where two: "(case ai of Some r \<Rightarrow> (ev1, Some r)
        | None \<Rightarrow> evaluate_buffer_for_expansion_lazy env ev1 window fetch) = (ev2, Some r)"
      and ev': "ev' = (if cs_active (ev_completion ev) then deactivate ev2 else ev2)"
      using assms(3) fs 1 ai
      by (auto simp: process_event_def Let_def split: prod.split_asm if_split_asm)
    have one: "ev_state ev1 = ev_state ev" "ev_completion ev1 = ev_completion ev"
      "ev_buffer ev1 = ev_buffer ev \<or> ev_buffer ev1 = buffer_clear (ev_buffer ev)"
      using ai check_inline_ai_frame [of env ev ev1 ai] by (auto split: if_split_asm)
    have "contents (ev_buffer ev2) = [] \<and> ev_completion ev2 = ev_completion ev1 \<and> ev_state ev2 = ev_state ev1 \<and>
        er_delete_count r \<le> length (contents (ev_buffer ev))"
    proof (cases ai)
      case None
      then have e: "evaluate_buffer_for_expansion_lazy env ev1 window fetch = (ev2, Some r)" using two by simp
      note f = evaluate_lazy_frame [OF e]
      have "ring_inv (ev_buffer ev1)" using one(3) r by auto
      then have "er_delete_count r \<le> length (contents (ev_buffer ev1))"
        using evaluation_bound [OF _ assms(2)] f(5) by metis
      also have "\<dots> \<le> length (contents (ev_buffer ev))" using one(3) by (auto simp: buffer_clear_def)
      finally show ?thesis using f(1,2,4) by simp
    next
      case (Some x)
      then have x: "x = r" "ev2 = ev1" using two by auto
      with ai Some have a: "check_inline_ai_trigger env ev = (ev1, Some r)" by (auto split: if_split_asm)
      show ?thesis
        using check_inline_ai_frame(4) [OF a] check_inline_ai_deletes [OF assms(2) a] x by simp
    qed
    then show ?thesis using 1 fs ev' one(1,2) idle by auto
  next
    case (2 c)
    let ?ev1 = "update_completion_after_char (ee_assist env) (ev\<lparr>ev_buffer := push (ev_buffer ev) c\<rparr>) c"
    have inst: "es_instant_expand (ev_state ev)"
      using assms(3) fs 2 by (auto simp: process_event_def Let_def split: if_split_asm)
    then have one: "?ev1 = ev\<lparr>ev_buffer := push (ev_buffer ev) c\<rparr>"
      by (simp add: update_completion_after_char_def)
    obtain ev2 where e: "evaluate_buffer_for_expansion_lazy env ?ev1 window fetch = (ev2, Some r)"
      and ev': "ev' = (if cs_active (ev_completion ev2) then deactivate ev2 else ev2)"
      using assms(3) fs 2 inst
      by (auto simp: process_event_def Let_def split: prod.split_asm option.split_asm if_split_asm)
    note f = evaluate_lazy_frame [OF e]
    have "ring_inv (ev_buffer ?ev1)" using r by simp
    then have "er_delete_count r \<le> length (contents (ev_buffer ?ev1))"
      using evaluation_bound [OF _ assms(2)] f(5) by metis
    then show ?thesis using 2 inst fs ev' f idle one by auto
  qed
qed

theorem result_resets_the_evaluator_witness:
  "contents (ev_buffer (fst (process_event demo_env
     ((evaluator_new engine_state_new)\<lparr>ev_buffer := ring_of ''red #f00''\<rparr>) ActionKeyEvent lazy None))) = []"
proof -
  let ?b = "ring_of ''red #f00''"
  let ?ev = "(evaluator_new engine_state_new)\<lparr>ev_buffer := ?b\<rparr>"
  have b: "ring_inv ?b" "contents ?b = ''red #f00''" by (simp_all add: fast_buffer_capacity_def)
  then have "extract_tail_word ?b = Some ''#f00''"
    by (simp add: extract_tail_word_list is_whitespace_def)
  then have "evaluation demo_env (ev_state ?ev) ?b lazy None = Some (calculation_result ''#f00'' ''rgb(255, 0, 0)'')"
    by (simp add: evaluation_def conversion_stage_def demo_env_def evaluator_new_def engine_state_new_def)
  moreover have "\<not> fullscreen_suppressed (ev_state ?ev)"
    by (simp add: fullscreen_suppressed_def evaluator_new_def engine_state_new_def)
  ultimately have "snd (process_event demo_env ?ev ActionKeyEvent lazy None) =
      Some (calculation_result ''#f00'' ''rgb(255, 0, 0)'')"
    by (simp add: process_event_def check_inline_ai_trigger_def evaluate_buffer_for_expansion_lazy_def Let_def
        demo_env_def [THEN arg_cong [where f = ee_tau_captures]])
  moreover have "assist_inv ?ev"
    using b by (simp add: assist_inv_def evaluator_new_def completion_default_def)
  ultimately show ?thesis
    using result_resets_the_evaluator [OF _ demo_env_contract]
    by (cases "process_event demo_env ?ev ActionKeyEvent lazy None") auto
qed

section \<open>Reachable states\<close>

text \<open>
  What the daemon does with the evaluator: events, the completion keys, cancelling, resetting,
  recording the clipboard of an inline prompt, and changes of the shared state by other threads,
  which leave the completion flag alone; instant expansion stays off.
\<close>

inductive assist_step :: "('f, 'd) eval_env \<Rightarrow> evaluator \<Rightarrow> evaluator \<Rightarrow> bool" for env where
  on_event: "assist_step env ev (fst (process_event env ev event window fetch))"
| on_cycle: "assist_step env ev (fst (cycle_completion (ee_assist env) ev forward))"
| on_start: "assist_step env ev (fst (activate_triggerless_completion (ee_assist env) ev))"
| on_start_only: "assist_step env ev (fst (activate_triggerless_completion_no_cycle ev))"
| on_cancel: "assist_step env ev (cancel_completion ev)"
| on_reset: "assist_step env ev (evaluator_reset ev)"
| on_capture: "assist_step env ev (set_captured_ai_clipboard ev txt)"
| on_settings: "es_completion_active st = es_completion_active (ev_state ev) \<Longrightarrow>
    \<not> es_instant_expand st \<Longrightarrow> assist_step env ev (ev\<lparr>ev_state := st\<rparr>)"

inductive reachable :: "('f, 'd) eval_env \<Rightarrow> evaluator \<Rightarrow> bool" for env where
  start: "\<not> es_instant_expand st \<Longrightarrow> reachable env (evaluator_new st)"
| step: "reachable env ev \<Longrightarrow> assist_step env ev ev' \<Longrightarrow> reachable env ev'"

lemma instant_apply [simp]: "es_instant_expand (ev_state (sync_completion_from_buffer ae ev)) = es_instant_expand (ev_state ev)"
  by (auto simp: sync_completion_from_buffer_def split: option.split)

lemma instant_selected [simp]:
  "es_instant_expand (ev_state (fst (rewrite_selected_query ae ev word))) = es_instant_expand (ev_state ev)"
  by (auto simp: rewrite_selected_query_def rewrite_current_text_def Let_def)

lemma instant_cycle [simp]:
  "es_instant_expand (ev_state (fst (cycle_completion ae ev forward))) = es_instant_expand (ev_state ev)"
  by (auto simp: cycle_completion_def rewrite_current_text_def set_suggestions_def Let_def)

lemma instant_start [simp]:
  "start_completion ev = Some ev' \<Longrightarrow> es_instant_expand (ev_state ev') = es_instant_expand (ev_state ev)"
  by (auto simp: start_completion_def activate_def Let_def split: option.split_asm if_split_asm)

lemma instant_event:
  "es_instant_expand (ev_state (fst (process_event env ev event window fetch))) = es_instant_expand (ev_state ev)"
proof (cases "event = ActionKeyEvent")
  case True
  obtain ev1 ai where ai: "(if es_inline_ai_enabled (ev_state ev)
      then check_inline_ai_trigger env ev else (ev, None)) = (ev1, ai)" by force
  obtain ev2 r where two: "(case ai of Some r \<Rightarrow> (ev1, Some r)
      | None \<Rightarrow> evaluate_buffer_for_expansion_lazy env ev1 window fetch) = (ev2, r)" by force
  have "ev_state ev1 = ev_state ev" using ai check_inline_ai_frame(1) by (auto split: if_split_asm)
  moreover have "ev_state ev2 = ev_state ev1"
    using two evaluate_lazy_frame(1) by (auto split: option.split_asm)
  ultimately show ?thesis using True ai two by (simp add: process_event_def Let_def)
next
  case False
  have "es_instant_expand (ev_state (fst (evaluate_buffer_for_expansion_lazy env e window fetch))) =
      es_instant_expand (ev_state e)" for e
    by (simp add: evaluate_buffer_for_expansion_lazy_def split: option.split)
  then have "es_instant_expand (ev_state e2) = es_instant_expand (ev_state e)"
    if "evaluate_buffer_for_expansion_lazy env e window fetch = (e2, x)" for e e2 x
    using that by (metis fst_conv)
  with False show ?thesis
    by (cases "fullscreen_suppressed (ev_state ev)"; cases event)
      (simp_all add: process_event_def Let_def split: prod.split option.split)
qed

lemma assist_inv_idle:
  assumes "assist_inv ev" and "ev_state e = ev_state ev" and "ev_completion e = ev_completion ev"
    and "ring_inv (ev_buffer e)" and "\<not> cs_active (ev_completion ev)"
  shows "assist_inv e"
proof -
  have c: "ev_completion ev = completion_default" "\<not> es_completion_active (ev_state ev)"
    using assms(1,5) by (simp_all add: assist_inv_def Let_def)
  show ?thesis using assms(2-4) unfolding assist_inv_def Let_def by (simp add: c completion_default_def)
qed

lemma assist_inv_event:
  assumes "assist_inv ev" and "\<not> es_instant_expand (ev_state ev)"
  shows "assist_inv (fst (process_event env ev event window fetch))"
proof -
  have r: "ring_inv (ev_buffer ev)" using assms(1) by auto
  have sync: "assist_inv (sync_completion_from_buffer ae (ev\<lparr>ev_buffer := b\<rparr>))" if "ring_inv b" for ae b
    using assms(1) that by (intro assist_inv_sync) (auto simp: assist_inv_def Let_def)
  have cap: "assist_inv (e\<lparr>ev_captured_ai_clipboard := x\<rparr>) = assist_inv e" for e x
    by (simp add: assist_inv_def)
  show ?thesis
  proof (cases "fullscreen_suppressed (ev_state ev)")
    case True
    then show ?thesis using r by (simp add: process_event_def assist_inv_deactivate)
  next
    case fs: False
    show ?thesis
    proof (cases event)
      case (CharEvent c)
      then show ?thesis using fs assist_inv_char [OF assms] assms(2) by (simp add: process_event_def Let_def)
    next
      case BackspaceEvent
      then show ?thesis using fs assist_inv_selected_query [OF assms(1)] sync r
        by (simp add: process_event_def Let_def)
    next
      case WordBackspaceEvent
      then show ?thesis using fs assist_inv_selected_query [OF assms(1)] sync pop_word_spec [OF r]
        by (simp add: process_event_def Let_def)
    next
      case InterruptEvent
      then show ?thesis using fs r by (simp add: process_event_def Let_def cap assist_inv_deactivate)
    next
      case (PasteEvent t)
      then show ?thesis using fs assms(1) by (simp add: process_event_def Let_def)
    next
      case ActionKeyEvent
      obtain ev1 ai where ai: "(if es_inline_ai_enabled (ev_state ev)
          then check_inline_ai_trigger env ev else (ev, None)) = (ev1, ai)" by force
      obtain ev2 res where two: "(case ai of Some r \<Rightarrow> (ev1, Some r)
          | None \<Rightarrow> evaluate_buffer_for_expansion_lazy env ev1 window fetch) = (ev2, res)" by force
      have one: "ev_state ev1 = ev_state ev" "ev_completion ev1 = ev_completion ev"
        "ev_buffer ev1 = ev_buffer ev \<or> ev_buffer ev1 = buffer_clear (ev_buffer ev)"
        using ai check_inline_ai_frame [of env ev ev1 ai] by (auto split: if_split_asm)
      then have r1: "ring_inv (ev_buffer ev1)" using r by auto
      have st2: "ev_state ev2 = ev_state ev1" "ev_completion ev2 = ev_completion ev1"
        "ring_inv (ev_buffer ev2)"
        using two r1 evaluate_lazy_frame [of env ev1 window fetch ev2 res]
        by (auto split: option.split_asm)
      let ?ev3 = "if cs_active (ev_completion ev) then deactivate ev2 else ev2"
      have i3: "assist_inv ?ev3"
        using assist_inv_deactivate [OF st2(3)] assist_inv_idle [OF assms(1), of ev2] st2 one by simp
      have "\<not> cs_active (ev_completion ?ev3)" using st2 one by (simp add: completion_default_def)
      then have "assist_inv (if res = None \<and> \<not> cs_active (ev_completion ?ev3)
          then ?ev3\<lparr>ev_buffer := push (ev_buffer ?ev3) (CHR 0x0A)\<rparr> else ?ev3)"
        using i3 assist_inv_idle [OF i3, of "?ev3\<lparr>ev_buffer := push (ev_buffer ?ev3) (CHR 0x0A)\<rparr>"] st2(3)
        by simp
      then show ?thesis using ActionKeyEvent fs ai two by (simp add: process_event_def Let_def)
    qed
  qed
qed

lemma reachable_inv: "reachable env ev \<Longrightarrow> assist_inv ev \<and> \<not> es_instant_expand (ev_state ev)"
proof (induction rule: reachable.induct)
  case (start st)
  then show ?case using assist_inv_new by (simp add: evaluator_new_def)
next
  case (step ev ev')
  then have i: "assist_inv ev" and n: "\<not> es_instant_expand (ev_state ev)" by auto
  from step.hyps(2) show ?case
  proof cases
    case (on_event event window fetch)
    then show ?thesis using assist_inv_event [OF i n] instant_event n by metis
  next
    case (on_cycle forward)
    then show ?thesis using assist_inv_cycle [OF i] n by simp
  next
    case on_start
    then show ?thesis using assist_inv_activate(1) [OF i] n
      by (auto simp: activate_triggerless_completion_def split: option.splits)
  next
    case on_start_only
    then show ?thesis using assist_inv_activate(2) [OF i] n
      by (auto simp: activate_triggerless_completion_no_cycle_def split: option.splits)
  next
    case on_cancel
    then show ?thesis using i n by (auto simp: cancel_completion_def intro: assist_inv_deactivate)
  next
    case on_reset
    then show ?thesis using assist_inv_reset [of ev] i n by (auto simp: evaluator_reset_def)
  next
    case (on_capture t)
    then show ?thesis using i n by (simp add: set_captured_ai_clipboard_def assist_inv_def)
  next
    case (on_settings st)
    then show ?thesis using i n by (simp add: assist_inv_def Let_def)
  qed
qed

text \<open>C4: While instant expansion is off (\<open>instant_typing_desynchronises\<close> shows what happens when it is on),
  however events, completion keys and changes of the other settings interleave, the copy of the completion
  flag in the shared state agrees with the evaluator, a selected index names the suggestion on the
  screen, and the buffer ends with the text that a word completion would delete next.\<close>

theorem completion_stays_consistent:
  assumes "reachable env ev"
  shows "es_completion_active (ev_state ev) = cs_active (ev_completion ev) \<and>
    (\<forall>i. cs_selected_index (ev_completion ev) = Some i \<longrightarrow>
       i < length (cs_suggestions (ev_completion ev)) \<and>
       cs_current_text (ev_completion ev) = cs_suggestions (ev_completion ev) ! i) \<and>
    (cs_active (ev_completion ev) \<and> \<not> cs_is_emoji (ev_completion ev) \<longrightarrow>
       (\<exists>p. contents (ev_buffer ev) = lastn fast_buffer_capacity (p @ cs_current_text (ev_completion ev))))"
  using reachable_inv [OF assms] by (simp add: assist_inv_def Let_def shown_in_def)

theorem completion_stays_consistent_witness:
  "\<not> cs_active (ev_completion (evaluator_new engine_state_new))"
proof -
  have "\<not> es_instant_expand engine_state_new" by (simp add: engine_state_new_def)
  then have "reachable demo_env (evaluator_new engine_state_new)" by (rule reachable.start)
  from completion_stays_consistent [OF this] show ?thesis by (simp add: evaluator_new_def)
qed

section \<open>Two places where buffer and screen part\<close>

text \<open>In emoji mode the query after a correction does not start with the trigger character, and
  Backspace on a selected suggestion then types the shortened query without it: the buffer and the
  screen lose the trigger, while the completion takes it to be there.\<close>

theorem emoji_backspace_loses_trigger:
  assumes "ring_inv (ev_buffer ev)" and "cs_active (ev_completion ev)" and "cs_is_emoji (ev_completion ev)"
    and "has_selection (ev_completion ev)" and "is_buffer_valid_for_completion ae ev"
    and "contents (ev_buffer ev) = p @ cs_current_text (ev_completion ev)"
    and "length (p @ q) < fast_buffer_capacity"
    and "cs_original_query (ev_completion ev) = q @ [c]" and "\<not> prefix [ae_emoji_trigger ae] q"
  shows "contents (ev_buffer (fst (rewrite_selected_query ae ev False))) = p @ q \<and>
    cs_current_text (ev_completion (fst (rewrite_selected_query ae ev False))) = ae_emoji_trigger ae # q"
proof -
  let ?n = "length (cs_current_text (ev_completion ev))"
  let ?ev = "ev\<lparr>ev_buffer := foldl push (pop_n (ev_buffer ev) ?n) q,
       ev_completion := (ev_completion ev)\<lparr>cs_current_text := q\<rparr>\<rparr>"
  have e: "fst (rewrite_selected_query ae ev False) = apply_user_query ae ?ev q"
    using assms by (simp add: rewrite_selected_query_def rewrite_current_text_def pop_char_from_query_def Let_def)
  have "contents (foldl push (pop_n (ev_buffer ev) ?n) q) = lastn fast_buffer_capacity (p @ q)"
    using assms(1,6) unfolding pop_n_funpow by (blast intro: fb.text_rewrite)
  then have "contents (ev_buffer ?ev) = p @ q" using assms(7) by simp
  moreover have "cs_current_text (ev_completion (apply_user_query ae ?ev q)) = ae_emoji_trigger ae # q"
    using assms(3,9)
    by (simp add: apply_user_query_def rebuild_completion_suggestions_def set_suggestions_def clear_selection_def Let_def)
  ultimately show ?thesis unfolding e by simp
qed

definition emoji_typing :: evaluator where
  "emoji_typing =
     (evaluator_new engine_state_new)\<lparr>ev_buffer := ring_of '':smile'',
       ev_completion := \<lparr>cs_active = True, cs_is_emoji = True, cs_original_query = ''sm'',
         cs_current_text = '':smile'', cs_suggestions = ['':smile'', '':smirk''], cs_selected_index = Some 0,
         cs_selection_mode = Some Completion_Mode\<rparr>\<rparr>"

lemma emoji_typing_word: "extract_trigger_word (ring_of '':smile'') CHR '':'' = Some ''smile''"
proof -
  have b: "ring_inv (ring_of '':smile'')" "contents (ring_of '':smile'') = '':smile''"
    by (simp_all add: fast_buffer_capacity_def)
  have "trigger_count_list CHR '':'' None 0 ''elims:'' \<le> 1" by code_simp
  moreover have "trigger_word_list CHR '':'' None [] ''elims:'' = Some ''smile''" by code_simp
  ultimately show ?thesis using extract_trigger_word_list [OF b(1)] by (simp add: b(2))
qed

theorem emoji_backspace_loses_trigger_witness:
  "contents (ev_buffer (fst (rewrite_selected_query demo_assist emoji_typing False))) = ''s''"
proof -
  have b: "ring_inv (ring_of '':smile'')" "contents (ring_of '':smile'') = '':smile''"
    by (simp_all add: fast_buffer_capacity_def)
  have "is_buffer_valid_for_completion demo_assist emoji_typing"
    using emoji_typing_word by (simp add: is_buffer_valid_for_completion_def emoji_typing_def demo_assist_def)
  then show ?thesis
    using emoji_backspace_loses_trigger [of emoji_typing demo_assist "[]" "''s''" "CHR ''m''"] b
    by (simp add: emoji_typing_def demo_assist_def has_selection_def fast_buffer_capacity_def)
qed

text \<open>Under instant expansion a typed character reaches the buffer but not a running completion, so
  the next suggestion replaces the wrong characters: the first one of the old text stays on the
  screen.\<close>

theorem instant_typing_desynchronises:
  assumes "completing ev p q" and "q \<noteq> []" and "es_instant_expand (ev_state ev)"
    and "\<not> fullscreen_suppressed (ev_state ev)" and "\<not> is_whitespace c"
    and "length (p @ cs_current_text (ev_completion ev)) < fast_buffer_capacity"
    and "evaluation env (ev_state ev) (push (ev_buffer ev) c) window fetch = None"
    and "matching_word_triggers (ev_state ev) q = [s]" and "length (p @ s) < fast_buffer_capacity"
  shows "contents (ev_buffer (fst (cycle_completion ae
      (fst (process_event env ev (CharEvent c) window fetch)) True))) =
    p @ hd (cs_current_text (ev_completion ev)) # s"
proof -
  let ?t = "cs_current_text (ev_completion ev)" and ?b = "push (ev_buffer ev) c"
  note d = assms(1) [unfolded completing_def]
  have ev1: "fst (process_event env ev (CharEvent c) window fetch) = ev\<lparr>ev_buffer := ?b\<rparr>"
    using assms(3,4,7)
    by (simp add: process_event_def update_completion_after_char_def evaluate_buffer_for_expansion_lazy_def Let_def)
  have b: "ring_inv ?b" "contents ?b = (p @ [hd ?t]) @ (tl ?t @ [c])"
    using d assms(6) by simp_all
  have n: "length ?t = length (tl ?t @ [c])" using d by (cases ?t) auto
  have valid: "extract_tail_word ?b \<noteq> None"
    by (subst tail_word_exists [OF b(1)]) (simp add: b(2) assms(5))
  obtain b' where b': "b' = foldl push (pop_n ?b (length ?t)) s" by simp
  have "contents b' = lastn fast_buffer_capacity ((p @ [hd ?t]) @ s)"
    using b n unfolding b' pop_n_funpow n by (blast intro: fb.text_rewrite)
  then have "contents b' = p @ hd ?t # s" using assms(9) by simp
  moreover have "next_index (cs_selected_index (ev_completion ev)) True (Suc 0) = 0"
    using next_index_less [of 1] by simp
  then have "ev_buffer (fst (cycle_completion ae (ev\<lparr>ev_buffer := ?b\<rparr>) True)) = b'"
    using d valid assms(2,8) b'
    by (simp add: cycle_completion_def suggestions_for_def is_buffer_valid_for_completion_def
        rewrite_current_text_def set_suggestions_def Let_def)
  ultimately show ?thesis unfolding ev1 by simp
qed

definition instant_typing :: evaluator where
  "instant_typing =
     (evaluator_new (demo_words\<lparr>es_instant_expand := True\<rparr>))\<lparr>ev_buffer := ring_of ''gm'',
       ev_completion := completion_default\<lparr>cs_active := True, cs_current_text := ''gm'',
         cs_original_query := ''g''\<rparr>\<rparr>"

lemma no_expansion_of_gmx:
  "evaluation demo_env (ev_state instant_typing) (push (ring_of ''gm'') (CHR ''x'')) lazy (Some None) = None"
proof -
  let ?b = "push (ring_of ''gm'') (CHR ''x'')" and ?st = "ev_state instant_typing"
  have b: "ring_inv ?b" "contents ?b = ''gmx''" by (simp_all add: fast_buffer_capacity_def)
  then have r: "map flat_space (take 30 (rtext ?b)) = ''xmg''" by (simp add: flat_space_def is_whitespace_def)
  have "[1..<4] = [1, 2, 3 :: nat]" by code_simp
  then have cs: "extract_suffix_candidates ?b =
      [(''x'', Some (CHR ''m'')), (''mx'', Some (CHR ''g'')), (''gmx'', None)]"
    unfolding extract_suffix_candidates_spec [OF b(1)] r Let_def by simp
  have st: "es_instant_expand ?st" "es_regex_catalog ?st = []"
    by (simp_all add: instant_typing_def evaluator_new_def demo_words_def load_word_actions_def engine_state_new_def)
  have get: "source_get (ee_db demo_env) ?st =
      [''hello'' \<mapsto> text_action ''Hello!'', ''help'' \<mapsto> text_action ''Help me'', ''gm'' \<mapsto> text_action ''Good morning'']"
    by (rule ext) (simp add: source_get_def demo_env_def instant_typing_def evaluator_new_def demo_words_def
        load_word_actions_def load_actions_def adaptive_get_def adaptive_load_def memory_get_def memory_load_def
        engine_state_new_def catalog_new_def)
  have cat: "ee_catalog demo_env = plain_env" by (simp add: demo_env_def)
  have low: "str_to_lowercase ''gmx'' = ''gmx''" by code_simp
  have tok: "tokenize_args ''gmx'' CHR '';'' = [''gmx'']" by code_simp
  have "fst (state_fetch_no_date_lazy (ee_catalog demo_env) (ee_db demo_env) ?st ''gmx'' lazy (Some None)) = None"
    by (simp add: state_fetch_no_date_lazy_def get cat st low tok
        fetch_expansion_no_date_fallback_lazy_def fetch_exact_match_lazy_def fetch_hybrid_arguments_lazy_def
        get_raw_action_lazy_def try_action_def then_try_def Let_def)
  then obtain w' f' where
    "state_fetch_no_date_lazy (ee_catalog demo_env) (ee_db demo_env) ?st ''gmx'' lazy (Some None) = (None, w', f')"
    by (metis prod.collapse)
  then have "fst (candidate_loop demo_env ?st (rev (extract_suffix_candidates ?b)) lazy (Some None)) = None"
    by (simp add: cs is_boundary_def char_defs)
  then obtain w2 f2 where
    "candidate_loop demo_env ?st (rev (extract_suffix_candidates ?b)) lazy (Some None) = (None, w2, f2)"
    by (metis prod.collapse)
  then show ?thesis by (simp add: evaluation_def st regex_stage_def)
qed

theorem instant_typing_desynchronises_witness:
  "contents (ev_buffer (fst (cycle_completion demo_assist
     (fst (process_event demo_env instant_typing (CharEvent (CHR ''x'')) lazy (Some None))) True))) = ''ggm''"
proof -
  have st: "ev_state instant_typing = demo_words\<lparr>es_instant_expand := True, es_completion_active := False\<rparr>"
    by (simp add: instant_typing_def evaluator_new_def)
  have "matching_word_triggers demo_words ''g'' = [''gm'']" by code_simp
  then have m: "matching_word_triggers (ev_state instant_typing) ''g'' = [''gm'']"
    by (simp add: matching_word_triggers_def st)
  have sw: "es_inline_tab_completion_enabled demo_words" "\<not> fullscreen_suppressed (ev_state instant_typing)"
    unfolding st by code_simp+
  have "completing instant_typing [] ''g''"
    using sw(1) by (simp add: completing_def st)
      (simp add: instant_typing_def completion_default_def is_whitespace_def fast_buffer_capacity_def)
  moreover have "ev_buffer instant_typing = ring_of ''gm''" "cs_current_text (ev_completion instant_typing) = ''gm''"
    by (simp_all add: instant_typing_def)
  ultimately show ?thesis
    using instant_typing_desynchronises [of instant_typing "[]" "''g''" "CHR ''x''" demo_env lazy "Some None" "''gm''"
        demo_assist] no_expansion_of_gmx sw(2) m
    by (simp add: st is_whitespace_def fast_buffer_capacity_def)
qed

end
