(* ===== verification/HotkeyInput.thy ===== *)
theory HotkeyInput
  imports Evaluator
begin

text \<open>
  Key events before they reach the evaluator, \<open>daemon/src/input/hotkey_evaluator.rs\<close> and
  \<open>daemon/src/input/hotkey.rs\<close>: the names of the keys of the two input libraries, the hotkey
  evaluator with its set of swallowed keys, the voice hotkeys and the recognition of the pause chord.
\<close>

section \<open>Keys of the input libraries\<close>

text \<open>
  A key of \<open>rdev\<close> or \<open>evdev\<close> is the name of its constant without the prefix \<open>Key::\<close> or
  \<open>KeyCode::\<close>; a key that the code does not name is any other name.
\<close>

type_synonym rdev_key = string
type_synonym evdev_key = string

definition rdev_keys :: "(string \<times> logical_key) list" where
  "rdev_keys =
    [(''Alt'', ModifierKey LeftAlt), (''AltGr'', ModifierKey RightAlt),
     (''Backspace'', Backspace), (''CapsLock'', CapsLock),
     (''ControlLeft'', ModifierKey LeftCtrl), (''ControlRight'', ModifierKey RightCtrl),
     (''Delete'', Delete), (''KpDelete'', Delete), (''DownArrow'', KDown), (''End'', End),
     (''Escape'', Escape), (''F1'', Function 1), (''F2'', Function 2), (''F3'', Function 3),
     (''F4'', Function 4), (''F5'', Function 5), (''F6'', Function 6), (''F7'', Function 7),
     (''F8'', Function 8), (''F9'', Function 9), (''F10'', Function 10), (''F11'', Function 11),
     (''F12'', Function 12), (''Home'', Home), (''Insert'', Insert), (''Kp0'', NumpadDigit 0),
     (''Kp1'', NumpadDigit 1), (''Kp2'', NumpadDigit 2), (''Kp3'', NumpadDigit 3),
     (''Kp4'', NumpadDigit 4), (''Kp5'', NumpadDigit 5), (''Kp6'', NumpadDigit 6),
     (''Kp7'', NumpadDigit 7), (''Kp8'', NumpadDigit 8), (''Kp9'', NumpadDigit 9),
     (''KpReturn'', Enter), (''Return'', Enter), (''LeftArrow'', KLeft),
     (''MetaLeft'', ModifierKey LeftMeta), (''MetaRight'', ModifierKey RightMeta),
     (''Minus'', logical_key.Minus), (''KpMinus'', logical_key.Minus), (''Num0'', Digit 0), (''Num1'', Digit 1),
     (''Num2'', Digit 2), (''Num3'', Digit 3), (''Num4'', Digit 4), (''Num5'', Digit 5),
     (''Num6'', Digit 6), (''Num7'', Digit 7), (''Num8'', Digit 8), (''Num9'', Digit 9),
     (''NumLock'', NumLock), (''PageDown'', PageDown), (''PageUp'', PageUp), (''Pause'', Pause),
     (''PrintScreen'', PrintScreen), (''RightArrow'', KRight), (''ScrollLock'', ScrollLock),
     (''ShiftLeft'', ModifierKey LeftShift), (''ShiftRight'', ModifierKey RightShift),
     (''Space'', Space), (''Tab'', Tab), (''UpArrow'', KUp), (''BackQuote'', Backquote),
     (''Equal'', Equal), (''LeftBracket'', LeftBracket), (''RightBracket'', RightBracket),
     (''SemiColon'', Semicolon), (''Quote'', Quote), (''BackSlash'', Backslash),
     (''Comma'', logical_key.Comma), (''Dot'', Period), (''Slash'', logical_key.Slash), (''KeyA'', Letter (CHR ''a'')),
     (''KeyB'', Letter (CHR ''b'')), (''KeyC'', Letter (CHR ''c'')),
     (''KeyD'', Letter (CHR ''d'')), (''KeyE'', Letter (CHR ''e'')),
     (''KeyF'', Letter (CHR ''f'')), (''KeyG'', Letter (CHR ''g'')),
     (''KeyH'', Letter (CHR ''h'')), (''KeyI'', Letter (CHR ''i'')),
     (''KeyJ'', Letter (CHR ''j'')), (''KeyK'', Letter (CHR ''k'')),
     (''KeyL'', Letter (CHR ''l'')), (''KeyM'', Letter (CHR ''m'')),
     (''KeyN'', Letter (CHR ''n'')), (''KeyO'', Letter (CHR ''o'')),
     (''KeyP'', Letter (CHR ''p'')), (''KeyQ'', Letter (CHR ''q'')),
     (''KeyR'', Letter (CHR ''r'')), (''KeyS'', Letter (CHR ''s'')),
     (''KeyT'', Letter (CHR ''t'')), (''KeyU'', Letter (CHR ''u'')),
     (''KeyV'', Letter (CHR ''v'')), (''KeyW'', Letter (CHR ''w'')),
     (''KeyX'', Letter (CHR ''x'')), (''KeyY'', Letter (CHR ''y'')),
     (''KeyZ'', Letter (CHR ''z''))]"

definition evdev_keys :: "(string \<times> logical_key) list" where
  "evdev_keys =
    [(''KEY_LEFTALT'', ModifierKey LeftAlt), (''KEY_RIGHTALT'', ModifierKey RightAlt),
     (''KEY_BACKSPACE'', Backspace), (''KEY_CAPSLOCK'', CapsLock),
     (''KEY_LEFTCTRL'', ModifierKey LeftCtrl), (''KEY_RIGHTCTRL'', ModifierKey RightCtrl),
     (''KEY_DELETE'', Delete), (''KEY_DOWN'', KDown), (''KEY_END'', End), (''KEY_ESC'', Escape),
     (''KEY_F1'', Function 1), (''KEY_F2'', Function 2), (''KEY_F3'', Function 3),
     (''KEY_F4'', Function 4), (''KEY_F5'', Function 5), (''KEY_F6'', Function 6),
     (''KEY_F7'', Function 7), (''KEY_F8'', Function 8), (''KEY_F9'', Function 9),
     (''KEY_F10'', Function 10), (''KEY_F11'', Function 11), (''KEY_F12'', Function 12),
     (''KEY_HOME'', Home), (''KEY_INSERT'', Insert), (''KEY_KP0'', NumpadDigit 0),
     (''KEY_KP1'', NumpadDigit 1), (''KEY_KP2'', NumpadDigit 2), (''KEY_KP3'', NumpadDigit 3),
     (''KEY_KP4'', NumpadDigit 4), (''KEY_KP5'', NumpadDigit 5), (''KEY_KP6'', NumpadDigit 6),
     (''KEY_KP7'', NumpadDigit 7), (''KEY_KP8'', NumpadDigit 8), (''KEY_KP9'', NumpadDigit 9),
     (''KEY_KPENTER'', Enter), (''KEY_ENTER'', Enter), (''KEY_LEFT'', KLeft),
     (''KEY_LEFTMETA'', ModifierKey LeftMeta), (''KEY_RIGHTMETA'', ModifierKey RightMeta),
     (''KEY_MINUS'', logical_key.Minus), (''KEY_KPMINUS'', logical_key.Minus), (''KEY_0'', Digit 0),
     (''KEY_1'', Digit 1), (''KEY_2'', Digit 2), (''KEY_3'', Digit 3), (''KEY_4'', Digit 4),
     (''KEY_5'', Digit 5), (''KEY_6'', Digit 6), (''KEY_7'', Digit 7), (''KEY_8'', Digit 8),
     (''KEY_9'', Digit 9), (''KEY_NUMLOCK'', NumLock), (''KEY_PAGEDOWN'', PageDown),
     (''KEY_PAGEUP'', PageUp), (''KEY_PAUSE'', Pause), (''KEY_PRINT'', PrintScreen),
     (''KEY_RIGHT'', KRight), (''KEY_SCROLLLOCK'', ScrollLock),
     (''KEY_LEFTSHIFT'', ModifierKey LeftShift), (''KEY_RIGHTSHIFT'', ModifierKey RightShift),
     (''KEY_SPACE'', Space), (''KEY_TAB'', Tab), (''KEY_UP'', KUp), (''KEY_GRAVE'', Backquote),
     (''KEY_EQUAL'', Equal), (''KEY_LEFTBRACE'', LeftBracket),
     (''KEY_RIGHTBRACE'', RightBracket), (''KEY_SEMICOLON'', Semicolon),
     (''KEY_APOSTROPHE'', Quote), (''KEY_BACKSLASH'', Backslash), (''KEY_COMMA'', logical_key.Comma),
     (''KEY_DOT'', Period), (''KEY_SLASH'', logical_key.Slash), (''KEY_A'', Letter (CHR ''a'')),
     (''KEY_B'', Letter (CHR ''b'')), (''KEY_C'', Letter (CHR ''c'')),
     (''KEY_D'', Letter (CHR ''d'')), (''KEY_E'', Letter (CHR ''e'')),
     (''KEY_F'', Letter (CHR ''f'')), (''KEY_G'', Letter (CHR ''g'')),
     (''KEY_H'', Letter (CHR ''h'')), (''KEY_I'', Letter (CHR ''i'')),
     (''KEY_J'', Letter (CHR ''j'')), (''KEY_K'', Letter (CHR ''k'')),
     (''KEY_L'', Letter (CHR ''l'')), (''KEY_M'', Letter (CHR ''m'')),
     (''KEY_N'', Letter (CHR ''n'')), (''KEY_O'', Letter (CHR ''o'')),
     (''KEY_P'', Letter (CHR ''p'')), (''KEY_Q'', Letter (CHR ''q'')),
     (''KEY_R'', Letter (CHR ''r'')), (''KEY_S'', Letter (CHR ''s'')),
     (''KEY_T'', Letter (CHR ''t'')), (''KEY_U'', Letter (CHR ''u'')),
     (''KEY_V'', Letter (CHR ''v'')), (''KEY_W'', Letter (CHR ''w'')),
     (''KEY_X'', Letter (CHR ''x'')), (''KEY_Y'', Letter (CHR ''y'')),
     (''KEY_Z'', Letter (CHR ''z'')), (''BTN_LEFT'', MouseKey MouseLeft),
     (''BTN_RIGHT'', MouseKey MouseRight), (''BTN_MIDDLE'', MouseKey MouseMiddle),
     (''BTN_SIDE'', MouseKey Button4), (''BTN_BACK'', MouseKey Button4),
     (''BTN_EXTRA'', MouseKey Button5), (''BTN_FORWARD'', MouseKey Button5),
     (''BTN_TASK'', MouseKey (MouseOther 6))]"

definition logical_key_from_rdev :: "rdev_key \<Rightarrow> logical_key option" where
  "logical_key_from_rdev k = map_of rdev_keys k"

definition logical_key_from_evdev :: "evdev_key \<Rightarrow> logical_key option" where
  "logical_key_from_evdev k = map_of evdev_keys k"

datatype rdev_button = RLeft | RRight | RMiddle | RUnknown u8

definition logical_key_from_rdev_button :: "rdev_button \<Rightarrow> logical_key option" where
  "logical_key_from_rdev_button b =
     (case b of
        RLeft \<Rightarrow> Some (MouseKey MouseLeft)
      | RRight \<Rightarrow> Some (MouseKey MouseRight)
      | RMiddle \<Rightarrow> Some (MouseKey MouseMiddle)
      | RUnknown n \<Rightarrow>
          (if n = 4 then Some (MouseKey Button4)
           else if n = 5 then Some (MouseKey Button5)
           else Some (MouseKey (MouseOther n))))"

definition modifiers_from_sides ::
  "bool \<Rightarrow> bool \<Rightarrow> bool \<Rightarrow> bool \<Rightarrow> bool \<Rightarrow> bool \<Rightarrow> bool \<Rightarrow> bool \<Rightarrow> modifiers" where
  "modifiers_from_sides left_ctrl right_ctrl left_shift right_shift left_alt right_alt left_meta right_meta =
     (let m0 = modifiers_new;
          m1 = (if left_ctrl then insert_active m0 LeftCtrl else m0);
          m2 = (if right_ctrl then insert_active m1 RightCtrl else m1);
          m3 = (if left_shift then insert_active m2 LeftShift else m2);
          m4 = (if right_shift then insert_active m3 RightShift else m3);
          m5 = (if left_alt then insert_active m4 LeftAlt else m4);
          m6 = (if right_alt then insert_active m5 RightAlt else m5);
          m7 = (if left_meta then insert_active m6 LeftMeta else m6);
          m8 = (if right_meta then insert_active m7 RightMeta else m7)
      in m8)"

fun side_state :: "bool \<Rightarrow> bool \<Rightarrow> modifier_state" where
  "side_state True True = Both"
| "side_state True False = LeftOnly"
| "side_state False True = RightOnly"
| "side_state False False = Absent"

lemma contains_insert_active [simp]:
  "contains_exact (insert_active ms m) n \<longleftrightarrow> contains_exact ms n \<or> n = m"
  by (cases ms) (simp add: insert_active_def)

lemma modifiers_new_contains [simp]: "\<not> contains_exact modifiers_new m"
  by (simp add: modifiers_new_def)

lemma sides_contains:
  "contains_exact (modifiers_from_sides lc rc ls rs la ra lm rm) m \<longleftrightarrow>
     m = LeftCtrl \<and> lc \<or> m = RightCtrl \<and> rc \<or> m = LeftShift \<and> ls \<or> m = RightShift \<and> rs \<or>
     m = LeftAlt \<and> la \<or> m = RightAlt \<and> ra \<or> m = LeftMeta \<and> lm \<or> m = RightMeta \<and> rm"
  by (simp add: modifiers_from_sides_def Let_def)

text \<open>The modifiers read from the eight side flags say of each family exactly which of its two keys
  are down.\<close>

theorem modifiers_from_sides_states:
  "map (family_state (modifiers_from_sides lc rc ls rs la ra lm rm)) family_ordered =
   [side_state lc rc, side_state ls rs, side_state la ra, side_state lm rm]"
  by (cases lc; cases rc; cases ls; cases rs; cases la; cases ra; cases lm; cases rm)
    (simp_all add: family_ordered_def family_state_bits sides_contains state_of_bits_def)

lemma logical_key_from_evdev_wf: "logical_key_from_evdev k = Some l \<Longrightarrow> wf_key l"
proof -
  assume "logical_key_from_evdev k = Some l"
  then have "l \<in> snd ` set evdev_keys"
    by (force simp: logical_key_from_evdev_def dest: map_of_SomeD)
  moreover have "list_all wf_key (map snd evdev_keys)" by code_simp
  ultimately show ?thesis by (auto simp: list_all_iff)
qed

lemma logical_key_from_rdev_wf: "logical_key_from_rdev k = Some l \<Longrightarrow> wf_key l"
proof -
  assume "logical_key_from_rdev k = Some l"
  then have "l \<in> snd ` set rdev_keys"
    by (force simp: logical_key_from_rdev_def dest: map_of_SomeD)
  moreover have "list_all wf_key (map snd rdev_keys)" by code_simp
  ultimately show ?thesis by (auto simp: list_all_iff)
qed

lemma values_without_duplicate:
  assumes "distinct (map fst xs)" and "map_of xs a = Some v" and "map_of xs b = Some v" and "a \<noteq> b"
  shows "set (map snd (filter (\<lambda>(k, _). k \<noteq> a) xs)) = set (map snd xs)"
proof -
  have "v \<in> snd ` {x \<in> set xs. fst x \<noteq> a}"
    using map_of_SomeD [OF assms(3)] assms(4) by (force intro: rev_image_eqI)
  moreover have "snd x = v" if "x \<in> set xs" and "fst x = a" for x
    using that assms(2) map_of_is_SomeI [OF assms(1), of a "snd x"] by (metis option.inject prod.collapse)
  ultimately have "snd ` {x \<in> set xs. fst x \<noteq> a} = snd ` set xs" by auto
  then show ?thesis by (simp add: case_prod_beta)
qed

text \<open>C41: The two platforms understand the same keyboard: a logical key other than a mouse button is
  produced by some \<open>rdev\<close> key exactly when some \<open>evdev\<close> key produces it.\<close>

theorem platforms_agree_on_keys:
  "is_mouse_button l = None \<Longrightarrow>
   (\<exists>k. logical_key_from_rdev k = Some l) \<longleftrightarrow> (\<exists>k. logical_key_from_evdev k = Some l)"
proof -
  have ran: "(\<exists>k. map_of xs k = Some l) \<longleftrightarrow> l \<in> set (map snd xs)"
    if "distinct (map fst xs)" for xs :: "(string \<times> logical_key) list"
    using that by (force dest: map_of_SomeD)
  have d: "distinct (map fst rdev_keys)" "distinct (map fst evdev_keys)"
    by (simp_all add: rdev_keys_def evdev_keys_def)
  have "map snd evdev_keys = map snd (filter (\<lambda>(k, _). k \<noteq> ''KpDelete'') rdev_keys) @
      map MouseKey [MouseLeft, MouseRight, MouseMiddle, Button4, Button4, Button5, Button5, MouseOther 6]"
    by (simp add: rdev_keys_def evdev_keys_def)
  moreover have "map_of rdev_keys ''KpDelete'' = Some Delete" "map_of rdev_keys ''Delete'' = Some Delete"
    by (simp_all add: rdev_keys_def)
  ultimately have "set (map snd evdev_keys) = set (map snd rdev_keys) \<union>
      set (map MouseKey [MouseLeft, MouseRight, MouseMiddle, Button4, Button4, Button5, Button5, MouseOther 6])"
    using values_without_duplicate [OF d(1), of "''KpDelete''" Delete "''Delete''"] by simp
  then show "is_mouse_button l = None \<Longrightarrow> ?thesis"
    using ran [OF d(1)] ran [OF d(2)]
    by (auto simp: logical_key_from_rdev_def logical_key_from_evdev_def)
qed

theorem platforms_agree_on_keys_witness:
  "(\<exists>k. logical_key_from_rdev k = Some Enter) \<longleftrightarrow> (\<exists>k. logical_key_from_evdev k = Some Enter)"
  by (rule platforms_agree_on_keys) simp

section \<open>The hotkey evaluator\<close>

datatype hotkey_evaluation = HotkeyNoMatch | HotkeySwallow | HotkeyMatched expansion_result

record hotkey_evaluator =
  he_swallowed_keys :: "logical_key set"

definition hotkey_evaluator_new :: hotkey_evaluator where
  "hotkey_evaluator_new = \<lparr>he_swallowed_keys = {}\<rparr>"

definition hotkey_clear :: "hotkey_evaluator \<Rightarrow> hotkey_evaluator" where
  "hotkey_clear he = he\<lparr>he_swallowed_keys := {}\<rparr>"

definition hotkey_stat_kind :: "expansion_step list \<Rightarrow> trigger_stat_kind" where
  "hotkey_stat_kind steps = (case steps of [ScriptStep md] \<Rightarrow> Script_Stat | _ \<Rightarrow> Hotkey_Stat)"

definition hotkey_result :: "string \<Rightarrow> final_expansion \<Rightarrow> expansion_result" where
  "hotkey_result trigger expansion =
     \<lparr>er_delete_count = 0, er_steps = fe_steps expansion, er_trigger = trigger, er_undo_trigger = None,
      er_is_calculation = fe_is_calculation expansion,
      er_stat_kind = hotkey_stat_kind (fe_steps expansion), er_track_usage = True, er_follow_up = None\<rparr>"

definition on_key_press ::
  "('f, 'd) catalog_env \<Rightarrow> engine_state \<Rightarrow> active_window_info option \<Rightarrow> hotkey_evaluator \<Rightarrow> modifiers \<Rightarrow>
   logical_key \<Rightarrow> hotkey_evaluator \<times> hotkey_evaluation" where
  "on_key_press env st window he ms k =
     (if fullscreen_suppressed st then (he, HotkeyNoMatch)
      else if is_modifier_key k \<noteq> None then (he, HotkeyNoMatch)
      else if k \<in> he_swallowed_keys he then (he, HotkeySwallow)
      else if \<not> has_hotkey_entry_for st k then (he, HotkeyNoMatch)
      else case fetch_hotkey_expansion_lazy env st \<lparr>modifiers = ms, key = k\<rparr> window of
        None \<Rightarrow> (he, HotkeyNoMatch)
      | Some (trigger, expansion) \<Rightarrow>
          (he\<lparr>he_swallowed_keys := insert k (he_swallowed_keys he)\<rparr>,
           HotkeyMatched (hotkey_result trigger expansion)))"

definition on_key_release :: "hotkey_evaluator \<Rightarrow> logical_key \<Rightarrow> hotkey_evaluator \<times> hotkey_evaluation" where
  "on_key_release he k =
     (if is_modifier_key k \<noteq> None then (he, HotkeyNoMatch)
      else if k \<in> he_swallowed_keys he
      then (he\<lparr>he_swallowed_keys := he_swallowed_keys he - {k}\<rparr>, HotkeySwallow)
      else (he, HotkeyNoMatch))"

definition on_key_event ::
  "('f, 'd) catalog_env \<Rightarrow> engine_state \<Rightarrow> active_window_info option \<Rightarrow> hotkey_evaluator \<Rightarrow> bool \<Rightarrow> modifiers \<Rightarrow>
   logical_key \<Rightarrow> hotkey_evaluator \<times> hotkey_evaluation" where
  "on_key_event env st window he is_press ms k =
     (if is_press then on_key_press env st window he ms k else on_key_release he k)"

text \<open>
  A session of the evaluator: presses and releases, each under the engine state and the active window
  of its moment, and the clearing by an unmatched mouse button.
\<close>

datatype hotkey_event =
    HPress engine_state "active_window_info option" modifiers logical_key
  | HRelease logical_key
  | HClear

fun hotkey_step ::
  "('f, 'd) catalog_env \<Rightarrow> hotkey_evaluator \<Rightarrow> hotkey_event \<Rightarrow> hotkey_evaluator \<times> hotkey_evaluation" where
  "hotkey_step env he (HPress st window ms k) = on_key_press env st window he ms k"
| "hotkey_step env he (HRelease k) = on_key_release he k"
| "hotkey_step env he HClear = (hotkey_clear he, HotkeyNoMatch)"

fun hotkey_run ::
  "('f, 'd) catalog_env \<Rightarrow> hotkey_evaluator \<Rightarrow> hotkey_event list \<Rightarrow> hotkey_evaluator \<times> hotkey_evaluation list" where
  "hotkey_run env he [] = (he, [])"
| "hotkey_run env he (e # es) =
     (let (he1, out) = hotkey_step env he e; (he2, outs) = hotkey_run env he1 es in (he2, out # outs))"

text \<open>Whether the key is held by a matched press: matched last, and neither released nor cleared since.\<close>

fun held :: "logical_key \<Rightarrow> bool \<Rightarrow> (hotkey_event \<times> hotkey_evaluation) list \<Rightarrow> bool" where
  "held k b [] = b"
| "held k b ((HPress st window ms k', HotkeyMatched er) # es) = held k (b \<or> k' = k) es"
| "held k b ((HRelease k', out) # es) = held k (b \<and> k' \<noteq> k) es"
| "held k b ((HClear, out) # es) = held k False es"
| "held k b (e # es) = held k b es"

definition no_modifiers :: "hotkey_evaluator \<Rightarrow> bool" where
  "no_modifiers he \<longleftrightarrow> (\<forall>k \<in> he_swallowed_keys he. is_modifier_key k = None)"

lemma no_modifiers_step: "no_modifiers he \<Longrightarrow> no_modifiers (fst (hotkey_step env he e))"
  by (cases e) (auto simp: no_modifiers_def on_key_press_def on_key_release_def hotkey_clear_def
      split: option.split)

lemma held_step:
  assumes "no_modifiers he"
  shows "held k (k \<in> he_swallowed_keys he) ((e, snd (hotkey_step env he e)) # es) =
    held k (k \<in> he_swallowed_keys (fst (hotkey_step env he e))) es"
proof (cases e)
  case (HPress st window ms k')
  have "k \<in> he_swallowed_keys (fst (on_key_press env st window he ms k')) \<longleftrightarrow>
      k \<in> he_swallowed_keys he \<or> k' = k \<and> (\<exists>er. snd (on_key_press env st window he ms k') = HotkeyMatched er)"
    by (auto simp: on_key_press_def split: option.split)
  then show ?thesis
    using HPress by (cases "snd (on_key_press env st window he ms k')") simp_all
next
  case (HRelease k')
  have "k \<in> he_swallowed_keys (fst (on_key_release he k')) \<longleftrightarrow> k \<in> he_swallowed_keys he \<and> k' \<noteq> k"
    using assms by (auto simp: on_key_release_def no_modifiers_def)
  then show ?thesis using HRelease by simp
qed (simp add: hotkey_clear_def)

lemma hotkey_run_held:
  assumes "no_modifiers he"
  shows "k \<in> he_swallowed_keys (fst (hotkey_run env he es)) \<longleftrightarrow>
    held k (k \<in> he_swallowed_keys he) (zip es (snd (hotkey_run env he es)))"
  using assms
proof (induction es arbitrary: he)
  case (Cons e es)
  obtain he1 out where e: "hotkey_step env he e = (he1, out)" by fastforce
  have "no_modifiers he1" using no_modifiers_step [OF Cons.prems, of env e] e by simp
  then show ?case
    using Cons.IH [of he1] held_step [OF Cons.prems, of k e env] e by (simp add: case_prod_beta)
qed simp

lemma hotkey_run_append:
  "hotkey_run env he (es @ [e]) =
     (let (he1, outs) = hotkey_run env he es; (he2, out) = hotkey_step env he1 e in (he2, outs @ [out]))"
  by (induction es arbitrary: he) (simp_all add: case_prod_beta Let_def)

lemma no_modifiers_run: "no_modifiers he \<Longrightarrow> no_modifiers (fst (hotkey_run env he es))"
  by (induction es rule: rev_induct) (simp_all add: hotkey_run_append case_prod_beta Let_def no_modifiers_step)

lemma no_modifiers_new: "no_modifiers hotkey_evaluator_new"
  by (simp add: no_modifiers_def hotkey_evaluator_new_def)

text \<open>A release is swallowed exactly when its key is held by a matched hotkey: the last matched press of
  the key was followed by no release of it and no clearing.  So the release of every key that was
  passed on to the application is passed on too.\<close>

theorem release_swallowed_iff_held:
  assumes "hotkey_run env hotkey_evaluator_new (es @ [HRelease k]) = (he, outs @ [out])"
  shows "out = HotkeySwallow \<longleftrightarrow> held k False (zip es outs)"
proof -
  have out: "out = snd (on_key_release (fst (hotkey_run env hotkey_evaluator_new es)) k)"
    and outs: "outs = snd (hotkey_run env hotkey_evaluator_new es)"
    using assms by (auto simp: hotkey_run_append case_prod_beta Let_def)
  have swallowed: "k \<in> he_swallowed_keys (fst (hotkey_run env hotkey_evaluator_new es)) \<longleftrightarrow>
      held k False (zip es outs)"
    using hotkey_run_held [OF no_modifiers_new, of k env es] outs
    by (simp add: hotkey_evaluator_new_def)
  have "k \<in> he_swallowed_keys (fst (hotkey_run env hotkey_evaluator_new es)) \<Longrightarrow> is_modifier_key k = None"
    using no_modifiers_run [OF no_modifiers_new, of env es] by (simp add: no_modifiers_def)
  then show ?thesis unfolding out swallowed [symmetric] by (auto simp: on_key_release_def)
qed

definition alt_m :: modifiers where
  "alt_m = insert_active modifiers_new LeftAlt"

definition demo_hotkey_state :: engine_state where
  "demo_hotkey_state = load_hotkey_actions engine_state_new [(''alt+m'', text_action ''hello'')]"

text \<open>The key is pressed, repeats, and is released twice.\<close>

definition held_session :: "hotkey_event list" where
  "held_session =
     [HPress demo_hotkey_state None alt_m (Letter (CHR ''m'')),
      HPress demo_hotkey_state None alt_m (Letter (CHR ''m''))]"

definition demo_match :: hotkey_evaluation where
  "demo_match = HotkeyMatched (hotkey_result ''alt+m'' (text_expansion ''hello''))"

lemma demo_outcomes:
  "snd (hotkey_run plain_env hotkey_evaluator_new (held_session @ [HRelease (Letter (CHR ''m''))])) =
     [demo_match, HotkeySwallow, HotkeySwallow]"
  by code_simp

lemma pair_snd: "snd p = xs \<Longrightarrow> p = (fst p, xs)"
  by auto

theorem release_swallowed_iff_held_witness:
  "held (Letter (CHR ''m'')) False (zip held_session [demo_match, HotkeySwallow])"
proof -
  let ?run = "hotkey_run plain_env hotkey_evaluator_new (held_session @ [HRelease (Letter (CHR ''m''))])"
  have "?run = (fst ?run, [demo_match, HotkeySwallow] @ [HotkeySwallow])"
    by (rule pair_snd) (simp add: demo_outcomes)
  from release_swallowed_iff_held [OF this] show ?thesis by simp
qed

text \<open>C25: A held hotkey fires once.  After a matched press of a key, as long as the key is not released and
  the evaluator is not cleared (as an unbound mouse click clears it outside Windows), every further
  press event of it (the keyboard repeats) is swallowed and not matched again; only under a suppressed
  full-screen application is it passed on.\<close>

theorem held_hotkey_fires_once:
  assumes "hotkey_run env hotkey_evaluator_new (es @ [HPress st window ms k]) = (he, outs @ [out])"
    and "held k False (zip es outs)"
  shows "out = (if fullscreen_suppressed st then HotkeyNoMatch else HotkeySwallow)"
proof -
  let ?he = "fst (hotkey_run env hotkey_evaluator_new es)"
  have out: "out = snd (on_key_press env st window ?he ms k)"
    and outs: "outs = snd (hotkey_run env hotkey_evaluator_new es)"
    using assms(1) by (auto simp: hotkey_run_append case_prod_beta Let_def)
  have k: "k \<in> he_swallowed_keys ?he"
    using hotkey_run_held [OF no_modifiers_new, of k env es] outs assms(2)
    by (simp add: hotkey_evaluator_new_def)
  then have "is_modifier_key k = None"
    using no_modifiers_run [OF no_modifiers_new, of env es] by (simp add: no_modifiers_def)
  with k show ?thesis unfolding out by (simp add: on_key_press_def)
qed

theorem held_hotkey_fires_once_witness:
  "HotkeySwallow = (if fullscreen_suppressed demo_hotkey_state then HotkeyNoMatch else HotkeySwallow)"
proof -
  let ?p = "HPress demo_hotkey_state None alt_m (Letter (CHR ''m''))"
  let ?run = "hotkey_run plain_env hotkey_evaluator_new ([?p] @ [?p])"
  have "snd ?run = [demo_match, HotkeySwallow]" by code_simp
  then have run: "?run = (fst ?run, [demo_match] @ [HotkeySwallow])"
    by (intro pair_snd) simp
  have "held (Letter (CHR ''m'')) False (zip [?p] [demo_match])" by code_simp
  from held_hotkey_fires_once [OF run this] show ?thesis .
qed

text \<open>C41: A hotkey whose text ends in an \<open>ai\<close> transformer has no steps and carries its prompt in the
  expansion; the hotkey evaluator drops it.  The key is swallowed, nothing is typed and no request is
  made, whatever the prompt.\<close>

theorem hotkey_drops_ai_transformer:
  assumes "fetch_hotkey_expansion_lazy env st \<lparr>modifiers = ms, key = k\<rparr> window = Some (trigger, fe)"
    and "fe_ai_template fe = Some template" and "fe_steps fe = []"
    and "\<not> fullscreen_suppressed st" and "is_modifier_key k = None" and "k \<notin> he_swallowed_keys he"
  shows "\<exists>he' er. on_key_press env st window he ms k = (he', HotkeyMatched er) \<and>
    er_steps er = [] \<and> er_follow_up er = None"
proof -
  have "has_hotkey_entry_for st k"
    using assms(1) by (auto simp: fetch_hotkey_expansion_lazy_def match_action_lazy_def has_hotkey_entry_for_def
        has_entry_for_def split: option.splits)
  then show ?thesis using assms by (simp add: on_key_press_def hotkey_result_def)
qed

definition ai_env :: "(nat, unit) catalog_env" where
  "ai_env = plain_env\<lparr>ce_plan :=
     \<lambda>t args k. \<lparr>fe_steps = [], fe_is_calculation = False, fe_ai_template = Some t\<rparr>\<rparr>"

theorem hotkey_drops_ai_transformer_witness:
  "\<exists>he' er. on_key_press ai_env demo_hotkey_state None hotkey_evaluator_new alt_m (Letter (CHR ''m'')) =
     (he', HotkeyMatched er) \<and> er_steps er = [] \<and> er_follow_up er = None"
proof -
  let ?fe = "\<lparr>fe_steps = [], fe_is_calculation = False, fe_ai_template = Some ''hello''\<rparr>"
  have "fetch_hotkey_expansion_lazy ai_env demo_hotkey_state
      \<lparr>modifiers = alt_m, key = Letter (CHR ''m'')\<rparr> None = Some (''alt+m'', ?fe)"
    by code_simp
  moreover have "\<not> fullscreen_suppressed demo_hotkey_state" by code_simp
  ultimately show ?thesis
    using hotkey_drops_ai_transformer [of ai_env demo_hotkey_state alt_m "Letter (CHR ''m'')" None "''alt+m''"
      ?fe "''hello''" hotkey_evaluator_new] by (simp add: hotkey_evaluator_new_def)
qed

section \<open>Events of the input library\<close>

text \<open>A pointer movement or a turn of the wheel is \<open>OtherEvent\<close> with a number for its coordinates.\<close>

datatype rdev_event_type =
    KeyPressEvent rdev_key
  | KeyReleaseEvent rdev_key
  | ButtonPressEvent rdev_button
  | ButtonReleaseEvent rdev_button
  | OtherEvent nat

record rdev_event =
  re_event_type :: rdev_event_type
  re_name :: "string option"

section \<open>Voice hotkeys and the pause chord\<close>

datatype voice_hotkey_spec = ModifierChord modifiers | StandardHotkey hotkey

fun insert_tokens :: "modifiers \<Rightarrow> string list \<Rightarrow> modifiers option" where
  "insert_tokens ms [] = Some ms"
| "insert_tokens ms (token # tokens) =
     (case modifier_from_alias token of
        None \<Rightarrow> None
      | Some m \<Rightarrow>
          (case modifiers_insert ms m of
             Inl _ \<Rightarrow> None
           | Inr ms' \<Rightarrow> insert_tokens ms' tokens))"

definition voice_spec_parse :: "string \<Rightarrow> voice_hotkey_spec option" where
  "voice_spec_parse inp =
     (let trimmed = str_trim inp in
      if trimmed = [] then None
      else case parse_hotkey trimmed of
        Inr hk \<Rightarrow> Some (StandardHotkey hk)
      | Inl _ \<Rightarrow>
          (case split_tokens trimmed of
             Inl _ \<Rightarrow> None
           | Inr tokens \<Rightarrow>
               (case insert_tokens modifiers_new tokens of
                  None \<Rightarrow> None
                | Some ms \<Rightarrow> if modifiers_is_empty ms then None else Some (ModifierChord ms))))"

fun spec_pressed :: "voice_hotkey_spec \<Rightarrow> logical_key \<Rightarrow> modifiers \<Rightarrow> bool" where
  "spec_pressed (ModifierChord req) logical active =
     (case logical of
        ModifierKey m \<Rightarrow> family_state req (family m) \<noteq> Absent \<and> modifiers_matches_active req active
      | _ \<Rightarrow> False)"
| "spec_pressed (StandardHotkey hk) logical active =
     (logical = key hk \<and> modifiers_matches_active (modifiers hk) active)"

fun spec_released :: "voice_hotkey_spec \<Rightarrow> logical_key \<Rightarrow> bool" where
  "spec_released (ModifierChord req) logical =
     (case logical of ModifierKey m \<Rightarrow> family_state req (family m) \<noteq> Absent | _ \<Rightarrow> False)"
| "spec_released (StandardHotkey hk) logical =
     (if logical = key hk then True
      else case logical of ModifierKey m \<Rightarrow> family_state (modifiers hk) (family m) \<noteq> Absent | _ \<Rightarrow> False)"

definition matches_press :: "voice_hotkey_spec \<Rightarrow> rdev_event \<Rightarrow> modifiers \<Rightarrow> bool" where
  "matches_press spec ev active =
     (case re_event_type ev of
        KeyPressEvent k \<Rightarrow>
          (case logical_key_from_rdev k of None \<Rightarrow> False | Some logical \<Rightarrow> spec_pressed spec logical active)
      | _ \<Rightarrow> False)"

definition matches_release :: "voice_hotkey_spec \<Rightarrow> rdev_event \<Rightarrow> bool" where
  "matches_release spec ev =
     (case re_event_type ev of
        KeyReleaseEvent k \<Rightarrow>
          (case logical_key_from_rdev k of None \<Rightarrow> False | Some logical \<Rightarrow> spec_released spec logical)
      | _ \<Rightarrow> False)"

definition matches_press_evdev :: "voice_hotkey_spec \<Rightarrow> evdev_key \<Rightarrow> bool \<Rightarrow> modifiers \<Rightarrow> bool" where
  "matches_press_evdev spec k is_press active =
     (if \<not> is_press then False
      else case logical_key_from_evdev k of None \<Rightarrow> False | Some logical \<Rightarrow> spec_pressed spec logical active)"

definition matches_release_evdev :: "voice_hotkey_spec \<Rightarrow> evdev_key \<Rightarrow> bool \<Rightarrow> bool" where
  "matches_release_evdev spec k is_release =
     (if \<not> is_release then False
      else case logical_key_from_evdev k of None \<Rightarrow> False | Some logical \<Rightarrow> spec_released spec logical)"

definition parse_pause_hotkey_setting :: "string \<Rightarrow> hotkey option" where
  "parse_pause_hotkey_setting setting = (case parse_hotkey setting of Inl _ \<Rightarrow> None | Inr hk \<Rightarrow> Some hk)"

definition is_pause_chord :: "rdev_event \<Rightarrow> modifiers \<Rightarrow> hotkey \<Rightarrow> bool" where
  "is_pause_chord ev ms spec =
     (case re_event_type ev of
        KeyPressEvent k \<Rightarrow>
          (case logical_key_from_rdev k of
             None \<Rightarrow> False
           | Some logical \<Rightarrow> hotkey_matches spec \<lparr>modifiers = ms, key = logical\<rparr>)
      | _ \<Rightarrow> False)"

definition is_pause_chord_evdev :: "evdev_key \<Rightarrow> bool \<Rightarrow> modifiers \<Rightarrow> hotkey \<Rightarrow> bool" where
  "is_pause_chord_evdev k is_press ms spec =
     (if \<not> is_press then False
      else case logical_key_from_evdev k of
        None \<Rightarrow> False
      | Some logical \<Rightarrow> hotkey_matches spec \<lparr>modifiers = ms, key = logical\<rparr>)"

text \<open>The two cached specifications, refreshed when a setting changes.\<close>

record voice_specs =
  vs_ptt :: "voice_hotkey_spec option"
  vs_handsfree :: "voice_hotkey_spec option"

definition refresh_cached_voice_specs :: "string \<Rightarrow> string \<Rightarrow> voice_specs" where
  "refresh_cached_voice_specs ptt handsfree =
     \<lparr>vs_ptt = voice_spec_parse ptt, vs_handsfree = voice_spec_parse handsfree\<rparr>"

lemma spec_pressed_released: "spec_pressed spec logical active \<Longrightarrow> spec_released spec logical"
  by (cases spec) (auto split: logical_key.splits)

lemma insert_tokens_spec:
  assumes "insert_tokens ms tokens = Some ms'" and "wf_modifiers ms"
  shows "wf_modifiers ms' \<and> (contains_exact ms' m \<longleftrightarrow>
    contains_exact ms m \<or> Some m \<in> set (map modifier_from_alias tokens))"
  using assms
proof (induction tokens arbitrary: ms)
  case (Cons token tokens)
  then obtain n ms1 where n: "modifier_from_alias token = Some n" "modifiers_insert ms n = Inr ms1"
    and rest: "insert_tokens ms1 tokens = Some ms'"
    by (auto split: option.split_asm sum.split_asm)
  from n(2) have "contains_exact ms1 m \<longleftrightarrow> contains_exact ms m \<or> m = n"
    by (cases ms) (auto simp: modifiers_insert_def Let_def split: if_split_asm)
  moreover have "wf_modifiers ms1" using Cons.prems(2) n(2) by (rule wf_modifiers_insert)
  ultimately show ?case using Cons.IH [OF rest] n(1) by auto
qed simp

text \<open>A voice hotkey setting that is not an ordinary hotkey is understood as the chord of its
  modifiers: exactly the ones it names, no family twice, and at least one.\<close>

theorem modifier_chord_names_its_modifiers:
  assumes "voice_spec_parse inp = Some (ModifierChord ms)"
  shows "\<exists>tokens. split_tokens (str_trim inp) = Inr tokens \<and> wf_modifiers ms \<and>
    \<not> modifiers_is_empty ms \<and>
    (\<forall>m. contains_exact ms m \<longleftrightarrow> Some m \<in> set (map modifier_from_alias tokens))"
proof -
  obtain tokens where t: "split_tokens (str_trim inp) = Inr tokens"
    and i: "insert_tokens modifiers_new tokens = Some ms" and "\<not> modifiers_is_empty ms"
    using assms by (auto simp: voice_spec_parse_def Let_def split: if_split_asm sum.split_asm option.split_asm)
  then show ?thesis using insert_tokens_spec [OF i wf_modifiers_new] by simp
qed

theorem modifier_chord_names_its_modifiers_witness:
  "\<exists>tokens. split_tokens (str_trim '' win + lctrl'') = Inr tokens \<and>
    (contains_exact (insert_active (insert_active modifiers_new Meta) LeftCtrl) LeftCtrl \<longleftrightarrow>
     Some LeftCtrl \<in> set (map modifier_from_alias tokens))"
proof -
  have "voice_spec_parse '' win + lctrl'' =
      Some (ModifierChord (insert_active (insert_active modifiers_new Meta) LeftCtrl))"
    by code_simp
  from modifier_chord_names_its_modifiers [OF this] show ?thesis by blast
qed

text \<open>A press that starts a push-to-talk recording can always be undone by the same key: whatever the
  specification, and whatever modifiers are down by then, the release of that key matches it.\<close>

theorem voice_press_has_release:
  assumes "matches_press spec \<lparr>re_event_type = KeyPressEvent k, re_name = nm\<rparr> active"
  shows "matches_release spec \<lparr>re_event_type = KeyReleaseEvent k, re_name = nm'\<rparr>"
  using assms spec_pressed_released by (auto simp: matches_press_def matches_release_def split: option.splits)

theorem voice_press_has_release_witness:
  "matches_release (ModifierChord (insert_active (insert_active modifiers_new Meta) LeftCtrl))
     \<lparr>re_event_type = KeyReleaseEvent ''MetaLeft'', re_name = None\<rparr>"
proof (rule voice_press_has_release)
  show "matches_press (ModifierChord (insert_active (insert_active modifiers_new Meta) LeftCtrl))
     \<lparr>re_event_type = KeyPressEvent ''MetaLeft'', re_name = None\<rparr>
     (modifiers_from_sides True False False False False False True False)" by code_simp
qed

end
