(* ===== verification/Gate.thy ===== *)
theory Gate
  imports HotkeyInput
begin

text \<open>
  The guards around simulated input, \<open>daemon/src/injector/gate.rs\<close> and \<open>simulate.rs\<close>: the depth
  counters behind the flag \<open>IS_INJECTING\<close>, the generation that aborts a running injection, and the
  queue by which the hook tells its own simulated events from physical ones.
\<close>

section \<open>Generations\<close>

definition abort_generation :: "u64 \<Rightarrow> u64" where
  "abort_generation generation = generation + 1"

definition is_aborted :: "u64 \<Rightarrow> u64 \<Rightarrow> bool" where
  "is_aborted captured generation \<longleftrightarrow> generation \<noteq> captured"

lemma abort_iterate: "(abort_generation ^^ n) g = g + of_nat n"
  by (induction n) (simp_all add: abort_generation_def)

text \<open>Aborts are isolated by generation: a task sees an abort exactly if one happened after it captured
  the generation.  The counter wraps, so the statement needs fewer than two to the 64 aborts.\<close>

theorem abort_seen_iff_later:
  assumes "n < 2 ^ 64"
  shows "is_aborted g ((abort_generation ^^ n) g) \<longleftrightarrow> 0 < n"
proof -
  have "(of_nat n :: u64) = 0 \<longleftrightarrow> n = 0"
    using assms by (simp add: word_of_nat_eq_0_iff dvd_imp_le) (use dvd_imp_le in fastforce)
  then show ?thesis by (auto simp: is_aborted_def abort_iterate)
qed

theorem abort_seen_iff_later_witness: "is_aborted 5 ((abort_generation ^^ 3) 5) \<longleftrightarrow> 0 < (3::nat)"
  by (rule abort_seen_iff_later) simp

section \<open>Simulated events\<close>

text \<open>The events are those of the input library, with their coordinates: any type with equality.\<close>

record 'e simulated_event =
  sv_event :: 'e
  sv_queued_at :: instant

definition simulated_event_ttl :: nat where
  "simulated_event_ttl = millis 250"

lemma simulated_event_ttl_value: "simulated_event_ttl = 250000000"
  by (simp add: simulated_event_ttl_def millis_def)

definition prune_expired_simulated_events :: "instant \<Rightarrow> 'e simulated_event list \<Rightarrow> 'e simulated_event list" where
  "prune_expired_simulated_events now q = dropWhile (\<lambda>e. simulated_event_ttl < now - sv_queued_at e) q"

definition consume_simulated_event ::
  "instant \<Rightarrow> 'e simulated_event list \<Rightarrow> 'e \<Rightarrow> 'e simulated_event list \<times> bool" where
  "consume_simulated_event now q ev =
     (case prune_expired_simulated_events now q of
        [] \<Rightarrow> ([], False)
      | e # rest \<Rightarrow> if sv_event e = ev then (rest, True) else (e # rest, False))"

definition queue_simulated :: "instant \<Rightarrow> 'e simulated_event list \<Rightarrow> 'e \<Rightarrow> 'e simulated_event list" where
  "queue_simulated now q ev = prune_expired_simulated_events now q @ [\<lparr>sv_event = ev, sv_queued_at = now\<rparr>]"

text \<open>\<open>ok\<close> is whether the library sent the event.\<close>

definition simulate_monitored ::
  "instant \<Rightarrow> 'e simulated_event list \<Rightarrow> 'e \<Rightarrow> bool \<Rightarrow> instant \<Rightarrow> 'e simulated_event list" where
  "simulate_monitored now q ev ok later =
     (let q1 = queue_simulated now q ev in
      if ok then q1
      else fst (consume_simulated_event later q1 ev))"

text \<open>The queue over time: events are sent, and the hook sees them.\<close>

datatype 'e queue_step = Simulated instant 'e | Seen instant 'e

fun queue_run :: "'e simulated_event list \<Rightarrow> 'e queue_step list \<Rightarrow> 'e simulated_event list \<times> bool list" where
  "queue_run q [] = (q, [])"
| "queue_run q (Simulated now ev # steps) = queue_run (simulate_monitored now q ev True now) steps"
| "queue_run q (Seen now ev # steps) =
     (let (q1, consumed) = consume_simulated_event now q ev; (q2, outs) = queue_run q1 steps
      in (q2, consumed # outs))"

text \<open>What the system delivers: \<open>delivers sent steps\<close> holds when every seen event is the oldest sent one
  not seen yet, and is seen no later than the time limit after it was sent.\<close>

fun delivers :: "'e simulated_event list \<Rightarrow> 'e queue_step list \<Rightarrow> bool" where
  "delivers sent [] = True"
| "delivers sent (Simulated now ev # steps) =
     (list_all (\<lambda>e. now - sv_queued_at e \<le> simulated_event_ttl) sent \<and>
      delivers (sent @ [\<lparr>sv_event = ev, sv_queued_at = now\<rparr>]) steps)"
| "delivers sent (Seen now ev # steps) =
     (list_all (\<lambda>e. now - sv_queued_at e \<le> simulated_event_ttl) sent \<and>
      sent \<noteq> [] \<and> sv_event (hd sent) = ev \<and> delivers (tl sent) steps)"

lemma prune_fresh [simp]:
  "list_all (\<lambda>e. now - sv_queued_at e \<le> simulated_event_ttl) q \<Longrightarrow> prune_expired_simulated_events now q = q"
  by (cases q) (auto simp: prune_expired_simulated_events_def)

lemma queue_run_delivers:
  "delivers q steps \<Longrightarrow> list_all id (snd (queue_run q steps))"
proof (induction q steps rule: queue_run.induct)
  case (2 q now ev steps)
  then show ?case by (simp add: simulate_monitored_def queue_simulated_def)
next
  case (3 q now ev steps)
  then obtain e rest where q: "q = e # rest" "sv_event e = ev" by (cases q) auto
  have c: "consume_simulated_event now q ev = (rest, True)"
    using 3(2) q by (simp add: consume_simulated_event_def)
  have "delivers rest steps" using 3(2) q by simp
  then show ?case using 3(1) [OF c [symmetric]] c by (simp add: case_prod_beta)
qed simp

text \<open>If the system delivers the simulated events in the order they were sent and within the time limit,
  the hook recognises every one of them: none is taken for a physical key, which would abort the
  injection.\<close>

theorem own_events_are_recognised:
  assumes "delivers [] steps"
  shows "list_all id (snd (queue_run [] steps))"
  using assms by (rule queue_run_delivers)

theorem own_events_are_recognised_witness:
  "list_all id (snd (queue_run []
     [Simulated 0 (KeyPressEvent ''KeyA''), Simulated 1 (KeyReleaseEvent ''KeyA''),
      Seen 2 (KeyPressEvent ''KeyA''), Simulated 3 (KeyPressEvent ''KeyB''),
      Seen 4 (KeyReleaseEvent ''KeyA''), Seen 5 (KeyPressEvent ''KeyB'')]))"
  by (rule own_events_are_recognised) (simp add: simulated_event_ttl_value)

text \<open>A physical event is never consumed unless it equals the oldest simulated event that is still
  awaited; in particular never when no simulated event younger than the time limit is awaited.\<close>

theorem physical_event_passes:
  "snd (consume_simulated_event now q ev) \<longleftrightarrow>
     (\<exists>e rest. prune_expired_simulated_events now q = e # rest \<and> sv_event e = ev \<and>
        now - sv_queued_at e \<le> simulated_event_ttl)"
proof (cases "prune_expired_simulated_events now q")
  case (Cons e rest)
  then have "\<not> simulated_event_ttl < now - sv_queued_at e"
    unfolding prune_expired_simulated_events_def by (metis dropWhile_eq_Cons_conv)
  then show ?thesis using Cons by (auto simp: consume_simulated_event_def)
qed (simp add: consume_simulated_event_def)

text \<open>A failed simulation leaves its event in the queue when an older one is still awaited: only the
  oldest entry is looked at.  The event that was never sent then hides a physical one.\<close>

theorem failed_simulation_stays_queued:
  assumes "list_all (\<lambda>e. now - sv_queued_at e \<le> simulated_event_ttl) (e # q)" and "sv_event e \<noteq> ev"
  shows "simulate_monitored now (e # q) ev False now = e # q @ [\<lparr>sv_event = ev, sv_queued_at = now\<rparr>]"
  using assms
  by (simp add: simulate_monitored_def queue_simulated_def consume_simulated_event_def)

theorem failed_simulation_stays_queued_witness:
  "simulate_monitored 1 [\<lparr>sv_event = KeyPressEvent ''KeyA'', sv_queued_at = 0\<rparr>] (KeyPressEvent ''KeyB'') False 1 =
     [\<lparr>sv_event = KeyPressEvent ''KeyA'', sv_queued_at = 0\<rparr>, \<lparr>sv_event = KeyPressEvent ''KeyB'', sv_queued_at = 1\<rparr>]"
  using failed_simulation_stays_queued [of 1 "\<lparr>sv_event = KeyPressEvent ''KeyA'', sv_queued_at = 0\<rparr>" "[]"
      "KeyPressEvent ''KeyB''"] by (simp add: simulated_event_ttl_value)

section \<open>The gate\<close>

text \<open>
  \<open>fetch_sub\<close> answers the value before and wraps below zero; the value that remains is computed with
  \<open>saturating_sub\<close>.
\<close>

record injection_gate =
  ig_injecting :: bool
  ig_scope_depth :: u64
  ig_visibility_depth :: u64

definition gate_new :: injection_gate where
  "gate_new = \<lparr>ig_injecting = False, ig_scope_depth = 0, ig_visibility_depth = 0\<rparr>"

definition saturating_pred :: "u64 \<Rightarrow> u64" where
  "saturating_pred n = (if n = 0 then 0 else n - 1)"

datatype guard_kind = FlagGuard | VisibilityGuard

definition begin_scope :: "injection_gate \<Rightarrow> injection_gate" where
  "begin_scope g = g\<lparr>ig_scope_depth := ig_scope_depth g + 1, ig_visibility_depth := ig_visibility_depth g + 1,
     ig_injecting := True\<rparr>"

definition end_scope :: "injection_gate \<Rightarrow> injection_gate" where
  "end_scope g = g\<lparr>ig_scope_depth := ig_scope_depth g - 1, ig_visibility_depth := ig_visibility_depth g - 1,
     ig_injecting := 0 < saturating_pred (ig_visibility_depth g)\<rparr>"

definition begin_visibility :: "injection_gate \<Rightarrow> injection_gate" where
  "begin_visibility g = g\<lparr>ig_visibility_depth := ig_visibility_depth g + 1, ig_injecting := True\<rparr>"

definition end_visibility :: "injection_gate \<Rightarrow> injection_gate" where
  "end_visibility g = g\<lparr>ig_visibility_depth := ig_visibility_depth g - 1,
     ig_injecting := 0 < saturating_pred (ig_visibility_depth g)\<rparr>"

datatype gate_op = OpenGuard guard_kind | DropGuard guard_kind

fun gate_op_run :: "injection_gate \<Rightarrow> gate_op \<Rightarrow> injection_gate" where
  "gate_op_run g (OpenGuard FlagGuard) = begin_scope g"
| "gate_op_run g (OpenGuard VisibilityGuard) = begin_visibility g"
| "gate_op_run g (DropGuard FlagGuard) = end_scope g"
| "gate_op_run g (DropGuard VisibilityGuard) = end_visibility g"

fun guards_open :: "nat \<Rightarrow> gate_op list \<Rightarrow> nat option" where
  "guards_open n [] = Some n"
| "guards_open n (OpenGuard k # ops) = guards_open (n + 1) ops"
| "guards_open n (DropGuard k # ops) = (if n = 0 then None else guards_open (n - 1) ops)"

lemma of_nat_pos_u64:
  assumes "n < 2 ^ 64"
  shows "(0 < (of_nat n :: u64)) \<longleftrightarrow> 0 < n"
proof -
  have "\<not> 2 ^ 64 dvd n" if "0 < n" using that assms dvd_imp_le [of "2 ^ 64" n] by linarith
  then show ?thesis by (cases "n = 0") (simp_all add: word_gt_0 word_of_nat_eq_0_iff)
qed

lemma gate_op_depth:
  "ig_visibility_depth (gate_op_run g op) =
     (case op of OpenGuard k \<Rightarrow> ig_visibility_depth g + 1 | DropGuard k \<Rightarrow> ig_visibility_depth g - 1)"
  by (cases "(g, op)" rule: gate_op_run.cases)
    (simp_all add: begin_scope_def end_scope_def begin_visibility_def end_visibility_def)

lemma gate_op_flag:
  "ig_injecting (gate_op_run g op) \<longleftrightarrow>
     (case op of OpenGuard k \<Rightarrow> True | DropGuard k \<Rightarrow> 0 < saturating_pred (ig_visibility_depth g))"
  by (cases "(g, op)" rule: gate_op_run.cases)
    (simp_all add: begin_scope_def end_scope_def begin_visibility_def end_visibility_def)

lemma gate_run_flag:
  assumes "guards_open n ops = Some m" and "n + length ops < 2 ^ 64"
    and "ig_visibility_depth g = of_nat n" and "ig_injecting g \<longleftrightarrow> 0 < n"
  shows "ig_injecting (foldl gate_op_run g ops) \<longleftrightarrow> 0 < m"
  using assms
proof (induction ops arbitrary: n g)
  case (Cons op ops)
  show ?case
  proof (cases op)
    case (OpenGuard k)
    then show ?thesis
      using Cons.prems Cons.IH [of "n + 1" "gate_op_run g op"]
      by (simp add: gate_op_depth gate_op_flag add.commute)
  next
    case (DropGuard k)
    then have n: "0 < n" using Cons.prems(1) by (simp split: if_split_asm)
    then have d: "ig_visibility_depth g - 1 = of_nat (n - 1)" "ig_visibility_depth g \<noteq> 0"
      using Cons.prems(2,3) of_nat_pos_u64 [of n] by (auto simp: of_nat_diff word_gt_0)
    then show ?thesis
      using DropGuard n Cons.prems Cons.IH [of "n - 1" "gate_op_run g op"] of_nat_pos_u64 [of "n - 1"]
      by (simp add: gate_op_depth gate_op_flag saturating_pred_def)
  qed
qed simp

text \<open>As long as guards are opened and dropped one at a time, in any nesting and of either kind, the
  flag is up exactly while some guard is open.\<close>

theorem gate_flag_sequential:
  assumes "guards_open 0 ops = Some n" and "length ops < 2 ^ 64"
  shows "ig_injecting (foldl gate_op_run gate_new ops) \<longleftrightarrow> 0 < n"
  using gate_run_flag [OF assms(1), of gate_new] assms(2) by (simp add: gate_new_def)

theorem gate_flag_sequential_witness:
  "ig_injecting (foldl gate_op_run gate_new
     [OpenGuard FlagGuard, OpenGuard VisibilityGuard, DropGuard FlagGuard]) \<longleftrightarrow> (0::nat) < 1"
  by (rule gate_flag_sequential) simp_all

section \<open>The gate under several threads\<close>

text \<open>
  The operations of a guard are separate atomic accesses.  \<open>GateEnding remaining\<close> is a thread that has
  read what remains and has not stored the flag yet.
\<close>

datatype gate_pc =
    GateOutside
  | GateScoped
  | GateVisible guard_kind
  | GateInside guard_kind
  | GateUnscoped
  | GateEnding u64

fun in_scope :: "gate_pc \<Rightarrow> bool" where
  "in_scope GateScoped \<longleftrightarrow> True"
| "in_scope (GateVisible k) \<longleftrightarrow> k = FlagGuard"
| "in_scope (GateInside k) \<longleftrightarrow> k = FlagGuard"
| "in_scope _ \<longleftrightarrow> False"

fun in_visibility :: "gate_pc \<Rightarrow> bool" where
  "in_visibility (GateVisible k) \<longleftrightarrow> True"
| "in_visibility (GateInside k) \<longleftrightarrow> True"
| "in_visibility GateUnscoped \<longleftrightarrow> True"
| "in_visibility _ \<longleftrightarrow> False"

fun gate_micro :: "injection_gate \<Rightarrow> gate_pc \<Rightarrow> (injection_gate \<times> gate_pc) list" where
  "gate_micro g GateOutside =
     [(g\<lparr>ig_scope_depth := ig_scope_depth g + 1\<rparr>, GateScoped),
      (g\<lparr>ig_visibility_depth := ig_visibility_depth g + 1\<rparr>, GateVisible VisibilityGuard)]"
| "gate_micro g GateScoped =
     [(g\<lparr>ig_visibility_depth := ig_visibility_depth g + 1\<rparr>, GateVisible FlagGuard)]"
| "gate_micro g (GateVisible k) = [(g\<lparr>ig_injecting := True\<rparr>, GateInside k)]"
| "gate_micro g (GateInside FlagGuard) = [(g\<lparr>ig_scope_depth := ig_scope_depth g - 1\<rparr>, GateUnscoped)]"
| "gate_micro g (GateInside VisibilityGuard) =
     [(g\<lparr>ig_visibility_depth := ig_visibility_depth g - 1\<rparr>,
       GateEnding (saturating_pred (ig_visibility_depth g)))]"
| "gate_micro g GateUnscoped =
     [(g\<lparr>ig_visibility_depth := ig_visibility_depth g - 1\<rparr>,
       GateEnding (saturating_pred (ig_visibility_depth g)))]"
| "gate_micro g (GateEnding remaining) = [(g\<lparr>ig_injecting := 0 < remaining\<rparr>, GateOutside)]"

inductive gate_reachable :: "nat \<Rightarrow> injection_gate \<Rightarrow> gate_pc list \<Rightarrow> bool" for n where
  start: "gate_reachable n gate_new (replicate n GateOutside)"
| step: "gate_reachable n g pcs \<Longrightarrow> i < length pcs \<Longrightarrow> (g', pc) \<in> set (gate_micro g (pcs ! i)) \<Longrightarrow>
    gate_reachable n g' (pcs[i := pc])"

definition holders :: "(gate_pc \<Rightarrow> bool) \<Rightarrow> gate_pc list \<Rightarrow> u64" where
  "holders p pcs = sum_list (map (\<lambda>pc. if p pc then 1 else 0) pcs)"

lemma holders_update:
  "i < length pcs \<Longrightarrow> holders p (pcs[i := pc]) =
     holders p pcs - (if p (pcs ! i) then 1 else 0) + (if p pc then 1 else 0)"
proof (induction pcs arbitrary: i)
  case (Cons q pcs)
  then show ?case by (cases i) (simp_all add: holders_def)
qed simp

lemma gate_micro_depths:
  assumes "(g', pc) \<in> set (gate_micro g q)"
  shows "ig_scope_depth g' = ig_scope_depth g - (if in_scope q then 1 else 0) + (if in_scope pc then 1 else 0) \<and>
    ig_visibility_depth g' =
      ig_visibility_depth g - (if in_visibility q then 1 else 0) + (if in_visibility pc then 1 else 0)"
  using assms by (cases "(g, q)" rule: gate_micro.cases) auto

lemma gate_depths:
  "gate_reachable n g pcs \<Longrightarrow>
     length pcs = n \<and> ig_scope_depth g = holders in_scope pcs \<and> ig_visibility_depth g = holders in_visibility pcs"
proof (induction rule: gate_reachable.induct)
  case start
  show ?case by (simp add: gate_new_def holders_def map_replicate_const sum_list_replicate)
next
  case (step g pcs i g' pc)
  then show ?case using gate_micro_depths [OF step.hyps(3)] by (simp add: holders_update)
qed

lemma holders_pos:
  assumes "length pcs < 2 ^ 64" and "i < length pcs" and "p (pcs ! i)"
  shows "holders p pcs \<noteq> 0"
proof -
  have "holders p pcs = of_nat (length (filter p pcs))"
    by (induction pcs) (simp_all add: holders_def)
  moreover have "pcs ! i \<in> set (filter p pcs)" using assms by simp
  then have "0 < length (filter p pcs)" by (metis length_greater_0_conv empty_iff list.set(1))
  moreover have "length (filter p pcs) < 2 ^ 64" using assms(1) length_filter_le [of p pcs] by linarith
  ultimately show ?thesis using of_nat_pos_u64 [of "length (filter p pcs)"] by (simp add: word_gt_0)
qed

text \<open>C21: However the threads interleave, the two depth counters count the open guards: the assertions of
  \<open>end_scope\<close> and \<open>end_visibility\<close> that no counter falls below zero never fail.\<close>

theorem gate_depths_never_underflow:
  assumes "gate_reachable n g pcs" and "n < 2 ^ 64" and "i < length pcs"
  shows "(pcs ! i = GateInside FlagGuard \<longrightarrow> ig_scope_depth g \<noteq> 0) \<and>
    (pcs ! i \<in> {GateUnscoped, GateInside VisibilityGuard} \<longrightarrow> ig_visibility_depth g \<noteq> 0)"
  using gate_depths [OF assms(1)] holders_pos [of pcs i in_scope] holders_pos [of pcs i in_visibility] assms(2,3)
  by auto

text \<open>A schedule names the threads that move; each takes its first possible step.\<close>

fun gate_schedule :: "injection_gate \<Rightarrow> gate_pc list \<Rightarrow> nat list \<Rightarrow> injection_gate \<times> gate_pc list" where
  "gate_schedule g pcs [] = (g, pcs)"
| "gate_schedule g pcs (i # is) =
     (if i < length pcs
      then let (g', pc) = hd (gate_micro g (pcs ! i)) in gate_schedule g' (pcs[i := pc]) is
      else (g, pcs))"

lemma gate_schedule_reachable:
  "gate_reachable n g pcs \<Longrightarrow> gate_schedule g pcs is = (g', pcs') \<Longrightarrow> gate_reachable n g' pcs'"
proof (induction g pcs "is" rule: gate_schedule.induct)
  case (2 g pcs i "is")
  show ?case
  proof (cases "i < length pcs")
    case True
    obtain g1 pc where h: "hd (gate_micro g (pcs ! i)) = (g1, pc)" by fastforce
    have "gate_micro g (pcs ! i) \<noteq> []" by (cases "(g, pcs ! i)" rule: gate_micro.cases) simp_all
    then have "(g1, pc) \<in> set (gate_micro g (pcs ! i))" using h by (metis hd_in_set)
    with 2(2) True have "gate_reachable n g1 (pcs[i := pc])" by (rule gate_reachable.step)
    then show ?thesis using 2(1) [OF True h [symmetric] refl] 2(3) True h by simp
  qed (use 2 in simp)
qed simp

lemma gate_schedule_start:
  "gate_schedule gate_new (replicate n GateOutside) is = (g', pcs') \<Longrightarrow> gate_reachable n g' pcs'"
  by (rule gate_schedule_reachable [OF gate_reachable.start])

theorem gate_depths_never_underflow_witness:
  "\<exists>g. gate_reachable 2 g [GateInside FlagGuard, GateScoped] \<and> ig_scope_depth g \<noteq> 0"
proof -
  obtain g where g: "gate_schedule gate_new (replicate 2 GateOutside) [0, 0, 1, 0] =
      (g, [GateInside FlagGuard, GateScoped])"
    by (simp add: gate_new_def numeral_2_eq_2)
  show ?thesis
    using gate_depths_never_underflow [OF gate_schedule_start [OF g], of 0] gate_schedule_start [OF g] by auto
qed

text \<open>The flag itself is not protected.  Dropping a guard reads the remaining depth and stores the flag
  in two accesses: a thread that opens a guard between them is left inside with the flag down, so
  its own typing is processed as the user's; and two guards dropped across each other can leave the
  flag up with nobody inside.\<close>

theorem gate_flag_race:
  "(\<exists>g. gate_reachable 2 g [GateOutside, GateInside FlagGuard] \<and> \<not> ig_injecting g) \<and>
   (\<exists>g. gate_reachable 2 g [GateOutside, GateOutside] \<and> ig_injecting g)"
proof
  obtain g where "gate_schedule gate_new (replicate 2 GateOutside) [0, 0, 0, 0, 0, 1, 1, 1, 0] =
      (g, [GateOutside, GateInside FlagGuard])" and "\<not> ig_injecting g"
    by (simp add: gate_new_def numeral_2_eq_2 saturating_pred_def)
  then show "\<exists>g. gate_reachable 2 g [GateOutside, GateInside FlagGuard] \<and> \<not> ig_injecting g"
    using gate_schedule_start by blast
next
  obtain g where "gate_schedule gate_new (replicate 2 GateOutside) [0, 0, 0, 1, 1, 1, 0, 0, 1, 1, 1, 0] =
      (g, [GateOutside, GateOutside])" and "ig_injecting g"
    by (simp add: gate_new_def numeral_2_eq_2 saturating_pred_def)
  then show "\<exists>g. gate_reachable 2 g [GateOutside, GateOutside] \<and> ig_injecting g"
    using gate_schedule_start by blast
qed

end
