(* ===== verification/Dispatch.thy ===== *)
theory Dispatch
  imports Evaluator
begin

text \<open>
  What the daemon does with a result, \<open>daemon/src/hook/dispatch.rs\<close>, as far as it concerns the
  shared state: the undo window and the case cycle are opened before the text is typed, the window
  is refreshed with the characters that were really typed, and the use of the trigger is recorded.
  Typing itself is the argument \<open>report\<close>: how many characters went through, and whether all did.
\<close>

section \<open>Dispatching a result\<close>

record injection_report =
  ir_successful_chars :: nat
  ir_completed :: bool

definition expanded_text :: "expansion_step list \<Rightarrow> string" where
  "expanded_text steps = concat (map (\<lambda>s. case s of TextStep t \<Rightarrow> t | _ \<Rightarrow> []) steps)"

definition expected_output_chars :: "expansion_step list \<Rightarrow> nat" where
  "expected_output_chars steps = sum_list (map (\<lambda>s. case s of TextStep t \<Rightarrow> length t | _ \<Rightarrow> 0) steps)"

text \<open>The part before the injection.\<close>

definition open_undo :: "engine_state \<Rightarrow> instant \<Rightarrow> expansion_result \<Rightarrow> engine_state" where
  "open_undo st now er =
     (let st1 = clear_undo_state st in
      case er_undo_trigger er of
        None \<Rightarrow> st1
      | Some undo_trig \<Rightarrow>
          if er_follow_up er \<noteq> None then st1
          else if 0 < expected_output_chars (er_steps er)
          then register_case_cycle (set_undo_state st1 now undo_trig (expected_output_chars (er_steps er)))
                 now (expanded_text (er_steps er))
          else st1)"

text \<open>The part after it.\<close>

definition close_undo :: "engine_state \<Rightarrow> instant \<Rightarrow> expansion_result \<Rightarrow> injection_report \<Rightarrow> engine_state" where
  "close_undo st now er report =
     (case er_undo_trigger er of
        None \<Rightarrow> st
      | Some undo_trig \<Rightarrow>
          if er_follow_up er = None \<and> 0 < ir_successful_chars report
          then refresh_undo_state st now undo_trig (ir_successful_chars report)
          else st)"

record trigger_stat_event =
  se_trigger :: "string option"
  se_trigger_chars :: nat
  se_success :: bool
  se_output_chars :: nat
  se_kind :: trigger_stat_kind

definition stat_event :: "expansion_result \<Rightarrow> injection_report \<Rightarrow> trigger_stat_event option" where
  "stat_event er report =
     (if er_track_usage er \<and> er_stat_kind er \<noteq> InlineAi
      then Some \<lparr>se_trigger = Some (er_trigger er), se_trigger_chars = length (er_trigger er),
                 se_success = ir_completed report, se_output_chars = ir_successful_chars report,
                 se_kind = (if er_is_calculation er then Calculation else er_stat_kind er)\<rparr>
      else None)"

definition dispatch_expansion ::
  "engine_state \<Rightarrow> instant \<Rightarrow> expansion_result \<Rightarrow> injection_report \<Rightarrow> instant \<Rightarrow>
   engine_state \<times> trigger_stat_event option" where
  "dispatch_expansion st now er report later =
     (close_undo (open_undo st now er) later er report, stat_event er report)"

lemma expected_output_chars_text: "expected_output_chars steps = length (expanded_text steps)"
  by (induction steps) (auto simp: expected_output_chars_def expanded_text_def split: expansion_step.split)

section \<open>The undo window over time\<close>

text \<open>
  The steps of the listener on the undo window: time passes, the window is closed, an expansion is
  dispatched (typed in full), a case key cycles, Backspace takes the window.
\<close>

inductive undo_step :: "nat \<times> engine_state \<Rightarrow> nat \<times> engine_state \<Rightarrow> bool" where
  wait: "undo_step (now, st) (now + d, st)"
| clear: "undo_step (now, st) (now, clear_undo_state st)"
| expand: "ir_successful_chars report = expected_output_chars (er_steps er) \<Longrightarrow>
    undo_step (now, st) (now + d, fst (dispatch_expansion st now er report (now + d)))"
| cycle: "undo_step (now, st) (now, fst (advance_case_variant st now dir))"
| undo: "undo_step (now, st) (now, fst (take_active_undo_state st now))"

inductive undo_reachable :: "nat \<times> engine_state \<Rightarrow> bool" where
  init: "undo_reachable (now, engine_state_new)"
| step: "undo_reachable s \<Longrightarrow> undo_step s s' \<Longrightarrow> undo_reachable s'"

definition undo_inv :: "nat \<times> engine_state \<Rightarrow> bool" where
  "undo_inv s \<longleftrightarrow>
     (case s of (now, st) \<Rightarrow>
        (\<forall>u. es_undo_state st = Some u \<longrightarrow> us_timestamp u \<le> now \<and>
           (\<forall>c. es_case_cycle st = Some c \<longrightarrow> us_output_length u = length (current_text c))))"

lemma undo_inv_open: "undo_inv (now, open_undo st now er)"
  by (auto simp: undo_inv_def open_undo_def clear_undo_state_def clear_case_cycle_def set_undo_state_def
      register_case_cycle_def session_new_def Let_def expected_output_chars_text split: option.split)

lemma open_undo_cycle:
  "es_case_cycle (open_undo st now er) = Some c \<Longrightarrow> current_text c = expanded_text (er_steps er)"
  by (auto simp: open_undo_def clear_undo_state_def clear_case_cycle_def set_undo_state_def
      register_case_cycle_def session_new_def Let_def split: option.split_asm if_split_asm)

lemma undo_inv_step: "undo_step s s' \<Longrightarrow> undo_inv s \<Longrightarrow> undo_inv s'"
proof (induction rule: undo_step.induct)
  case (wait now st d)
  then show ?case by (auto simp: undo_inv_def)
next
  case (clear now st)
  show ?case by (simp add: undo_inv_def clear_undo_state_def)
next
  case (expand report er now st d)
  let ?st = "open_undo st now er"
  have i: "undo_inv (now, ?st)" by (rule undo_inv_open)
  have c: "es_case_cycle ?st = Some c \<Longrightarrow> length (current_text c) = ir_successful_chars report" for c
    using expand.hyps open_undo_cycle by (simp add: expected_output_chars_text)
  show ?case
    using i c
    by (auto simp: dispatch_expansion_def close_undo_def refresh_undo_state_def undo_inv_def split: option.split)
next
  case (cycle now st dir)
  then show ?case
    by (cases "es_case_cycle st"; cases "es_undo_state st")
      (auto simp: undo_inv_def advance_case_variant_def Let_def advance_def)
next
  case (undo now st)
  then show ?case
    by (auto simp: undo_inv_def take_active_undo_state_def clear_case_cycle_def Let_def split: option.split)
qed

lemma undo_reachable_inv: "undo_reachable s \<Longrightarrow> undo_inv s"
  by (induction rule: undo_reachable.induct) (simp add: undo_inv_def engine_state_new_def, blast intro: undo_inv_step)

text \<open>C14: As long as every expansion is typed in full (\<open>aborted_typing_misleads_case_cycle\<close> shows what an
  aborted one does), the following holds.  While a case cycle runs, the undo window knows the length of the text on the screen: the
  variant that a case key types replaces exactly what Backspace would have deleted, and the next
  undo deletes exactly the new variant.\<close>

theorem case_cycle_and_undo_agree:
  assumes "undo_reachable (now, st)" and "es_undo_state st = Some u"
    and "advance_case_variant st now dir = (st', Some rw)"
  shows "cr_delete_count rw = us_output_length u \<and>
    (\<exists>u'. es_undo_state st' = Some u' \<and> us_output_length u' = length (cr_replacement rw) \<and>
       us_trigger u' = us_trigger u \<and> us_timestamp u' = us_timestamp u)"
  using undo_reachable_inv [OF assms(1)] assms(2,3)
  by (auto simp: undo_inv_def advance_case_variant_def Let_def split: option.split_asm if_split_asm prod.split_asm)

definition hello_result :: expansion_result where
  "hello_result =
     \<lparr>er_delete_count = 2, er_steps = [TextStep ''hello''], er_trigger = ''hi'', er_undo_trigger = Some ''hi'',
      er_is_calculation = False, er_stat_kind = Snippet, er_track_usage = True, er_follow_up = None\<rparr>"

definition hello_report :: injection_report where
  "hello_report = \<lparr>ir_successful_chars = 5, ir_completed = True\<rparr>"

definition after_hello :: engine_state where
  "after_hello = fst (dispatch_expansion engine_state_new 0 hello_result hello_report 0)"

lemma after_hello_reachable: "undo_reachable (0, after_hello)"
proof -
  have "ir_successful_chars hello_report = expected_output_chars (er_steps hello_result)"
    by (simp add: hello_report_def hello_result_def expected_output_chars_def)
  from undo_step.expand [OF this, of 0 engine_state_new 0]
  have "undo_step (0, engine_state_new) (0, after_hello)" by (simp add: after_hello_def)
  then show ?thesis by (metis undo_reachable.init undo_reachable.step)
qed

lemma after_hello_state:
  "es_undo_state after_hello = Some \<lparr>us_trigger = ''hi'', us_output_length = 5, us_timestamp = 0\<rparr>"
  "es_case_cycle after_hello = Some (session_new ''hello'' 0)"
  by (simp_all add: after_hello_def dispatch_expansion_def open_undo_def close_undo_def refresh_undo_state_def
      register_case_cycle_def set_undo_state_def hello_result_def hello_report_def expected_output_chars_def
      expanded_text_def)

theorem case_cycle_and_undo_agree_witness:
  "map_option cr_delete_count (snd (advance_case_variant after_hello 0 Next)) = Some 5"
proof -
  have "is_ready (session_new ''hello'' 0) 0"
    by (simp add: is_ready_def session_new_def case_cycle_window_def millis_def)
  then have "snd (advance_case_variant after_hello 0 Next) \<noteq> None"
    by (simp add: advance_case_variant_def after_hello_state Let_def split: prod.split)
  then obtain st' rw where a: "advance_case_variant after_hello 0 Next = (st', Some rw)"
    by (metis not_None_eq prod.collapse)
  from case_cycle_and_undo_agree [OF after_hello_reachable after_hello_state(1) a] show ?thesis
    by (simp add: a)
qed

text \<open>C20: Backspace undoes an expansion at most once: whatever it finds, the window and the case cycle
  are closed afterwards, and it answers only within five seconds after the text was typed.\<close>

theorem undo_only_once:
  assumes "take_active_undo_state st now = (st', r)"
  shows "es_undo_state st' = None \<and> es_case_cycle st' = None \<and> snd (take_active_undo_state st' later) = None \<and>
    (r \<noteq> None \<longleftrightarrow> (\<exists>u. es_undo_state st = Some u \<and> now - us_timestamp u < undo_window)) \<and>
    (r \<noteq> None \<longrightarrow> r = es_undo_state st)"
  using assms
  by (cases "es_undo_state st")
    (auto simp: take_active_undo_state_def clear_case_cycle_def undo_is_active_def Let_def split: if_split_asm, metis)

theorem undo_only_once_witness:
  "es_undo_state (fst (take_active_undo_state after_hello 3)) = None"
  using undo_only_once [of after_hello 3 "fst (take_active_undo_state after_hello 3)"
      "snd (take_active_undo_state after_hello 3)" 4] by simp

text \<open>When typing stops early, because a key was pressed, only the undo window learns how much was
  typed: the case cycle still deletes the whole expansion, more characters than are on the screen.\<close>

theorem aborted_typing_misleads_case_cycle:
  assumes "er_undo_trigger er = Some t" and "t \<noteq> []" and "er_follow_up er = None"
    and "0 < ir_successful_chars report" and "ir_successful_chars report < expected_output_chars (er_steps er)"
    and "advance_case_variant (fst (dispatch_expansion st now er report later)) later dir = (st', Some rw)"
  shows "cr_delete_count rw = expected_output_chars (er_steps er) \<and> ir_successful_chars report < cr_delete_count rw"
  using assms
  by (auto simp: dispatch_expansion_def open_undo_def close_undo_def refresh_undo_state_def register_case_cycle_def
      set_undo_state_def session_new_def advance_case_variant_def expected_output_chars_text Let_def
      split: prod.split_asm if_split_asm)

theorem aborted_typing_misleads_case_cycle_witness:
  "map_option cr_delete_count (snd (advance_case_variant
     (fst (dispatch_expansion engine_state_new 0 hello_result \<lparr>ir_successful_chars = 2, ir_completed = False\<rparr> 0)) 0 Next)) = Some 5"
proof -
  let ?r = "\<lparr>ir_successful_chars = 2, ir_completed = False\<rparr>"
  let ?st = "fst (dispatch_expansion engine_state_new 0 hello_result ?r 0)"
  have "is_ready (session_new ''hello'' 0) 0"
    by (simp add: is_ready_def session_new_def case_cycle_window_def millis_def)
  moreover have "es_case_cycle ?st = Some (session_new ''hello'' 0)"
    by (simp add: dispatch_expansion_def open_undo_def close_undo_def refresh_undo_state_def
        register_case_cycle_def set_undo_state_def hello_result_def expected_output_chars_def expanded_text_def)
  ultimately have "snd (advance_case_variant ?st 0 Next) \<noteq> None"
    by (simp add: advance_case_variant_def Let_def split: prod.split)
  then obtain st' rw where a: "advance_case_variant ?st 0 Next = (st', Some rw)"
    by (metis not_None_eq prod.collapse)
  have "expected_output_chars (er_steps hello_result) = 5"
    by (simp add: hello_result_def expected_output_chars_def)
  then show ?thesis
    using aborted_typing_misleads_case_cycle [of hello_result "''hi''" ?r, OF _ _ _ _ _ a] a
    by (simp add: hello_result_def)
qed

end
