(* ===== verification/Listener.thy ===== *)
theory Listener
  imports Gate Dispatch
begin

text \<open>
  The hook callback, \<open>process_keyboard_event\<close> of \<open>daemon/src/hook/listener/mod.rs\<close>, with the key
  decisions of \<open>hook/completion.rs\<close> and \<open>hook/case_cycle.rs\<close>: one raw event of the keyboard or mouse
  in, and out comes whether the application sees it, what the shared state becomes and which work is
  handed to other threads.  The callback is a chain of stages, each of which may decide the event; what
  the operating system and the other threads answer during the event is the record \<open>listener_env\<close>.
\<close>

section \<open>Completion keys\<close>

datatype completion_key_kind = TabKey | EscapeKey | UpKey | DownKey | OtherKey

datatype completion_key_action =
  CycleForward | CycleBackward | CancelAndSwallow | CancelAndPassThrough | PassThrough

definition completion_key_action ::
  "completion_key_kind \<Rightarrow> bool \<Rightarrow> bool \<Rightarrow> bool \<Rightarrow> bool \<Rightarrow> completion_key_action" where
  "completion_key_action k shift ctrl alt meta =
     (case k of
        TabKey \<Rightarrow>
          (if ctrl \<or> alt \<or> meta then CancelAndPassThrough
           else if shift then CycleBackward else CycleForward)
      | EscapeKey \<Rightarrow> CancelAndSwallow
      | _ \<Rightarrow> PassThrough)"

definition trigger_assist_key_action ::
  "engine_state \<Rightarrow> completion_key_kind \<Rightarrow> bool \<Rightarrow> bool \<Rightarrow> bool \<Rightarrow> bool \<Rightarrow> completion_key_action" where
  "trigger_assist_key_action st k shift ctrl alt meta =
     (let action = completion_key_action k shift ctrl alt meta in
      if action \<in> {CycleForward, CycleBackward} \<and> \<not> es_inline_tab_completion_enabled st
      then PassThrough else action)"

definition completion_key_kind_from_tab_like :: "bool \<Rightarrow> bool \<Rightarrow> bool \<Rightarrow> bool \<Rightarrow> completion_key_kind" where
  "completion_key_kind_from_tab_like is_tab is_escape up down =
     (if is_tab then TabKey else if is_escape then EscapeKey
      else if up then UpKey else if down then DownKey else OtherKey)"

definition should_swallow_trigger_assist_key_release :: "engine_state \<Rightarrow> completion_key_kind \<Rightarrow> bool" where
  "should_swallow_trigger_assist_key_release st k =
     (case k of TabKey \<Rightarrow> es_inline_tab_completion_enabled st | _ \<Rightarrow> False)"

definition case_cycle_key_action ::
  "rdev_key \<Rightarrow> bool \<Rightarrow> bool \<Rightarrow> bool \<Rightarrow> bool \<Rightarrow> bool \<Rightarrow> cycle_direction option" where
  "case_cycle_key_action k shift ctrl alt meta enabled =
     (if \<not> enabled then None
      else if shift \<or> ctrl \<or> alt \<or> meta then None
      else if k = ''LeftArrow'' then Some Prev
      else if k = ''RightArrow'' then Some Next
      else None)"

section \<open>Kinds of keys\<close>

definition modifier_keys :: "rdev_key list" where
  "modifier_keys =
     [''ShiftLeft'', ''ShiftRight'', ''ControlLeft'', ''ControlRight'', ''Alt'', ''AltGr'', ''MetaLeft'', ''MetaRight'']"

definition rdev_modifier_key :: "rdev_key \<Rightarrow> bool" where
  "rdev_modifier_key k \<longleftrightarrow> k \<in> set modifier_keys"

definition is_solo_modifier_press :: "rdev_key \<Rightarrow> bool \<Rightarrow> bool \<Rightarrow> bool \<Rightarrow> bool \<Rightarrow> bool" where
  "is_solo_modifier_press k shift ctrl alt meta =
     (if k = ''ShiftLeft'' \<or> k = ''ShiftRight'' then \<not> ctrl \<and> \<not> alt \<and> \<not> meta
      else if k = ''ControlLeft'' \<or> k = ''ControlRight'' then \<not> shift \<and> \<not> alt \<and> \<not> meta
      else if k = ''Alt'' \<or> k = ''AltGr'' then \<not> shift \<and> \<not> ctrl \<and> \<not> meta
      else if k = ''MetaLeft'' \<or> k = ''MetaRight'' then \<not> shift \<and> \<not> ctrl \<and> \<not> alt
      else rdev_modifier_key k \<and> \<not> shift \<and> \<not> ctrl \<and> \<not> alt \<and> \<not> meta)"

definition is_paste_key_press :: "bool \<Rightarrow> rdev_key \<Rightarrow> bool \<Rightarrow> bool \<Rightarrow> bool \<Rightarrow> bool \<Rightarrow> bool" where
  "is_paste_key_press mac k shift ctrl alt meta =
     (if mac then meta \<and> \<not> ctrl \<and> \<not> alt \<and> k = ''KeyV''
      else ctrl \<and> \<not> meta \<and> \<not> alt \<and> k = ''KeyV'' \<or>
           shift \<and> \<not> ctrl \<and> \<not> alt \<and> \<not> meta \<and> k = ''Insert'')"

section \<open>State\<close>

record modifier_sides =
  md_left_ctrl :: bool
  md_right_ctrl :: bool
  md_left_shift :: bool
  md_right_shift :: bool
  md_left_alt :: bool
  md_right_alt :: bool
  md_left_meta :: bool
  md_right_meta :: bool

definition no_sides :: modifier_sides where
  "no_sides = \<lparr>md_left_ctrl = False, md_right_ctrl = False, md_left_shift = False, md_right_shift = False,
     md_left_alt = False, md_right_alt = False, md_left_meta = False, md_right_meta = False\<rparr>"

definition set_side :: "rdev_key \<Rightarrow> bool \<Rightarrow> modifier_sides \<Rightarrow> modifier_sides" where
  "set_side k down m =
     (if k = ''Alt'' then m\<lparr>md_left_alt := down\<rparr>
      else if k = ''AltGr'' then m\<lparr>md_right_alt := down\<rparr>
      else if k = ''ControlLeft'' then m\<lparr>md_left_ctrl := down\<rparr>
      else if k = ''ControlRight'' then m\<lparr>md_right_ctrl := down\<rparr>
      else if k = ''ShiftLeft'' then m\<lparr>md_left_shift := down\<rparr>
      else if k = ''ShiftRight'' then m\<lparr>md_right_shift := down\<rparr>
      else if k = ''MetaLeft'' then m\<lparr>md_left_meta := down\<rparr>
      else if k = ''MetaRight'' then m\<lparr>md_right_meta := down\<rparr>
      else m)"

definition track_sides :: "rdev_event_type \<Rightarrow> modifier_sides \<Rightarrow> modifier_sides" where
  "track_sides ev m =
     (case ev of
        KeyPressEvent k \<Rightarrow> set_side k True m
      | KeyReleaseEvent k \<Rightarrow> set_side k False m
      | _ \<Rightarrow> m)"

definition active_modifiers :: "modifier_sides \<Rightarrow> modifiers" where
  "active_modifiers m =
     modifiers_from_sides (md_left_ctrl m) (md_right_ctrl m) (md_left_shift m) (md_right_shift m)
       (md_left_alt m) (md_right_alt m) (md_left_meta m) (md_right_meta m)"

definition ctrl_active :: "modifier_sides \<Rightarrow> bool" where
  "ctrl_active m \<longleftrightarrow> md_left_ctrl m \<or> md_right_ctrl m"

definition shift_active :: "modifier_sides \<Rightarrow> bool" where
  "shift_active m \<longleftrightarrow> md_left_shift m \<or> md_right_shift m"

definition alt_active :: "modifier_sides \<Rightarrow> bool" where
  "alt_active m \<longleftrightarrow> md_left_alt m \<or> md_right_alt m"

definition meta_active :: "modifier_sides \<Rightarrow> bool" where
  "meta_active m \<longleftrightarrow> md_left_meta m \<or> md_right_meta m"

text \<open>The engine state is the one the evaluator holds.\<close>

record listener_state =
  ls_evaluator :: evaluator
  ls_hotkeys :: hotkey_evaluator
  ls_sides :: modifier_sides
  ls_simulated :: "rdev_event_type simulated_event list"
  ls_pause_key_down :: bool
  ls_ptt_key_down :: bool
  ls_handsfree_key_down :: bool

text \<open>
  What the callback reads elsewhere.  \<open>le_lock op\<close> is whether the evaluator's mutex was free when
  \<open>with_evaluator_lock\<close> asked for it under the name \<open>op\<close>; an operation that does not get it is skipped.
\<close>

record ('f, 'd) listener_env =
  le_eval :: "('f, 'd) eval_env"
  le_windows :: bool
  le_mac :: bool
  le_now :: instant
  le_lock :: "string \<Rightarrow> bool"
  le_window :: "active_window_info option"
  le_clipboard :: "string option"
  le_physical_sides :: modifier_sides
  le_normalize :: "string \<Rightarrow> string"
  le_injecting :: bool
  le_paused :: bool
  le_pause_audio :: bool
  le_pause_hotkey :: hotkey
  le_voice_specs :: voice_specs
  le_voice_session :: bool
  le_voice_active :: bool

datatype listener_action =
    AbortInjection
  | PlayPauseCue bool
  | FlipPausePreview
  | QueuePausePress
  | StopPtt
  | StartPtt
  | ToggleHandsfree
  | VoiceEscape
  | DispatchExpansion expansion_result
  | DispatchRewrite completion_rewrite
  | DispatchUndo string nat
  | InjectPlaceholder string

datatype verdict = PassOn | Swallowed

type_synonym stage_result = "listener_state \<times> listener_action list \<times> verdict option"
type_synonym stage = "listener_state \<Rightarrow> stage_result"

text \<open>A stage that decides the event ends the chain.\<close>

definition and_stage :: "stage \<Rightarrow> stage \<Rightarrow> stage" where
  "and_stage f g ls =
     (case f ls of
        (ls1, acts, Some v) \<Rightarrow> (ls1, acts, Some v)
      | (ls1, acts, None) \<Rightarrow> (case g ls1 of (ls2, acts2, v) \<Rightarrow> (ls2, acts @ acts2, v)))"

definition continue :: stage where
  "continue ls = (ls, [], None)"

definition decide :: "verdict \<Rightarrow> stage" where
  "decide v ls = (ls, [], Some v)"

definition upd_state :: "(engine_state \<Rightarrow> engine_state) \<Rightarrow> listener_state \<Rightarrow> listener_state" where
  "upd_state f ls = ls\<lparr>ls_evaluator := (ls_evaluator ls)\<lparr>ev_state := f (ev_state (ls_evaluator ls))\<rparr>\<rparr>"

abbreviation ls_engine :: "listener_state \<Rightarrow> engine_state" where
  "ls_engine ls \<equiv> ev_state (ls_evaluator ls)"

text \<open>\<open>with_evaluator_lock\<close>: the operation, or \<open>None\<close> and no change.\<close>

definition with_evaluator_lock ::
  "('f, 'd) listener_env \<Rightarrow> string \<Rightarrow> (evaluator \<Rightarrow> evaluator \<times> 'a) \<Rightarrow> listener_state \<Rightarrow> listener_state \<times> 'a option" where
  "with_evaluator_lock env op action ls =
     (if le_lock env op
      then (let (ev, x) = action (ls_evaluator ls) in (ls\<lparr>ls_evaluator := ev\<rparr>, Some x))
      else (ls, None))"

definition trigger_assist_is_active :: "('f, 'd) listener_env \<Rightarrow> listener_state \<Rightarrow> bool" where
  "trigger_assist_is_active env ls \<longleftrightarrow>
     es_completion_active (ls_engine ls) \<and> le_lock env ''completion_is_active'' \<and>
     is_completion_active (ee_assist (le_eval env)) (ls_evaluator ls)"

section \<open>Stages before the pipeline\<close>

text \<open>The releases that end a held chord are noticed before anything else can return.\<close>

definition release_pause_key :: "('f, 'd) listener_env \<Rightarrow> rdev_key \<Rightarrow> stage" where
  "release_pause_key env k ls =
     (if logical_key_from_rdev k = Some (key (le_pause_hotkey env))
      then (ls\<lparr>ls_pause_key_down := False\<rparr>, [], None) else (ls, [], None))"

definition release_ptt :: "('f, 'd) listener_env \<Rightarrow> rdev_event \<Rightarrow> rdev_key \<Rightarrow> stage" where
  "release_ptt env ev k ls =
     (case vs_ptt (le_voice_specs env) of
        None \<Rightarrow> continue ls
      | Some spec \<Rightarrow>
          if \<not> matches_release spec ev then continue ls
          else if ls_ptt_key_down ls \<and> le_voice_session env
          then (ls\<lparr>ls_ptt_key_down := False\<rparr>, [StopPtt],
                Some (if rdev_modifier_key k then PassOn else Swallowed))
          else (ls\<lparr>ls_ptt_key_down := False\<rparr>, [], None))"

definition release_handsfree :: "('f, 'd) listener_env \<Rightarrow> rdev_event \<Rightarrow> stage" where
  "release_handsfree env ev ls =
     (case vs_handsfree (le_voice_specs env) of
        None \<Rightarrow> continue ls
      | Some spec \<Rightarrow>
          if matches_release spec ev then (ls\<lparr>ls_handsfree_key_down := False\<rparr>, [], None) else continue ls)"

definition release_edges :: "('f, 'd) listener_env \<Rightarrow> rdev_event \<Rightarrow> stage" where
  "release_edges env ev =
     (case re_event_type ev of
        KeyReleaseEvent k \<Rightarrow>
          and_stage (release_pause_key env k) (and_stage (release_ptt env ev k) (release_handsfree env ev))
      | _ \<Rightarrow> continue)"

definition hotkey_release :: "logical_key option \<Rightarrow> stage" where
  "hotkey_release logical ls =
     (case logical of
        None \<Rightarrow> continue ls
      | Some k \<Rightarrow>
          (case on_key_release (ls_hotkeys ls) k of
             (he, HotkeySwallow) \<Rightarrow> (ls\<lparr>ls_hotkeys := he\<rparr>, [], Some Swallowed)
           | (he, _) \<Rightarrow> (ls\<lparr>ls_hotkeys := he\<rparr>, [], None)))"

definition injecting_stage :: "('f, 'd) listener_env \<Rightarrow> rdev_event \<Rightarrow> stage" where
  "injecting_stage env ev =
     (if \<not> le_injecting env then continue
      else case re_event_type ev of
        KeyReleaseEvent k \<Rightarrow> and_stage (hotkey_release (logical_key_from_rdev k)) (decide PassOn)
      | ButtonReleaseEvent b \<Rightarrow> and_stage (hotkey_release (logical_key_from_rdev_button b)) (decide PassOn)
      | KeyPressEvent k \<Rightarrow> (\<lambda>ls. (ls, [AbortInjection], None))
      | ButtonPressEvent b \<Rightarrow> (\<lambda>ls. (ls, [AbortInjection], None))
      | OtherEvent n \<Rightarrow> decide PassOn)"

definition pause_stage :: "('f, 'd) listener_env \<Rightarrow> rdev_event \<Rightarrow> modifiers \<Rightarrow> stage" where
  "pause_stage env ev mods ls =
     (if is_pause_chord ev mods (le_pause_hotkey env) then
        (if ls_pause_key_down ls then (ls, [], Some Swallowed)
         else
           (upd_state clear_undo_state (ls\<lparr>ls_pause_key_down := True\<rparr>),
            (if le_pause_audio env then [PlayPauseCue (\<not> le_paused env)] else []) @
              [FlipPausePreview, QueuePausePress],
            Some Swallowed))
      else if le_paused env then (ls, [], Some PassOn)
      else continue ls)"

section \<open>A mouse button\<close>

definition hotkey_press ::
  "('f, 'd) listener_env \<Rightarrow> modifiers \<Rightarrow> logical_key option \<Rightarrow> stage" where
  "hotkey_press env mods logical ls =
     (case logical of
        None \<Rightarrow> continue ls
      | Some k \<Rightarrow>
          (case on_key_event (ee_catalog (le_eval env)) (ls_engine ls) (le_window env) (ls_hotkeys ls) True mods k of
             (he, HotkeyMatched er) \<Rightarrow> (ls\<lparr>ls_hotkeys := he\<rparr>, [DispatchExpansion er], Some Swallowed)
           | (he, HotkeySwallow) \<Rightarrow> (ls\<lparr>ls_hotkeys := he\<rparr>, [], Some Swallowed)
           | (he, HotkeyNoMatch) \<Rightarrow> (ls\<lparr>ls_hotkeys := he\<rparr>, [], None)))"

definition button_interrupt :: "('f, 'd) listener_env \<Rightarrow> stage" where
  "button_interrupt env ls =
     (let ls1 = (upd_state clear_undo_state ls)\<lparr>ls_hotkeys := hotkey_clear (ls_hotkeys ls)\<rparr>;
          (ls2, _) = with_evaluator_lock env ''button_interrupt''
                       (\<lambda>ev. process_event_info (le_eval env) ev InterruptEvent None) ls1
      in (ls2, [], None))"

definition button_press :: "('f, 'd) listener_env \<Rightarrow> modifiers \<Rightarrow> rdev_button \<Rightarrow> stage" where
  "button_press env mods b ls =
     and_stage (hotkey_press env mods (logical_key_from_rdev_button b)) (button_interrupt env)
       (ls\<lparr>ls_sides := if le_windows env then le_physical_sides env else no_sides\<rparr>)"

section \<open>A key press\<close>

definition voice_hotkey_stage ::
  "('f, 'd) listener_env \<Rightarrow> rdev_event \<Rightarrow> rdev_key \<Rightarrow> modifiers \<Rightarrow> voice_hotkey_spec option \<Rightarrow>
   (listener_state \<Rightarrow> bool) \<Rightarrow> (listener_state \<Rightarrow> listener_state) \<Rightarrow> listener_action \<Rightarrow> stage" where
  "voice_hotkey_stage env ev k mods spec_opt was_down press act ls =
     (case spec_opt of
        None \<Rightarrow> continue ls
      | Some spec \<Rightarrow>
          if matches_press spec ev mods
          then (press ls, if was_down ls then [] else [act],
                Some (if rdev_modifier_key k then PassOn else Swallowed))
          else continue ls)"

definition voice_stage :: "('f, 'd) listener_env \<Rightarrow> rdev_event \<Rightarrow> rdev_key \<Rightarrow> modifiers \<Rightarrow> stage" where
  "voice_stage env ev k mods ls =
     (if \<not> le_voice_session env then continue ls
      else if k = ''Escape'' \<and> le_voice_active env
      then (ls, [VoiceEscape], Some (if fullscreen_suppressed (ls_engine ls) then PassOn else Swallowed))
      else if fullscreen_suppressed (ls_engine ls) then continue ls
      else
        and_stage
          (voice_hotkey_stage env ev k mods (vs_ptt (le_voice_specs env)) ls_ptt_key_down
             (\<lambda>ls. ls\<lparr>ls_ptt_key_down := True\<rparr>) StartPtt)
          (voice_hotkey_stage env ev k mods (vs_handsfree (le_voice_specs env)) ls_handsfree_key_down
             (\<lambda>ls. ls\<lparr>ls_handsfree_key_down := True\<rparr>) ToggleHandsfree) ls)"

definition rewrite_actions :: "completion_rewrite option option \<Rightarrow> listener_action list" where
  "rewrite_actions r = (case r of Some (Some rw) \<Rightarrow> [DispatchRewrite rw] | _ \<Rightarrow> [])"

definition assist_backspace :: "('f, 'd) listener_env \<Rightarrow> rdev_key \<Rightarrow> modifier_sides \<Rightarrow> stage" where
  "assist_backspace env k m ls =
     (if k = ''Backspace'' \<and> \<not> alt_active m \<and> \<not> meta_active m then
        (let (ls1, r) = with_evaluator_lock env ''rewrite_backspace_query''
               (\<lambda>ev. rewrite_selected_query (ee_assist (le_eval env)) ev (ctrl_active m)) ls
         in if rewrite_actions r = [] then (ls1, [], None) else (ls1, rewrite_actions r, Some Swallowed))
      else continue ls)"

definition cancel_op :: "evaluator \<Rightarrow> evaluator \<times> unit" where
  "cancel_op ev = (cancel_completion ev, ())"

definition assist_keys :: "('f, 'd) listener_env \<Rightarrow> rdev_key \<Rightarrow> modifier_sides \<Rightarrow> stage" where
  "assist_keys env k m ls =
     (let ae = ee_assist (le_eval env) in
      case trigger_assist_key_action (ls_engine ls)
             (completion_key_kind_from_tab_like (k = ''Tab'') (k = ''Escape'') (k = ''UpArrow'') (k = ''DownArrow''))
             (shift_active m) (ctrl_active m) (alt_active m) (meta_active m) of
        CycleForward \<Rightarrow>
          (let (ls1, r) = with_evaluator_lock env ''cycle_completion_next'' (\<lambda>ev. cycle_completion ae ev True) ls
           in (ls1, rewrite_actions r, Some Swallowed))
      | CycleBackward \<Rightarrow>
          (let (ls1, r) = with_evaluator_lock env ''cycle_completion_prev'' (\<lambda>ev. cycle_completion ae ev False) ls
           in (ls1, rewrite_actions r, Some Swallowed))
      | CancelAndSwallow \<Rightarrow>
          (fst (with_evaluator_lock env ''cancel_completion_swallow'' cancel_op ls), [], Some Swallowed)
      | CancelAndPassThrough \<Rightarrow>
          (fst (with_evaluator_lock env ''cancel_completion_pass_through'' cancel_op ls), [], None)
      | PassThrough \<Rightarrow> continue ls)"

definition assist_start :: "('f, 'd) listener_env \<Rightarrow> rdev_key \<Rightarrow> modifier_sides \<Rightarrow> stage" where
  "assist_start env k m ls =
     (if k = ''Tab'' \<and> \<not> shift_active m \<and> \<not> ctrl_active m \<and> \<not> alt_active m \<and> \<not> meta_active m then
        (let (ls1, r) = with_evaluator_lock env ''activate_triggerless_completion''
               (activate_triggerless_completion (ee_assist (le_eval env))) ls
         in if rewrite_actions r = [] then (ls1, [], None)
            else (upd_state clear_undo_state ls1, rewrite_actions r, Some Swallowed))
      else continue ls)"

definition assist_stage :: "('f, 'd) listener_env \<Rightarrow> rdev_key \<Rightarrow> modifier_sides \<Rightarrow> stage" where
  "assist_stage env k m ls =
     (if trigger_assist_is_active env ls
      then and_stage (assist_backspace env k m) (assist_keys env k m) (upd_state clear_undo_state ls)
      else assist_start env k m ls)"

definition case_cycle_stage :: "('f, 'd) listener_env \<Rightarrow> rdev_key \<Rightarrow> modifier_sides \<Rightarrow> stage" where
  "case_cycle_stage env k m ls =
     (case case_cycle_key_action k (shift_active m) (ctrl_active m) (alt_active m) (meta_active m)
             (es_inline_case_transform_enabled (ls_engine ls)) of
        None \<Rightarrow> continue ls
      | Some direction \<Rightarrow>
          (case advance_case_variant (ls_engine ls) (le_now env) direction of
             (st, None) \<Rightarrow> (upd_state (\<lambda>_. st) ls, [], None)
           | (st, Some rewrite) \<Rightarrow> (upd_state (\<lambda>_. st) ls, [DispatchRewrite rewrite], Some Swallowed)))"

definition undo_stage :: "('f, 'd) listener_env \<Rightarrow> rdev_key \<Rightarrow> modifier_sides \<Rightarrow> stage" where
  "undo_stage env k m ls =
     (if k = ''Backspace'' then
        (if ctrl_active m \<or> alt_active m \<or> meta_active m
         then (upd_state clear_undo_state ls, [], Some PassOn)
         else case take_active_undo_state (ls_engine ls) (le_now env) of
             (st, Some u) \<Rightarrow>
               (upd_state (\<lambda>_. st) ls, [DispatchUndo (us_trigger u) (us_output_length u)], Some Swallowed)
           | (st, None) \<Rightarrow> (upd_state (\<lambda>_. st) ls, [], None))
      else if is_solo_modifier_press k (shift_active m) (ctrl_active m) (alt_active m) (meta_active m)
      then continue ls
      else (upd_state clear_undo_state ls, [], None))"

definition record_clipboard :: "string \<Rightarrow> string \<Rightarrow> evaluator \<Rightarrow> evaluator \<times> unit" where
  "record_clipboard clip_text placeholder ev =
     (append_to_buffer (set_captured_ai_clipboard ev clip_text) placeholder, ())"

definition paste_stage :: "('f, 'd) listener_env \<Rightarrow> rdev_key \<Rightarrow> modifier_sides \<Rightarrow> stage" where
  "paste_stage env k m ls =
     (if is_paste_key_press (le_mac env) k (shift_active m) (ctrl_active m) (alt_active m) (meta_active m) \<and>
         es_inline_ai_enabled (ls_engine ls) \<and>
         le_lock env ''check_inline_ai_prefix'' \<and> has_inline_ai_prefix (le_eval env) (ls_evaluator ls)
      then
        (let clip_text = or_default (le_clipboard env);
             placeholder = format_clipboard_placeholder clip_text;
             (ls1, _) = with_evaluator_lock env ''record_ai_clipboard'' (record_clipboard clip_text placeholder) ls
         in (ls1, [InjectPlaceholder placeholder], Some Swallowed))
      else continue ls)"

definition navigation_keys :: "rdev_key list" where
  "navigation_keys =
     [''UpArrow'', ''DownArrow'', ''LeftArrow'', ''RightArrow'', ''Home'', ''End'', ''PageUp'', ''PageDown'']"

text \<open>The event for the evaluator; \<open>Inl\<close> is the early return of a shortcut.\<close>

definition engine_event_for ::
  "('f, 'd) listener_env \<Rightarrow> rdev_event \<Rightarrow> rdev_key \<Rightarrow> modifier_sides \<Rightarrow> unit + engine_event option" where
  "engine_event_for env ev k m =
     (if k = ''Escape'' then Inr (Some InterruptEvent)
      else if k = ''Backspace'' then Inr (Some (if ctrl_active m then WordBackspaceEvent else BackspaceEvent))
      else if k = ''Space'' then Inr (Some (CharEvent (CHR '' '')))
      else if k = ''Return'' then Inr (Some ActionKeyEvent)
      else if k = ''Tab'' then Inr (Some InterruptEvent)
      else if k \<in> set navigation_keys then Inr (Some InterruptEvent)
      else if alt_active m \<or> ctrl_active m \<or> meta_active m then Inl ()
      else case re_name ev of
          None \<Rightarrow> Inr None
        | Some t \<Rightarrow> (case le_normalize env t of [c] \<Rightarrow> Inr (Some (CharEvent c)) | _ \<Rightarrow> Inr None))"

definition engine_stage :: "('f, 'd) listener_env \<Rightarrow> rdev_event \<Rightarrow> rdev_key \<Rightarrow> modifier_sides \<Rightarrow> stage" where
  "engine_stage env ev k m ls =
     (case engine_event_for env ev k m of
        Inl _ \<Rightarrow> (ls, [], Some PassOn)
      | Inr None \<Rightarrow> continue ls
      | Inr (Some event) \<Rightarrow>
          (case with_evaluator_lock env ''process_engine_event''
                  (\<lambda>e. process_event_lazy (le_eval env) e event (le_window env)) ls of
             (ls1, Some (Some expansion)) \<Rightarrow>
               (ls1, [DispatchExpansion expansion], if event = ActionKeyEvent then Some Swallowed else None)
           | (ls1, _) \<Rightarrow> (ls1, [], None)))"

text \<open>The sides that the later stages see are those read before the voice stage.\<close>

definition key_press_stage :: "('f, 'd) listener_env \<Rightarrow> rdev_event \<Rightarrow> modifiers \<Rightarrow> rdev_key \<Rightarrow> stage" where
  "key_press_stage env ev mods k ls =
     (let m = ls_sides ls in
      and_stage (voice_stage env ev k mods)
        (and_stage (assist_stage env k m)
          (and_stage (hotkey_press env mods (logical_key_from_rdev k))
            (and_stage (case_cycle_stage env k m)
              (and_stage (undo_stage env k m)
                (and_stage (paste_stage env k m) (engine_stage env ev k m)))))) ls)"

section \<open>A release\<close>

definition assist_release :: "('f, 'd) listener_env \<Rightarrow> rdev_key \<Rightarrow> stage" where
  "assist_release env k ls =
     (if trigger_assist_is_active env ls \<and>
         should_swallow_trigger_assist_key_release (ls_engine ls)
           (completion_key_kind_from_tab_like (k = ''Tab'') False (k = ''UpArrow'') (k = ''DownArrow''))
      then (ls, [], Some Swallowed) else continue ls)"

definition pipeline_stage :: "('f, 'd) listener_env \<Rightarrow> rdev_event \<Rightarrow> modifiers \<Rightarrow> stage" where
  "pipeline_stage env ev mods =
     (case re_event_type ev of
        ButtonPressEvent b \<Rightarrow> button_press env mods b
      | KeyPressEvent k \<Rightarrow> key_press_stage env ev mods k
      | KeyReleaseEvent k \<Rightarrow> and_stage (assist_release env k) (hotkey_release (logical_key_from_rdev k))
      | ButtonReleaseEvent b \<Rightarrow> hotkey_release (logical_key_from_rdev_button b)
      | OtherEvent n \<Rightarrow> continue)"

section \<open>The callback\<close>

definition callback_chain :: "('f, 'd) listener_env \<Rightarrow> rdev_event \<Rightarrow> modifiers \<Rightarrow> stage" where
  "callback_chain env ev mods =
     and_stage (release_edges env ev)
       (and_stage (injecting_stage env ev)
         (and_stage (pause_stage env ev mods) (pipeline_stage env ev mods)))"

definition process_keyboard_event ::
  "('f, 'd) listener_env \<Rightarrow> rdev_event \<Rightarrow> listener_state \<Rightarrow> listener_state \<times> listener_action list \<times> verdict" where
  "process_keyboard_event env ev ls =
     (if le_windows env \<and> re_event_type ev \<in> {KeyPressEvent ''Unknown(255)'', KeyReleaseEvent ''Unknown(255)''}
      then (ls, [], PassOn)
      else
        (let (queue, own) = consume_simulated_event (le_now env) (ls_simulated ls) (re_event_type ev);
             ls1 = ls\<lparr>ls_simulated := queue\<rparr>
         in if own then (ls1, [], PassOn)
            else
              (let ls2 = ls1\<lparr>ls_sides := track_sides (re_event_type ev) (ls_sides ls1)\<rparr>;
                   mods = active_modifiers (ls_sides ls2);
                   (ls3, acts, v) = callback_chain env ev mods ls2
               in (ls3, acts, case v of None \<Rightarrow> PassOn | Some v \<Rightarrow> v))))"

section \<open>Modifiers always reach the application\<close>

definition passing :: "stage \<Rightarrow> listener_state \<Rightarrow> bool" where
  "passing f ls \<longleftrightarrow> snd (snd (f ls)) \<noteq> Some Swallowed"

lemma passing_and: "passing f ls \<Longrightarrow> (\<And>ls'. passing g ls') \<Longrightarrow> passing (and_stage f g) ls"
  unfolding passing_def and_stage_def by (auto split: prod.split option.split) (metis snd_conv)

lemma passing_continue [simp]: "passing continue ls"
  by (simp add: passing_def continue_def)

lemma passing_decide [simp]: "passing (decide PassOn) ls"
  by (simp add: passing_def decide_def)

text \<open>The keys of the table that are modifiers.\<close>

lemma modifier_key_logical:
  "rdev_modifier_key k \<Longrightarrow> \<exists>m. logical_key_from_rdev k = Some (ModifierKey m)"
proof -
  have "list_all (\<lambda>k. case logical_key_from_rdev k of Some (ModifierKey m) \<Rightarrow> True | _ \<Rightarrow> False) modifier_keys"
    by code_simp
  then show "rdev_modifier_key k \<Longrightarrow> ?thesis"
    unfolding rdev_modifier_key_def list_all_iff by (fastforce split: option.splits logical_key.splits)
qed

lemma modifier_key_names:
  assumes "rdev_modifier_key k"
  shows "k \<notin> {''Escape'', ''Backspace'', ''Tab'', ''Space'', ''Return'', ''UpArrow'', ''DownArrow'', ''LeftArrow'',
    ''RightArrow'', ''Home'', ''End'', ''PageUp'', ''PageDown'', ''KeyV'', ''Insert''}"
  using assms by (auto simp: rdev_modifier_key_def modifier_keys_def)

lemma passing_hotkey_release:
  "logical = Some (ModifierKey m) \<Longrightarrow> passing (hotkey_release logical) ls"
  by (simp add: passing_def hotkey_release_def on_key_release_def)

lemma passing_hotkey_press:
  "logical = Some (ModifierKey m) \<Longrightarrow> passing (hotkey_press env mods logical) ls"
  by (simp add: passing_def hotkey_press_def on_key_event_def on_key_press_def)

lemma passing_pause:
  assumes "key (le_pause_hotkey env) \<noteq> ModifierKey m"
    and "re_event_type ev \<in> {KeyPressEvent k, KeyReleaseEvent k}"
    and "logical_key_from_rdev k = Some (ModifierKey m)"
  shows "passing (pause_stage env ev mods) ls"
  using assms by (auto simp: passing_def pause_stage_def is_pause_chord_def hotkey_matches_def continue_def)

lemma passing_voice:
  assumes "rdev_modifier_key k"
  shows "passing (voice_stage env ev k mods) ls"
  using assms modifier_key_names [OF assms]
  by (auto simp: passing_def voice_stage_def voice_hotkey_stage_def and_stage_def continue_def
      split: option.split prod.split)

lemma passing_assist_stage:
  assumes "rdev_modifier_key k"
  shows "passing (assist_stage env k m) ls"
proof -
  have n: "k \<noteq> ''Tab''" "k \<noteq> ''Escape''" "k \<noteq> ''UpArrow''" "k \<noteq> ''DownArrow''" "k \<noteq> ''Backspace''"
    using modifier_key_names [OF assms] by auto
  show ?thesis
    by (simp add: passing_def assist_stage_def and_stage_def assist_backspace_def assist_keys_def assist_start_def
        n completion_key_kind_from_tab_like_def trigger_assist_key_action_def completion_key_action_def continue_def)
qed

lemma passing_late_stages:
  assumes "rdev_modifier_key k"
  shows "passing (case_cycle_stage env k m) ls" and "passing (undo_stage env k m) ls"
    and "passing (paste_stage env k m) ls" and "passing (engine_stage env ev k m) ls"
proof -
  have n: "k \<noteq> ''Tab''" "k \<noteq> ''Escape''" "k \<noteq> ''Backspace''" "k \<noteq> ''LeftArrow''" "k \<noteq> ''RightArrow''"
    "k \<noteq> ''KeyV''" "k \<noteq> ''Insert''" "k \<noteq> ''Return''" "k \<noteq> ''Space''" "k \<notin> set navigation_keys"
    using modifier_key_names [OF assms] by (auto simp: navigation_keys_def)
  show "passing (case_cycle_stage env k m) ls"
    by (simp add: passing_def case_cycle_stage_def case_cycle_key_action_def n continue_def)
  show "passing (undo_stage env k m) ls"
    by (simp add: passing_def undo_stage_def n continue_def)
  show "passing (paste_stage env k m) ls"
    by (simp add: passing_def paste_stage_def is_paste_key_press_def n continue_def)
  have "engine_event_for env ev k m \<noteq> Inr (Some ActionKeyEvent)"
    by (auto simp: engine_event_for_def n split: option.split list.split)
  then show "passing (engine_stage env ev k m) ls"
    by (auto simp: passing_def engine_stage_def continue_def split: sum.split option.split prod.split)
qed

lemma callback_passing:
  assumes "\<And>mods ls'. passing (callback_chain env ev mods) ls'"
  shows "snd (snd (process_keyboard_event env ev ls)) = PassOn"
proof -
  obtain queue own where c: "consume_simulated_event (le_now env) (ls_simulated ls) (re_event_type ev) = (queue, own)"
    by fastforce
  let ?ls2 = "ls\<lparr>ls_simulated := queue, ls_sides := track_sides (re_event_type ev) (ls_sides ls)\<rparr>"
  obtain ls3 acts v where r: "callback_chain env ev (active_modifiers (ls_sides ?ls2)) ?ls2 = (ls3, acts, v)"
    by (metis prod_cases3)
  have "v \<noteq> Some Swallowed" using assms [of "active_modifiers (ls_sides ?ls2)" ?ls2] unfolding passing_def r by simp
  then have "(case v of None \<Rightarrow> PassOn | Some v \<Rightarrow> v) = PassOn"
    by (cases v) (auto intro: verdict.exhaust)
  then show ?thesis using c r by (simp add: process_keyboard_event_def Let_def)
qed

text \<open>No modifier key is ever kept from the application, pressed or released, whatever the state and
  the settings: no application can be left with a modifier stuck.  It needs the pause hotkey not to
  be a bare modifier, which no hotkey that parses is.\<close>

theorem modifier_keys_pass:
  assumes "rdev_modifier_key k" and "is_modifier_key (key (le_pause_hotkey env)) = None"
    and "re_event_type ev \<in> {KeyPressEvent k, KeyReleaseEvent k}"
  shows "snd (snd (process_keyboard_event env ev ls)) = PassOn"
proof -
  obtain m where m: "logical_key_from_rdev k = Some (ModifierKey m)"
    using modifier_key_logical [OF assms(1)] by blast
  have pk: "key (le_pause_hotkey env) \<noteq> ModifierKey m" using assms(2) by auto
  have rel: "passing (release_edges env ev) ls'" for ls'
  proof -
    have "passing (release_pause_key env k) s" "passing (release_ptt env ev k) s"
        "passing (release_handsfree env ev) s" for s
      using assms(1) by (simp_all add: release_pause_key_def release_ptt_def release_handsfree_def passing_def
          continue_def split: option.split)
    then show ?thesis using assms(3) by (auto simp: release_edges_def intro!: passing_and)
  qed
  have inj: "passing (injecting_stage env ev) ls'" for ls'
    using assms(3) passing_and [OF passing_hotkey_release [OF m]]
    by (auto simp: injecting_stage_def) (auto simp: passing_def)
  have pause: "passing (pause_stage env ev mods) ls'" for mods ls'
    using passing_pause [OF pk assms(3) m] .
  have pipe: "passing (pipeline_stage env ev mods) ls'" for mods ls'
  proof (cases "re_event_type ev = KeyPressEvent k")
    case True
    let ?m = "ls_sides ls'"
    have "passing (and_stage (voice_stage env ev k mods)
        (and_stage (assist_stage env k ?m)
          (and_stage (hotkey_press env mods (logical_key_from_rdev k))
            (and_stage (case_cycle_stage env k ?m)
              (and_stage (undo_stage env k ?m)
                (and_stage (paste_stage env k ?m) (engine_stage env ev k ?m))))))) ls'"
      by (intro passing_and passing_voice passing_assist_stage passing_hotkey_press [OF m] passing_late_stages assms(1))
    then have "passing (key_press_stage env ev mods k) ls'"
      unfolding passing_def key_press_stage_def Let_def .
    then show ?thesis using True by (simp add: pipeline_stage_def)
  next
    case False
    have n: "k \<noteq> ''Tab''" using modifier_key_names [OF assms(1)] by auto
    have r: "passing (assist_release env k) ls'" for ls'
      by (simp add: passing_def assist_release_def continue_def completion_key_kind_from_tab_like_def n
          should_swallow_trigger_assist_key_release_def)
    have "re_event_type ev = KeyReleaseEvent k" using False assms(3) by simp
    then show ?thesis using passing_and [OF r passing_hotkey_release [OF m]] by (simp add: pipeline_stage_def)
  qed
  show ?thesis
    by (rule callback_passing) (unfold callback_chain_def, intro passing_and rel inj pause pipe)
qed

section \<open>Paused\<close>

definition unseen :: "listener_action set \<Rightarrow> stage \<Rightarrow> bool" where
  "unseen acts f \<longleftrightarrow> (\<forall>ls. ls_evaluator (fst (f ls)) = ls_evaluator ls \<and> set (fst (snd (f ls))) \<subseteq> acts)"

lemma unseen_and: "unseen acts f \<Longrightarrow> unseen acts g \<Longrightarrow> unseen acts (and_stage f g)"
  unfolding unseen_def and_stage_def by (auto simp: case_prod_beta split: option.split)

lemma unseen_continue [simp]: "unseen acts continue" "unseen acts (decide v)"
  by (simp_all add: unseen_def continue_def decide_def)

lemma unseen_release: "unseen {StopPtt, AbortInjection} (release_edges env ev)"
proof -
  have "unseen {StopPtt, AbortInjection} (release_pause_key env k)"
    "unseen {StopPtt, AbortInjection} (release_ptt env ev k)"
    "unseen {StopPtt, AbortInjection} (release_handsfree env ev)" for k
    by (simp_all add: unseen_def release_pause_key_def release_ptt_def release_handsfree_def continue_def
        split: option.split)
  then show ?thesis by (simp add: release_edges_def unseen_and split: rdev_event_type.split)
qed

lemma unseen_hotkey_release: "unseen acts (hotkey_release logical)"
  by (auto simp: unseen_def hotkey_release_def continue_def split: option.split prod.split hotkey_evaluation.split)

lemma unseen_injecting: "unseen {StopPtt, AbortInjection} (injecting_stage env ev)"
  by (auto simp: injecting_stage_def unseen_and unseen_hotkey_release split: rdev_event_type.split)
    (simp_all add: unseen_def)

lemma and_stage_decided: "(\<And>ls. snd (snd (f ls)) \<noteq> None) \<Longrightarrow> and_stage f g = f"
proof
  fix ls
  assume "\<And>ls. snd (snd (f ls)) \<noteq> None"
  then obtain ls1 acts v where "f ls = (ls1, acts, Some v)" by (metis option.exhaust prod.collapse)
  then show "and_stage f g ls = f ls" by (simp add: and_stage_def)
qed

text \<open>While Taurine is paused, nothing the user types or clicks reaches the evaluator: apart from the
  pause chord itself, an event leaves the evaluator and the shared engine state as they were, and at
  most ends a recording or aborts an injection that is still running.\<close>

theorem paused_typing_unseen:
  assumes "le_paused env"
    and "\<not> is_pause_chord ev (active_modifiers (track_sides (re_event_type ev) (ls_sides ls))) (le_pause_hotkey env)"
    and "process_keyboard_event env ev ls = (ls', acts, v)"
  shows "ls_evaluator ls' = ls_evaluator ls \<and> set acts \<subseteq> {StopPtt, AbortInjection}"
proof -
  let ?mods = "active_modifiers (track_sides (re_event_type ev) (ls_sides ls))"
  have p: "pause_stage env ev ?mods = decide PassOn"
    using assms(1,2) by (simp add: fun_eq_iff pause_stage_def decide_def)
  then have c: "callback_chain env ev ?mods =
      and_stage (release_edges env ev) (and_stage (injecting_stage env ev) (decide PassOn))"
    by (simp add: callback_chain_def and_stage_decided decide_def)
  have "unseen {StopPtt, AbortInjection} (callback_chain env ev ?mods)"
    unfolding c by (intro unseen_and unseen_release unseen_injecting unseen_continue)
  then show ?thesis
    using assms(3) by (auto simp: process_keyboard_event_def unseen_def Let_def case_prod_beta split: if_split_asm)
qed

section \<open>The completion under the callback\<close>

text \<open>A stage that keeps the invariant of the completion unless it injects a clipboard placeholder.\<close>

definition sound_evaluator :: "evaluator \<Rightarrow> bool" where
  "sound_evaluator ev \<longleftrightarrow> assist_inv ev \<and> \<not> es_instant_expand (ev_state ev)"

definition no_placeholder :: "listener_action list \<Rightarrow> bool" where
  "no_placeholder acts \<longleftrightarrow> (\<forall>t. InjectPlaceholder t \<notin> set acts)"

definition keeps_sound :: "stage \<Rightarrow> bool" where
  "keeps_sound f \<longleftrightarrow> (\<forall>ls. sound_evaluator (ls_evaluator ls) \<longrightarrow> no_placeholder (fst (snd (f ls))) \<longrightarrow>
     sound_evaluator (ls_evaluator (fst (f ls))))"

lemma keeps_sound_and: "keeps_sound f \<Longrightarrow> keeps_sound g \<Longrightarrow> keeps_sound (and_stage f g)"
  unfolding keeps_sound_def and_stage_def no_placeholder_def
  by (auto simp: case_prod_beta split: option.split)

lemma keeps_sound_unseen: "unseen acts f \<Longrightarrow> keeps_sound f"
  by (simp add: unseen_def keeps_sound_def)

lemma sound_state:
  assumes "sound_evaluator ev" and "es_completion_active st = es_completion_active (ev_state ev)"
    and "es_instant_expand st = es_instant_expand (ev_state ev)"
  shows "sound_evaluator (ev\<lparr>ev_state := st\<rparr>)"
  using assms by (simp add: sound_evaluator_def assist_inv_def Let_def)

lemma sound_clear_undo: "sound_evaluator ev \<Longrightarrow> sound_evaluator (ev\<lparr>ev_state := clear_undo_state (ev_state ev)\<rparr>)"
  by (rule sound_state) (simp_all add: clear_undo_state_def clear_case_cycle_def)

lemma sound_upd_clear:
  "sound_evaluator (ls_evaluator ls) \<Longrightarrow> sound_evaluator (ls_evaluator (upd_state clear_undo_state ls))"
  by (simp add: upd_state_def sound_clear_undo)

lemma sound_locked:
  "sound_evaluator (ls_evaluator ls) \<Longrightarrow> (\<And>ev. sound_evaluator ev \<Longrightarrow> sound_evaluator (fst (action ev))) \<Longrightarrow>
   sound_evaluator (ls_evaluator (fst (with_evaluator_lock env op action ls)))"
  by (simp add: with_evaluator_lock_def case_prod_beta)

lemma sound_operations:
  assumes "sound_evaluator ev"
  shows "sound_evaluator (fst (process_event env ev event window fetch))"
    and "sound_evaluator (fst (cycle_completion ae ev forward))"
    and "sound_evaluator (fst (rewrite_selected_query ae ev word))"
    and "sound_evaluator (fst (activate_triggerless_completion ae ev))"
    and "sound_evaluator (fst (cancel_op ev))"
proof -
  have i: "assist_inv ev" and n: "\<not> es_instant_expand (ev_state ev)" using assms by (simp_all add: sound_evaluator_def)
  show "sound_evaluator (fst (process_event env ev event window fetch))"
    using assist_inv_event [OF i n] n by (simp add: sound_evaluator_def instant_event)
  show "sound_evaluator (fst (cycle_completion ae ev forward))"
    using assist_inv_cycle [OF i] n by (simp add: sound_evaluator_def)
  show "sound_evaluator (fst (rewrite_selected_query ae ev word))"
    using assist_inv_selected_query [OF i] n by (simp add: sound_evaluator_def)
  have "es_instant_expand (ev_state (fst (activate_triggerless_completion ae ev))) = es_instant_expand (ev_state ev)"
    by (auto simp: activate_triggerless_completion_def split: option.split)
  then show "sound_evaluator (fst (activate_triggerless_completion ae ev))"
    using assist_inv_activate(1) [OF i] n by (simp add: sound_evaluator_def)
  show "sound_evaluator (fst (cancel_op ev))"
    using assist_inv_deactivate [of ev] i n
    by (auto simp: sound_evaluator_def cancel_op_def cancel_completion_def deactivate_def)
qed

lemma keeps_sound_hotkeys: "keeps_sound (hotkey_press env mods logical)"
  by (auto simp: keeps_sound_def hotkey_press_def continue_def split: option.split prod.split hotkey_evaluation.split)

lemma keeps_sound_buttons: "keeps_sound (button_press env mods b)"
proof -
  have "keeps_sound (button_interrupt env)"
    unfolding keeps_sound_def
  proof (intro allI impI)
    fix ls :: listener_state assume s: "sound_evaluator (ls_evaluator ls)"
    let ?ls1 = "(upd_state clear_undo_state ls)\<lparr>ls_hotkeys := hotkey_clear (ls_hotkeys ls)\<rparr>"
    have s1: "sound_evaluator (ls_evaluator ?ls1)" using sound_upd_clear [OF s] by simp
    have "sound_evaluator (ls_evaluator (fst (with_evaluator_lock env ''button_interrupt''
        (\<lambda>ev. process_event_info (le_eval env) ev InterruptEvent None) ?ls1)))"
      unfolding process_event_info_def by (rule sound_locked [OF s1 sound_operations(1)])
    then show "sound_evaluator (ls_evaluator (fst (button_interrupt env ls)))"
      by (simp add: button_interrupt_def case_prod_beta)
  qed
  then have "keeps_sound (and_stage (hotkey_press env mods (logical_key_from_rdev_button b)) (button_interrupt env))"
    by (intro keeps_sound_and keeps_sound_hotkeys)
  then show ?thesis by (simp add: keeps_sound_def button_press_def)
qed

lemma keeps_sound_locked:
  assumes "\<And>ev. sound_evaluator ev \<Longrightarrow> sound_evaluator (fst (action ev))"
    and "\<And>ls. ls_evaluator (fst (f ls)) = ls_evaluator (fst (with_evaluator_lock env op action ls)) \<or>
      ls_evaluator (fst (f ls)) = ls_evaluator (upd_state clear_undo_state (fst (with_evaluator_lock env op action ls))) \<or>
      ls_evaluator (fst (f ls)) = ls_evaluator ls"
  shows "keeps_sound f"
  unfolding keeps_sound_def
proof (intro allI impI)
  fix ls :: listener_state assume s: "sound_evaluator (ls_evaluator ls)"
  have "sound_evaluator (ls_evaluator (fst (with_evaluator_lock env op action ls)))"
    by (rule sound_locked [OF s assms(1)])
  then show "sound_evaluator (ls_evaluator (fst (f ls)))"
    using assms(2) [of ls] s sound_upd_clear by auto
qed

lemma keeps_sound_assist: "keeps_sound (assist_stage env k m)"
proof -
  have b: "keeps_sound (assist_backspace env k m)"
    by (rule keeps_sound_locked [where env = env and op = "''rewrite_backspace_query''"
          and action = "\<lambda>ev. rewrite_selected_query (ee_assist (le_eval env)) ev (ctrl_active m)"])
      (simp_all add: sound_operations assist_backspace_def continue_def case_prod_beta)
  have c: "keeps_sound (assist_start env k m)"
    by (rule keeps_sound_locked [where env = env and op = "''activate_triggerless_completion''"
          and action = "activate_triggerless_completion (ee_assist (le_eval env))"])
      (simp_all add: sound_operations assist_start_def continue_def case_prod_beta)
  have k: "keeps_sound (assist_keys env k m)"
    unfolding keeps_sound_def
  proof (intro allI impI)
    fix ls :: listener_state assume s: "sound_evaluator (ls_evaluator ls)"
    note cycle = sound_locked [OF s sound_operations(2)]
    note cancel = sound_locked [OF s sound_operations(5)]
    show "sound_evaluator (ls_evaluator (fst (assist_keys env k m ls)))"
      unfolding assist_keys_def Let_def
      by (cases "trigger_assist_key_action (ls_engine ls) (completion_key_kind_from_tab_like (k = ''Tab'')
          (k = ''Escape'') (k = ''UpArrow'') (k = ''DownArrow'')) (shift_active m) (ctrl_active m) (alt_active m)
          (meta_active m)") (simp_all add: case_prod_beta cycle cancel continue_def s)
  qed
  have "keeps_sound (and_stage (assist_backspace env k m) (assist_keys env k m))"
    by (rule keeps_sound_and [OF b k])
  then show ?thesis
    using c sound_upd_clear unfolding keeps_sound_def assist_stage_def by simp
qed

lemma sound_cycle_undo:
  assumes "sound_evaluator ev"
  shows "sound_evaluator (ev\<lparr>ev_state := fst (advance_case_variant (ev_state ev) now direction)\<rparr>)"
    and "sound_evaluator (ev\<lparr>ev_state := fst (take_active_undo_state (ev_state ev) now)\<rparr>)"
  by (rule sound_state [OF assms]; simp add: advance_case_variant_def take_active_undo_state_def
      clear_case_cycle_def Let_def split: option.split prod.split)+

lemma keeps_sound_late:
  "keeps_sound (case_cycle_stage env k m)" "keeps_sound (undo_stage env k m)"
  "keeps_sound (paste_stage env k m)" "keeps_sound (engine_stage env ev k m)"
proof -
  show "keeps_sound (case_cycle_stage env k m)"
    unfolding keeps_sound_def
  proof (intro allI impI)
    fix ls :: listener_state assume s: "sound_evaluator (ls_evaluator ls)"
    then show "sound_evaluator (ls_evaluator (fst (case_cycle_stage env k m ls)))"
      using sound_cycle_undo(1) [OF s] unfolding case_cycle_stage_def
      by (auto simp: continue_def upd_state_def split: option.split prod.split) (metis fst_conv)+
  qed
  show "keeps_sound (undo_stage env k m)"
    unfolding keeps_sound_def
  proof (intro allI impI)
    fix ls :: listener_state assume s: "sound_evaluator (ls_evaluator ls)"
    then show "sound_evaluator (ls_evaluator (fst (undo_stage env k m ls)))"
      using sound_cycle_undo(2) [OF s] sound_clear_undo [OF s] unfolding undo_stage_def
      by (auto simp: continue_def upd_state_def split: option.split prod.split) (metis fst_conv)+
  qed
  show "keeps_sound (paste_stage env k m)"
    by (auto simp: keeps_sound_def paste_stage_def no_placeholder_def continue_def Let_def case_prod_beta)
  show "keeps_sound (engine_stage env ev k m)"
    unfolding keeps_sound_def
  proof (intro allI impI)
    fix ls :: listener_state assume s: "sound_evaluator (ls_evaluator ls)"
    have l: "sound_evaluator (ls_evaluator (fst (with_evaluator_lock env ''process_engine_event''
        (\<lambda>e. process_event_lazy (le_eval env) e event (le_window env)) ls)))" for event
      unfolding process_event_lazy_def by (rule sound_locked [OF s sound_operations(1)])
    show "sound_evaluator (ls_evaluator (fst (engine_stage env ev k m ls)))"
      using s l unfolding engine_stage_def
      by (auto simp: continue_def split: sum.split option.split prod.split) (metis fst_conv)+
  qed
qed

lemma keeps_sound_key_press: "keeps_sound (key_press_stage env ev mods k)"
proof -
  have "keeps_sound (voice_stage env ev k mods)"
    by (auto simp: keeps_sound_def voice_stage_def voice_hotkey_stage_def and_stage_def continue_def
        split: option.split)
  then have "keeps_sound (and_stage (voice_stage env ev k mods)
      (and_stage (assist_stage env k m)
        (and_stage (hotkey_press env mods (logical_key_from_rdev k))
          (and_stage (case_cycle_stage env k m)
            (and_stage (undo_stage env k m)
              (and_stage (paste_stage env k m) (engine_stage env ev k m)))))))" for m
    by (intro keeps_sound_and keeps_sound_assist keeps_sound_hotkeys keeps_sound_late)
  then show ?thesis unfolding keeps_sound_def key_press_stage_def Let_def by blast
qed

lemma keeps_sound_callback: "keeps_sound (callback_chain env ev mods)"
proof -
  have p: "keeps_sound (pause_stage env ev mods)"
    unfolding keeps_sound_def
  proof (intro allI impI)
    fix ls :: listener_state assume s: "sound_evaluator (ls_evaluator ls)"
    then have "sound_evaluator (ls_evaluator (ls\<lparr>ls_pause_key_down := True\<rparr>))" by simp
    from s sound_upd_clear [OF this] show "sound_evaluator (ls_evaluator (fst (pause_stage env ev mods ls)))"
      by (simp add: pause_stage_def continue_def)
  qed
  have r: "keeps_sound (and_stage (assist_release env k) (hotkey_release logical))" for k logical
    by (intro keeps_sound_and keeps_sound_unseen [OF unseen_hotkey_release])
      (simp add: keeps_sound_def assist_release_def continue_def)
  have "keeps_sound (pipeline_stage env ev mods)"
    by (simp add: pipeline_stage_def r keeps_sound_buttons keeps_sound_key_press
        keeps_sound_unseen [OF unseen_hotkey_release] keeps_sound_unseen [OF unseen_continue(1)]
        split: rdev_event_type.split)
  then show ?thesis
    unfolding callback_chain_def
    by (intro keeps_sound_and p keeps_sound_unseen [OF unseen_release] keeps_sound_unseen [OF unseen_injecting])
qed

text \<open>C13: While instant expansion is off, whatever the user types, clicks or releases, and whichever operations are skipped because the
  evaluator is busy, the callback keeps the completion consistent with the buffer and the shared
  flag, unless the event pasted a clipboard placeholder into an inline prompt.\<close>

theorem callback_keeps_completion_consistent:
  assumes "assist_inv (ls_evaluator ls)" and "\<not> es_instant_expand (ls_engine ls)"
    and "process_keyboard_event env ev ls = (ls', acts, v)" and "\<forall>t. InjectPlaceholder t \<notin> set acts"
  shows "assist_inv (ls_evaluator ls') \<and> \<not> es_instant_expand (ls_engine ls')"
proof -
  have s: "sound_evaluator (ls_evaluator ls)" using assms(1,2) by (simp add: sound_evaluator_def)
  obtain queue own where c: "consume_simulated_event (le_now env) (ls_simulated ls) (re_event_type ev) = (queue, own)"
    by fastforce
  let ?ls2 = "ls\<lparr>ls_simulated := queue, ls_sides := track_sides (re_event_type ev) (ls_sides ls)\<rparr>"
  obtain ls3 acts3 v3 where r: "callback_chain env ev (active_modifiers (ls_sides ?ls2)) ?ls2 = (ls3, acts3, v3)"
    by (metis prod_cases3)
  have "sound_evaluator (ls_evaluator ls3)" if "no_placeholder acts3"
    using keeps_sound_callback [of env ev "active_modifiers (ls_sides ?ls2)"] s that r
    unfolding keeps_sound_def by (metis (no_types, lifting) fst_conv listener_state.ext_inject
        listener_state.surjective listener_state.update_convs(3,4) snd_conv)
  then have "sound_evaluator (ls_evaluator ls')"
    using assms(3,4) c r s by (auto simp: process_keyboard_event_def no_placeholder_def Let_def split: if_split_asm)
  then show ?thesis by (simp add: sound_evaluator_def)
qed

section \<open>At work\<close>

definition demo_listener_env :: "(nat, unit) listener_env" where
  "demo_listener_env =
     \<lparr>le_eval = demo_env, le_windows = False, le_mac = True, le_now = 0, le_lock = (\<lambda>op. True), le_window = None,
      le_clipboard = None, le_physical_sides = no_sides, le_normalize = (\<lambda>t. t), le_injecting = False,
      le_paused = False, le_pause_audio = True, le_pause_hotkey = taurine_pause_hotkey,
      le_voice_specs = refresh_cached_voice_specs ''win+lctrl'' ''win+lctrl+lalt'',
      le_voice_session = False, le_voice_active = False\<rparr>"

definition demo_listener :: listener_state where
  "demo_listener =
     \<lparr>ls_evaluator = evaluator_new demo_hotkey_state, ls_hotkeys = hotkey_evaluator_new, ls_sides = no_sides,
      ls_simulated = [], ls_pause_key_down = False, ls_ptt_key_down = False, ls_handsfree_key_down = False\<rparr>"

definition pressing :: "rdev_key \<Rightarrow> rdev_event" where
  "pressing k = \<lparr>re_event_type = KeyPressEvent k, re_name = None\<rparr>"

definition releasing :: "rdev_key \<Rightarrow> rdev_event" where
  "releasing k = \<lparr>re_event_type = KeyReleaseEvent k, re_name = None\<rparr>"

theorem modifier_keys_pass_witness:
  "snd (snd (process_keyboard_event demo_listener_env (pressing ''ControlLeft'') demo_listener)) = PassOn"
proof (rule modifier_keys_pass)
  show "rdev_modifier_key ''ControlLeft''" by code_simp
  show "is_modifier_key (key (le_pause_hotkey demo_listener_env)) = None" by code_simp
  show "re_event_type (pressing ''ControlLeft'') \<in> {KeyPressEvent ''ControlLeft'', KeyReleaseEvent ''ControlLeft''}"
    by (simp add: pressing_def)
qed

theorem paused_typing_unseen_witness:
  "ls_evaluator (fst (process_keyboard_event (demo_listener_env\<lparr>le_paused := True\<rparr>) (pressing ''KeyA'') demo_listener)) =
     ls_evaluator demo_listener"
proof -
  let ?env = "demo_listener_env\<lparr>le_paused := True\<rparr>"
  obtain ls' acts v where r: "process_keyboard_event ?env (pressing ''KeyA'') demo_listener = (ls', acts, v)"
    by (metis prod_cases3)
  have "\<not> is_pause_chord (pressing ''KeyA'')
      (active_modifiers (track_sides (re_event_type (pressing ''KeyA'')) (ls_sides demo_listener)))
      (le_pause_hotkey ?env)" by code_simp
  from paused_typing_unseen [OF _ this r] show ?thesis by (simp add: r)
qed

section \<open>Where the callback loses track\<close>

text \<open>An event that no guard in front of the pipeline takes.\<close>

definition reaches_pipeline :: "('f, 'd) listener_env \<Rightarrow> rdev_event \<Rightarrow> listener_state \<Rightarrow> bool" where
  "reaches_pipeline env ev ls \<longleftrightarrow>
     \<not> le_windows env \<and> ls_simulated ls = [] \<and> \<not> le_injecting env \<and> \<not> le_paused env \<and> \<not> le_voice_session env \<and>
     \<not> is_pause_chord ev (active_modifiers (track_sides (re_event_type ev) (ls_sides ls))) (le_pause_hotkey env)"

lemma pipeline_reached:
  assumes "reaches_pipeline env ev ls" and "\<And>k. re_event_type ev \<noteq> KeyReleaseEvent k"
    and "pipeline_stage env ev (active_modifiers (track_sides (re_event_type ev) (ls_sides ls)))
      (ls\<lparr>ls_sides := track_sides (re_event_type ev) (ls_sides ls)\<rparr>) = (ls', acts, v)"
  shows "process_keyboard_event env ev ls = (ls', acts, case v of None \<Rightarrow> PassOn | Some v \<Rightarrow> v)"
proof -
  have "consume_simulated_event (le_now env) (ls_simulated ls) (re_event_type ev) = ([], False)"
    using assms(1) by (simp add: reaches_pipeline_def consume_simulated_event_def prune_expired_simulated_events_def)
  moreover have "release_edges env ev = continue"
    using assms(2) by (auto simp: release_edges_def split: rdev_event_type.split)
  ultimately show ?thesis
    using assms(1,3)
    by (cases ls) (simp add: process_keyboard_event_def callback_chain_def reaches_pipeline_def injecting_stage_def
        pause_stage_def and_stage_def continue_def Let_def)
qed

lemma ctrl_backspace_result:
  assumes "reaches_pipeline env (pressing ''Backspace'') ls" and "ctrl_active (ls_sides ls)"
    and "\<not> es_completion_active (ls_engine ls)" and "Backspace \<notin> he_swallowed_keys (ls_hotkeys ls)"
    and "\<not> has_hotkey_entry_for (ls_engine ls) Backspace"
  shows "process_keyboard_event env (pressing ''Backspace'') ls = (upd_state clear_undo_state ls, [], PassOn)"
proof -
  let ?ev = "pressing ''Backspace''"
  have m: "track_sides (re_event_type ?ev) (ls_sides ls) = ls_sides ls"
    by (simp add: pressing_def track_sides_def set_side_def)
  have k: "logical_key_from_rdev ''Backspace'' = Some Backspace"
    by (simp add: logical_key_from_rdev_def rdev_keys_def)
  have h: "hotkey_press env mods (Some Backspace) ls = (ls, [], None)" for mods
    using assms(4,5) by (simp add: hotkey_press_def on_key_event_def on_key_press_def)
  have "pipeline_stage env ?ev (active_modifiers (ls_sides ls)) ls = (upd_state clear_undo_state ls, [], Some PassOn)"
    using assms(1-3) k h
    by (simp add: pipeline_stage_def pressing_def key_press_stage_def and_stage_def voice_stage_def Let_def
        reaches_pipeline_def continue_def assist_stage_def trigger_assist_is_active_def assist_start_def
        case_cycle_stage_def case_cycle_key_action_def undo_stage_def)
  then show ?thesis
    using pipeline_reached [OF assms(1)] m by (simp add: pressing_def)
qed

text \<open>C38: Ctrl+Backspace outside a completion returns before it is turned into an event: the application
  deletes a word, and the evaluator's picture of the text before the caret still contains it.  The
  branch of the code for it, \<open>EngineEvent::WordBackspace\<close>, cannot be reached.\<close>

theorem ctrl_backspace_is_not_tracked:
  assumes "reaches_pipeline env (pressing ''Backspace'') ls" and "ctrl_active (ls_sides ls)"
    and "\<not> es_completion_active (ls_engine ls)" and "Backspace \<notin> he_swallowed_keys (ls_hotkeys ls)"
    and "\<not> has_hotkey_entry_for (ls_engine ls) Backspace"
  shows "\<exists>ls'. process_keyboard_event env (pressing ''Backspace'') ls = (ls', [], PassOn) \<and>
    ev_buffer (ls_evaluator ls') = ev_buffer (ls_evaluator ls)"
  using ctrl_backspace_result [OF assms] by (simp add: upd_state_def)

text \<open>Ctrl is down and the buffer holds two words.\<close>

definition ctrl_listener :: listener_state where
  "ctrl_listener = demo_listener\<lparr>ls_sides := no_sides\<lparr>md_left_ctrl := True\<rparr>,
     ls_evaluator := (ls_evaluator demo_listener)\<lparr>ev_buffer := ring_of ''two words''\<rparr>\<rparr>"

lemma ctrl_listener_ready:
  "reaches_pipeline demo_listener_env (pressing ''Backspace'') ctrl_listener"
  "ctrl_active (ls_sides ctrl_listener)" "\<not> es_completion_active (ls_engine ctrl_listener)"
  "Backspace \<notin> he_swallowed_keys (ls_hotkeys ctrl_listener)"
  "\<not> has_hotkey_entry_for (ls_engine ctrl_listener) Backspace"
proof -
  have "\<not> is_pause_chord (pressing ''Backspace'')
      (active_modifiers (track_sides (re_event_type (pressing ''Backspace'')) (no_sides\<lparr>md_left_ctrl := True\<rparr>)))
      taurine_pause_hotkey" by code_simp
  then show "reaches_pipeline demo_listener_env (pressing ''Backspace'') ctrl_listener"
    by (simp add: reaches_pipeline_def demo_listener_env_def ctrl_listener_def demo_listener_def)
  show "ctrl_active (ls_sides ctrl_listener)" by (simp add: ctrl_listener_def ctrl_active_def)
  show "\<not> es_completion_active (ls_engine ctrl_listener)"
    by (simp add: ctrl_listener_def demo_listener_def evaluator_new_def)
  show "Backspace \<notin> he_swallowed_keys (ls_hotkeys ctrl_listener)"
    by (simp add: ctrl_listener_def demo_listener_def hotkey_evaluator_new_def)
  have "\<not> has_hotkey_entry_for demo_hotkey_state Backspace" by code_simp
  then show "\<not> has_hotkey_entry_for (ls_engine ctrl_listener) Backspace"
    by (simp add: ctrl_listener_def demo_listener_def evaluator_new_def has_hotkey_entry_for_def)
qed

theorem ctrl_backspace_is_not_tracked_witness:
  "\<exists>ls'. process_keyboard_event demo_listener_env (pressing ''Backspace'') ctrl_listener = (ls', [], PassOn) \<and>
     contents (ev_buffer (ls_evaluator ls')) = ''two words''"
proof -
  have "contents (ring_of ''two words'') = ''two words''"
    by (rule contents_ring_of) (simp add: fast_buffer_capacity_def)
  then show ?thesis
    using ctrl_backspace_is_not_tracked [OF ctrl_listener_ready] by (auto simp: ctrl_listener_def)
qed

theorem callback_keeps_completion_consistent_witness:
  "assist_inv (ls_evaluator (fst (process_keyboard_event demo_listener_env (pressing ''Backspace'') ctrl_listener)))"
proof -
  let ?ls' = "upd_state clear_undo_state ctrl_listener"
  have r: "process_keyboard_event demo_listener_env (pressing ''Backspace'') ctrl_listener = (?ls', [], PassOn)"
    by (rule ctrl_backspace_result [OF ctrl_listener_ready])
  have "\<not> es_instant_expand (ls_engine ctrl_listener)"
    by (simp add: ctrl_listener_def demo_listener_def evaluator_new_def demo_hotkey_state_def
        load_hotkey_actions_def engine_state_new_def)
  moreover have "assist_inv (ls_evaluator ctrl_listener)"
    using ring_inv_ring_of [of "''two words''"]
    by (simp add: ctrl_listener_def demo_listener_def assist_inv_def evaluator_new_def completion_default_def
        fast_buffer_capacity_def)
  ultimately show ?thesis using callback_keeps_completion_consistent [OF _ _ r] by (simp add: r)
qed

lemma paused_release:
  assumes "le_paused env" and "\<not> le_injecting env" and "ls_simulated ls = []" and "\<not> le_windows env"
    and "vs_ptt (le_voice_specs env) = None"
  shows "\<exists>ls1. process_keyboard_event env (releasing k) ls = (ls1, [], PassOn) \<and>
    ls_hotkeys ls1 = ls_hotkeys ls \<and> ls_evaluator ls1 = ls_evaluator ls \<and> ls_simulated ls1 = []"
proof -
  have q: "consume_simulated_event now [] ev = ([], False)" for now and ev :: rdev_event_type
    by (simp add: consume_simulated_event_def prune_expired_simulated_events_def)
  have c: "\<not> is_pause_chord (releasing k) mods spec" for mods spec
    by (simp add: is_pause_chord_def releasing_def)
  have r: "re_event_type (releasing k) = KeyReleaseEvent k" by (simp add: releasing_def)
  have p: "release_ptt env (releasing k) k = continue"
    by (simp add: fun_eq_iff release_ptt_def assms(5))
  show ?thesis
    using assms(1-4) c
    by (simp add: process_keyboard_event_def q r callback_chain_def release_edges_def p injecting_stage_def
        pause_stage_def and_stage_def continue_def release_pause_key_def release_handsfree_def Let_def
        split: option.split)
qed

lemma swallowed_press:
  assumes "reaches_pipeline env (pressing k) ls" and "k \<noteq> ''Tab''" and "logical_key_from_rdev k = Some l"
    and "l \<in> he_swallowed_keys (ls_hotkeys ls)" and "is_modifier_key l = None"
    and "\<not> es_completion_active (ls_engine ls)" and "\<not> fullscreen_suppressed (ls_engine ls)"
  shows "\<exists>ls'. process_keyboard_event env (pressing k) ls = (ls', [], Swallowed)"
proof -
  let ?ls = "ls\<lparr>ls_sides := track_sides (re_event_type (pressing k)) (ls_sides ls)\<rparr>"
  have h: "hotkey_press env mods (Some l) ?ls = (?ls, [], Some Swallowed)" for mods
    using assms(4,5,7) by (simp add: hotkey_press_def on_key_event_def on_key_press_def)
  have "pipeline_stage env (pressing k) mods ?ls = (?ls, [], Some Swallowed)" for mods
    using assms(1,2,3,6) h
    by (simp add: pipeline_stage_def pressing_def key_press_stage_def and_stage_def voice_stage_def Let_def
        reaches_pipeline_def continue_def assist_stage_def trigger_assist_is_active_def assist_start_def)
  from pipeline_reached [OF assms(1) _ this] show ?thesis by (simp add: pressing_def)
qed

text \<open>A hotkey that is held when Taurine is paused stays in the set of swallowed keys: its release is
  passed on without being noticed.  After the pause is lifted the next press of that key is swallowed
  and does nothing, even without the modifiers of the hotkey.\<close>

theorem pause_leaves_key_swallowed:
  assumes "le_paused env1" and "\<not> le_injecting env1" and "ls_simulated ls = []" and "\<not> le_windows env1"
    and "vs_ptt (le_voice_specs env1) = None"
    and "logical_key_from_rdev k = Some l" and "l \<in> he_swallowed_keys (ls_hotkeys ls)"
    and "is_modifier_key l = None" and "k \<noteq> ''Tab''" and "key (le_pause_hotkey env2) \<noteq> l"
    and "\<not> le_injecting env2" and "\<not> le_paused env2" and "\<not> le_windows env2" and "\<not> le_voice_session env2"
    and "\<not> es_completion_active (ls_engine ls)" and "\<not> fullscreen_suppressed (ls_engine ls)"
  shows "\<exists>ls1 ls2. process_keyboard_event env1 (releasing k) ls = (ls1, [], PassOn) \<and>
    process_keyboard_event env2 (pressing k) ls1 = (ls2, [], Swallowed)"
proof -
  obtain ls1 where r: "process_keyboard_event env1 (releasing k) ls = (ls1, [], PassOn)"
    and ls1: "ls_hotkeys ls1 = ls_hotkeys ls" "ls_evaluator ls1 = ls_evaluator ls" "ls_simulated ls1 = []"
    using paused_release [OF assms(1-5)] by blast
  have "reaches_pipeline env2 (pressing k) ls1"
    using assms(6,10-14) ls1(3)
    by (auto simp: reaches_pipeline_def is_pause_chord_def pressing_def hotkey_matches_def)
  then show ?thesis
    using swallowed_press [of env2 k ls1 l] assms(6-9,15,16) ls1(1,2) r by auto
qed

definition held_listener :: listener_state where
  "held_listener = demo_listener\<lparr>ls_hotkeys := \<lparr>he_swallowed_keys = {Letter (CHR ''m'')}\<rparr>\<rparr>"

definition no_voice_env :: "bool \<Rightarrow> (nat, unit) listener_env" where
  "no_voice_env p = demo_listener_env\<lparr>le_paused := p, le_voice_specs := \<lparr>vs_ptt = None, vs_handsfree = None\<rparr>\<rparr>"

theorem pause_leaves_key_swallowed_witness:
  "\<exists>ls1 ls2. process_keyboard_event (no_voice_env True) (releasing ''KeyM'') held_listener = (ls1, [], PassOn) \<and>
     process_keyboard_event (no_voice_env False) (pressing ''KeyM'') ls1 = (ls2, [], Swallowed)"
proof -
  have "logical_key_from_rdev ''KeyM'' = Some (Letter (CHR ''m''))"
    by (simp add: logical_key_from_rdev_def rdev_keys_def)
  moreover have "key taurine_pause_hotkey \<noteq> Letter (CHR ''m'')" by code_simp
  moreover have "\<not> fullscreen_suppressed demo_hotkey_state" by code_simp
  ultimately show ?thesis
    by (intro pause_leaves_key_swallowed [where l = "Letter (CHR ''m'')"])
      (simp_all add: no_voice_env_def demo_listener_env_def held_listener_def demo_listener_def evaluator_new_def
        fullscreen_suppressed_def)
qed

text \<open>Outside Windows a click on an unbound button forgets every modifier that is held down and every
  hotkey that is held: with Ctrl, Alt or the command key still down, the next letter is taken as typed
  text, and a repeating hotkey fires again.\<close>

theorem click_forgets_held_keys:
  assumes "\<not> le_windows env" and "logical_key_from_rdev_button b = Some l"
    and "snd (on_key_press (ee_catalog (le_eval env)) (ls_engine ls) (le_window env) (ls_hotkeys ls) mods l) = HotkeyNoMatch"
  shows "let ls' = fst (button_press env mods b ls) in
    ls_sides ls' = no_sides \<and> he_swallowed_keys (ls_hotkeys ls') = {} \<and>
    (le_normalize env [c] = [c] \<longrightarrow> k \<notin> {''Escape'', ''Backspace'', ''Space'', ''Return'', ''Tab''} \<longrightarrow>
       k \<notin> set navigation_keys \<longrightarrow> \<not> rdev_modifier_key k \<longrightarrow>
       engine_event_for env \<lparr>re_event_type = KeyPressEvent k, re_name = Some [c]\<rparr> k
         (track_sides (KeyPressEvent k) (ls_sides ls')) = Inr (Some (CharEvent c)))"
proof -
  obtain he where p: "on_key_press (ee_catalog (le_eval env)) (ls_engine ls) (le_window env) (ls_hotkeys ls) mods l =
      (he, HotkeyNoMatch)"
    using assms(3) by (metis prod.collapse)
  let ?ls1 = "ls\<lparr>ls_sides := no_sides, ls_hotkeys := he\<rparr>"
  have "fst (button_press env mods b ls) = fst (button_interrupt env ?ls1)"
    using assms(1,2) p
    by (simp add: button_press_def hotkey_press_def on_key_event_def and_stage_def case_prod_beta)
  moreover have "ls_sides (fst (button_interrupt env ?ls1)) = no_sides \<and>
      he_swallowed_keys (ls_hotkeys (fst (button_interrupt env ?ls1))) = {}"
    by (simp add: button_interrupt_def with_evaluator_lock_def upd_state_def hotkey_clear_def case_prod_beta Let_def)
  moreover have "track_sides (KeyPressEvent k) no_sides = no_sides" if "\<not> rdev_modifier_key k" for k
    using that by (auto simp: track_sides_def set_side_def rdev_modifier_key_def modifier_keys_def)
  ultimately show ?thesis
    by (simp add: Let_def engine_event_for_def alt_active_def ctrl_active_def meta_active_def no_sides_def)
qed

theorem click_forgets_held_keys_witness:
  "ls_sides (fst (button_press demo_listener_env alt_m RLeft (held_listener\<lparr>ls_sides := no_sides\<lparr>md_left_ctrl := True\<rparr>\<rparr>)))
     = no_sides"
proof -
  let ?ls = "held_listener\<lparr>ls_sides := no_sides\<lparr>md_left_ctrl := True\<rparr>\<rparr>"
  have "\<not> has_hotkey_entry_for demo_hotkey_state (MouseKey MouseLeft)" by code_simp
  then have "snd (on_key_press (ee_catalog (le_eval demo_listener_env)) (ls_engine ?ls) (le_window demo_listener_env)
      (ls_hotkeys ?ls) alt_m (MouseKey MouseLeft)) = HotkeyNoMatch"
    by (simp add: on_key_press_def held_listener_def demo_listener_def evaluator_new_def has_hotkey_entry_for_def)
  moreover have "\<not> le_windows demo_listener_env" by (simp add: demo_listener_env_def)
  ultimately show ?thesis
    using click_forgets_held_keys [of demo_listener_env RLeft "MouseKey MouseLeft" ?ls alt_m]
    by (simp add: logical_key_from_rdev_button_def Let_def)
qed

end
