(* ===== verification/PauseSwitch.thy ===== *)
theory PauseSwitch
  imports Prelude
begin

text \<open>
  The switch between running and paused, and everyone who touches it: the keyboard hook and the
  counter that settles bursts of the pause chord (\<open>daemon/src/input/hotkey.rs\<close>), the remote calls
  (\<open>daemon/src/services/server.rs\<close>), the fallbacks and the snooze timer of the tray and the tray loops
  (\<open>daemon/src/services/tray/native.rs\<close>, \<open>daemon/src/services/tray/linux.rs\<close>), and the coordinator
  that suspends and resumes the subsystems (\<open>daemon/src/lib.rs\<close>).  The steps below are the accesses to
  the two shared flags and to the two channels, so that they interleave as the threads do.
\<close>

section \<open>State\<close>

definition quiet_window_ms :: u64 where
  "quiet_window_ms = 300"

definition pause_channel_capacity :: nat where
  "pause_channel_capacity = 8"

definition burst_should_toggle :: "u64 \<Rightarrow> bool" where
  "burst_should_toggle presses \<longleftrightarrow> presses mod 2 = 1"

text \<open>Where the counter thread is: between the change of the flag and the notification lies the
  reconciliation of the preview, with the value read before it.\<close>

datatype pause_worker =
    PauseWaiting
  | PauseCounting u64
  | PauseSettled u64
  | PauseReconcile bool bool
  | PauseNotify bool

text \<open>
  \<open>pm_pending\<close> counts the presses whose preview is flipped and whose token is not yet queued,
  \<open>pm_calls\<close> holds the notices that threads other than the counter still have to send,
  \<open>pm_coordinator\<close> the value the coordinator has drained and not yet applied, \<open>pm_applied\<close> the state of
  the subsystems, \<open>pm_tray_last\<close> the flag as the tray loop last saw it and \<open>pm_tray_store\<close> what it is
  about to write into the preview.  The last five fields are only for the statements: the presses, the
  accesses of other threads to the flag and those that changed it, whether one of them came between the
  counter and the tray, and whether a change came before the notice of an earlier one was sent, or
  without a notice.
\<close>

record pause_machine =
  pm_paused :: bool
  pm_preview :: bool
  pm_pending :: nat
  pm_queue :: nat
  pm_worker :: pause_worker
  pm_channel :: "bool list"
  pm_dropped :: nat
  pm_calls :: "bool list"
  pm_coordinator :: "bool option"
  pm_applied :: bool
  pm_tray_last :: "bool option"
  pm_tray_store :: "bool option"
  pm_pressed :: nat
  pm_outside :: nat
  pm_changes :: nat
  pm_raced :: bool
  pm_disordered :: bool

definition pause_start :: "bool \<Rightarrow> pause_machine" where
  "pause_start p = \<lparr>pm_paused = p, pm_preview = p, pm_pending = 0, pm_queue = 0, pm_worker = PauseWaiting,
     pm_channel = [], pm_dropped = 0, pm_calls = [], pm_coordinator = None, pm_applied = p,
     pm_tray_last = None, pm_tray_store = None,
     pm_pressed = 0, pm_outside = 0, pm_changes = 0, pm_raced = False, pm_disordered = False\<rparr>"

fun worker_notice :: "pause_worker \<Rightarrow> bool list" where
  "worker_notice (PauseReconcile b True) = [b]"
| "worker_notice (PauseNotify b) = [b]"
| "worker_notice _ = []"

fun reconciling :: "pause_worker \<Rightarrow> bool" where
  "reconciling (PauseReconcile _ _) = True"
| "reconciling _ = False"

definition notices :: "pause_machine \<Rightarrow> bool list" where
  "notices s = worker_notice (pm_worker s) @ pm_calls s"

section \<open>Operations\<close>

definition push_pause_icon_preview :: "pause_machine \<Rightarrow> pause_machine" where
  "push_pause_icon_preview s = s\<lparr>pm_preview := \<not> pm_preview s, pm_pending := pm_pending s + 1,
     pm_pressed := pm_pressed s + 1\<rparr>"

definition push_pause_press :: "pause_machine \<Rightarrow> pause_machine" where
  "push_pause_press s = s\<lparr>pm_pending := pm_pending s - 1, pm_queue := pm_queue s + 1\<rparr>"

definition sync_pause_icon_preview :: "bool \<Rightarrow> pause_machine \<Rightarrow> pause_machine" where
  "sync_pause_icon_preview committed s = s\<lparr>pm_preview := committed\<rparr>"

text \<open>The channel is bounded and \<open>try_send\<close> does not wait: on a full channel the notice is logged and lost.\<close>

definition notify_pause_transition :: "bool \<Rightarrow> pause_machine \<Rightarrow> pause_machine" where
  "notify_pause_transition now_paused s =
     (if List.length (pm_channel s) < pause_channel_capacity
      then s\<lparr>pm_channel := pm_channel s @ [now_paused]\<rparr>
      else s\<lparr>pm_dropped := pm_dropped s + 1\<rparr>)"

definition flip_paused :: "pause_machine \<Rightarrow> pause_machine" where
  "flip_paused s = s\<lparr>pm_paused := \<not> pm_paused s, pm_worker := PauseReconcile (\<not> pm_paused s) True,
     pm_disordered := pm_disordered s \<or> pm_calls s \<noteq> []\<rparr>"

text \<open>Another thread writes the flag; \<open>announced\<close> says whether it will also send a notice.\<close>

definition store_paused :: "bool \<Rightarrow> bool \<Rightarrow> pause_machine \<Rightarrow> pause_machine" where
  "store_paused announced b s =
     (let changed = (b \<noteq> pm_paused s) in
      s\<lparr>pm_paused := b,
        pm_calls := (if announced then b # pm_calls s else pm_calls s),
        pm_outside := pm_outside s + 1,
        pm_changes := (if changed then pm_changes s + 1 else pm_changes s),
        pm_raced := pm_raced s \<or> changed \<and> (reconciling (pm_worker s) \<or> pm_tray_last s = Some b),
        pm_disordered := pm_disordered s \<or> changed \<and> (\<not> announced \<or> notices s \<noteq> [])\<rparr>)"

text \<open>The remote calls swap the flag and announce only a change; the fallbacks of the tray and the end
  of its snooze store the flag and always announce it; the end of a snooze on Linux stores the flag and
  relies on the remote call that follows, which then finds nothing to change.\<close>

definition rpc_pause :: "pause_machine \<Rightarrow> pause_machine" where
  "rpc_pause s = (let was_paused = pm_paused s in store_paused (\<not> was_paused) True s)"

definition rpc_resume :: "pause_machine \<Rightarrow> pause_machine" where
  "rpc_resume s = (let was_paused = pm_paused s in store_paused was_paused False s)"

definition tray_fallback :: "bool \<Rightarrow> pause_machine \<Rightarrow> pause_machine" where
  "tray_fallback b s = store_paused True b s"

definition linux_snooze_expiry :: "pause_machine \<Rightarrow> pause_machine" where
  "linux_snooze_expiry s = store_paused False False s"

definition tray_look :: "pause_machine \<Rightarrow> pause_machine" where
  "tray_look s =
     (if pm_tray_last s \<noteq> Some (pm_paused s)
      then s\<lparr>pm_tray_last := Some (pm_paused s), pm_tray_store := Some (pm_paused s)\<rparr>
      else s)"

text \<open>The coordinator takes the notices that are there and applies the last one.\<close>

definition take_notice :: "pause_machine \<Rightarrow> pause_machine" where
  "take_notice s =
     (case pm_channel s of [] \<Rightarrow> s | b # bs \<Rightarrow> s\<lparr>pm_coordinator := Some b, pm_channel := bs\<rparr>)"

definition apply_notice :: "pause_machine \<Rightarrow> pause_machine" where
  "apply_notice s =
     (case pm_coordinator s of
        None \<Rightarrow> s | Some latest \<Rightarrow> s\<lparr>pm_coordinator := None, pm_applied := latest\<rparr>)"

section \<open>Steps\<close>

inductive pause_step :: "pause_machine \<Rightarrow> pause_machine \<Rightarrow> bool" where
  press_flip: "pause_step s (push_pause_icon_preview s)"
| press_queue: "0 < pm_pending s \<Longrightarrow> pause_step s (push_pause_press s)"
| first_token: "pm_worker s = PauseWaiting \<Longrightarrow> 0 < pm_queue s \<Longrightarrow>
    pause_step s (s\<lparr>pm_queue := pm_queue s - 1, pm_worker := PauseCounting 1\<rparr>)"
| next_token: "pm_worker s = PauseCounting n \<Longrightarrow> 0 < pm_queue s \<Longrightarrow>
    pause_step s (s\<lparr>pm_queue := pm_queue s - 1, pm_worker := PauseCounting (n + 1)\<rparr>)"
| quiet: "pm_worker s = PauseCounting n \<Longrightarrow> pm_queue s = 0 \<Longrightarrow>
    pause_step s (s\<lparr>pm_worker := PauseSettled n\<rparr>)"
| toggle: "pm_worker s = PauseSettled n \<Longrightarrow> burst_should_toggle n \<Longrightarrow> pause_step s (flip_paused s)"
| even_burst: "pm_worker s = PauseSettled n \<Longrightarrow> \<not> burst_should_toggle n \<Longrightarrow>
    pause_step s (s\<lparr>pm_worker := PauseReconcile (pm_paused s) False\<rparr>)"
| reconcile: "pm_worker s = PauseReconcile b toggled \<Longrightarrow>
    pause_step s ((sync_pause_icon_preview b s)\<lparr>pm_worker := if toggled then PauseNotify b else PauseWaiting\<rparr>)"
| notify: "pm_worker s = PauseNotify b \<Longrightarrow>
    pause_step s ((notify_pause_transition b s)\<lparr>pm_worker := PauseWaiting\<rparr>)"
| remote_pause: "pause_step s (rpc_pause s)"
| remote_resume: "pause_step s (rpc_resume s)"
| fallback: "pause_step s (tray_fallback b s)"
| linux_expiry: "pause_step s (linux_snooze_expiry s)"
| outside_notify: "b \<in> set (pm_calls s) \<Longrightarrow>
    pause_step s (notify_pause_transition b (s\<lparr>pm_calls := remove1 b (pm_calls s)\<rparr>))"
| tray_poll: "pm_tray_store s = None \<Longrightarrow> pause_step s (tray_look s)"
| tray_sync: "pm_tray_store s = Some b \<Longrightarrow> pause_step s ((sync_pause_icon_preview b s)\<lparr>pm_tray_store := None\<rparr>)"
| tray_restart: "pause_step s (s\<lparr>pm_tray_last := None, pm_tray_store := None\<rparr>)"
| coordinator_first: "pm_coordinator s = None \<Longrightarrow> pm_channel s = b # bs \<Longrightarrow> pause_step s (take_notice s)"
| coordinator_drain: "pm_coordinator s = Some latest \<Longrightarrow> pm_channel s = b # bs \<Longrightarrow> pause_step s (take_notice s)"
| coordinator_apply: "pm_coordinator s = Some latest \<Longrightarrow> pm_channel s = [] \<Longrightarrow> pause_step s (apply_notice s)"

inductive pause_reachable :: "bool \<Rightarrow> pause_machine \<Rightarrow> bool" for p where
  start: "pause_reachable p (pause_start p)"
| step: "pause_reachable p s \<Longrightarrow> pause_step s s' \<Longrightarrow> pause_reachable p s'"

text \<open>Every press has been counted and the counter waits; the tray has seen the flag; every notice has
  reached the coordinator.\<close>

definition presses_settled :: "pause_machine \<Rightarrow> bool" where
  "presses_settled s \<longleftrightarrow> pm_worker s = PauseWaiting \<and> pm_queue s = 0 \<and> pm_pending s = 0"

definition tray_caught_up :: "pause_machine \<Rightarrow> bool" where
  "tray_caught_up s \<longleftrightarrow> pm_tray_store s = None \<and> pm_tray_last s = Some (pm_paused s)"

definition notices_delivered :: "pause_machine \<Rightarrow> bool" where
  "notices_delivered s \<longleftrightarrow> pm_calls s = [] \<and> pm_channel s = [] \<and> pm_coordinator s = None"

section \<open>Invariants\<close>

fun worker_count :: "pause_worker \<Rightarrow> u64" where
  "worker_count (PauseCounting n) = n"
| "worker_count (PauseSettled n) = n"
| "worker_count _ = 0"

text \<open>The presses not yet applied, by parity.\<close>

definition unsettled :: "pause_machine \<Rightarrow> bool" where
  "unsettled s \<longleftrightarrow> odd (pm_pending s + pm_queue s) \<noteq> odd (worker_count (pm_worker s))"

definition parity_inv :: "bool \<Rightarrow> pause_machine \<Rightarrow> bool" where
  "parity_inv p s \<longleftrightarrow> (pm_paused s \<noteq> unsettled s) = (p \<noteq> odd (pm_pressed s + pm_changes s))"

definition preview_current :: "pause_machine \<Rightarrow> bool" where
  "preview_current s \<longleftrightarrow> pm_preview s = pm_paused s \<or> pm_tray_last s \<noteq> Some (pm_paused s) \<or>
     pm_tray_store s = Some (pm_paused s)"

definition preview_inv :: "pause_machine \<Rightarrow> bool" where
  "preview_inv s \<longleftrightarrow> (\<forall>b. pm_tray_store s = Some b \<longrightarrow> pm_tray_last s = Some b) \<and>
     (pm_raced s \<or>
      (case pm_worker s of
         PauseReconcile b toggled \<Rightarrow> b = pm_paused s
       | PauseWaiting \<Rightarrow> pm_queue s = 0 \<and> pm_pending s = 0 \<longrightarrow> preview_current s
       | PauseNotify b \<Rightarrow> pm_queue s = 0 \<and> pm_pending s = 0 \<longrightarrow> preview_current s
       | _ \<Rightarrow> True))"

definition delivered :: "pause_machine \<Rightarrow> bool list" where
  "delivered s = pm_applied s # (case pm_coordinator s of None \<Rightarrow> [] | Some b \<Rightarrow> [b]) @ pm_channel s"

definition notice_inv :: "pause_machine \<Rightarrow> bool" where
  "notice_inv s \<longleftrightarrow> pm_disordered s \<or> 0 < pm_dropped s \<or>
     set (notices s) \<subseteq> {pm_paused s} \<and> (notices s = [] \<longrightarrow> last (delivered s) = pm_paused s)"

definition alone_inv :: "pause_machine \<Rightarrow> bool" where
  "alone_inv s \<longleftrightarrow> (pm_outside s = 0 \<longrightarrow>
     pm_changes s = 0 \<and> pm_calls s = [] \<and> \<not> pm_raced s \<and> \<not> pm_disordered s)"

lemma burst_odd: "burst_should_toggle n \<longleftrightarrow> odd n"
  by (simp add: burst_should_toggle_def odd_iff_mod_2_eq_one)

lemmas outside_ops = rpc_pause_def rpc_resume_def tray_fallback_def linux_snooze_expiry_def store_paused_def Let_def
lemmas pause_ops = push_pause_icon_preview_def push_pause_press_def sync_pause_icon_preview_def
  notify_pause_transition_def flip_paused_def tray_look_def take_notice_def apply_notice_def outside_ops

lemma parity_inv_step: "pause_step s s' \<Longrightarrow> parity_inv p s \<Longrightarrow> parity_inv p s'"
  by (induction rule: pause_step.induct)
    (auto simp: parity_inv_def unsettled_def pause_ops burst_odd)

lemma preview_inv_step: "pause_step s s' \<Longrightarrow> preview_inv s \<Longrightarrow> preview_inv s'"
  by (induction rule: pause_step.induct)
    (auto simp: preview_inv_def preview_current_def pause_ops split: pause_worker.splits)

lemma notice_inv_step: "pause_step s s' \<Longrightarrow> notice_inv s \<Longrightarrow> notice_inv s'"
  by (induction rule: pause_step.induct)
    (auto simp: notice_inv_def notices_def delivered_def pause_ops split: option.splits
      dest!: subsetD [OF set_remove1_subset])

lemma alone_inv_step: "pause_step s s' \<Longrightarrow> alone_inv s \<Longrightarrow> alone_inv s'"
  by (induction rule: pause_step.induct) (auto simp: alone_inv_def pause_ops)

lemma pause_inv_reachable:
  "pause_reachable p s \<Longrightarrow> parity_inv p s \<and> preview_inv s \<and> notice_inv s \<and> alone_inv s"
proof (induction rule: pause_reachable.induct)
  case start
  show ?case
    by (simp add: parity_inv_def preview_inv_def preview_current_def notice_inv_def alone_inv_def
        pause_start_def unsettled_def notices_def delivered_def)
next
  case (step s s')
  then show ?case using parity_inv_step preview_inv_step notice_inv_step alone_inv_step by blast
qed

section \<open>Concrete runs\<close>

text \<open>The rules used to build runs, with the states evaluated.\<close>

lemmas run_defs = pause_start_def pause_ops burst_should_toggle_def pause_channel_capacity_def notices_def

lemmas press_runs = pause_reachable.step [OF _ press_flip] pause_reachable.step [OF _ press_queue]
  pause_reachable.step [OF _ first_token] pause_reachable.step [OF _ quiet [where n = 1]]
  pause_reachable.step [OF _ toggle [where n = 1]]
  pause_reachable.step [OF _ reconcile [where b = True and toggled = True]]
  pause_reachable.step [OF _ notify [where b = True]]

lemmas tray_runs = pause_reachable.step [OF _ tray_poll] pause_reachable.step [OF _ tray_sync [where b = False]]
  pause_reachable.step [OF _ tray_sync [where b = True]]

lemmas coordinator_runs = pause_reachable.step [OF _ coordinator_first [where b = True and bs = "[]"]]
  pause_reachable.step [OF _ coordinator_apply [where latest = True]]

text \<open>The tray starts, one press is counted, the tray polls and the coordinator applies the notice.\<close>

lemma one_press:
  "pause_reachable False
    \<lparr>pm_paused = True, pm_preview = True, pm_pending = 0, pm_queue = 0, pm_worker = PauseWaiting,
     pm_channel = [], pm_dropped = 0, pm_calls = [], pm_coordinator = None, pm_applied = True,
     pm_tray_last = Some True, pm_tray_store = None,
     pm_pressed = 1, pm_outside = 0, pm_changes = 0, pm_raced = False, pm_disordered = False\<rparr>"
proof -
  note t1 = tray_runs(1) [OF pause_reachable.start [of False], unfolded run_defs, simplified]
  note t2 = tray_runs(2) [OF t1, unfolded run_defs, simplified]
  note s1 = press_runs(1) [OF t2, unfolded run_defs, simplified]
  note s2 = press_runs(2) [OF s1, unfolded run_defs, simplified]
  note s3 = press_runs(3) [OF s2, simplified]
  note s4 = press_runs(4) [OF s3, simplified]
  note s5 = press_runs(5) [OF s4, unfolded run_defs, simplified]
  note s6 = press_runs(6) [OF s5, unfolded run_defs, simplified]
  note s7 = press_runs(7) [OF s6, unfolded run_defs, simplified]
  note u1 = tray_runs(1) [OF s7, unfolded run_defs, simplified]
  note u2 = tray_runs(3) [OF u1, unfolded run_defs, simplified]
  note c1 = coordinator_runs(1) [OF u2, unfolded run_defs, simplified]
  note c2 = coordinator_runs(2) [OF c1, unfolded run_defs, simplified]
  show ?thesis using c2 by simp
qed

text \<open>When a snooze ends on Linux, the flag is stored before the remote call, which then finds it
  already false and announces nothing: the coordinator keeps the subsystems suspended.\<close>

lemma linux_snooze_ends_unannounced:
  "\<exists>s. pause_reachable False s \<and> presses_settled s \<and> tray_caught_up s \<and> notices_delivered s \<and>
     \<not> pm_paused s \<and> pm_applied s \<and> pm_dropped s = 0"
proof -
  note r1 = pause_reachable.step [OF pause_reachable.start [of False] remote_pause, unfolded run_defs, simplified]
  note r2 = pause_reachable.step [OF r1 outside_notify [of True], unfolded run_defs, simplified]
  note r3 = coordinator_runs(1) [OF r2, unfolded run_defs, simplified]
  note r4 = coordinator_runs(2) [OF r3, unfolded run_defs, simplified]
  note e1 = pause_reachable.step [OF r4 linux_expiry, unfolded run_defs, simplified]
  note e2 = pause_reachable.step [OF e1 remote_resume, unfolded run_defs, simplified]
  note t1 = tray_runs(1) [OF e2, unfolded run_defs, simplified]
  note t2 = tray_runs(2) [OF t1, unfolded run_defs, simplified]
  show ?thesis
    using t2 by (fastforce simp: presses_settled_def tray_caught_up_def notices_delivered_def)
qed

text \<open>A remote call between the counter's change of the flag and its reconciliation of the preview, in
  the time between two polls of the tray: the icon shows the overwritten state and nothing corrects it.\<close>

lemma late_reconciliation_misleads_icon:
  "\<exists>s. pause_reachable False s \<and> presses_settled s \<and> tray_caught_up s \<and> \<not> pm_paused s \<and> pm_preview s"
proof -
  note t1 = tray_runs(1) [OF pause_reachable.start [of False], unfolded run_defs, simplified]
  note t2 = tray_runs(2) [OF t1, unfolded run_defs, simplified]
  note s1 = press_runs(1) [OF t2, unfolded run_defs, simplified]
  note s2 = press_runs(2) [OF s1, unfolded run_defs, simplified]
  note s3 = press_runs(3) [OF s2, simplified]
  note s4 = press_runs(4) [OF s3, simplified]
  note s5 = press_runs(5) [OF s4, unfolded run_defs, simplified]
  note r1 = pause_reachable.step [OF s5 remote_resume, unfolded run_defs, simplified]
  note s6 = press_runs(6) [OF r1, unfolded run_defs, simplified]
  note s7 = press_runs(7) [OF s6, unfolded run_defs, simplified]
  show ?thesis
    using s7 by (fastforce simp: presses_settled_def tray_caught_up_def)
qed

section \<open>Properties\<close>

text \<open>C11: Whatever the timing of the presses of the pause chord, whatever bursts they fall into and
  however they interleave with the counter, with remote calls, with the tray's fallbacks, snooze timers
  and polls and with the coordinator: once every press has been counted and the counter waits again,
  the program is paused exactly if the start state, flipped as often as there were presses and changes
  by others together, says so.  The icon preview shows the flag once the tray has caught up, if
  nobody else changed the flag between the counter's change and its reconciliation of the preview, or
  back to what the tray last saw before the tray looked again.  The subsystems are suspended exactly if
  the program is paused, once all notices are delivered, if every change was announced, none before the
  notice of an earlier change was sent, and no notice was lost to a full channel.  When only the pause
  chord is used, the conditions on the order hold; losing a notice to a full channel stays possible.\<close>

theorem settled_presses_toggle_by_parity:
  assumes "pause_reachable p s" and "presses_settled s"
  shows "pm_paused s = (p \<noteq> odd (pm_pressed s + pm_changes s)) \<and>
    (\<not> pm_raced s \<and> tray_caught_up s \<longrightarrow> pm_preview s = pm_paused s) \<and>
    (\<not> pm_disordered s \<and> pm_dropped s = 0 \<and> notices_delivered s \<longrightarrow> pm_applied s = pm_paused s) \<and>
    (pm_outside s = 0 \<longrightarrow> pm_changes s = 0 \<and> \<not> pm_raced s \<and> \<not> pm_disordered s)"
proof -
  note inv = pause_inv_reachable [OF assms(1)]
  note settled = assms(2) [unfolded presses_settled_def]
  have "\<not> unsettled s" and "worker_notice (pm_worker s) = []"
    using settled by (simp_all add: unsettled_def)
  then show ?thesis
    using inv settled
    by (auto simp: parity_inv_def preview_inv_def preview_current_def notice_inv_def alone_inv_def
        tray_caught_up_def notices_delivered_def notices_def delivered_def)
qed

theorem settled_presses_toggle_by_parity_witness:
  "\<exists>s. pause_reachable False s \<and> presses_settled s \<and> tray_caught_up s \<and> notices_delivered s \<and>
     pm_paused s \<and> pm_preview s \<and> pm_applied s"
  using settled_presses_toggle_by_parity [OF one_press] one_press
  by (fastforce simp: presses_settled_def tray_caught_up_def notices_delivered_def)

end
