(* ===== verification/Html.thy ===== *)
theory Html
  imports Prelude
begin

text \<open>
  Rich text, \<open>core/src/utils/html.rs\<close>: when a text counts as HTML, and the plain text that stands
  for it on a clipboard without HTML.  The regular expression \<open></?[a-zA-Z!]\<close> is written out.
\<close>

section \<open>Detection\<close>

definition tag_start :: "char \<Rightarrow> bool" where
  "tag_start c \<longleftrightarrow> is_ascii_lowercase c \<or> is_ascii_uppercase c \<or> c = CHR ''!''"

definition opens_tag :: "string \<Rightarrow> bool" where
  "opens_tag s =
     (case s of
        [] \<Rightarrow> False
      | c # rest \<Rightarrow>
          (if c = CHR ''/'' then rest \<noteq> [] \<and> tag_start (hd rest) else tag_start c))"

fun has_html_tags :: "string \<Rightarrow> bool" where
  "has_html_tags [] = False"
| "has_html_tags (c # s) = (c = CHR ''<'' \<and> opens_tag s \<or> has_html_tags s)"

section \<open>Stripping\<close>

fun strip_tags :: "string \<Rightarrow> bool \<Rightarrow> string \<Rightarrow> string \<Rightarrow> string" where
  "strip_tags plain in_tag tag_name [] = plain"
| "strip_tags plain in_tag tag_name (c # s) =
     (if c = CHR ''<'' then strip_tags plain True [] s
      else if c = CHR ''>'' then
        (let tag_lower = str_to_lowercase tag_name in
         strip_tags
           (if tag_lower = ''br'' \<or> tag_lower = ''br/'' \<or> tag_lower = ''/p'' \<or> tag_lower = ''/div''
            then plain @ [CHR 0x0A] else plain) False tag_name s)
      else if in_tag then strip_tags plain in_tag (if is_whitespace c then tag_name else tag_name @ [c]) s
      else strip_tags (plain @ [c]) in_tag tag_name s)"

text \<open>\<open>str::replace\<close>: the occurrences are found from the left and do not overlap.\<close>

function replace_all :: "string \<Rightarrow> string \<Rightarrow> string \<Rightarrow> string" where
  "replace_all a b [] = []"
| "replace_all a b (c # s) =
     (if a \<noteq> [] \<and> prefix a (c # s) then b @ replace_all a b (drop (length a) (c # s))
      else c # replace_all a b s)"
  by pat_completeness auto
termination
  by (relation "measure (\<lambda>(a, b, s). length s)") (auto simp: Suc_le_eq)

definition decode_entities :: "string \<Rightarrow> string" where
  "decode_entities plain =
     replace_all ''&apos;'' [CHR 0x27]
       (replace_all ''&quot;'' [CHR 0x22]
         (replace_all ''&amp;'' ''&''
           (replace_all ''&gt;'' ''>''
             (replace_all ''&lt;'' ''<'' (replace_all ''&nbsp;'' '' '' plain)))))"

definition strip_html :: "string \<Rightarrow> string" where
  "strip_html html = decode_entities (strip_tags [] False [] html)"

section \<open>Facts\<close>

lemma replace_all_id: "a \<noteq> [] \<Longrightarrow> hd a \<notin> set s \<Longrightarrow> replace_all a b s = s"
proof (induction a b s rule: replace_all.induct)
  case (2 a b c s)
  then show ?case by (cases a) auto
qed simp

lemma decode_entities_id: "CHR ''&'' \<notin> set s \<Longrightarrow> decode_entities s = s"
  by (simp add: decode_entities_def replace_all_id)

lemma strip_tags_text:
  "CHR ''<'' \<notin> set s \<Longrightarrow> CHR ''>'' \<notin> set s \<Longrightarrow> strip_tags plain False tag s = plain @ s"
  by (induction s arbitrary: plain) auto

lemma strip_tags_name:
  "CHR ''<'' \<notin> set tag \<Longrightarrow> CHR ''>'' \<notin> set tag \<Longrightarrow>
   strip_tags plain True name (tag @ s) = strip_tags plain True (name @ filter (Not \<circ> is_whitespace) tag) s"
  by (induction tag arbitrary: name) auto

definition tag_break :: "string \<Rightarrow> string" where
  "tag_break name =
     (if str_to_lowercase name \<in> {''br'', ''br/'', ''/p'', ''/div''} then [CHR 0x0A] else [])"

lemma strip_tags_close:
  "strip_tags plain True name (CHR ''>'' # s) = strip_tags (plain @ tag_break name) False name s"
  by (simp add: tag_break_def Let_def)

text \<open>C41: Between two pieces of text without angle brackets or entities, a tag disappears, or becomes a line
  break if it is a \<open>br\<close>, a closing \<open>p\<close> or a closing \<open>div\<close>, whatever its case and the blanks in it.\<close>

theorem strip_html_removes_tags:
  assumes "set (before @ after) \<inter> {CHR ''<'', CHR ''>'', CHR ''&''} = {}"
    and "CHR ''<'' \<notin> set tag" and "CHR ''>'' \<notin> set tag"
  shows "strip_html (before @ CHR ''<'' # tag @ CHR ''>'' # after) =
    before @ (if str_to_lowercase (filter (Not \<circ> is_whitespace) tag) \<in> {''br'', ''br/'', ''/p'', ''/div''}
              then [CHR 0x0A] else []) @ after"
proof -
  have pre: "strip_tags plain False name (before @ s) = strip_tags (plain @ before) False name s"
    for plain name s
    using assms(1) by (induction before arbitrary: plain) auto
  have "strip_tags [] False [] (before @ CHR ''<'' # tag @ CHR ''>'' # after) =
      strip_tags before True [] (tag @ CHR ''>'' # after)"
    using pre [of "[]"] by simp
  also have "\<dots> = before @ tag_break (filter (Not \<circ> is_whitespace) tag) @ after"
    using assms by (simp add: strip_tags_name [OF assms(2,3)] strip_tags_close strip_tags_text del: strip_tags.simps)
  finally show ?thesis
    using assms(1) by (simp add: strip_html_def decode_entities_id tag_break_def)
qed

theorem strip_html_removes_tags_witness:
  "strip_html (''Dear'' @ CHR ''<'' # ''BR /'' @ CHR ''>'' # ''all'') = ''Dear'' @ [CHR 0x0A] @ ''all''"
proof -
  have "str_to_lowercase (filter (Not \<circ> is_whitespace) ''BR /'') = ''br/''" by code_simp
  then show ?thesis using strip_html_removes_tags [of "''Dear''" "''all''" "''BR /''"] by simp
qed

end
