(* ===== verification/Injector.thy ===== *)
theory Injector
  imports Gate Html Dispatch
begin

text \<open>
  Typing an expansion, \<open>daemon/src/injector/inject.rs\<close> and \<open>clipboard.rs\<close>: the clipboard is borrowed
  for a paste and given back, the steps are carried out in order, and a physical key press aborts.
  The machine behind it (clipboard, keyboard, mouse, scripts, clock, the generation counter that other
  threads move) is a state of any type with the operations of \<open>injector_ops\<close>, the traits
  \<open>ClipboardManager\<close> and \<open>Injector\<close> of \<open>daemon/src/platform/mod.rs\<close>.
\<close>

section \<open>The machine\<close>

datatype inj_error = InjectionAborted | VerifyFailed | ClipboardError string

record 'w injector_ops =
  io_linux :: bool
  io_has_display :: "'w \<Rightarrow> bool"
  io_type_string :: "(string \<Rightarrow> 'w \<Rightarrow> 'w) option"
  io_clipboard_manager :: "'w \<Rightarrow> bool \<times> 'w"
  io_get_text :: "'w \<Rightarrow> (string + string) \<times> 'w"
  io_set_text :: "string \<Rightarrow> 'w \<Rightarrow> (string + unit) \<times> 'w"
  io_set_html :: "string \<Rightarrow> string \<Rightarrow> 'w \<Rightarrow> (string + unit) \<times> 'w"
  io_set_image :: "string \<Rightarrow> 'w \<Rightarrow> (string + unit) \<times> 'w"
  io_write_temp_file :: "string \<Rightarrow> u8 list \<Rightarrow> 'w \<Rightarrow> (string + string) \<times> 'w"
  io_remove_file :: "string \<Rightarrow> 'w \<Rightarrow> 'w"
  io_generation :: "'w \<Rightarrow> u64 \<times> 'w"
  io_sleep :: "nat \<Rightarrow> 'w \<Rightarrow> 'w"
  io_wait_idle :: "nat \<Rightarrow> 'w \<Rightarrow> 'w"
  io_restore_delay :: nat
  io_pre_release :: "'w \<Rightarrow> 'w"
  io_paste :: "'w \<Rightarrow> 'w"
  io_key_alias :: "string \<Rightarrow> 'w \<Rightarrow> bool \<times> 'w"
  io_mouse_click :: "mouse_button \<Rightarrow> 'w \<Rightarrow> 'w"
  io_mouse_move :: "u16 \<Rightarrow> u16 \<Rightarrow> 'w \<Rightarrow> 'w"
  io_mouse_scroll :: "u32 \<Rightarrow> 'w \<Rightarrow> 'w"
  io_mouse_hold :: "mouse_button \<Rightarrow> bool \<Rightarrow> 'w \<Rightarrow> 'w"
  io_atomic_text :: "nat \<Rightarrow> string \<Rightarrow> nat \<Rightarrow> nat \<Rightarrow> 'w \<Rightarrow> bool \<times> 'w"
  io_atomic_backspaces :: "nat \<Rightarrow> 'w \<Rightarrow> 'w"
  io_atomic_undo :: "nat \<Rightarrow> string \<Rightarrow> 'w \<Rightarrow> 'w"
  io_run_script :: "script_metadata \<Rightarrow> 'w \<Rightarrow> (string + string) \<times> 'w"
  io_spawn_script :: "script_metadata \<Rightarrow> 'w \<Rightarrow> 'w"
  io_transform :: "string \<Rightarrow> string \<Rightarrow> string option"
  io_guard_begin :: "'w \<Rightarrow> 'w"
  io_guard_end :: "'w \<Rightarrow> 'w"

definition aborted_now :: "'w injector_ops \<Rightarrow> u64 \<Rightarrow> 'w \<Rightarrow> bool \<times> 'w" where
  "aborted_now ops captured w = (let (g, w1) = io_generation ops w in (is_aborted captured g, w1))"

section \<open>The clipboard\<close>

text \<open>The pauses before the attempts: five without one, twenty of 2 ms, fifteen of 10 ms.\<close>

definition poll_pauses :: "nat option list" where
  "poll_pauses = replicate 5 None @ replicate 20 (Some 2) @ replicate 15 (Some 10)"

fun poll_loop ::
  "'w injector_ops \<Rightarrow> u64 \<Rightarrow> ('w \<Rightarrow> bool \<times> 'w) \<Rightarrow> nat option list \<Rightarrow> 'w \<Rightarrow> (inj_error + bool) \<times> 'w" where
  "poll_loop ops captured check [] w = (Inr False, w)"
| "poll_loop ops captured check (pause # pauses) w =
     (let w1 = (case pause of None \<Rightarrow> w | Some ms \<Rightarrow> io_sleep ops ms w);
          (stop, w2) = (if captured \<noteq> 0 then aborted_now ops captured w1 else (False, w1))
      in if stop then (Inl InjectionAborted, w2)
         else let (ok, w3) = check w2
              in if ok then (Inr True, w3) else poll_loop ops captured check pauses w3)"

definition poll_clipboard_progressive ::
  "'w injector_ops \<Rightarrow> u64 \<Rightarrow> ('w \<Rightarrow> bool \<times> 'w) \<Rightarrow> 'w \<Rightarrow> (inj_error + bool) \<times> 'w" where
  "poll_clipboard_progressive ops captured check w = poll_loop ops captured check poll_pauses w"

definition text_is :: "'w injector_ops \<Rightarrow> string \<Rightarrow> 'w \<Rightarrow> bool \<times> 'w" where
  "text_is ops expected w =
     (case io_get_text ops w of (Inr t, w1) \<Rightarrow> (t = expected, w1) | (Inl _, w1) \<Rightarrow> (False, w1))"

fun verify_loop :: "'w injector_ops \<Rightarrow> string \<Rightarrow> nat \<Rightarrow> 'w \<Rightarrow> bool \<times> 'w" where
  "verify_loop ops expected 0 w = (False, w)"
| "verify_loop ops expected (Suc n) w =
     (let (ok, w1) = text_is ops expected w in if ok then (True, w1) else verify_loop ops expected n w1)"

definition verify_clipboard_equals :: "'w injector_ops \<Rightarrow> string \<Rightarrow> 'w \<Rightarrow> bool \<times> 'w" where
  "verify_clipboard_equals ops expected w = verify_loop ops expected 5 w"

text \<open>Writing a payload: rich text if it has tags.  The result is the text the clipboard should hold.\<close>

definition set_payload :: "'w injector_ops \<Rightarrow> string \<Rightarrow> 'w \<Rightarrow> (string + string) \<times> 'w" where
  "set_payload ops payload w =
     (if has_html_tags payload
      then (case io_set_html ops payload (strip_html payload) w of
              (Inl e, w1) \<Rightarrow> (Inl e, w1) | (Inr _, w1) \<Rightarrow> (Inr (strip_html payload), w1))
      else (case io_set_text ops payload w of
              (Inl e, w1) \<Rightarrow> (Inl e, w1) | (Inr _, w1) \<Rightarrow> (Inr payload, w1)))"

definition prepare_clipboard_for_expansion ::
  "'w injector_ops \<Rightarrow> string \<Rightarrow> u64 \<Rightarrow> 'w \<Rightarrow> (inj_error + string) \<times> 'w" where
  "prepare_clipboard_for_expansion ops payload captured w =
     (case io_get_text ops w of
        (Inl e, w1) \<Rightarrow> (Inl (ClipboardError e), w1)
      | (Inr saved, w1) \<Rightarrow>
          (case set_payload ops payload w1 of
             (Inl e, w2) \<Rightarrow> (Inl (ClipboardError e), w2)
           | (Inr expected, w2) \<Rightarrow>
               (case poll_clipboard_progressive ops captured (text_is ops expected) w2 of
                  (Inl e, w3) \<Rightarrow> (Inl e, w3)
                | (Inr ok, w3) \<Rightarrow> (if ok then Inr saved else Inl VerifyFailed, w3))))"

definition try_set_text :: "'w injector_ops \<Rightarrow> string \<Rightarrow> 'w \<Rightarrow> bool \<times> 'w" where
  "try_set_text ops t w = (case io_set_text ops t w of (Inr _, w1) \<Rightarrow> (True, w1) | (Inl _, w1) \<Rightarrow> (False, w1))"

definition changed_externally :: "'w injector_ops \<Rightarrow> string option \<Rightarrow> 'w \<Rightarrow> bool \<times> 'w" where
  "changed_externally ops expected_payload w =
     (case expected_payload of
        None \<Rightarrow> (False, w)
      | Some expected \<Rightarrow>
          if expected = [] then (False, w)
          else case io_get_text ops w of
            (Inl _, w1) \<Rightarrow> (False, w1)
          | (Inr t, w1) \<Rightarrow> (t \<noteq> [] \<and> t \<noteq> expected, w1))"

definition restore_clipboard_guarded ::
  "'w injector_ops \<Rightarrow> string option \<Rightarrow> string \<Rightarrow> u64 \<Rightarrow> 'w \<Rightarrow> 'w" where
  "restore_clipboard_guarded ops expected_payload saved captured w =
     (let (found, w1) = io_clipboard_manager ops w in
      if \<not> found then w1
      else
        (let (changed, w2) = changed_externally ops expected_payload w1 in
         if changed then w2
         else case poll_clipboard_progressive ops captured (try_set_text ops saved) w2 of
             (Inl _, w3) \<Rightarrow> w3
           | (Inr _, w3) \<Rightarrow>
               (case poll_clipboard_progressive ops captured (text_is ops saved) w3 of
                  (Inr True, w4) \<Rightarrow> w4
                | (_, w4) \<Rightarrow> if captured = 0 then w4 else snd (aborted_now ops captured w4))))"

definition restore_clipboard :: "'w injector_ops \<Rightarrow> string \<Rightarrow> u64 \<Rightarrow> 'w \<Rightarrow> 'w" where
  "restore_clipboard ops saved captured w = restore_clipboard_guarded ops None saved captured w"

section \<open>One piece of text\<close>

record text_segment_injection =
  ts_saved_clipboard :: "string option"
  ts_injected_chars :: nat
  ts_success :: bool

definition no_injection :: text_segment_injection where
  "no_injection = \<lparr>ts_saved_clipboard = None, ts_injected_chars = 0, ts_success = False\<rparr>"

definition linux_direct_typing ::
  "'w injector_ops \<Rightarrow> string \<Rightarrow> string option \<Rightarrow> nat \<Rightarrow> 'w \<Rightarrow> text_segment_injection \<times> 'w" where
  "linux_direct_typing ops t saved injected_chars w =
     (case io_type_string ops of
        Some type \<Rightarrow>
          (\<lparr>ts_saved_clipboard = saved, ts_injected_chars = injected_chars, ts_success = True\<rparr>, type t w)
      | None \<Rightarrow> (\<lparr>ts_saved_clipboard = saved, ts_injected_chars = 0, ts_success = False\<rparr>, w))"

function abortable_sleep :: "'w injector_ops \<Rightarrow> nat \<Rightarrow> u64 \<Rightarrow> 'w \<Rightarrow> 'w" where
  "abortable_sleep ops remaining captured w =
     (if remaining = 0 then w
      else let (stop, w1) = aborted_now ops captured w
           in if stop then w1
              else abortable_sleep ops (remaining - min remaining 10) captured
                     (io_sleep ops (min remaining 10) w1))"
  by pat_completeness auto
termination
  by (relation "measure (\<lambda>(ops, remaining, captured, w). remaining)") auto

declare abortable_sleep.simps [simp del]

definition post_paste_wait :: "'w injector_ops \<Rightarrow> u64 \<Rightarrow> 'w \<Rightarrow> 'w" where
  "post_paste_wait ops captured w =
     (let w1 = io_wait_idle ops (io_restore_delay ops) w in
      if captured \<noteq> 0 then abortable_sleep ops (io_restore_delay ops) captured w1
      else io_sleep ops (io_restore_delay ops) w1)"

definition inject_text_segment_with_gen ::
  "'w injector_ops \<Rightarrow> string \<Rightarrow> string option \<Rightarrow> u64 \<Rightarrow> 'w \<Rightarrow> text_segment_injection \<times> 'w" where
  "inject_text_segment_with_gen ops t saved captured w =
     (if io_linux ops \<and> \<not> io_has_display ops w then linux_direct_typing ops t saved (length t) w
      else
        (let (found, w1) = io_clipboard_manager ops w in
         if \<not> found then
           (if io_linux ops then linux_direct_typing ops t saved (length t) w1 else (no_injection, w1))
         else case saved of
           None \<Rightarrow>
             (let w2 = io_pre_release ops w1 in
              case prepare_clipboard_for_expansion ops t captured w2 of
                (Inr orig, w3) \<Rightarrow>
                  (\<lparr>ts_saved_clipboard = Some orig, ts_injected_chars = length t, ts_success = True\<rparr>,
                   post_paste_wait ops captured (io_paste ops w3))
              | (Inl _, w3) \<Rightarrow>
                  (if io_linux ops then linux_direct_typing ops t saved (length t) w3 else (no_injection, w3)))
         | Some _ \<Rightarrow>
             (case set_payload ops t w1 of
                (Inl _, w2) \<Rightarrow> (\<lparr>ts_saved_clipboard = saved, ts_injected_chars = 0, ts_success = False\<rparr>, w2)
              | (Inr expected, w2) \<Rightarrow>
                  (let (_, w3) = verify_clipboard_equals ops expected w2 in
                   (\<lparr>ts_saved_clipboard = saved, ts_injected_chars = length t, ts_success = True\<rparr>,
                    post_paste_wait ops captured (io_paste ops w3))))))"

definition inject_text_segment ::
  "'w injector_ops \<Rightarrow> string \<Rightarrow> string option \<Rightarrow> 'w \<Rightarrow> text_segment_injection \<times> 'w" where
  "inject_text_segment ops t saved w = inject_text_segment_with_gen ops t saved 0 w"

definition image_extension :: "string \<Rightarrow> string" where
  "image_extension mime_type =
     (if mime_type = ''image/png'' then ''png''
      else if mime_type = ''image/jpeg'' then ''jpg''
      else if mime_type = ''image/gif'' then ''gif''
      else if mime_type = ''image/bmp'' then ''bmp''
      else ''png'')"

definition inject_image_segment_with_gen ::
  "'w injector_ops \<Rightarrow> u8 list \<Rightarrow> string \<Rightarrow> string option \<Rightarrow> u64 \<Rightarrow> 'w \<Rightarrow> text_segment_injection \<times> 'w" where
  "inject_image_segment_with_gen ops bytes mime_type saved captured w =
     (let (found, w1) = io_clipboard_manager ops w in
      if \<not> found then (no_injection, w1)
      else
        (let (orig, w2) =
           (case saved of
              Some orig \<Rightarrow> (orig, w1)
            | None \<Rightarrow> (case io_get_text ops w1 of (Inr t, w') \<Rightarrow> (t, w') | (Inl _, w') \<Rightarrow> ([], w')));
           failed = \<lparr>ts_saved_clipboard = Some orig, ts_injected_chars = 0, ts_success = False\<rparr>
         in case io_write_temp_file ops (image_extension mime_type) bytes w2 of
             (Inl _, w3) \<Rightarrow> (failed, w3)
           | (Inr temp_path, w3) \<Rightarrow>
               (case io_set_image ops temp_path w3 of
                  (Inl _, w4) \<Rightarrow> (failed, io_remove_file ops temp_path w4)
                | (Inr _, w4) \<Rightarrow>
                    (\<lparr>ts_saved_clipboard = Some orig, ts_injected_chars = 1, ts_success = True\<rparr>,
                     post_paste_wait ops captured (io_paste ops (io_sleep ops 50 w4))))))"

section \<open>Mouse clicks and delays\<close>

partial_function (option) click_until_aborted ::
  "'w injector_ops \<Rightarrow> mouse_button \<Rightarrow> u64 \<Rightarrow> 'w \<Rightarrow> 'w option" where
  "click_until_aborted ops button captured w =
     (let (stop, w1) = aborted_now ops captured w
      in if stop then Some w1 else click_until_aborted ops button captured (io_mouse_click ops button w1))"

fun click_times ::
  "'w injector_ops \<Rightarrow> mouse_button \<Rightarrow> nat \<Rightarrow> u64 \<Rightarrow> injection_report \<Rightarrow> 'w \<Rightarrow> injection_report \<times> 'w" where
  "click_times ops button 0 captured report w = (report, w)"
| "click_times ops button (Suc n) captured report w =
     (let (stop, w1) = aborted_now ops captured w
      in if stop then (report\<lparr>ir_completed := False\<rparr>, w1)
         else click_times ops button n captured report (io_mouse_click ops button w1))"

definition inject_mouse_click_loop ::
  "'w injector_ops \<Rightarrow> mouse_button \<Rightarrow> u32 \<Rightarrow> u64 \<Rightarrow> injection_report \<Rightarrow> 'w \<Rightarrow> (injection_report \<times> 'w) option" where
  "inject_mouse_click_loop ops button count captured report w =
     (if count = 0
      then map_option (Pair (report\<lparr>ir_completed := False\<rparr>)) (click_until_aborted ops button captured w)
      else Some (click_times ops button (unat count) captured report w))"

function delay_loop ::
  "'w injector_ops \<Rightarrow> nat \<Rightarrow> u64 \<Rightarrow> injection_report \<Rightarrow> 'w \<Rightarrow> injection_report \<times> 'w" where
  "delay_loop ops remaining captured report w =
     (if remaining = 0 then (report, w)
      else let (stop, w1) = aborted_now ops captured w
           in if stop then (report\<lparr>ir_completed := False\<rparr>, w1)
              else delay_loop ops (remaining - min remaining 50) captured report
                     (io_sleep ops (min remaining 50) w1))"
  by pat_completeness auto
termination
  by (relation "measure (\<lambda>(ops, remaining, captured, report, w). remaining)") auto

declare delay_loop.simps [simp del]

section \<open>The steps\<close>

definition step_requires_keystrokes :: "expansion_step \<Rightarrow> bool" where
  "step_requires_keystrokes step =
     (case step of
        TextStep t \<Rightarrow> t \<noteq> []
      | ScriptStep md \<Rightarrow> sm_behavior md = Inline
      | InlineRun md trs \<Rightarrow> sm_behavior md = Inline
      | DelayStep ms \<Rightarrow> False
      | _ \<Rightarrow> True)"

definition expansion_requires_keystrokes :: "expansion_step list \<Rightarrow> nat \<Rightarrow> bool" where
  "expansion_requires_keystrokes steps delete_count =
     (if 0 < delete_count then True else list_ex step_requires_keystrokes steps)"

fun nav_loop :: "nat \<Rightarrow> nat \<Rightarrow> expansion_step list \<Rightarrow> (nat \<times> nat) option" where
  "nav_loop left_nav right_nav [] = Some (left_nav, right_nav)"
| "nav_loop left_nav right_nav (step # steps) =
     (case step of
        KeyPressStep k \<Rightarrow>
          (if str_to_ascii_lowercase k = ''left'' then nav_loop (left_nav + 1) right_nav steps
           else if str_to_ascii_lowercase k = ''right'' then nav_loop left_nav (right_nav + 1) steps
           else None)
      | _ \<Rightarrow> None)"

definition extract_nav_steps :: "expansion_step list \<Rightarrow> (nat \<times> nat) option" where
  "extract_nav_steps steps = nav_loop 0 0 steps"

definition small_type_limit :: nat where
  "small_type_limit = 32"

definition inter_step_delay_ms :: "'w injector_ops \<Rightarrow> nat" where
  "inter_step_delay_ms ops = (if io_linux ops then 15 else 10)"

record injection_state =
  is_saved_clipboard :: "string option"
  is_last_payload :: "string option"
  is_report :: injection_report

definition add_chars :: "injection_report \<Rightarrow> nat \<Rightarrow> injection_report" where
  "add_chars report n = report\<lparr>ir_successful_chars := min usize_max (ir_successful_chars report + n)\<rparr>"

text \<open>
  What every piece of text or image does to the state: the characters are counted, the clipboard saved
  by the first piece is kept, and a failure clears \<open>completed\<close>.  The flag says to stop: nothing could
  be saved.
\<close>

definition note_segment :: "injection_state \<Rightarrow> text_segment_injection \<Rightarrow> injection_state \<times> bool" where
  "note_segment s piece =
     (let saved = or_else (is_saved_clipboard s) (ts_saved_clipboard piece);
          report = add_chars (is_report s) (ts_injected_chars piece)
      in (s\<lparr>is_saved_clipboard := saved,
            is_report := if ts_success piece then report else report\<lparr>ir_completed := False\<rparr>\<rparr>,
          \<not> ts_success piece \<and> saved = None))"

text \<open>The output of a script is typed without a generation, and nothing stops after it.\<close>

definition inject_output ::
  "'w injector_ops \<Rightarrow> (string + string) \<Rightarrow> injection_state \<Rightarrow> 'w \<Rightarrow> injection_state \<times> 'w" where
  "inject_output ops script_result s w =
     (case script_result of
        Inl _ \<Rightarrow> (s\<lparr>is_report := (is_report s)\<lparr>ir_completed := False\<rparr>\<rparr>, w)
      | Inr out \<Rightarrow>
          if out = [] then (s, w)
          else (let (piece, w1) = inject_text_segment ops out (is_saved_clipboard s) w
                in (fst (note_segment (s\<lparr>is_last_payload := Some out\<rparr>) piece), w1)))"

definition transform_output :: "'w injector_ops \<Rightarrow> string list \<Rightarrow> (string + string) \<Rightarrow> (string + string)" where
  "transform_output ops trs result =
     (case result of
        Inl e \<Rightarrow> Inl e
      | Inr out \<Rightarrow> Inr (foldl (\<lambda>out tr. case io_transform ops tr out of Some t \<Rightarrow> t | None \<Rightarrow> out) out trs))"

text \<open>One step: the new state, whether to stop, and the machine.\<close>

definition inject_step ::
  "'w injector_ops \<Rightarrow> u64 \<Rightarrow> expansion_step \<Rightarrow> injection_state \<Rightarrow> 'w \<Rightarrow> (injection_state \<times> bool \<times> 'w) option" where
  "inject_step ops captured step s w =
     (case step of
        TextStep t \<Rightarrow>
          (let (piece, w1) = inject_text_segment_with_gen ops t (is_saved_clipboard s) captured w;
               (s1, stop) = note_segment (s\<lparr>is_last_payload := Some t\<rparr>) piece
           in Some (s1, stop, w1))
      | ImageStep bytes mime_type \<Rightarrow>
          (let (piece, w1) = inject_image_segment_with_gen ops bytes mime_type (is_saved_clipboard s) captured w;
               (s1, stop) = note_segment (s\<lparr>is_last_payload := None\<rparr>) piece
           in Some (s1, stop, w1))
      | KeyPressStep k \<Rightarrow> Some (s, False, snd (io_key_alias ops k w))
      | MouseClick button count \<Rightarrow>
          map_option (\<lambda>(report, w1). (s\<lparr>is_report := report\<rparr>, False, w1))
            (inject_mouse_click_loop ops button count captured (is_report s) w)
      | MouseMove x y \<Rightarrow> Some (s, False, io_mouse_move ops x y w)
      | MouseScroll delta \<Rightarrow> Some (s, False, io_mouse_scroll ops delta w)
      | MouseDown button \<Rightarrow> Some (s, False, io_mouse_hold ops button True w)
      | MouseUp button \<Rightarrow> Some (s, False, io_mouse_hold ops button False w)
      | DelayStep ms \<Rightarrow>
          (let (report, w1) = delay_loop ops (unat ms) captured (is_report s) w
           in Some (s\<lparr>is_report := report\<rparr>, False, w1))
      | ScriptStep md \<Rightarrow>
          (case sm_behavior md of
             Inline \<Rightarrow> (let (result, w1) = io_run_script ops md w; (s1, w2) = inject_output ops result s w1
                        in Some (s1, False, w2))
           | Silent \<Rightarrow> Some (s, False, io_spawn_script ops md w))
      | InlineRun md trs \<Rightarrow>
          (case sm_behavior md of
             Inline \<Rightarrow> (let (result, w1) = io_run_script ops md w;
                            (s1, w2) = inject_output ops (transform_output ops trs result) s w1
                        in Some (s1, False, w2))
           | Silent \<Rightarrow> Some (s, False, io_spawn_script ops md w)))"

fun steps_loop ::
  "'w injector_ops \<Rightarrow> u64 \<Rightarrow> bool \<Rightarrow> expansion_step list \<Rightarrow> injection_state \<Rightarrow> 'w \<Rightarrow> (injection_state \<times> 'w) option" where
  "steps_loop ops captured first [] s w = Some (s, w)"
| "steps_loop ops captured first (step # steps) s w =
     (let (stop, w1) = aborted_now ops captured w
      in if stop then Some (s\<lparr>is_report := (is_report s)\<lparr>ir_completed := False\<rparr>\<rparr>, w1)
         else case inject_step ops captured step s
                (if first then w1 else io_sleep ops (inter_step_delay_ms ops) w1) of
             None \<Rightarrow> None
           | Some (s1, halt, w2) \<Rightarrow>
               if halt then Some (s1, w2) else steps_loop ops captured False steps s1 w2)"

definition types_directly :: "expansion_step list \<Rightarrow> bool \<Rightarrow> (string \<times> nat \<times> nat) option" where
  "types_directly steps force_paste =
     (case steps of
        TextStep t # rest \<Rightarrow>
          (if \<not> force_paste \<and> length t \<le> small_type_limit \<and> CHR 0x0A \<notin> set t \<and> CHR 0x0D \<notin> set t \<and>
              \<not> has_html_tags t
           then map_option (Pair t) (extract_nav_steps rest)
           else None)
      | _ \<Rightarrow> None)"

definition erase_trigger :: "'w injector_ops \<Rightarrow> nat \<Rightarrow> 'w \<Rightarrow> 'w" where
  "erase_trigger ops delete_count w = io_atomic_backspaces ops delete_count w"

definition linux_sleep :: "'w injector_ops \<Rightarrow> nat \<Rightarrow> 'w \<Rightarrow> 'w" where
  "linux_sleep ops ms w = (if io_linux ops then io_sleep ops ms w else w)"

text \<open>The part between the guards.\<close>

definition inject_guarded ::
  "'w injector_ops \<Rightarrow> expansion_step list \<Rightarrow> nat \<Rightarrow> bool \<Rightarrow> 'w \<Rightarrow> (injection_report \<times> 'w) option" where
  "inject_guarded ops steps delete_count force_paste w0 =
     (let requires_keys = expansion_requires_keystrokes steps delete_count;
          (captured, w1) = io_generation ops w0;
          w2 = (if requires_keys then io_pre_release ops w1 else w1)
      in case types_directly steps force_paste of
          Some (t, left_nav, right_nav) \<Rightarrow>
            (let (success, w3) = io_atomic_text ops delete_count t left_nav right_nav w2
             in Some (\<lparr>ir_successful_chars = if success then length t else 0, ir_completed = success\<rparr>, w3))
        | None \<Rightarrow>
            (let w3 = linux_sleep ops 20 (erase_trigger ops delete_count (linux_sleep ops 10 w2));
                 s0 = \<lparr>is_saved_clipboard = None, is_last_payload = None,
                       is_report = \<lparr>ir_successful_chars = 0, ir_completed = True\<rparr>\<rparr>
             in case steps_loop ops captured True steps s0 w3 of
                 None \<Rightarrow> None
               | Some (s, w4) \<Rightarrow>
                   (let w5 = (case is_saved_clipboard s of
                                None \<Rightarrow> w4
                              | Some saved \<Rightarrow> restore_clipboard_guarded ops (is_last_payload s) saved captured w4);
                        w6 = (if requires_keys then io_pre_release ops w5 else w5)
                    in Some (is_report s, w6))))"

definition inject_expansion_inner ::
  "'w injector_ops \<Rightarrow> expansion_step list \<Rightarrow> nat \<Rightarrow> bool \<Rightarrow> 'w \<Rightarrow> (injection_report \<times> 'w) option" where
  "inject_expansion_inner ops steps delete_count force_paste w =
     (if expansion_requires_keystrokes steps delete_count
      then map_option (map_prod id (io_guard_end ops))
             (inject_guarded ops steps delete_count force_paste (io_guard_begin ops w))
      else inject_guarded ops steps delete_count force_paste w)"

definition inject_expansion ::
  "'w injector_ops \<Rightarrow> expansion_step list \<Rightarrow> nat \<Rightarrow> 'w \<Rightarrow> (injection_report \<times> 'w) option" where
  "inject_expansion ops steps delete_count w = inject_expansion_inner ops steps delete_count False w"

definition inject_expansion_for_voice ::
  "'w injector_ops \<Rightarrow> expansion_step list \<Rightarrow> 'w \<Rightarrow> (injection_report \<times> 'w) option" where
  "inject_expansion_for_voice ops steps w = inject_expansion_inner ops steps 0 True w"

definition inject_undo :: "'w injector_ops \<Rightarrow> string \<Rightarrow> nat \<Rightarrow> 'w \<Rightarrow> 'w" where
  "inject_undo ops trigger_string output_length w =
     io_guard_end ops (io_pre_release ops (io_atomic_undo ops output_length trigger_string
       (io_pre_release ops (io_guard_begin ops w))))"

section \<open>Streaming\<close>

record streaming_session =
  ss_saved_clipboard :: "string option"
  ss_tracked_chars :: nat
  ss_captured_gen :: u64

definition streaming_begin :: "'w injector_ops \<Rightarrow> 'w \<Rightarrow> streaming_session \<times> 'w" where
  "streaming_begin ops w =
     (let (captured, w1) = io_generation ops (io_pre_release ops (io_guard_begin ops w))
      in (\<lparr>ss_saved_clipboard = None, ss_tracked_chars = 0, ss_captured_gen = captured\<rparr>, w1))"

definition push_text ::
  "'w injector_ops \<Rightarrow> streaming_session \<Rightarrow> string \<Rightarrow> bool \<Rightarrow> 'w \<Rightarrow> streaming_session \<times> bool \<times> 'w" where
  "push_text ops s t track_stats w =
     (let (skip, w1) = (if t = [] then (True, w) else aborted_now ops (ss_captured_gen s) w)
      in if skip
         then (let (stop, w2) = aborted_now ops (ss_captured_gen s) w1 in (s, \<not> stop, w2))
         else
           (let (piece, w2) = inject_text_segment_with_gen ops t (ss_saved_clipboard s) (ss_captured_gen s) w1;
                s1 = s\<lparr>ss_saved_clipboard := or_else (ss_saved_clipboard s) (ts_saved_clipboard piece),
                       ss_tracked_chars :=
                         if track_stats then min usize_max (ss_tracked_chars s + ts_injected_chars piece)
                         else ss_tracked_chars s\<rparr>;
                (stop, w3) = aborted_now ops (ss_captured_gen s) w2
            in (s1, \<not> stop, w3)))"

definition streaming_finish :: "'w injector_ops \<Rightarrow> streaming_session \<Rightarrow> 'w \<Rightarrow> nat \<times> 'w" where
  "streaming_finish ops s w =
     (let w1 = (case ss_saved_clipboard s of
                  None \<Rightarrow> w | Some saved \<Rightarrow> restore_clipboard ops saved (ss_captured_gen s) w)
      in (ss_tracked_chars s, io_guard_end ops (io_pre_release ops w1)))"

section \<open>What the machine promises\<close>

text \<open>
  The injector relies on the clipboard holding what was written to it and on a paste putting that text
  on the screen.  \<open>view\<close> is the text on the clipboard and \<open>screen\<close> what the application has received;
  nothing else touches either.  A quiet machine is one where no key is pressed meanwhile.
\<close>

datatype screen_event = Erased nat | Pasted string

definition keeps :: "('w \<Rightarrow> string) \<Rightarrow> ('w \<Rightarrow> screen_event list) \<Rightarrow> ('w \<Rightarrow> 'w) \<Rightarrow> bool" where
  "keeps view screen f \<longleftrightarrow> (\<forall>w. view (f w) = view w \<and> screen (f w) = screen w)"

locale clipboard_machine =
  fixes ops :: "'w injector_ops" and view :: "'w \<Rightarrow> string" and screen :: "'w \<Rightarrow> screen_event list"
  assumes display: "io_linux ops \<Longrightarrow> io_has_display ops w"
    and manager: "fst (io_clipboard_manager ops w)"
    and get_text: "fst (io_get_text ops w) = Inr (view w)"
    and set_text: "fst (io_set_text ops t w) = Inr ()" "view (snd (io_set_text ops t w)) = t"
      "screen (snd (io_set_text ops t w)) = screen w"
    and set_html: "fst (io_set_html ops t p w) = Inr ()" "view (snd (io_set_html ops t p w)) = p"
      "screen (snd (io_set_html ops t p w)) = screen w"
    and paste: "view (io_paste ops w) = view w" "screen (io_paste ops w) = screen w @ [Pasted (view w)]"
    and backspaces: "view (io_atomic_backspaces ops n w) = view w"
      "screen (io_atomic_backspaces ops n w) = screen w @ [Erased n]"
    and silent: "keeps view screen (snd \<circ> io_clipboard_manager ops)" "keeps view screen (snd \<circ> io_get_text ops)"
      "keeps view screen (snd \<circ> io_generation ops)" "keeps view screen (io_sleep ops ms)"
      "keeps view screen (io_wait_idle ops ms)" "keeps view screen (io_pre_release ops)"
      "keeps view screen (io_guard_begin ops)" "keeps view screen (io_guard_end ops)"

locale quiet_machine = clipboard_machine ops view screen
  for ops :: "'w injector_ops" and view :: "'w \<Rightarrow> string" and screen :: "'w \<Rightarrow> screen_event list" +
  fixes gen :: u64
  assumes quiet: "fst (io_generation ops w) = gen"

text \<open>The text a payload puts on the clipboard.\<close>

definition shown :: "string \<Rightarrow> string" where
  "shown t = (if has_html_tags t then strip_html t else t)"

context clipboard_machine begin

lemma silent_simps [simp]:
  "view (snd (io_clipboard_manager ops w)) = view w" "screen (snd (io_clipboard_manager ops w)) = screen w"
  "view (snd (io_get_text ops w)) = view w" "screen (snd (io_get_text ops w)) = screen w"
  "view (snd (io_generation ops w)) = view w" "screen (snd (io_generation ops w)) = screen w"
  "view (io_sleep ops ms w) = view w" "screen (io_sleep ops ms w) = screen w"
  "view (io_wait_idle ops ms w) = view w" "screen (io_wait_idle ops ms w) = screen w"
  "view (io_pre_release ops w) = view w" "screen (io_pre_release ops w) = screen w"
  "view (io_guard_begin ops w) = view w" "screen (io_guard_begin ops w) = screen w"
  "view (io_guard_end ops w) = view w" "screen (io_guard_end ops w) = screen w"
  using silent [unfolded keeps_def] by (simp_all add: comp_def)

lemma get_text_view: "\<exists>w'. io_get_text ops w = (Inr (view w), w') \<and> view w' = view w \<and> screen w' = screen w"
  using get_text [of w] silent_simps(3,4) [of w] by (metis prod.collapse)

lemma set_text_view: "\<exists>w'. io_set_text ops t w = (Inr (), w') \<and> view w' = t \<and> screen w' = screen w"
  using set_text [of t w] by (metis prod.collapse)

lemma text_is_view: "\<exists>w'. text_is ops t w = (view w = t, w') \<and> view w' = view w \<and> screen w' = screen w"
proof -
  have "io_get_text ops w = (Inr (view w), snd (io_get_text ops w))" using get_text by (metis prod.collapse)
  then show ?thesis unfolding text_is_def by (metis (no_types, lifting) case_prod_conv silent_simps(3,4) sum.case(2))
qed

lemma set_payload_shown:
  "\<exists>w'. set_payload ops t w = (Inr (shown t), w') \<and> view w' = shown t \<and> screen w' = screen w"
proof -
  have "io_set_text ops t w = (Inr (), snd (io_set_text ops t w))"
    "io_set_html ops t (strip_html t) w = (Inr (), snd (io_set_html ops t (strip_html t) w))"
    using set_text(1) set_html(1) by (metis prod.collapse)+
  then show ?thesis
    by (metis (mono_tags, lifting) case_prod_conv old.sum.simps(6) set_html(2,3) set_payload_def set_text(2,3) shown_def)
qed

end

context quiet_machine begin

lemma not_aborted: "\<exists>w'. aborted_now ops gen w = (False, w') \<and> view w' = view w \<and> screen w' = screen w"
  unfolding aborted_now_def is_aborted_def using quiet [of w] by (auto simp: case_prod_beta)

lemma poll_pauses_Cons: "poll_pauses = None # replicate 4 None @ replicate 20 (Some 2) @ replicate 15 (Some 10)"
  by (simp add: poll_pauses_def eval_nat_numeral)

text \<open>A poll whose first check succeeds.\<close>

lemma poll_first:
  assumes "\<And>w1. view w1 = view w \<Longrightarrow> screen w1 = screen w \<Longrightarrow>
    \<exists>w'. check w1 = (True, w') \<and> view w' = v \<and> screen w' = screen w"
  shows "\<exists>w'. poll_clipboard_progressive ops gen check w = (Inr True, w') \<and> view w' = v \<and> screen w' = screen w"
proof -
  obtain w1 where "(if gen \<noteq> 0 then aborted_now ops gen w else (False, w)) = (False, w1)"
    and w1: "view w1 = view w" "screen w1 = screen w"
    using not_aborted [of w] by (cases "gen = 0") auto
  moreover obtain w' where "check w1 = (True, w')" "view w' = v" "screen w' = screen w"
    using assms [OF w1] by blast
  ultimately show ?thesis by (simp add: poll_clipboard_progressive_def poll_pauses_Cons)
qed

lemma prepare_clipboard:
  "\<exists>w'. prepare_clipboard_for_expansion ops t gen w = (Inr (view w), w') \<and> view w' = shown t \<and> screen w' = screen w"
proof -
  obtain w1 where g: "io_get_text ops w = (Inr (view w), w1)" and w1: "view w1 = view w" "screen w1 = screen w"
    using get_text [of w] silent_simps(3,4) [of w] by (metis prod.collapse)
  obtain w2 where p: "set_payload ops t w1 = (Inr (shown t), w2)" and w2: "view w2 = shown t" "screen w2 = screen w"
    using set_payload_shown [of t w1] w1 by auto
  have "\<exists>w'. poll_clipboard_progressive ops gen (text_is ops (shown t)) w2 = (Inr True, w') \<and>
      view w' = shown t \<and> screen w' = screen w2"
  proof (rule poll_first)
    fix w3 assume "view w3 = view w2" and "screen w3 = screen w2"
    then show "\<exists>w'. text_is ops (shown t) w3 = (True, w') \<and> view w' = shown t \<and> screen w' = screen w2"
      using text_is_view [of "shown t" w3] w2 by auto
  qed
  then show ?thesis using g p w2 by (auto simp: prepare_clipboard_for_expansion_def)
qed

lemma abortable_sleep_silent: "view (abortable_sleep ops n gen w) = view w \<and> screen (abortable_sleep ops n gen w) = screen w"
proof (induction n arbitrary: w rule: less_induct)
  case (less n)
  obtain w1 where a: "aborted_now ops gen w = (False, w1)" and w1: "view w1 = view w" "screen w1 = screen w"
    using not_aborted by blast
  show ?case
  proof (cases "n = 0")
    case False
    then have "n - min n 10 < n" by auto
    from less [OF this] show ?thesis by (simp add: abortable_sleep.simps [of ops n] a w1)
  qed (simp add: abortable_sleep.simps)
qed

lemma post_paste_wait_silent [simp]:
  "view (post_paste_wait ops gen w) = view w" "screen (post_paste_wait ops gen w) = screen w"
  by (simp_all add: post_paste_wait_def abortable_sleep_silent Let_def)

lemma verify_silent:
  "view (snd (verify_loop ops t n w)) = view w \<and> screen (snd (verify_loop ops t n w)) = screen w"
proof (induction n arbitrary: w)
  case (Suc n)
  obtain ok w1 where "text_is ops t w = (ok, w1)" "view w1 = view w" "screen w1 = screen w"
    using text_is_view [of t w] by blast
  then show ?case using Suc [of w1] by simp
qed simp

text \<open>Typing one text: the saved clipboard is the one before the first text.\<close>

lemma inject_text:
  "\<exists>w'. inject_text_segment_with_gen ops t saved gen w =
     (\<lparr>ts_saved_clipboard = Some (case saved of None \<Rightarrow> view w | Some v \<Rightarrow> v),
       ts_injected_chars = length t, ts_success = True\<rparr>, w') \<and>
     view w' = shown t \<and> screen w' = screen w @ [Pasted (shown t)]"
proof -
  obtain w1 where m: "io_clipboard_manager ops w = (True, w1)" and w1: "view w1 = view w" "screen w1 = screen w"
    using manager [of w] silent_simps(1,2) [of w] by (metis prod.collapse)
  have d: "(io_linux ops \<and> \<not> io_has_display ops w) = False" using display by blast
  show ?thesis
  proof (cases saved)
    case None
    obtain w2 where "prepare_clipboard_for_expansion ops t gen (io_pre_release ops w1) = (Inr (view w), w2)"
      and "view w2 = shown t" "screen w2 = screen w"
      using prepare_clipboard [of t "io_pre_release ops w1"] w1 by auto
    then show ?thesis using None m paste by (simp add: inject_text_segment_with_gen_def d)
  next
    case (Some v)
    obtain w2 where p: "set_payload ops t w1 = (Inr (shown t), w2)"
      and w2: "view w2 = shown t" "screen w2 = screen w"
      using set_payload_shown [of t w1] w1 by auto
    show ?thesis
      using Some m p w2 paste verify_silent [of "shown t" 5 w2]
      by (simp add: inject_text_segment_with_gen_def verify_clipboard_equals_def case_prod_beta d)
  qed
qed

text \<open>The loop over texts.\<close>

lemma texts_loop:
  assumes "ir_successful_chars (is_report s) + sum_list (map length ts) \<le> usize_max" and "ir_completed (is_report s)"
  shows "\<exists>s' w'. steps_loop ops gen first (map TextStep ts) s w = Some (s', w') \<and>
    is_report s' = \<lparr>ir_successful_chars = ir_successful_chars (is_report s) + sum_list (map length ts),
      ir_completed = True\<rparr> \<and>
    is_saved_clipboard s' =
      (if ts = [] then is_saved_clipboard s
       else Some (case is_saved_clipboard s of None \<Rightarrow> view w | Some v \<Rightarrow> v)) \<and>
    is_last_payload s' = (if ts = [] then is_last_payload s else Some (last ts)) \<and>
    view w' = (if ts = [] then view w else shown (last ts)) \<and>
    screen w' = screen w @ map (Pasted \<circ> shown) ts"
  using assms
proof (induction ts arbitrary: first s w)
  case Nil
  then show ?case by (cases "is_report s") simp
next
  case (Cons t ts)
  obtain w1 where a: "aborted_now ops gen w = (False, w1)" and w1: "view w1 = view w" "screen w1 = screen w"
    using not_aborted by blast
  obtain w2 where w2_def: "w2 = (if first then w1 else io_sleep ops (inter_step_delay_ms ops) w1)"
    and w2: "view w2 = view w" "screen w2 = screen w" using w1 by auto
  obtain w3 where i: "inject_text_segment_with_gen ops t (is_saved_clipboard s) gen w2 =
     (\<lparr>ts_saved_clipboard = Some (case is_saved_clipboard s of None \<Rightarrow> view w | Some v \<Rightarrow> v),
       ts_injected_chars = length t, ts_success = True\<rparr>, w3)"
    and w3: "view w3 = shown t" "screen w3 = screen w @ [Pasted (shown t)]"
    using inject_text [of t "is_saved_clipboard s" w2] unfolding w2 by blast
  let ?s1 = "s\<lparr>is_last_payload := Some t, is_saved_clipboard := Some (case is_saved_clipboard s of None \<Rightarrow> view w | Some v \<Rightarrow> v),
      is_report := \<lparr>ir_successful_chars = ir_successful_chars (is_report s) + length t, ir_completed = True\<rparr>\<rparr>"
  have "inject_step ops gen (TextStep t) s w2 = Some (?s1, False, w3)"
    using i Cons.prems by (cases "is_saved_clipboard s"; cases "is_report s") (simp_all add: inject_step_def note_segment_def add_chars_def Let_def)
  then have step: "steps_loop ops gen first (map TextStep (t # ts)) s w = steps_loop ops gen False (map TextStep ts) ?s1 w3"
    using a by (simp flip: w2_def)
  show ?case
    using Cons.IH [of ?s1 False w3] Cons.prems w3 unfolding step by (auto simp: add.assoc)
qed

text \<open>Giving the clipboard back.\<close>

lemma restore_matching:
  assumes "payload = [] \<or> view w = [] \<or> view w = payload"
  shows "view (restore_clipboard_guarded ops (Some payload) saved gen w) = saved \<and>
    screen (restore_clipboard_guarded ops (Some payload) saved gen w) = screen w"
proof -
  obtain w1 where m: "io_clipboard_manager ops w = (True, w1)" and w1: "view w1 = view w" "screen w1 = screen w"
    using manager [of w] silent_simps(1,2) [of w] by (metis prod.collapse)
  obtain w2' where "io_get_text ops w1 = (Inr (view w), w2')" "view w2' = view w" "screen w2' = screen w"
    using get_text_view [of w1] w1 by auto
  then have "changed_externally ops (Some payload) w1 = (False, if payload = [] then w1 else w2')"
      "view (if payload = [] then w1 else w2') = view w" "screen (if payload = [] then w1 else w2') = screen w"
    using assms w1 by (auto simp: changed_externally_def)
  then obtain w2 where c: "changed_externally ops (Some payload) w1 = (False, w2)"
    and w2: "view w2 = view w" "screen w2 = screen w" by blast
  have "\<exists>w'. poll_clipboard_progressive ops gen (try_set_text ops saved) w2 = (Inr True, w') \<and>
      view w' = saved \<and> screen w' = screen w2"
  proof (rule poll_first)
    fix w3 assume w3: "view w3 = view w2" "screen w3 = screen w2"
    show "\<exists>w'. try_set_text ops saved w3 = (True, w') \<and> view w' = saved \<and> screen w' = screen w2"
      using set_text_view [of saved w3] w3 by (auto simp: try_set_text_def)
  qed
  then obtain w3 where p: "poll_clipboard_progressive ops gen (try_set_text ops saved) w2 = (Inr True, w3)"
    and w3: "view w3 = saved" "screen w3 = screen w" using w2 by auto
  have "\<exists>w'. poll_clipboard_progressive ops gen (text_is ops saved) w3 = (Inr True, w') \<and>
      view w' = saved \<and> screen w' = screen w3"
  proof (rule poll_first)
    fix w4 assume "view w4 = view w3" and "screen w4 = screen w3"
    then show "\<exists>w'. text_is ops saved w4 = (True, w') \<and> view w' = saved \<and> screen w' = screen w3"
      using text_is_view [of saved w4] w3 by auto
  qed
  then show ?thesis using m c p w3 by (auto simp: restore_clipboard_guarded_def)
qed

lemma restore_skipped:
  assumes "payload \<noteq> []" and "view w \<noteq> []" and "view w \<noteq> payload"
  shows "view (restore_clipboard_guarded ops (Some payload) saved gen w) = view w \<and>
    screen (restore_clipboard_guarded ops (Some payload) saved gen w) = screen w"
proof -
  obtain w1 where m: "io_clipboard_manager ops w = (True, w1)" and w1: "view w1 = view w" "screen w1 = screen w"
    using manager [of w] silent_simps(1,2) [of w] by (metis prod.collapse)
  obtain w2 where "io_get_text ops w1 = (Inr (view w), w2)" and w2: "view w2 = view w" "screen w2 = screen w"
    using get_text_view [of w1] w1 by auto
  then have "changed_externally ops (Some payload) w1 = (True, w2)"
    using assms by (simp add: changed_externally_def)
  then show ?thesis using m w2 by (simp add: restore_clipboard_guarded_def)
qed

lemma linux_sleep_silent [simp]: "view (linux_sleep ops ms w) = view w" "screen (linux_sleep ops ms w) = screen w"
  by (simp_all add: linux_sleep_def)

lemma texts_guarded:
  assumes "types_directly (map TextStep ts) force = None" and "sum_list (map length ts) \<le> usize_max"
  shows "\<exists>w'. inject_guarded ops (map TextStep ts) n force w =
      Some (\<lparr>ir_successful_chars = sum_list (map length ts), ir_completed = True\<rparr>, w') \<and>
    screen w' = screen w @ Erased n # map (Pasted \<circ> shown) ts \<and>
    view w' = (if ts = [] \<or> last ts = [] \<or> shown (last ts) = [] \<or> shown (last ts) = last ts
               then view w else shown (last ts))"
proof -
  let ?keys = "expansion_requires_keystrokes (map TextStep ts) n"
  obtain w1 where g: "io_generation ops w = (gen, w1)" and w1: "view w1 = view w" "screen w1 = screen w"
    using quiet [of w] silent_simps(5,6) [of w] by (metis prod.collapse)
  obtain w3 where w3_def: "w3 = linux_sleep ops 20 (erase_trigger ops n
      (linux_sleep ops 10 (if ?keys then io_pre_release ops w1 else w1)))"
    and w3: "view w3 = view w" "screen w3 = screen w @ [Erased n]"
    using w1 backspaces by (auto simp: erase_trigger_def)
  let ?s0 = "\<lparr>is_saved_clipboard = None, is_last_payload = None,
    is_report = \<lparr>ir_successful_chars = 0, ir_completed = True\<rparr>\<rparr>"
  obtain s' w4 where l: "steps_loop ops gen True (map TextStep ts) ?s0 w3 = Some (s', w4)"
    and s': "is_report s' = \<lparr>ir_successful_chars = sum_list (map length ts), ir_completed = True\<rparr>"
      "is_saved_clipboard s' = (if ts = [] then None else Some (view w))"
      "is_last_payload s' = (if ts = [] then None else Some (last ts))"
    and w4: "view w4 = (if ts = [] then view w else shown (last ts))"
      "screen w4 = screen w @ Erased n # map (Pasted \<circ> shown) ts"
    using texts_loop [of ?s0 ts True w3] assms(2) w3 by (auto simp del: map_map)
  let ?w5 = "case is_saved_clipboard s' of None \<Rightarrow> w4
    | Some saved \<Rightarrow> restore_clipboard_guarded ops (is_last_payload s') saved gen w4"
  have "screen ?w5 = screen w4 \<and> view ?w5 = (if ts = [] \<or> last ts = [] \<or> shown (last ts) = [] \<or>
      shown (last ts) = last ts then view w else shown (last ts))"
    using restore_matching [of "last ts" w4 "view w"] restore_skipped [of "last ts" w4 "view w"] s' w4(1) by auto
  then show ?thesis
    using g l s'(1) w4(2) assms(1) by (auto simp: inject_guarded_def Let_def simp flip: w3_def)
qed

lemma texts_injected:
  assumes "types_directly (map TextStep ts) force = None" and "sum_list (map length ts) \<le> usize_max"
  shows "\<exists>w'. inject_expansion_inner ops (map TextStep ts) n force w =
      Some (\<lparr>ir_successful_chars = sum_list (map length ts), ir_completed = True\<rparr>, w') \<and>
    screen w' = screen w @ Erased n # map (Pasted \<circ> shown) ts \<and>
    view w' = (if ts = [] \<or> last ts = [] \<or> shown (last ts) = [] \<or> shown (last ts) = last ts
               then view w else shown (last ts))"
  using texts_guarded [OF assms, of n w] texts_guarded [OF assms, of n "io_guard_begin ops w"]
  by (auto simp: inject_expansion_inner_def)

end

section \<open>The recording machine\<close>

text \<open>
  The machine of the code's own tests, \<open>FakeClipboard\<close> and \<open>RecordingInjector\<close>: a text, and a record
  of what the application receives.  A key press aborts before the read of the generation whose number
  is \<open>fk_abort_at\<close>.
\<close>

record fake_machine =
  fk_text :: string
  fk_screen :: "screen_event list"
  fk_reads :: nat
  fk_abort_at :: "nat option"

definition fake_generation :: "fake_machine \<Rightarrow> u64 \<times> fake_machine" where
  "fake_generation w =
     (case fk_abort_at w of None \<Rightarrow> 1 | Some n \<Rightarrow> if n \<le> fk_reads w then 2 else 1,
      w\<lparr>fk_reads := fk_reads w + 1\<rparr>)"

definition fake_screen :: "screen_event \<Rightarrow> fake_machine \<Rightarrow> fake_machine" where
  "fake_screen e w = w\<lparr>fk_screen := fk_screen w @ [e]\<rparr>"

definition fake_ops :: "fake_machine injector_ops" where
  "fake_ops =
     \<lparr>io_linux = False, io_has_display = (\<lambda>w. True), io_type_string = None, io_clipboard_manager = Pair True,
      io_get_text = (\<lambda>w. (Inr (fk_text w), w)), io_set_text = (\<lambda>t w. (Inr (), w\<lparr>fk_text := t\<rparr>)),
      io_set_html = (\<lambda>h p w. (Inr (), w\<lparr>fk_text := p\<rparr>)), io_set_image = (\<lambda>path w. (Inr (), w)),
      io_write_temp_file = (\<lambda>ext bytes w. (Inr ext, w)), io_remove_file = (\<lambda>path w. w),
      io_generation = fake_generation, io_sleep = (\<lambda>ms w. w), io_wait_idle = (\<lambda>ms w. w), io_restore_delay = 0,
      io_pre_release = (\<lambda>w. w), io_paste = (\<lambda>w. fake_screen (Pasted (fk_text w)) w),
      io_key_alias = (\<lambda>k w. (True, w)), io_mouse_click = (\<lambda>b w. w), io_mouse_move = (\<lambda>x y w. w),
      io_mouse_scroll = (\<lambda>d w. w), io_mouse_hold = (\<lambda>b h w. w),
      io_atomic_text = (\<lambda>n t l r w. (True, fake_screen (Pasted t) (fake_screen (Erased n) w))),
      io_atomic_backspaces = (\<lambda>n. fake_screen (Erased n)),
      io_atomic_undo = (\<lambda>n t w. fake_screen (Pasted t) (fake_screen (Erased n) w)),
      io_run_script = (\<lambda>md w. (Inr [], w)), io_spawn_script = (\<lambda>md w. w), io_transform = (\<lambda>tr t. None),
      io_guard_begin = (\<lambda>w. w), io_guard_end = (\<lambda>w. w)\<rparr>"

interpretation fake: clipboard_machine fake_ops fk_text fk_screen
  by unfold_locales (simp_all add: fake_ops_def keeps_def fake_screen_def fake_generation_def)

text \<open>The same machine when nobody presses a key.\<close>

definition calm_ops :: "fake_machine injector_ops" where
  "calm_ops = fake_ops\<lparr>io_generation := Pair 1\<rparr>"

interpretation calm: quiet_machine calm_ops fk_text fk_screen 1
  by unfold_locales (simp_all add: calm_ops_def fake_ops_def keeps_def fake_screen_def)

definition fake_start :: "string \<Rightarrow> nat option \<Rightarrow> fake_machine" where
  "fake_start t abort_at = \<lparr>fk_text = t, fk_screen = [], fk_reads = 0, fk_abort_at = abort_at\<rparr>"

section \<open>Properties\<close>

text \<open>What a step puts on the screen, as the report counts it, and the steps whose count is known before:
  a script's output is not.\<close>

definition step_chars :: "expansion_step \<Rightarrow> nat" where
  "step_chars step = (case step of TextStep t \<Rightarrow> length t | ImageStep _ _ \<Rightarrow> 1 | _ \<Rightarrow> 0)"

definition runs_script :: "expansion_step \<Rightarrow> bool" where
  "runs_script step \<longleftrightarrow> (case step of ScriptStep _ \<Rightarrow> True | InlineRun _ _ \<Rightarrow> True | _ \<Rightarrow> False)"

text \<open>From one report to a later one: at most the given number of characters was added, all of them if the
  later one says that nothing was left out.\<close>

definition counted :: "nat \<Rightarrow> injection_report \<Rightarrow> injection_report \<Rightarrow> bool" where
  "counted n before after \<longleftrightarrow>
     ir_successful_chars before \<le> ir_successful_chars after \<and>
     ir_successful_chars after \<le> min usize_max (ir_successful_chars before + n) \<and>
     (ir_completed after \<longrightarrow> ir_completed before \<and>
        ir_successful_chars after = min usize_max (ir_successful_chars before + n))"

lemma counted_trans: "counted m r r1 \<Longrightarrow> counted n r1 r2 \<Longrightarrow> counted (m + n) r r2"
  by (auto simp: counted_def min_def split: if_split_asm)

lemma counted_stop:
  "ir_successful_chars r \<le> usize_max \<Longrightarrow> counted n r (r\<lparr>ir_completed := False\<rparr>)"
  by (simp add: counted_def)

lemma counted_refl: "ir_successful_chars r \<le> usize_max \<Longrightarrow> counted 0 r r"
  by (simp add: counted_def)

lemma direct_typing_chars:
  "linux_direct_typing ops t saved (length t) w = (piece, w') \<Longrightarrow>
   ts_injected_chars piece = (if ts_success piece then length t else 0)"
  by (auto simp: linux_direct_typing_def split: option.split_asm)

lemma text_segment_chars:
  assumes "inject_text_segment_with_gen ops t saved captured w = (piece, w')"
  shows "ts_injected_chars piece = (if ts_success piece then length t else 0)"
  using assms
  by (auto simp: inject_text_segment_with_gen_def no_injection_def Let_def direct_typing_chars
      split: if_split_asm prod.split_asm option.split_asm sum.split_asm)

lemma image_segment_chars:
  assumes "inject_image_segment_with_gen ops bytes mime saved captured w = (piece, w')"
  shows "ts_injected_chars piece = (if ts_success piece then 1 else 0)"
  using assms
  by (auto simp: inject_image_segment_with_gen_def no_injection_def Let_def
      split: if_split_asm prod.split_asm option.split_asm sum.split_asm)

lemma note_segment_counted:
  assumes "note_segment s piece = (s1, stop)" and "ts_injected_chars piece = (if ts_success piece then n else 0)"
    and "ir_successful_chars (is_report s) \<le> usize_max"
  shows "counted n (is_report s) (is_report s1) \<and> (stop \<longrightarrow> \<not> ir_completed (is_report s1))"
  using assms
  by (cases "ts_success piece")
    (auto simp: note_segment_def add_chars_def counted_def Let_def split del: if_split)

lemma click_times_counted:
  "click_times ops button n captured r w = (r', w') \<Longrightarrow> ir_successful_chars r \<le> usize_max \<Longrightarrow> counted 0 r r'"
  by (induction ops button n captured r w rule: click_times.induct)
    (auto simp: counted_refl counted_stop split: prod.split_asm if_split_asm)

lemma click_loop_counted:
  "inject_mouse_click_loop ops button n captured r w = Some (r', w') \<Longrightarrow> ir_successful_chars r \<le> usize_max \<Longrightarrow>
   counted 0 r r'"
  by (auto simp: inject_mouse_click_loop_def counted_stop dest: click_times_counted split: if_split_asm)

lemma delay_loop_counted:
  "delay_loop ops n captured r w = (r', w') \<Longrightarrow> ir_successful_chars r \<le> usize_max \<Longrightarrow> counted 0 r r'"
proof (induction ops n captured r w rule: delay_loop.induct)
  case (1 ops n captured r w)
  show ?case
  proof (cases "n = 0")
    case True
    then show ?thesis using "1.prems" by (simp add: delay_loop.simps [of ops 0] counted_refl)
  next
    case False
    obtain stop w1 where "aborted_now ops captured w = (stop, w1)" by fastforce
    then show ?thesis
      using "1.IH" [OF False] "1.prems" False
      by (auto simp: delay_loop.simps [of ops n] counted_stop split: if_split_asm)
  qed
qed

lemma inject_step_counted:
  assumes "inject_step ops captured step s w = Some (s1, stop, w1)" and "\<not> runs_script step"
    and "ir_successful_chars (is_report s) \<le> usize_max"
  shows "counted (step_chars step) (is_report s) (is_report s1) \<and> (stop \<longrightarrow> \<not> ir_completed (is_report s1))"
proof (cases step)
  case (TextStep t)
  obtain piece w2 where p: "inject_text_segment_with_gen ops t (is_saved_clipboard s) captured w = (piece, w2)" by fastforce
  from note_segment_counted [OF _ text_segment_chars [OF p], of "s\<lparr>is_last_payload := Some t\<rparr>"] show ?thesis
    using assms(1,3) p by (auto simp: inject_step_def TextStep step_chars_def Let_def split: prod.split_asm)
next
  case (ImageStep bytes mime)
  obtain piece w2 where p: "inject_image_segment_with_gen ops bytes mime (is_saved_clipboard s) captured w = (piece, w2)" by fastforce
  from note_segment_counted [OF _ image_segment_chars [OF p], of "s\<lparr>is_last_payload := None\<rparr>"] show ?thesis
    using assms(1,3) p by (auto simp: inject_step_def ImageStep step_chars_def Let_def split: prod.split_asm)
next
  case (MouseClick b n)
  then show ?thesis
    using assms by (auto simp: inject_step_def step_chars_def dest: click_loop_counted)
next
  case (DelayStep ms)
  then show ?thesis
    using assms by (auto simp: inject_step_def step_chars_def Let_def dest: delay_loop_counted split: prod.split_asm)
qed (use assms in \<open>auto simp: inject_step_def step_chars_def runs_script_def counted_refl\<close>)

lemma counted_bound: "counted n r r' \<Longrightarrow> ir_successful_chars r' \<le> usize_max"
  by (simp add: counted_def)

lemma counted_more: "counted n r r' \<Longrightarrow> \<not> ir_completed r' \<Longrightarrow> n \<le> m \<Longrightarrow> counted m r r'"
  by (auto simp: counted_def)

lemma steps_loop_counted:
  "steps_loop ops captured first steps s w = Some (s', w') \<Longrightarrow> \<forall>step\<in>set steps. \<not> runs_script step \<Longrightarrow>
   ir_successful_chars (is_report s) \<le> usize_max \<Longrightarrow>
   counted (sum_list (map step_chars steps)) (is_report s) (is_report s')"
proof (induction steps arbitrary: first s w)
  case Nil
  then show ?case by (simp add: counted_refl)
next
  case (Cons step steps)
  obtain stop w1 where a: "aborted_now ops captured w = (stop, w1)" by fastforce
  show ?case
  proof (cases stop)
    case True
    then show ?thesis using Cons.prems a by (auto simp: counted_stop)
  next
    case False
    let ?w = "if first then w1 else io_sleep ops (inter_step_delay_ms ops) w1"
    obtain s1 halt w2 where i: "inject_step ops captured step s ?w = Some (s1, halt, w2)"
      using Cons.prems(1) a False by (cases "inject_step ops captured step s ?w") (auto split: if_split_asm)
    have one: "counted (step_chars step) (is_report s) (is_report s1)" "halt \<longrightarrow> \<not> ir_completed (is_report s1)"
      using inject_step_counted [OF i] Cons.prems(2,3) by simp_all
    show ?thesis
    proof (cases halt)
      case True
      then show ?thesis
        using Cons.prems(1) a False i one counted_more [OF one(1)] by (auto split: if_split_asm)
    next
      case False
      then have "steps_loop ops captured False steps s1 w2 = Some (s', w')"
        using Cons.prems(1) a \<open>\<not> stop\<close> i by (auto split: if_split_asm)
      from Cons.IH [OF this] Cons.prems(2) counted_bound [OF one(1)] one(1) show ?thesis
        by (auto intro: counted_trans)
    qed
  qed
qed

lemma nav_chars: "nav_loop l r steps \<noteq> None \<Longrightarrow> sum_list (map step_chars steps) = 0"
  by (induction l r steps rule: nav_loop.induct)
    (auto simp: step_chars_def split: expansion_step.split_asm if_split_asm)

lemma directly_chars:
  "types_directly steps force = Some (t, l, r) \<Longrightarrow>
   sum_list (map step_chars steps) = length t \<and> length t \<le> small_type_limit"
  using nav_chars [of 0 0 "tl steps"]
  by (auto simp: types_directly_def extract_nav_steps_def step_chars_def
      split: list.split_asm expansion_step.split_asm if_split_asm)

lemma guarded_counted:
  assumes "inject_guarded ops steps n force w = Some (report, w')" and "\<forall>step\<in>set steps. \<not> runs_script step"
  shows "counted (sum_list (map step_chars steps)) \<lparr>ir_successful_chars = 0, ir_completed = True\<rparr> report"
proof (cases "types_directly steps force")
  case None
  let ?r0 = "\<lparr>ir_successful_chars = 0, ir_completed = True\<rparr>"
  obtain captured w3 s w4 where
    "steps_loop ops captured True steps \<lparr>is_saved_clipboard = None, is_last_payload = None, is_report = ?r0\<rparr> w3 =
      Some (s, w4)" and "report = is_report s"
    using assms(1) None by (auto simp: inject_guarded_def Let_def split: prod.split_asm option.split_asm)
  from steps_loop_counted [OF this(1) assms(2)] this(2) show ?thesis by simp
next
  case (Some direct)
  obtain t l r where d: "direct = (t, l, r)" by (cases direct)
  have "length t \<le> usize_max" using directly_chars [OF Some [unfolded d]] by (simp add: small_type_limit_def usize_max_def)
  then show ?thesis
    using assms(1) directly_chars [OF Some [unfolded d]]
    by (auto simp: inject_guarded_def Some d Let_def counted_def split: prod.split_asm)
qed

text \<open>C8: The report of an expansion is honest on every machine, whatever fails, whenever a key is pressed
  and whatever else happens to the clipboard: for steps without scripts it never counts more characters than
  the texts have (an image counts one), and when it says that nothing was left out it counts all of
  them.  (Counts stop at the largest machine integer.)\<close>

theorem report_counts_what_was_injected:
  assumes "inject_expansion_inner ops steps n force w = Some (report, w')"
    and "\<forall>step\<in>set steps. \<not> runs_script step"
  shows "ir_successful_chars report \<le> min usize_max (sum_list (map step_chars steps)) \<and>
    (ir_completed report \<longrightarrow> ir_successful_chars report = min usize_max (sum_list (map step_chars steps)))"
proof -
  have "counted (sum_list (map step_chars steps)) \<lparr>ir_successful_chars = 0, ir_completed = True\<rparr> report"
    using assms(1) guarded_counted [OF _ assms(2)]
    by (auto simp: inject_expansion_inner_def split: if_split_asm)
  then show ?thesis by (simp add: counted_def)
qed

theorem report_counts_what_was_injected_witness:
  "\<exists>report w'. inject_expansion_inner calm_ops (map TextStep [''Hello'', ''World'']) 3 True (fake_start ''mine'' None) =
      Some (report, w') \<and> ir_completed report \<and> ir_successful_chars report = 10"
proof -
  let ?ts = "[''Hello'', ''World'']"
  have "types_directly (map TextStep ?ts) True = None" and "sum_list (map length ?ts) \<le> usize_max"
    by (simp_all add: types_directly_def usize_max_def)
  from calm.texts_injected [OF this, of 3 "fake_start ''mine'' None"] obtain report w' where
    r: "inject_expansion_inner calm_ops (map TextStep ?ts) 3 True (fake_start ''mine'' None) = Some (report, w')"
    and c: "ir_completed report" by auto
  have "\<forall>step\<in>set (map TextStep ?ts). \<not> runs_script step" by (simp add: runs_script_def)
  from report_counts_what_was_injected [OF r this] c
  have "ir_successful_chars report = min usize_max (sum_list (map step_chars (map TextStep ?ts)))" by blast
  also have "\<dots> = 10" by (simp add: step_chars_def usize_max_def)
  finally show ?thesis using r c by blast
qed

text \<open>
  On a machine whose clipboard always works and that nothing else writes to, and on which no key is pressed,
  an expansion into texts that go through the clipboard deletes the trigger, pastes every text once and in
  order, reports exactly their characters and completion, and gives the clipboard back, provided the last
  text is the one found on the clipboard after it was written, which holds for every text without HTML tags.
\<close>

theorem texts_typed_clipboard_restored:
  assumes "quiet_machine ops view screen gen"
    and "types_directly (map TextStep ts) force = None" and "sum_list (map length ts) \<le> usize_max"
    and "ts \<noteq> []" and "shown (last ts) = last ts"
  shows "\<exists>w'. inject_expansion_inner ops (map TextStep ts) n force w =
      Some (\<lparr>ir_successful_chars = sum_list (map length ts), ir_completed = True\<rparr>, w') \<and>
    screen w' = screen w @ Erased n # map (Pasted \<circ> shown) ts \<and> view w' = view w"
  using quiet_machine.texts_injected [OF assms(1-3), of n w] assms(5) by (simp cong: if_cong)

theorem texts_typed_clipboard_restored_witness:
  "\<exists>w'. inject_expansion_inner calm_ops (map TextStep [''Hello'', ''World'']) 3 True (fake_start ''mine'' None) =
      Some (\<lparr>ir_successful_chars = 10, ir_completed = True\<rparr>, w') \<and>
    fk_screen w' = [Erased 3, Pasted ''Hello'', Pasted ''World''] \<and> fk_text w' = ''mine''"
proof -
  let ?ts = "[''Hello'', ''World'']"
  have l: "sum_list (map length ?ts) = 10" by simp
  have "types_directly (map TextStep ?ts) True = None" and "sum_list (map length ?ts) \<le> usize_max"
    and "?ts \<noteq> []" and "shown (last ?ts) = last ?ts"
    by (simp_all add: types_directly_def usize_max_def shown_def)
  from texts_typed_clipboard_restored [OF calm.quiet_machine_axioms this, of 3 "fake_start ''mine'' None"]
  show ?thesis unfolding l by (simp add: fake_start_def shown_def)
qed

text \<open>After a last text with HTML tags the clipboard is not given back: the code compares what is on the
  clipboard, the text without its tags, with the text as written, takes the difference for a copy the
  user made meanwhile, and leaves the expansion on the clipboard.\<close>

theorem html_text_loses_clipboard:
  assumes "quiet_machine ops view screen gen"
    and "sum_list (map length ts) \<le> usize_max" and "ts \<noteq> []"
    and "has_html_tags (last ts)" and "strip_html (last ts) \<notin> {[], last ts}"
  shows "\<exists>w'. inject_expansion_for_voice ops (map TextStep ts) w =
      Some (\<lparr>ir_successful_chars = sum_list (map length ts), ir_completed = True\<rparr>, w') \<and>
    view w' = strip_html (last ts)"
proof -
  have "types_directly (map TextStep ts) True = None" by (cases ts) (simp_all add: types_directly_def)
  from quiet_machine.texts_injected [OF assms(1) this assms(2), of 0 w] show ?thesis
    using assms(3-5) by (auto simp: inject_expansion_for_voice_def shown_def)
qed

theorem html_text_loses_clipboard_witness:
  "\<exists>w'. inject_expansion_for_voice calm_ops [TextStep ''<b>Hi</b>''] (fake_start ''mine'' None) =
      Some (\<lparr>ir_successful_chars = 9, ir_completed = True\<rparr>, w') \<and> fk_text w' = ''Hi''"
proof -
  let ?ts = "[''<b>Hi</b>'']"
  have l: "sum_list (map length ?ts) = 9" by simp
  have s: "strip_html (last ?ts) = ''Hi''" and h: "has_html_tags (last ?ts)" by code_simp+
  have "sum_list (map length ?ts) \<le> usize_max" and "?ts \<noteq> []" and "strip_html (last ?ts) \<notin> {[], last ?ts}"
    unfolding s by (simp_all add: usize_max_def)
  from html_text_loses_clipboard [OF calm.quiet_machine_axioms this(1,2) h this(3), of "fake_start ''mine'' None"]
  show ?thesis unfolding l s by simp
qed

lemma poll_first_abort:
  "captured \<noteq> 0 \<Longrightarrow> aborted_now ops captured w = (True, w') \<Longrightarrow>
   poll_clipboard_progressive ops captured check w = (Inl InjectionAborted, w')"
  by (simp add: poll_clipboard_progressive_def poll_pauses_def eval_nat_numeral)

lemma poll_first_check:
  "aborted_now ops captured w = (False, w1) \<Longrightarrow> check w1 = (True, w2) \<Longrightarrow> captured \<noteq> 0 \<Longrightarrow>
   poll_clipboard_progressive ops captured check w = (Inr True, w2)"
  by (simp add: poll_clipboard_progressive_def poll_pauses_def eval_nat_numeral)

lemma fake_aborted_now:
  "aborted_now fake_ops 1 w =
     (case fk_abort_at w of None \<Rightarrow> False | Some n \<Rightarrow> n \<le> fk_reads w, w\<lparr>fk_reads := fk_reads w + 1\<rparr>)"
  by (simp add: aborted_now_def fake_ops_def fake_generation_def is_aborted_def Let_def split: option.split)

definition fake_at :: "nat \<Rightarrow> nat \<Rightarrow> string \<Rightarrow> screen_event list \<Rightarrow> fake_machine" where
  "fake_at reads abort_at t events =
     \<lparr>fk_text = t, fk_screen = events, fk_reads = reads, fk_abort_at = Some abort_at\<rparr>"

lemma fake_at_ops:
  "aborted_now fake_ops 1 (fake_at r m t e) = (m \<le> r, fake_at (r + 1) m t e)"
  "io_generation fake_ops (fake_at r m t e) = (if m \<le> r then 2 else 1, fake_at (r + 1) m t e)"
  "io_get_text fake_ops (fake_at r m t e) = (Inr t, fake_at r m t e)"
  "text_is fake_ops t' (fake_at r m t e) = (t = t', fake_at r m t e)"
  "\<not> has_html_tags t' \<Longrightarrow> set_payload fake_ops t' (fake_at r m t e) = (Inr t', fake_at r m t' e)"
  "io_paste fake_ops (fake_at r m t e) = fake_at r m t (e @ [Pasted t])"
  "erase_trigger fake_ops n (fake_at r m t e) = fake_at r m t (e @ [Erased n])"
  "post_paste_wait fake_ops captured (fake_at r m t e) = fake_at r m t e"
  by (simp_all add: fake_aborted_now fake_at_def text_is_def set_payload_def post_paste_wait_def
      fake_generation_def fake_screen_def erase_trigger_def abortable_sleep.simps Let_def)
    (simp_all add: fake_ops_def fake_generation_def fake_screen_def)

lemma fake_constants [simp]:
  "io_linux fake_ops = False" "io_clipboard_manager fake_ops w = (True, w)" "io_pre_release fake_ops w = w"
  "io_guard_begin fake_ops w = w" "io_guard_end fake_ops w = w" "linux_sleep fake_ops ms w = w"
  by (simp_all add: fake_ops_def linux_sleep_def)

lemma fake_text_aborted:
  assumes "\<not> has_html_tags t" and "m \<le> r"
  shows "inject_text_segment_with_gen fake_ops t None 1 (fake_at r m mine e) =
    (no_injection, fake_at (r + 1) m t e)"
  using assms
  by (simp add: inject_text_segment_with_gen_def prepare_clipboard_for_expansion_def fake_at_ops
      poll_first_abort [where w' = "fake_at (r + 1) m t e"])

lemma fake_text_typed:
  assumes "\<not> has_html_tags t" and "r < m"
  shows "inject_text_segment_with_gen fake_ops t None 1 (fake_at r m mine e) =
    (\<lparr>ts_saved_clipboard = Some mine, ts_injected_chars = length t, ts_success = True\<rparr>,
     fake_at (r + 1) m t (e @ [Pasted t]))"
  using assms
  by (simp add: inject_text_segment_with_gen_def prepare_clipboard_for_expansion_def fake_at_ops
      poll_first_check [where ?w1.0 = "fake_at (r + 1) m t e" and ?w2.0 = "fake_at (r + 1) m t e"])

lemma fake_restore_aborted:
  "m \<le> r \<Longrightarrow> restore_clipboard_guarded fake_ops (Some t) mine 1 (fake_at r m t e) = fake_at (r + 1) m t e"
  by (simp add: restore_clipboard_guarded_def changed_externally_def fake_at_ops
      poll_first_abort [where w' = "fake_at (r + 1) m t e"])

lemma guarded_is_inner:
  "inject_expansion fake_ops steps n w = inject_guarded fake_ops steps n False w"
proof -
  have "map_prod id (io_guard_end fake_ops) = (id :: injection_report \<times> fake_machine \<Rightarrow> _)"
    by (simp add: fun_eq_iff)
  then show ?thesis by (simp add: inject_expansion_def inject_expansion_inner_def option.map_id)
qed

text \<open>A key pressed while the text is being put on the clipboard aborts the expansion after its trigger
  was deleted: nothing is typed, and the text the user had on the clipboard is gone, replaced by the
  expansion.  A key pressed after the paste has the same effect on the clipboard, because giving it
  back is itself abandoned.\<close>

theorem abort_loses_clipboard:
  assumes "types_directly [TextStep t] False = None" and "\<not> has_html_tags t"
  shows "(\<exists>w'. inject_expansion fake_ops [TextStep t] n (fake_start mine (Some 2)) =
      Some (\<lparr>ir_successful_chars = 0, ir_completed = False\<rparr>, w') \<and> fk_text w' = t \<and> fk_screen w' = [Erased n]) \<and>
    (\<exists>w'. inject_expansion fake_ops [TextStep t] n (fake_start mine (Some 3)) =
      Some (\<lparr>ir_successful_chars = min usize_max (length t), ir_completed = True\<rparr>, w') \<and> fk_text w' = t)"
proof -
  have start: "fake_start mine (Some m) = fake_at 0 m mine []" for m
    by (simp add: fake_start_def fake_at_def)
  show ?thesis
    using assms
    by (simp add: start guarded_is_inner inject_guarded_def fake_at_ops inject_step_def note_segment_def
        fake_text_aborted fake_text_typed fake_restore_aborted no_injection_def add_chars_def Let_def)
      (simp add: fake_at_def)
qed

theorem abort_loses_clipboard_witness:
  "\<exists>w'. inject_expansion fake_ops [TextStep (replicate 40 (CHR ''x''))] 4 (fake_start ''mine'' (Some 2)) =
      Some (\<lparr>ir_successful_chars = 0, ir_completed = False\<rparr>, w') \<and>
    fk_text w' = replicate 40 (CHR ''x'') \<and> fk_screen w' = [Erased 4]"
proof -
  have "types_directly [TextStep (replicate 40 (CHR ''x''))] False = None"
    and "\<not> has_html_tags (replicate 40 (CHR ''x''))" by code_simp+
  from abort_loses_clipboard [OF this, of 4 "''mine''"] show ?thesis by blast
qed

text \<open>A text step outside the direct path, or any other step, is preceded by a look at the generation:
  once a key was pressed, no further step is carried out and the report says so.\<close>

theorem abort_stops_the_steps:
  assumes "aborted_now ops captured w = (True, w1)" and "steps \<noteq> []"
  shows "steps_loop ops captured first steps s w =
    Some (s\<lparr>is_report := (is_report s)\<lparr>ir_completed := False\<rparr>\<rparr>, w1)"
  using assms by (cases steps) simp_all

theorem abort_stops_the_steps_witness:
  "steps_loop fake_ops 1 True [KeyPressStep ''enter'']
     \<lparr>is_saved_clipboard = None, is_last_payload = None,
      is_report = \<lparr>ir_successful_chars = 5, ir_completed = True\<rparr>\<rparr> (fake_at 3 2 [] []) =
   Some (\<lparr>is_saved_clipboard = None, is_last_payload = None,
      is_report = \<lparr>ir_successful_chars = 5, ir_completed = False\<rparr>\<rparr>, fake_at 4 2 [] [])"
proof -
  have "aborted_now fake_ops 1 (fake_at 3 2 [] []) = (True, fake_at 4 2 [] [])"
    by (simp add: fake_at_ops)
  then show ?thesis by (subst abort_stops_the_steps) simp_all
qed

lemma click_returns_aborted:
  assumes "click_until_aborted ops button captured w = Some w'"
  shows "\<exists>w0. aborted_now ops captured w0 = (True, w')"
proof (rule click_until_aborted.raw_induct [OF _ assms])
  fix f and ops :: "'a injector_ops" and button captured w w'
  assume "\<And>ops button captured w w'. f ops button captured w = Some w' \<Longrightarrow>
      \<exists>w0. aborted_now ops captured w0 = (True, w')"
    and "(let (stop, w1) = aborted_now ops captured w
          in if stop then Some w1 else f ops button captured (io_mouse_click ops button w1)) = Some w'"
  then show "\<exists>w0. aborted_now ops captured w0 = (True, w')"
    by (cases "aborted_now ops captured w") (auto split: if_split_asm)
qed

text \<open>A click step with count 0 clicks for ever: if no key is pressed it never returns, and with it
  neither does the expansion, which keeps the injection lock.\<close>

theorem click_zero_never_returns:
  assumes "quiet_machine ops view screen gen"
  shows "inject_mouse_click_loop ops button 0 gen report w = None"
proof -
  have "click_until_aborted ops button gen w = None"
    using click_returns_aborted [of ops button gen w] quiet_machine.not_aborted [OF assms]
    by (cases "click_until_aborted ops button gen w") (auto, metis Pair_inject)
  then show ?thesis by (simp add: inject_mouse_click_loop_def)
qed

theorem click_zero_never_returns_witness:
  "inject_mouse_click_loop calm_ops MouseLeft 0 1 \<lparr>ir_successful_chars = 0, ir_completed = True\<rparr>
     (fake_start [] None) = None"
  by (rule click_zero_never_returns [OF calm.quiet_machine_axioms])

end
