(* ===== verification/Tags.thy ===== *)
theory Tags
  imports Prelude
begin

text \<open>
  Tags of templates, \<open>core/src/engine/variables/tags.rs\<close>: escaped characters, the scan for all tags
  (\<open>scan_tag_bounds\<close>), the next outermost tag (\<open>find_next_tag\<close>) and the split of a tag into key and
  default.  The loops walk over the bytes of the template; they only look for ASCII characters, so the
  model walks over its characters and a bound is the index of a character.
\<close>

section \<open>Escapes and slices\<close>

record tag_bounds =
  tb_start :: nat
  tb_end :: nat

abbreviation backslash :: char where
  "backslash \<equiv> CHR 0x5C"

abbreviation tag_open :: char where
  "tag_open \<equiv> CHR ''[''"

abbreviation tag_close :: char where
  "tag_close \<equiv> CHR '']''"

definition is_quote :: "char \<Rightarrow> bool" where
  "is_quote c \<longleftrightarrow> c = CHR 0x27 \<or> c = CHR 0x22"

lemma is_quote_bracket [simp]: "\<not> is_quote tag_open" "\<not> is_quote tag_close"
  by (simp_all add: is_quote_def)

text \<open>The number of backslashes that end just before an index.\<close>

fun backslash_run :: "string \<Rightarrow> nat \<Rightarrow> nat" where
  "backslash_run bytes 0 = 0"
| "backslash_run bytes (Suc cursor) =
     (if bytes ! cursor = backslash then Suc (backslash_run bytes cursor) else 0)"

definition is_escaped :: "string \<Rightarrow> nat \<Rightarrow> bool" where
  "is_escaped bytes idx \<longleftrightarrow> odd (backslash_run bytes idx)"

definition slice :: "string \<Rightarrow> nat \<Rightarrow> nat \<Rightarrow> string" where
  "slice s a b = take (b - a) (drop a s)"

definition tag_inner :: "string \<Rightarrow> tag_bounds \<Rightarrow> string" where
  "tag_inner template tag = str_trim (slice template (tb_start tag + 1) (tb_end tag))"

section \<open>All tags\<close>

function scan_loop ::
  "string \<Rightarrow> nat \<Rightarrow> char option \<Rightarrow> nat list \<Rightarrow> tag_bounds list \<Rightarrow> tag_bounds list" where
  "scan_loop bytes ptr quote stack tags =
     (if ptr < length bytes then
        (let c = bytes ! ptr; plain = \<not> is_escaped bytes ptr in
         case quote of
           Some q \<Rightarrow> scan_loop bytes (ptr + 1) (if c = q \<and> plain then None else quote) stack tags
         | None \<Rightarrow>
             if is_quote c \<and> stack \<noteq> [] \<and> plain then scan_loop bytes (ptr + 1) (Some c) stack tags
             else if c = tag_open \<and> plain then scan_loop bytes (ptr + 1) None (ptr # stack) tags
             else if c = tag_close \<and> plain then
               (case stack of
                  [] \<Rightarrow> scan_loop bytes (ptr + 1) None [] tags
                | start # rest \<Rightarrow>
                    scan_loop bytes (ptr + 1) None rest (tags @ [\<lparr>tb_start = start, tb_end = ptr\<rparr>]))
             else scan_loop bytes (ptr + 1) None stack tags)
      else tags)"
  by pat_completeness auto
termination
  by (relation "measure (\<lambda>(bytes, ptr, _). length bytes - ptr)") auto

declare scan_loop.simps [simp del]

definition scan_tag_bounds :: "string \<Rightarrow> tag_bounds list" where
  "scan_tag_bounds template = scan_loop template 0 None [] []"

section \<open>The next tag\<close>

text \<open>\<open>opened\<close> is where the outermost open bracket stands; the depth counts the open ones.\<close>

function find_tag_loop ::
  "string \<Rightarrow> nat \<Rightarrow> nat option \<Rightarrow> nat \<Rightarrow> char option \<Rightarrow> tag_bounds option" where
  "find_tag_loop bytes ptr opened depth quote =
     (if ptr < length bytes then
        (let c = bytes ! ptr; plain = \<not> is_escaped bytes ptr in
         case quote of
           Some q \<Rightarrow> find_tag_loop bytes (ptr + 1) opened depth (if c = q \<and> plain then None else quote)
         | None \<Rightarrow>
             if is_quote c \<and> depth > 0 \<and> plain then find_tag_loop bytes (ptr + 1) opened depth (Some c)
             else if c = tag_open \<and> plain then
               find_tag_loop bytes (ptr + 1) (if depth = 0 then Some ptr else opened) (depth + 1) None
             else if c = tag_close \<and> plain \<and> depth > 0 then
               (if depth - 1 = 0 then map_option (\<lambda>start. \<lparr>tb_start = start, tb_end = ptr\<rparr>) opened
                else find_tag_loop bytes (ptr + 1) opened (depth - 1) None)
             else find_tag_loop bytes (ptr + 1) opened depth None)
      else None)"
  by pat_completeness auto
termination
  by (relation "measure (\<lambda>(bytes, ptr, _). length bytes - ptr)") auto

declare find_tag_loop.simps [simp del]

definition find_next_tag :: "string \<Rightarrow> nat \<Rightarrow> tag_bounds option" where
  "find_next_tag template from = find_tag_loop template from None 0 None"

section \<open>Key and default\<close>

function split_key_loop ::
  "string \<Rightarrow> nat \<Rightarrow> int \<Rightarrow> int \<Rightarrow> char option \<Rightarrow> string \<times> string option" where
  "split_key_loop inner ptr depth paren quote =
     (if ptr < length inner then
        (let c = inner ! ptr; plain = \<not> is_escaped inner ptr in
         case quote of
           Some q \<Rightarrow> split_key_loop inner (ptr + 1) depth paren (if c = q \<and> plain then None else quote)
         | None \<Rightarrow>
             if is_quote c \<and> plain then split_key_loop inner (ptr + 1) depth paren (Some c)
             else if c = tag_open \<and> plain then split_key_loop inner (ptr + 1) (depth + 1) paren None
             else if c = tag_close \<and> plain then split_key_loop inner (ptr + 1) (depth - 1) paren None
             else if c = CHR ''('' \<and> plain then split_key_loop inner (ptr + 1) depth (paren + 1) None
             else if c = CHR '')'' \<and> plain then split_key_loop inner (ptr + 1) depth (paren - 1) None
             else if c = CHR ''='' \<and> depth = 0 \<and> paren = 0
             then (str_trim (take ptr inner), Some (str_trim (drop (ptr + 1) inner)))
             else split_key_loop inner (ptr + 1) depth paren None)
      else (inner, None))"
  by pat_completeness auto
termination
  by (relation "measure (\<lambda>(inner, ptr, _). length inner - ptr)") auto

declare split_key_loop.simps [simp del]

definition split_key_default :: "string \<Rightarrow> string \<times> string option" where
  "split_key_default inner = split_key_loop (str_trim inner) 0 0 0 None"

section \<open>Where the tags are\<close>

definition tag_ok :: "string \<Rightarrow> tag_bounds \<Rightarrow> bool" where
  "tag_ok s tag \<longleftrightarrow> tb_start tag < tb_end tag \<and> tb_end tag < length s \<and>
     s ! tb_start tag = tag_open \<and> s ! tb_end tag = tag_close \<and>
     \<not> is_escaped s (tb_start tag) \<and> \<not> is_escaped s (tb_end tag)"

text \<open>While the depth is positive, the outermost open bracket is known.\<close>

definition opened_ok :: "string \<Rightarrow> nat \<Rightarrow> nat \<Rightarrow> nat option \<Rightarrow> nat \<Rightarrow> bool" where
  "opened_ok s from ptr opened depth \<longleftrightarrow> depth = 0 \<or>
     (\<exists>i. opened = Some i \<and> from \<le> i \<and> i < ptr \<and> s ! i = tag_open \<and> \<not> is_escaped s i \<and>
       (\<forall>j. from \<le> j \<longrightarrow> j < i \<longrightarrow> \<not> (s ! j = tag_open \<and> \<not> is_escaped s j)))"

definition no_open :: "string \<Rightarrow> nat \<Rightarrow> nat \<Rightarrow> bool" where
  "no_open s from ptr \<longleftrightarrow> (\<forall>j. from \<le> j \<longrightarrow> j < ptr \<longrightarrow> \<not> (s ! j = tag_open \<and> \<not> is_escaped s j))"

lemma no_open_step:
  "no_open s from ptr \<Longrightarrow> \<not> (s ! ptr = tag_open \<and> \<not> is_escaped s ptr) \<Longrightarrow> no_open s from (Suc ptr)"
  by (auto simp: no_open_def less_Suc_eq)

lemma opened_ok_step: "opened_ok s from ptr opened depth \<Longrightarrow> opened_ok s from (Suc ptr) opened depth"
  by (auto simp: opened_ok_def)

lemma opened_ok_less:
  "opened_ok s from ptr opened depth \<Longrightarrow> depth' \<le> depth \<Longrightarrow> opened_ok s from ptr opened depth'"
  by (auto simp: opened_ok_def)

lemma opened_ok_open:
  assumes "opened_ok s from ptr opened depth" and "depth = 0 \<Longrightarrow> no_open s from ptr"
    and "s ! ptr = tag_open" and "\<not> is_escaped s ptr" and "from \<le> ptr"
  shows "opened_ok s from (ptr + 1) (if depth = 0 then Some ptr else opened) (depth + 1)"
  using assms by (auto simp: opened_ok_def no_open_def)

lemma find_tag_loop_sound:
  "find_tag_loop s ptr opened depth quote = Some tag \<Longrightarrow> opened_ok s from ptr opened depth \<Longrightarrow>
   from \<le> ptr \<Longrightarrow> (depth = 0 \<longrightarrow> quote = None \<and> no_open s from ptr) \<Longrightarrow>
   tag_ok s tag \<and> from \<le> tb_start tag \<and> no_open s from (tb_start tag)"
proof (induction s ptr opened depth quote rule: find_tag_loop.induct)
  case (1 s ptr opened depth quote)
  have len: "ptr < length s"
    using "1.prems"(1) find_tag_loop.simps [of s ptr opened depth quote] by (auto split: if_splits)
  show ?case
  proof (cases quote)
    case (Some q)
    then have "depth \<noteq> 0" using "1.prems"(4) by auto
    then show ?thesis
      using "1.IH"(5) [OF len refl refl Some] "1.prems" len
      by (simp add: find_tag_loop.simps [of s ptr] Let_def opened_ok_step Some cong: if_cong)
  next
    case None
    show ?thesis
    proof (cases "is_quote (s ! ptr) \<and> depth > 0 \<and> \<not> is_escaped s ptr")
      case True
      then show ?thesis
        using "1.IH"(1) [OF len refl refl None True] "1.prems" len None
        by (simp add: find_tag_loop.simps [of s ptr] Let_def opened_ok_step)
    next
      case nq: False
      show ?thesis
      proof (cases "s ! ptr = tag_open \<and> \<not> is_escaped s ptr")
        case True
        then have "opened_ok s from (ptr + 1) (if depth = 0 then Some ptr else opened) (depth + 1)"
          using opened_ok_open "1.prems" by blast
        then show ?thesis
          using "1.IH"(2) [OF len refl refl None nq True] "1.prems" len None True nq
          by (simp add: find_tag_loop.simps [of s ptr] Let_def)
      next
        case no: False
        show ?thesis
        proof (cases "s ! ptr = tag_close \<and> \<not> is_escaped s ptr \<and> depth > 0")
          case True
          show ?thesis
          proof (cases "depth - 1 = 0")
            case outer: True
            then have "map_option (\<lambda>start. \<lparr>tb_start = start, tb_end = ptr\<rparr>) opened = Some tag"
              using "1.prems"(1) len None nq no True by (simp add: find_tag_loop.simps [of s ptr] Let_def)
            then show ?thesis
              using "1.prems"(2) True len by (auto simp: opened_ok_def tag_ok_def no_open_def)
          next
            case False
            then show ?thesis
              using "1.IH"(3) [OF len refl refl None nq no True False] "1.prems" len None nq no True
                opened_ok_less [OF opened_ok_step [OF "1.prems"(2)], of "depth - 1"]
              by (simp add: find_tag_loop.simps [of s ptr] Let_def)
          qed
        next
          case nc: False
          then show ?thesis
            using "1.IH"(4) [OF len refl refl None nq no nc] "1.prems" len None nq no nc no_open_step
            by (simp add: find_tag_loop.simps [of s ptr] Let_def opened_ok_step)
        qed
      qed
    qed
  qed
qed

lemma find_next_tag_sound:
  "find_next_tag s from = Some tag \<Longrightarrow>
   tag_ok s tag \<and> from \<le> tb_start tag \<and> no_open s from (tb_start tag)"
  unfolding find_next_tag_def
  by (rule find_tag_loop_sound) (auto simp: opened_ok_def no_open_def)

lemma find_next_tag_less [simp]:
  "find_next_tag s from = Some tag \<Longrightarrow> from < tb_end tag + 1 \<and> tb_end tag < length s"
  using find_next_tag_sound [of s "from" tag] by (simp add: tag_ok_def)

lemma find_next_tag_none:
  assumes "tag_open \<notin> set s"
  shows "find_next_tag s from = None"
proof (rule ccontr)
  assume "find_next_tag s from \<noteq> None"
  then obtain tag where "find_next_tag s from = Some tag" by blast
  then have "tag_ok s tag" using find_next_tag_sound by blast
  then have "tag_open = s ! tb_start tag" and "tb_start tag < length s" by (simp_all add: tag_ok_def)
  then show False using assms by (metis nth_mem)
qed

section \<open>The scan\<close>

abbreviation by_end :: "tag_bounds \<Rightarrow> tag_bounds \<Rightarrow> bool" where
  "by_end a b \<equiv> tb_end a < tb_end b"

definition scan_inv :: "string \<Rightarrow> nat \<Rightarrow> nat list \<Rightarrow> tag_bounds list \<Rightarrow> bool" where
  "scan_inv s ptr stack tags \<longleftrightarrow>
     (\<forall>i\<in>set stack. i < ptr \<and> s ! i = tag_open \<and> \<not> is_escaped s i) \<and>
     (\<forall>t\<in>set tags. tag_ok s t \<and> tb_end t < ptr) \<and> sorted_wrt by_end tags"

lemma scan_inv_step: "scan_inv s ptr stack tags \<Longrightarrow> scan_inv s (Suc ptr) stack tags"
  by (auto simp: scan_inv_def less_Suc_eq)

lemma scan_inv_open:
  "scan_inv s ptr stack tags \<Longrightarrow> s ! ptr = tag_open \<Longrightarrow> \<not> is_escaped s ptr \<Longrightarrow>
   scan_inv s (Suc ptr) (ptr # stack) tags"
  by (auto simp: scan_inv_def less_Suc_eq)

lemma scan_inv_close:
  "scan_inv s ptr (start # rest) tags \<Longrightarrow> s ! ptr = tag_close \<Longrightarrow> \<not> is_escaped s ptr \<Longrightarrow>
   ptr < length s \<Longrightarrow> scan_inv s (Suc ptr) rest (tags @ [\<lparr>tb_start = start, tb_end = ptr\<rparr>])"
  by (auto simp: scan_inv_def less_Suc_eq tag_ok_def sorted_wrt_append)

lemma scan_loop_inv:
  "scan_inv s ptr stack tags \<Longrightarrow>
   (\<forall>t\<in>set (scan_loop s ptr quote stack tags). tag_ok s t) \<and> sorted_wrt by_end (scan_loop s ptr quote stack tags)"
proof (induction s ptr quote stack tags rule: scan_loop.induct)
  case (1 s ptr quote stack tags)
  show ?case
  proof (cases "ptr < length s")
    case False
    then show ?thesis using "1.prems" by (simp add: scan_loop.simps [of s ptr] scan_inv_def)
  next
    case True
    let ?plain = "\<not> is_escaped s ptr"
    note IH = "1.IH" [OF True refl refl] and inv = "1.prems" and step = scan_loop.simps [of s ptr]
    show ?thesis
    proof (cases quote)
      case (Some q)
      then show ?thesis using IH(6) [OF Some] True scan_inv_step [OF inv] by (simp add: step Let_def cong: if_cong)
    next
      case None
      consider "is_quote (s ! ptr) \<and> stack \<noteq> [] \<and> ?plain"
        | "\<not> (is_quote (s ! ptr) \<and> stack \<noteq> [] \<and> ?plain)" "s ! ptr = tag_open \<and> ?plain"
        | "\<not> (is_quote (s ! ptr) \<and> stack \<noteq> [] \<and> ?plain)" "\<not> (s ! ptr = tag_open \<and> ?plain)"
          "s ! ptr = tag_close \<and> ?plain"
        | "\<not> (is_quote (s ! ptr) \<and> stack \<noteq> [] \<and> ?plain)" "\<not> (s ! ptr = tag_open \<and> ?plain)"
          "\<not> (s ! ptr = tag_close \<and> ?plain)" by blast
      then show ?thesis
      proof cases
        case 1
        then show ?thesis using IH(1) [OF None] True scan_inv_step [OF inv] None by (simp add: step Let_def)
      next
        case 2
        then show ?thesis using IH(2) [OF None] True scan_inv_open [OF inv] None by (simp add: step Let_def)
      next
        case 3
        show ?thesis
        proof (cases stack)
          case Nil
          then show ?thesis
            using 3 IH(3) [OF None _ _ _ Nil] True scan_inv_step [OF inv] None by (simp add: step Let_def)
        next
          case (Cons start rest)
          then show ?thesis
            using 3 IH(4) [OF None _ _ _ Cons] True scan_inv_close [OF inv [unfolded Cons]] None
            by (simp add: step Let_def)
        qed
      next
        case 4
        then show ?thesis using IH(5) [OF None] True scan_inv_step [OF inv] None by (auto simp: step Let_def)
      qed
    qed
  qed
qed

lemma scan_gives_innermost_first_aux:
  assumes "scan_tag_bounds s = tag # tags"
  shows "list_all (tag_ok s) (tag # tags)" and "sorted_wrt by_end (tag # tags)"
proof -
  have "scan_inv s 0 [] []" by (simp add: scan_inv_def)
  from scan_loop_inv [OF this, of None]
  show "list_all (tag_ok s) (tag # tags)" and "sorted_wrt by_end (tag # tags)"
    using assms by (auto simp: scan_tag_bounds_def list_all_iff)
qed

text \<open>The scan gives well-formed tags in the order of their closing brackets, so that the tag it gives
  first is an innermost one: no other tag lies inside it.\<close>

theorem scan_gives_innermost_first:
  assumes "scan_tag_bounds s = tag # tags"
  shows "tag_ok s tag \<and> list_all (tag_ok s) tags \<and>
    (\<forall>t\<in>set tags. \<not> (tb_start tag < tb_start t \<and> tb_end t < tb_end tag))"
  using scan_gives_innermost_first_aux [OF assms] by auto

theorem scan_gives_innermost_first_witness:
  "scan_tag_bounds ''[a [b] c]'' = [\<lparr>tb_start = 3, tb_end = 5\<rparr>, \<lparr>tb_start = 0, tb_end = 8\<rparr>] \<and>
   tag_ok ''[a [b] c]'' \<lparr>tb_start = 3, tb_end = 5\<rparr>"
proof -
  have "scan_tag_bounds ''[a [b] c]'' = [\<lparr>tb_start = 3, tb_end = 5\<rparr>, \<lparr>tb_start = 0, tb_end = 8\<rparr>]"
    by code_simp
  then show ?thesis using scan_gives_innermost_first by blast
qed

lemma scan_none:
  assumes "tag_open \<notin> set s"
  shows "scan_tag_bounds s = []"
proof (cases "scan_tag_bounds s")
  case (Cons tag tags)
  then have "s ! tb_start tag = tag_open" and "tb_start tag < length s"
    using scan_gives_innermost_first_aux [OF Cons] by (auto simp: tag_ok_def)
  then show ?thesis using assms by (metis nth_mem)
qed

section \<open>The split at the equals sign\<close>

definition splits_at :: "string \<Rightarrow> string \<times> string option \<Rightarrow> nat \<Rightarrow> bool" where
  "splits_at s r i \<longleftrightarrow> i < length s \<and> s ! i = CHR ''='' \<and>
     r = (str_trim (take i s), Some (str_trim (drop (i + 1) s)))"

definition splits_from :: "string \<Rightarrow> nat \<Rightarrow> string \<times> string option \<Rightarrow> bool" where
  "splits_from s ptr r \<longleftrightarrow> r = (s, None) \<or> (\<exists>i\<ge>ptr. splits_at s r i)"

lemma splits_from_later: "splits_from s (Suc ptr) r \<Longrightarrow> splits_from s ptr r"
  using Suc_leD by (auto simp: splits_from_def)

lemma split_key_loop_cases: "splits_from s ptr (split_key_loop s ptr depth paren quote)"
proof (induction s ptr depth paren quote rule: split_key_loop.induct)
  case (1 s ptr depth paren quote)
  show ?case
  proof (cases "ptr < length s")
    case False
    then show ?thesis by (simp add: split_key_loop.simps [of s ptr] splits_from_def)
  next
    case True
    note IH = "1.IH" [OF True refl refl]
    note step = split_key_loop.simps [of s ptr]
    let ?c = "s ! ptr" and ?plain = "\<not> is_escaped s ptr"
    consider q where "quote = Some q" | "quote = None" "?c = CHR ''='' \<and> depth = 0 \<and> paren = 0"
      | "quote = None" "\<not> (?c = CHR ''='' \<and> depth = 0 \<and> paren = 0)" by blast
    then show ?thesis
    proof cases
      case 1
      then have "splits_from s (Suc ptr) (split_key_loop s ptr depth paren quote)"
        using True IH(7) [OF 1] by (simp add: step Let_def cong: if_cong)
      then show ?thesis by (rule splits_from_later)
    next
      case 2
      then show ?thesis using True by (auto simp: step Let_def is_quote_def splits_from_def splits_at_def)
    next
      case 3
      then have "splits_from s (Suc ptr) (split_key_loop s ptr depth paren quote)"
        using True IH(1-6) by (auto simp: step Let_def)
      then show ?thesis by (rule splits_from_later)
    qed
  qed
qed

lemma split_key_trimmed:
  assumes "split_key_default inner = (k, d)"
  shows "str_trim k = k" and "d = Some v \<Longrightarrow> str_trim v = v"
  using split_key_loop_cases [of "str_trim inner" 0 0 0 None] assms
  by (auto simp: split_key_default_def splits_from_def splits_at_def)

end
