(* ===== verification/Pipeline.thy ===== *)
theory Pipeline
  imports Tags Expansion
begin

text \<open>
  Transformer pipelines, \<open>core/src/engine/variables/system/transformers/mod.rs\<close> and \<open>ai.rs\<close>: the split of
  an expression at its bars (\<open>split_pipeline\<close>), the parsing of one transformer call, the accepted
  numbers of arguments, and the ai transformer.  A loop that pushes a slice \<open>input[start..idx]\<close> keeps
  the characters of that slice in \<open>current\<close>.
\<close>

section \<open>Quotes\<close>

text \<open>\<open>strip_quotes\<close> and \<open>strip_argument_quotes\<close> of \<open>system/mod.rs\<close>.\<close>

definition unquote :: "string \<Rightarrow> string option" where
  "unquote s =
     (if 2 \<le> str_len s \<and> is_quote (hd s) \<and> last s = hd s then Some (butlast (tl s)) else None)"

definition unquoted :: "string \<Rightarrow> string" where
  "unquoted s = (case unquote s of Some t \<Rightarrow> t | None \<Rightarrow> s)"

definition strip_argument_quotes :: "string \<Rightarrow> string" where
  "strip_argument_quotes arg = unquoted (str_trim arg)"

section \<open>Splitting a pipeline\<close>

fun pipeline_loop ::
  "string \<Rightarrow> string list \<Rightarrow> string \<Rightarrow> nat \<Rightarrow> char option \<Rightarrow> bool \<Rightarrow> string list" where
  "pipeline_loop [] segments current depth quote escaped = segments @ [str_trim current]"
| "pipeline_loop (c # cs) segments current depth quote escaped =
     (if escaped then pipeline_loop cs segments (current @ [c]) depth quote False
      else if c = backslash then pipeline_loop cs segments (current @ [c]) depth quote True
      else case quote of
        Some q \<Rightarrow> pipeline_loop cs segments (current @ [c]) depth (if c = q then None else quote) False
      | None \<Rightarrow>
          if is_quote c then pipeline_loop cs segments (current @ [c]) depth (Some c) False
          else if c = CHR ''('' \<or> c = tag_open
          then pipeline_loop cs segments (current @ [c]) (depth + 1) None False
          else if c = CHR '')'' \<or> c = tag_close
          then pipeline_loop cs segments (current @ [c]) (depth - 1) None False
          else if c = CHR ''|'' \<and> depth = 0
          then pipeline_loop cs (segments @ [str_trim current]) [] depth None False
          else pipeline_loop cs segments (current @ [c]) depth None False)"

definition split_pipeline :: "string \<Rightarrow> string list" where
  "split_pipeline input = pipeline_loop input [] [] 0 None False"

section \<open>Transformer calls\<close>

definition transformers :: "string list" where
  "transformers =
     [''case'', ''lines'', ''count'', ''truncate'', ''repeat'', ''replace'', ''slice'', ''filter'', ''strip'',
      ''encode'', ''decode'', ''clean'', ''hash'', ''extract'', ''wrap'', ''unwrap'', ''color'', ''json'', ''html'',
      ''xml'', ''toml'', ''yaml'', ''regex'', ''calc'', ''ai'']"

definition transformer_arity :: "string \<Rightarrow> (nat \<times> nat) option" where
  "transformer_arity name =
     (if name \<in> {''case'', ''count'', ''truncate'', ''repeat'', ''filter'', ''strip'', ''encode'', ''decode'',
         ''clean'', ''hash'', ''wrap'', ''unwrap'', ''color'', ''json'', ''html'', ''xml'', ''toml'', ''yaml'',
         ''ai''} then Some (1, 1)
      else if name = ''slice'' then Some (2, 2)
      else if name = ''replace'' then Some (2, 3)
      else if name = ''regex'' \<or> name = ''extract'' then Some (1, 2)
      else if name = ''lines'' then Some (1, usize_max)
      else if name = ''calc'' then Some (0, 1)
      else None)"

text \<open>\<open>find_call_open\<close>: the text before the parenthesis that opens the arguments, and the text after it.\<close>

fun find_call_loop :: "string \<Rightarrow> string \<Rightarrow> char option \<Rightarrow> bool \<Rightarrow> (string \<times> string) option" where
  "find_call_loop before [] quote escaped = None"
| "find_call_loop before (c # cs) quote escaped =
     (case quote of
        Some q \<Rightarrow>
          if escaped then find_call_loop (before @ [c]) cs quote False
          else if c = backslash then find_call_loop (before @ [c]) cs quote True
          else find_call_loop (before @ [c]) cs (if c = q then None else quote) False
      | None \<Rightarrow>
          if is_quote c then find_call_loop (before @ [c]) cs (Some c) escaped
          else if c = CHR ''('' then Some (before, cs)
          else if c = CHR '')'' then None
          else find_call_loop (before @ [c]) cs None escaped)"

definition find_call_open :: "string \<Rightarrow> (string \<times> string) option" where
  "find_call_open input = find_call_loop [] input None False"

fun arguments_loop ::
  "string \<Rightarrow> string list \<Rightarrow> string \<Rightarrow> nat \<Rightarrow> char option \<Rightarrow> bool \<Rightarrow> string list option" where
  "arguments_loop [] parts current depth quote escaped =
     (if depth \<noteq> 0 \<or> quote \<noteq> None then None else Some (parts @ [str_trim current]))"
| "arguments_loop (c # cs) parts current depth quote escaped =
     (case quote of
        Some q \<Rightarrow>
          if escaped then arguments_loop cs parts (current @ [c]) depth quote False
          else if c = backslash then arguments_loop cs parts (current @ [c]) depth quote True
          else arguments_loop cs parts (current @ [c]) depth (if c = q then None else quote) False
      | None \<Rightarrow>
          if is_quote c then arguments_loop cs parts (current @ [c]) depth (Some c) escaped
          else if c = CHR ''('' then arguments_loop cs parts (current @ [c]) (depth + 1) None escaped
          else if c = CHR '')'' then
            (if depth = 0 then None
             else arguments_loop cs parts (current @ [c]) (depth - 1) None escaped)
          else if c = CHR '','' \<and> depth = 0
          then arguments_loop cs (parts @ [str_trim current]) [] depth None escaped
          else arguments_loop cs parts (current @ [c]) depth None escaped)"

definition split_arguments :: "string \<Rightarrow> string list option" where
  "split_arguments args = (if str_trim args = [] then Some [] else arguments_loop args [] [] 0 None False)"

record parsed_transformer =
  pt_name :: string
  pt_args :: "string list"

definition parse_transformer :: "string \<Rightarrow> parsed_transformer option" where
  "parse_transformer raw =
     (let input = str_trim raw in
      case find_call_open input of
        Some (before, after) \<Rightarrow>
          (if suffix '')'' after then
             (case split_arguments (butlast after) of
                Some args \<Rightarrow>
                  if str_trim before \<in> set transformers
                  then Some \<lparr>pt_name = str_trim before, pt_args = args\<rparr> else None
              | None \<Rightarrow> None)
           else None)
      | None \<Rightarrow> if input \<in> set transformers then Some \<lparr>pt_name = input, pt_args = []\<rparr> else None)"

definition transformer_call_parts :: "string \<Rightarrow> (string \<times> nat) option" where
  "transformer_call_parts segment =
     map_option (\<lambda>p. (pt_name p, length (pt_args p))) (parse_transformer (str_trim segment))"

definition is_valid_transformer :: "string \<Rightarrow> bool" where
  "is_valid_transformer input \<longleftrightarrow> parse_transformer input \<noteq> None"

section \<open>The ai transformer\<close>

definition is_ai_transformer :: "string \<Rightarrow> bool" where
  "is_ai_transformer transformer =
     (let t = str_trim transformer in t = ''ai'' \<or> prefix ''ai('' t \<or> prefix ''ai ('' t)"

definition extract_ai_prompt :: "string \<Rightarrow> string" where
  "extract_ai_prompt transformer =
     (case strip_prefix ''ai'' (str_trim transformer) of
        None \<Rightarrow> []
      | Some rest \<Rightarrow>
          (case strip_prefix ''('' (str_trim rest) of
             None \<Rightarrow> []
           | Some inner \<Rightarrow>
               (case strip_suffix '')'' inner of
                  None \<Rightarrow> []
                | Some inner' \<Rightarrow> unquoted (str_trim inner'))))"

text \<open>\<open>strip_markdown_fence\<close>: the code slices from \<open>start_idx\<close> to three characters before the end, which
  panics when the first lies after the second.\<close>

definition fence :: string where
  "fence = replicate 3 (CHR 0x60)"

fun find_char :: "char \<Rightarrow> string \<Rightarrow> nat option" where
  "find_char d [] = None"
| "find_char d (c # cs) = (if c = d then Some 0 else map_option Suc (find_char d cs))"

definition strip_markdown_fence :: "string \<Rightarrow> string option" where
  "strip_markdown_fence txt =
     (let t = str_trim txt in
      if prefix fence t \<and> suffix fence t \<and> 6 \<le> str_len t then
        (let end_of_first_line = (case find_char (CHR 0x0A) t of Some i \<Rightarrow> i | None \<Rightarrow> 3);
             start_idx = (if end_of_first_line < length t - 3 then end_of_first_line + 1 else 3)
         in if start_idx \<le> length t - 3 then Some (str_trim (slice t start_idx (length t - 3))) else None)
      else Some txt)"

section \<open>Splitting and joining\<close>

text \<open>What a segment does to the state of the split: depth, quote and escape, or nothing when it would be
  cut at a bar of its own.\<close>

fun segment_state :: "string \<Rightarrow> nat \<times> char option \<times> bool \<Rightarrow> (nat \<times> char option \<times> bool) option" where
  "segment_state [] st = Some st"
| "segment_state (c # cs) (depth, quote, escaped) =
     (if escaped then segment_state cs (depth, quote, False)
      else if c = backslash then segment_state cs (depth, quote, True)
      else case quote of
        Some q \<Rightarrow> segment_state cs (depth, if c = q then None else quote, False)
      | None \<Rightarrow>
          if is_quote c then segment_state cs (depth, Some c, False)
          else if c = CHR ''('' \<or> c = tag_open then segment_state cs (depth + 1, None, False)
          else if c = CHR '')'' \<or> c = tag_close then segment_state cs (depth - 1, None, False)
          else if c = CHR ''|'' \<and> depth = 0 then None
          else segment_state cs (depth, None, False))"

definition closed_segment :: "string \<Rightarrow> bool" where
  "closed_segment s \<longleftrightarrow> segment_state s (0, None, False) = Some (0, None, False) \<and> str_trim s = s"

lemma pipeline_loop_segment:
  "segment_state s (depth, quote, escaped) = Some (depth', quote', escaped') \<Longrightarrow>
   pipeline_loop (s @ cs) segments current depth quote escaped =
   pipeline_loop cs segments (current @ s) depth' quote' escaped'"
proof (induction s arbitrary: depth quote escaped current)
  case (Cons c s)
  then show ?case by (cases quote) (auto split: if_split_asm)
qed simp

lemma str_trim_blanks [simp]:
  "str_trim (s @ '' '') = str_trim s" "str_trim (CHR '' '' # s) = str_trim s"
proof -
  have ws: "is_whitespace (CHR '' '')" by code_simp
  then show "str_trim (CHR '' '' # s) = str_trim s" by (simp add: trim_start_def str_trim_def)
  show "str_trim (s @ '' '') = str_trim s"
  proof (cases "\<forall>c\<in>set s. is_whitespace c")
    case True
    then have "trim_start (s @ '' '') = []" and "trim_start s = []"
      using ws by (simp_all add: trim_start_def dropWhile_append)
    then show ?thesis by (simp add: str_trim_def)
  next
    case False
    then have "trim_start (s @ '' '') = trim_start s @ '' ''"
      by (auto simp: trim_start_def dropWhile_append)
    then show ?thesis using ws by (simp add: str_trim_def trim_end_def)
  qed
qed

lemma pipeline_loop_join:
  assumes "list_all closed_segment segs" and "segs \<noteq> []"
  shows "pipeline_loop ('' '' @ join_with '' | '' segs) ready [] 0 None False = ready @ segs"
  using assms
proof (induction segs arbitrary: ready)
  case (Cons s segs)
  have closed: "segment_state s (0, None, False) = Some (0, None, False)" and trim: "str_trim s = s"
    using Cons.prems by (simp_all add: closed_segment_def)
  have blank: "segment_state ('' '') (0, None, False) = Some (0, None, False)"
    by (simp add: is_quote_def)
  show ?case
  proof (cases segs)
    case Nil
    then show ?thesis
      using pipeline_loop_segment [OF closed, of "[]"] pipeline_loop_segment [OF blank]
      by (simp add: trim)
  next
    case (Cons s' segs')
    have "pipeline_loop ('' '' @ s @ '' '' @ ''|'' @ '' '' @ join_with '' | '' segs) ready [] 0 None False =
        pipeline_loop ('' '' @ join_with '' | '' segs) (ready @ [s]) [] 0 None False"
      using pipeline_loop_segment [OF closed] pipeline_loop_segment [OF blank]
      by (simp add: trim is_quote_def)
    then show ?thesis using Cons Cons.IH [of "ready @ [s]"] Cons.prems(1) by simp
  qed
qed simp

lemma pipeline_join:
  assumes "list_all closed_segment segs" and "segs \<noteq> []"
  shows "split_pipeline (join_with '' | '' segs) = segs"
proof -
  obtain s rest where segs: "segs = s # rest" using assms(2) by (cases segs) auto
  have closed: "segment_state s (0, None, False) = Some (0, None, False)" and trim: "str_trim s = s"
    using assms(1) segs by (simp_all add: closed_segment_def)
  show ?thesis
  proof (cases rest)
    case Nil
    then show ?thesis using pipeline_loop_segment [OF closed, of "[]"] by (simp add: segs split_pipeline_def trim)
  next
    case (Cons s' rest')
    have blank: "segment_state '' '' (0, None, False) = Some (0, None, False)"
      by (simp add: is_quote_def)
    have "split_pipeline (join_with '' | '' segs) = pipeline_loop ('' '' @ join_with '' | '' rest) [s] [] 0 None False"
      using pipeline_loop_segment [OF closed] pipeline_loop_segment [OF blank]
      by (simp add: segs Cons split_pipeline_def trim is_quote_def)
    then show ?thesis using pipeline_loop_join [of rest "[s]"] assms(1) segs Cons by simp
  qed
qed

lemma pipeline_loop_no_bar:
  "CHR ''|'' \<notin> set s \<Longrightarrow> pipeline_loop s segments current depth quote escaped = segments @ [str_trim (current @ s)]"
  by (induction s arbitrary: current depth quote escaped) (auto split: option.split)

lemma split_pipeline_no_bar [simp]: "CHR ''|'' \<notin> set s \<Longrightarrow> split_pipeline s = [str_trim s]"
  by (simp add: split_pipeline_def pipeline_loop_no_bar)

lemma split_pipeline_nonempty [simp]: "split_pipeline s \<noteq> []"
proof -
  have "pipeline_loop s segments current depth quote escaped \<noteq> []" for segments current depth quote escaped
    by (induction s arbitrary: segments current depth quote escaped) (auto split: option.split)
  then show ?thesis by (simp add: split_pipeline_def)
qed

text \<open>A pipeline printed with its segments between bars is split into the same segments, whenever each of
  them is trimmed, closes its quotes, parentheses and brackets, and has no bar of its own outside
  them.\<close>

theorem pipeline_roundtrip:
  assumes "list_all closed_segment segs" and "segs \<noteq> []"
  shows "split_pipeline (join_with '' | '' segs) = segs"
  by (rule pipeline_join [OF assms])

theorem pipeline_roundtrip_witness:
  "split_pipeline ''clip | replace('|', '-') | case(upper)'' = [''clip'', ''replace('|', '-')'', ''case(upper)'']"
proof -
  let ?segs = "[''clip'', ''replace('|', '-')'', ''case(upper)'']"
  have "list_all closed_segment ?segs" by code_simp
  from pipeline_roundtrip [OF this] show ?thesis by simp
qed

section \<open>Fences\<close>

lemma find_char_less: "find_char d s = Some i \<Longrightarrow> i < length s \<and> s ! i = d"
  by (induction s arbitrary: i) (auto split: if_split_asm)

text \<open>Stripping a code fence never slices backwards: it always returns.\<close>

theorem strip_fence_never_panics: "strip_markdown_fence txt \<noteq> None"
proof -
  have "6 \<le> length t" if p: "prefix fence t" "suffix fence t" and l: "6 \<le> str_len t" for t
  proof (rule ccontr)
    assume "\<not> 6 \<le> length t"
    obtain u v where t: "t = fence @ u" "t = v @ fence" using p unfolding prefix_def suffix_def by blast
    have "length v < 3" using \<open>\<not> 6 \<le> length t\<close> t(2) by (simp add: fence_def)
    then have "take (length v) (fence @ u) = take (length v) fence" by (simp add: fence_def)
    then have "v = take (length v) fence" using t by (metis append_eq_conv_conj)
    then have "set t \<subseteq> {CHR 0x60}" using t(2) set_take_subset [of "length v" fence] by (auto simp: fence_def)
    then have "map (\<lambda>c. if is_ascii c then 1 else (2::nat)) t = map (\<lambda>_. 1) t"
      by (auto simp: is_ascii_def)
    then have "str_len t = length t" by (simp add: str_len_def sum_list_replicate map_replicate_const)
    then show False using l \<open>\<not> 6 \<le> length t\<close> by simp
  qed
  then show ?thesis by (fastforce simp: strip_markdown_fence_def Let_def)
qed

end
