(* ===== verification/Transformers.thy ===== *)
theory Transformers
  imports Pipeline Html MathEval ExpansionCatalog "HOL-Library.Multiset"
begin

text \<open>
  The transformers themselves, \<open>core/src/engine/variables/system/transformers/\<close>: \<open>case.rs\<close>, \<open>text.rs\<close>,
  \<open>lines.rs\<close>, \<open>formatting.rs\<close>, \<open>calc.rs\<close> and the URL part of \<open>encoding.rs\<close>, with the dispatch \<open>apply\<close>
  and the check of argument values (\<open>transformer_value_error\<close>) of \<open>mod.rs\<close>.  The crates behind the
  others (heck, regex, base64, sha2, csscolorparser, and the document parsers of \<open>extractors.rs\<close>) are
  the fields of \<open>transform_env\<close>.
\<close>

section \<open>The environment\<close>

record ('f, 'v) transform_env =
  te_snake :: "string \<Rightarrow> string"
  te_kebab :: "string \<Rightarrow> string"
  te_pascal :: "string \<Rightarrow> string"
  te_camel :: "string \<Rightarrow> string"
  te_regex_replace :: "string \<Rightarrow> string \<Rightarrow> string \<Rightarrow> string option"
  te_parse_f64 :: "string \<Rightarrow> 'v option"
  te_f64_le :: "'v \<Rightarrow> 'v \<Rightarrow> bool"
  te_f64 :: "'f f64_ops"
  te_find :: "string \<Rightarrow> string option"
  te_split :: "string \<Rightarrow> (string \<times> string) option"
  te_from_utf8 :: "nat list \<Rightarrow> string option"
  te_base64_encode :: "string \<Rightarrow> string"
  te_base64_decode :: "string \<Rightarrow> string option"
  te_hash :: "string \<Rightarrow> string \<Rightarrow> string"
  te_color :: "string \<Rightarrow> string \<Rightarrow> string option"
  te_extract :: "string \<Rightarrow> string list \<Rightarrow> string \<Rightarrow> string option"
  te_compilable :: "string \<Rightarrow> bool"
  te_selector :: "string \<Rightarrow> bool"

text \<open>\<open>str::parse\<close> at an unsigned type with the given greatest value.\<close>

definition parse_unsigned :: "nat \<Rightarrow> string \<Rightarrow> nat option" where
  "parse_unsigned greatest s =
     (let d = (case s of [] \<Rightarrow> [] | c # cs \<Rightarrow> if c = CHR ''+'' then cs else s)
      in if d \<noteq> [] \<and> list_all is_ascii_digit d \<and> digits_val d \<le> greatest then Some (digits_val d) else None)"

abbreviation parse_usize :: "string \<Rightarrow> nat option" where
  "parse_usize \<equiv> parse_unsigned usize_max"

section \<open>Case\<close>

text \<open>\<open>preserve_whitespace\<close>: the transform sees the text from the first to the last alphanumeric.\<close>

definition preserve_whitespace :: "string \<Rightarrow> (string \<Rightarrow> string) \<Rightarrow> string" where
  "preserve_whitespace content transform =
     (let leading = takeWhile (Not \<circ> is_alphanumeric) content;
          rest = drop (length leading) content;
          trailing = rev (takeWhile (Not \<circ> is_alphanumeric) (rev rest))
      in if rest = [] then content
         else leading @ transform (take (length rest - length trailing) rest) @ trailing)"

definition sentence_case :: "string \<Rightarrow> string" where
  "sentence_case content = (case content of [] \<Rightarrow> [] | c # cs \<Rightarrow> to_uppercase c @ cs)"

fun title_case_loop :: "bool \<Rightarrow> string \<Rightarrow> string" where
  "title_case_loop new_word [] = []"
| "title_case_loop new_word (c # cs) =
     (if is_whitespace c then c # title_case_loop True cs
      else if new_word then to_uppercase c @ title_case_loop False cs
      else c # title_case_loop False cs)"

definition title_case :: "string \<Rightarrow> string" where
  "title_case content = title_case_loop True content"

definition is_ascii_punctuation :: "char \<Rightarrow> bool" where
  "is_ascii_punctuation c \<longleftrightarrow> 33 \<le> code c \<and> code c \<le> 126 \<and> \<not> is_ascii_digit c \<and>
     \<not> is_ascii_lowercase c \<and> \<not> is_ascii_uppercase c"

fun slug_loop :: "string \<Rightarrow> bool \<Rightarrow> string \<Rightarrow> string" where
  "slug_loop result last_was_hyphen [] = result"
| "slug_loop result last_was_hyphen (c # cs) =
     (if is_alphanumeric c then slug_loop (result @ [to_lowercase c]) False cs
      else if (is_whitespace c \<or> c = CHR ''-'' \<or> c = CHR ''_'' \<or> is_ascii_punctuation c) \<and>
        result \<noteq> [] \<and> \<not> last_was_hyphen
      then slug_loop (result @ ''-'') True cs
      else slug_loop result last_was_hyphen cs)"

definition slug :: "string \<Rightarrow> string" where
  "slug content =
     (let result = slug_loop [] False content
      in if result \<noteq> [] \<and> last result = CHR ''-'' then butlast result else result)"

definition case_apply :: "('f, 'v) transform_env \<Rightarrow> string \<Rightarrow> string list \<Rightarrow> string \<Rightarrow> string option" where
  "case_apply env transformer args content =
     (if transformer \<noteq> ''case'' \<or> length args \<noteq> 1 then None
      else
        (let style = str_to_lowercase (strip_argument_quotes (hd args)) in
         if style = ''upper'' then Some (str_to_uppercase content)
         else if style = ''lower'' then Some (str_to_lowercase content)
         else if style = ''snake'' then Some (preserve_whitespace content (te_snake env))
         else if style = ''kebab'' then Some (preserve_whitespace content (te_kebab env))
         else if style = ''pascal'' then Some (preserve_whitespace content (te_pascal env))
         else if style = ''camel'' then Some (preserve_whitespace content (te_camel env))
         else if style = ''title'' then Some (title_case content)
         else if style = ''sentence'' then Some (sentence_case content)
         else if style = ''slug'' then Some (slug content)
         else None))"

section \<open>Text\<close>

definition truncate :: "string \<Rightarrow> string \<Rightarrow> string option" where
  "truncate content arg = map_option (\<lambda>limit. take limit content) (parse_usize (strip_argument_quotes arg))"

definition max_repeat_buffer_bytes :: nat where
  "max_repeat_buffer_bytes = 200000"

definition repeat :: "string \<Rightarrow> string \<Rightarrow> string option" where
  "repeat content arg =
     (case parse_usize (strip_argument_quotes arg) of
        None \<Rightarrow> None
      | Some raw_count \<Rightarrow>
          (let count = min raw_count 100 in
           if max_repeat_buffer_bytes < min usize_max (str_len content * count) then None
           else Some (concat (replicate count content))))"

text \<open>\<open>str::replace\<close>: an empty pattern matches between all characters.\<close>

definition str_replace :: "string \<Rightarrow> string \<Rightarrow> string \<Rightarrow> string" where
  "str_replace s old new =
     (if old = [] then new @ concat (map (\<lambda>c. c # new) s) else replace_all old new s)"

definition replace :: "string \<Rightarrow> string \<Rightarrow> string \<Rightarrow> string" where
  "replace content old new = str_replace content (strip_argument_quotes old) (strip_argument_quotes new)"

definition regex_replace :: "('f, 'v) transform_env \<Rightarrow> string \<Rightarrow> string \<Rightarrow> string \<Rightarrow> string" where
  "regex_replace env content pattern replacement =
     (case te_regex_replace env (strip_argument_quotes pattern) content (strip_argument_quotes replacement) of
        Some s \<Rightarrow> s | None \<Rightarrow> content)"

definition slice_text :: "string \<Rightarrow> string \<Rightarrow> string \<Rightarrow> string option" where
  "slice_text content start_arg end_arg =
     (case (parse_usize (strip_argument_quotes start_arg), parse_usize (strip_argument_quotes end_arg)) of
        (Some s, Some e) \<Rightarrow>
          (let s = min s (length content); e = min e (length content)
           in if e \<le> s then Some [] else Some (slice content s e))
      | _ \<Rightarrow> None)"

definition is_emoji :: "char \<Rightarrow> bool" where
  "is_emoji c \<longleftrightarrow>
     list_ex (\<lambda>(a, b). a \<le> code c \<and> code c \<le> b)
       [(0x1F300, 0x1F5FF), (0x1F600, 0x1F64F), (0x1F680, 0x1F6FF), (0x1F900, 0x1F9FF), (0x1FA70, 0x1FAFF),
        (0x2700, 0x27BF), (0x1F1E6, 0x1F1FF), (0x200D, 0x200D), (0xFE0F, 0xFE0F)]"

definition text_apply :: "('f, 'v) transform_env \<Rightarrow> string \<Rightarrow> string list \<Rightarrow> string \<Rightarrow> string option" where
  "text_apply env transformer args content =
     (let arg = \<lambda>i. strip_argument_quotes (args ! i); n = length args in
      if transformer = ''count'' \<and> n = 1 then
        (if arg 0 = ''chars'' then Some (show_nat (length content))
         else if arg 0 = ''words'' then Some (show_nat (length (split_whitespace content)))
         else None)
      else if transformer = ''truncate'' \<and> n = 1 then truncate content (args ! 0)
      else if transformer = ''repeat'' \<and> n = 1 then repeat content (args ! 0)
      else if transformer = ''replace'' \<and> n = 2 then Some (replace content (args ! 0) (args ! 1))
      else if transformer = ''replace'' \<and> n = 3 \<and> arg 0 = ''regex''
      then Some (regex_replace env content (args ! 1) (args ! 2))
      else if transformer = ''slice'' \<and> n = 2 then slice_text content (args ! 0) (args ! 1)
      else if transformer = ''filter'' \<and> n = 1 then
        (if arg 0 = ''digits'' then Some (filter is_ascii_digit content)
         else if arg 0 = ''alphanumeric'' then Some (filter is_alphanumeric content)
         else None)
      else if transformer = ''strip'' \<and> n = 1 then
        (if arg 0 = ''whitespace'' then Some (str_trim content)
         else if arg 0 = ''emoji'' then Some (filter (\<lambda>c. \<not> is_emoji c) content)
         else None)
      else None)"

section \<open>Lines\<close>

abbreviation newline :: char where
  "newline \<equiv> CHR 0x0A"

definition strip_cr :: "string \<Rightarrow> string" where
  "strip_cr l = (if l \<noteq> [] \<and> last l = CHR 0x0D then butlast l else l)"

text \<open>\<open>str::lines\<close>: a line break ends a line, a carriage return before it belongs to it.\<close>

definition str_lines :: "string \<Rightarrow> string list" where
  "str_lines s =
     (let pieces = split_on newline s
      in map strip_cr (butlast pieces) @ (if last pieces = [] then [] else [last pieces]))"

text \<open>\<open>slice::sort_by\<close> is stable.\<close>

fun insert_by :: "('a \<Rightarrow> 'a \<Rightarrow> bool) \<Rightarrow> 'a \<Rightarrow> 'a list \<Rightarrow> 'a list" where
  "insert_by le x [] = [x]"
| "insert_by le x (y # ys) = (if le x y then x # y # ys else y # insert_by le x ys)"

definition sort_by :: "('a \<Rightarrow> 'a \<Rightarrow> bool) \<Rightarrow> 'a list \<Rightarrow> 'a list" where
  "sort_by le xs = foldr (insert_by le) xs []"

text \<open>The numeric order: lines without a number come last and count as equal.\<close>

definition numeric_le :: "('f, 'v) transform_env \<Rightarrow> string \<Rightarrow> string \<Rightarrow> bool" where
  "numeric_le env a b =
     (case (te_parse_f64 env (str_trim a), te_parse_f64 env (str_trim b)) of
        (None, None) \<Rightarrow> True
      | (None, Some _) \<Rightarrow> False
      | (Some _, None) \<Rightarrow> True
      | (Some x, Some y) \<Rightarrow> te_f64_le env x y)"

text \<open>The flags of \<open>sort_lines\<close>: descending, insensitive, numeric.\<close>

fun sort_flags :: "string list \<Rightarrow> bool \<times> bool \<times> bool \<Rightarrow> (bool \<times> bool \<times> bool) option" where
  "sort_flags [] flags = Some flags"
| "sort_flags (arg # args) (desc, insensitive, numeric) =
     (let clean = str_to_lowercase (str_trim (strip_argument_quotes arg)) in
      if clean = ''desc'' then sort_flags args (True, insensitive, numeric)
      else if clean = ''insensitive'' then sort_flags args (desc, True, numeric)
      else if clean = ''numeric'' then sort_flags args (desc, insensitive, True)
      else None)"

definition sort_lines :: "('f, 'v) transform_env \<Rightarrow> string \<Rightarrow> string list \<Rightarrow> string option" where
  "sort_lines env content args =
     (case sort_flags args (False, False, False) of
        None \<Rightarrow> None
      | Some (desc, insensitive, numeric) \<Rightarrow>
          (let lines = str_lines content;
               sorted =
                 (if numeric then sort_by (numeric_le env) lines
                  else if insensitive then sort_by (\<lambda>a b. str_to_lowercase a \<le> str_to_lowercase b) lines
                  else sort_by (\<le>) lines)
           in Some (join_with [newline] (if desc then rev sorted else sorted))))"

text \<open>\<open>HashSet::insert\<close> as a filter keeps the first of equal lines.\<close>

fun uniq_loop :: "string list \<Rightarrow> string list \<Rightarrow> string list" where
  "uniq_loop seen [] = []"
| "uniq_loop seen (l # ls) = (if l \<in> set seen then uniq_loop seen ls else l # uniq_loop (l # seen) ls)"

definition split_lines :: "string \<Rightarrow> string \<Rightarrow> string" where
  "split_lines content delimiter =
     (let d = strip_argument_quotes delimiter
      in if d = [] then content else replace_all d [newline] content)"

definition lines_apply :: "('f, 'v) transform_env \<Rightarrow> string \<Rightarrow> string list \<Rightarrow> string \<Rightarrow> string option" where
  "lines_apply env transformer args content =
     (if transformer \<noteq> ''lines'' \<or> args = [] then None
      else
        (let action = str_to_lowercase (strip_argument_quotes (str_trim (hd args)));
             rest = tl args; lines = str_lines content;
             arg = strip_argument_quotes (hd rest); joined = join_with [newline]
         in
         if action = ''first'' \<and> rest = [] then Some (if lines = [] then [] else hd lines)
         else if action = ''last'' \<and> rest = [] then Some (if lines = [] then [] else last lines)
         else if action = ''count'' \<and> rest = [] then Some (show_nat (length lines))
         else if action = ''compact'' \<and> rest = [] then Some (joined (filter (\<lambda>l. str_trim l \<noteq> []) lines))
         else if action = ''unique'' \<and> rest = [] then Some (joined (uniq_loop [] lines))
         else if action = ''prefix'' \<and> length rest = 1 then Some (joined (map (\<lambda>l. arg @ l) lines))
         else if action = ''suffix'' \<and> length rest = 1 then Some (joined (map (\<lambda>l. l @ arg) lines))
         else if action = ''join'' \<and> length rest = 1 then Some (join_with arg lines)
         else if action = ''split'' \<and> length rest = 1 then Some (split_lines content (hd rest))
         else if action = ''sort'' then sort_lines env content rest
         else None))"

section \<open>Formatting\<close>

definition unwrap_quoted :: "string \<Rightarrow> char \<Rightarrow> string" where
  "unwrap_quoted content q =
     (if 2 \<le> str_len content \<and> hd content = q \<and> last content = q then butlast (tl content) else content)"

definition wrap_char :: "string \<Rightarrow> char option" where
  "wrap_char style =
     (if style = ''doublequote'' then Some (CHR 0x22)
      else if style = ''singlequote'' then Some (CHR 0x27)
      else if style = ''backtick'' then Some (CHR 0x60)
      else None)"

definition formatting_apply :: "string \<Rightarrow> string list \<Rightarrow> string \<Rightarrow> string option" where
  "formatting_apply transformer args content =
     (if transformer = ''wrap'' \<and> length args = 1 then
        map_option (\<lambda>q. q # content @ [q]) (wrap_char (strip_argument_quotes (hd args)))
      else if transformer = ''unwrap'' \<and> length args = 1 then
        map_option (unwrap_quoted content) (wrap_char (strip_argument_quotes (hd args)))
      else None)"

section \<open>Encoding\<close>

text \<open>The bytes of a string in UTF-8, and the two hexadecimal digits of a byte.\<close>

definition utf8_char :: "char \<Rightarrow> nat list" where
  "utf8_char c = (if is_ascii c then [code c] else [192 + code c div 64, 128 + code c mod 64])"

definition utf8_bytes :: "string \<Rightarrow> nat list" where
  "utf8_bytes s = concat (map utf8_char s)"

definition hex_digit :: "nat \<Rightarrow> char" where
  "hex_digit n = (if n < 10 then digit_char n else char_of (55 + n))"

definition url_plain :: "nat \<Rightarrow> bool" where
  "url_plain b \<longleftrightarrow> (97 \<le> b \<and> b \<le> 122) \<or> (65 \<le> b \<and> b \<le> 90) \<or> (48 \<le> b \<and> b \<le> 57) \<or> b \<in> {45, 95, 46, 126}"

definition url_encode_byte :: "nat \<Rightarrow> string" where
  "url_encode_byte b =
     (if url_plain b then [char_of b]
      else if b = 32 then ''%20''
      else CHR ''%'' # [hex_digit (b div 16), hex_digit (b mod 16)])"

definition urlencode_string :: "string \<Rightarrow> string" where
  "urlencode_string content = concat (map url_encode_byte (utf8_bytes content))"

definition hex_value :: "nat \<Rightarrow> nat option" where
  "hex_value b =
     (if 48 \<le> b \<and> b \<le> 57 then Some (b - 48)
      else if 97 \<le> b \<and> b \<le> 102 then Some (b - 97 + 10)
      else if 65 \<le> b \<and> b \<le> 70 then Some (b - 65 + 10)
      else None)"

text \<open>The loop of \<open>urldecode_string\<close> on the remaining bytes.\<close>

fun urldecode_loop :: "nat list \<Rightarrow> nat list \<Rightarrow> nat list option" where
  "urldecode_loop decoded [] = Some decoded"
| "urldecode_loop decoded (b # bs) =
     (if b = 37 then
        (case bs of
           h # l # rest \<Rightarrow>
             (case (hex_value h, hex_value l) of
                (Some high, Some low) \<Rightarrow> urldecode_loop (decoded @ [16 * high + low]) rest
              | _ \<Rightarrow> None)
         | _ \<Rightarrow> None)
      else if b = 43 then urldecode_loop (decoded @ [32]) bs
      else urldecode_loop (decoded @ [b]) bs)"

definition urldecode_string :: "('f, 'v) transform_env \<Rightarrow> string \<Rightarrow> string option" where
  "urldecode_string env content =
     (case urldecode_loop [] (utf8_bytes content) of Some bytes \<Rightarrow> te_from_utf8 env bytes | None \<Rightarrow> None)"

definition url_clean :: "string \<Rightarrow> string" where
  "url_clean content = takeWhile (\<lambda>c. c \<noteq> CHR ''?'' \<and> c \<noteq> CHR ''#'') (str_trim content)"

definition encoding_apply :: "('f, 'v) transform_env \<Rightarrow> string \<Rightarrow> string list \<Rightarrow> string \<Rightarrow> string option" where
  "encoding_apply env transformer args content =
     (if length args \<noteq> 1 then None
      else
        (let form = strip_argument_quotes (hd args) in
         if transformer = ''encode'' \<and> form = ''url'' then Some (urlencode_string content)
         else if transformer = ''decode'' \<and> form = ''url'' then urldecode_string env content
         else if transformer = ''clean'' \<and> form = ''url'' then Some (url_clean content)
         else if transformer = ''encode'' \<and> form = ''base64'' then Some (te_base64_encode env content)
         else if transformer = ''decode'' \<and> form = ''base64'' then te_base64_decode env (str_trim content)
         else None))"

definition crypto_apply :: "('f, 'v) transform_env \<Rightarrow> string \<Rightarrow> string list \<Rightarrow> string \<Rightarrow> string option" where
  "crypto_apply env transformer args content =
     (if transformer \<noteq> ''hash'' \<or> length args \<noteq> 1 then None
      else
        (let alg = strip_argument_quotes (hd args)
         in if alg = ''sha256'' \<or> alg = ''sha512'' then Some (te_hash env alg content) else None))"

section \<open>Calculation\<close>

definition math_value :: "('f, 'v) transform_env \<Rightarrow> string \<Rightarrow> string option" where
  "math_value env expr =
     (case evaluate (te_f64 env) (te_find env) (te_split env) expr of Parsed s \<Rightarrow> Some s | _ \<Rightarrow> None)"

definition is_calc_placeholder :: "char \<Rightarrow> bool" where
  "is_calc_placeholder c \<longleftrightarrow> c = CHR ''x'' \<or> c = CHR ''X'' \<or> c = CHR ''$'' \<or> c = CHR ''_''"

text \<open>A placeholder stands alone: neither neighbour is alphanumeric.\<close>

definition calc_variable_at :: "string \<Rightarrow> nat \<Rightarrow> bool" where
  "calc_variable_at chars idx \<longleftrightarrow>
     is_calc_placeholder (chars ! idx) \<and>
     \<not> (idx > 0 \<and> is_alphanumeric (chars ! (idx - 1))) \<and>
     \<not> (idx + 1 < length chars \<and> is_alphanumeric (chars ! (idx + 1)))"

definition has_calc_variable :: "string \<Rightarrow> bool" where
  "has_calc_variable arg = list_ex (calc_variable_at arg) [0..<length arg]"

definition replace_calc_variable :: "string \<Rightarrow> string \<Rightarrow> string" where
  "replace_calc_variable arg replacement =
     concat (map (\<lambda>idx. if calc_variable_at arg idx then replacement else [arg ! idx]) [0..<length arg])"

definition calc_apply :: "('f, 'v) transform_env \<Rightarrow> string \<Rightarrow> string list \<Rightarrow> string \<Rightarrow> string option" where
  "calc_apply env transformer args content =
     (if transformer \<noteq> ''calc'' \<or> 1 < length args then None
      else
        (let content_trimmed = str_trim content;
             arg = (if args = [] then [] else str_trim (strip_argument_quotes (hd args)))
         in if arg = [] then math_value env content_trimmed
            else if hd arg \<in> set ''+-*/%^'' then math_value env (content_trimmed @ '' '' @ arg)
            else if has_calc_variable arg then math_value env (replace_calc_variable arg content_trimmed)
            else math_value env arg))"

section \<open>Dispatch\<close>

definition color_apply :: "('f, 'v) transform_env \<Rightarrow> string \<Rightarrow> string list \<Rightarrow> string \<Rightarrow> string option" where
  "color_apply env transformer args content =
     (if transformer \<noteq> ''color'' \<or> length args \<noteq> 1 then None
      else te_color env (strip_argument_quotes (hd args)) content)"

definition apply_parsed :: "('f, 'v) transform_env \<Rightarrow> parsed_transformer \<Rightarrow> string \<Rightarrow> string option" where
  "apply_parsed env p content =
     (let name = pt_name p; args = pt_args p in
      or_else (case_apply env name args content)
       (or_else (text_apply env name args content)
         (or_else (encoding_apply env name args content)
           (or_else (crypto_apply env name args content)
             (or_else (lines_apply env name args content)
               (or_else (formatting_apply name args content)
                 (or_else (color_apply env name args content)
                   (or_else (calc_apply env name args content)
                     (te_extract env name args content)))))))))"

definition apply_transformer :: "('f, 'v) transform_env \<Rightarrow> string \<Rightarrow> string \<Rightarrow> string option" where
  "apply_transformer env transformer content =
     (case parse_transformer transformer of Some p \<Rightarrow> apply_parsed env p content | None \<Rightarrow> None)"

section \<open>The check of argument values\<close>

definition extract_targets :: "string list" where
  "extract_targets =
     [''url'', ''email'', ''phone'', ''mention'', ''hashtag'', ''ip'', ''mac'', ''path'', ''filename'', ''directory'',
      ''jwt'', ''semver'', ''mdcode'', ''mdtable'', ''mdlist'']"

definition canonical_example :: "string \<Rightarrow> string" where
  "canonical_example name =
     (if name = ''case'' then ''case(upper)''
      else if name = ''lines'' then ''lines(first)''
      else if name = ''replace'' then ''replace('' @ [CHR 0x22] @ ''a'' @ [CHR 0x22] @ '', '' @ [CHR 0x22] @ ''b'' @ [CHR 0x22] @ '')''
      else if name = ''regex'' \<or> name = ''extract'' then ''regex('' @ [CHR 0x22] @ ''a+'' @ [CHR 0x22] @ '')''
      else if name = ''calc'' then ''calc('' @ [CHR 0x22] @ ''* 2'' @ [CHR 0x22] @ '')''
      else name @ ''(...)'')"

definition transformer_name_only :: "string \<Rightarrow> string option" where
  "transformer_name_only segment =
     (let name = str_trim (takeWhile (\<lambda>c. c \<noteq> CHR ''('') (str_trim segment))
      in if name \<in> set transformers then Some name else None)"

definition lines_value_ok :: "string list \<Rightarrow> bool" where
  "lines_value_ok args =
     (let action = str_to_ascii_lowercase (if args = [] then [] else strip_argument_quotes (hd args)) in
      if action \<in> {''first'', ''last'', ''count'', ''compact'', ''unique''} then length args = 1
      else if action \<in> {''prefix'', ''suffix'', ''join'', ''split''} then length args = 2
      else if action = ''sort'' then
        list_all (\<lambda>a. str_to_ascii_lowercase (strip_argument_quotes a) \<in> {''desc'', ''insensitive'', ''numeric''})
          (tl args)
      else False)"

definition parsed_value_error :: "('f, 'v) transform_env \<Rightarrow> parsed_transformer \<Rightarrow> string option" where
  "parsed_value_error env p =
     (let args = pt_args p; name = pt_name p;
          arg = \<lambda>i. if i < length args then strip_argument_quotes (args ! i) else [];
          unless = \<lambda>ok hint. if ok then None else Some hint
      in
      if name = ''case'' then
        unless (str_to_ascii_lowercase (arg 0) \<in> {''upper'', ''lower'', ''snake'', ''kebab'', ''pascal'', ''camel'',
          ''title'', ''sentence'', ''slug''}) ''case(upper)''
      else if name = ''count'' then unless (arg 0 \<in> {''chars'', ''words''}) ''count(words)''
      else if name = ''truncate'' \<or> name = ''repeat''
      then unless (parse_usize (arg 0) \<noteq> None) (name @ ''(4)'')
      else if name = ''slice''
      then unless (parse_usize (arg 0) \<noteq> None \<and> parse_usize (arg 1) \<noteq> None) ''slice(1, 3)''
      else if name = ''replace'' \<and> length args = 3 \<and> arg 0 \<noteq> ''regex''
      then Some (''replace(regex, '' @ [CHR 0x22] @ ''a+'' @ [CHR 0x22] @ '', '' @ [CHR 0x22] @ ''b'' @ [CHR 0x22] @ '')'')
      else if name = ''filter'' then unless (arg 0 \<in> {''digits'', ''alphanumeric''}) ''filter(digits)''
      else if name = ''strip'' then unless (arg 0 \<in> {''whitespace'', ''emoji''}) ''strip(whitespace)''
      else if name = ''encode'' \<or> name = ''decode''
      then unless (arg 0 \<in> {''url'', ''base64''}) (name @ ''(url)'')
      else if name = ''clean'' then unless (arg 0 = ''url'') ''clean(url)''
      else if name = ''hash'' then unless (arg 0 \<in> {''sha256'', ''sha512''}) ''hash(sha256)''
      else if name = ''wrap'' \<or> name = ''unwrap''
      then unless (arg 0 \<in> {''doublequote'', ''singlequote'', ''backtick''}) (name @ ''(doublequote)'')
      else if name = ''color''
      then unless (arg 0 \<in> {''hex'', ''rgb'', ''rgba'', ''hsl'', ''hsla''}) ''color(hex)''
      else if name = ''lines'' then unless (lines_value_ok args) ''lines(first)''
      else if name = ''extract''
      then unless (arg 0 \<in> set extract_targets \<or> te_compilable env (arg 0)) ''extract(email)''
      else if name = ''html'' \<or> name = ''xml'' then unless (te_selector env (arg 0)) ''html(div.content)''
      else if name = ''regex''
      then unless (te_compilable env (arg 0)) (''regex('' @ [CHR 0x22] @ ''a+'' @ [CHR 0x22] @ '')'')
      else None)"

definition transformer_value_error :: "('f, 'v) transform_env \<Rightarrow> string \<Rightarrow> string option" where
  "transformer_value_error env segment =
     (case parse_transformer (str_trim segment) of
        None \<Rightarrow> map_option canonical_example (transformer_name_only segment)
      | Some p \<Rightarrow> parsed_value_error env p)"

section \<open>Round trips\<close>

lemma utf8_bytes_ascii: "list_all is_ascii s \<Longrightarrow> utf8_bytes s = map of_char s"
  by (induction s) (simp_all add: utf8_bytes_def utf8_char_def)

lemma utf8_bytes_less: "b \<in> set (utf8_bytes s) \<Longrightarrow> b < 256"
proof -
  have "code c div 64 < 4" for c
    using nat_of_char_less_256 [of c] by (simp add: div_less_iff_less_mult)
  note four = this
  have "b < 256" if "b \<in> set (utf8_char c)" for b c
    using that four [of c]
    by (auto simp: utf8_char_def is_ascii_def split: if_split_asm)
  then show "b \<in> set (utf8_bytes s) \<Longrightarrow> b < 256" by (auto simp: utf8_bytes_def)
qed

lemma code_hex_digit: "n < 16 \<Longrightarrow> hex_value (of_char (hex_digit n)) = Some n \<and> is_ascii (hex_digit n)"
  by (auto simp: hex_digit_def digit_char_def hex_value_def is_ascii_def)

lemma url_encode_byte_ascii: "b < 256 \<Longrightarrow> list_all is_ascii (url_encode_byte b)"
  using code_hex_digit [of "b div 16"] code_hex_digit [of "b mod 16"]
  by (auto simp: url_encode_byte_def url_plain_def is_ascii_def)

lemma urldecode_byte:
  assumes "b < 256"
  shows "urldecode_loop decoded (map of_char (url_encode_byte b) @ rest) = urldecode_loop (decoded @ [b]) rest"
proof -
  have "b div 16 < 16" using assms by simp
  then show ?thesis
    using code_hex_digit [of "b div 16"] code_hex_digit [of "b mod 16"] assms
    by (auto simp: url_encode_byte_def url_plain_def hex_value_def)
qed

lemma urldecode_bytes:
  "\<forall>b\<in>set bs. b < 256 \<Longrightarrow>
   urldecode_loop decoded (map of_char (concat (map url_encode_byte bs))) = Some (decoded @ bs)"
  by (induction bs arbitrary: decoded) (simp_all add: urldecode_byte)

text \<open>C34: Encoding a text for a URL and decoding it gives the text back, for every decoder of UTF-8 that reads
  what was encoded as UTF-8.\<close>

theorem url_roundtrip:
  assumes "\<And>s. te_from_utf8 env (utf8_bytes s) = Some s"
  shows "urldecode_string env (urlencode_string content) = Some content"
proof -
  have "list_all is_ascii (urlencode_string content)"
    using utf8_bytes_less url_encode_byte_ascii by (fastforce simp: urlencode_string_def list_all_iff)
  then show ?thesis
    using urldecode_bytes [of "utf8_bytes content" "[]"] utf8_bytes_less assms
    by (simp add: urldecode_string_def utf8_bytes_ascii urlencode_string_def)
qed

text \<open>A decoder for the characters of the model.\<close>

fun latin_from_utf8 :: "nat list \<Rightarrow> string option" where
  "latin_from_utf8 [] = Some []"
| "latin_from_utf8 (b # bs) =
     (if b < 128 then map_option (Cons (char_of b)) (latin_from_utf8 bs)
      else case bs of
        [] \<Rightarrow> None
      | b' # bs' \<Rightarrow> map_option (Cons (char_of (64 * (b - 192) + (b' - 128)))) (latin_from_utf8 bs'))"

lemma latin_from_utf8_bytes: "latin_from_utf8 (utf8_bytes s) = Some s"
proof (induction s)
  case (Cons c s)
  have "char_of (64 * (code c div 64) + code c mod 64) = c" by simp
  then show ?case using Cons by (simp add: utf8_bytes_def utf8_char_def is_ascii_def)
qed (simp add: utf8_bytes_def)

definition demo_transform_env :: "(nat, nat) transform_env" where
  "demo_transform_env =
     \<lparr>te_snake = id, te_kebab = id, te_pascal = id, te_camel = id, te_regex_replace = \<lambda>_ _ _. None,
      te_parse_f64 = parse_usize, te_f64_le = (\<le>), te_f64 = nat_ops, te_find = \<lambda>_. None,
      te_split = \<lambda>_. None, te_from_utf8 = latin_from_utf8, te_base64_encode = id, te_base64_decode = Some,
      te_hash = \<lambda>_ s. s, te_color = \<lambda>_ _. None, te_extract = \<lambda>_ _ _. None, te_compilable = \<lambda>_. False,
      te_selector = \<lambda>_. False\<rparr>"

theorem url_roundtrip_witness: "urldecode_string demo_transform_env (urlencode_string ''a b/c'') = Some ''a b/c''"
  by (rule url_roundtrip) (simp add: demo_transform_env_def latin_from_utf8_bytes)

text \<open>Wrapping a text in quotes and unwrapping it gives the text back, whatever the text.\<close>

theorem wrap_roundtrip:
  assumes "wrap_char (strip_argument_quotes style) = Some q"
  shows "\<exists>wrapped. formatting_apply ''wrap'' [style] content = Some wrapped \<and>
    formatting_apply ''unwrap'' [style] wrapped = Some content"
  using assms by (simp add: formatting_apply_def unwrap_quoted_def str_len_def)

theorem wrap_roundtrip_witness:
  "\<exists>wrapped. formatting_apply ''wrap'' [''backtick''] ''ls'' = Some wrapped \<and>
     formatting_apply ''unwrap'' [''backtick''] wrapped = Some ''ls''"
proof -
  have "wrap_char (strip_argument_quotes ''backtick'') = Some (CHR 0x60)" by code_simp
  from wrap_roundtrip [OF this] show ?thesis .
qed

section \<open>Slugs\<close>

abbreviation not_both_hyphens :: "char \<Rightarrow> char \<Rightarrow> bool" where
  "not_both_hyphens a b \<equiv> \<not> (a = CHR ''-'' \<and> b = CHR ''-'')"

definition slug_char :: "char \<Rightarrow> bool" where
  "slug_char c \<longleftrightarrow> c = CHR ''-'' \<or> (is_alphanumeric c \<and> \<not> is_uppercase c)"

definition slug_part :: "string \<Rightarrow> bool" where
  "slug_part s \<longleftrightarrow> list_all slug_char s \<and> successively not_both_hyphens s \<and> (s \<noteq> [] \<longrightarrow> hd s \<noteq> CHR ''-'')"

definition is_slug :: "string \<Rightarrow> bool" where
  "is_slug s \<longleftrightarrow> slug_part s \<and> (s \<noteq> [] \<longrightarrow> last s \<noteq> CHR ''-'')"

lemma hyphen_not_alphanumeric [simp]: "\<not> is_alphanumeric (CHR ''-'')"
  by code_simp

lemma lower_alphanumeric: "is_alphanumeric c \<Longrightarrow> is_alphanumeric (to_lowercase c) \<and> \<not> is_uppercase (to_lowercase c)"
  by (auto simp: to_lowercase_def char_defs)

lemma slug_part_snoc:
  "slug_part s \<Longrightarrow> slug_char c \<Longrightarrow> (s = [] \<or> last s = CHR ''-'' \<longrightarrow> c \<noteq> CHR ''-'') \<Longrightarrow> slug_part (s @ [c])"
  by (auto simp: slug_part_def successively_append_iff hd_append)

lemma slug_loop_part:
  "slug_part result \<Longrightarrow> hyphen = (result \<noteq> [] \<and> last result = CHR ''-'') \<Longrightarrow>
   slug_part (slug_loop result hyphen content)"
proof (induction result hyphen content rule: slug_loop.induct)
  case (2 result hyphen c cs)
  have "to_lowercase c \<noteq> CHR ''-''" if "is_alphanumeric c" using lower_alphanumeric [OF that] by auto
  then show ?case
    using 2 lower_alphanumeric [of c] by (auto simp: slug_char_def slug_part_snoc)
qed simp

lemma slug_is_slug: "is_slug (slug content)"
proof -
  have part: "slug_part (slug_loop [] False content)"
    by (rule slug_loop_part) (simp_all add: slug_part_def)
  have "slug_part (butlast r) \<and> (butlast r \<noteq> [] \<longrightarrow> last (butlast r) \<noteq> CHR ''-'')"
    if r: "slug_part r" "r \<noteq> []" "last r = CHR ''-''" for r
  proof -
    obtain u where u: "r = u @ ''-''" using r by (metis append_butlast_last_id)
    show ?thesis using r(1) by (auto simp: u slug_part_def successively_append_iff hd_append split: if_split_asm)
  qed
  then show ?thesis using part by (simp add: slug_def is_slug_def Let_def)
qed

lemma slug_loop_id:
  "successively not_both_hyphens (result @ s) \<Longrightarrow> list_all slug_char s \<Longrightarrow> (result = [] \<longrightarrow> s \<noteq> [] \<longrightarrow> hd s \<noteq> CHR ''-'') \<Longrightarrow>
   hyphen = (result \<noteq> [] \<and> last result = CHR ''-'') \<Longrightarrow> slug_loop result hyphen s = result @ s"
proof (induction s arbitrary: result hyphen)
  case (Cons c s)
  have lower: "to_lowercase c = c" if "is_alphanumeric c"
    using Cons.prems(2) that by (auto simp: slug_char_def to_lowercase_def)
  show ?case
  proof (cases "is_alphanumeric c")
    case True
    then have "c \<noteq> CHR ''-''" by auto
    then show ?thesis using Cons.IH [of "result @ [c]" False] Cons.prems True lower by simp
  next
    case False
    then have c: "c = CHR ''-''" using Cons.prems(2) by (auto simp: slug_char_def)
    then have "result \<noteq> []" and "\<not> hyphen"
      using Cons.prems by (auto simp: successively_append_iff)
    then show ?thesis using Cons.IH [of "result @ [c]" True] Cons.prems c by simp
  qed
qed simp

text \<open>A slug holds lower-case letters and digits with single hyphens between them, and is its own slug.\<close>

theorem slug_shape: "is_slug (slug content) \<and> slug (slug content) = slug content"
proof
  show s: "is_slug (slug content)" by (rule slug_is_slug)
  then have "slug_loop [] False (slug content) = slug content"
    using slug_loop_id [of "[]" "slug content" False] by (simp add: is_slug_def slug_part_def)
  then show "slug (slug content) = slug content"
    using s by (auto simp: slug_def [of "slug content"] is_slug_def Let_def)
qed

section \<open>Sorting lines\<close>

lemma mset_insert_by [simp]: "mset (insert_by le x ys) = add_mset x (mset ys)"
  by (induction ys) auto

lemma mset_sort_by [simp]: "mset (sort_by le xs) = mset xs"
  unfolding sort_by_def by (induction xs) auto

lemma set_sort_by [simp]: "set (sort_by le xs) = set xs"
  by (metis mset_sort_by set_mset_mset)

lemma insert_by_sorted:
  assumes "\<forall>a b. le a b \<or> le b a" and "\<forall>a b c. le a b \<longrightarrow> le b c \<longrightarrow> le a c"
  shows "sorted_wrt le ys \<Longrightarrow> sorted_wrt le (insert_by le x ys)"
proof (induction ys)
  case (Cons y ys)
  have "set (insert_by le x ys) = insert x (set ys)" by (induction ys) auto
  then show ?case using Cons assms by (auto split: if_split)
qed simp

lemma sort_by_sorted:
  assumes "\<forall>a b. le a b \<or> le b a" and "\<forall>a b c. le a b \<longrightarrow> le b c \<longrightarrow> le a c"
  shows "sorted_wrt le (sort_by le xs)"
  unfolding sort_by_def by (induction xs) (simp_all add: insert_by_sorted [OF assms])

text \<open>The order the flags choose.\<close>

definition chosen_order :: "('f, 'v) transform_env \<Rightarrow> bool \<times> bool \<times> bool \<Rightarrow> string \<Rightarrow> string \<Rightarrow> bool" where
  "chosen_order env flags a b =
     (case flags of (desc, insensitive, numeric) \<Rightarrow>
        if numeric then numeric_le env a b
        else if insensitive then str_to_lowercase a \<le> str_to_lowercase b
        else a \<le> b)"

lemma chosen_order_total:
  assumes "\<forall>x y. te_f64_le env x y \<or> te_f64_le env y x"
    and "\<forall>x y z. te_f64_le env x y \<longrightarrow> te_f64_le env y z \<longrightarrow> te_f64_le env x z"
  shows "\<forall>a b. chosen_order env flags a b \<or> chosen_order env flags b a"
    and "\<forall>a b c. chosen_order env flags a b \<longrightarrow> chosen_order env flags b c \<longrightarrow> chosen_order env flags a c"
proof -
  have "\<forall>a b. numeric_le env a b \<or> numeric_le env b a"
    using assms(1) by (auto simp: numeric_le_def split: option.splits)
  then show "\<forall>a b. chosen_order env flags a b \<or> chosen_order env flags b a"
    by (auto simp: chosen_order_def split: prod.splits)
  have "\<forall>a b c. numeric_le env a b \<longrightarrow> numeric_le env b c \<longrightarrow> numeric_le env a c"
    using assms(2) by (auto simp: numeric_le_def split: option.splits)
  then show "\<forall>a b c. chosen_order env flags a b \<longrightarrow> chosen_order env flags b c \<longrightarrow> chosen_order env flags a c"
    by (auto simp: chosen_order_def split: prod.splits)
qed

lemma sort_lines_spec:
  assumes "sort_flags args (False, False, False) = Some flags"
  shows "sort_lines env content args =
    Some (join_with [newline] ((if fst flags then rev else id) (sort_by (chosen_order env flags) (str_lines content))))"
proof -
  obtain desc insensitive numeric where f: "flags = (desc, insensitive, numeric)" by (cases flags)
  have "chosen_order env flags =
      (if numeric then numeric_le env
       else if insensitive then (\<lambda>a b. str_to_lowercase a \<le> str_to_lowercase b) else (\<le>))"
    by (simp add: f chosen_order_def fun_eq_iff)
  then show ?thesis using assms by (simp add: sort_lines_def f)
qed

text \<open>\<open>lines(sort, ...)\<close> gives the lines of the text, none lost and none twice, in the order the flags ask
  for, from the greatest down with \<open>desc\<close>.\<close>

theorem sort_lines_sorts:
  assumes "\<forall>x y. te_f64_le env x y \<or> te_f64_le env y x"
    and "\<forall>x y z. te_f64_le env x y \<longrightarrow> te_f64_le env y z \<longrightarrow> te_f64_le env x z"
    and "sort_flags args (False, False, False) = Some flags"
  shows "\<exists>ls. sort_lines env content args = Some (join_with [newline] ls) \<and>
    mset ls = mset (str_lines content) \<and>
    sorted_wrt (chosen_order env flags) (if fst flags then rev ls else ls)"
proof -
  let ?ls = "sort_by (chosen_order env flags) (str_lines content)"
  have "sorted_wrt (chosen_order env flags) ?ls"
    by (rule sort_by_sorted [OF chosen_order_total [OF assms(1,2)]])
  then show ?thesis
    using sort_lines_spec [OF assms(3)] by (intro exI [of _ "(if fst flags then rev else id) ?ls"]) auto
qed

theorem sort_lines_sorts_witness:
  "\<exists>ls. sort_lines demo_transform_env (''10'' @ [newline] @ ''9'' @ [newline] @ ''b'') [''numeric''] =
       Some (join_with [newline] ls) \<and> mset ls = {#''b'', ''9'', ''10''#}"
proof -
  have f: "sort_flags [''numeric''] (False, False, False) = Some (False, False, True)" by code_simp
  have l: "str_lines (''10'' @ [newline] @ ''9'' @ [newline] @ ''b'') = [''10'', ''9'', ''b'']" by code_simp
  have total: "\<forall>x y. te_f64_le demo_transform_env x y \<or> te_f64_le demo_transform_env y x"
    and trans: "\<forall>x y z. te_f64_le demo_transform_env x y \<longrightarrow> te_f64_le demo_transform_env y z \<longrightarrow>
      te_f64_le demo_transform_env x z"
    by (auto simp: demo_transform_env_def)
  have m: "mset [''10'', ''9'', ''b''] = {#''b'', ''9'', ''10''#}" by simp
  show ?thesis using sort_lines_sorts [OF total trans f, of "''10'' @ [newline] @ ''9'' @ [newline] @ ''b''"]
    unfolding l m by blast
qed

section \<open>Checked calls produce a result\<close>

lemma ascii_lowercase_word:
  assumes "str_to_ascii_lowercase s = w" and "list_all is_ascii_lowercase w"
  shows "str_to_lowercase s = w" and "str_trim s = s"
proof -
  have c: "to_lowercase c = to_ascii_lowercase c \<and> \<not> is_whitespace c" if "c \<in> set s" for c
  proof -
    have "is_ascii_lowercase (to_ascii_lowercase c)"
      using assms that by (auto simp: str_to_ascii_lowercase_def list_all_iff)
    then show ?thesis by (auto simp: to_ascii_lowercase_def to_lowercase_def char_defs split: if_split_asm)
  qed
  then show "str_to_lowercase s = w" using assms(1)
    by (auto simp: str_to_lowercase_def str_to_ascii_lowercase_def)
  show "str_trim s = s" using c by (simp add: str_trim_no_ws)
qed

lemma sort_flags_checked:
  "list_all (\<lambda>a. str_to_ascii_lowercase (strip_argument_quotes a) \<in> {''desc'', ''insensitive'', ''numeric''}) args \<Longrightarrow>
   sort_flags args flags \<noteq> None"
proof (induction args arbitrary: flags)
  case (Cons a args)
  obtain d i n where f: "flags = (d, i, n)" by (cases flags)
  have ascii: "list_all is_ascii_lowercase w" if "w \<in> {''desc'', ''insensitive'', ''numeric''}" for w
    using that by (auto simp: is_ascii_lowercase_def)
  have "str_to_lowercase (str_trim (strip_argument_quotes a)) \<in> {''desc'', ''insensitive'', ''numeric''}"
    using Cons.prems ascii ascii_lowercase_word [OF refl, of "strip_argument_quotes a"] by auto
  then show ?case using Cons by (auto simp: f Let_def)
qed simp

lemma lines_checked:
  assumes "lines_value_ok args"
  shows "lines_apply env ''lines'' args content \<noteq> None"
proof -
  let ?names = "{''first'', ''last'', ''count'', ''compact'', ''unique'', ''prefix'', ''suffix'', ''join'', ''split'', ''sort''}"
  obtain a rest where args: "args = a # rest"
    using assms by (cases args) (auto simp: lines_value_ok_def str_to_ascii_lowercase_def)
  have ascii: "list_all is_ascii_lowercase w" if "w \<in> ?names" for w
    using that by (auto simp: is_ascii_lowercase_def)
  have action: "str_to_ascii_lowercase (strip_argument_quotes a) \<in> ?names"
    using assms by (auto simp: lines_value_ok_def args Let_def split: if_split_asm)
  then have "str_to_lowercase (strip_argument_quotes (str_trim a)) = str_to_ascii_lowercase (strip_argument_quotes a)"
    using ascii_lowercase_word(1) [OF refl ascii [OF action]] by (simp add: strip_argument_quotes_def)
  then show ?thesis
    using assms sort_flags_checked [of rest "(False, False, False)"]
    by (auto simp: lines_apply_def lines_value_ok_def args Let_def sort_lines_def split: if_split_asm)
qed

text \<open>The transformers whose result does not depend on what the text says.\<close>

definition total_transformers :: "string set" where
  "total_transformers =
     {''case'', ''count'', ''truncate'', ''replace'', ''slice'', ''filter'', ''strip'', ''clean'', ''hash'', ''wrap'',
      ''unwrap'', ''lines''}"

lemma length_args:
  "length args = Suc 0 \<Longrightarrow> \<exists>a. args = [a]" "length args = 2 \<Longrightarrow> \<exists>a b. args = [a, b]"
  "length args = 3 \<Longrightarrow> \<exists>a b c. args = [a, b, c]"
  by (auto simp: length_Suc_conv numeral_2_eq_2 numeral_3_eq_3)

lemma case_checked:
  assumes "parsed_value_error env \<lparr>pt_name = ''case'', pt_args = [a]\<rparr> = None"
  shows "case_apply env ''case'' [a] content \<noteq> None"
proof -
  let ?styles = "{''upper'', ''lower'', ''snake'', ''kebab'', ''pascal'', ''camel'', ''title'', ''sentence'', ''slug''}"
  have style: "str_to_ascii_lowercase (strip_argument_quotes a) \<in> ?styles"
    using assms by (auto simp: parsed_value_error_def Let_def split: if_split_asm)
  have "list_all is_ascii_lowercase w" if "w \<in> ?styles" for w
    using that by (auto simp: is_ascii_lowercase_def)
  from ascii_lowercase_word(1) [OF refl this [OF style]] style show ?thesis
    by (auto simp: case_apply_def Let_def)
qed

lemma value_error_one:
  "parsed_value_error env \<lparr>pt_name = ''count'', pt_args = [a]\<rparr> = None \<longleftrightarrow> strip_argument_quotes a \<in> {''chars'', ''words''}"
  "parsed_value_error env \<lparr>pt_name = ''truncate'', pt_args = [a]\<rparr> = None \<longleftrightarrow> parse_usize (strip_argument_quotes a) \<noteq> None"
  "parsed_value_error env \<lparr>pt_name = ''filter'', pt_args = [a]\<rparr> = None \<longleftrightarrow>
     strip_argument_quotes a \<in> {''digits'', ''alphanumeric''}"
  "parsed_value_error env \<lparr>pt_name = ''strip'', pt_args = [a]\<rparr> = None \<longleftrightarrow>
     strip_argument_quotes a \<in> {''whitespace'', ''emoji''}"
  "parsed_value_error env \<lparr>pt_name = ''clean'', pt_args = [a]\<rparr> = None \<longleftrightarrow> strip_argument_quotes a = ''url''"
  "parsed_value_error env \<lparr>pt_name = ''hash'', pt_args = [a]\<rparr> = None \<longleftrightarrow>
     strip_argument_quotes a \<in> {''sha256'', ''sha512''}"
  "parsed_value_error env \<lparr>pt_name = ''wrap'', pt_args = [a]\<rparr> = None \<longleftrightarrow>
     strip_argument_quotes a \<in> {''doublequote'', ''singlequote'', ''backtick''}"
  "parsed_value_error env \<lparr>pt_name = ''unwrap'', pt_args = [a]\<rparr> = None \<longleftrightarrow>
     strip_argument_quotes a \<in> {''doublequote'', ''singlequote'', ''backtick''}"
  by (simp_all add: parsed_value_error_def Let_def)

lemma value_error_more:
  "parsed_value_error env \<lparr>pt_name = ''slice'', pt_args = [a, b]\<rparr> = None \<longleftrightarrow>
     parse_usize (strip_argument_quotes a) \<noteq> None \<and> parse_usize (strip_argument_quotes b) \<noteq> None"
  "parsed_value_error env \<lparr>pt_name = ''replace'', pt_args = [a, b, c]\<rparr> = None \<longleftrightarrow> strip_argument_quotes a = ''regex''"
  "parsed_value_error env \<lparr>pt_name = ''lines'', pt_args = args\<rparr> = None \<longleftrightarrow> lines_value_ok args"
  by (simp_all add: parsed_value_error_def Let_def)

lemma apply_family:
  "case_apply env name args content \<noteq> None \<Longrightarrow> apply_parsed env \<lparr>pt_name = name, pt_args = args\<rparr> content \<noteq> None"
  "text_apply env name args content \<noteq> None \<Longrightarrow> apply_parsed env \<lparr>pt_name = name, pt_args = args\<rparr> content \<noteq> None"
  "encoding_apply env name args content \<noteq> None \<Longrightarrow> apply_parsed env \<lparr>pt_name = name, pt_args = args\<rparr> content \<noteq> None"
  "crypto_apply env name args content \<noteq> None \<Longrightarrow> apply_parsed env \<lparr>pt_name = name, pt_args = args\<rparr> content \<noteq> None"
  "lines_apply env name args content \<noteq> None \<Longrightarrow> apply_parsed env \<lparr>pt_name = name, pt_args = args\<rparr> content \<noteq> None"
  "formatting_apply name args content \<noteq> None \<Longrightarrow> apply_parsed env \<lparr>pt_name = name, pt_args = args\<rparr> content \<noteq> None"
  unfolding apply_parsed_def Let_def parsed_transformer.simps or_else_eq_None by blast+

lemma text_total:
  "strip_argument_quotes a \<in> {''chars'', ''words''} \<Longrightarrow> text_apply env ''count'' [a] content \<noteq> None"
  "parse_usize (strip_argument_quotes a) \<noteq> None \<Longrightarrow> text_apply env ''truncate'' [a] content \<noteq> None"
  "strip_argument_quotes a \<in> {''digits'', ''alphanumeric''} \<Longrightarrow> text_apply env ''filter'' [a] content \<noteq> None"
  "strip_argument_quotes a \<in> {''whitespace'', ''emoji''} \<Longrightarrow> text_apply env ''strip'' [a] content \<noteq> None"
  "text_apply env ''replace'' [a, b] content \<noteq> None"
  "strip_argument_quotes a = ''regex'' \<Longrightarrow> text_apply env ''replace'' [a, b, c] content \<noteq> None"
  "parse_usize (strip_argument_quotes a) \<noteq> None \<Longrightarrow> parse_usize (strip_argument_quotes b) \<noteq> None \<Longrightarrow>
   text_apply env ''slice'' [a, b] content \<noteq> None"
  by (auto simp: text_apply_def truncate_def slice_text_def Let_def)

lemma encoding_total:
  "strip_argument_quotes a = ''url'' \<Longrightarrow> encoding_apply env ''clean'' [a] content \<noteq> None"
  "strip_argument_quotes a \<in> {''sha256'', ''sha512''} \<Longrightarrow> crypto_apply env ''hash'' [a] content \<noteq> None"
  "strip_argument_quotes a \<in> {''doublequote'', ''singlequote'', ''backtick''} \<Longrightarrow>
   formatting_apply ''wrap'' [a] content \<noteq> None"
  "strip_argument_quotes a \<in> {''doublequote'', ''singlequote'', ''backtick''} \<Longrightarrow>
   formatting_apply ''unwrap'' [a] content \<noteq> None"
  by (auto simp: encoding_apply_def crypto_apply_def formatting_apply_def wrap_char_def)

lemma one_total:
  "parsed_value_error env \<lparr>pt_name = ''count'', pt_args = [a]\<rparr> = None \<Longrightarrow>
   apply_parsed env \<lparr>pt_name = ''count'', pt_args = [a]\<rparr> content \<noteq> None"
  "parsed_value_error env \<lparr>pt_name = ''truncate'', pt_args = [a]\<rparr> = None \<Longrightarrow>
   apply_parsed env \<lparr>pt_name = ''truncate'', pt_args = [a]\<rparr> content \<noteq> None"
  "parsed_value_error env \<lparr>pt_name = ''filter'', pt_args = [a]\<rparr> = None \<Longrightarrow>
   apply_parsed env \<lparr>pt_name = ''filter'', pt_args = [a]\<rparr> content \<noteq> None"
  "parsed_value_error env \<lparr>pt_name = ''strip'', pt_args = [a]\<rparr> = None \<Longrightarrow>
   apply_parsed env \<lparr>pt_name = ''strip'', pt_args = [a]\<rparr> content \<noteq> None"
  "parsed_value_error env \<lparr>pt_name = ''clean'', pt_args = [a]\<rparr> = None \<Longrightarrow>
   apply_parsed env \<lparr>pt_name = ''clean'', pt_args = [a]\<rparr> content \<noteq> None"
  "parsed_value_error env \<lparr>pt_name = ''hash'', pt_args = [a]\<rparr> = None \<Longrightarrow>
   apply_parsed env \<lparr>pt_name = ''hash'', pt_args = [a]\<rparr> content \<noteq> None"
  "parsed_value_error env \<lparr>pt_name = ''wrap'', pt_args = [a]\<rparr> = None \<Longrightarrow>
   apply_parsed env \<lparr>pt_name = ''wrap'', pt_args = [a]\<rparr> content \<noteq> None"
  "parsed_value_error env \<lparr>pt_name = ''unwrap'', pt_args = [a]\<rparr> = None \<Longrightarrow>
   apply_parsed env \<lparr>pt_name = ''unwrap'', pt_args = [a]\<rparr> content \<noteq> None"
  unfolding value_error_one
  by (rule apply_family(2) [OF text_total(1)] apply_family(2) [OF text_total(2)] apply_family(2) [OF text_total(3)]
      apply_family(2) [OF text_total(4)] apply_family(3) [OF encoding_total(1)] apply_family(4) [OF encoding_total(2)]
      apply_family(6) [OF encoding_total(3)] apply_family(6) [OF encoding_total(4)], assumption)+

lemma more_total:
  "parsed_value_error env \<lparr>pt_name = ''slice'', pt_args = [a, b]\<rparr> = None \<Longrightarrow>
   apply_parsed env \<lparr>pt_name = ''slice'', pt_args = [a, b]\<rparr> content \<noteq> None"
  "apply_parsed env \<lparr>pt_name = ''replace'', pt_args = [a, b]\<rparr> content \<noteq> None"
  "parsed_value_error env \<lparr>pt_name = ''replace'', pt_args = [a, b, c]\<rparr> = None \<Longrightarrow>
   apply_parsed env \<lparr>pt_name = ''replace'', pt_args = [a, b, c]\<rparr> content \<noteq> None"
  "parsed_value_error env \<lparr>pt_name = ''lines'', pt_args = args\<rparr> = None \<Longrightarrow>
   apply_parsed env \<lparr>pt_name = ''lines'', pt_args = args\<rparr> content \<noteq> None"
  unfolding value_error_more
  by (elim conjE, rule apply_family(2) [OF text_total(7)], assumption, assumption,
      rule apply_family(2) [OF text_total(5)], rule apply_family(2) [OF text_total(6)], assumption,
      rule apply_family(5) [OF lines_checked])

lemma one_argument_checked:
  assumes "parsed_value_error env \<lparr>pt_name = name, pt_args = [a]\<rparr> = None"
    and "name \<in> {''count'', ''truncate'', ''filter'', ''strip'', ''clean'', ''hash'', ''wrap'', ''unwrap''}"
  shows "apply_parsed env \<lparr>pt_name = name, pt_args = [a]\<rparr> content \<noteq> None"
  using assms(2)
proof (elim insertE emptyE)
qed (use assms(1) in \<open>simp_all only: one_total not_False_eq_True\<close>)

lemma parse_transformer_trim [simp]: "parse_transformer (str_trim segment) = parse_transformer segment"
  by (simp add: parse_transformer_def)

lemma checked_applies:
  assumes "transformer_arity (pt_name p) = Some (lo, hi)" and "lo \<le> length (pt_args p)" and "length (pt_args p) \<le> hi"
    and "parsed_value_error env p = None" and "pt_name p \<in> total_transformers"
  shows "apply_parsed env p content \<noteq> None"
proof -
  obtain name args where p: "p = \<lparr>pt_name = name, pt_args = args\<rparr>" by (cases p)
  have len: "lo \<le> length args" "length args \<le> hi" using assms(2,3) by (simp_all add: p)
  note ar = assms(1)[unfolded p parsed_transformer.simps transformer_arity_def]
  have error: "parsed_value_error env \<lparr>pt_name = name, pt_args = args\<rparr> = None" using assms(4) by (simp add: p)
  consider "name \<noteq> ''slice''" "name \<noteq> ''replace''" "name \<noteq> ''lines''"
    | "name = ''slice''" | "name = ''replace''" | "name = ''lines''" by blast
  then show ?thesis
  proof cases
    case 1
    then have one: "name = ''case'' \<or>
        name \<in> {''count'', ''truncate'', ''filter'', ''strip'', ''clean'', ''hash'', ''wrap'', ''unwrap''}"
      using assms(5) by (simp add: p total_transformers_def)
    then have "Some (lo, hi) = Some (1, 1)" using ar by auto
    then obtain a where a: "args = [a]" using len length_args(1) [of args] by auto
    show ?thesis
    proof (cases "name = ''case''")
      case True
      then show ?thesis using apply_family(1) [OF case_checked] error by (simp add: p a)
    next
      case False
      then show ?thesis using one_argument_checked [of env name a] error one by (simp add: p a)
    qed
  next
    case 2
    then have "lo = 2 \<and> hi = 2" using ar by simp
    then obtain a b where a: "args = [a, b]" using len length_args(2) [of args] by auto
    show ?thesis using error unfolding p 2 a by (rule more_total)
  next
    case 3
    then have "lo = 2 \<and> hi = 3" using ar by simp
    then consider a b where "args = [a, b]" | a b c where "args = [a, b, c]"
      using len length_args(2,3) [of args] by (cases "length args = 2") auto
    then show ?thesis
    proof cases
      case 1
      then show ?thesis unfolding p 3 by (simp only: more_total(2) not_False_eq_True)
    next
      case 2
      then show ?thesis using error unfolding p 3 by (simp only: more_total(3) not_False_eq_True)
    qed
  next
    case 4
    then show ?thesis using error unfolding p by (simp only: more_total(4) not_False_eq_True)
  qed
qed

text \<open>C33: A call that passes the checks made when a trigger is stored, of its name, its number of arguments and
  their values, produces a result on every text when the trigger expands, for the transformers whose
  success does not depend on what the text says.\<close>

theorem checked_transformers_apply:
  assumes "parse_transformer segment = Some p"
    and "transformer_arity (pt_name p) = Some (lo, hi)" and "lo \<le> length (pt_args p)" and "length (pt_args p) \<le> hi"
    and "transformer_value_error env segment = None" and "pt_name p \<in> total_transformers"
  shows "apply_transformer env segment content \<noteq> None"
  using checked_applies [OF assms(2-4) _ assms(6)] assms(1,5)
  by (simp add: apply_transformer_def transformer_value_error_def)

theorem checked_transformers_apply_witness:
  "apply_transformer demo_transform_env ''slice(1, 3)'' ''abcd'' \<noteq> None"
proof -
  let ?p = "\<lparr>pt_name = ''slice'', pt_args = [''1'', ''3'']\<rparr>"
  have p: "parse_transformer ''slice(1, 3)'' = Some ?p" and arity: "transformer_arity (pt_name ?p) = Some (2, 2)"
    by code_simp+
  have "strip_argument_quotes ''1'' = ''1''" and "strip_argument_quotes ''3'' = ''3''" by code_simp+
  then have "parse_usize (strip_argument_quotes ''1'') \<noteq> None" and "parse_usize (strip_argument_quotes ''3'') \<noteq> None"
    by (simp_all add: parse_unsigned_def usize_max_def digits_val_def digit_val_def is_ascii_digit_def)
  then have error: "transformer_value_error demo_transform_env ''slice(1, 3)'' = None"
    using p by (simp only: transformer_value_error_def parse_transformer_trim option.case value_error_more
        not_False_eq_True simp_thms)
  show ?thesis
    by (rule checked_transformers_apply [OF p arity _ _ error]) (simp_all add: total_transformers_def)
qed

end
