(* ===== verification/Registry.thy ===== *)
theory Registry
  imports Transformers
begin

text \<open>
  The registry of system variables, \<open>core/src/engine/variables/registry/mod.rs\<close> and the table of
  \<open>registry/validation.rs\<close>: which words are roots, how a tag is read as a call of one
  (\<open>parse_system_call\<close>), which words are reserved, and the parameters every root takes.
\<close>

section \<open>Roots\<close>

definition system_roots :: "string list" where
  "system_roots =
     [''chrono'', ''clip'', ''uuid'', ''random'', ''lorem'', ''file'', ''ip'', ''http'', ''env'', ''execute'', ''mouse'',
      ''key'', ''delay'', ''use'', ''image'', ''cursor'', ''newline'']"

definition strip_global_transformers :: "string \<Rightarrow> string" where
  "strip_global_transformers key = hd (split_pipeline key)"

definition extract_root :: "string \<Rightarrow> string" where
  "extract_root name = str_trim (takeWhile (\<lambda>c. c \<noteq> CHR ''.'') name)"

definition deleted_root_hint :: "string \<Rightarrow> string option" where
  "deleted_root_hint ns =
     (let n = str_to_ascii_lowercase (str_trim ns) in
      if n = ''clipboard'' then Some ''clip''
      else if n = ''date'' \<or> n = ''time'' \<or> n = ''datetime'' then Some ''chrono(...)''
      else if n = ''net'' then Some ''ip''
      else None)"

definition known_root :: "string \<Rightarrow> bool" where
  "known_root ns =
     (let root = extract_root (str_to_ascii_lowercase ns)
      in root \<in> set system_roots \<or> deleted_root_hint root \<noteq> None)"

definition parse_system_call :: "string \<Rightarrow> (string \<times> string) option" where
  "parse_system_call inner =
     (let s = str_trim (hd (split_pipeline inner)) in
      if s = [] then None
      else if CHR ''('' \<notin> set s then (if known_root s then Some (s, []) else None)
      else
        (let before = takeWhile (\<lambda>c. c \<noteq> CHR ''('') s; ns = str_trim before in
         if ns = [] \<or> \<not> suffix '')'' s then None
         else if known_root ns
         then Some (ns, str_trim (slice s (length before + 1) (length s - 1)))
         else None))"

text \<open>\<open>is_reserved\<close> of \<open>system/mod.rs\<close>.\<close>

definition is_reserved :: "string \<Rightarrow> bool" where
  "is_reserved key =
     (case parse_system_call key of
        None \<Rightarrow> False
      | Some (ns, _) \<Rightarrow>
          (let root = str_to_ascii_lowercase (str_trim ns)
           in CHR ''.'' \<notin> set root \<and> root \<in> set system_roots))"

definition is_valid_system_root :: "string \<Rightarrow> bool" where
  "is_valid_system_root root \<longleftrightarrow> str_to_lowercase (str_trim root) \<in> set system_roots"

text \<open>\<open>is_valid_transformer\<close> of the registry looks at the name alone.\<close>

definition is_known_transformer :: "string \<Rightarrow> bool" where
  "is_known_transformer name \<longleftrightarrow>
     str_trim (takeWhile (\<lambda>c. c \<noteq> CHR ''('') (str_to_lowercase (str_trim name))) \<in> set transformers"

section \<open>Parameters\<close>

record ns_spec =
  ns_name :: string
  ns_params :: "param list"
  ns_variadic :: bool

definition required :: "string \<Rightarrow> param" where
  "required name = \<lparr>p_name = name, p_required = True, p_default = []\<rparr>"

definition optional :: "string \<Rightarrow> string \<Rightarrow> param" where
  "optional name value = \<lparr>p_name = name, p_required = False, p_default = value\<rparr>"

definition ns_specs :: "ns_spec list" where
  "ns_specs =
     [\<lparr>ns_name = ''chrono'', ns_params = [optional ''type'' ''datetime'', optional ''offset'' ''none'',
         optional ''format'' [], optional ''tz'' ''local''], ns_variadic = False\<rparr>,
      \<lparr>ns_name = ''clip'', ns_params = [optional ''index'' ''0''], ns_variadic = False\<rparr>,
      \<lparr>ns_name = ''uuid'', ns_params = [optional ''version'' ''v4''], ns_variadic = False\<rparr>,
      \<lparr>ns_name = ''random'', ns_params = [optional ''type'' ''int'', optional ''min'' ''0'', optional ''max'' ''100''],
         ns_variadic = True\<rparr>,
      \<lparr>ns_name = ''lorem'', ns_params = [optional ''type'' ''paragraphs'', optional ''count'' []], ns_variadic = False\<rparr>,
      \<lparr>ns_name = ''file'', ns_params = [required ''op'', optional ''path'' [], optional ''start'' [], optional ''end'' []],
         ns_variadic = False\<rparr>,
      \<lparr>ns_name = ''ip'', ns_params = [optional ''type'' ''public''], ns_variadic = False\<rparr>,
      \<lparr>ns_name = ''http'', ns_params = [required ''op'', required ''url''], ns_variadic = False\<rparr>,
      \<lparr>ns_name = ''env'', ns_params = [required ''name'', optional ''default'' []], ns_variadic = False\<rparr>,
      \<lparr>ns_name = ''execute'', ns_params = [required ''lang'', required ''subject'', optional ''file'' ''false'',
         optional ''silent'' ''false''], ns_variadic = True\<rparr>,
      \<lparr>ns_name = ''mouse'', ns_params = [required ''action'', optional ''btn'' [], optional ''count'' ''1''],
         ns_variadic = False\<rparr>,
      \<lparr>ns_name = ''key'', ns_params = [required ''token''], ns_variadic = False\<rparr>,
      \<lparr>ns_name = ''delay'', ns_params = [required ''ms''], ns_variadic = False\<rparr>,
      \<lparr>ns_name = ''use'', ns_params = [required ''name''], ns_variadic = False\<rparr>,
      \<lparr>ns_name = ''image'', ns_params = [required ''path''], ns_variadic = False\<rparr>,
      \<lparr>ns_name = ''cursor'', ns_params = [], ns_variadic = False\<rparr>,
      \<lparr>ns_name = ''newline'', ns_params = [], ns_variadic = False\<rparr>]"

definition find_spec :: "string \<Rightarrow> ns_spec option" where
  "find_spec name = find (\<lambda>s. ns_name s = name) ns_specs"

definition param_spec :: "string \<Rightarrow> param list option" where
  "param_spec ns = map_option ns_params (find_spec (str_to_ascii_lowercase (str_trim ns)))"

definition named_value :: "bound_args \<Rightarrow> string \<Rightarrow> string \<Rightarrow> string" where
  "named_value bound key absent = (case map_of (b_named bound) key of Some v \<Rightarrow> v | None \<Rightarrow> absent)"

text \<open>\<open>str::parse\<close> at a signed type: a sign, digits, no overflow.\<close>

definition parse_signed :: "nat \<Rightarrow> string \<Rightarrow> int option" where
  "parse_signed greatest s =
     (case s of
        [] \<Rightarrow> None
      | c # cs \<Rightarrow>
          if c = CHR ''-'' then
            (if cs \<noteq> [] \<and> list_all is_ascii_digit cs \<and> digits_val cs \<le> greatest + 1
             then Some (- int (digits_val cs)) else None)
          else map_option int (parse_unsigned greatest s))"

abbreviation parse_i64 :: "string \<Rightarrow> int option" where
  "parse_i64 \<equiv> parse_signed (2 ^ 63 - 1)"

abbreviation parse_i32 :: "string \<Rightarrow> int option" where
  "parse_i32 \<equiv> parse_signed (2 ^ 31 - 1)"

abbreviation parse_u16 :: "string \<Rightarrow> nat option" where
  "parse_u16 \<equiv> parse_unsigned (2 ^ 16 - 1)"

abbreviation parse_u32 :: "string \<Rightarrow> nat option" where
  "parse_u32 \<equiv> parse_unsigned (2 ^ 32 - 1)"

abbreviation parse_u64 :: "string \<Rightarrow> nat option" where
  "parse_u64 \<equiv> parse_unsigned (2 ^ 64 - 1)"

section \<open>Facts\<close>

lemma roots_are_specified: "map ns_name ns_specs = [''chrono'', ''clip'', ''uuid'', ''random'', ''lorem'', ''file'', ''ip'',
    ''http'', ''env'', ''execute'', ''mouse'', ''key'', ''delay'', ''use'', ''image'', ''cursor'', ''newline'']"
  by (simp add: ns_specs_def)

text \<open>Every root of the registry has its parameters in the table, and every namespace of the table is a root.\<close>

theorem registry_tables_agree: "param_spec ns \<noteq> None \<longleftrightarrow> str_to_ascii_lowercase (str_trim ns) \<in> set system_roots"
proof -
  have "find_spec name \<noteq> None \<longleftrightarrow> name \<in> set (map ns_name ns_specs)" for name
    by (auto simp: find_spec_def find_None_iff)
  moreover have "map ns_name ns_specs = system_roots"
    unfolding roots_are_specified by (simp add: system_roots_def)
  ultimately show ?thesis by (simp add: param_spec_def)
qed

lemma reserved_has_parameters:
  "is_reserved key \<Longrightarrow> \<exists>ns args. parse_system_call key = Some (ns, args) \<and> param_spec ns \<noteq> None"
  unfolding registry_tables_agree by (auto simp: is_reserved_def Let_def split: option.split_asm)

end
