(* ===== verification/Execute.thy ===== *)
theory Execute
  imports Registry
begin

text \<open>
  Inline scripts, \<open>core/src/engine/variables/system/execute.rs\<close>: the parsing of \<open>execute(lang, subject,
  args, file=..., silent=...)\<close>, the script text that runs a file with its arguments in each
  interpreter, and the metadata handed to the injector.  The file system, the stored assets and the
  compression are the fields of \<open>execute_env\<close>.  A shell and a Python reader for string literals stand at
  the end, as the reference against which the quoting is judged.
\<close>

section \<open>Invocations\<close>

record execute_invocation =
  ei_silent :: bool
  ei_interpreter :: script_interpreter
  ei_file :: bool
  ei_subject :: string
  ei_args :: "string list"

datatype execute_parse_error = MissingSubject | InvalidLanguage | InvalidTrailingSyntax

text \<open>\<open>strip_execute_args\<close>: the text up to the balancing parenthesis, if only blanks follow it.\<close>

fun balanced_loop :: "string \<Rightarrow> nat \<Rightarrow> string \<Rightarrow> string option" where
  "balanced_loop before depth [] = None"
| "balanced_loop before depth (c # cs) =
     (if c = CHR ''('' then balanced_loop (before @ [c]) (depth + 1) cs
      else if c = CHR '')'' then
        (if depth = 0 then (if str_trim cs = [] then Some before else None)
         else balanced_loop (before @ [c]) (depth - 1) cs)
      else balanced_loop (before @ [c]) depth cs)"

definition strip_execute_args :: "string \<Rightarrow> string option" where
  "strip_execute_args key =
     (case strip_prefix ''execute('' key of None \<Rightarrow> None | Some rest \<Rightarrow> balanced_loop [] 0 rest)"

definition peel_trailing_flag :: "string \<Rightarrow> execute_parse_error + string \<times> string \<times> string" where
  "peel_trailing_flag head =
     (let parts = tokenize_args head CHR '','' in
      if parts = [] then Inl InvalidTrailingSyntax
      else case split_once CHR ''='' (last parts) of
        None \<Rightarrow> Inl InvalidTrailingSyntax
      | Some (raw_key, raw_value) \<Rightarrow>
          (let key = strip_argument_quotes raw_key in
           if key \<noteq> ''file'' \<and> key \<noteq> ''silent'' then Inl InvalidTrailingSyntax
           else Inr (join_with '','' (butlast parts), key, strip_argument_quotes raw_value)))"

definition execute_params :: "param list" where
  "execute_params =
     [required ''lang'', required ''subject'', optional ''file'' ''false'', optional ''silent'' ''false'']"

text \<open>The loop that peels trailing flags until the rest binds.\<close>

function peel_loop ::
  "string \<Rightarrow> string option \<Rightarrow> string option \<Rightarrow> execute_parse_error + bound_args \<times> string option \<times> string option" where
  "peel_loop head file_flag silent_flag =
     (case bind_call ''execute'' head execute_params of
        Inr bound \<Rightarrow> Inr (bound, file_flag, silent_flag)
      | Inl (bind_error.Duplicate param _ _) \<Rightarrow>
          (if param = ''file'' \<or> param = ''silent'' then
             (case peel_trailing_flag head of
                Inl e \<Rightarrow> Inl e
              | Inr (rest, key, value) \<Rightarrow>
                  if key = ''file'' then
                    (if file_flag \<noteq> None then Inl InvalidTrailingSyntax
                     else peel_loop rest (Some value) silent_flag)
                  else
                    (if silent_flag \<noteq> None then Inl InvalidTrailingSyntax
                     else peel_loop rest file_flag (Some value)))
           else Inl InvalidTrailingSyntax)
      | Inl (MissingRequired param _ _) \<Rightarrow>
          Inl (if param = ''lang'' then InvalidLanguage
               else if param = ''subject'' then MissingSubject
               else InvalidTrailingSyntax)
      | Inl _ \<Rightarrow> Inl InvalidTrailingSyntax)"
  by pat_completeness auto
termination
  by (relation "measure (\<lambda>(_, f, s). (if f = None then 1 else 0) + (if s = None then 1 else 0))") auto

declare peel_loop.simps [simp del]

definition parse_bool_flag :: "string \<Rightarrow> execute_parse_error + bool" where
  "parse_bool_flag value =
     (let v = str_to_ascii_lowercase (strip_argument_quotes value) in
      if v = ''true'' then Inr True else if v = ''false'' then Inr False else Inl InvalidTrailingSyntax)"

definition flag_value ::
  "string option \<Rightarrow> nat \<Rightarrow> string \<Rightarrow> bound_args \<Rightarrow> bool \<Rightarrow> execute_parse_error + bool" where
  "flag_value peeled index key bound has_named =
     (case peeled of
        Some value \<Rightarrow>
          (if length (b_positional bound) \<le> index \<and>
              (case map_of (b_named bound) key of
                 None \<Rightarrow> False | Some v \<Rightarrow> v \<noteq> p_default (execute_params ! index))
           then Inl InvalidTrailingSyntax else parse_bool_flag value)
      | None \<Rightarrow>
          (if \<not> has_named \<or> index < length (b_positional bound) then Inr False
           else parse_bool_flag (named_value bound key ''false'')))"

definition execute_interpreter :: "string \<Rightarrow> script_interpreter option" where
  "execute_interpreter lang =
     (if lang = ''bash'' then Some Bash
      else if lang = ''powershell'' then Some PowerShell
      else if lang = ''python'' then Some Python
      else if lang = ''node'' then Some Node
      else if lang = ''cmd'' then Some Cmd
      else None)"

definition parse_invocation :: "string \<Rightarrow> execute_parse_error + execute_invocation" where
  "parse_invocation raw =
     (case peel_loop raw None None of
        Inl e \<Rightarrow> Inl e
      | Inr (bound, file_flag, silent_flag) \<Rightarrow>
          (case b_positional bound of
             [] \<Rightarrow> Inl InvalidLanguage
           | lang # rest \<Rightarrow>
               (case execute_interpreter lang of
                  None \<Rightarrow> Inl InvalidLanguage
                | Some interpreter \<Rightarrow>
                    (case rest of
                       [] \<Rightarrow> Inl MissingSubject
                     | subject # args \<Rightarrow>
                         (let has_named = has_named_args bound execute_params in
                          case flag_value file_flag 2 ''file'' bound has_named of
                            Inl e \<Rightarrow> Inl e
                          | Inr file \<Rightarrow>
                              (case flag_value silent_flag 3 ''silent'' bound has_named of
                                 Inl e \<Rightarrow> Inl e
                               | Inr silent \<Rightarrow>
                                   Inr \<lparr>ei_silent = silent, ei_interpreter = interpreter, ei_file = file,
                                        ei_subject = subject, ei_args = args\<rparr>))))))"

section \<open>Quoting\<close>

definition quote_posix :: "string \<Rightarrow> string" where
  "quote_posix value =
     [CHR 0x27] @ replace_all [CHR 0x27] [CHR 0x27, backslash, CHR 0x27, CHR 0x27] value @ [CHR 0x27]"

definition quote_powershell :: "string \<Rightarrow> string" where
  "quote_powershell value = [CHR 0x27] @ replace_all [CHR 0x27] [CHR 0x27, CHR 0x27] value @ [CHR 0x27]"

definition quote_cmd :: "string \<Rightarrow> string" where
  "quote_cmd value = [CHR 0x22] @ replace_all [CHR 0x22] [CHR 0x22, CHR 0x22] value @ [CHR 0x22]"

text \<open>\<open>str\<close>'s \<open>Debug\<close>: which characters \<open>char::escape_debug\<close> prints as they are, and how the others look.\<close>

definition is_printable :: "char \<Rightarrow> bool" where
  "is_printable c \<longleftrightarrow> (32 \<le> code c \<and> code c \<le> 126) \<or> (161 \<le> code c \<and> code c \<noteq> 173)"

fun show_hex :: "nat \<Rightarrow> string" where
  "show_hex n =
     (let d = (\<lambda>k. if k < 10 then digit_char k else char_of (87 + k))
      in if n < 16 then [d n] else show_hex (n div 16) @ [d (n mod 16)])"

declare show_hex.simps [simp del]

definition escape_debug :: "char \<Rightarrow> string" where
  "escape_debug c =
     (if code c = 0 then [backslash, CHR ''0'']
      else if code c = 9 then [backslash, CHR ''t'']
      else if code c = 13 then [backslash, CHR ''r'']
      else if code c = 10 then [backslash, CHR ''n'']
      else if c = backslash \<or> code c = 34 then [backslash, c]
      else if is_printable c then [c]
      else [backslash, CHR ''u'', CHR 0x7B] @ show_hex (code c) @ [CHR 0x7D])"

definition quote_python :: "string \<Rightarrow> string" where
  "quote_python value = [CHR 0x22] @ concat (map escape_debug value) @ [CHR 0x22]"

text \<open>\<open>serde_json::to_string\<close> on a string.\<close>

definition escape_json :: "char \<Rightarrow> string" where
  "escape_json c =
     (if code c = 34 \<or> c = backslash then [backslash, c]
      else if code c = 8 then [backslash, CHR ''b'']
      else if code c = 9 then [backslash, CHR ''t'']
      else if code c = 10 then [backslash, CHR ''n'']
      else if code c = 12 then [backslash, CHR ''f'']
      else if code c = 13 then [backslash, CHR ''r'']
      else if code c < 32 then
        [backslash, CHR ''u'', CHR ''0'', CHR ''0''] @ (if code c < 16 then ''0'' else []) @ show_hex (code c)
      else [c])"

definition quote_js :: "string \<Rightarrow> string" where
  "quote_js value = [CHR 0x22] @ concat (map escape_json value) @ [CHR 0x22]"

definition literal_list :: "(string \<Rightarrow> string) \<Rightarrow> string list \<Rightarrow> string" where
  "literal_list quote args = ''['' @ join_with '', '' (map quote args) @ '']''"

definition shell_command_line :: "string \<Rightarrow> string list \<Rightarrow> (string \<Rightarrow> string) \<Rightarrow> string" where
  "shell_command_line path args quote = quote path @ concat (map (\<lambda>arg. '' '' @ quote arg) args)"

section \<open>Scripts\<close>

text \<open>On Windows a path with a drive letter becomes a path under \<open>/mnt\<close>.\<close>

definition bash_file_path_arg :: "bool \<Rightarrow> string \<Rightarrow> string" where
  "bash_file_path_arg windows path =
     (if windows \<and> 3 \<le> length path \<and> is_ascii (hd path) \<and> path ! 1 = CHR '':'' \<and>
        (path ! 2 = backslash \<or> path ! 2 = CHR ''/'')
      then ''/mnt/'' @ [to_ascii_lowercase (hd path)] @ ''/'' @ replace_all [backslash] ''/'' (drop 3 path)
      else path)"

definition newline_text :: string where
  "newline_text = [CHR 0x0A]"

definition invocation_script_content :: "bool \<Rightarrow> execute_invocation \<Rightarrow> string" where
  "invocation_script_content windows call =
     (let path = str_trim (ei_subject call); args = ei_args call in
      if \<not> ei_file call then ei_subject call
      else case ei_interpreter call of
        Bash \<Rightarrow> shell_command_line (bash_file_path_arg windows path) args quote_posix
      | PowerShell \<Rightarrow> ''& '' @ shell_command_line path args quote_powershell
      | Python \<Rightarrow>
          ''import runpy, sys'' @ newline_text @ ''sys.argv = ['' @ quote_python path @ '', *'' @
          literal_list quote_python args @ '']'' @ newline_text @ ''runpy.run_path('' @ quote_python path @
          '', run_name='' @ [CHR 0x27] @ ''__main__'' @ [CHR 0x27] @ '')''
      | Node \<Rightarrow>
          ''process.argv = [process.argv[0], '' @ quote_js path @ '', ...'' @ literal_list quote_js args @
          '']; require('' @ quote_js path @ '');''
      | Cmd \<Rightarrow> shell_command_line path args quote_cmd)"

record execute_env =
  xe_windows :: bool
  xe_exists :: "string \<Rightarrow> bool"
  xe_asset :: "string \<Rightarrow> string option"
  xe_compress :: "string \<Rightarrow> u8 list option"

text \<open>\<open>to_script_metadata\<close>; \<open>xe_asset\<close> writes a stored asset to a temporary file and gives its path.\<close>

definition resolve_subject :: "execute_env \<Rightarrow> execute_invocation \<Rightarrow> execute_invocation option" where
  "resolve_subject env call =
     (if \<not> ei_file call then Some call
      else
        (let subject = str_trim (ei_subject call) in
         if prefix ''asset('' subject \<and> suffix '')'' subject
         then map_option (\<lambda>path. call\<lparr>ei_subject := path\<rparr>)
                (xe_asset env (str_trim (slice subject 6 (length subject - 1))))
         else if xe_exists env subject then Some call else None))"

definition to_script_metadata :: "execute_env \<Rightarrow> string \<Rightarrow> script_metadata option" where
  "to_script_metadata env key =
     (let raw = (case strip_execute_args key of Some r \<Rightarrow> r | None \<Rightarrow> key) in
      case parse_invocation raw of
        Inl _ \<Rightarrow> None
      | Inr call \<Rightarrow>
          (case resolve_subject env call of
             None \<Rightarrow> None
           | Some call \<Rightarrow>
               (case xe_compress env (invocation_script_content (xe_windows env) call) of
                  None \<Rightarrow> None
                | Some bytes \<Rightarrow>
                    Some \<lparr>sm_interpreter = ei_interpreter call,
                          sm_behavior = (if ei_silent call then Silent else Inline),
                          sm_compressed = bytes\<rparr>)))"

section \<open>A shell reads what was quoted\<close>

text \<open>The words of a POSIX command line without expansions: \<open>current\<close> is the word being read, if any; the
  flag tells whether the reader is between single quotes.  A character that a shell would expand,
  redirect or end a command at gives nothing.\<close>

definition shell_plain :: "char \<Rightarrow> bool" where
  "shell_plain c \<longleftrightarrow> is_alphanumeric c \<or> c \<in> set ''/._-+=:,@%''"

fun shell_words :: "bool \<Rightarrow> string option \<Rightarrow> string list \<Rightarrow> string \<Rightarrow> string list option" where
  "shell_words True current ready [] = None"
| "shell_words False current ready [] = Some (ready @ (case current of None \<Rightarrow> [] | Some w \<Rightarrow> [w]))"
| "shell_words True current ready (c # cs) =
     (if c = CHR 0x27 then shell_words False current ready cs
      else shell_words True (Some (the current @ [c])) ready cs)"
| "shell_words False current ready (c # cs) =
     (let word = (case current of None \<Rightarrow> [] | Some w \<Rightarrow> w) in
      if c = CHR 0x27 then shell_words True (Some word) ready cs
      else if c = backslash then
        (case cs of [] \<Rightarrow> None | d # cs' \<Rightarrow> shell_words False (Some (word @ [d])) ready cs')
      else if c = CHR '' '' then
        shell_words False None (ready @ (case current of None \<Rightarrow> [] | Some w \<Rightarrow> [w])) cs
      else if shell_plain c then shell_words False (Some (word @ [c])) ready cs
      else None)"

lemma shell_words_quoted:
  "shell_words True (Some w) ready
     (replace_all [CHR 0x27] [CHR 0x27, backslash, CHR 0x27, CHR 0x27] v @ CHR 0x27 # rest) =
   shell_words False (Some (w @ v)) ready rest"
  by (induction v arbitrary: w) auto

lemma shell_words_posix:
  "shell_words False None ready (quote_posix value @ rest) = shell_words False (Some value) ready rest"
  by (simp add: quote_posix_def shell_words_quoted)

lemma shell_words_args:
  "shell_words False (Some w) ready (concat (map (\<lambda>arg. CHR '' '' # quote_posix arg) args)) = Some (ready @ w # args)"
proof (induction args arbitrary: w ready)
  case (Cons a args)
  then show ?case using shell_words_posix [of "ready @ [w]" a] by (simp add: Let_def)
qed simp

text \<open>C32: A POSIX shell reads the command line that \<open>quote_posix\<close> gives for a script file to be run by bash as
  exactly its path and its arguments, whatever characters they hold (a NUL, which no argument of a real
  process can hold, aside): an argument can neither be split nor run anything.  The quoting for
  other interpreters, among them \<open>cmd\<close>, is not part of the claim.\<close>

theorem posix_command_line_is_safe:
  "shell_words False None [] (shell_command_line path args quote_posix) = Some (path # args)"
  by (simp add: shell_command_line_def shell_words_posix shell_words_args)

section \<open>Python reads what was quoted, or not\<close>

definition is_hex_digit :: "char \<Rightarrow> bool" where
  "is_hex_digit c \<longleftrightarrow> hex_value (code c) \<noteq> None"

definition hex_number :: "string \<Rightarrow> nat" where
  "hex_number s = foldl (\<lambda>n c. 16 * n + the (hex_value (code c))) 0 s"

text \<open>A Python string literal in double quotes, after its opening quote: the escapes for backslash, quotes,
  control characters, a lone zero, and four hexadecimal digits after \<open>u\<close>.\<close>

function python_chars :: "string \<Rightarrow> string \<Rightarrow> string option" where
  "python_chars out [] = None"
| "python_chars out (c # cs) =
     (if code c = 34 then (if cs = [] then Some out else None)
      else if code c = 10 then None
      else if c \<noteq> backslash then python_chars (out @ [c]) cs
      else case cs of
        [] \<Rightarrow> None
      | e # rest \<Rightarrow>
          (if e = backslash \<or> code e = 34 \<or> code e = 39 then python_chars (out @ [e]) rest
           else if e = CHR ''n'' then python_chars (out @ [CHR 0x0A]) rest
           else if e = CHR ''r'' then python_chars (out @ [CHR 0x0D]) rest
           else if e = CHR ''t'' then python_chars (out @ [CHR 0x09]) rest
           else if e = CHR ''0'' \<and> \<not> (rest \<noteq> [] \<and> is_ascii_digit (hd rest))
           then python_chars (out @ [CHR 0x00]) rest
           else if e = CHR ''u'' \<and> 4 \<le> length rest \<and> list_all is_hex_digit (take 4 rest)
           then python_chars (out @ [char_of (hex_number (take 4 rest))]) (drop 4 rest)
           else None))"
  by pat_completeness auto
termination
  by (relation "measure (\<lambda>(out, s). length s)") auto

declare python_chars.simps [simp del]

definition python_literal :: "string \<Rightarrow> string option" where
  "python_literal s = (case s of [] \<Rightarrow> None | c # cs \<Rightarrow> if code c = 34 then python_chars [] cs else None)"

lemma python_chars_plain:
  assumes "code c \<noteq> 0" and "is_printable c \<or> code c \<in> {9, 10, 13}"
  shows "python_chars out (escape_debug c @ rest) = python_chars (out @ [c]) rest"
proof -
  have char: "c = char_of (code c)" for c :: char by simp
  have chars: "char_of (9 :: nat) = CHR 0x09" "char_of (13 :: nat) = CHR 0x0D" "char_of (10 :: nat) = CHR 0x0A"
    "char_of (34 :: nat) = CHR 0x22" by code_simp+
  consider "c = CHR 0x09" | "c = CHR 0x0D" | "c = CHR 0x0A" | "c = backslash" | "c = CHR 0x22"
    | "code c \<notin> {9, 10, 13, 34}" "c \<noteq> backslash" "is_printable c"
  proof -
    assume *: "c = CHR 0x09 \<Longrightarrow> thesis" "c = CHR 0x0D \<Longrightarrow> thesis" "c = CHR 0x0A \<Longrightarrow> thesis"
      "c = backslash \<Longrightarrow> thesis" "c = CHR 0x22 \<Longrightarrow> thesis"
      "code c \<notin> {9, 10, 13, 34} \<Longrightarrow> c \<noteq> backslash \<Longrightarrow> is_printable c \<Longrightarrow> thesis"
    have "code c = 9 \<Longrightarrow> c = CHR 0x09" "code c = 13 \<Longrightarrow> c = CHR 0x0D" "code c = 10 \<Longrightarrow> c = CHR 0x0A"
      "code c = 34 \<Longrightarrow> c = CHR 0x22" using char [of c] chars by simp_all
    then show thesis using * assms(2) by blast
  qed
  then show ?thesis
  proof cases
    case 1
    then show ?thesis by (simp add: escape_debug_def python_chars.simps(2))
  next
    case 2
    then show ?thesis by (simp add: escape_debug_def python_chars.simps(2))
  next
    case 3
    then show ?thesis by (simp add: escape_debug_def python_chars.simps(2))
  next
    case 4
    then show ?thesis by (simp add: escape_debug_def python_chars.simps(2))
  next
    case 5
    then show ?thesis by (simp add: escape_debug_def python_chars.simps(2))
  next
    case 6
    then show ?thesis using assms(1) by (simp add: escape_debug_def python_chars.simps(2) [of out c rest])
  qed
qed

text \<open>An argument that reaches Python unharmed: printable characters, tabs and line breaks.\<close>

definition python_safe :: "char \<Rightarrow> bool" where
  "python_safe c \<longleftrightarrow> code c \<noteq> 0 \<and> (is_printable c \<or> code c \<in> {9, 10, 13})"

lemma python_chars_safe:
  "list_all python_safe arg \<Longrightarrow>
   python_chars out (concat (map escape_debug arg) @ rest) = python_chars (out @ arg) rest"
  by (induction arg arbitrary: out) (simp_all add: python_safe_def python_chars_plain)

lemma python_chars_end: "python_chars out [CHR 0x22] = Some out"
  by (simp add: python_chars.simps)

text \<open>Rust's debug escapes are Python's for printable text, tabs and line breaks.\<close>

lemma python_reads_safe: "list_all python_safe arg \<Longrightarrow> python_literal (quote_python arg) = Some arg"
  by (simp add: python_literal_def quote_python_def python_chars_safe python_chars_end)

lemma python_chars_unreadable:
  assumes "\<not> python_safe c" and "code c \<noteq> 0"
  shows "python_chars out (escape_debug c @ rest) = None"
proof -
  have e: "escape_debug c = [backslash, CHR ''u'', CHR 0x7B] @ show_hex (code c) @ [CHR 0x7D]"
    using assms by (auto simp: escape_debug_def python_safe_def is_printable_def)
  have "\<not> is_hex_digit (CHR 0x7B)" by code_simp
  then show ?thesis by (simp add: e python_chars.simps(2))
qed

text \<open>A file path or argument reaches a Python script unharmed if all its characters are printable or
  white space of the keyboard; with any other character but NUL, such as the no-break space, the
  script is not even a Python program, because Rust writes \<open>\u{a0}\<close> where Python wants four digits.\<close>

theorem python_argument_readable:
  assumes "CHR 0x00 \<notin> set arg"
  shows "python_literal (quote_python arg) = (if list_all python_safe arg then Some arg else None)"
proof (cases "list_all python_safe arg")
  case True
  then show ?thesis by (simp add: python_reads_safe)
next
  case False
  then obtain u c v where v: "arg = u @ c # v" and u: "list_all python_safe u" and c: "\<not> python_safe c"
    using split_list_first_prop [of arg "\<lambda>c. \<not> python_safe c"] by (auto simp: list_all_iff)
  have "code c \<noteq> 0"
  proof
    assume "code c = 0"
    moreover have "c = char_of (code c)" and "char_of (0 :: nat) = CHR 0x00" by (simp, code_simp)
    ultimately have "c = CHR 0x00" by simp
    then show False using assms v by simp
  qed
  from python_chars_unreadable [OF c this] show ?thesis
    using False by (simp add: v python_literal_def quote_python_def python_chars_safe [OF u])
qed

theorem python_argument_readable_witness:
  "python_literal (quote_python [CHR ''a'', CHR 0xA0]) = None"
proof -
  have "CHR 0x00 \<notin> set [CHR ''a'', CHR 0xA0]" and "\<not> list_all python_safe [CHR ''a'', CHR 0xA0]"
    by (simp_all add: python_safe_def is_printable_def)
  from python_argument_readable [OF this(1)] this(2) show ?thesis by simp
qed

end
