(* ===== verification/Directives.thy ===== *)
theory Directives
  imports Execute
begin

text \<open>
  Directives of an expanded template, \<open>core/src/engine/variables/system/mod.rs\<close> and \<open>image.rs\<close>: which
  keywords are directives or deferred, the dispatch of a system variable to its resolver, and the final
  pass that turns the expanded text into the steps the injector carries out (\<open>finalize_with_origin\<close>).
  The resolvers of the variables, the image loader and the floating-point seconds of a delay are fields
  of \<open>system_env\<close>; \<open>sy_value root args\<close> is what the module of that root answers.
\<close>

section \<open>The environment\<close>

record system_env =
  sy_execute :: execute_env
  sy_scripts_enabled :: bool
  sy_seconds_ms :: "string \<Rightarrow> nat option"
  sy_load_asset :: "string \<Rightarrow> (u8 list \<times> string) option"
  sy_load_file :: "string \<Rightarrow> (u8 list \<times> string) option"
  sy_value :: "string \<Rightarrow> string \<Rightarrow> string option"
  sy_clip :: "string \<Rightarrow> string option"

definition max_output_length :: nat where
  "max_output_length = 100000"

definition cursor_tag :: string where
  "cursor_tag = ''[cursor]''"

definition escaped_cursor_literal :: string where
  "escaped_cursor_literal = backslash # ''[cursor'' @ backslash # '']''"

definition escaped_cursor_sentinel :: string where
  "escaped_cursor_sentinel = CHR 0x00 # ''ESC_CURSOR'' @ [CHR 0x00]"

text \<open>\<open>str::find\<close> of a text, as the number of characters before it.\<close>

fun find_str :: "string \<Rightarrow> string \<Rightarrow> nat option" where
  "find_str pat [] = (if pat = [] then Some 0 else None)"
| "find_str pat (c # cs) = (if prefix pat (c # cs) then Some 0 else map_option Suc (find_str pat cs))"

abbreviation contains :: "string \<Rightarrow> string \<Rightarrow> bool" where
  "contains s pat \<equiv> find_str pat s \<noteq> None"

text \<open>The text between an opening and a closing parenthesis.\<close>

definition call_args :: "string \<Rightarrow> string \<Rightarrow> string option" where
  "call_args root key =
     (case strip_prefix (root @ ''('') key of None \<Rightarrow> None | Some rest \<Rightarrow> strip_suffix '')'' rest)"

section \<open>Directives\<close>

definition parse_key_directive :: "string \<Rightarrow> string option" where
  "parse_key_directive inner = map_option strip_argument_quotes (call_args ''key'' inner)"

definition parse_delay_ms :: "system_env \<Rightarrow> string \<Rightarrow> nat option" where
  "parse_delay_ms env tpl =
     (let s = str_trim tpl in
      case strip_suffix ''ms'' s of
        Some n \<Rightarrow> parse_u64 n
      | None \<Rightarrow> (case strip_suffix ''s'' s of Some n \<Rightarrow> sy_seconds_ms env n | None \<Rightarrow> parse_u64 s))"

definition parse_delay_directive :: "system_env \<Rightarrow> string \<Rightarrow> nat option" where
  "parse_delay_directive env inner =
     (case call_args ''delay'' inner of
        None \<Rightarrow> None | Some d \<Rightarrow> parse_delay_ms env (strip_argument_quotes d))"

definition parse_mouse_button :: "string \<Rightarrow> mouse_button option" where
  "parse_mouse_button arg =
     (case strip_prefix ''m'' arg of
        None \<Rightarrow> None
      | Some rest \<Rightarrow>
          (case parse_u8 rest of
             None \<Rightarrow> None
           | Some n \<Rightarrow> if n = 0 then None else Some (mouse_of_number n)))"

definition mouse_params :: "param list" where
  "mouse_params = [required ''action'', optional ''btn'' [], optional ''count'' ''1'']"

definition mouse_step :: "bound_args \<Rightarrow> expansion_step option" where
  "mouse_step bound =
     (let action = named_value bound ''action'' []; btn = named_value bound ''btn'' [];
          count_raw = named_value bound ''count'' ''1''; positional = length (b_positional bound) in
      if action = ''click'' then
        (if 3 < positional then None
         else case (parse_mouse_button btn, parse_u32 count_raw) of
           (Some b, Some n) \<Rightarrow> Some (MouseClick b (word_of_nat n)) | _ \<Rightarrow> None)
      else if action = ''hold'' \<or> action = ''release'' then
        (if 2 < positional \<or> count_raw \<noteq> ''1'' then None
         else map_option (if action = ''hold'' then MouseDown else MouseUp) (parse_mouse_button btn))
      else if action = ''move'' then
        (if 3 < positional \<or> (positional = 2 \<and> count_raw = ''1'') \<or> (positional = 0 \<and> count_raw = ''1'')
         then None
         else case (parse_u16 btn, parse_u16 count_raw) of
           (Some x, Some y) \<Rightarrow> Some (MouseMove (word_of_nat x) (word_of_nat y)) | _ \<Rightarrow> None)
      else if action = ''scroll'' then
        (if 2 < positional \<or> count_raw \<noteq> ''1'' then None
         else map_option (\<lambda>d. MouseScroll (word_of_int d)) (parse_i32 btn))
      else None)"

definition parse_mouse_directive :: "string \<Rightarrow> expansion_step option" where
  "parse_mouse_directive inner =
     (case call_args ''mouse'' inner of
        None \<Rightarrow> None
      | Some raw \<Rightarrow>
          (case bind_call ''mouse'' raw mouse_params of Inl _ \<Rightarrow> None | Inr bound \<Rightarrow> mouse_step bound))"

definition is_directive :: "system_env \<Rightarrow> string \<Rightarrow> bool" where
  "is_directive env key \<longleftrightarrow>
     key = ''cursor'' \<or> parse_key_directive key \<noteq> None \<or> parse_delay_directive env key \<noteq> None \<or>
     parse_mouse_directive key \<noteq> None \<or> (prefix ''mouse('' key \<and> suffix '')'' key)"

definition parse_img_directive :: "system_env \<Rightarrow> string \<Rightarrow> expansion_step option" where
  "parse_img_directive env inner =
     (case call_args ''image'' inner of
        None \<Rightarrow> None
      | Some args \<Rightarrow>
          (let path = strip_argument_quotes args in
           if path = [] then None
           else
             map_option (\<lambda>(bytes, mime). ImageStep bytes mime)
               (if prefix ''asset('' path \<and> suffix '')'' path
                then sy_load_asset env (str_trim (slice path 6 (length path - 1)))
                else sy_load_file env path)))"

section \<open>Variables\<close>

definition ip_params :: "param list" where
  "ip_params = [optional ''type'' ''public'']"

definition is_deferred :: "string \<Rightarrow> bool" where
  "is_deferred key =
     (if key = ''ip'' then True
      else case call_args ''ip'' key of
        Some raw \<Rightarrow>
          (case bind_call ''ip'' raw ip_params of
             Inl _ \<Rightarrow> False
           | Inr bound \<Rightarrow>
               length (b_positional bound) \<le> 1 \<and> map_of (b_named bound) ''type'' = Some ''public'')
      | None \<Rightarrow>
          (if prefix ''http('' key \<and> suffix '')'' key then True
           else case call_args ''mouse'' key of
             Some raw \<Rightarrow> strip_argument_quotes raw = ''pos''
           | None \<Rightarrow> False))"

fun resolve_root :: "system_env \<Rightarrow> string list \<Rightarrow> string \<Rightarrow> string option" where
  "resolve_root env [] key =
     (if key = ''clip'' \<or> prefix ''clip('' key then sy_clip env key else None)"
| "resolve_root env (root # roots) key =
     (if key = root then sy_value env root []
      else case call_args root key of
        Some args \<Rightarrow> sy_value env root args
      | None \<Rightarrow> resolve_root env roots key)"

definition resolve :: "system_env \<Rightarrow> string \<Rightarrow> string option" where
  "resolve env key =
     (if key = ''newline'' then Some [CHR 0x0A]
      else resolve_root env [''chrono'', ''env'', ''file'', ''ip'', ''http'', ''random'', ''lorem'', ''uuid''] key)"

section \<open>The final pass\<close>

text \<open>Unescaping drops the backslash before a bracket, a backslash or a quote; the escaped cursor tag as a
  whole becomes the given replacement.\<close>

function unescape_segment :: "string \<Rightarrow> string \<Rightarrow> string" where
  "unescape_segment cursor [] = []"
| "unescape_segment cursor (c # cs) =
     (if c = backslash \<and> cs \<noteq> [] \<and>
        (hd cs = tag_open \<or> hd cs = tag_close \<or> hd cs = backslash \<or> is_quote (hd cs)) then
        (if prefix escaped_cursor_literal (c # cs)
         then cursor @ unescape_segment cursor (drop (length escaped_cursor_literal) (c # cs))
         else hd cs # unescape_segment cursor (tl cs))
      else c # unescape_segment cursor cs)"
  by pat_completeness auto
termination
  by (relation "measure (\<lambda>(cursor, s). length s)") (auto simp: escaped_cursor_literal_def)

declare unescape_segment.simps(2) [simp del]

definition append_unescaped_segment :: "string \<Rightarrow> string \<Rightarrow> string" where
  "append_unescaped_segment segment output = output @ unescape_segment escaped_cursor_sentinel segment"

definition flush_text :: "expansion_step list \<Rightarrow> string \<Rightarrow> expansion_step list" where
  "flush_text steps buf = (if buf = [] then steps else steps @ [TextStep buf])"

definition tag_is_timed :: "system_env \<Rightarrow> string \<Rightarrow> bool" where
  "tag_is_timed env inner \<longleftrightarrow>
     parse_key_directive inner \<noteq> None \<or> parse_delay_directive env inner \<noteq> None \<or> parse_mouse_directive inner \<noteq> None"

function contains_directives_from :: "system_env \<Rightarrow> string \<Rightarrow> nat \<Rightarrow> bool" where
  "contains_directives_from env tpl ptr =
     (case find_next_tag tpl ptr of
        None \<Rightarrow> False
      | Some tag \<Rightarrow> tag_is_timed env (tag_inner tpl tag) \<or> contains_directives_from env tpl (tb_end tag + 1))"
  by pat_completeness auto
termination
  by (relation "measure (\<lambda>(env, tpl, ptr). length tpl - ptr)")
    (auto dest!: find_next_tag_less intro!: diff_less_mono2)

declare contains_directives_from.simps [simp del]

definition contains_key_or_delay_directives :: "system_env \<Rightarrow> string \<Rightarrow> bool" where
  "contains_key_or_delay_directives env tpl = contains_directives_from env tpl 0"

datatype expansion_origin = UserOrigin | AiOrigin

text \<open>What a tag stands for, in the order of the branches: an inline script is blocked when scripts are
  disabled and dropped when it cannot be prepared.\<close>

datatype tag_effect = EffectSteps "expansion_step list" | EffectLiteral

definition tag_effect :: "system_env \<Rightarrow> string \<Rightarrow> tag_effect" where
  "tag_effect env inner =
     (let pipeline = split_pipeline inner; base = hd pipeline in
      if strip_execute_args base \<noteq> None then
        EffectSteps
          (if \<not> sy_scripts_enabled env then []
           else case to_script_metadata (sy_execute env) base of
             Some md \<Rightarrow> [InlineRun md (tl pipeline)] | None \<Rightarrow> [])
      else case parse_key_directive inner of
        Some alias \<Rightarrow> EffectSteps [KeyPressStep (str_to_lowercase alias)]
      | None \<Rightarrow>
          (case parse_delay_directive env inner of
             Some ms \<Rightarrow> EffectSteps [DelayStep (word_of_nat ms)]
           | None \<Rightarrow>
               (case parse_mouse_directive inner of
                  Some step \<Rightarrow> EffectSteps [step]
                | None \<Rightarrow>
                    (case parse_img_directive env inner of
                       Some step \<Rightarrow> EffectSteps [step]
                     | None \<Rightarrow> EffectLiteral))))"

function split_steps_loop ::
  "system_env \<Rightarrow> expansion_origin \<Rightarrow> string \<Rightarrow> nat \<Rightarrow> expansion_step list \<Rightarrow> string \<Rightarrow> expansion_step list" where
  "split_steps_loop env origin tpl ptr steps current =
     (case find_next_tag tpl ptr of
        None \<Rightarrow> flush_text steps (append_unescaped_segment (drop ptr tpl) current)
      | Some tag \<Rightarrow>
          (let current = append_unescaped_segment (slice tpl ptr (tb_start tag)) current;
               inner = tag_inner tpl tag;
               literal = current @ slice tpl (tb_start tag) (tb_end tag + 1)
           in if origin = AiOrigin then split_steps_loop env origin tpl (tb_end tag + 1) steps literal
              else case tag_effect env inner of
                EffectSteps new \<Rightarrow>
                  split_steps_loop env origin tpl (tb_end tag + 1) (flush_text steps current @ new) []
              | EffectLiteral \<Rightarrow> split_steps_loop env origin tpl (tb_end tag + 1) steps literal))"
  by pat_completeness auto
termination
  by (relation "measure (\<lambda>(env, origin, tpl, ptr, _). length tpl - ptr)")
    (auto dest!: find_next_tag_less intro!: diff_less_mono2)

declare split_steps_loop.simps [simp del]

definition split_into_steps :: "system_env \<Rightarrow> string \<Rightarrow> expansion_origin \<Rightarrow> expansion_step list" where
  "split_into_steps env tpl origin = split_steps_loop env origin tpl 0 [] []"

fun text_of_step :: "expansion_step \<Rightarrow> string option" where
  "text_of_step (TextStep t) = Some t"
| "text_of_step _ = None"

definition restore_cursor_sentinels :: "expansion_step list \<Rightarrow> expansion_step list" where
  "restore_cursor_sentinels steps =
     map (\<lambda>step. case text_of_step step of
                   Some t \<Rightarrow> TextStep (replace_all escaped_cursor_sentinel cursor_tag t)
                 | None \<Rightarrow> step) steps"

definition apply_cursor_positioning :: "expansion_step list \<Rightarrow> expansion_step list" where
  "apply_cursor_positioning steps =
     (let full_text = concat (List.map_filter text_of_step steps) in
      case find_str cursor_tag full_text of
        Some char_idx \<Rightarrow>
          (let clean_text = replace_all cursor_tag [] full_text;
               left_arrow_count = length clean_text - char_idx;
               others = filter (\<lambda>s. text_of_step s = None) steps;
               final_text = replace_all escaped_cursor_sentinel cursor_tag clean_text
           in (if final_text = [] then others else TextStep final_text # others) @
              (if max_output_length < left_arrow_count then []
               else replicate left_arrow_count (KeyPressStep ''left'')))
      | None \<Rightarrow> restore_cursor_sentinels steps)"

definition steps_expansion :: "expansion_step list \<Rightarrow> final_expansion" where
  "steps_expansion steps = \<lparr>fe_steps = steps, fe_is_calculation = False, fe_ai_template = None\<rparr>"

definition finalize_with_origin :: "system_env \<Rightarrow> string \<Rightarrow> expansion_origin \<Rightarrow> final_expansion" where
  "finalize_with_origin env tpl origin =
     (if tag_open \<notin> set tpl \<and> backslash \<notin> set tpl
      then steps_expansion (if tpl = [] then [] else [TextStep tpl])
      else
        (let steps = split_into_steps env tpl origin in
         steps_expansion
           (if origin = AiOrigin \<or> contains_key_or_delay_directives env tpl
            then restore_cursor_sentinels steps
            else apply_cursor_positioning steps)))"

definition finalize :: "system_env \<Rightarrow> string \<Rightarrow> final_expansion" where
  "finalize env tpl = finalize_with_origin env tpl UserOrigin"

section \<open>What the steps can be\<close>

lemma flush_text_all: "\<forall>s\<in>set steps. P s \<Longrightarrow> (\<And>t. t \<noteq> [] \<Longrightarrow> P (TextStep t)) \<Longrightarrow> \<forall>s\<in>set (flush_text steps buf). P s"
  by (auto simp: flush_text_def)

lemma split_steps_loop_all:
  "\<forall>s\<in>set steps. P s \<Longrightarrow> (\<And>t. t \<noteq> [] \<Longrightarrow> P (TextStep t)) \<Longrightarrow>
   (\<And>inner new s. origin = UserOrigin \<Longrightarrow> tag_effect env inner = EffectSteps new \<Longrightarrow> s \<in> set new \<Longrightarrow> P s) \<Longrightarrow>
   \<forall>s\<in>set (split_steps_loop env origin tpl ptr steps current). P s"
proof (induction env origin tpl ptr steps current rule: split_steps_loop.induct)
  case (1 env origin tpl ptr steps current)
  show ?case
  proof (cases "find_next_tag tpl ptr")
    case None
    then show ?thesis using "1.prems" flush_text_all [of steps P] by (simp add: split_steps_loop.simps)
  next
    case (Some tag)
    note IH = "1.IH" [OF Some refl refl refl]
    show ?thesis
    proof (cases "origin = AiOrigin")
      case True
      then show ?thesis using IH(1) [OF True] "1.prems" Some by (simp add: split_steps_loop.simps [of env _ tpl ptr] Let_def)
    next
      case False
      then have user: "origin = UserOrigin" by (cases origin) auto
      show ?thesis
      proof (cases "tag_effect env (tag_inner tpl tag)")
        case (EffectSteps new)
        have "\<forall>s\<in>set (flush_text steps (append_unescaped_segment (slice tpl ptr (tb_start tag)) current) @ new). P s"
          using flush_text_all [OF "1.prems"(1,2)] "1.prems"(3) [OF user EffectSteps] by auto
        then show ?thesis
          using IH(2) [OF False EffectSteps] "1.prems" Some EffectSteps user
          by (simp add: split_steps_loop.simps [of env _ tpl ptr] Let_def)
      next
        case EffectLiteral
        then show ?thesis
          using IH(3) [OF False EffectLiteral] "1.prems" Some user
          by (simp add: split_steps_loop.simps [of env _ tpl ptr] Let_def)
      qed
    qed
  qed
qed

lemma split_into_steps_all:
  assumes "\<And>t. t \<noteq> [] \<Longrightarrow> P (TextStep t)"
    and "\<And>inner new s. origin = UserOrigin \<Longrightarrow> tag_effect env inner = EffectSteps new \<Longrightarrow> s \<in> set new \<Longrightarrow> P s"
  shows "\<forall>s\<in>set (split_into_steps env tpl origin). P s"
  unfolding split_into_steps_def by (rule split_steps_loop_all) (use assms in auto)

lemma text_of_step_Some: "text_of_step s = Some t \<longleftrightarrow> s = TextStep t"
  by (cases s) auto

lemma replace_all_nonempty: "s \<noteq> [] \<Longrightarrow> b \<noteq> [] \<Longrightarrow> replace_all a b s \<noteq> []"
  by (cases s) auto

lemma restore_all:
  assumes "\<forall>s\<in>set steps. P s" and "\<And>t. t \<noteq> [] \<Longrightarrow> P (TextStep t)" and "\<forall>s\<in>set steps. s \<noteq> TextStep []"
  shows "\<forall>s\<in>set (restore_cursor_sentinels steps). P s"
proof
  fix s assume "s \<in> set (restore_cursor_sentinels steps)"
  then obtain r where r: "r \<in> set steps"
    and s: "s = (case text_of_step r of Some t \<Rightarrow> TextStep (replace_all escaped_cursor_sentinel cursor_tag t) | None \<Rightarrow> r)"
    by (auto simp: restore_cursor_sentinels_def)
  show "P s"
  proof (cases "text_of_step r")
    case (Some t)
    then have "t \<noteq> []" using r assms(3) by (auto simp: text_of_step_Some)
    then show ?thesis using s Some assms(2) replace_all_nonempty [of t cursor_tag] by (simp add: cursor_tag_def)
  qed (use assms(1) r s in simp)
qed

lemma positioning_all:
  assumes "\<forall>s\<in>set steps. P s" and "\<And>t. t \<noteq> [] \<Longrightarrow> P (TextStep t)" and "\<forall>s\<in>set steps. s \<noteq> TextStep []"
    and "P (KeyPressStep ''left'')"
  shows "\<forall>s\<in>set (apply_cursor_positioning steps). P s"
  using assms restore_all [OF assms(1-3)]
  by (auto simp: apply_cursor_positioning_def Let_def split: option.split if_split_asm)

lemma finalize_all:
  assumes "\<And>t. t \<noteq> [] \<Longrightarrow> P (TextStep t)" and "origin = UserOrigin \<Longrightarrow> P (KeyPressStep ''left'')"
    and "\<And>inner new s. origin = UserOrigin \<Longrightarrow> tag_effect env inner = EffectSteps new \<Longrightarrow> s \<in> set new \<Longrightarrow> P s"
    and "\<And>t. P (TextStep t) \<Longrightarrow> t \<noteq> []"
  shows "\<forall>s\<in>set (fe_steps (finalize_with_origin env tpl origin)). P s"
proof -
  have steps: "\<forall>s\<in>set (split_into_steps env tpl origin). P s"
    by (rule split_into_steps_all) (use assms in auto)
  then have "\<forall>s\<in>set (split_into_steps env tpl origin). s \<noteq> TextStep []" using assms(4) by fastforce
  note restored = restore_all [OF steps assms(1) this] and positioned = positioning_all [OF steps assms(1) this]
  show ?thesis
  proof (cases "origin = AiOrigin \<or> contains_key_or_delay_directives env tpl")
    case True
    then show ?thesis using restored assms(1) by (simp add: finalize_with_origin_def steps_expansion_def Let_def)
  next
    case False
    then have "origin = UserOrigin" by (cases origin) auto
    then show ?thesis
      using positioned assms(1,2) False by (simp add: finalize_with_origin_def steps_expansion_def Let_def)
  qed
qed

definition nonempty_text :: "expansion_step \<Rightarrow> bool" where
  "nonempty_text s \<longleftrightarrow> (\<exists>t. s = TextStep t \<and> t \<noteq> [])"

text \<open>Whatever an AI answers, finishing it gives text to type and nothing else: no key, no click, no script,
  no image, no pause.\<close>

theorem ai_output_is_only_text:
  "\<forall>s\<in>set (fe_steps (finalize_with_origin env tpl AiOrigin)). \<exists>t. s = TextStep t \<and> t \<noteq> []"
proof -
  have "\<forall>s\<in>set (fe_steps (finalize_with_origin env tpl AiOrigin)). nonempty_text s"
    by (rule finalize_all) (auto simp: nonempty_text_def)
  then show ?thesis by (simp add: nonempty_text_def)
qed

lemma tag_effect_not_text: "tag_effect env inner = EffectSteps new \<Longrightarrow> s \<in> set new \<Longrightarrow> s \<noteq> TextStep t"
  by (auto simp: tag_effect_def Let_def parse_mouse_directive_def mouse_step_def parse_img_directive_def
      split: if_split_asm option.split_asm sum.split_asm)

lemma tag_effect_script:
  "tag_effect env inner = EffectSteps new \<Longrightarrow> InlineRun md args \<in> set new \<Longrightarrow> sy_scripts_enabled env"
  by (auto simp: tag_effect_def Let_def parse_mouse_directive_def mouse_step_def parse_img_directive_def
      split: if_split_asm option.split_asm sum.split_asm)

lemma tag_effect_no_stored_script:
  "tag_effect env inner = EffectSteps new \<Longrightarrow> ScriptStep md \<notin> set new"
  by (auto simp: tag_effect_def Let_def parse_mouse_directive_def mouse_step_def parse_img_directive_def
      split: if_split_asm option.split_asm sum.split_asm)

text \<open>The final pass never asks for an empty text to be typed, and asks for a script to be run only when
  scripts are enabled.\<close>

theorem finalize_steps_are_safe:
  assumes "s \<in> set (fe_steps (finalize env tpl))"
  shows "s \<noteq> TextStep [] \<and> (\<forall>md args. s = InlineRun md args \<longrightarrow> sy_scripts_enabled env) \<and> (\<forall>md. s \<noteq> ScriptStep md)"
proof -
  let ?P = "\<lambda>s. s \<noteq> TextStep [] \<and> (\<forall>md args. s = InlineRun md args \<longrightarrow> sy_scripts_enabled env) \<and> (\<forall>md. s \<noteq> ScriptStep md)"
  have "\<forall>s\<in>set (fe_steps (finalize_with_origin env tpl UserOrigin)). ?P s"
    by (rule finalize_all) (use tag_effect_not_text tag_effect_script tag_effect_no_stored_script in auto)
  then show ?thesis using assms by (simp add: finalize_def)
qed

end
