(* ===== verification/Temporal.thy ===== *)
theory Temporal
  imports Directives
begin

text \<open>
  The \<open>chrono\<close> variable, \<open>core/src/engine/variables/system/datetime.rs\<close>: the offsets of
  \<open>apply_temporal_calc\<close>, the format letters of \<open>format_temporal\<close> and the arguments of \<open>resolve\<close>. A point in
  time and its arithmetic belong to the crate \<open>time\<close> and are the fields of \<open>time_ops\<close>: adding a duration
  whose result the calendar does not hold panics there, so it is an option. A panic of the code is the
  constructor \<open>Panics\<close> of what a function gives.
\<close>

section \<open>Points in time\<close>

datatype 'a outcome = Panics | Returns 'a

record 'd time_ops =
  tm_year :: "'d \<Rightarrow> int"
  tm_month :: "'d \<Rightarrow> nat"
  tm_day :: "'d \<Rightarrow> nat"
  tm_hour :: "'d \<Rightarrow> nat"
  tm_minute :: "'d \<Rightarrow> nat"
  tm_second :: "'d \<Rightarrow> nat"
  tm_month_name :: "'d \<Rightarrow> string"
  tm_weekday :: "'d \<Rightarrow> string"
  tm_zone :: "'d \<Rightarrow> int \<times> int"
  tm_unix_seconds :: "'d \<Rightarrow> int"
  tm_unix_nanos :: "'d \<Rightarrow> int"
  tm_days_in_month :: "nat \<Rightarrow> int \<Rightarrow> nat"
  tm_is_date :: "int \<Rightarrow> nat \<Rightarrow> nat \<Rightarrow> bool"
  tm_replace_date :: "'d \<Rightarrow> int \<Rightarrow> nat \<Rightarrow> nat \<Rightarrow> 'd"
  tm_add_seconds :: "'d \<Rightarrow> int \<Rightarrow> 'd option"
  tm_now :: 'd
  tm_to_utc :: "'d \<Rightarrow> 'd"

section \<open>Offsets\<close>

definition add_months_clamped :: "'d time_ops \<Rightarrow> 'd \<Rightarrow> int \<Rightarrow> 'd" where
  "add_months_clamped env dt months =
     (let month_index = tm_year env dt * 12 + int (tm_month env dt) - 1 + months;
          year = month_index div 12;
          month = nat (month_index mod 12 + 1);
          day = min (tm_day env dt) (tm_days_in_month env month year)
      in if tm_is_date env year month day then tm_replace_date env dt year month day
         else tm_replace_date env dt (tm_year env dt) (tm_month env dt) (tm_day env dt))"

definition plus_seconds :: "'d time_ops \<Rightarrow> 'd \<Rightarrow> int \<Rightarrow> (string + 'd) outcome" where
  "plus_seconds env dt n =
     (case tm_add_seconds env dt n of None \<Rightarrow> Panics | Some dt' \<Rightarrow> Returns (Inr dt'))"

definition calc_unit :: "'d time_ops \<Rightarrow> 'd \<Rightarrow> char \<Rightarrow> int \<Rightarrow> (string + 'd) outcome" where
  "calc_unit env dt c val =
     (if c = CHR ''y'' \<or> c = CHR ''Y'' then Returns (Inr (add_months_clamped env dt (val * 12)))
      else if c = CHR ''m'' \<or> c = CHR ''M'' then Returns (Inr (add_months_clamped env dt val))
      else if c = CHR ''w'' \<or> c = CHR ''W'' then plus_seconds env dt (val * 7 * 86400)
      else if c = CHR ''d'' \<or> c = CHR ''D'' then plus_seconds env dt (val * 86400)
      else if c = CHR ''h'' \<or> c = CHR ''H'' then plus_seconds env dt (val * 3600)
      else if c = CHR ''i'' then plus_seconds env dt (val * 60)
      else if c = CHR ''s'' \<or> c = CHR ''S'' then plus_seconds env dt val
      else Returns (Inl (''Unknown unit '' @ [CHR 0x27, c, CHR 0x27] @ '' in calc'')))"

text \<open>One amount: its sign and digits, its unit and what follows. The answer holds the number of characters
  the unit takes.\<close>

definition calc_amount ::
  "'d time_ops \<Rightarrow> 'd \<Rightarrow> bool \<Rightarrow> string \<Rightarrow> string \<Rightarrow> (string + 'd) outcome \<times> nat" where
  "calc_amount env dt is_positive num s =
     (case parse_i64 num of
        None \<Rightarrow> (Returns (Inl ''Invalid number in calc''), 1)
      | Some n \<Rightarrow>
          (let val = (if is_positive then n else - n) in
           if 1000000 < abs val then (Returns (Inl ''calc magnitude out of range''), 1)
           else if takeWhile is_alphabetic s = ''min'' then (plus_seconds env dt (val * 60), 3)
           else (calc_unit env dt (hd s) val, 1)))"

lemma calc_amount_pos: "calc_amount env dt is_positive num s = (r, n) \<Longrightarrow> 0 < n"
  by (auto simp: calc_amount_def Let_def split: option.split_asm if_split_asm)

function calc_loop :: "'d time_ops \<Rightarrow> 'd \<Rightarrow> bool \<Rightarrow> string \<Rightarrow> string \<Rightarrow> (string + 'd) outcome" where
  "calc_loop env dt is_positive num [] = Returns (Inr dt)"
| "calc_loop env dt is_positive num (c # cs) =
     (if c = CHR ''+'' then calc_loop env dt True num cs
      else if c = CHR ''-'' then calc_loop env dt False num cs
      else if is_ascii_digit c then calc_loop env dt is_positive (num @ [c]) cs
      else if is_alphabetic c then
        (if num = [] then Returns (Inl ''Missing number in calc'')
         else case calc_amount env dt is_positive num (c # cs) of
           (Returns (Inr dt'), n) \<Rightarrow> calc_loop env dt' is_positive [] (drop n (c # cs))
         | (failed, n) \<Rightarrow> failed)
      else if is_whitespace c then calc_loop env dt is_positive num cs
      else Returns (Inl (''Invalid character '' @ [CHR 0x27, c, CHR 0x27] @ '' in calc'')))"
  by pat_completeness auto
termination
  by (relation "measure (\<lambda>(env, dt, is_positive, num, s). length s)") (auto dest!: calc_amount_pos [OF sym])

declare calc_loop.simps(2) [simp del]

definition apply_temporal_calc :: "'d time_ops \<Rightarrow> 'd \<Rightarrow> string \<Rightarrow> (string + 'd) outcome" where
  "apply_temporal_calc env dt text =
     (let args = strip_argument_quotes text in
      if args = [] then Returns (Inl ''calc requires arguments'')
      else if hd args \<noteq> CHR ''+'' \<and> hd args \<noteq> CHR ''-'' then Returns (Inl ''calc needs + or -'')
      else calc_loop env dt True [] args)"

section \<open>Formats\<close>

definition hour_12 :: "'d time_ops \<Rightarrow> 'd \<Rightarrow> nat" where
  "hour_12 env dt = (let h = tm_hour env dt mod 12 in if h = 0 then 12 else h)"

text \<open>The formats \<open>{:0w}\<close> and \<open>{:+0w}\<close> of an integer: the sign counts in the width.\<close>

definition show_padded :: "nat \<Rightarrow> int \<Rightarrow> string" where
  "show_padded width n =
     (let sign = (if n < 0 then ''-'' else []); digits = show_nat (nat (abs n))
      in sign @ replicate (width - length sign - length digits) CHR ''0'' @ digits)"

definition show_signed_padded :: "nat \<Rightarrow> int \<Rightarrow> string" where
  "show_signed_padded width n =
     (let digits = show_nat (nat (abs n))
      in (if n < 0 then CHR ''-'' else CHR ''+'') # replicate (width - 1 - length digits) CHR ''0'' @ digits)"

text \<open>Division and remainder of the code's integers round towards zero.\<close>

definition quotient :: "int \<Rightarrow> int \<Rightarrow> int" where
  "quotient a b = (if a < 0 then - ((- a) div b) else a div b)"

definition remainder :: "int \<Rightarrow> int \<Rightarrow> int" where
  "remainder a b = (if a < 0 then - ((- a) mod b) else a mod b)"

text \<open>The letters in the order the code tries them.\<close>

definition format_tokens :: "'d time_ops \<Rightarrow> 'd \<Rightarrow> (string \<times> string) list" where
  "format_tokens env dt =
     [(''YYYY'', show_padded 4 (tm_year env dt)), (''YY'', show_padded 2 (remainder (tm_year env dt) 100)),
      (''MMMM'', tm_month_name env dt), (''MMM'', take 3 (tm_month_name env dt)),
      (''MM'', show_padded 2 (int (tm_month env dt))), (''M'', show_nat (tm_month env dt)),
      (''DD'', show_padded 2 (int (tm_day env dt))), (''D'', show_nat (tm_day env dt)),
      (''dddd'', tm_weekday env dt), (''ddd'', take 3 (tm_weekday env dt)),
      (''HH'', show_padded 2 (int (tm_hour env dt))), (''H'', show_nat (tm_hour env dt)),
      (''hh'', show_padded 2 (int (hour_12 env dt))), (''h'', show_nat (hour_12 env dt)),
      (''mm'', show_padded 2 (int (tm_minute env dt))), (''m'', show_nat (tm_minute env dt)),
      (''ss'', show_padded 2 (int (tm_second env dt))), (''s'', show_nat (tm_second env dt)),
      (''A'', if 12 \<le> tm_hour env dt then ''PM'' else ''AM''),
      (''a'', if 12 \<le> tm_hour env dt then ''pm'' else ''am''),
      (''Z'', show_signed_padded 3 (fst (tm_zone env dt)) @ '':'' @ show_padded 2 (abs (snd (tm_zone env dt)))),
      (''X'', show_padded 0 (tm_unix_seconds env dt)),
      (''x'', show_padded 0 (quotient (tm_unix_nanos env dt) 1000000))]"

definition format_token :: "'d time_ops \<Rightarrow> 'd \<Rightarrow> string \<Rightarrow> (string \<times> string) option" where
  "format_token env dt remaining = find (\<lambda>(letters, _). prefix letters remaining) (format_tokens env dt)"

text \<open>\<open>&s[i..]\<close> counts bytes, and panics at an index inside a character.\<close>

fun from_byte :: "string \<Rightarrow> nat \<Rightarrow> string option" where
  "from_byte s 0 = Some s"
| "from_byte [] (Suc n) = None"
| "from_byte (c # cs) (Suc n) =
     (if is_ascii c then from_byte cs n else case n of 0 \<Rightarrow> None | Suc m \<Rightarrow> from_byte cs m)"

lemma format_token_member:
  "format_token env dt remaining = Some p \<Longrightarrow> p \<in> set (format_tokens env dt) \<and> prefix (fst p) remaining"
  unfolding format_token_def find_Some_iff by (metis (mono_tags) nth_mem prod.case_eq_if)

lemma format_letters: "list_all (\<lambda>p. fst p \<noteq> [] \<and> list_all is_ascii (fst p)) (format_tokens env dt)"
  by (simp add: format_tokens_def is_ascii_def)

lemma format_token_pos: "format_token env dt remaining = Some (letters, text) \<Longrightarrow> letters \<noteq> []"
  using format_token_member format_letters [of env dt] by (fastforce simp: list_all_iff)

text \<open>The loop counts characters: quoted text is copied, letters are replaced, all else is copied.\<close>

function format_loop :: "'d time_ops \<Rightarrow> 'd \<Rightarrow> string \<Rightarrow> nat \<Rightarrow> string \<Rightarrow> (string + string) outcome" where
  "format_loop env dt s i out =
     (if i < length s then
        (if s ! i = CHR 0x27 then
           (let quoted_text = takeWhile (\<lambda>c. c \<noteq> CHR 0x27) (drop (i + 1) s)
            in format_loop env dt s (i + length quoted_text + 2) (out @ quoted_text))
         else case from_byte s i of
           None \<Rightarrow> Panics
         | Some remaining \<Rightarrow>
             (case format_token env dt remaining of
                Some (letters, text) \<Rightarrow> format_loop env dt s (i + length letters) (out @ text)
              | None \<Rightarrow> format_loop env dt s (i + 1) (out @ [s ! i])))
      else Returns (Inr out))"
  by pat_completeness auto
termination
  by (relation "measure (\<lambda>(env, dt, s, i, out). length s - i)")
    (auto dest!: format_token_pos intro!: diff_less_mono2)

declare format_loop.simps [simp del]

definition format_temporal :: "'d time_ops \<Rightarrow> 'd \<Rightarrow> string \<Rightarrow> (string + string) outcome" where
  "format_temporal env dt format_str = format_loop env dt format_str 0 []"

section \<open>The variable\<close>

definition chrono_params :: "param list" where
  "chrono_params =
     [optional ''type'' ''datetime'', optional ''offset'' ''none'', optional ''format'' [], optional ''tz'' ''local'']"

text \<open>The shape of a single argument decides the slot it fills: type, offset, format, zone.\<close>

definition classify_single :: "string \<Rightarrow> (string \<times> string \<times> string \<times> string) option" where
  "classify_single text =
     (let token = str_trim text; lower = str_to_ascii_lowercase token in
      if token \<noteq> [] \<and> (hd token = CHR ''+'' \<or> hd token = CHR ''-'')
      then Some (''datetime'', token, [], ''local'')
      else if lower = ''utc'' \<or> lower = ''local'' then Some (''datetime'', ''none'', [], token)
      else if lower = ''date'' \<or> lower = ''time'' \<or> lower = ''datetime''
      then Some (token, ''none'', [], ''local'')
      else if token \<noteq> [] \<and> is_ascii_digit (hd token) then None
      else Some (''datetime'', ''none'', token, ''local''))"

definition default_format :: "string \<Rightarrow> string option" where
  "default_format kind =
     (let k = str_to_ascii_lowercase (str_trim kind) in
      if k = ''date'' then Some ''YYYY-MM-DD''
      else if k = ''time'' then Some ''HH:mm''
      else if k = ''datetime'' then Some ''YYYY-MM-DDTHH:mm:ss''
      else None)"

definition chrono_slots :: "bound_args \<Rightarrow> (string \<times> string \<times> string \<times> string) option" where
  "chrono_slots bound =
     (if length (b_positional bound) = 1 \<and> \<not> has_named_args bound chrono_params
      then classify_single (hd (b_positional bound))
      else Some (named_value bound ''type'' ''datetime'', named_value bound ''offset'' ''none'',
        named_value bound ''format'' [], named_value bound ''tz'' ''local''))"

definition ok :: "('e + 'a) outcome \<Rightarrow> 'a option outcome" where
  "ok r = (case r of Panics \<Rightarrow> Panics | Returns (Inl e) \<Rightarrow> Returns None | Returns (Inr a) \<Rightarrow> Returns (Some a))"

definition chrono_text :: "'d time_ops \<Rightarrow> string \<times> string \<times> string \<times> string \<Rightarrow> string option outcome" where
  "chrono_text env slots =
     (case slots of (kind, offset, format, tz) \<Rightarrow>
        (case default_format kind of
           None \<Rightarrow> Returns None
         | Some pattern \<Rightarrow>
             (let zone = str_to_ascii_lowercase (str_trim tz) in
              if zone \<noteq> ''utc'' \<and> zone \<noteq> ''local'' then Returns None
              else
                (let dt = (if zone = ''utc'' then tm_to_utc env (tm_now env) else tm_now env);
                     moved = (if eq_ignore_ascii_case (str_trim offset) ''none'' then Returns (Inr dt)
                              else apply_temporal_calc env dt (str_trim offset));
                     chosen = (if str_trim format = [] then pattern else unquoted (str_trim format))
                 in case moved of
                      Panics \<Rightarrow> Panics
                    | Returns (Inl e) \<Rightarrow> Returns None
                    | Returns (Inr dt') \<Rightarrow> ok (format_temporal env dt' chosen)))))"

definition chrono_resolve :: "'d time_ops \<Rightarrow> string \<Rightarrow> string option outcome" where
  "chrono_resolve env raw =
     (case bind_call ''chrono'' raw chrono_params of
        Inl _ \<Rightarrow> Returns None
      | Inr bound \<Rightarrow>
          if length chrono_params < length (b_positional bound) then Returns None
          else case chrono_slots bound of None \<Rightarrow> Returns None | Some slots \<Rightarrow> chrono_text env slots)"

section \<open>Formats of plain letters\<close>

lemma from_byte_ascii: "list_all is_ascii s \<Longrightarrow> i \<le> length s \<Longrightarrow> from_byte s i = Some (drop i s)"
  by (induction s i rule: from_byte.induct) auto

text \<open>A format of ASCII characters is never read inside a character.\<close>

theorem ascii_format_never_panics:
  assumes "list_all is_ascii format_str"
  shows "\<exists>t. format_temporal env dt format_str = Returns (Inr t)"
proof -
  have "\<exists>t. format_loop env dt s i out = Returns (Inr t)" if "list_all is_ascii s" for s i out
    using that
  proof (induction env dt s i out rule: format_loop.induct)
    case (1 env dt s i out)
    show ?case
    proof (cases "i < length s \<and> s ! i \<noteq> CHR 0x27")
      case True
      note read = from_byte_ascii [OF "1.prems", of i]
      show ?thesis
      proof (cases "format_token env dt (drop i s)")
        case None
        then show ?thesis using True read "1.IH"(2) "1.prems" by (simp add: format_loop.simps [of env dt s i])
      next
        case (Some p)
        then show ?thesis
          using True read "1.IH"(3) "1.prems" by (cases p) (simp add: format_loop.simps [of env dt s i])
      qed
    next
      case False
      then show ?thesis using "1.IH"(1) "1.prems" by (auto simp: format_loop.simps [of env dt s i] Let_def)
    qed
  qed
  then show ?thesis using assms by (simp add: format_temporal_def)
qed

text \<open>A calendar of twelve months of thirty days, its days counted in seconds.\<close>

definition demo_calendar :: "int time_ops" where
  "demo_calendar =
     \<lparr>tm_year = \<lambda>d. d div 31104000, tm_month = \<lambda>d. nat (d div 2592000 mod 12) + 1,
      tm_day = \<lambda>d. nat (d div 86400 mod 30) + 1, tm_hour = \<lambda>d. nat (d div 3600 mod 24),
      tm_minute = \<lambda>d. nat (d div 60 mod 60), tm_second = \<lambda>d. nat (d mod 60),
      tm_month_name = \<lambda>_. ''Month'', tm_weekday = \<lambda>_. ''Someday'', tm_zone = \<lambda>_. (0, 0),
      tm_unix_seconds = \<lambda>d. d, tm_unix_nanos = \<lambda>d. d * 1000000000,
      tm_days_in_month = \<lambda>_ _. 30, tm_is_date = \<lambda>_ _ d. d \<le> 30,
      tm_replace_date = \<lambda>d y m day. y * 31104000 + (int m - 1) * 2592000 + (int day - 1) * 86400 + d mod 86400,
      tm_add_seconds = \<lambda>d n. Some (d + n), tm_now = 0, tm_to_utc = \<lambda>d. d\<rparr>"

theorem ascii_format_never_panics_witness: "\<exists>t. format_temporal demo_calendar 0 ''YYYY-MM-DD'' = Returns (Inr t)"
  by (rule ascii_format_never_panics) code_simp

lemma format_token_ascii: "\<not> is_ascii c \<Longrightarrow> format_token env dt (c # cs) = None"
proof (rule ccontr)
  assume "\<not> is_ascii c" and "format_token env dt (c # cs) \<noteq> None"
  then obtain p where p: "p \<in> set (format_tokens env dt)" "prefix (fst p) (c # cs)"
    by (auto dest: format_token_member)
  then show False using format_letters [of env dt] \<open>\<not> is_ascii c\<close>
    by (cases "fst p") (auto simp: list_all_iff)
qed

text \<open>A format that starts outside ASCII panics at its second character, unless a quote stands there.\<close>

theorem accented_format_panics:
  assumes "\<not> is_ascii c" and "d \<noteq> CHR 0x27"
  shows "format_temporal env dt (c # d # rest) = Panics"
proof -
  have "c \<noteq> CHR 0x27" using assms(1) by (auto simp: is_ascii_def)
  then show ?thesis
    using assms by (simp add: format_token_ascii [OF assms(1)] format_temporal_def format_loop.simps [of env dt _ 0] format_loop.simps [of env dt _ "Suc 0"])
qed

theorem accented_format_panics_witness: "format_temporal demo_calendar 0 (CHR 0xE9 # ''DD'') = Panics"
  by (rule accented_format_panics) code_simp+

section \<open>Offsets\<close>

text \<open>Whether an offset is an error depends on its text alone: what applies once never fails later, save by
  leaving the calendar.\<close>

lemma plus_seconds_error: "plus_seconds env dt n \<noteq> Returns (Inl e)"
  by (simp add: plus_seconds_def split: option.split)

lemma calc_unit_error: "(\<exists>e. calc_unit env dt c val = Returns (Inl e)) \<longleftrightarrow> c \<notin> set ''yYmMwWdDhHisS''"
  by (simp add: calc_unit_def plus_seconds_error)

lemma calc_amount_in_range:
  assumes "parse_i64 num = Some k" and "abs k \<le> 1000000"
  shows "calc_amount env dt pos num s =
    (if takeWhile is_alphabetic s = ''min'' then (plus_seconds env dt ((if pos then k else - k) * 60), 3)
     else (calc_unit env dt (hd s) (if pos then k else - k), 1))"
  using assms by (simp add: calc_amount_def Let_def)

lemma calc_amount_error:
  assumes "calc_amount env dt pos num s = (Returns (Inr d), n)"
  shows "\<exists>r. calc_amount env dt' pos num s = (r, n) \<and> (\<forall>e. r \<noteq> Returns (Inl e))"
proof -
  have "\<exists>k. parse_i64 num = Some k \<and> abs k \<le> 1000000"
    using assms by (auto simp: calc_amount_def Let_def split: option.split_asm if_split_asm)
  then obtain k where k: "parse_i64 num = Some k" "abs k \<le> 1000000" by blast
  note read = calc_amount_in_range [OF k]
  show ?thesis
  proof (cases "takeWhile is_alphabetic s = ''min''")
    case True
    then show ?thesis using assms by (simp add: read plus_seconds_error)
  next
    case False
    then have "hd s \<in> set ''yYmMwWdDhHisS''"
      using assms calc_unit_error [of env dt "hd s" "if pos then k else - k"] by (simp add: read)
    then have "calc_unit env dt' (hd s) j \<noteq> Returns (Inl e)" for j e
      using calc_unit_error [of env dt' "hd s"] by blast
    then show ?thesis using assms False by (simp add: read)
  qed
qed

lemma calc_loop_errors: "calc_loop env dt pos num s = Returns (Inr d) \<Longrightarrow> calc_loop env dt' pos num s \<noteq> Returns (Inl e)"
proof (induction env dt pos num s arbitrary: dt' rule: calc_loop.induct)
  case (2 env dt pos num c cs)
  note steps = calc_loop.simps(2) [of env _ pos num c cs]
  show ?case
  proof (cases "c = CHR ''+'' \<or> c = CHR ''-'' \<or> is_ascii_digit c \<or> \<not> is_alphabetic c")
    case True
    then show ?thesis using 2 by (auto simp: steps split: if_split_asm)
  next
    case False
    then obtain d1 n where amount: "calc_amount env dt pos num (c # cs) = (Returns (Inr d1), n)"
      and num: "num \<noteq> []" and rest: "calc_loop env d1 pos [] (drop n (c # cs)) = Returns (Inr d)"
      using "2.prems" by (auto simp: steps split: if_split_asm prod.split_asm outcome.split_asm sum.split_asm)
    obtain r where r: "calc_amount env dt' pos num (c # cs) = (r, n)" "\<And>e. r \<noteq> Returns (Inl e)"
      using calc_amount_error [OF amount] by blast
    show ?thesis
    proof (cases "\<exists>d'. r = Returns (Inr d')")
      case True
      then obtain d' where d': "r = Returns (Inr d')" by blast
      have "calc_loop env d' pos [] (drop n (c # cs)) \<noteq> Returns (Inl e)"
        using "2.IH"(4) [OF _ _ _ _ num amount [symmetric] refl refl rest] False by simp
      then show ?thesis using False num r d' by (simp add: steps)
    next
      case notfound: False
      then have "r = Panics" using r(2) by (metis old.sum.exhaust outcome.exhaust)
      then show ?thesis using False num r by (simp add: steps)
    qed
  qed
qed simp

theorem offset_errors_depend_on_text:
  assumes "apply_temporal_calc env dt t = Returns (Inr d)"
  shows "apply_temporal_calc env dt' t \<noteq> Returns (Inl e)"
  using assms calc_loop_errors [of env dt True "[]" "strip_argument_quotes t" d dt' e]
  by (auto simp: apply_temporal_calc_def Let_def split: if_split_asm)

end
