(* ===== verification/Validation.thy ===== *)
theory Validation
  imports Temporal
begin

text \<open>
  Validation of a system call, \<open>core/src/engine/variables/registry/validation.rs\<close>: the checks made when a
  snippet is saved and when a tag is compiled. A call is refused with a \<open>validation_error\<close> or accepted.
  Whether an offset of \<open>chrono\<close> applies to the present moment is the field \<open>va_offset_ok\<close>; \<open>offset_applies\<close>
  is its value for the calendar of \<open>Temporal\<close>.
\<close>

section \<open>Errors\<close>

datatype validation_error =
    UnknownRoot string
  | DotChain string string
  | MissingModifier string
  | UnexpectedModifier string string
  | InvalidModifier string string "string list"

record validate_env =
  va_offset_ok :: "string \<Rightarrow> bool"
  va_system :: system_env

definition offset_applies :: "'d time_ops \<Rightarrow> string \<Rightarrow> bool" where
  "offset_applies env text =
     (case apply_temporal_calc env (tm_to_utc env (tm_now env)) text of Returns (Inr _) \<Rightarrow> True | _ \<Rightarrow> False)"

definition refuse_unless :: "bool \<Rightarrow> validation_error \<Rightarrow> validation_error + unit" where
  "refuse_unless accepted e = (if accepted then Inr () else Inl e)"

text \<open>Whether a call is accepted, and the facts that take it apart.\<close>

definition accepted :: "validation_error + unit \<Rightarrow> bool" where
  "accepted r \<longleftrightarrow> r = Inr ()"

named_theorems accepted_iff

lemma accepted_refuse [accepted_iff]: "accepted (refuse_unless b e) \<longleftrightarrow> b"
  by (simp add: accepted_def refuse_unless_def)

lemma accepted_Inl [accepted_iff]: "accepted (Inl e) \<longleftrightarrow> False"
  by (simp add: accepted_def)

lemma accepted_Inr [accepted_iff]: "accepted (Inr u) \<longleftrightarrow> True"
  by (simp add: accepted_def)

lemma accepted_if [accepted_iff]: "accepted (if b then x else y) \<longleftrightarrow> (if b then accepted x else accepted y)"
  by simp

section \<open>Hints for retired chains\<close>

definition before_char :: "char \<Rightarrow> string \<Rightarrow> string" where
  "before_char d s = takeWhile (\<lambda>c. c \<noteq> d) s"

definition dot_hint :: "string \<Rightarrow> string" where
  "dot_hint ns =
     (let (root, rest) = (case split_once CHR ''.'' ns of Some p \<Rightarrow> p | None \<Rightarrow> (ns, []));
          sub_base = before_char CHR ''('' (before_char CHR ''.'' rest)
      in if root = ''mouse'' then
           (if sub_base = ''rclick'' then ''mouse(click, m2)''
            else if sub_base = ''mclick'' then ''mouse(click, m3)''
            else if sub_base = ''m4'' then ''mouse(click, m4)''
            else if sub_base = ''m5'' then ''mouse(click, m5)''
            else if sub_base = ''dblclick'' then ''mouse(click, m1, 2)''
            else if sub_base = ''down'' \<or> sub_base = ''hold'' then ''mouse(hold, m1)''
            else if sub_base = ''up'' \<or> sub_base = ''release'' then ''mouse(release, m1)''
            else if sub_base = ''move'' then ''mouse(move, x, y)''
            else if sub_base = ''scroll'' then ''mouse(scroll, delta)''
            else if sub_base = ''pos'' then ''mouse(pos)''
            else if sub_base = ''click'' then ''mouse(click, m1)''
            else ''mouse(click, mN[, n])'')
         else if root = ''date'' \<or> root = ''time'' \<or> root = ''datetime'' then
           (if sub_base = ''utc'' \<or> sub_base = ''local'' then ''chrono('' @ root @ '', tz='' @ sub_base @ '')''
            else ''chrono('' @ root @ '')'')
         else if root = ''clipboard'' then ''clip''
         else if root = ''net'' then
           (if sub_base = ''publicip'' then ''ip(public)''
            else if sub_base = ''localip'' then ''ip(local)''
            else if sub_base = ''online'' then ''http(status, url)''
            else ''ip'')
         else root @ ''(...)'')"

section \<open>Values\<close>

definition is_strict_mouse_button :: "string \<Rightarrow> bool" where
  "is_strict_mouse_button s =
     (case strip_prefix ''m'' s of
        None \<Rightarrow> False
      | Some n \<Rightarrow> (case parse_u16 n of None \<Rightarrow> False | Some k \<Rightarrow> 1 \<le> k \<and> k \<le> 255))"

definition parse_usize_at_least :: "string \<Rightarrow> nat \<Rightarrow> nat option" where
  "parse_usize_at_least text least =
     (case parse_usize text of None \<Rightarrow> None | Some n \<Rightarrow> if least \<le> n then Some n else None)"

definition within :: "nat \<Rightarrow> nat option \<Rightarrow> bool" where
  "within greatest n = (case n of None \<Rightarrow> False | Some k \<Rightarrow> k \<le> greatest)"

definition history_capacity :: nat where
  "history_capacity = 3"

definition max_lorem_count :: nat where
  "max_lorem_count = 100000"

definition max_random_string_len :: nat where
  "max_random_string_len = 4096"

definition chrono_kinds :: "string list" where
  "chrono_kinds = [''date'', ''time'', ''datetime'']"

definition chrono_zones :: "string list" where
  "chrono_zones = [''utc'', ''local'']"

definition random_kinds :: "string list" where
  "random_kinds = [''int'', ''choice'', ''str'', ''pass'']"

definition lorem_kinds :: "string list" where
  "lorem_kinds = [''words'', ''sentences'', ''paragraphs'']"

definition mouse_actions :: "string list" where
  "mouse_actions = [''click'', ''hold'', ''release'', ''move'', ''scroll'', ''pos'']"

text \<open>\<open>check_args\<close> of \<open>system/file.rs\<close>.\<close>

definition check_file_args :: "string \<Rightarrow> string \<Rightarrow> string \<Rightarrow> string \<Rightarrow> bool" where
  "check_file_args op path first_line last_line =
     (if op = ''read'' then str_trim path \<noteq> [] \<and> first_line = [] \<and> last_line = []
      else if op = ''line'' then
        str_trim path \<noteq> [] \<and> str_trim first_line \<noteq> [] \<and> last_line = [] \<and>
        (case parse_usize (str_trim first_line) of None \<Rightarrow> False | Some n \<Rightarrow> 0 < n)
      else if op = ''lines'' then
        (if str_trim path = [] \<or> str_trim first_line = [] then False
         else case parse_usize (str_trim first_line) of
           None \<Rightarrow> False
         | Some n \<Rightarrow>
             if n = 0 then False
             else if str_trim last_line = [] then True
             else (case parse_usize (str_trim last_line) of None \<Rightarrow> False | Some m \<Rightarrow> n \<le> m))
      else False)"

definition validate_chrono_args :: "validate_env \<Rightarrow> bound_args \<Rightarrow> param list \<Rightarrow> validation_error + unit" where
  "validate_chrono_args env bound ps =
     (let named = (\<lambda>key. named_value bound key []) in
      if length (b_positional bound) = 1 \<and> \<not> has_named_args bound ps then
        (let token = str_trim (hd (b_positional bound)); lower = str_to_ascii_lowercase token in
         if token \<noteq> [] \<and> (hd token = CHR ''+'' \<or> hd token = CHR ''-'') then Inr ()
         else if lower \<in> {''utc'', ''local'', ''date'', ''time'', ''datetime''} then Inr ()
         else if token \<noteq> [] \<and> is_ascii_digit (hd token)
         then Inl (InvalidModifier ''chrono'' token
           [''date'', ''time'', ''datetime'', ''utc'', ''local'', ''+offset'', ''format''])
         else Inr ())
      else if str_to_ascii_lowercase (named ''type'') \<notin> set chrono_kinds
      then Inl (InvalidModifier ''chrono'' (named ''type'') chrono_kinds)
      else if str_to_ascii_lowercase (named ''tz'') \<notin> set chrono_zones
      then Inl (InvalidModifier ''chrono'' (named ''tz'') chrono_zones)
      else if \<not> eq_ignore_ascii_case (named ''offset'') ''none'' \<and> \<not> va_offset_ok env (named ''offset'')
      then Inl (InvalidModifier ''chrono'' (named ''offset'') [''none'', ''+offset''])
      else Inr ())"

text \<open>What a kind leaves of the positional arguments: a leading kind word owns the first place.\<close>

definition without_kind :: "string \<Rightarrow> string list \<Rightarrow> string list" where
  "without_kind kind args = (if args \<noteq> [] \<and> hd args = kind then tl args else args)"

definition int_range_ok :: "string list \<Rightarrow> bool" where
  "int_range_ok nums =
     (case nums of
        [] \<Rightarrow> True
      | [greatest] \<Rightarrow> (case parse_i64 greatest of None \<Rightarrow> False | Some m \<Rightarrow> 1 \<le> m)
      | [least, greatest] \<Rightarrow>
          (case (parse_i64 least, parse_i64 greatest) of (Some lo, Some hi) \<Rightarrow> lo \<le> hi | _ \<Rightarrow> False)
      | _ \<Rightarrow> False)"

definition string_length_ok :: "string \<Rightarrow> bool" where
  "string_length_ok text = within max_random_string_len (parse_usize_at_least text 1)"

definition validate_random_kind :: "string \<Rightarrow> bound_args \<Rightarrow> param list \<Rightarrow> string \<Rightarrow> validation_error + unit" where
  "validate_random_kind kind bound ps raw =
     (let named = (\<lambda>key. named_value bound key []); has_named = has_named_args bound ps;
          args = without_kind kind (b_positional bound)
      in if kind = ''int'' then
           refuse_unless
             (if has_named then int_range_ok [named ''min'', named ''max''] else int_range_ok args)
             (InvalidModifier ''random'' raw [''random(int[, min, max])''])
         else if kind = ''choice'' then
           refuse_unless
             (args \<noteq> [] \<and> \<not> (has_named \<and> (named ''min'' \<noteq> ''0'' \<or> named ''max'' \<noteq> ''100'')))
             (InvalidModifier ''random'' raw [''random(choice, option, ...)''])
         else
           refuse_unless
             (case args of
                [] \<Rightarrow>
                  \<not> has_named \<or> (named ''min'' = ''0'' \<and> named ''max'' = ''100'') \<or>
                  (named ''min'' \<noteq> ''0'' \<and> named ''max'' = ''100'' \<and> string_length_ok (named ''min'')) \<or>
                  (named ''min'' = ''0'' \<and> named ''max'' \<noteq> ''100'' \<and> string_length_ok (named ''max''))
              | [len] \<Rightarrow> \<not> has_named \<and> string_length_ok len
              | _ \<Rightarrow> False)
             (InvalidModifier ''random'' raw [''random(str[, len])'', ''random(pass[, len])'']))"

definition validate_random_args :: "bound_args \<Rightarrow> param list \<Rightarrow> string \<Rightarrow> validation_error + unit" where
  "validate_random_args bound ps raw =
     (case b_positional bound of
        [] \<Rightarrow>
          (let kind = named_value bound ''type'' [] in
           if kind \<notin> set random_kinds then Inl (InvalidModifier ''random'' kind random_kinds)
           else validate_random_kind kind bound ps raw)
      | first # _ \<Rightarrow>
          if first \<in> set random_kinds then validate_random_kind first bound ps raw
          else if parse_i64 first \<noteq> None then validate_random_kind ''int'' bound ps raw
          else Inl (InvalidModifier ''random'' first random_kinds))"

definition lorem_slots :: "bound_args \<Rightarrow> param list \<Rightarrow> string \<times> string" where
  "lorem_slots bound ps =
     (let args = b_positional bound in
      if has_named_args bound ps then (named_value bound ''type'' [], named_value bound ''count'' [])
      else if args = [] then (''paragraphs'', [])
      else if length args = 1 \<and> parse_usize (hd args) \<noteq> None then (''paragraphs'', hd args)
      else if length args = 1 then (hd args, [])
      else (hd args, args ! 1))"

definition key_token_ok :: "string \<Rightarrow> bool" where
  "key_token_ok raw =
     (let parts = split_on CHR ''+'' (str_to_ascii_lowercase (strip_argument_quotes raw)) in
      (\<forall>p\<in>set parts. p \<noteq> []) \<and>
      (case key_from_alias (last parts) of None \<Rightarrow> False | Some k \<Rightarrow> is_mouse_button k = None) \<and>
      (\<forall>m\<in>set (butlast parts). modifier_from_alias m \<noteq> None))"

definition validate_value_args ::
  "validate_env \<Rightarrow> string \<Rightarrow> bound_args \<Rightarrow> param list \<Rightarrow> string \<Rightarrow> validation_error + unit" where
  "validate_value_args env ns bound ps raw =
     (let named = (\<lambda>key. named_value bound key []) in
      if ns = ''clip'' then
        refuse_unless (case parse_usize (named ''index'') of None \<Rightarrow> False | Some n \<Rightarrow> n < history_capacity)
          (InvalidModifier ''clip'' (named ''index'') [''0'', ''1'', ''2''])
      else if ns = ''uuid'' then
        refuse_unless (named ''version'' \<in> {''v4'', ''v7''})
          (InvalidModifier ''uuid'' (named ''version'') [''v4'', ''v7''])
      else if ns = ''ip'' then
        refuse_unless (named ''type'' \<in> {''public'', ''local''})
          (InvalidModifier ''ip'' (named ''type'') [''public'', ''local''])
      else if ns = ''random'' then validate_random_args bound ps raw
      else if ns = ''lorem'' then
        (let (kind, amount) = lorem_slots bound ps in
         if kind \<notin> set lorem_kinds then Inl (InvalidModifier ''lorem'' kind lorem_kinds)
         else refuse_unless
           (amount = [] \<or> within max_lorem_count (parse_usize_at_least (str_trim amount) 1))
           (InvalidModifier ''lorem'' amount [''lorem(words, 5)'']))
      else if ns = ''file'' then
        refuse_unless (check_file_args (named ''op'') (named ''path'') (named ''start'') (named ''end''))
          (InvalidModifier ''file'' raw
            [''file(read, path)'', ''file(line, path, n)'', ''file(lines, path, start[, end])''])
      else if ns = ''http'' then
        (if named ''op'' \<notin> {''get'', ''status''}
         then Inl (InvalidModifier ''http'' (named ''op'') [''get'', ''status''])
         else refuse_unless (strip_argument_quotes (named ''url'') \<noteq> [])
           (InvalidModifier ''http'' raw [''http(get, url)'', ''http(status, url)'']))
      else if ns = ''delay'' then
        refuse_unless (parse_delay_ms (va_system env) (strip_argument_quotes raw) \<noteq> None)
          (InvalidModifier ''delay'' raw [''delay(200ms)'', ''delay(1.5s)''])
      else if ns = ''key'' then
        refuse_unless (key_token_ok (str_trim raw))
          (InvalidModifier ''key'' raw [''enter'', ''tab'', ''f5'', ''ctrl+s''])
      else Inr ())"

definition validate_mouse_args :: "bound_args \<Rightarrow> string \<Rightarrow> validation_error + unit" where
  "validate_mouse_args bound raw =
     (let action = named_value bound ''action'' []; btn = named_value bound ''btn'' [];
          count_raw = named_value bound ''count'' ''1''; positional = length (b_positional bound) in
      if action \<notin> set mouse_actions then Inl (InvalidModifier ''mouse'' action mouse_actions)
      else if action \<in> {''click'', ''hold'', ''release''} \<and> btn = [] then Inl (MissingModifier ''mouse'')
      else if action \<in> {''click'', ''hold'', ''release''} \<and> \<not> is_strict_mouse_button btn
      then Inl (InvalidModifier ''mouse'' btn [''m1..mN''])
      else if action = ''click'' then
        (if 3 < positional then Inl (InvalidModifier ''mouse'' raw [''mouse(click, mN[, n])''])
         else refuse_unless (parse_u32 count_raw \<noteq> None)
           (InvalidModifier ''mouse'' count_raw [''mouse(click, mN[, n])'']))
      else if action = ''hold'' \<or> action = ''release'' then
        refuse_unless (\<not> (2 < positional \<or> count_raw \<noteq> ''1''))
          (InvalidModifier ''mouse'' raw [''mouse(hold, mN)''])
      else if action = ''move'' then
        (if 3 < positional \<or> (positional = 2 \<and> count_raw = ''1'') \<or> (positional = 0 \<and> count_raw = ''1'')
         then Inl (InvalidModifier ''mouse'' raw [''mouse(move, x, y)''])
         else refuse_unless (parse_u16 btn \<noteq> None \<and> parse_u16 count_raw \<noteq> None)
           (InvalidModifier ''mouse'' raw [''mouse(move, x, y)'']))
      else if action = ''scroll'' then
        (if 2 < positional \<or> count_raw \<noteq> ''1''
         then Inl (InvalidModifier ''mouse'' raw [''mouse(scroll, delta)''])
         else refuse_unless (parse_i32 btn \<noteq> None) (InvalidModifier ''mouse'' raw [''mouse(scroll, delta)'']))
      else
        refuse_unless (\<not> (1 < positional \<or> btn \<noteq> [] \<or> count_raw \<noteq> ''1''))
          (InvalidModifier ''mouse'' raw [''mouse(pos)'']))"

section \<open>Calls\<close>

fun map_bind_error :: "ns_spec \<Rightarrow> string \<Rightarrow> bind_error \<Rightarrow> validation_error" where
  "map_bind_error spec raw (MissingRequired _ _ _) = MissingModifier (ns_name spec)"
| "map_bind_error spec raw (UnknownKey key _ _) = InvalidModifier (ns_name spec) key (map p_name (ns_params spec))"
| "map_bind_error spec raw (bind_error.Duplicate param _ _) =
     InvalidModifier (ns_name spec) param (map p_name (ns_params spec))"
| "map_bind_error spec raw (PositionalAfterNamed _ _) =
     InvalidModifier (ns_name spec) raw (map p_name (ns_params spec))"
| "map_bind_error spec raw (Arity _ _) = InvalidModifier (ns_name spec) raw (map p_name (ns_params spec))"

definition validate_execute :: "string \<Rightarrow> validation_error + unit" where
  "validate_execute raw =
     (case parse_invocation raw of
        Inr _ \<Rightarrow> Inr ()
      | Inl MissingSubject \<Rightarrow> Inl (MissingModifier ''execute'')
      | Inl _ \<Rightarrow> Inl (InvalidModifier ''execute'' raw [''bash'', ''powershell'', ''python'', ''node'', ''cmd'']))"

definition validate_bound ::
  "validate_env \<Rightarrow> ns_spec \<Rightarrow> bound_args \<Rightarrow> string \<Rightarrow> validation_error + unit" where
  "validate_bound env spec bound raw =
     (if (ns_name spec = ''cursor'' \<or> ns_name spec = ''newline'') \<and> b_positional bound \<noteq> []
      then Inl (UnexpectedModifier (ns_name spec) raw)
      else if \<not> ns_variadic spec \<and> length (ns_params spec) < length (b_positional bound)
      then Inl (InvalidModifier (ns_name spec) raw (map p_name (ns_params spec)))
      else case (if ns_name spec = ''chrono'' then validate_chrono_args env bound (ns_params spec) else Inr ()) of
        Inl e \<Rightarrow> Inl e
      | Inr _ \<Rightarrow>
          if ns_name spec = ''mouse'' then validate_mouse_args bound raw
          else validate_value_args env (ns_name spec) bound (ns_params spec) raw)"

definition validate_system_call :: "validate_env \<Rightarrow> string \<Rightarrow> string \<Rightarrow> validation_error + unit" where
  "validate_system_call env ns0 raw0 =
     (let ns = str_trim ns0; raw = str_trim raw0; lower = str_to_ascii_lowercase ns in
      if CHR ''.'' \<in> set lower
      then Inl (DotChain (if raw = [] then ns else ns @ ''('' @ raw @ '')'') (dot_hint lower))
      else if lower = ''clipboard'' then Inl (UnknownRoot ns)
      else if lower \<in> {''date'', ''time'', ''datetime''} then
        (if raw \<noteq> [] then Inl (DotChain (ns @ ''.'' @ raw) ''chrono(...)'') else Inl (UnknownRoot ns))
      else case find_spec lower of
        None \<Rightarrow> Inl (UnknownRoot ns)
      | Some spec \<Rightarrow>
          if ns_name spec = ''execute'' then validate_execute raw
          else case bind_call (ns_name spec) raw (ns_params spec) of
            Inl e \<Rightarrow> Inl (map_bind_error spec raw e)
          | Inr bound \<Rightarrow> validate_bound env spec bound raw)"

section \<open>Binding does not see outer blanks\<close>

lemma str_trim_blank_first: "is_whitespace c \<Longrightarrow> str_trim (c # s) = str_trim s"
  by (simp add: str_trim_def trim_start_def)

lemma str_trim_blank_last: "is_whitespace c \<Longrightarrow> str_trim (s @ [c]) = str_trim s"
proof (induction s)
  case Nil
  then show ?case by (simp add: str_defs)
next
  case (Cons d s)
  show ?case
  proof (cases "is_whitespace d")
    case True
    then show ?thesis using Cons str_trim_blank_first [of d] by simp
  qed (use Cons.prems in \<open>simp add: str_defs\<close>)
qed

lemma str_trim_append_blanks:
  "list_all is_whitespace w \<Longrightarrow> str_trim (w @ s) = str_trim s"
  "list_all is_whitespace w \<Longrightarrow> str_trim (s @ w) = str_trim s"
proof -
  show "list_all is_whitespace w \<Longrightarrow> str_trim (w @ s) = str_trim s"
    by (induction w) (simp_all add: str_trim_blank_first)
  show "list_all is_whitespace w \<Longrightarrow> str_trim (s @ w) = str_trim s"
  proof (induction w rule: rev_induct)
    case (snoc c w)
    then show ?case using str_trim_blank_last [of c "s @ w"] by simp
  qed simp
qed

lemma str_trim_split:
  obtains w w' where "s = w @ str_trim s @ w'" "list_all is_whitespace w" "list_all is_whitespace w'"
proof -
  let ?t = "dropWhile is_whitespace s"
  have "s = takeWhile is_whitespace s @ ?t" by simp
  moreover have "?t = str_trim s @ rev (takeWhile is_whitespace (rev ?t))"
    by (metis str_trim_def trim_start_def trim_end_def rev_append rev_rev_ident takeWhile_dropWhile_id)
  ultimately have "s = takeWhile is_whitespace s @ str_trim s @ rev (takeWhile is_whitespace (rev ?t))" by metis
  moreover have "list_all is_whitespace (takeWhile is_whitespace s)"
    and "list_all is_whitespace (rev (takeWhile is_whitespace (rev ?t)))"
    by (auto simp: list_all_iff dest: set_takeWhileD)
  ultimately show ?thesis by (rule that)
qed

lemma blank_is_plain:
  "is_whitespace c \<Longrightarrow> \<not> quote_char c \<and> c \<notin> {CHR ''('', CHR '')'', CHR ''['', CHR '']'', CHR '',''}"
  by (auto simp: is_whitespace_def quote_char_def)

lemma split_call_loop_parts:
  "split_call_loop cs parts current q p b = parts @ split_call_loop cs [] current q p b"
proof (induction cs arbitrary: parts current q p b)
  case (Cons c cs)
  show ?case
  proof (cases q)
    case None
    then show ?thesis using Cons.IH [of "parts @ [current]"] Cons.IH [of "[current]"] Cons.IH [of parts] by simp
  qed (simp add: Cons.IH [of parts])
qed simp

lemma split_call_leading:
  "list_all is_whitespace w \<Longrightarrow>
   map str_trim (split_call_loop cs [] (w @ current) q p b) = map str_trim (split_call_loop cs [] current q p b)"
proof (induction cs arbitrary: current q p b)
  case (Cons c cs)
  note IH = Cons.IH [OF Cons.prems]
  show ?case
  proof (cases q)
    case None
    then show ?thesis
      using Cons.prems
      by (simp add: IH str_trim_append_blanks split_call_loop_parts [of cs "[w @ current]"]
          split_call_loop_parts [of cs "[current]"])
  qed (simp add: IH)
qed (simp add: str_trim_append_blanks)

lemma split_call_blanks: "list_all is_whitespace w \<Longrightarrow> split_call_loop w [] current q p b = [current @ w]"
proof (induction w arbitrary: current q)
  case (Cons c w)
  then show ?case using blank_is_plain [of c] by (cases q) auto
qed simp

lemma split_call_trailing:
  "list_all is_whitespace w \<Longrightarrow>
   map str_trim (split_call_loop (cs @ w) [] current q p b) = map str_trim (split_call_loop cs [] current q p b)"
proof (induction cs arbitrary: current q p b)
  case (Cons c cs)
  note IH = Cons.IH [OF Cons.prems]
  show ?case
  proof (cases q)
    case None
    then show ?thesis
      by (simp add: IH split_call_loop_parts [of "cs @ w" "[current]"] split_call_loop_parts [of cs "[current]"])
  qed (simp add: IH)
qed (simp add: str_trim_append_blanks split_call_blanks)

lemma split_call_args_trim: "map str_trim (split_call_args (str_trim raw)) = map str_trim (split_call_args raw)"
proof -
  obtain w w' where raw: "raw = w @ str_trim raw @ w'" and blanks: "list_all is_whitespace w" "list_all is_whitespace w'"
    by (rule str_trim_split)
  have first: "split_call_loop (w @ s) [] current None 0 0 = split_call_loop s [] (current @ w) None 0 0" for s current
    using blanks(1)
  proof (induction w arbitrary: current)
    case (Cons c w)
    then show ?case using blank_is_plain [of c] by simp
  qed simp
  have "map str_trim (split_call_args raw) = map str_trim (split_call_loop (str_trim raw @ w') [] (w @ []) None 0 0)"
    by (subst raw) (simp add: split_call_args_def first)
  also have "\<dots> = map str_trim (split_call_args (str_trim raw))"
    by (simp only: split_call_leading [OF blanks(1)] split_call_trailing [OF blanks(2)] split_call_args_def)
  finally show ?thesis by simp
qed

lemma bind_loop_trim: "bind_loop ns hint ps (map str_trim parts) st = bind_loop ns hint ps parts st"
proof (induction ns hint ps parts st rule: bind_loop.induct)
  case (2 ns hint ps part parts st)
  show ?case
  proof (cases "strip_quotes (str_trim part) = []")
    case True
    then show ?thesis using "2.IH"(1) by simp
  next
    case False
    then show ?thesis
      using "2.IH"(2) [OF refl False]
      by (cases "case split_named (str_trim part) of Some (k, v) \<Rightarrow> bind_named ns hint ps st k v
        | None \<Rightarrow> bind_positional ns hint st (str_trim part)") simp_all
  qed
qed simp

lemma bind_call_trim: "bind_call ns (str_trim raw) ps = bind_call ns raw ps"
proof -
  have "bind_loop ns hint ps (split_call_args (str_trim raw)) st = bind_loop ns hint ps (split_call_args raw) st" for hint st
    using bind_loop_trim [of ns hint ps "split_call_args (str_trim raw)" st]
      bind_loop_trim [of ns hint ps "split_call_args raw" st]
    by (simp only: split_call_args_trim)
  then show ?thesis by (simp add: bind_call_def)
qed

lemma bind_call_names:
  assumes "bind_call ns raw ps = Inr bound" and "distinct (map p_name ps)"
  shows "map fst (b_named bound) = map p_name ps"
proof -
  have "bound = bound_call ps (call_arguments raw)" using bind_call_iff [OF assms(2)] assms(1) by blast
  then show ?thesis by (auto simp: bound_call_def intro: nth_equalityI)
qed

lemma named_value_bound:
  assumes "bind_call ns raw ps = Inr bound" and "distinct (map p_name ps)" and "key \<in> p_name ` set ps"
  shows "named_value bound key a = named_value bound key a'"
proof -
  have "key \<in> set (map fst (b_named bound))" using bind_call_names [OF assms(1,2)] assms(3) by simp
  then have "map_of (b_named bound) key \<noteq> None" by (simp add: map_of_eq_None_iff)
  then show ?thesis by (auto simp: named_value_def)
qed

section \<open>Mouse actions\<close>

text \<open>The two readings of a button, by the validator and by the directive, agree.\<close>

lemma parse_u8_unsigned: "parse_u8 n = map_option word_of_nat (parse_unsigned 255 n)"
proof -
  have "\<not> is_ascii_digit CHR ''+''" by code_simp
  then show ?thesis by (auto simp: parse_unsigned_def parse_u8_def Let_def split: list.split)
qed

lemma small_word_nonzero: "k < 256 \<Longrightarrow> (word_of_nat k :: u8) = 0 \<longleftrightarrow> k = 0"
  by (auto simp: word_of_nat_eq_0_iff dest: nat_dvd_not_less [rotated])

lemma strict_button: "is_strict_mouse_button btn \<longleftrightarrow> parse_mouse_button btn \<noteq> None"
proof -
  have "(case parse_u16 n of None \<Rightarrow> False | Some k \<Rightarrow> 1 \<le> k \<and> k \<le> 255) \<longleftrightarrow>
      (\<exists>w. parse_u8 n = Some w \<and> w \<noteq> 0)" for n
    unfolding parse_u8_unsigned by (auto simp: parse_unsigned_def Let_def small_word_nonzero)
  then show ?thesis
    by (auto simp: is_strict_mouse_button_def parse_mouse_button_def split: option.split)
qed

definition mouse_bound :: "string \<Rightarrow> bound_args option" where
  "mouse_bound raw = (case bind_call ''mouse'' raw mouse_params of Inl _ \<Rightarrow> None | Inr bound \<Rightarrow> Some bound)"

definition asks_position :: "bound_args \<Rightarrow> bool" where
  "asks_position bound \<longleftrightarrow>
     named_value bound ''action'' [] = ''pos'' \<and> length (b_positional bound) \<le> 1 \<and>
     named_value bound ''btn'' [] = [] \<and> named_value bound ''count'' ''1'' = ''1''"

lemma mouse_args_agree:
  "accepted (validate_mouse_args bound raw) \<and> length (b_positional bound) \<le> 3 \<longleftrightarrow>
   mouse_step bound \<noteq> None \<or> asks_position bound"
proof -
  consider "named_value bound ''action'' [] = ''click''" | "named_value bound ''action'' [] = ''hold''"
    | "named_value bound ''action'' [] = ''release''" | "named_value bound ''action'' [] = ''move''"
    | "named_value bound ''action'' [] = ''scroll''" | "named_value bound ''action'' [] = ''pos''"
    | "named_value bound ''action'' [] \<notin> set mouse_actions"
    by (auto simp: mouse_actions_def)
  then show ?thesis
  proof cases
    case 1
    then show ?thesis
      by (cases "named_value bound ''btn'' []")
        (auto simp: validate_mouse_args_def mouse_step_def asks_position_def mouse_actions_def strict_button accepted_iff
          Let_def parse_mouse_button_def strip_prefix_def split: option.split)
  next
    case 7
    then show ?thesis
      by (auto simp: validate_mouse_args_def mouse_step_def asks_position_def mouse_actions_def accepted_iff Let_def)
  qed (auto simp: validate_mouse_args_def mouse_step_def asks_position_def mouse_actions_def strict_button accepted_iff
      Let_def parse_mouse_button_def strip_prefix_def split: option.split)
qed

lemma find_mouse: "find_spec ''mouse'' = Some \<lparr>ns_name = ''mouse'', ns_params = mouse_params, ns_variadic = False\<rparr>"
  by (simp add: find_spec_def ns_specs_def mouse_params_def)

lemma mouse_check:
  "accepted (validate_system_call env ''mouse'' raw) \<longleftrightarrow>
   parse_mouse_directive (''mouse('' @ raw @ '')'') \<noteq> None \<or>
   (case mouse_bound raw of None \<Rightarrow> False | Some bound \<Rightarrow> asks_position bound)"
proof -
  have name: "str_trim ''mouse'' = ''mouse''" "str_to_ascii_lowercase ''mouse'' = ''mouse''" by code_simp+
  have call: "call_args ''mouse'' (''mouse('' @ raw @ '')'') = Some raw"
    by (simp add: call_args_def strip_prefix_def strip_suffix_def suffix_def)
  have checked: "accepted (validate_system_call env ''mouse'' raw) \<longleftrightarrow>
      (case mouse_bound raw of None \<Rightarrow> False | Some bound \<Rightarrow>
        length (b_positional bound) \<le> 3 \<and> accepted (validate_mouse_args bound (str_trim raw)))"
    by (auto simp: validate_system_call_def name find_mouse validate_bound_def mouse_bound_def bind_call_trim
        mouse_params_def accepted_iff Let_def split: sum.split)
  show ?thesis
    unfolding checked parse_mouse_directive_def call mouse_bound_def
    using mouse_args_agree by (auto split: sum.split)
qed

text \<open>C15: The validator accepts the mouse actions that become a step and the question for the position, and nothing
  else.\<close>

theorem mouse_check_agrees:
  "accepted (validate_system_call env ''mouse'' raw) \<longleftrightarrow>
   (case parse_mouse_directive (''mouse('' @ raw @ '')'') of
      Some step \<Rightarrow> True
    | None \<Rightarrow> (case mouse_bound raw of None \<Rightarrow> False | Some bound \<Rightarrow> asks_position bound))"
  unfolding mouse_check by (simp split: option.split)

text \<open>But only the bare word is recognised as a question for the position: named, it passes the validator and
  is neither a step nor deferred.\<close>

theorem named_position_is_lost:
  "accepted (validate_system_call env ''mouse'' ''action=pos'') \<and>
   parse_mouse_directive ''mouse(action=pos)'' = None \<and> \<not> is_deferred ''mouse(action=pos)''"
proof -
  have bound: "mouse_bound ''action=pos'' =
      Some \<lparr>b_positional = [], b_named = [(''action'', ''pos''), (''btn'', []), (''count'', ''1'')]\<rparr>"
    by code_simp
  have "accepted (validate_system_call env ''mouse'' ''action=pos'')"
    unfolding mouse_check bound by (simp add: asks_position_def named_value_def)
  moreover have "parse_mouse_directive ''mouse(action=pos)'' = None" by code_simp
  moreover have "\<not> is_deferred ''mouse(action=pos)''" by code_simp
  ultimately show ?thesis by blast
qed

end
