(* ===== verification/Clipboard.thy ===== *)
theory Clipboard
  imports Validation
begin

text \<open>
  The clipboard history behind \<open>[clip]\<close>, \<open>core/src/engine/variables/system/clipboard.rs\<close>: the bounded, aging
  list of copied texts, and how a key or an index is read. Time is in milliseconds since the clock's start;
  the settings are the fields of \<open>clip_settings\<close>; the clipboard of the desktop, read when nothing is
  recorded, is the argument \<open>desktop\<close>.
\<close>

section \<open>History\<close>

record clip_settings =
  cs_enabled :: bool
  cs_retention_ms :: nat

record clip_entry =
  ce_text :: string
  ce_time :: nat

type_synonym clip_history = "clip_entry list"

definition max_clip_bytes :: nat where
  "max_clip_bytes = 1048576"

text \<open>\<open>checked_sub\<close> fails when the clock is younger than the retention time: then nothing has expired.\<close>

definition prune_expired :: "clip_settings \<Rightarrow> nat \<Rightarrow> clip_history \<Rightarrow> clip_history" where
  "prune_expired settings now history =
     (if now < cs_retention_ms settings then history
      else filter (\<lambda>e. now - cs_retention_ms settings \<le> ce_time e) history)"

definition record_text :: "clip_settings \<Rightarrow> nat \<Rightarrow> string \<Rightarrow> clip_history \<Rightarrow> bool \<times> clip_history" where
  "record_text settings now text history =
     (if \<not> cs_enabled settings \<or> max_clip_bytes < str_len text \<or> text = [] then (False, history)
      else
        (let kept = prune_expired settings now history in
         if kept \<noteq> [] \<and> ce_text (hd kept) = text then (False, kept)
         else (True, take history_capacity (\<lparr>ce_text = text, ce_time = now\<rparr> # kept))))"

definition clip_get :: "clip_settings \<Rightarrow> nat \<Rightarrow> nat \<Rightarrow> clip_history \<Rightarrow> string option \<times> clip_history" where
  "clip_get settings now index history =
     (if \<not> cs_enabled settings then (None, history)
      else
        (let kept = prune_expired settings now history
         in (if index < length kept then Some (ce_text (kept ! index)) else None, kept)))"

definition clip_clear :: "clip_history \<Rightarrow> clip_history" where
  "clip_clear history = []"

section \<open>Keys\<close>

datatype clip_key = ValidClip nat | OutOfBounds | Malformed

definition clip_index :: "string \<Rightarrow> clip_key" where
  "clip_index text =
     (case parse_usize text of
        None \<Rightarrow> Malformed
      | Some n \<Rightarrow> if n < history_capacity then ValidClip n else OutOfBounds)"

definition parse_clip_key :: "string \<Rightarrow> clip_key option" where
  "parse_clip_key key =
     (if key = ''clip'' then Some (ValidClip 0)
      else map_option (\<lambda>inner. clip_index (strip_argument_quotes inner)) (call_args ''clip'' key))"

definition parse_clip_index_arg :: "string \<Rightarrow> clip_key option" where
  "parse_clip_index_arg text =
     (let arg = strip_argument_quotes text in
      if arg = [] then Some (ValidClip 0)
      else if \<not> list_all is_ascii_digit arg then None
      else case parse_usize arg of
        None \<Rightarrow> None
      | Some n \<Rightarrow> Some (if n < history_capacity then ValidClip n else OutOfBounds))"

text \<open>The desktop's text counts when it is not too long.\<close>

definition clip_resolve ::
  "clip_settings \<Rightarrow> nat \<Rightarrow> string option \<Rightarrow> string \<Rightarrow> clip_history \<Rightarrow> string option \<times> clip_history" where
  "clip_resolve settings now desktop key history =
     (case or_else (parse_clip_key key) (parse_clip_index_arg key) of
        None \<Rightarrow> (None, history)
      | Some Malformed \<Rightarrow> (None, history)
      | Some OutOfBounds \<Rightarrow> (Some [], history)
      | Some (ValidClip index) \<Rightarrow>
          (case clip_get settings now index history of
             (Some text, kept) \<Rightarrow> (Some text, kept)
           | (None, kept) \<Rightarrow>
               (if index = 0
                then (case desktop of
                        Some text \<Rightarrow> (Some (if str_len text \<le> max_clip_bytes then text else []), kept)
                      | None \<Rightarrow> (Some [], kept))
                else (Some [], kept))))"

section \<open>Runs\<close>

text \<open>What happens to a history, each at its moment.\<close>

datatype clip_op = Copied string | Looked nat | Cleared

fun clip_step :: "clip_settings \<Rightarrow> clip_history \<Rightarrow> nat \<times> clip_op \<Rightarrow> clip_history" where
  "clip_step settings history (now, Copied text) = snd (record_text settings now text history)"
| "clip_step settings history (now, Looked index) = snd (clip_get settings now index history)"
| "clip_step settings history (now, Cleared) = clip_clear history"

definition clip_run :: "clip_settings \<Rightarrow> (nat \<times> clip_op) list \<Rightarrow> clip_history" where
  "clip_run settings ops = foldl (clip_step settings) [] ops"

definition clock :: "nat \<Rightarrow> (nat \<times> clip_op) list \<Rightarrow> bool" where
  "clock start ops = sorted (start # map fst ops)"

section \<open>Invariant\<close>

definition newest_first :: "clip_history \<Rightarrow> bool" where
  "newest_first history = sorted_wrt (\<lambda>a b. ce_time b \<le> ce_time a) history"

definition clip_inv :: "nat \<Rightarrow> clip_history \<Rightarrow> bool" where
  "clip_inv now history \<longleftrightarrow>
     length history \<le> history_capacity \<and> newest_first history \<and>
     (\<forall>e\<in>set history. ce_time e \<le> now \<and> ce_text e \<noteq> [] \<and> str_len (ce_text e) \<le> max_clip_bytes) \<and>
     successively (\<lambda>a b. ce_text a \<noteq> ce_text b) history"

text \<open>Entries are ordered by age, so what expires is the end of the list.\<close>

lemma filter_newest_first:
  "newest_first history \<Longrightarrow> filter (\<lambda>e. t \<le> ce_time e) history = takeWhile (\<lambda>e. t \<le> ce_time e) history"
proof (induction history)
  case (Cons e history)
  show ?case
  proof (cases "t \<le> ce_time e")
    case False
    then have "filter (\<lambda>e. t \<le> ce_time e) history = []"
      using Cons.prems by (fastforce simp: newest_first_def filter_empty_conv)
    then show ?thesis using False by simp
  qed (use Cons in \<open>simp add: newest_first_def\<close>)
qed simp

lemma prune_takeWhile:
  assumes "newest_first history"
  obtains P where "prune_expired settings now history = takeWhile P history"
proof (cases "now < cs_retention_ms settings")
  case True
  then have "prune_expired settings now history = takeWhile (\<lambda>_. True) history"
    by (simp add: prune_expired_def takeWhile_eq_all_conv [THEN iffD2])
  then show ?thesis by (rule that)
next
  case False
  then show ?thesis using that filter_newest_first [OF assms] by (simp add: prune_expired_def)
qed

lemma successively_append_left: "successively P (xs @ ys) \<Longrightarrow> successively P xs"
  by (simp add: successively_append_iff)

lemma clip_inv_prefix:
  assumes "clip_inv now (kept @ dropped)"
  shows "clip_inv now kept"
  using assms by (auto simp: clip_inv_def newest_first_def sorted_wrt_append successively_append_iff)

lemma clip_inv_prune: "clip_inv now history \<Longrightarrow> clip_inv now (prune_expired settings now history)"
proof -
  assume inv: "clip_inv now history"
  then have "newest_first history" by (simp add: clip_inv_def)
  then obtain P where "prune_expired settings now history = takeWhile P history" by (rule prune_takeWhile)
  then show ?thesis using inv clip_inv_prefix [of now "takeWhile P history" "dropWhile P history"] by simp
qed

lemma clip_inv_later: "clip_inv now history \<Longrightarrow> now \<le> later \<Longrightarrow> clip_inv later history"
  by (fastforce simp: clip_inv_def)

lemma successively_take: "successively P xs \<Longrightarrow> successively P (take n xs)"
  by (metis append_take_drop_id successively_append_left)

lemma clip_inv_push:
  assumes "clip_inv now kept" "text \<noteq> []" "str_len text \<le> max_clip_bytes"
    and "kept = [] \<or> ce_text (hd kept) \<noteq> text"
  shows "clip_inv now (take history_capacity (\<lparr>ce_text = text, ce_time = now\<rparr> # kept))"
proof -
  let ?new = "\<lparr>ce_text = text, ce_time = now\<rparr> # kept"
  have ordered: "newest_first ?new" using assms(1) by (simp add: clip_inv_def newest_first_def)
  have "successively (\<lambda>a b. ce_text a \<noteq> ce_text b) ?new"
    using assms(1,4) by (cases kept) (auto simp: clip_inv_def)
  then have "successively (\<lambda>a b. ce_text a \<noteq> ce_text b) (take history_capacity ?new)"
    by (rule successively_take)
  moreover have "newest_first (take history_capacity ?new)"
    using ordered by (simp add: newest_first_def sorted_wrt_take)
  moreover have "ce_time e \<le> now \<and> ce_text e \<noteq> [] \<and> str_len (ce_text e) \<le> max_clip_bytes"
    if "e \<in> set (take history_capacity ?new)" for e
    using in_set_takeD [OF that] assms(1-3) by (auto simp: clip_inv_def)
  ultimately show ?thesis by (simp add: clip_inv_def)
qed

lemma clip_inv_record:
  "clip_inv now history \<Longrightarrow> clip_inv now (snd (record_text settings now text history))"
  using clip_inv_push clip_inv_prune by (simp add: record_text_def Let_def)

lemma clip_inv_step:
  assumes "clip_inv before history" "before \<le> now"
  shows "clip_inv now (clip_step settings history (now, oper))"
proof -
  have inv: "clip_inv now history" using assms by (rule clip_inv_later)
  show ?thesis
  proof (cases oper)
    case (Copied new)
    then show ?thesis using clip_inv_record [OF inv] by simp
  next
    case (Looked index)
    then show ?thesis using inv clip_inv_prune [OF inv] by (simp add: clip_get_def Let_def)
  next
    case Cleared
    then show ?thesis by (simp add: clip_clear_def clip_inv_def newest_first_def)
  qed
qed

lemma clip_inv_foldl:
  "clip_inv start history \<Longrightarrow> clock start ops \<Longrightarrow>
   clip_inv (last (start # map fst ops)) (foldl (clip_step settings) history ops)"
proof (induction ops arbitrary: start history)
  case (Cons oper ops)
  obtain now what where oper: "oper = (now, what)" by (cases oper)
  then have "start \<le> now" and later: "clock now ops" using Cons.prems(2) by (auto simp: clock_def)
  then have "clip_inv now (clip_step settings history oper)" using clip_inv_step Cons.prems(1) oper by blast
  then show ?case using Cons.IH later oper by simp
qed simp

text \<open>C24: However texts are copied, looked up and cleared, as long as the clock does not run backwards the history
  keeps at most three entries, newest first, none of them empty or over a megabyte, and no text directly
  after itself.\<close>

theorem clip_history_wellformed:
  assumes "clock 0 ops"
  shows "clip_inv (last (0 # map fst ops)) (clip_run settings ops)"
  unfolding clip_run_def
  by (rule clip_inv_foldl) (use assms in \<open>auto simp: clip_inv_def newest_first_def\<close>)

definition demo_copies :: "(nat \<times> clip_op) list" where
  "demo_copies = [(1, Copied ''a''), (2, Copied ''a''), (5, Copied ''b''), (9, Looked 0)]"

definition demo_clip_settings :: clip_settings where
  "demo_clip_settings = \<lparr>cs_enabled = True, cs_retention_ms = 6\<rparr>"

lemma clip_history_wellformed_witness:
  "clock 0 demo_copies \<and> clip_inv 9 (clip_run demo_clip_settings demo_copies) \<and>
   map ce_text (clip_run demo_clip_settings demo_copies) = [''b'']"
proof -
  have demo: "clock 0 demo_copies" by (simp add: clock_def demo_copies_def)
  moreover have "last (0 # map fst demo_copies) = 9" by (simp add: demo_copies_def)
  moreover have "map ce_text (clip_run demo_clip_settings demo_copies) = [''b'']"
    by (simp add: clip_run_def demo_copies_def demo_clip_settings_def record_text_def prune_expired_def
        max_clip_bytes_def str_len_def history_capacity_def is_ascii_def clip_get_def Let_def)
  ultimately show ?thesis using clip_history_wellformed [OF demo, of demo_clip_settings] by metis
qed

text \<open>What was just copied is what \<open>[clip]\<close> gives.\<close>

lemma prune_new:
  "prune_expired settings now (\<lparr>ce_text = t, ce_time = now\<rparr> # es) =
   \<lparr>ce_text = t, ce_time = now\<rparr> # prune_expired settings now es"
  by (simp add: prune_expired_def)

lemma prune_idem: "prune_expired settings now (prune_expired settings now history) = prune_expired settings now history"
  by (simp add: prune_expired_def)

lemma clip_get_first:
  "cs_enabled settings \<Longrightarrow> prune_expired settings now history = e # es \<Longrightarrow>
   fst (clip_get settings now 0 history) = Some (ce_text e)"
  by (simp add: clip_get_def)

lemma copied_is_found:
  assumes "cs_enabled settings" "t \<noteq> []" "str_len t \<le> max_clip_bytes"
  shows "fst (clip_get settings now 0 (snd (record_text settings now t history))) = Some t"
proof (cases "prune_expired settings now history")
  case (Cons e es)
  have again: "prune_expired settings now (prune_expired settings now history) = e # es"
    using Cons by (metis prune_idem)
  show ?thesis
  proof (cases "ce_text e = t")
    case True
    then show ?thesis
      using assms Cons again clip_get_first by (simp add: record_text_def Let_def)
  next
    case False
    then show ?thesis
      using assms Cons clip_get_first [OF assms(1) prune_new [of settings now t]]
      by (simp add: record_text_def Let_def history_capacity_def take_Cons')
  qed
qed (use assms clip_get_first [OF assms(1) prune_new [of settings now t "[]"]]
  in \<open>simp add: record_text_def Let_def history_capacity_def take_Cons'\<close>)

end
