(* ===== verification/Variables.thy ===== *)
theory Variables
  imports Clipboard
begin

text \<open>
  The remaining system variables, \<open>core/src/engine/variables/system\<close>: \<open>uuid.rs\<close>, \<open>env.rs\<close>, \<open>random.rs\<close>,
  \<open>lorem.rs\<close>, \<open>file.rs\<close>, \<open>ip.rs\<close> and \<open>http.rs\<close>. The random numbers, the identifiers, the environment of the
  process, the file system and the network are parameters. The locale \<open>checked_variable\<close> is the agreement
  between the validator and a resolver that the code keeps by hand: what is accepted resolves.
\<close>

section \<open>Bound arguments\<close>

text \<open>\<open>bind_call\<close> at the parameters of a namespace of the registry.\<close>

definition ns_params_of :: "string \<Rightarrow> param list" where
  "ns_params_of ns = (case find_spec ns of Some spec \<Rightarrow> ns_params spec | None \<Rightarrow> [])"

definition bind_ns :: "string \<Rightarrow> string \<Rightarrow> bound_args option" where
  "bind_ns ns raw = (case bind_call ns raw (ns_params_of ns) of Inl _ \<Rightarrow> None | Inr bound \<Rightarrow> Some bound)"

definition too_many :: "string \<Rightarrow> bound_args \<Rightarrow> bool" where
  "too_many ns bound \<longleftrightarrow> length (ns_params_of ns) < length (b_positional bound)"

section \<open>Identifiers and environment\<close>

definition uuid_resolve :: "string \<Rightarrow> string \<Rightarrow> string \<Rightarrow> string option" where
  "uuid_resolve new_v4 now_v7 raw =
     (case bind_ns ''uuid'' raw of
        None \<Rightarrow> None
      | Some bound \<Rightarrow>
          if too_many ''uuid'' bound then None
          else if named_value bound ''version'' [] = ''v4'' then Some new_v4
          else if named_value bound ''version'' [] = ''v7'' then Some now_v7
          else None)"

definition env_resolve :: "(string \<Rightarrow> string option) \<Rightarrow> string \<Rightarrow> string option" where
  "env_resolve lookup raw =
     (case bind_ns ''env'' raw of
        None \<Rightarrow> None
      | Some bound \<Rightarrow>
          if too_many ''env'' bound then None
          else
            (let var_name = named_value bound ''name'' []; absent = named_value bound ''default'' [];
                 fallback = (if absent = [] then None else Some absent)
             in if var_name = [] then fallback
                else case lookup var_name of Some v \<Rightarrow> Some v | None \<Rightarrow> fallback))"

section \<open>Random values\<close>

text \<open>\<open>draw_int lo hi\<close> is a number of the range, \<open>draw_at i n\<close> the \<open>i\<close>-th index below \<open>n\<close>.\<close>

record random_source =
  draw_int :: "int \<Rightarrow> int \<Rightarrow> int"
  draw_at :: "nat \<Rightarrow> nat \<Rightarrow> nat"

definition fair_source :: "random_source \<Rightarrow> bool" where
  "fair_source rnd \<longleftrightarrow>
     (\<forall>lo hi. lo \<le> hi \<longrightarrow> lo \<le> draw_int rnd lo hi \<and> draw_int rnd lo hi \<le> hi) \<and>
     (\<forall>i n. 0 < n \<longrightarrow> draw_at rnd i n < n)"

definition alphanumeric_chars :: string where
  "alphanumeric_chars = ''abcdefghijklmnopqrstuvwxyzABCDEFGHIJKLMNOPQRSTUVWXYZ0123456789''"

definition password_chars :: string where
  "password_chars = alphanumeric_chars @ ''!@#$%^&*()-_=+[]{}|;:,.<>?''"

definition charset :: "string \<Rightarrow> string" where
  "charset kind = (if kind = ''pass'' then password_chars else alphanumeric_chars)"

definition random_chars :: "random_source \<Rightarrow> string \<Rightarrow> nat \<Rightarrow> string" where
  "random_chars rnd chars len = map (\<lambda>i. chars ! draw_at rnd i (length chars)) [0..<len]"

definition show_int :: "int \<Rightarrow> string" where
  "show_int n = (if n < 0 then CHR ''-'' # show_nat (nat (- n)) else show_nat (nat n))"

definition parse_int_range :: "string list \<Rightarrow> int \<Rightarrow> int \<Rightarrow> (int \<times> int) option" where
  "parse_int_range args default_min default_max =
     (case (case args of
              [] \<Rightarrow> Some (default_min, default_max)
            | [greatest] \<Rightarrow> map_option (Pair 1) (parse_i64 greatest)
            | [least, greatest] \<Rightarrow>
                (case (parse_i64 least, parse_i64 greatest) of (Some lo, Some hi) \<Rightarrow> Some (lo, hi) | _ \<Rightarrow> None)
            | _ \<Rightarrow> None) of
        None \<Rightarrow> None
      | Some (lo, hi) \<Rightarrow> if lo \<le> hi then Some (lo, hi) else None)"

definition parse_len :: "string \<Rightarrow> nat option" where
  "parse_len text =
     (case parse_usize text of
        None \<Rightarrow> None | Some len \<Rightarrow> if len \<le> max_random_string_len then Some len else None)"

definition random_kind :: "bound_args \<Rightarrow> string option" where
  "random_kind bound =
     (case b_positional bound of
        [] \<Rightarrow> Some (named_value bound ''type'' ''int'')
      | first # _ \<Rightarrow>
          if first \<in> set random_kinds then Some first
          else if parse_i64 first \<noteq> None then Some ''int''
          else None)"

definition random_string :: "random_source \<Rightarrow> string \<Rightarrow> bound_args \<Rightarrow> bool \<Rightarrow> string option" where
  "random_string rnd kind bound has_named =
     (let initial = (if kind = ''str'' then 16 else 20); chars = random_chars rnd (charset kind);
          least = named_value bound ''min'' ''0''; greatest = named_value bound ''max'' ''100''
      in case without_kind kind (b_positional bound) of
           [] \<Rightarrow>
             (if \<not> has_named \<or> (least = ''0'' \<and> greatest = ''100'') then Some (chars initial)
              else if greatest = ''100'' then map_option chars (parse_len least)
              else if least = ''0'' then map_option chars (parse_len greatest)
              else None)
         | [len] \<Rightarrow> if has_named then None else map_option chars (parse_len len)
         | _ \<Rightarrow> None)"

definition random_value :: "random_source \<Rightarrow> bound_args \<Rightarrow> bool \<Rightarrow> string \<Rightarrow> string option" where
  "random_value rnd bound has_named kind =
     (let least = named_value bound ''min'' ''0''; greatest = named_value bound ''max'' ''100'';
          args = without_kind kind (b_positional bound)
      in if kind = ''int'' then
           map_option (\<lambda>(lo, hi). show_int (draw_int rnd lo hi))
             (if has_named then parse_int_range [least, greatest] 0 100 else parse_int_range args 0 100)
         else if kind = ''choice'' then
           (if args = [] \<or> (has_named \<and> (least \<noteq> ''0'' \<or> greatest \<noteq> ''100'')) then None
            else Some (args ! draw_at rnd 0 (length args)))
         else if kind = ''str'' \<or> kind = ''pass'' then random_string rnd kind bound has_named
         else None)"

definition random_resolve :: "random_source \<Rightarrow> string \<Rightarrow> string option" where
  "random_resolve rnd raw =
     (case bind_ns ''random'' raw of
        None \<Rightarrow> None
      | Some bound \<Rightarrow>
          (case random_kind bound of
             None \<Rightarrow> None
           | Some kind \<Rightarrow> random_value rnd bound (has_named_args bound (ns_params_of ''random'')) kind))"

section \<open>Filler text\<close>

definition max_lorem_bytes :: nat where
  "max_lorem_bytes = 1048576"

definition lorem_words :: "string list" where
  "lorem_words =
    [''lorem'', ''ipsum'', ''dolor'', ''sit'', ''amet'', ''consectetur'', ''adipiscing'', ''elit'', ''sed'',
     ''do'', ''eiusmod'', ''tempor'', ''incididunt'', ''ut'', ''labore'', ''et'', ''dolore'', ''magna'',
     ''aliqua'', ''ut'', ''enim'', ''ad'', ''minim'', ''veniam'', ''quis'', ''nostrud'', ''exercitation'',
     ''ullamco'', ''laboris'', ''nisi'', ''ut'', ''aliquip'', ''ex'', ''ea'', ''commodo'', ''consequat'',
     ''duis'', ''aute'', ''irure'', ''dolor'', ''in'', ''reprehenderit'', ''in'', ''voluptate'', ''velit'',
     ''esse'', ''cillum'', ''dolore'', ''eu'', ''fugiat'', ''nulla'', ''pariatur'', ''excepteur'', ''sint'',
     ''occaecat'', ''cupidatat'', ''non'', ''proident'', ''sunt'', ''in'', ''culpa'', ''qui'', ''officia'',
     ''deserunt'', ''mollit'', ''anim'', ''id'', ''est'', ''laborum'']"

definition push_capped :: "string \<Rightarrow> string \<Rightarrow> string \<Rightarrow> string option" where
  "push_capped buf sep piece =
     (let sep = (if buf = [] then [] else sep) in
      if str_len buf + str_len sep + str_len piece \<le> max_lorem_bytes then Some (buf @ sep @ piece) else None)"

fun push_units :: "string \<Rightarrow> string \<Rightarrow> string list \<Rightarrow> string option" where
  "push_units buf sep [] = Some buf"
| "push_units buf sep (piece # pieces) =
     (case push_capped buf sep piece of None \<Rightarrow> None | Some buf' \<Rightarrow> push_units buf' sep pieces)"

text \<open>At most 256 pieces are made at a time; \<open>chunk start n\<close> are the next \<open>n\<close>.\<close>

function build_loop :: "nat \<Rightarrow> string \<Rightarrow> (nat \<Rightarrow> nat \<Rightarrow> string list) \<Rightarrow> nat \<Rightarrow> string \<Rightarrow> string option" where
  "build_loop remaining sep chunk start buf =
     (if 0 < remaining then
        (let n = min remaining 256 in
         case push_units buf sep (chunk start n) of
           None \<Rightarrow> None
         | Some buf' \<Rightarrow> build_loop (remaining - n) sep chunk (start + n) buf')
      else Some buf)"
  by pat_completeness auto
termination
  by (relation "measure (\<lambda>(remaining, _). remaining)") auto

declare build_loop.simps [simp del]

definition build_capped :: "nat \<Rightarrow> string \<Rightarrow> (nat \<Rightarrow> nat \<Rightarrow> string list) \<Rightarrow> string option" where
  "build_capped amount sep chunk = build_loop amount sep chunk 0 []"

text \<open>What is drawn: a word by piece, sentence and place; the length of a sentence; the sentences of a
  paragraph.\<close>

record lorem_source =
  lo_word :: "nat \<Rightarrow> nat \<Rightarrow> nat \<Rightarrow> nat"
  lo_length :: "nat \<Rightarrow> nat \<Rightarrow> nat"
  lo_sentences :: "nat \<Rightarrow> nat"

definition lorem_word :: "nat \<Rightarrow> string" where
  "lorem_word i = lorem_words ! i"

definition pick_words :: "lorem_source \<Rightarrow> nat \<Rightarrow> nat \<Rightarrow> string list" where
  "pick_words src start n = map (\<lambda>i. lorem_word (lo_word src i 0 0)) [start..<start + n]"

text \<open>The first word starts with a capital, and the full stop is a word of its own.\<close>

definition lorem_sentence :: "lorem_source \<Rightarrow> nat \<Rightarrow> nat \<Rightarrow> string" where
  "lorem_sentence src i j =
     (case map (\<lambda>k. lorem_word (lo_word src i j k)) [0..<lo_length src i j] of
        [] \<Rightarrow> []
      | w # ws \<Rightarrow>
          join_with '' '' (((case w of [] \<Rightarrow> [] | c # cs \<Rightarrow> to_uppercase c @ cs) # ws) @ [''.'']))"

definition pick_sentences :: "lorem_source \<Rightarrow> nat \<Rightarrow> nat \<Rightarrow> string list" where
  "pick_sentences src start n = map (\<lambda>i. lorem_sentence src i 0) [start..<start + n]"

definition pick_paragraphs :: "lorem_source \<Rightarrow> nat \<Rightarrow> nat \<Rightarrow> string list" where
  "pick_paragraphs src start n =
     map (\<lambda>i. join_with '' '' (map (lorem_sentence src i) [0..<lo_sentences src i])) [start..<start + n]"

definition lorem_resolve :: "lorem_source \<Rightarrow> string \<Rightarrow> string option" where
  "lorem_resolve src raw =
     (case bind_ns ''lorem'' raw of
        None \<Rightarrow> None
      | Some bound \<Rightarrow>
          if too_many ''lorem'' bound then None
          else
            (let (kind, count_str) =
                   (if has_named_args bound (ns_params_of ''lorem'')
                    then (named_value bound ''type'' ''paragraphs'', named_value bound ''count'' [])
                    else lorem_slots bound (ns_params_of ''lorem''));
                 initial = (if kind = ''words'' then 15 else 1)
             in if kind \<notin> {''words'', ''sentences'', ''paragraphs''} then None
                else case (if str_trim count_str = [] then Some initial else parse_usize (str_trim count_str)) of
                  None \<Rightarrow> None
                | Some n \<Rightarrow>
                    (let amount = max n 1 in
                     if max_lorem_count < amount then None
                     else if kind = ''words'' then build_capped amount '' '' (pick_words src)
                     else if kind = ''sentences'' then build_capped amount '' '' (pick_sentences src)
                     else build_capped amount [CHR 0x0A, CHR 0x0A] (pick_paragraphs src))))"

section \<open>Files\<close>

text \<open>The home directory, joining a path to it, and what opening gives: nothing, or the size, the text when it
  is UTF-8, and the lines that are.\<close>

record opened_file =
  of_size :: nat
  of_text :: "string option"
  of_lines :: "string option list"

record file_ops =
  fo_home :: "string option"
  fo_join :: "string \<Rightarrow> string \<Rightarrow> string"
  fo_open :: "string \<Rightarrow> opened_file option"

definition max_file_size :: nat where
  "max_file_size = 5 * 1024 * 1024"

definition expand_path :: "file_ops \<Rightarrow> string \<Rightarrow> string option" where
  "expand_path ops path =
     (case or_else (strip_prefix ''~/'' path) (strip_prefix (CHR ''~'' # [backslash]) path) of
        Some rest \<Rightarrow> map_option (\<lambda>home. fo_join ops home rest) (fo_home ops)
      | None \<Rightarrow> if path = ''~'' then fo_home ops else Some path)"

definition check_file :: "file_ops \<Rightarrow> string \<Rightarrow> opened_file option" where
  "check_file ops path =
     (case fo_open ops path of
        None \<Rightarrow> None | Some f \<Rightarrow> if max_file_size < of_size f then None else Some f)"

definition read_file :: "file_ops \<Rightarrow> string \<Rightarrow> string option" where
  "read_file ops path =
     (case expand_path ops path of
        None \<Rightarrow> None
      | Some p \<Rightarrow> (case check_file ops p of None \<Rightarrow> None | Some f \<Rightarrow> of_text f))"

text \<open>The loop over the lines, numbered from one, stops after the last one asked for.\<close>

fun lines_loop :: "nat \<Rightarrow> nat \<Rightarrow> nat \<Rightarrow> string option list \<Rightarrow> string list \<Rightarrow> string list" where
  "lines_loop first_line last_line line_num [] result = result"
| "lines_loop first_line last_line line_num (line # lines) result =
     (let result' = (case line of
            Some l \<Rightarrow> if first_line \<le> line_num \<and> line_num \<le> last_line then result @ [l] else result
          | None \<Rightarrow> result)
      in if last_line \<le> line_num then result' else lines_loop first_line last_line (line_num + 1) lines result')"

definition read_lines :: "file_ops \<Rightarrow> string \<Rightarrow> nat \<Rightarrow> nat \<Rightarrow> string option" where
  "read_lines ops path first_line last_line =
     (case expand_path ops path of
        None \<Rightarrow> None
      | Some p \<Rightarrow>
          (case check_file ops p of
             None \<Rightarrow> None
           | Some f \<Rightarrow>
               (let result = lines_loop first_line last_line 1 (of_lines f) []
                in if result = [] then None else Some (join_with [CHR 0x0A] result))))"

definition file_slots :: "bound_args \<Rightarrow> (string \<times> string \<times> string \<times> string) option" where
  "file_slots bound =
     (if has_named_args bound (ns_params_of ''file'')
      then Some (named_value bound ''op'' [], named_value bound ''path'' [],
        named_value bound ''start'' [], named_value bound ''end'' [])
      else if too_many ''file'' bound then None
      else
        (let args = b_positional bound; oper = (if args = [] then [] else hd args); rest = drop 1 args in
         if oper = ''read'' \<and> length rest = 1 then Some (oper, rest ! 0, [], [])
         else if oper = ''line'' \<and> length rest = 2 then Some (oper, rest ! 0, rest ! 1, [])
         else if oper = ''lines'' \<and> length rest = 2 then Some (oper, rest ! 0, rest ! 1, [])
         else if oper = ''lines'' \<and> length rest = 3 then Some (oper, rest ! 0, rest ! 1, rest ! 2)
         else None))"

definition parse_line_number :: "string \<Rightarrow> nat option" where
  "parse_line_number text =
     (case parse_usize (str_trim text) of None \<Rightarrow> None | Some n \<Rightarrow> if 0 < n then Some n else None)"

definition file_value :: "file_ops \<Rightarrow> string \<Rightarrow> string \<Rightarrow> string \<Rightarrow> string \<Rightarrow> string option" where
  "file_value ops oper path start_str end_str =
     (if oper = ''read'' then
        (if str_trim path = [] \<or> start_str \<noteq> [] \<or> end_str \<noteq> [] then None else read_file ops (str_trim path))
      else if oper = ''line'' then
        (if str_trim path = [] \<or> str_trim start_str = [] \<or> end_str \<noteq> [] then None
         else case parse_line_number start_str of
           None \<Rightarrow> None | Some n \<Rightarrow> read_lines ops (str_trim path) n n)
      else if oper = ''lines'' then
        (if str_trim path = [] \<or> str_trim start_str = [] then None
         else case parse_line_number start_str of
           None \<Rightarrow> None
         | Some first_line \<Rightarrow>
             (if str_trim end_str = [] then read_lines ops (str_trim path) first_line usize_max
              else case parse_usize (str_trim end_str) of
                None \<Rightarrow> None
              | Some last_line \<Rightarrow>
                  if first_line \<le> last_line then read_lines ops (str_trim path) first_line last_line else None))
      else None)"

definition file_resolve :: "file_ops \<Rightarrow> string \<Rightarrow> string option" where
  "file_resolve ops raw =
     (case bind_ns ''file'' raw of
        None \<Rightarrow> None
      | Some bound \<Rightarrow>
          (case file_slots bound of
             None \<Rightarrow> None
           | Some (oper, path, start_str, end_str) \<Rightarrow> file_value ops oper path start_str end_str))"

section \<open>Network\<close>

datatype http_answer = HttpOk nat "string option" | HttpStatus nat | HttpFailed

record network =
  nw_fetch :: "string \<Rightarrow> string option"
  nw_call :: "string \<Rightarrow> http_answer"
  nw_local :: "string option"

fun parse_trace_lines :: "string list \<Rightarrow> string option" where
  "parse_trace_lines [] = None"
| "parse_trace_lines (line # lines) =
     (case strip_prefix ''ip='' (str_trim line) of
        Some ip \<Rightarrow> if str_trim ip = [] then parse_trace_lines lines else Some (str_trim ip)
      | None \<Rightarrow> parse_trace_lines lines)"

definition parse_trace_response :: "string \<Rightarrow> string option" where
  "parse_trace_response body = parse_trace_lines (str_lines body)"

definition parse_plain_ip_response :: "string \<Rightarrow> string option" where
  "parse_plain_ip_response body =
     (let ip = str_trim body in
      if ip \<noteq> [] \<and> CHR ''<'' \<notin> set ip \<and> \<not> contains ip ''HTTP'' then Some ip else None)"

fun plain_services :: "(string \<Rightarrow> string option) \<Rightarrow> string list \<Rightarrow> string option" where
  "plain_services fetch [] = None"
| "plain_services fetch (url # urls) =
     (case fetch url of
        None \<Rightarrow> plain_services fetch urls
      | Some body \<Rightarrow>
          (case parse_plain_ip_response body of Some ip \<Rightarrow> Some ip | None \<Rightarrow> plain_services fetch urls))"

definition resolve_public_ip_with :: "(string \<Rightarrow> string option) \<Rightarrow> string option" where
  "resolve_public_ip_with fetch =
     (let others = plain_services fetch [''https://api.ipify.org'', ''https://checkip.amazonaws.com''] in
      case fetch ''https://1.1.1.1/cdn-cgi/trace'' of
        None \<Rightarrow> others
      | Some body \<Rightarrow> (case parse_trace_response body of Some ip \<Rightarrow> Some ip | None \<Rightarrow> others))"

definition ip_resolve :: "network \<Rightarrow> string \<Rightarrow> string option" where
  "ip_resolve net raw =
     (case bind_ns ''ip'' raw of
        None \<Rightarrow> None
      | Some bound \<Rightarrow>
          if too_many ''ip'' bound then None
          else if named_value bound ''type'' [] = ''public'' then resolve_public_ip_with (nw_fetch net)
          else if named_value bound ''type'' [] = ''local'' then nw_local net
          else None)"

definition format_url :: "string \<Rightarrow> string" where
  "format_url url =
     (let url = strip_argument_quotes url in
      if prefix ''http://'' url \<or> prefix ''https://'' url then url else ''https://'' @ url)"

definition resolve_get :: "network \<Rightarrow> string \<Rightarrow> string option" where
  "resolve_get net url =
     (if format_url url = ''https://'' then None
      else case nw_call net (format_url url) of HttpOk status body \<Rightarrow> body | _ \<Rightarrow> None)"

definition resolve_status :: "network \<Rightarrow> string \<Rightarrow> string option" where
  "resolve_status net url =
     (if format_url url = ''https://'' then None
      else case nw_call net (format_url url) of
        HttpOk status body \<Rightarrow> Some (show_nat status)
      | HttpStatus status \<Rightarrow> Some (show_nat status)
      | HttpFailed \<Rightarrow> None)"

definition http_resolve :: "network \<Rightarrow> string \<Rightarrow> string option" where
  "http_resolve net raw =
     (case bind_ns ''http'' raw of
        None \<Rightarrow> None
      | Some bound \<Rightarrow>
          if too_many ''http'' bound then None
          else if named_value bound ''op'' [] = ''get'' then resolve_get net (named_value bound ''url'' [])
          else if named_value bound ''op'' [] = ''status'' then resolve_status net (named_value bound ''url'' [])
          else None)"

section \<open>What the validator accepts resolves\<close>

definition plain_namespace :: "string \<Rightarrow> bool" where
  "plain_namespace ns \<longleftrightarrow>
     str_trim ns = ns \<and> str_to_ascii_lowercase ns = ns \<and> CHR ''.'' \<notin> set ns \<and>
     ns \<notin> {''clipboard'', ''date'', ''time'', ''datetime'', ''execute''} \<and>
     (case find_spec ns of Some spec \<Rightarrow> ns_name spec = ns | None \<Rightarrow> False)"

lemma accepted_bound:
  assumes "accepted (validate_system_call env ns raw)" and "plain_namespace ns"
  obtains spec bound where "find_spec ns = Some spec" "ns_name spec = ns" "bind_ns ns raw = Some bound"
    "ns_params spec = ns_params_of ns" "accepted (validate_bound env spec bound (str_trim raw))"
proof -
  obtain spec where spec: "find_spec ns = Some spec" "ns_name spec = ns"
    using assms(2) unfolding plain_namespace_def by (cases "find_spec ns") simp_all
  have "validate_system_call env ns raw =
      (case bind_call ns raw (ns_params spec) of Inl e \<Rightarrow> Inl (map_bind_error spec (str_trim raw) e)
       | Inr bound \<Rightarrow> validate_bound env spec bound (str_trim raw))"
    using assms(2) spec by (simp add: validate_system_call_def plain_namespace_def bind_call_trim Let_def)
  then obtain bound where bound: "bind_call ns raw (ns_params spec) = Inr bound"
    and ok: "accepted (validate_bound env spec bound (str_trim raw))"
    using assms(1) by (auto simp: accepted_iff split: sum.split_asm)
  have "bind_ns ns raw = Some bound" and "ns_params spec = ns_params_of ns"
    using spec bound by (simp_all add: bind_ns_def ns_params_of_def)
  then show ?thesis using that spec ok by blast
qed

lemma bind_ns_named:
  assumes "bind_ns ns raw = Some bound" and "distinct (map p_name (ns_params_of ns))" and "key \<in> p_name ` set (ns_params_of ns)"
  shows "named_value bound key a = named_value bound key a'"
proof -
  have "bind_call ns raw (ns_params_of ns) = Inr bound" using assms(1) by (simp add: bind_ns_def split: sum.split_asm)
  then show ?thesis using assms(2,3) by (rule named_value_bound)
qed

lemma random_params:
  "ns_params_of ''random'' = [optional ''type'' ''int'', optional ''min'' ''0'', optional ''max'' ''100'']"
  by (simp add: ns_params_of_def find_spec_def ns_specs_def)

lemma random_namespace: "plain_namespace ''random''"
  unfolding plain_namespace_def by code_simp

lemma random_named:
  assumes "bind_ns ''random'' raw = Some bound"
  shows "named_value bound ''type'' a = named_value bound ''type'' []"
    "named_value bound ''min'' a = named_value bound ''min'' []"
    "named_value bound ''max'' a = named_value bound ''max'' []"
proof -
  have key: "named_value bound k a = named_value bound k []" if "k \<in> {''type'', ''min'', ''max''}" for k
    by (rule bind_ns_named [OF assms]) (use that in \<open>auto simp: random_params optional_def\<close>)
  show "named_value bound ''type'' a = named_value bound ''type'' []" by (rule key) simp
  show "named_value bound ''min'' a = named_value bound ''min'' []" by (rule key) simp
  show "named_value bound ''max'' a = named_value bound ''max'' []" by (rule key) simp
qed

lemma int_range_parses: "int_range_ok args \<Longrightarrow> parse_int_range args 0 100 \<noteq> None"
  by (auto simp: int_range_ok_def parse_int_range_def split: list.split list.split_asm option.split option.split_asm)

lemma string_length_parses: "string_length_ok t \<Longrightarrow> parse_len t \<noteq> None"
  by (auto simp: string_length_ok_def parse_usize_at_least_def within_def parse_len_def
      split: option.split_asm if_split_asm)

lemma random_value_total:
  assumes "accepted (validate_random_kind kind bound ps raw)" and "kind \<in> set random_kinds"
    and "bind_ns ''random'' r = Some bound"
  shows "random_value rnd bound (has_named_args bound ps) kind \<noteq> None"
proof -
  note named = random_named [OF assms(3), of "''0''"] random_named [OF assms(3), of "''100''"]
  consider "kind = ''int''" | "kind = ''choice''" | "kind = ''str'' \<or> kind = ''pass''"
    using assms(2) by (auto simp: random_kinds_def)
  then show ?thesis
  proof cases
    case 1
    then show ?thesis
      using assms(1) int_range_parses
      by (auto simp: validate_random_kind_def random_value_def named accepted_iff Let_def)
  next
    case 2
    then show ?thesis
      using assms(1) by (simp add: validate_random_kind_def random_value_def named accepted_iff Let_def)
  next
    case 3
    then have "accepted (validate_random_kind kind bound ps raw) \<Longrightarrow> random_string rnd kind bound (has_named_args bound ps) \<noteq> None"
      using string_length_parses
      by (auto simp: validate_random_kind_def random_string_def named accepted_iff Let_def split: list.split_asm list.split)
    then show ?thesis using 3 assms(1) by (auto simp: random_value_def)
  qed
qed

lemma random_accepted:
  assumes "accepted (validate_system_call env ''random'' raw)"
  shows "random_resolve rnd raw \<noteq> None"
proof -
  obtain spec bound where bound: "bind_ns ''random'' raw = Some bound" "ns_name spec = ''random''"
    and spec: "ns_params spec = ns_params_of ''random''" and ok: "accepted (validate_bound env spec bound (str_trim raw))"
    by (rule accepted_bound [OF assms random_namespace]) blast
  have "accepted (validate_random_args bound (ns_params_of ''random'') (str_trim raw))"
    using ok bound(2) spec
    by (auto simp: validate_bound_def validate_value_args_def accepted_iff Let_def split: if_split_asm)
  then obtain kind where "random_kind bound = Some kind" "kind \<in> set random_kinds"
    and "accepted (validate_random_kind kind bound (ns_params_of ''random'') (str_trim raw))"
    using random_named(1) [OF bound(1), of "''int''"]
    by (auto simp: validate_random_args_def random_kind_def accepted_iff Let_def random_kinds_def
        split: list.split_asm if_split_asm)
  then show ?thesis using random_value_total bound(1) by (simp add: random_resolve_def)
qed

lemma uuid_accepted:
  assumes "accepted (validate_system_call env ''uuid'' raw)"
  shows "uuid_resolve v4 v7 raw \<noteq> None"
proof -
  have plain: "plain_namespace ''uuid''" unfolding plain_namespace_def by code_simp
  obtain spec bound where find: "find_spec ''uuid'' = Some spec"
    and bound: "bind_ns ''uuid'' raw = Some bound" "ns_name spec = ''uuid''"
    and spec: "ns_params spec = ns_params_of ''uuid''" and ok: "accepted (validate_bound env spec bound (str_trim raw))"
    by (rule accepted_bound [OF assms plain]) blast
  have "\<not> ns_variadic spec" using find by (auto simp: find_spec_def ns_specs_def)
  then show ?thesis
    using ok bound spec
    by (auto simp: validate_bound_def validate_value_args_def uuid_resolve_def too_many_def accepted_iff Let_def
        split: if_split_asm)
qed

text \<open>A root whose resolver answers whatever the validator accepts; the tag of an accepted call is then never
  left as it was typed.\<close>

locale checked_variable =
  fixes ns :: string and resolver :: "'w \<Rightarrow> string \<Rightarrow> string option" and env :: validate_env
  assumes accepted_resolves: "accepted (validate_system_call env ns raw) \<Longrightarrow> resolver w raw \<noteq> None"
    and simple_name: "CHR ''('' \<notin> set ns"
begin

lemma call_args_other:
  assumes "CHR ''('' \<notin> set root" and "root \<noteq> ns"
  shows "call_args root (ns @ ''('' @ raw @ '')'') = None"
proof -
  have "\<not> prefix (root @ ''('') (ns @ ''('' @ raw @ '')'')"
  proof
    assume "prefix (root @ ''('') (ns @ ''('' @ raw @ '')'')"
    then obtain rest where eq: "root @ CHR ''('' # rest = ns @ CHR ''('' # raw @ '')''" by (auto simp: prefix_def)
    have name: "takeWhile (\<lambda>c. c \<noteq> CHR ''('') (u @ CHR ''('' # v) = u" if "CHR ''('' \<notin> set u" for u v :: string
      using that by (induction u) auto
    have "root = ns" using arg_cong [OF eq, of "takeWhile (\<lambda>c. c \<noteq> CHR ''('')"] name assms(1) simple_name by metis
    then show False using assms(2) by simp
  qed
  then show ?thesis by (simp add: call_args_def strip_prefix_def)
qed

lemma accepted_tag_resolves:
  assumes "accepted (validate_system_call env ns raw)" and "ns \<in> set roots"
    and "\<forall>root\<in>set roots. CHR ''('' \<notin> set root" and "sy_value sys ns = resolver w"
  shows "resolve_root sys roots (ns @ ''('' @ raw @ '')'') \<noteq> None"
  using assms(2,3)
proof (induction roots)
  case (Cons root roots)
  have call: "call_args ns (ns @ ''('' @ raw @ '')'') = Some raw"
    by (simp add: call_args_def strip_prefix_def strip_suffix_def suffix_def)
  have key: "ns @ ''('' @ raw @ '')'' \<noteq> root" using Cons.prems(2) by auto
  show ?case
  proof (cases "root = ns")
    case True
    then show ?thesis using key call accepted_resolves [OF assms(1)] assms(4) by simp
  next
    case False
    then show ?thesis using key call_args_other [of root] Cons by simp
  qed
qed simp

end

interpretation random_var: checked_variable "''random''" random_resolve env for env
  by unfold_locales (auto simp: random_accepted)

interpretation uuid_var: checked_variable "''uuid''" "\<lambda>(v4, v7). uuid_resolve v4 v7" env for env
  by unfold_locales (simp_all add: case_prod_unfold uuid_accepted del: not_None_eq)

text \<open>C18: Every call of the random variable, written in lower case with its parenthesis directly after the name, that
  the validator accepts when a snippet is saved gets a value when the snippet expands, whatever numbers are drawn.
  The validator also accepts other spellings, which get none (\<open>capital_random_is_not_resolved\<close>).\<close>

theorem random_tag_resolves:
  assumes "accepted (validate_system_call env ''random'' raw)" and "sy_value sys ''random'' = random_resolve rnd"
  shows "resolve sys (''random('' @ raw @ '')'') \<noteq> None"
proof -
  have "resolve_root sys [''chrono'', ''env'', ''file'', ''ip'', ''http'', ''random'', ''lorem'', ''uuid'']
      (''random'' @ ''('' @ raw @ '')'') \<noteq> None"
    by (rule random_var.accepted_tag_resolves [OF assms(1)]) (use assms(2) in auto)
  then show ?thesis by (simp add: resolve_def)
qed

definition first_draw :: random_source where
  "first_draw = \<lparr>draw_int = (\<lambda>lo _. lo), draw_at = (\<lambda>_ _. 0)\<rparr>"

definition random_only :: system_env where
  "random_only =
     \<lparr>sy_execute = \<lparr>xe_windows = False, xe_exists = \<lambda>_. False, xe_asset = \<lambda>_. None, xe_compress = \<lambda>_. Some []\<rparr>,
      sy_scripts_enabled = False, sy_seconds_ms = \<lambda>_. None, sy_load_asset = \<lambda>_. None, sy_load_file = \<lambda>_. None,
      sy_value = (\<lambda>root. if root = ''random'' then random_resolve first_draw else (\<lambda>_. None)), sy_clip = \<lambda>_. None\<rparr>"

definition dice :: bound_args where "dice = \<lparr>b_positional = [''int'', ''1'', ''6''], b_named = [(''type'', ''int''), (''min'', ''1''), (''max'', ''6'')]\<rparr>"

lemma dice_bound: "bind_call ''random'' ''int, 1, 6'' (ns_params_of ''random'') = Inr dice"
  by code_simp

lemma dice_accepted:
  "accepted (validate_system_call env ''random'' ''int, 1, 6'')"
proof -
  have names: "str_trim ''random'' = ''random''" "str_to_ascii_lowercase ''random'' = ''random''" "str_trim ''int, 1, 6'' = ''int, 1, 6''"
    "\<not> has_named_args dice (ns_params_of ''random'')" by code_simp+
  obtain spec where spec: "find_spec ''random'' = Some spec" "ns_name spec = ''random''" "ns_variadic spec" "ns_params spec = ns_params_of ''random''"
    by (rule that [of "the (find_spec ''random'')"]) (simp_all add: ns_params_of_def find_spec_def ns_specs_def)
  have "validate_system_call env ''random'' ''int, 1, 6'' = validate_bound env spec dice ''int, 1, 6''"
    by (simp add: validate_system_call_def names spec dice_bound)
  moreover have "validate_bound env spec dice ''int, 1, 6'' = validate_random_args dice (ns_params_of ''random'') ''int, 1, 6''"
    by (simp add: validate_bound_def validate_value_args_def spec)
  moreover have "int_range_ok [''1'', ''6'']"
    by (simp add: int_range_ok_def parse_signed_def parse_unsigned_def digits_val_def digit_val_def is_ascii_digit_def)
  ultimately show ?thesis
    using names(4) by (simp add: validate_random_args_def validate_random_kind_def dice_def random_kinds_def without_kind_def accepted_iff)
qed

text \<open>The validator reads the name of a variable in any case, the resolver only in lower case: such a call is
  accepted and then stays in the text as it was written.\<close>

theorem capital_random_is_not_resolved:
  "accepted (validate_system_call env ''Random'' ''int, 1, 6'') \<and> resolve sys ''Random(int, 1, 6)'' = None"
proof
  have "str_to_ascii_lowercase (str_trim ''Random'') = ''random''" and "str_to_ascii_lowercase (str_trim ''random'') = ''random''"
    by code_simp+
  then have "accepted (validate_system_call env ''Random'' ''int, 1, 6'') = accepted (validate_system_call env ''random'' ''int, 1, 6'')"
    by (simp add: validate_system_call_def Let_def accepted_def split: option.split)
  then show "accepted (validate_system_call env ''Random'' ''int, 1, 6'')" using dice_accepted by simp
  show "resolve sys ''Random(int, 1, 6)'' = None"
    by (simp add: resolve_def call_args_def strip_prefix_def)
qed

theorem random_tag_resolves_witness: "resolve random_only (''random('' @ ''int, 1, 6'' @ '')'') \<noteq> None"
  by (rule random_tag_resolves [OF dice_accepted, of _ first_draw]) (simp add: random_only_def)

section \<open>Random text\<close>

lemma random_chars_length: "length (random_chars rnd chars len) = len"
  by (simp add: random_chars_def)

lemma random_chars_set: "fair_source rnd \<Longrightarrow> chars \<noteq> [] \<Longrightarrow> set (random_chars rnd chars len) \<subseteq> set chars"
  by (auto simp: random_chars_def fair_source_def intro!: nth_mem)

lemma charset_nonempty: "charset kind \<noteq> []"
  by (simp add: charset_def password_chars_def alphanumeric_chars_def)

section \<open>Capped text\<close>

lemma push_units_bound:
  "push_units buf sep pieces = Some t \<Longrightarrow> str_len buf \<le> max_lorem_bytes \<Longrightarrow> str_len t \<le> max_lorem_bytes"
proof (induction pieces arbitrary: buf)
  case (Cons piece pieces)
  then obtain buf' where "push_capped buf sep piece = Some buf'" "push_units buf' sep pieces = Some t"
    by (auto split: option.split_asm)
  moreover from this have "str_len buf' \<le> max_lorem_bytes"
    by (auto simp: push_capped_def Let_def str_len_def split: if_split_asm)
  ultimately show ?case using Cons.IH by blast
qed simp

lemma build_loop_bound:
  "build_loop remaining sep chunk start buf = Some t \<Longrightarrow> str_len buf \<le> max_lorem_bytes \<Longrightarrow>
   str_len t \<le> max_lorem_bytes"
proof (induction remaining sep chunk start buf rule: build_loop.induct)
  case (1 remaining sep chunk start buf)
  show ?case
  proof (cases "0 < remaining")
    case True
    then obtain buf' where "push_units buf sep (chunk start (min remaining 256)) = Some buf'"
      and "build_loop (remaining - min remaining 256) sep chunk (start + min remaining 256) buf' = Some t"
      using "1.prems"(1) by (auto simp: build_loop.simps [of remaining] Let_def split: option.split_asm)
    then show ?thesis using "1.IH" [OF True refl] push_units_bound "1.prems"(2) by blast
  next
    case False
    then show ?thesis using "1.prems" by (simp add: build_loop.simps [of 0])
  qed
qed

text \<open>Filler text never exceeds a megabyte.\<close>

theorem lorem_is_bounded:
  assumes "lorem_resolve src raw = Some t"
  shows "str_len t \<le> max_lorem_bytes"
proof -
  have "str_len [] \<le> max_lorem_bytes" by (simp add: str_len_def)
  then show ?thesis
    using assms build_loop_bound
    by (auto simp: lorem_resolve_def build_capped_def Let_def
        split: option.split_asm if_split_asm prod.split_asm)
qed

definition first_words :: lorem_source where
  "first_words = \<lparr>lo_word = (\<lambda>_ _ _. 0), lo_length = (\<lambda>_ _. 5), lo_sentences = (\<lambda>_. 3)\<rparr>"

lemma first_words_resolve: "lorem_resolve first_words ''words, 2'' = Some ''lorem lorem''"
proof -
  let ?bound = "\<lparr>b_positional = [''words'', ''2''], b_named = [(''type'', ''words''), (''count'', ''2'')]\<rparr>"
  have bound: "bind_ns ''lorem'' ''words, 2'' = Some ?bound" "\<not> too_many ''lorem'' ?bound"
    "\<not> has_named_args ?bound (ns_params_of ''lorem'')" "str_trim ''2'' = ''2''" by code_simp+
  have n: "parse_usize ''2'' = Some 2" by (simp add: parse_unsigned_def digits_val_def digit_val_def is_ascii_digit_def usize_max_def)
  have "lorem_word 0 = ''lorem''" by (simp add: lorem_word_def lorem_words_def)
  then have "pick_words first_words 0 2 = [''lorem'', ''lorem'']"
    by (simp add: pick_words_def first_words_def upt_rec)
  then have "build_capped 2 '' '' (pick_words first_words) = Some ''lorem lorem''"
    by (simp add: build_capped_def build_loop.simps [of 2] build_loop.simps [of 0] push_capped_def str_len_def max_lorem_bytes_def)
  then show ?thesis by (simp add: lorem_resolve_def bound lorem_slots_def n max_lorem_count_def numeral_2_eq_2)
qed

theorem lorem_is_bounded_witness: "str_len ''lorem lorem'' \<le> max_lorem_bytes"
  by (rule lorem_is_bounded [OF first_words_resolve])

text \<open>Making the pieces by chunks changes nothing: the text is the pieces in order.\<close>

lemma push_units_join:
  "push_units buf sep pieces = Some t \<Longrightarrow> (\<forall>piece\<in>set pieces. piece \<noteq> []) \<Longrightarrow>
   t = (if buf = [] then join_with sep pieces
        else buf @ concat (map (\<lambda>piece. sep @ piece) pieces))"
proof (induction pieces arbitrary: buf)
  case (Cons piece pieces)
  then obtain buf' where push: "push_capped buf sep piece = Some buf'" "push_units buf' sep pieces = Some t"
    by (auto split: option.split_asm)
  then have buf': "buf' = (if buf = [] then piece else buf @ sep @ piece)"
    by (auto simp: push_capped_def Let_def split: if_split_asm)
  then have "buf' \<noteq> []" using Cons.prems(2) by auto
  then have t: "t = buf' @ concat (map (\<lambda>piece. sep @ piece) pieces)"
    using Cons.IH [OF push(2)] Cons.prems(2) by simp
  have join: "join_with sep (piece # pieces) = piece @ concat (map (\<lambda>piece. sep @ piece) pieces)"
    by (induction pieces arbitrary: piece) auto
  show ?case unfolding t buf' join by simp
qed simp

lemma build_loop_join:
  assumes pieces: "\<And>i. f i \<noteq> []"
  shows "build_loop remaining sep (\<lambda>start n. map f [start..<start + n]) start buf = Some t \<Longrightarrow> buf \<noteq> [] \<Longrightarrow>
   t = buf @ concat (map (\<lambda>i. sep @ f i) [start..<start + remaining])"
proof (induction remaining sep "\<lambda>start n. map f [start..<start + n]" start buf rule: build_loop.induct)
  case (1 remaining sep start buf)
  let ?n = "min remaining 256"
  show ?case
  proof (cases "0 < remaining")
    case True
    then obtain buf' where push: "push_units buf sep (map f [start..<start + ?n]) = Some buf'"
      and rest: "build_loop (remaining - ?n) sep (\<lambda>start n. map f [start..<start + n]) (start + ?n) buf' = Some t"
      using "1.prems"(1) by (auto simp: build_loop.simps [of remaining] Let_def split: option.split_asm)
    have buf': "buf' = buf @ concat (map (\<lambda>i. sep @ f i) [start..<start + ?n])"
      using push_units_join [OF push] pieces "1.prems"(2) by (auto simp: comp_def)
    then have "t = buf' @ concat (map (\<lambda>i. sep @ f i) [start + ?n..<start + ?n + (remaining - ?n)])"
      using "1.hyps" [OF True refl push rest] "1.prems"(2) by simp
    moreover have "[start..<start + remaining] = [start..<start + ?n] @ [start + ?n..<start + remaining]"
      using upt_add_eq_append [of start "start + ?n" "remaining - ?n"] by simp
    ultimately show ?thesis using buf' by simp
  next
    case False
    then show ?thesis using "1.prems" by (simp add: build_loop.simps [of 0])
  qed
qed

section \<open>Lines of a file\<close>

lemma lines_loop_slice:
  "lines_loop first_line last_line k (map Some ls) acc =
   acc @ take (last_line + 1 - max first_line k) (drop (first_line - k) ls)"
proof (induction ls arbitrary: k acc)
  case (Cons l ls)
  consider "k < first_line" | "first_line \<le> k" "k < last_line" | "first_line \<le> k" "last_line \<le> k" by linarith
  then show ?case
  proof cases
    case 1
    then have "drop (first_line - k) (l # ls) = drop (first_line - Suc k) ls"
      by (metis Suc_diff_Suc drop_Suc_Cons)
    then show ?thesis using 1 Cons.IH [of "Suc k"] by (cases "first_line = Suc k") (simp_all add: max_def Let_def)
  next
    case 2
    then have "take (last_line + 1 - k) (l # ls) = l # take (last_line - k) ls" by (simp add: Suc_diff_le)
    then show ?thesis using 2 Cons.IH [of "Suc k"] by (simp add: max_def Let_def)
  next
    case 3
    then show ?thesis by (cases "k = last_line") (simp_all add: max_def Let_def)
  qed
qed simp

text \<open>C33: Asking for the lines \<open>a\<close> to \<open>b\<close> of a readable file gives those it has, joined by line feeds.\<close>

theorem lines_of_a_file:
  assumes "expand_path ops path = Some p" and "check_file ops p = Some f" and "of_lines f = map Some ls"
    and "1 \<le> a" "a \<le> b" "a \<le> length ls"
  shows "read_lines ops path a b = Some (join_with [CHR 0x0A] (take (b + 1 - a) (drop (a - 1) ls)))"
proof -
  have "lines_loop a b 1 (of_lines f) [] = take (b + 1 - a) (drop (a - 1) ls)"
    using assms(3,4) lines_loop_slice [of a b 1 ls "[]"] by (simp add: max_def)
  moreover have "take (b + 1 - a) (drop (a - 1) ls) \<noteq> []" using assms(4-6) by simp
  ultimately show ?thesis using assms(1,2) by (simp add: read_lines_def)
qed

definition three_lines :: opened_file where
  "three_lines = \<lparr>of_size = 5, of_text = Some (''a'' @ [CHR 0x0A] @ ''b'' @ [CHR 0x0A] @ ''c''),
     of_lines = [Some ''a'', Some ''b'', Some ''c'']\<rparr>"

definition one_file :: file_ops where
  "one_file = \<lparr>fo_home = None, fo_join = (@), fo_open = (\<lambda>path. if path = ''notes'' then Some three_lines else None)\<rparr>"

theorem lines_of_a_file_witness: "read_lines one_file ''notes'' 2 3 = Some (''b'' @ [CHR 0x0A] @ ''c'')"
proof -
  have "read_lines one_file ''notes'' 2 3 = Some (join_with [CHR 0x0A] (take (3 + 1 - 2) (drop (2 - 1) [''a'', ''b'', ''c''])))"
  proof (rule lines_of_a_file)
    show "expand_path one_file ''notes'' = Some ''notes''" "check_file one_file ''notes'' = Some three_lines"
      by (simp_all add: expand_path_def check_file_def one_file_def three_lines_def max_file_size_def strip_prefix_def)
  qed (simp_all add: three_lines_def)
  then show ?thesis by simp
qed

end
