(* ===== verification/Interpolate.thy ===== *)
theory Interpolate
  imports Variables
begin

text \<open>
  Interpolation, \<open>core/src/engine/variables/interpolate.rs\<close>: the innermost tags of a template are replaced one
  at a time, at most 128 of them, by arguments, snippets, system variables or quoted text, each run through its
  transformers. Default values and nested snippets are interpolated one level deeper, at most 32 levels, and
  snippets at most 5; so \<open>interpolate_levels\<close> recurses on the levels that are left. What the snippet cache and
  the database hold for a trigger is the field \<open>tp_snippet\<close>.
\<close>

section \<open>Environment\<close>

record ('f, 'v) template_env =
  tp_transform :: "('f, 'v) transform_env"
  tp_validate :: validate_env
  tp_snippet :: "string \<Rightarrow> string option"

abbreviation tp_system :: "('f, 'v) template_env \<Rightarrow> system_env" where
  "tp_system env \<equiv> va_system (tp_validate env)"

abbreviation sentinel_open :: char where "sentinel_open \<equiv> CHR 0x01"
abbreviation sentinel_close :: char where "sentinel_close \<equiv> CHR 0x02"
abbreviation ai_open :: char where "ai_open \<equiv> CHR 0x03"
abbreviation ai_close :: char where "ai_close \<equiv> CHR 0x04"
abbreviation unit_separator :: char where "unit_separator \<equiv> CHR 0x1F"

definition max_interpolation_depth :: nat where
  "max_interpolation_depth = 32"

definition max_iterations :: nat where
  "max_iterations = 128"

section \<open>Placeholders\<close>

definition has_valid_default_value :: "string option \<Rightarrow> bool" where
  "has_valid_default_value absent = (case absent of None \<Rightarrow> False | Some dv \<Rightarrow> str_trim (unquoted dv) \<noteq> [])"

definition no_brackets :: "string \<Rightarrow> bool" where
  "no_brackets key \<longleftrightarrow> tag_open \<notin> set key \<and> tag_close \<notin> set key"

definition add_placeholder ::
  "string \<Rightarrow> (string \<times> string option) list \<Rightarrow> tag_bounds \<Rightarrow> (string \<times> string option) list" where
  "add_placeholder template found tag =
     (let (key0, absent) = split_key_default (hd (split_pipeline (tag_inner template tag))); key = unquoted key0 in
      if has_valid_default_value absent \<and> \<not> is_reserved key \<and> key \<notin> fst ` set found \<and> no_brackets key
      then found @ [(key, absent)] else found)"

definition extract_placeholders :: "string \<Rightarrow> (string \<times> string option) list" where
  "extract_placeholders template =
     foldl (add_placeholder template) [] (sort_key tb_start (scan_tag_bounds template))"

definition find_named :: "arg_map \<Rightarrow> string \<Rightarrow> string option" where
  "find_named args key = map_option snd (find (\<lambda>(k, _). eq_ignore_ascii_case k key) (a_named args))"

definition positional_at :: "arg_map \<Rightarrow> nat \<Rightarrow> string option" where
  "positional_at args i = (if i < length (a_positional args) then Some (a_positional args ! i) else None)"

text \<open>A key that a valid system call owns is no reference to an argument.\<close>

definition is_valid_call :: "('f, 'v) template_env \<Rightarrow> string \<Rightarrow> bool" where
  "is_valid_call env key =
     (case parse_system_call key of
        None \<Rightarrow> False | Some (ns, raw) \<Rightarrow> accepted (validate_system_call (tp_validate env) ns raw))"

definition is_valid_user_reference ::
  "('f, 'v) template_env \<Rightarrow> string \<Rightarrow> string option \<Rightarrow> arg_map \<Rightarrow> bool" where
  "is_valid_user_reference env key0 absent args =
     (let key = unquoted key0 in
      if is_valid_call env key then False
      else case parse_usize key of
        Some i \<Rightarrow> i < length (a_positional args) \<or> has_valid_default_value absent
      | None \<Rightarrow>
          find_named args key \<noteq> None \<or>
          (has_valid_default_value absent \<and> \<not> is_reserved key \<and> no_brackets key))"

text \<open>\<open>inner\<close> interpolates one level deeper; \<open>slot\<close> is the positional argument a bare field may take.\<close>

definition resolve_default_value :: "(string \<Rightarrow> string) \<Rightarrow> nat \<Rightarrow> string \<Rightarrow> string" where
  "resolve_default_value inner depth dv = (if max_interpolation_depth \<le> depth then dv else inner dv)"

definition resolve_user_placeholder ::
  "('f, 'v) template_env \<Rightarrow> (string \<Rightarrow> string) \<Rightarrow> string \<Rightarrow> string option \<Rightarrow> arg_map \<Rightarrow> nat \<Rightarrow> nat option \<Rightarrow> string option" where
  "resolve_user_placeholder env inner key0 absent args depth slot =
     (if \<not> is_valid_user_reference env key0 absent args then None
      else
        (let key = unquoted key0;
             fallback = map_option (\<lambda>dv. resolve_default_value inner depth (unquoted dv)) absent
         in case parse_usize key of
              Some i \<Rightarrow> or_else (positional_at args i) (or_else (find_named args key) fallback)
            | None \<Rightarrow>
                (case find_named args key of
                   Some v \<Rightarrow> Some v
                 | None \<Rightarrow>
                     (case slot of
                        None \<Rightarrow> fallback
                      | Some pos \<Rightarrow>
                          (case positional_at args pos of
                             None \<Rightarrow> fallback
                           | Some v \<Rightarrow> if v \<noteq> [] then Some v else fallback)))))"

section \<open>Snippets and system variables\<close>

definition parse_use_key :: "string \<Rightarrow> string option" where
  "parse_use_key key = map_option strip_argument_quotes (call_args ''use'' key)"

definition resolve_cached_snippet :: "('f, 'v) template_env \<Rightarrow> (string \<Rightarrow> string) \<Rightarrow> nat \<Rightarrow> string \<Rightarrow> string" where
  "resolve_cached_snippet env inner depth trigger =
     (if 5 \<le> depth then [] else case tp_snippet env trigger of None \<Rightarrow> [] | Some raw \<Rightarrow> inner raw)"

definition resolve_use_placeholder :: "('f, 'v) template_env \<Rightarrow> (string \<Rightarrow> string) \<Rightarrow> nat \<Rightarrow> string \<Rightarrow> string" where
  "resolve_use_placeholder env inner depth key =
     (case parse_use_key key of None \<Rightarrow> [] | Some trigger \<Rightarrow> resolve_cached_snippet env inner depth trigger)"

definition deferred_marker :: "string \<Rightarrow> string" where
  "deferred_marker key = ai_open # unit_separator # ''sys:'' @ key @ [ai_close]"

definition resolve_system_placeholder :: "('f, 'v) template_env \<Rightarrow> string \<Rightarrow> string option" where
  "resolve_system_placeholder env key =
     (if is_deferred key then Some (deferred_marker key) else resolve (tp_system env) key)"

section \<open>Transformers of a tag\<close>

definition ai_marker :: "string \<Rightarrow> string \<Rightarrow> string" where
  "ai_marker t prompt = ai_open # t @ unit_separator # prompt @ [ai_close]"

text \<open>An AI transformer wraps the text in a marker, a deferred variable collects its transformers, and one that
  cannot apply keeps the text.\<close>

definition transform_step :: "('f, 'v) template_env \<Rightarrow> string \<Rightarrow> string \<Rightarrow> string" where
  "transform_step env t tr =
     (if is_ai_transformer tr then ai_marker t (extract_ai_prompt tr)
      else if prefix (ai_open # unit_separator # ''sys:'') t \<and> suffix [ai_close] t
      then butlast t @ '' | '' @ tr @ [ai_close]
      else case apply_transformer (tp_transform env) tr t of Some t' \<Rightarrow> t' | None \<Rightarrow> t)"

definition apply_transformers :: "('f, 'v) template_env \<Rightarrow> string \<Rightarrow> string list \<Rightarrow> string" where
  "apply_transformers env t trs = foldl (transform_step env) t trs"

section \<open>One tag\<close>

definition base_resolved ::
  "('f, 'v) template_env \<Rightarrow> (string \<Rightarrow> string) \<Rightarrow> arg_map \<Rightarrow> nat \<Rightarrow> (string \<times> string) list \<Rightarrow>
   string \<Rightarrow> string option \<Rightarrow> string list \<Rightarrow> string option" where
  "base_resolved env inner args depth resolutions key0 absent trs =
     (let key = unquoted key0 in
      case map_of resolutions (str_to_lowercase key) of
        Some user \<Rightarrow> Some user
      | None \<Rightarrow>
          if prefix [ai_open] key \<and> suffix [ai_close] key then Some key
          else if prefix ''use('' key \<and> suffix '')'' key then Some (resolve_use_placeholder env inner depth key)
          else case resolve_system_placeholder env key of
            Some sys \<Rightarrow> Some sys
          | None \<Rightarrow>
              if is_valid_user_reference env key absent args
              then resolve_user_placeholder env inner key0 absent args depth None
              else case unquote key0 of
                Some t \<Rightarrow> Some t
              | None \<Rightarrow>
                  if list_all is_ascii_digit key0
                  then resolve_user_placeholder env inner key0 absent args depth None
                  else if trs \<noteq> [] \<and> \<not> is_reserved key \<and> (CHR '' '' \<in> set key0 \<or> sentinel_open \<in> set key0)
                  then Some key0
                  else None)"

text \<open>A tag that resolves to nothing is kept, with sentinels for its brackets so that it is not found again.\<close>

definition resolve_tag ::
  "('f, 'v) template_env \<Rightarrow> (string \<Rightarrow> string) \<Rightarrow> arg_map \<Rightarrow> nat \<Rightarrow> (string \<times> string) list \<Rightarrow> string \<Rightarrow> string" where
  "resolve_tag env inner args depth resolutions content =
     (let pipeline = split_pipeline content; trs = tl pipeline; (key0, absent) = split_key_default (hd pipeline);
          key = unquoted key0
      in case base_resolved env inner args depth resolutions key0 absent trs of
           Some t \<Rightarrow> apply_transformers env t trs
         | None \<Rightarrow>
             if is_directive (tp_system env) key \<and> trs = [] then sentinel_open # key @ [sentinel_close]
             else sentinel_open # content @ [sentinel_close])"

section \<open>The loops\<close>

text \<open>The arguments of the template's own placeholders, resolved before the loop: an unnamed field takes the next
  positional argument.\<close>

fun resolve_fields ::
  "('f, 'v) template_env \<Rightarrow> (string \<Rightarrow> string) \<Rightarrow> arg_map \<Rightarrow> nat \<Rightarrow> (string \<times> string option) list \<Rightarrow>
   nat \<Rightarrow> (string \<times> string) list \<Rightarrow> (string \<times> string) list" where
  "resolve_fields env inner args depth [] pos resolutions = resolutions"
| "resolve_fields env inner args depth ((key, absent) # todo) pos resolutions =
     (let lower = str_to_lowercase key in
      if map_of resolutions lower \<noteq> None then resolve_fields env inner args depth todo pos resolutions
      else
        (let direct = parse_usize key \<noteq> None \<or> find_named args key \<noteq> None;
             slot = (if direct then None else Some pos);
             pos' = (if direct then pos else pos + 1)
         in case resolve_user_placeholder env inner key absent args depth slot of
              Some v \<Rightarrow> resolve_fields env inner args depth todo pos' ((lower, v) # resolutions)
            | None \<Rightarrow> resolve_fields env inner args depth todo pos' resolutions))"

fun tag_loop :: "(string \<Rightarrow> string) \<Rightarrow> nat \<Rightarrow> string \<Rightarrow> string" where
  "tag_loop step 0 output = output"
| "tag_loop step (Suc iterations) output =
     (case scan_tag_bounds output of
        [] \<Rightarrow> output
      | tag # _ \<Rightarrow>
          tag_loop step iterations
            (take (tb_start tag) output @ step (tag_inner output tag) @ drop (tb_end tag + 1) output))"

definition finalize_interpolation :: "string \<Rightarrow> string" where
  "finalize_interpolation s =
     map (\<lambda>c. if c = sentinel_open then tag_open else if c = sentinel_close then tag_close else c) s"

definition interpolate_body ::
  "('f, 'v) template_env \<Rightarrow> (string \<Rightarrow> string) \<Rightarrow> arg_map \<Rightarrow> nat \<Rightarrow> string \<Rightarrow> string" where
  "interpolate_body env inner args depth template =
     (let resolutions = resolve_fields env inner args depth (extract_placeholders template) 0 []
      in finalize_interpolation
           (tag_loop (resolve_tag env inner args depth resolutions) max_iterations template))"

fun interpolate_levels :: "('f, 'v) template_env \<Rightarrow> arg_map \<Rightarrow> nat \<Rightarrow> string \<Rightarrow> string" where
  "interpolate_levels env args 0 template = template"
| "interpolate_levels env args (Suc levels) template =
     interpolate_body env (interpolate_levels env args levels) args (max_interpolation_depth - Suc levels) template"

definition interpolate_with_depth :: "('f, 'v) template_env \<Rightarrow> string \<Rightarrow> arg_map \<Rightarrow> nat \<Rightarrow> string" where
  "interpolate_with_depth env template args depth =
     interpolate_levels env args (max_interpolation_depth - depth) template"

definition unescape_bars :: "string \<Rightarrow> string" where
  "unescape_bars s = replace_all [backslash, CHR ''|''] ''|'' s"

text \<open>The transformers of the whole template do not collect on a deferred variable.\<close>

definition global_step :: "('f, 'v) template_env \<Rightarrow> string \<Rightarrow> string \<Rightarrow> string" where
  "global_step env t tr =
     (if is_ai_transformer tr then ai_marker t (extract_ai_prompt tr)
      else case apply_transformer (tp_transform env) tr t of Some t' \<Rightarrow> t' | None \<Rightarrow> t)"

definition needs_no_work :: "string \<Rightarrow> bool" where
  "needs_no_work template \<longleftrightarrow> tag_open \<notin> set template \<and> CHR ''|'' \<notin> set template \<and> backslash \<notin> set template"

definition interpolate :: "('f, 'v) template_env \<Rightarrow> string \<Rightarrow> arg_map \<Rightarrow> string" where
  "interpolate env template args =
     (if a_positional args = [] \<and> a_named args = [] \<and> needs_no_work template then template
      else
        (let segments = split_pipeline template in
         if 1 < length segments \<and> list_all is_valid_transformer (tl segments)
         then unescape_bars
           (foldl (global_step env) (interpolate_with_depth env (unquoted (hd segments)) args 0) (tl segments))
         else unescape_bars (interpolate_with_depth env template args 0)))"

section \<open>Markers\<close>

definition contains_ai_markers :: "string \<Rightarrow> bool" where
  "contains_ai_markers s \<longleftrightarrow> ai_open \<in> set s"

text \<open>The content of the next marker and what follows it.\<close>

definition next_marker :: "string \<Rightarrow> (string \<times> string) option" where
  "next_marker s =
     (case dropWhile (\<lambda>c. c \<noteq> ai_open) s of
        [] \<Rightarrow> None
      | _ # after \<Rightarrow>
          (case dropWhile (\<lambda>c. c \<noteq> ai_close) after of
             [] \<Rightarrow> None
           | _ # rest \<Rightarrow> Some (takeWhile (\<lambda>c. c \<noteq> ai_close) after, rest)))"

lemma next_marker_shorter: "next_marker s = Some (content, rest) \<Longrightarrow> length rest < length s"
proof -
  assume marker: "next_marker s = Some (content, rest)"
  have shorter: "length (dropWhile P xs) \<le> length xs" for P and xs :: string by (induction xs) auto
  obtain c after where after: "dropWhile (\<lambda>c. c \<noteq> ai_open) s = c # after"
    using marker by (auto simp: next_marker_def split: list.split_asm)
  then obtain d where rest: "dropWhile (\<lambda>c. c \<noteq> ai_close) after = d # rest"
    using marker by (auto simp: next_marker_def split: list.split_asm)
  show ?thesis
    using shorter [of "\<lambda>c. c \<noteq> ai_open" s] shorter [of "\<lambda>c. c \<noteq> ai_close" after] after rest by simp
qed

function contains_non_sys_markers :: "string \<Rightarrow> bool" where
  "contains_non_sys_markers s =
     (case next_marker s of
        None \<Rightarrow> False
      | Some (content, rest) \<Rightarrow>
          (case split_once unit_separator content of
             Some (_, after) \<Rightarrow> if \<not> prefix ''sys:'' after then True else contains_non_sys_markers rest
           | None \<Rightarrow> True))"
  by pat_completeness auto
termination
  by (relation "measure length") (auto dest!: next_marker_shorter)

declare contains_non_sys_markers.simps [simp del]

function extract_ai_markers :: "string \<Rightarrow> (string \<times> string) list" where
  "extract_ai_markers s =
     (case next_marker s of
        None \<Rightarrow> []
      | Some (content, rest) \<Rightarrow>
          (case split_once unit_separator content of
             Some pair \<Rightarrow> pair # extract_ai_markers rest
           | None \<Rightarrow> extract_ai_markers rest))"
  by pat_completeness auto
termination
  by (relation "measure length") (auto dest!: next_marker_shorter)

declare extract_ai_markers.simps [simp del]

section \<open>Depth\<close>

text \<open>The recursion of the code: a level deeper for defaults and snippets, and the template itself at the
  bound.\<close>

lemma interpolate_with_depth_rec:
  "interpolate_with_depth env template args depth =
   (if max_interpolation_depth \<le> depth then template
    else interpolate_body env (\<lambda>t. interpolate_with_depth env t args (depth + 1)) args depth template)"
proof (cases "max_interpolation_depth \<le> depth")
  case False
  then obtain levels where levels: "max_interpolation_depth - depth = Suc levels"
    by (metis Suc_diff_Suc not_le)
  then have "levels = max_interpolation_depth - (depth + 1)" and "max_interpolation_depth - Suc levels = depth"
    using False by simp_all
  then show ?thesis
    using False unfolding interpolate_with_depth_def levels by (simp add: interpolate_with_depth_def)
qed (simp add: interpolate_with_depth_def)

section \<open>Text without tags\<close>

lemma scan_tag_bounds_plain: "tag_open \<notin> set s \<Longrightarrow> scan_tag_bounds s = []"
proof -
  assume plain: "tag_open \<notin> set s"
  have "scan_loop s ptr None [] [] = []" for ptr
  proof (induction "length s - ptr" arbitrary: ptr)
    case 0
    then show ?case by (simp add: scan_loop.simps [of s ptr])
  next
    case (Suc n)
    then have less: "ptr < length s" by simp
    then have "s ! ptr \<noteq> tag_open" using plain by (metis nth_mem)
    then show ?case using Suc less by (simp add: scan_loop.simps [of s ptr] Let_def)
  qed
  then show ?thesis by (simp add: scan_tag_bounds_def)
qed

lemma tag_loop_plain: "tag_open \<notin> set s \<Longrightarrow> tag_loop step iterations s = s"
  by (cases iterations) (simp_all add: scan_tag_bounds_plain)

lemma finalize_interpolation_id:
  "sentinel_open \<notin> set s \<Longrightarrow> sentinel_close \<notin> set s \<Longrightarrow> finalize_interpolation s = s"
  unfolding finalize_interpolation_def by (rule map_idI) auto

end
