(* ===== verification/Plan.thy ===== *)
theory Plan
  imports Interpolate
begin

text \<open>
  Execution plans, \<open>core/src/engine/variables/plan.rs\<close>: a template is compiled once into a list of operations
  and evaluated with the arguments of each expansion into the steps the injector carries out. At the end, the
  plan is compared with the other way the code expands a template, interpolation followed by the final pass.
\<close>

section \<open>Operations\<close>

datatype plan_op =
    Literal string
  | PositionalArg nat "string option" "string list"
  | NamedArg string "string option" "string list"
  | SystemVar string "string list"
  | QuotedLiteral string "string list"
  | UseSnippet string "string list"
  | CursorOp
  | KeyPressOp string
  | DelayOp "64 word"
  | MouseOp expansion_step
  | ImageOp expansion_step
  | InlineRunOp string "string list"
  | DynamicOp string

record execution_plan =
  ep_raw_template :: string
  ep_ops :: "plan_op list"
  ep_global_transformers :: "string list"
  ep_has_directive_steps :: bool
  ep_has_cursor :: bool

section \<open>Compilation\<close>

definition ends_in_literal :: "plan_op list \<Rightarrow> string option" where
  "ends_in_literal ops = (case rev ops of Literal t # _ \<Rightarrow> Some t | _ \<Rightarrow> None)"

definition push_literal :: "plan_op list \<Rightarrow> string \<Rightarrow> plan_op list" where
  "push_literal ops t =
     (case ends_in_literal ops of
        Some existing \<Rightarrow> butlast ops @ [Literal (existing @ t)] | None \<Rightarrow> ops @ [Literal t])"

definition push_unescaped :: "plan_op list \<Rightarrow> string \<Rightarrow> plan_op list" where
  "push_unescaped ops segment =
     (let t = unescape_segment cursor_tag segment in if t = [] then ops else push_literal ops t)"

text \<open>A tag without directive, script, nesting or snippet: quoted text, system variable or argument.\<close>

definition compile_reference :: "('f, 'v) template_env \<Rightarrow> string \<Rightarrow> plan_op list \<Rightarrow> plan_op list" where
  "compile_reference env inner ops =
     (let pipeline = split_pipeline inner; trs = tl pipeline; (key0, absent) = split_key_default (hd pipeline);
          key = unquoted key0
      in if unquote key0 \<noteq> None \<and> trs \<noteq> [] then ops @ [QuotedLiteral key trs]
         else if is_reserved key \<or> is_valid_call env key then ops @ [SystemVar key trs]
         else case parse_usize key of
           Some i \<Rightarrow> ops @ [PositionalArg i absent trs]
         | None \<Rightarrow>
             if no_brackets key then ops @ [NamedArg key absent trs]
             else push_literal ops (tag_open # inner @ [tag_close]))"

text \<open>The operations after a tag, and whether it is a timed directive.\<close>

definition compile_tag :: "('f, 'v) template_env \<Rightarrow> string \<Rightarrow> plan_op list \<Rightarrow> plan_op list \<times> bool" where
  "compile_tag env inner ops =
     (if inner = ''cursor'' then (ops @ [CursorOp], False)
      else case parse_key_directive inner of
        Some alias \<Rightarrow> (ops @ [KeyPressOp (str_to_lowercase alias)], True)
      | None \<Rightarrow>
          (case parse_delay_directive (tp_system env) inner of
             Some ms \<Rightarrow> (ops @ [DelayOp (word_of_nat ms)], True)
           | None \<Rightarrow>
               (case parse_mouse_directive inner of
                  Some s \<Rightarrow> (ops @ [MouseOp s], True)
                | None \<Rightarrow>
                    (case parse_img_directive (tp_system env) inner of
                       Some s \<Rightarrow> (ops @ [ImageOp s], True)
                     | None \<Rightarrow>
                         if prefix ''execute('' inner
                         then (ops @ [InlineRunOp (hd (split_pipeline inner)) (tl (split_pipeline inner))], True)
                         else if tag_open \<in> set inner
                         then (ops @ [DynamicOp (tag_open # inner @ [tag_close])], False)
                         else if prefix ''use('' inner \<and> suffix '')'' inner
                         then
                           (let pipeline = split_pipeline inner; base = hd pipeline;
                                trigger = (case parse_use_key base of Some t \<Rightarrow> t | None \<Rightarrow> base)
                            in (ops @ [UseSnippet trigger (tl pipeline)], False))
                         else (compile_reference env inner ops, False)))))"

function compile_loop ::
  "('f, 'v) template_env \<Rightarrow> string \<Rightarrow> nat \<Rightarrow> plan_op list \<Rightarrow> bool \<Rightarrow> bool \<Rightarrow> plan_op list \<times> bool \<times> bool" where
  "compile_loop env expr ptr ops timed cursor =
     (case find_next_tag expr ptr of
        None \<Rightarrow> (push_unescaped ops (drop ptr expr), timed, cursor)
      | Some tag \<Rightarrow>
          (let inner = tag_inner expr tag;
               (ops', is_timed) = compile_tag env inner (push_unescaped ops (slice expr ptr (tb_start tag)))
           in compile_loop env expr (tb_end tag + 1) ops' (timed \<or> is_timed) (cursor \<or> inner = ''cursor'')))"
  by pat_completeness auto
termination
  by (relation "measure (\<lambda>(env, expr, ptr, _). length expr - ptr)")
    (auto dest!: find_next_tag_less intro!: diff_less_mono2)

declare compile_loop.simps [simp del]

definition compile_ops :: "('f, 'v) template_env \<Rightarrow> string \<Rightarrow> plan_op list \<times> bool \<times> bool" where
  "compile_ops env expr = compile_loop env expr 0 [] False False"

definition compile :: "('f, 'v) template_env \<Rightarrow> string \<Rightarrow> execution_plan" where
  "compile env template =
     (if needs_no_work template
      then \<lparr>ep_raw_template = template, ep_ops = (if template = [] then [] else [Literal template]),
        ep_global_transformers = [], ep_has_directive_steps = False, ep_has_cursor = False\<rparr>
      else
        (let segments = split_pipeline template;
             global = 1 < length segments \<and> list_all is_valid_transformer (tl segments);
             (ops, timed, cursor) = compile_ops env (if global then unquoted (hd segments) else template)
         in \<lparr>ep_raw_template = template, ep_ops = ops,
              ep_global_transformers = (if global then tl segments else []),
              ep_has_directive_steps = timed, ep_has_cursor = cursor\<rparr>))"

section \<open>Rendering\<close>

definition with_transformers :: "string \<Rightarrow> string list \<Rightarrow> string" where
  "with_transformers inner trs =
     tag_open # (if trs = [] then inner else inner @ '' | '' @ join_with '' | '' trs) @ [tag_close]"

definition with_default :: "string \<Rightarrow> string option \<Rightarrow> string" where
  "with_default key absent = (case absent of Some dv \<Rightarrow> key @ ''='' @ dv | None \<Rightarrow> key)"

fun mouse_button_arg_name :: "mouse_button \<Rightarrow> string" where
  "mouse_button_arg_name MouseLeft = ''m1''"
| "mouse_button_arg_name MouseRight = ''m2''"
| "mouse_button_arg_name MouseMiddle = ''m3''"
| "mouse_button_arg_name Button4 = ''m4''"
| "mouse_button_arg_name Button5 = ''m5''"
| "mouse_button_arg_name (MouseOther n) = ''m'' @ show_nat (unat n)"

fun format_mouse_directive :: "expansion_step \<Rightarrow> string" where
  "format_mouse_directive (MouseClick b n) =
     (if n = 1 then ''[mouse(click, '' @ mouse_button_arg_name b @ '')]''
      else ''[mouse(click, '' @ mouse_button_arg_name b @ '', '' @ show_nat (unat n) @ '')]'')"
| "format_mouse_directive (MouseDown b) = ''[mouse(hold, '' @ mouse_button_arg_name b @ '')]''"
| "format_mouse_directive (MouseUp b) = ''[mouse(release, '' @ mouse_button_arg_name b @ '')]''"
| "format_mouse_directive (MouseMove x y) =
     ''[mouse(move, '' @ show_nat (unat x) @ '', '' @ show_nat (unat y) @ '')]''"
| "format_mouse_directive (MouseScroll d) = ''[mouse(scroll, '' @ show_int (sint d) @ '')]''"
| "format_mouse_directive _ = []"

text \<open>The second field of an image step is its media type; the code prints it as the path.\<close>

fun format_image_directive :: "expansion_step \<Rightarrow> string" where
  "format_image_directive (ImageStep bytes path) = ''[image('' @ path @ '')]''"
| "format_image_directive _ = []"

section \<open>Evaluation of text\<close>

text \<open>Bare positional arguments fill the named fields in template order.\<close>

fun bare_loop ::
  "plan_op list \<Rightarrow> arg_map \<Rightarrow> nat \<Rightarrow> (string \<times> string) list \<Rightarrow> (string \<times> string) list" where
  "bare_loop [] args pos found = found"
| "bare_loop (NamedArg name absent trs # ops) args pos found =
     (let lower = str_to_lowercase name in
      if find_named args name \<noteq> None \<or> map_of found lower \<noteq> None then bare_loop ops args pos found
      else if \<not> has_valid_default_value absent then bare_loop ops args pos found
      else case positional_at args pos of
        None \<Rightarrow> bare_loop ops args pos found
      | Some v \<Rightarrow> bare_loop ops args (pos + 1) (if v = [] then found else (lower, v) # found))"
| "bare_loop (oper # ops) args pos found = bare_loop ops args pos found"

definition build_bare_fallback :: "plan_op list \<Rightarrow> arg_map \<Rightarrow> (string \<times> string) list" where
  "build_bare_fallback ops args = bare_loop ops args 0 []"

definition default_text :: "('f, 'v) template_env \<Rightarrow> arg_map \<Rightarrow> string option \<Rightarrow> string option" where
  "default_text env args absent =
     (case absent of
        None \<Rightarrow> None
      | Some dv \<Rightarrow>
          if \<not> has_valid_default_value absent then None
          else if tag_open \<in> set (unquoted dv) then Some (interpolate env (unquoted dv) args)
          else Some (unquoted dv))"

fun evaluate_text_op ::
  "('f, 'v) template_env \<Rightarrow> arg_map \<Rightarrow> (string \<times> string) list \<Rightarrow> plan_op \<Rightarrow> string" where
  "evaluate_text_op env args bare (Literal t) = t"
| "evaluate_text_op env args bare (PositionalArg i absent trs) =
     (case or_else (positional_at args i)
             (or_else (map_of (a_named args) (show_nat i)) (default_text env args absent)) of
        Some v \<Rightarrow> apply_transformers env v trs
      | None \<Rightarrow> with_transformers (with_default (show_nat i) absent) trs)"
| "evaluate_text_op env args bare (NamedArg name absent trs) =
     (case or_else (find_named args name)
             (or_else (map_of bare (str_to_lowercase name)) (default_text env args absent)) of
        Some v \<Rightarrow> apply_transformers env v trs
      | None \<Rightarrow> with_transformers (with_default name absent) trs)"
| "evaluate_text_op env args bare (SystemVar key trs) =
     (case resolve_system_placeholder env key of
        Some v \<Rightarrow> apply_transformers env v trs | None \<Rightarrow> with_transformers key trs)"
| "evaluate_text_op env args bare (QuotedLiteral t trs) = apply_transformers env t trs"
| "evaluate_text_op env args bare (UseSnippet trigger trs) =
     apply_transformers env
       (resolve_cached_snippet env (\<lambda>raw. interpolate_with_depth env raw args 1) 0 trigger) trs"
| "evaluate_text_op env args bare (DynamicOp expr) = interpolate env expr args"
| "evaluate_text_op env args bare CursorOp = cursor_tag"
| "evaluate_text_op env args bare (KeyPressOp alias) = ''[key('' @ alias @ '')]''"
| "evaluate_text_op env args bare (DelayOp ms) = ''[delay('' @ show_nat (unat ms) @ ''ms)]''"
| "evaluate_text_op env args bare (MouseOp s) = format_mouse_directive s"
| "evaluate_text_op env args bare (ImageOp s) = format_image_directive s"
| "evaluate_text_op env args bare (InlineRunOp raw trs) = with_transformers raw trs"

section \<open>Evaluation\<close>

definition ai_expansion :: "string \<Rightarrow> final_expansion" where
  "ai_expansion t = \<lparr>fe_steps = [], fe_is_calculation = False, fe_ai_template = Some t\<rparr>"

definition text_steps :: "string \<Rightarrow> final_expansion" where
  "text_steps t = steps_expansion (if t = [] then [] else [TextStep t])"

definition evaluate_global ::
  "('f, 'v) template_env \<Rightarrow> arg_map \<Rightarrow> (string \<times> string) list \<Rightarrow> execution_plan \<Rightarrow> final_expansion" where
  "evaluate_global env args bare plan =
     (let base = concat (map (evaluate_text_op env args bare) (ep_ops plan));
          t = unescape_bars (apply_transformers env base (ep_global_transformers plan))
      in if contains_ai_markers t then ai_expansion t else text_steps t)"

text \<open>Text from an AI keeps every directive as text.\<close>

definition evaluate_ai ::
  "('f, 'v) template_env \<Rightarrow> arg_map \<Rightarrow> (string \<times> string) list \<Rightarrow> execution_plan \<Rightarrow> final_expansion" where
  "evaluate_ai env args bare plan = text_steps (concat (map (evaluate_text_op env args bare) (ep_ops plan)))"

definition has_late_directive :: "string \<Rightarrow> bool" where
  "has_late_directive t \<longleftrightarrow>
     contains t ''[key('' \<or> contains t ''[delay('' \<or> contains t ''[mouse('' \<or> contains t ''[execute('' \<or>
     contains t ''[image(''"

text \<open>The steps found in a text are added one by one; text waits in a buffer.\<close>

fun add_steps :: "expansion_step list \<Rightarrow> expansion_step list \<times> string \<Rightarrow> expansion_step list \<times> string" where
  "add_steps [] (steps, buf) = (steps, buf)"
| "add_steps (s # todo) (steps, buf) =
     (case text_of_step s of
        Some t \<Rightarrow> add_steps todo (steps, buf @ t)
      | None \<Rightarrow> add_steps todo (flush_text steps buf @ [s], []))"

definition script_steps :: "('f, 'v) template_env \<Rightarrow> string \<Rightarrow> string list \<Rightarrow> expansion_step list" where
  "script_steps env raw trs =
     (if \<not> sy_scripts_enabled (tp_system env) then []
      else case to_script_metadata (sy_execute (tp_system env)) raw of
        Some md \<Rightarrow> [InlineRun md trs] | None \<Rightarrow> [])"

definition late_steps :: "('f, 'v) template_env \<Rightarrow> string \<Rightarrow> expansion_step list" where
  "late_steps env t =
     (if has_late_directive t then fe_steps (finalize (tp_system env) t) else [TextStep t])"

definition timed_op ::
  "('f, 'v) template_env \<Rightarrow> arg_map \<Rightarrow> (string \<times> string) list \<Rightarrow> plan_op \<Rightarrow>
   expansion_step list \<times> string \<Rightarrow> expansion_step list \<times> string" where
  "timed_op env args bare oper state =
     (case state of (steps, buf) \<Rightarrow>
        (case oper of
           Literal t \<Rightarrow> (steps, buf @ t)
         | CursorOp \<Rightarrow> (steps, buf @ cursor_tag)
         | KeyPressOp alias \<Rightarrow> (flush_text steps buf @ [KeyPressStep (str_to_lowercase alias)], [])
         | DelayOp ms \<Rightarrow> (flush_text steps buf @ [DelayStep ms], [])
         | MouseOp s \<Rightarrow> (flush_text steps buf @ [s], [])
         | ImageOp s \<Rightarrow> (flush_text steps buf @ [s], [])
         | InlineRunOp raw trs \<Rightarrow> (flush_text steps buf @ script_steps env raw trs, [])
         | _ \<Rightarrow> add_steps (late_steps env (evaluate_text_op env args bare oper)) (steps, buf)))"

definition steps_text :: "expansion_step list \<Rightarrow> string" where
  "steps_text steps = concat (List.map_filter text_of_step steps)"

definition evaluate_timed ::
  "('f, 'v) template_env \<Rightarrow> arg_map \<Rightarrow> (string \<times> string) list \<Rightarrow> execution_plan \<Rightarrow> final_expansion" where
  "evaluate_timed env args bare plan =
     (case fold (timed_op env args bare) (ep_ops plan) ([], []) of
        (steps0, buf) \<Rightarrow>
          (let steps = flush_text steps0 buf in
           if \<exists>t\<in>set (List.map_filter text_of_step steps). contains_ai_markers t
           then ai_expansion (steps_text steps)
           else steps_expansion steps))"

text \<open>The text so far and the place of the first cursor.\<close>

definition plain_op ::
  "('f, 'v) template_env \<Rightarrow> arg_map \<Rightarrow> (string \<times> string) list \<Rightarrow> plan_op \<Rightarrow>
   string \<times> nat option \<Rightarrow> string \<times> nat option" where
  "plain_op env args bare oper state =
     (case state of (full, cursor) \<Rightarrow>
        (case oper of
           CursorOp \<Rightarrow> (full, if cursor = None then Some (length full) else cursor)
         | Literal t \<Rightarrow> (full @ t, cursor)
         | _ \<Rightarrow>
             (let t = evaluate_text_op env args bare oper in
              case find_str cursor_tag t of
                Some pos \<Rightarrow>
                  if cursor = None
                  then (full @ replace_all cursor_tag [] t, Some (length full + pos))
                  else (full @ t, cursor)
              | None \<Rightarrow> (full @ t, cursor))))"

definition left_presses :: "nat \<Rightarrow> expansion_step list" where
  "left_presses n = (if max_output_length < n then [] else replicate n (KeyPressStep ''left''))"

definition evaluate_plain ::
  "('f, 'v) template_env \<Rightarrow> arg_map \<Rightarrow> (string \<times> string) list \<Rightarrow> execution_plan \<Rightarrow> final_expansion" where
  "evaluate_plain env args bare plan =
     (case fold (plain_op env args bare) (ep_ops plan) ([], None) of
        (full, cursor) \<Rightarrow>
          if contains_ai_markers full then ai_expansion full
          else case cursor of
            None \<Rightarrow> text_steps full
          | Some pos \<Rightarrow>
              (let clean = replace_all cursor_tag [] full in
               steps_expansion
                 ((if clean = [] then [] else [TextStep clean]) @ left_presses (length clean - pos))))"

definition evaluate ::
  "('f, 'v) template_env \<Rightarrow> execution_plan \<Rightarrow> arg_map \<Rightarrow> expansion_origin \<Rightarrow> final_expansion" where
  "evaluate env plan args origin =
     (let bare = build_bare_fallback (ep_ops plan) args in
      if ep_global_transformers plan \<noteq> [] then evaluate_global env args bare plan
      else if origin = AiOrigin then evaluate_ai env args bare plan
      else if ep_has_directive_steps plan then evaluate_timed env args bare plan
      else evaluate_plain env args bare plan)"

end
