(* ===== verification/PlanEquivalence.thy ===== *)
theory PlanEquivalence
  imports Plan
begin

text \<open>
  The two ways of expanding a template agree: evaluating its compiled plan gives the steps that interpolation
  followed by the final pass gives. Templates are built from literal text, named arguments and cursors;
  \<open>render\<close> writes one, \<open>texts\<close> says what stands between its cursors.
\<close>

section \<open>Templates\<close>

datatype hole = Arg string | Cur

fun hole_name :: "hole \<Rightarrow> string" where
  "hole_name (Arg n) = n"
| "hole_name Cur = ''cursor''"

fun render :: "(string \<times> hole) list \<Rightarrow> string \<Rightarrow> string" where
  "render [] e = e"
| "render ((s, h) # ps) e = s @ tag_open # hole_name h @ tag_close # render ps e"

definition text_ok :: "string \<Rightarrow> bool" where
  "text_ok s \<longleftrightarrow> set s \<inter> {tag_open, backslash, CHR 0x00, sentinel_open, sentinel_close, ai_open} = {}"

definition plain_text :: "string \<Rightarrow> bool" where
  "plain_text s \<longleftrightarrow> tag_open \<notin> set s \<and> backslash \<notin> set s"

definition literal_ok :: "string \<Rightarrow> bool" where
  "literal_ok s \<longleftrightarrow> text_ok s \<and> CHR ''|'' \<notin> set s"

text \<open>A name of lower-case letters that is no system variable, and an argument for it.\<close>

definition name_ok :: "string \<Rightarrow> bool" where
  "name_ok n \<longleftrightarrow> n \<noteq> [] \<and> list_all is_ascii_lowercase n \<and> parse_system_call n = None"

definition arg_value :: "arg_map \<Rightarrow> string \<Rightarrow> string" where
  "arg_value args n = (case find_named args n of Some v \<Rightarrow> v | None \<Rightarrow> [])"

fun hole_ok :: "arg_map \<Rightarrow> hole \<Rightarrow> bool" where
  "hole_ok args (Arg n) \<longleftrightarrow> name_ok n \<and> find_named args n \<noteq> None \<and> text_ok (arg_value args n)"
| "hole_ok args Cur \<longleftrightarrow> True"

definition template_ok :: "arg_map \<Rightarrow> (string \<times> hole) list \<Rightarrow> string \<Rightarrow> bool" where
  "template_ok args ps e \<longleftrightarrow> (\<forall>(s, h)\<in>set ps. literal_ok s \<and> hole_ok args h) \<and> literal_ok e"

fun texts :: "arg_map \<Rightarrow> (string \<times> hole) list \<Rightarrow> string \<Rightarrow> string list" where
  "texts args [] e = [e]"
| "texts args ((s, Arg n) # ps) e = (s @ arg_value args n @ hd (texts args ps e)) # tl (texts args ps e)"
| "texts args ((s, Cur) # ps) e = s # texts args ps e"

text \<open>The text is typed as a whole, and the caret goes back to the first cursor.\<close>

definition expected :: "string list \<Rightarrow> final_expansion" where
  "expected xs =
     (if length xs = 1 then text_steps (hd xs)
      else steps_expansion
        ((if concat xs = [] then [] else [TextStep (concat xs)]) @ left_presses (length (concat (tl xs)))))"

section \<open>Names\<close>

lemma lowercase_plain:
  "is_ascii_lowercase c \<Longrightarrow>
   c \<notin> {tag_open, tag_close, backslash, CHR ''('', CHR '')'', CHR ''='', CHR ''|'', CHR '' '', CHR ''.'', CHR ''+'',
        sentinel_open, sentinel_close, ai_open, ai_close} \<and>
   \<not> is_quote c \<and> \<not> is_whitespace c \<and> \<not> is_ascii_digit c"
  by (auto simp: char_defs is_quote_def)

definition plain_name :: "string \<Rightarrow> bool" where
  "plain_name n \<longleftrightarrow> n \<noteq> [] \<and> list_all is_ascii_lowercase n"

lemma plain_name_chars:
  assumes "plain_name n" and "c \<in> set n"
  shows "c \<notin> {tag_open, tag_close, backslash, CHR ''('', CHR '')'', CHR ''='', CHR ''|'', CHR '' '', CHR ''.'', CHR ''+'',
        sentinel_open, sentinel_close, ai_open, ai_close} \<and>
   \<not> is_quote c \<and> \<not> is_whitespace c \<and> \<not> is_ascii_digit c"
  using assms lowercase_plain by (auto simp: plain_name_def list_all_iff)

lemma plain_name_hole: "hole_ok args h \<Longrightarrow> plain_name (hole_name h)"
proof (cases h)
  case Cur
  have "plain_name ''cursor''" by code_simp
  then show ?thesis using Cur by simp
qed (simp add: plain_name_def name_ok_def)

lemma plain_name_trim [simp]: "plain_name n \<Longrightarrow> str_trim n = n"
  using plain_name_chars by (intro str_trim_no_ws) blast

lemma plain_name_pipeline: "plain_name n \<Longrightarrow> split_pipeline n = [n]"
proof -
  assume plain: "plain_name n"
  then have "CHR ''|'' \<notin> set n" using plain_name_chars by blast
  then show ?thesis using plain by simp
qed

lemma plain_name_unquote: "plain_name n \<Longrightarrow> unquote n = None"
  using plain_name_chars [of n "hd n"] by (cases n) (auto simp: unquote_def plain_name_def)

lemma plain_name_unquoted: "plain_name n \<Longrightarrow> unquoted n = n"
  by (simp add: unquoted_def plain_name_unquote)

lemma plain_name_call: "plain_name n \<Longrightarrow> CHR ''('' \<in> set p \<Longrightarrow> \<not> prefix p n"
  using plain_name_chars set_mono_prefix by fastforce

lemma plain_name_call_args: "plain_name n \<Longrightarrow> call_args root n = None"
  using plain_name_call [of n "root @ ''(''"] by (simp add: call_args_def strip_prefix_def)

lemma plain_name_number: "plain_name n \<Longrightarrow> parse_usize n = None"
proof -
  assume plain: "plain_name n"
  then obtain c cs where n: "n = c # cs" by (cases n) (auto simp: plain_name_def)
  have "c \<noteq> CHR ''+''" and "\<not> is_ascii_digit c" using plain_name_chars [OF plain, of c] n by auto
  then show ?thesis using n by (simp add: parse_unsigned_def)
qed

lemma split_key_no_equals:
  assumes "plain_name n"
  shows "split_key_default n = (n, None)"
proof -
  have "split_key_loop n ptr 0 0 None = (n, None)" for ptr
  proof (induction "length n - ptr" arbitrary: ptr)
    case 0
    then show ?case by (simp add: split_key_loop.simps [of n ptr])
  next
    case (Suc m)
    then have less: "ptr < length n" by simp
    then have "n ! ptr \<in> set n" by simp
    note plain = plain_name_chars [OF assms this]
    show ?case using Suc less plain by (simp add: split_key_loop.simps [of n ptr] Let_def)
  qed
  then show ?thesis using assms by (simp add: split_key_default_def)
qed

section \<open>Scanning\<close>

lemma text_ok_plain: "text_ok s \<Longrightarrow> plain_text s"
  by (auto simp: text_ok_def plain_text_def)

lemma not_escaped: "backslash \<notin> set (take i bytes) \<Longrightarrow> i \<le> length bytes \<Longrightarrow> \<not> is_escaped bytes i"
proof -
  assume no: "backslash \<notin> set (take i bytes)" and i: "i \<le> length bytes"
  have "backslash_run bytes i = 0"
  proof (cases i)
    case (Suc j)
    then have "bytes ! j \<in> set (take i bytes)" using i by (metis Suc_le_lessD in_set_conv_nth length_take lessI min.absorb2 nth_take)
    then show ?thesis using Suc no by auto
  qed simp
  then show ?thesis by (simp add: is_escaped_def)
qed

lemma find_tag_text:
  assumes "backslash \<notin> set pre" and "plain_text s"
  shows "find_tag_loop (pre @ s @ post) (length pre) None 0 None =
    find_tag_loop (pre @ s @ post) (length pre + length s) None 0 None"
  using assms
proof (induction s arbitrary: pre)
  case (Cons c s)
  have "plain_text s" and c: "c \<noteq> tag_open" "c \<noteq> backslash" using Cons.prems(2) by (auto simp: plain_text_def)
  then have "find_tag_loop ((pre @ [c]) @ s @ post) (length (pre @ [c])) None 0 None =
      find_tag_loop ((pre @ [c]) @ s @ post) (length (pre @ [c]) + length s) None 0 None"
    using Cons.prems(1) by (intro Cons.IH) auto
  then show ?case using c by (simp add: find_tag_loop.simps [of _ "length pre"] Let_def)
qed simp

lemma find_tag_name:
  assumes "backslash \<notin> set pre" and "list_all is_ascii_lowercase n"
  shows "find_tag_loop (pre @ n @ tag_close # post) (length pre) (Some start) (Suc 0) None =
    Some \<lparr>tb_start = start, tb_end = length pre + length n\<rparr>"
  using assms
proof (induction n arbitrary: pre)
  case Nil
  have "\<not> is_escaped (pre @ tag_close # post) (length pre)" by (rule not_escaped) (use Nil in auto)
  then show ?case by (simp add: find_tag_loop.simps [of _ "length pre"] Let_def)
next
  case (Cons c n)
  note plain = lowercase_plain [of c]
  have "find_tag_loop ((pre @ [c]) @ n @ tag_close # post) (length (pre @ [c])) (Some start) (Suc 0) None =
      Some \<lparr>tb_start = start, tb_end = length (pre @ [c]) + length n\<rparr>"
    using Cons.prems plain by (intro Cons.IH) auto
  then show ?case using Cons.prems(2) plain by (simp add: find_tag_loop.simps [of _ "length pre"] Let_def)
qed

text \<open>The next tag after plain text, and its content.\<close>

lemma next_tag_found:
  assumes "backslash \<notin> set pre" and "plain_text s" and "plain_name n"
  shows "find_next_tag (pre @ s @ tag_open # n @ tag_close # post) (length pre) =
    Some \<lparr>tb_start = length pre + length s, tb_end = length pre + length s + length n + 1\<rparr>"
proof -
  let ?all = "pre @ s @ tag_open # n @ tag_close # post"
  have s: "backslash \<notin> set s" using assms(2) by (auto simp: plain_text_def)
  have open_plain: "\<not> is_escaped ?all (length pre + length s)"
    by (rule not_escaped) (use assms(1) s in auto)
  have tail: "?all = (pre @ s @ [tag_open]) @ n @ tag_close # post" by simp
  have "find_next_tag ?all (length pre) = find_tag_loop ?all (length pre + length s) None 0 None"
    using find_tag_text [OF assms(1,2)] by (simp add: find_next_tag_def)
  also have "\<dots> = find_tag_loop ?all (length pre + length s + 1) (Some (length pre + length s)) (Suc 0) None"
    using open_plain by (simp add: find_tag_loop.simps [of ?all "length pre + length s"] nth_append Let_def is_quote_def)
  also have "\<dots> = Some \<lparr>tb_start = length pre + length s, tb_end = length pre + length s + length n + 1\<rparr>"
    using find_tag_name [of "pre @ s @ [tag_open]" n post "length pre + length s"] assms(1,3) s
    by (simp add: plain_name_def)
  finally show ?thesis .
qed

lemma next_tag_none: "backslash \<notin> set pre \<Longrightarrow> plain_text s \<Longrightarrow> find_next_tag (pre @ s) (length pre) = None"
  using find_tag_text [of pre s "[]"]
  by (simp add: find_next_tag_def find_tag_loop.simps [of "pre @ s" "length pre + length s"])

lemma slice_append: "slice (pre @ s @ post) (length pre) (length pre + length s) = s"
  by (simp add: slice_def)

lemma tag_inner_found:
  assumes "plain_name n"
  shows "tag_inner (pre @ s @ tag_open # n @ tag_close # post)
    \<lparr>tb_start = length pre + length s, tb_end = length pre + length s + length n + 1\<rparr> = n"
  using assms slice_append [of "pre @ s @ [tag_open]" n "tag_close # post"]
  by (simp add: tag_inner_def add.commute add.left_commute)

lemma scan_text:
  assumes "backslash \<notin> set pre" and "plain_text s"
  shows "scan_loop (pre @ s @ post) (length pre) None [] tags = scan_loop (pre @ s @ post) (length pre + length s) None [] tags"
  using assms
proof (induction s arbitrary: pre)
  case (Cons c s)
  have "plain_text s" and c: "c \<noteq> tag_open" "c \<noteq> backslash" using Cons.prems(2) by (auto simp: plain_text_def)
  then have "scan_loop ((pre @ [c]) @ s @ post) (length (pre @ [c])) None [] tags =
      scan_loop ((pre @ [c]) @ s @ post) (length (pre @ [c]) + length s) None [] tags"
    using Cons.prems(1) by (intro Cons.IH) auto
  then show ?case using c by (cases "c = tag_close") (simp_all add: scan_loop.simps [of _ "length pre"] Let_def)
qed simp

lemma scan_name:
  assumes "backslash \<notin> set pre" and "list_all is_ascii_lowercase n"
  shows "scan_loop (pre @ n @ tag_close # post) (length pre) None [start] tags =
    scan_loop (pre @ n @ tag_close # post) (length pre + length n + 1) None []
      (tags @ [\<lparr>tb_start = start, tb_end = length pre + length n\<rparr>])"
  using assms
proof (induction n arbitrary: pre)
  case Nil
  have "\<not> is_escaped (pre @ tag_close # post) (length pre)" by (rule not_escaped) (use Nil in auto)
  then show ?case by (simp add: scan_loop.simps [of _ "length pre"] Let_def)
next
  case (Cons c n)
  note plain = lowercase_plain [of c]
  have "scan_loop ((pre @ [c]) @ n @ tag_close # post) (length (pre @ [c])) None [start] tags =
      scan_loop ((pre @ [c]) @ n @ tag_close # post) (length (pre @ [c]) + length n + 1) None []
        (tags @ [\<lparr>tb_start = start, tb_end = length (pre @ [c]) + length n\<rparr>])"
    using Cons.prems plain by (intro Cons.IH) auto
  then show ?case using Cons.prems(2) plain by (simp add: scan_loop.simps [of _ "length pre"] Let_def)
qed

lemma scan_tag:
  assumes "backslash \<notin> set pre" and "plain_text s" and "plain_name n"
  shows "scan_loop (pre @ s @ tag_open # n @ tag_close # post) (length pre) None [] tags =
    scan_loop (pre @ s @ tag_open # n @ tag_close # post) (length pre + length s + length n + 2) None []
      (tags @ [\<lparr>tb_start = length pre + length s, tb_end = length pre + length s + length n + 1\<rparr>])"
proof -
  let ?all = "pre @ s @ tag_open # n @ tag_close # post"
  have s: "backslash \<notin> set s" using assms(2) by (auto simp: plain_text_def)
  have open_plain: "\<not> is_escaped ?all (length pre + length s)"
    by (rule not_escaped) (use assms(1) s in auto)
  have "scan_loop ?all (length pre) None [] tags = scan_loop ?all (length pre + length s) None [] tags"
    by (rule scan_text [OF assms(1,2)])
  also have "\<dots> = scan_loop ?all (length pre + length s + 1) None [length pre + length s] tags"
    using open_plain by (simp add: scan_loop.simps [of ?all "length pre + length s"] nth_append Let_def is_quote_def)
  also have "\<dots> = scan_loop ?all (length pre + length s + length n + 2) None []
      (tags @ [\<lparr>tb_start = length pre + length s, tb_end = length pre + length s + length n + 1\<rparr>])"
    using scan_name [of "pre @ s @ [tag_open]" n post "length pre + length s" tags] assms(1,3) s
    by (simp add: plain_name_def)
  finally show ?thesis .
qed

section \<open>The tags of a template\<close>

fun tags_of :: "nat \<Rightarrow> (string \<times> hole) list \<Rightarrow> tag_bounds list" where
  "tags_of k [] = []"
| "tags_of k ((s, h) # ps) =
     \<lparr>tb_start = k + length s, tb_end = k + length s + length (hole_name h) + 1\<rparr> #
     tags_of (k + length s + length (hole_name h) + 2) ps"

lemma template_ok_Cons:
  "template_ok args ((s, h) # ps) e \<longleftrightarrow> literal_ok s \<and> hole_ok args h \<and> template_ok args ps e"
  by (auto simp: template_ok_def)

lemma plain_name_no_backslash: "plain_name n \<Longrightarrow> backslash \<notin> set n"
  using plain_name_chars by blast

lemma scan_template:
  "template_ok args ps e \<Longrightarrow> backslash \<notin> set pre \<Longrightarrow>
   scan_loop (pre @ render ps e) (length pre) None [] tags = tags @ tags_of (length pre) ps"
proof (induction ps arbitrary: pre tags)
  case Nil
  then show ?case
    using scan_text [of pre e "[]" tags]
    by (simp add: template_ok_def literal_ok_def text_ok_plain scan_loop.simps [of "pre @ e" "length pre + length e"])
next
  case (Cons p ps)
  obtain s h where p: "p = (s, h)" by (cases p)
  let ?n = "hole_name h" and ?pre = "pre @ s @ tag_open # hole_name h @ [tag_close]"
  have ok: "plain_text s" "hole_ok args h" "template_ok args ps e"
    using Cons.prems(1) by (auto simp: p template_ok_Cons literal_ok_def text_ok_plain)
  note name = plain_name_hole [OF ok(2)]
  have "backslash \<notin> set ?pre" using Cons.prems(2) ok(1) plain_name_no_backslash [OF name] by (auto simp: plain_text_def)
  note rest = Cons.IH [OF ok(3) this]
  show ?case
    using scan_tag [OF Cons.prems(2) ok(1) name, of "render ps e" tags] rest
    by (simp add: p add.commute add.left_commute)
qed

lemma tags_of_inner:
  "template_ok args ps e \<Longrightarrow> tag \<in> set (tags_of (length pre) ps) \<Longrightarrow> plain_name (tag_inner (pre @ render ps e) tag)"
proof (induction ps arbitrary: pre)
  case (Cons p ps)
  obtain s h where p: "p = (s, h)" by (cases p)
  have ok: "hole_ok args h" "template_ok args ps e" using Cons.prems(1) by (auto simp: p template_ok_Cons)
  note name = plain_name_hole [OF ok(1)]
  let ?pre = "pre @ s @ tag_open # hole_name h @ [tag_close]"
  show ?case
  proof (cases "tag \<in> set (tags_of (length ?pre) ps)")
    case True
    then show ?thesis using Cons.IH [OF ok(2) True] by (simp add: p)
  next
    case False
    then have "tag = \<lparr>tb_start = length pre + length s, tb_end = length pre + length s + length (hole_name h) + 1\<rparr>"
      using Cons.prems(2) by (auto simp: p add.commute add.left_commute)
    then show ?thesis using tag_inner_found [OF name, of pre s "render ps e"] name by (simp add: p)
  qed
qed simp

section \<open>Interpolation\<close>

lemma no_placeholders:
  assumes "template_ok args ps e"
  shows "extract_placeholders (render ps e) = []"
proof -
  have none: "add_placeholder (render ps e) [] tag = []" if "tag \<in> set (tags_of 0 ps)" for tag
    using tags_of_inner [OF assms, of tag "[]"] that
    by (simp add: add_placeholder_def plain_name_pipeline split_key_no_equals has_valid_default_value_def)
  have "foldl (add_placeholder (render ps e)) [] tags = []" if "set tags \<subseteq> set (tags_of 0 ps)" for tags
    using that none by (induction tags) auto
  moreover have "scan_tag_bounds (render ps e) = tags_of 0 ps"
    using scan_template [OF assms, of "[]" "[]"] by (simp add: scan_tag_bounds_def)
  ultimately show ?thesis by (simp add: extract_placeholders_def)
qed

lemma name_not_root: "plain_name n \<Longrightarrow> parse_system_call n = None \<Longrightarrow> n \<notin> set system_roots"
proof -
  assume plain: "plain_name n" and none: "parse_system_call n = None"
  have "CHR ''('' \<notin> set n" and "CHR ''.'' \<notin> set n" and "n \<noteq> []"
    using plain plain_name_chars by (auto simp: plain_name_def)
  moreover have "str_to_ascii_lowercase n = n"
    using plain by (auto simp: plain_name_def list_all_iff str_to_ascii_lowercase_def to_ascii_lowercase_def char_defs intro!: map_idI)
  moreover have "takeWhile (\<lambda>c. c \<noteq> CHR ''.'') n = n" using calculation(2) by (auto simp: takeWhile_eq_all_conv)
  then have "extract_root n = n" using plain by (simp only: extract_root_def plain_name_trim)
  ultimately show ?thesis
    using none plain by (simp add: parse_system_call_def plain_name_pipeline known_root_def Let_def split: if_split_asm)
qed

lemma resolve_root_plain:
  "plain_name n \<Longrightarrow> n \<notin> set roots \<Longrightarrow> n \<noteq> ''clip'' \<Longrightarrow> resolve_root sys roots n = None"
proof (induction roots)
  case Nil
  have "\<not> prefix ''clip('' n" by (rule plain_name_call) (use Nil in auto)
  then show ?case using Nil by simp
qed (simp add: plain_name_call_args)

lemma name_not_system:
  assumes "name_ok n"
  shows "resolve_system_placeholder env n = None"
proof -
  have plain: "plain_name n" using assms by (simp add: name_ok_def plain_name_def)
  have root: "n \<notin> set system_roots" using name_not_root plain assms by (simp add: name_ok_def)
  have "\<not> prefix ''http('' n" by (rule plain_name_call [OF plain]) simp
  then have "\<not> is_deferred n"
    using root plain by (simp add: is_deferred_def plain_name_call_args system_roots_def)
  moreover have "resolve (tp_system env) n = None"
    using root by (simp add: resolve_def system_roots_def resolve_root_plain [OF plain] del: resolve_root.simps)
  ultimately show ?thesis by (simp add: resolve_system_placeholder_def)
qed

lemma argument_resolved:
  assumes "hole_ok args (Arg n)"
  shows "resolve_tag env inner args depth [] n = arg_value args n"
proof -
  have name: "name_ok n" and v: "find_named args n = Some (arg_value args n)"
    using assms by (auto simp: arg_value_def)
  then have plain: "plain_name n" and call: "parse_system_call n = None" by (simp_all add: name_ok_def plain_name_def)
  have "\<not> prefix ''use('' n" by (rule plain_name_call [OF plain]) simp
  moreover have "\<not> prefix [ai_open] n" using plain_name_chars [OF plain] set_mono_prefix by fastforce
  moreover have ref: "is_valid_user_reference env n None args"
    using v call plain by (simp add: is_valid_user_reference_def is_valid_call_def plain_name_unquoted plain_name_number)
  ultimately have "base_resolved env inner args depth [] n None [] = Some (arg_value args n)"
    using v plain
    by (simp add: name_not_system [OF name] base_resolved_def resolve_user_placeholder_def plain_name_unquoted plain_name_number Let_def)
  then show ?thesis
    using plain by (simp add: resolve_tag_def plain_name_pipeline split_key_no_equals apply_transformers_def)
qed

lemma cursor_accepted: "accepted (validate_system_call env ''cursor'' [])"
proof -
  have "str_trim ''cursor'' = ''cursor''" "str_to_ascii_lowercase ''cursor'' = ''cursor''" "str_trim [] = []"
    and "bind_call ''cursor'' [] [] = Inr \<lparr>b_positional = [], b_named = []\<rparr>" by code_simp+
  moreover have "find_spec ''cursor'' = Some \<lparr>ns_name = ''cursor'', ns_params = [], ns_variadic = False\<rparr>"
    by (simp add: find_spec_def ns_specs_def)
  ultimately show ?thesis
    by (simp add: validate_system_call_def validate_bound_def validate_value_args_def accepted_iff Let_def)
qed

lemma cursor_resolved: "resolve_tag env inner args depth [] ''cursor'' = sentinel_open # ''cursor'' @ [sentinel_close]"
proof -
  have plain: "plain_name ''cursor''" and call: "parse_system_call ''cursor'' = Some (''cursor'', [])" by code_simp+
  have reserved: "is_reserved ''cursor''" and deferred: "\<not> is_deferred ''cursor''"
    and low: "str_to_lowercase ''cursor'' = ''cursor''" by code_simp+
  have none: "resolve_system_placeholder env ''cursor'' = None"
    using deferred by (simp add: resolve_system_placeholder_def resolve_def resolve_root_plain [OF plain] del: resolve_root.simps)
  have "\<not> is_valid_user_reference env ''cursor'' None args"
    using call plain by (simp add: is_valid_user_reference_def is_valid_call_def plain_name_unquoted cursor_accepted)
  then have "base_resolved env inner args depth [] ''cursor'' None [] = None"
    using none plain by (simp add: base_resolved_def plain_name_unquoted plain_name_unquote prefix_def Let_def is_ascii_digit_def)
  then show ?thesis
    using plain by (simp add: resolve_tag_def plain_name_pipeline split_key_no_equals plain_name_unquoted is_directive_def)
qed

section \<open>The loop of interpolation\<close>

fun hole_mark :: "arg_map \<Rightarrow> hole \<Rightarrow> string" where
  "hole_mark args (Arg n) = arg_value args n"
| "hole_mark args Cur = sentinel_open # ''cursor'' @ [sentinel_close]"

fun marked :: "arg_map \<Rightarrow> (string \<times> hole) list \<Rightarrow> string \<Rightarrow> string" where
  "marked args [] e = e"
| "marked args ((s, h) # ps) e = s @ hole_mark args h @ marked args ps e"

lemma hole_mark_plain: "hole_ok args h \<Longrightarrow> plain_text (hole_mark args h)"
  by (cases h) (auto simp: text_ok_plain, simp add: plain_text_def)

lemma plain_text_append [simp]: "plain_text (s @ t) \<longleftrightarrow> plain_text s \<and> plain_text t"
  by (auto simp: plain_text_def)

lemma tag_loop_template:
  "template_ok args ps e \<Longrightarrow> plain_text pre \<Longrightarrow> length ps \<le> k \<Longrightarrow>
   tag_loop (resolve_tag env inner args depth []) k (pre @ render ps e) = pre @ marked args ps e"
proof (induction ps arbitrary: pre k)
  case Nil
  then have "tag_open \<notin> set (pre @ e)"
    by (auto simp: template_ok_def literal_ok_def text_ok_def plain_text_def)
  then show ?case by (simp add: tag_loop_plain)
next
  case (Cons p ps)
  obtain s h where p: "p = (s, h)" by (cases p)
  obtain j where k: "k = Suc j" "length ps \<le> j" using Cons.prems(3) by (cases k) auto
  let ?n = "hole_name h" and ?step = "resolve_tag env inner args depth []"
  have ok: "plain_text s" "hole_ok args h" "template_ok args ps e"
    using Cons.prems(1) by (auto simp: p template_ok_Cons literal_ok_def text_ok_plain)
  note name = plain_name_hole [OF ok(2)]
  let ?all = "pre @ s @ tag_open # ?n @ tag_close # render ps e"
  let ?tag = "\<lparr>tb_start = length pre + length s, tb_end = length pre + length s + length ?n + 1\<rparr>"
  have all: "pre @ render (p # ps) e = ?all" by (simp add: p)
  have "scan_tag_bounds ?all = tags_of (length pre) (p # ps)"
    using scan_text [of "[]" pre "render (p # ps) e" "[]"] scan_template [OF Cons.prems(1), of pre "[]"] Cons.prems(2)
    by (simp add: scan_tag_bounds_def plain_text_def p)
  then have scan: "scan_tag_bounds ?all = ?tag # tags_of (length pre + length s + length ?n + 2) ps" by (simp add: p)
  have "?step ?n = hole_mark args h"
    using ok(2) argument_resolved cursor_resolved by (cases h) simp_all
  moreover have "take (length pre + length s) ?all = pre @ s"
    and "drop (length pre + length s + length ?n + 2) ?all = render ps e" by simp_all
  ultimately have "tag_loop ?step k ?all = tag_loop ?step j ((pre @ s @ hole_mark args h) @ render ps e)"
    using tag_inner_found [OF name, of pre s "render ps e"] scan k(1) by simp
  also have "\<dots> = (pre @ s @ hole_mark args h) @ marked args ps e"
    using Cons.prems(2) ok k(2) hole_mark_plain by (intro Cons.IH) simp_all
  finally show ?case unfolding all by (simp add: p)
qed

lemma texts_nonempty [simp]: "texts args ps e \<noteq> []"
  by (induction args ps e rule: texts.induct) auto

lemma finalize_text: "text_ok s \<Longrightarrow> finalize_interpolation (s @ t) = s @ finalize_interpolation t"
  using finalize_interpolation_id [of s] by (auto simp: text_ok_def finalize_interpolation_def)

lemma finalize_marked:
  "template_ok args ps e \<Longrightarrow> finalize_interpolation (marked args ps e) = join_with cursor_tag (texts args ps e)"
proof (induction ps)
  case Nil
  then show ?case using finalize_text [of e "[]"] by (simp add: template_ok_def literal_ok_def finalize_interpolation_def)
next
  case (Cons p ps)
  obtain s h where p: "p = (s, h)" by (cases p)
  obtain x xs where xs: "texts args ps e = x # xs" by (cases "texts args ps e") auto
  have ok: "text_ok s" "hole_ok args h" "template_ok args ps e"
    using Cons.prems by (auto simp: p template_ok_Cons literal_ok_def)
  note rest = Cons.IH [OF ok(3), unfolded xs]
  show ?case
  proof (cases h)
    case (Arg n)
    then show ?thesis
      using ok rest xs by (cases xs) (simp_all add: p finalize_text)
  next
    case Cur
    have "finalize_interpolation (sentinel_open # ''cursor'' @ sentinel_close # t) = cursor_tag @ finalize_interpolation t" for t
      by (simp add: finalize_interpolation_def cursor_tag_def)
    then show ?thesis using ok rest xs Cur by (simp add: p finalize_text)
  qed
qed

lemma texts_ok: "template_ok args ps e \<Longrightarrow> \<forall>x\<in>set (texts args ps e). text_ok x"
proof (induction args ps e rule: texts.induct)
  case (2 args s n ps e)
  then have "text_ok (s @ arg_value args n @ hd (texts args ps e))"
    using hd_in_set [OF texts_nonempty, of args ps e]
    by (auto simp: template_ok_Cons literal_ok_def text_ok_def)
  then show ?case using 2 by (auto simp: template_ok_Cons dest: list.set_sel(2) [OF texts_nonempty])
next
  case (1 args e)
  then show ?case by (simp add: template_ok_def literal_ok_def)
next
  case (3 args s ps e)
  then show ?case by (simp add: template_ok_Cons literal_ok_def)
qed

lemma render_no_bar: "template_ok args ps e \<Longrightarrow> CHR ''|'' \<notin> set (render ps e)"
proof (induction ps)
  case (Cons p ps)
  obtain s h where p: "p = (s, h)" by (cases p)
  have "hole_ok args h" using Cons.prems by (simp add: p template_ok_Cons)
  then have "CHR ''|'' \<notin> set (hole_name h)" using plain_name_chars [OF plain_name_hole] by blast
  then show ?case using Cons by (auto simp: p template_ok_Cons literal_ok_def)
qed (simp add: template_ok_def literal_ok_def)

lemma unescape_bars_id: "backslash \<notin> set s \<Longrightarrow> unescape_bars s = s"
  unfolding unescape_bars_def by (rule replace_all_id) simp_all

lemma join_set: "set (join_with d xs) \<subseteq> set d \<union> (\<Union>x\<in>set xs. set x)"
  by (induction d xs rule: join_with.induct) auto

lemma join_no_backslash: "\<forall>x\<in>set xs. text_ok x \<Longrightarrow> backslash \<notin> set (join_with cursor_tag xs)"
  using join_set [of cursor_tag xs] by (fastforce simp: text_ok_def cursor_tag_def)

lemma interpolate_template:
  assumes "template_ok args ps e" and "length ps \<le> max_iterations"
  shows "interpolate env (render ps e) args = join_with cursor_tag (texts args ps e)"
proof -
  have loop: "tag_loop (resolve_tag env inner args depth []) max_iterations (render ps e) = marked args ps e" for inner depth
    using tag_loop_template [OF assms(1), of "[]" max_iterations env inner depth] assms(2) by (simp add: plain_text_def)
  have "interpolate_with_depth env (render ps e) args 0 = join_with cursor_tag (texts args ps e)"
    by (simp add: interpolate_with_depth_rec [of env _ args 0] max_interpolation_depth_def interpolate_body_def
        no_placeholders [OF assms(1)] loop finalize_marked [OF assms(1)])
  moreover have "unescape_bars (join_with cursor_tag (texts args ps e)) = join_with cursor_tag (texts args ps e)"
    using texts_ok [OF assms(1)] by (intro unescape_bars_id join_no_backslash)
  moreover have "split_pipeline (render ps e) = [str_trim (render ps e)]"
    using render_no_bar [OF assms(1)] by simp
  moreover have "render ps e = join_with cursor_tag (texts args ps e)" if "needs_no_work (render ps e)"
    using that by (cases ps) (auto simp: needs_no_work_def)
  ultimately show ?thesis by (auto simp: interpolate_def)
qed

section \<open>The final pass\<close>

lemma unescape_plain: "backslash \<notin> set s \<Longrightarrow> unescape_segment cursor s = s"
  by (induction s) (auto simp: unescape_segment.simps(2))

text \<open>A text whose only tags are cursors is a template of cursors.\<close>

definition cursors :: "string list \<Rightarrow> (string \<times> hole) list" where
  "cursors xs = map (\<lambda>x. (x, Cur)) xs"

lemma join_cursors: "xs \<noteq> [] \<Longrightarrow> join_with cursor_tag xs = render (cursors (butlast xs)) (last xs)"
  by (induction cursor_tag xs rule: join_with.induct) (simp_all add: cursors_def cursor_tag_def)

lemma plain_name_cursor: "plain_name ''cursor''"
  by code_simp

lemma not_timed: "\<not> tag_is_timed sys ''cursor''"
  using plain_name_call_args [OF plain_name_cursor]
  by (simp add: tag_is_timed_def parse_key_directive_def parse_delay_directive_def parse_mouse_directive_def)

lemma cursor_is_literal: "tag_effect sys ''cursor'' = EffectLiteral"
proof -
  note no_args = plain_name_call_args [OF plain_name_cursor]
  have "\<not> prefix ''execute('' ''cursor''" by (rule plain_name_call [OF plain_name_cursor]) simp
  then show ?thesis
    using plain_name_pipeline [OF plain_name_cursor]
    by (simp add: tag_effect_def strip_execute_args_def strip_prefix_def no_args parse_key_directive_def
        parse_delay_directive_def parse_mouse_directive_def parse_img_directive_def)
qed

lemma split_cursors:
  "\<forall>x\<in>set xs. plain_text x \<Longrightarrow> plain_text e \<Longrightarrow> backslash \<notin> set pre \<Longrightarrow>
   split_steps_loop sys UserOrigin (pre @ render (cursors xs) e) (length pre) [] current =
     flush_text [] (current @ render (cursors xs) e) \<and>
   \<not> contains_directives_from sys (pre @ render (cursors xs) e) (length pre)"
proof (induction xs arbitrary: pre current)
  case Nil
  then show ?case
    by (simp add: cursors_def split_steps_loop.simps [of sys _ _ "length pre"] contains_directives_from.simps [of sys _ "length pre"]
        next_tag_none append_unescaped_segment_def unescape_plain plain_text_def)
next
  case (Cons x xs)
  let ?all = "pre @ x @ tag_open # ''cursor'' @ tag_close # render (cursors xs) e"
  let ?pre = "pre @ x @ cursor_tag"
  have x: "plain_text x" using Cons.prems(1) by simp
  have all: "pre @ render (cursors (x # xs)) e = ?all" by (simp add: cursors_def)
  have eq: "?all = ?pre @ render (cursors xs) e" by (simp add: cursor_tag_def)
  have bs: "backslash \<notin> set ?pre" using Cons.prems(3) x by (auto simp: plain_text_def cursor_tag_def)
  have rest: "\<forall>x\<in>set xs. plain_text x" using Cons.prems(1) by simp
  note IH = Cons.IH [OF rest Cons.prems(2) bs, folded eq]
  note tag = next_tag_found [OF Cons.prems(3) x plain_name_cursor, of "render (cursors xs) e"]
  note inner = tag_inner_found [OF plain_name_cursor, of pre x "render (cursors xs) e"]
  have segment: "slice ?all (length pre) (length pre + length x) = x"
    by (simp add: slice_def)
  have bracket: "slice (pre @ x @ tag_open # ''cursor'' @ tag_close # r) (length pre + length x) k = cursor_tag"
    if "k = length pre + length x + 8" for k r
    using that by (simp add: slice_def cursor_tag_def)
  have len: "length pre + length x + 6 + 1 + 1 = length ?pre" by (simp add: cursor_tag_def)
  show ?case
    unfolding all
    using tag inner IH segment x cursor_is_literal [of sys] not_timed [of sys] len
    by (simp add: bracket [simplified] split_steps_loop.simps [of sys _ _ "length pre"] contains_directives_from.simps [of sys _ "length pre"]
        append_unescaped_segment_def unescape_plain plain_text_def cursors_def cursor_tag_def Let_def)
qed

lemma find_cursor: "tag_open \<notin> set x \<Longrightarrow> find_str cursor_tag (x @ cursor_tag @ rest) = Some (length x)"
  by (induction x) (auto simp: cursor_tag_def prefix_Cons)

lemma replace_cursor_text: "tag_open \<notin> set x \<Longrightarrow> replace_all cursor_tag [] (x @ rest) = x @ replace_all cursor_tag [] rest"
  by (induction x) (auto simp: cursor_tag_def prefix_Cons)

lemma remove_cursors: "\<forall>x\<in>set xs. tag_open \<notin> set x \<Longrightarrow> replace_all cursor_tag [] (join_with cursor_tag xs) = concat xs"
proof (induction cursor_tag xs rule: join_with.induct)
  case (2 x)
  then show ?case using replace_cursor_text [of x "[]"] by simp
next
  case (3 x y xs)
  have "replace_all cursor_tag [] (cursor_tag @ t) = replace_all cursor_tag [] t" for t
    by (simp add: cursor_tag_def)
  then show ?case using 3 by (simp add: replace_cursor_text)
qed simp

lemma no_cursor_sentinel: "CHR 0x00 \<notin> set s \<Longrightarrow> replace_all escaped_cursor_sentinel cursor_tag s = s"
  by (rule replace_all_id) (simp_all add: escaped_cursor_sentinel_def)

lemma finalize_texts:
  assumes "xs \<noteq> []" and ok: "\<forall>x\<in>set xs. text_ok x"
  shows "finalize sys (join_with cursor_tag xs) = expected xs"
proof (cases "length xs = 1")
  case True
  then obtain x where xs: "xs = [x]" by (auto simp: length_Suc_conv)
  then have "tag_open \<notin> set x" "backslash \<notin> set x" using ok by (auto simp: text_ok_def)
  then show ?thesis by (simp add: xs expected_def finalize_def finalize_with_origin_def text_steps_def)
next
  case False
  then obtain x y ys where xs: "xs = x # y # ys" using assms(1) by (metis length_Cons list.exhaust list.size(3) One_nat_def)
  let ?t = "join_with cursor_tag xs"
  have plain: "\<forall>x\<in>set (butlast xs). plain_text x" "plain_text (last xs)"
    using ok last_in_set [OF assms(1)] by (auto dest: in_set_butlastD intro: text_ok_plain)
  have t: "?t = x @ cursor_tag @ join_with cursor_tag (y # ys)" by (simp add: xs)
  then have tag: "tag_open \<in> set ?t" and nonempty: "?t \<noteq> []" by (simp_all add: cursor_tag_def)
  have split: "split_into_steps sys ?t UserOrigin = [TextStep ?t]" "\<not> contains_key_or_delay_directives sys ?t"
    using split_cursors [OF plain, of "[]" sys "[]"] nonempty
    by (simp_all add: join_cursors [OF assms(1)] split_into_steps_def contains_key_or_delay_directives_def flush_text_def)
  have x: "tag_open \<notin> set x" using ok by (auto simp: xs text_ok_def)
  have found: "find_str cursor_tag ?t = Some (length x)" unfolding t using x by (rule find_cursor)
  have clean: "replace_all cursor_tag [] ?t = concat xs"
    using ok by (intro remove_cursors) (auto simp: text_ok_def)
  have "replace_all escaped_cursor_sentinel cursor_tag (concat xs) = concat xs"
    using ok by (intro no_cursor_sentinel) (auto simp: text_ok_def)
  then have "apply_cursor_positioning [TextStep ?t] =
      (if concat xs = [] then [] else [TextStep (concat xs)]) @ left_presses (length (concat xs) - length x)"
    using found clean by (simp add: apply_cursor_positioning_def left_presses_def map_filter_simps Let_def)
  then show ?thesis
    using split tag by (simp add: finalize_def finalize_with_origin_def expected_def xs)
qed

section \<open>The plan\<close>

fun hole_op :: "hole \<Rightarrow> plan_op" where
  "hole_op (Arg n) = NamedArg n None []"
| "hole_op Cur = CursorOp"

fun template_ops :: "plan_op list \<Rightarrow> (string \<times> hole) list \<Rightarrow> string \<Rightarrow> plan_op list" where
  "template_ops ops [] e = push_unescaped ops e"
| "template_ops ops ((s, h) # ps) e = template_ops (push_unescaped ops s @ [hole_op h]) ps e"

lemma compile_argument:
  assumes "name_ok n"
  shows "compile_tag env n ops = (ops @ [NamedArg n None []], False)"
proof -
  have plain: "plain_name n" and call: "parse_system_call n = None" using assms by (simp_all add: name_ok_def plain_name_def)
  have "n \<noteq> ''cursor''" using name_not_root [OF plain call] by (auto simp: system_roots_def)
  moreover have "\<not> prefix ''execute('' n" "\<not> prefix ''use('' n" by (rule plain_name_call [OF plain]; simp)+
  moreover have "no_brackets n" "tag_open \<notin> set n" using plain_name_chars [OF plain] by (auto simp: no_brackets_def)
  moreover note no_args = plain_name_call_args [OF plain]
  ultimately show ?thesis
    using call plain
    by (simp add: compile_tag_def compile_reference_def parse_key_directive_def parse_delay_directive_def
        parse_mouse_directive_def parse_img_directive_def plain_name_pipeline split_key_no_equals plain_name_unquote
        plain_name_unquoted is_reserved_def is_valid_call_def plain_name_number)
qed

lemma compile_hole: "hole_ok args h \<Longrightarrow> compile_tag env (hole_name h) ops = (ops @ [hole_op h], False)"
proof (cases h)
  case (Arg n)
  then show "hole_ok args h \<Longrightarrow> ?thesis" by (simp add: compile_argument)
qed (simp add: compile_tag_def)

lemma compile_template:
  "template_ok args ps e \<Longrightarrow> backslash \<notin> set pre \<Longrightarrow>
   \<exists>c. compile_loop env (pre @ render ps e) (length pre) ops timed cursor = (template_ops ops ps e, timed, c)"
proof (induction ps arbitrary: pre ops cursor)
  case Nil
  then show ?case
    by (simp add: compile_loop.simps [of env _ "length pre"] next_tag_none template_ok_def literal_ok_def text_ok_plain)
next
  case (Cons p ps)
  obtain s h where p: "p = (s, h)" by (cases p)
  let ?n = "hole_name h"
  let ?all = "pre @ s @ tag_open # ?n @ tag_close # render ps e" and ?pre = "pre @ s @ tag_open # ?n @ [tag_close]"
  have ok: "plain_text s" "hole_ok args h" "template_ok args ps e"
    using Cons.prems(1) by (auto simp: p template_ok_Cons literal_ok_def text_ok_plain)
  note name = plain_name_hole [OF ok(2)]
  have "backslash \<notin> set ?pre" using Cons.prems(2) ok(1) plain_name_no_backslash [OF name] by (auto simp: plain_text_def)
  then obtain c where IH: "compile_loop env (?pre @ render ps e) (length ?pre) (push_unescaped ops s @ [hole_op h]) timed (cursor \<or> ?n = ''cursor'') =
      (template_ops (push_unescaped ops s @ [hole_op h]) ps e, timed, c)"
    using Cons.IH [OF ok(3)] by blast
  have "slice ?all (length pre) (length pre + length s) = s" by (simp add: slice_def)
  then show ?case
    using next_tag_found [OF Cons.prems(2) ok(1) name, of "render ps e"] tag_inner_found [OF name, of pre s "render ps e"]
      IH
    by (simp add: p compile_hole [OF ok(2)] compile_loop.simps [of env _ "length pre"] Let_def add.assoc)
qed

text \<open>What the operations do to the text and the cursor does not depend on how literals are merged.\<close>

lemma run_push:
  "fold (plain_op env args bare) (push_unescaped ops s) st =
   (case fold (plain_op env args bare) ops st of (full, cursor) \<Rightarrow> (full @ s, cursor))" if "backslash \<notin> set s"
proof (cases "ends_in_literal ops")
  case None
  then show ?thesis
    using that by (simp add: push_unescaped_def push_literal_def unescape_plain plain_op_def split: prod.split)
next
  case (Some t)
  then obtain ops' where ops: "ops = ops' @ [Literal t]"
    by (auto simp: ends_in_literal_def split: list.split_asm plan_op.split_asm)
  then show ?thesis
    using that
    by (simp add: push_unescaped_def push_literal_def ends_in_literal_def unescape_plain plain_op_def split: prod.split)
qed

definition run_texts :: "string \<times> nat option \<Rightarrow> string list \<Rightarrow> string \<times> nat option" where
  "run_texts st xs =
     (fst st @ concat xs,
      if snd st = None \<and> 1 < length xs then Some (length (fst st) + length (hd xs)) else snd st)"

lemma run_argument:
  assumes "hole_ok args (Arg n)"
  shows "plain_op env args bare (NamedArg n None []) (full, cursor) = (full @ arg_value args n, cursor)"
proof -
  have v: "find_named args n = Some (arg_value args n)" and ok: "text_ok (arg_value args n)"
    using assms by (auto simp: arg_value_def)
  have "tag_open \<notin> set (arg_value args n)" using ok by (auto simp: text_ok_def)
  moreover have "tag_open \<in> set s" if "find_str cursor_tag s = Some i" for s i
    using that by (induction s arbitrary: i) (auto simp: cursor_tag_def split: if_split_asm)
  ultimately have "find_str cursor_tag (arg_value args n) = None" by (metis not_None_eq)
  then show ?thesis using v by (simp add: plain_op_def apply_transformers_def)
qed

lemma run_template:
  "template_ok args ps e \<Longrightarrow>
   fold (plain_op env args bare) (template_ops ops ps e) st = run_texts (fold (plain_op env args bare) ops st) (texts args ps e)"
proof (induction ps arbitrary: ops)
  case Nil
  then have "backslash \<notin> set e" by (auto simp: template_ok_def literal_ok_def text_ok_def)
  then show ?case by (simp add: run_push run_texts_def split: prod.split)
next
  case (Cons p ps)
  obtain s h where p: "p = (s, h)" by (cases p)
  obtain full cursor where st: "fold (plain_op env args bare) ops st = (full, cursor)" by fastforce
  obtain x xs where xs: "texts args ps e = x # xs" by (cases "texts args ps e") auto
  have s: "backslash \<notin> set s" and ok: "hole_ok args h" "template_ok args ps e"
    using Cons.prems by (auto simp: p template_ok_Cons literal_ok_def text_ok_def)
  have pushed: "fold (plain_op env args bare) (push_unescaped ops s) st = (full @ s, cursor)"
    by (simp add: run_push [OF s] st)
  show ?case
  proof (cases h)
    case (Arg n)
    then have "plain_op env args bare (hole_op h) (full @ s, cursor) = (full @ s @ arg_value args n, cursor)"
      using run_argument [of args n env bare "full @ s" cursor] ok(1) by simp
    then show ?thesis using pushed st xs Arg by (simp add: p run_texts_def Cons.IH [OF ok(2)])
  next
    case Cur
    have "plain_op env args bare CursorOp (full @ s, cursor) =
        (full @ s, if cursor = None then Some (length full + length s) else cursor)" by (simp add: plain_op_def)
    then show ?thesis using pushed st xs Cur by (simp add: p run_texts_def Cons.IH [OF ok(2)])
  qed
qed

lemma evaluate_texts:
  assumes "fold (plain_op env args bare) (ep_ops plan) ([], None) = run_texts ([], None) xs"
    and "xs \<noteq> []" and ok: "\<forall>x\<in>set xs. text_ok x"
  shows "evaluate_plain env args bare plan = expected xs"
proof -
  have none: "ai_open \<notin> set (concat xs)" "tag_open \<notin> set (concat xs)" using ok by (auto simp: text_ok_def)
  have clean: "replace_all cursor_tag [] (concat xs) = concat xs"
    using none(2) by (intro replace_all_id) (simp_all add: cursor_tag_def)
  obtain x ys where xs: "xs = x # ys" using assms(2) by (cases xs) auto
  show ?thesis
    using assms(1) none clean
    by (cases ys) (simp_all add: evaluate_plain_def run_texts_def contains_ai_markers_def expected_def xs)
qed

lemma evaluate_template:
  assumes "template_ok args ps e"
  shows "evaluate env (compile env (render ps e)) args UserOrigin = expected (texts args ps e)"
proof -
  let ?t = "render ps e"
  obtain c where ops: "compile_ops env ?t = (template_ops [] ps e, False, c)"
    using compile_template [OF assms, of "[]" env "[]" False False] by (auto simp: compile_ops_def)
  have run: "fold (plain_op env args bare) (template_ops [] ps e) ([], None) = run_texts ([], None) (texts args ps e)" for bare
    using run_template [OF assms, of env bare "[]"] by simp
  have pipeline: "split_pipeline ?t = [str_trim ?t]" using render_no_bar [OF assms] by simp
  show ?thesis
  proof (cases "needs_no_work ?t")
    case True
    then have ps: "ps = []" by (cases ps) (auto simp: needs_no_work_def)
    have "fold (plain_op env args bare) (ep_ops (compile env ?t)) ([], None) = run_texts ([], None) (texts args ps e)" for bare
      using True ps by (simp add: compile_def run_texts_def plain_op_def)
    then have "evaluate_plain env args bare (compile env ?t) = expected (texts args ps e)" for bare
      by (rule evaluate_texts [OF _ texts_nonempty texts_ok [OF assms]])
    then show ?thesis using True by (simp add: evaluate_def compile_def)
  next
    case False
    then have "compile env ?t = \<lparr>ep_raw_template = ?t, ep_ops = template_ops [] ps e, ep_global_transformers = [],
        ep_has_directive_steps = False, ep_has_cursor = c\<rparr>"
      using pipeline ops by (simp add: compile_def)
    moreover have "evaluate_plain env args bare (compile env ?t) = expected (texts args ps e)" for bare
      by (rule evaluate_texts [OF _ texts_nonempty texts_ok [OF assms]]) (use run calculation in simp)
    ultimately show ?thesis by (simp add: evaluate_def)
  qed
qed

text \<open>C2: For every template of literal text, named arguments and cursors whose arguments are given, with at most the
  128 tags interpolation handles, the compiled plan and interpolation with the final pass give the same steps:
  the text with its arguments, and as many presses of the left arrow as characters follow the first cursor.
  The conditions: the names consist of lower-case ASCII letters and are no system variable; the literal text has
  no opening bracket, backslash, bar, NUL or one of the three marker characters U+0001 to U+0003 that
  interpolation uses itself, and the values of the arguments have none of these but may have bars.  Values with a
  backslash or a bracket are outside the claim: there the two ways may differ.\<close>

theorem plan_matches_interpolation:
  assumes "template_ok args ps e" and "length ps \<le> max_iterations"
  shows "evaluate env (compile env (render ps e)) args UserOrigin =
      finalize (tp_system env) (interpolate env (render ps e) args) \<and>
    evaluate env (compile env (render ps e)) args UserOrigin = expected (texts args ps e)"
  by (simp add: evaluate_template [OF assms(1)] interpolate_template [OF assms]
      finalize_texts [OF texts_nonempty texts_ok [OF assms(1)]])

definition greeting_args :: arg_map where
  "greeting_args = \<lparr>a_named = [(''Who'', ''Ann'')], a_positional = []\<rparr>"

lemma plan_matches_interpolation_witness:
  "\<forall>env :: (nat, nat) template_env. evaluate env (compile env ''Hi [who], [cursor]bye'') greeting_args UserOrigin =
    steps_expansion [TextStep ''Hi Ann, bye'', KeyPressStep ''left'', KeyPressStep ''left'', KeyPressStep ''left'']"
proof
  fix env :: "(nat, nat) template_env"
  let ?ps = "[(''Hi '', Arg ''who''), ('', '', Cur)]"
  have ok: "template_ok greeting_args ?ps ''bye''" by code_simp
  have few: "length ?ps \<le> max_iterations" by code_simp
  have "render ?ps ''bye'' = ''Hi [who], [cursor]bye''" and "texts greeting_args ?ps ''bye'' = [''Hi Ann, '', ''bye'']"
    by code_simp+
  moreover have "expected [''Hi Ann, '', ''bye''] = steps_expansion [TextStep ''Hi Ann, bye'', KeyPressStep ''left'', KeyPressStep ''left'', KeyPressStep ''left'']"
    by (simp add: expected_def left_presses_def max_output_length_def)
  ultimately show "evaluate env (compile env ''Hi [who], [cursor]bye'') greeting_args UserOrigin =
      steps_expansion [TextStep ''Hi Ann, bye'', KeyPressStep ''left'', KeyPressStep ''left'', KeyPressStep ''left'']"
    using plan_matches_interpolation [OF ok few, of env] by metis
qed

end
