(* ===== verification/PlanSafety.thy ===== *)
theory PlanSafety
  imports PlanEquivalence
begin

text \<open>
  What the steps of a plan can be, and two places where they are not what the template says: text that an
  expansion fetches is searched for directives when the template holds one of its own, so that a script on the
  clipboard is run; and an escaped cursor is lost when the template holds a real one.
\<close>

section \<open>Steps of compiled plans\<close>

text \<open>A step that may be carried out: no empty text, no stored script, and an inline script only when scripts
  are enabled.\<close>

definition allowed_step :: "('f, 'v) template_env \<Rightarrow> expansion_step \<Rightarrow> bool" where
  "allowed_step env s \<longleftrightarrow>
     s \<noteq> TextStep [] \<and> (\<forall>md trs. s = InlineRun md trs \<longrightarrow> sy_scripts_enabled (tp_system env)) \<and> (\<forall>md. s \<noteq> ScriptStep md)"

fun op_allowed :: "('f, 'v) template_env \<Rightarrow> plan_op \<Rightarrow> bool" where
  "op_allowed env (MouseOp s) \<longleftrightarrow> allowed_step env s"
| "op_allowed env (ImageOp s) \<longleftrightarrow> allowed_step env s"
| "op_allowed env _ \<longleftrightarrow> True"

lemma allowed_text: "t \<noteq> [] \<Longrightarrow> allowed_step env (TextStep t)"
  by (simp add: allowed_step_def)

lemma allowed_effect: "tag_effect (tp_system env) inner = EffectSteps new \<Longrightarrow> s \<in> set new \<Longrightarrow> allowed_step env s"
  using tag_effect_not_text tag_effect_script tag_effect_no_stored_script by (auto simp: allowed_step_def)

lemma finalize_allowed: "\<forall>s\<in>set (fe_steps (finalize (tp_system env) t)). allowed_step env s"
  unfolding finalize_def
  by (rule finalize_all) (auto simp: allowed_text allowed_effect, auto simp: allowed_step_def)

lemma push_allowed: "\<forall>oper\<in>set ops. op_allowed env oper \<Longrightarrow> \<forall>oper\<in>set (push_literal ops t). op_allowed env oper"
  by (auto simp: push_literal_def split: option.split dest: in_set_butlastD)

lemma push_unescaped_allowed:
  "\<forall>oper\<in>set ops. op_allowed env oper \<Longrightarrow> \<forall>oper\<in>set (push_unescaped ops t). op_allowed env oper"
  using push_allowed [of ops env] by (simp add: push_unescaped_def Let_def)

lemma reference_allowed:
  assumes "\<forall>oper\<in>set ops. op_allowed env oper"
  shows "\<forall>oper\<in>set (compile_reference env' inner ops). op_allowed env oper"
proof -
  let ?ok = "\<lambda>ops. \<forall>oper\<in>set ops. op_allowed env oper"
  have one: "?ok (ops @ [oper])" if "op_allowed env oper" for oper using assms that by auto
  obtain key0 absent where key: "split_key_default (hd (split_pipeline inner)) = (key0, absent)" by fastforce
  have "?ok (ops @ [QuotedLiteral k trs])" "?ok (ops @ [SystemVar k trs])" "?ok (ops @ [PositionalArg i absent trs])"
    "?ok (ops @ [NamedArg k absent trs])" for k i trs by (rule one; simp)+
  then show ?thesis
    using push_allowed [OF assms] by (simp only: compile_reference_def Let_def key prod.case split: if_split option.split) blast
qed

fun is_mouse_step :: "expansion_step \<Rightarrow> bool" where
  "is_mouse_step (MouseClick b n) = True"
| "is_mouse_step (MouseMove x y) = True"
| "is_mouse_step (MouseScroll d) = True"
| "is_mouse_step (MouseDown b) = True"
| "is_mouse_step (MouseUp b) = True"
| "is_mouse_step _ = False"

lemma mouse_step_kind: "mouse_step bound = Some s \<Longrightarrow> is_mouse_step s"
  unfolding mouse_step_def Let_def
  by (simp only: split: if_split_asm) (simp_all split: option.split_asm if_split_asm, auto)

lemma mouse_allowed: "parse_mouse_directive inner = Some s \<Longrightarrow> allowed_step env s"
proof -
  assume "parse_mouse_directive inner = Some s"
  then obtain bound where "mouse_step bound = Some s"
    by (auto simp: parse_mouse_directive_def split: option.split_asm sum.split_asm)
  then have "is_mouse_step s" by (rule mouse_step_kind)
  then show ?thesis by (cases s) (simp_all add: allowed_step_def)
qed

lemma image_allowed: "parse_img_directive sys inner = Some s \<Longrightarrow> allowed_step env s"
  by (auto simp: parse_img_directive_def allowed_step_def Let_def split: option.split_asm if_split_asm)

lemma tag_allowed:
  assumes "\<forall>oper\<in>set ops. op_allowed env oper" and "compile_tag env' inner ops = (ops', timed)"
  shows "\<forall>oper\<in>set ops'. op_allowed env oper"
  using assms reference_allowed [OF assms(1), of env' inner]
  by (auto simp: compile_tag_def mouse_allowed image_allowed Let_def split: option.split_asm if_split_asm)

lemma loop_allowed:
  "\<forall>oper\<in>set ops. op_allowed env' oper \<Longrightarrow> compile_loop env expr ptr ops timed cursor = (ops', r) \<Longrightarrow>
   \<forall>oper\<in>set ops'. op_allowed env' oper"
proof (induction env expr ptr ops timed cursor rule: compile_loop.induct)
  case (1 env expr ptr ops timed cursor)
  show ?case
  proof (cases "find_next_tag expr ptr")
    case None
    then show ?thesis
      using "1.prems" push_unescaped_allowed [of ops env' "drop ptr expr"]
      by (auto simp: compile_loop.simps [of env expr ptr])
  next
    case (Some tag)
    obtain ops1 is_timed where tag: "compile_tag env (tag_inner expr tag)
        (push_unescaped ops (slice expr ptr (tb_start tag))) = (ops1, is_timed)" by fastforce
    have "\<forall>oper\<in>set ops1. op_allowed env' oper"
      by (rule tag_allowed [OF push_unescaped_allowed [OF "1.prems"(1)] tag])
    moreover have "compile_loop env expr (tb_end tag + 1) ops1 (timed \<or> is_timed)
        (cursor \<or> tag_inner expr tag = ''cursor'') = (ops', r)"
      using "1.prems"(2) Some tag by (simp add: compile_loop.simps [of env expr ptr] Let_def)
    ultimately show ?thesis by (rule "1.IH" [OF Some refl tag [symmetric] refl])
  qed
qed

lemma compiled_allowed: "\<forall>oper\<in>set (ep_ops (compile env t)). op_allowed env oper"
proof -
  have "\<forall>oper\<in>set ops. op_allowed env oper" if "compile_ops env e = (ops, r)" for e ops r
    using loop_allowed [of "[]" env env e 0 False False ops r] that by (simp add: compile_ops_def)
  then show ?thesis by (auto simp: compile_def Let_def split: prod.split)
qed

section \<open>Steps of evaluation\<close>

lemma add_steps_allowed:
  "\<forall>s\<in>set steps. allowed_step env s \<Longrightarrow> \<forall>s\<in>set new. text_of_step s = None \<longrightarrow> allowed_step env s \<Longrightarrow>
   \<forall>s\<in>set (fst (add_steps new (steps, buf))). allowed_step env s"
proof (induction new arbitrary: steps buf)
  case (Cons s new)
  have rest: "\<forall>s\<in>set new. text_of_step s = None \<longrightarrow> allowed_step env s" using Cons.prems(2) by simp
  show ?case
  proof (cases "text_of_step s")
    case None
    have "\<forall>s\<in>set (flush_text steps buf). allowed_step env s"
      by (rule flush_text_all [OF Cons.prems(1)]) (rule allowed_text)
    then have "\<forall>s\<in>set (flush_text steps buf @ [s]). allowed_step env s" using Cons.prems(2) None by simp
    note Cons.IH [OF this rest, of "[]"]
    moreover have "add_steps (s # new) (steps, buf) = add_steps new (flush_text steps buf @ [s], [])" using None by simp
    ultimately show ?thesis by (simp only:)
  next
    case (Some t)
    then have "add_steps (s # new) (steps, buf) = add_steps new (steps, buf @ t)" by simp
    then show ?thesis using Cons.IH [OF Cons.prems(1) rest, of "buf @ t"] by (simp only:)
  qed
qed simp

lemma timed_allowed:
  assumes "\<forall>s\<in>set steps. allowed_step env s" and "op_allowed env oper"
  shows "\<forall>s\<in>set (fst (timed_op env args bare oper (steps, buf))). allowed_step env s"
proof -
  have flushed: "\<forall>s\<in>set (flush_text steps buf). allowed_step env s"
    by (rule flush_text_all) (use assms(1) allowed_text in auto)
  have scripts: "\<forall>s\<in>set (script_steps env raw trs). allowed_step env s" for raw trs
    by (auto simp: script_steps_def allowed_step_def split: option.split)
  have late: "\<forall>s\<in>set (late_steps env t). text_of_step s = None \<longrightarrow> allowed_step env s" for t
    using finalize_allowed by (auto simp: late_steps_def)
  note added = add_steps_allowed [OF assms(1) late, of "evaluate_text_op env args bare oper" buf]
  have single: "allowed_step env (KeyPressStep k)" "allowed_step env (DelayStep ms)" for k ms
    by (simp_all add: allowed_step_def)
  show ?thesis
  proof (cases oper)
    case (InlineRunOp raw trs)
    then show ?thesis using flushed scripts [of raw trs] by (auto simp: timed_op_def)
  qed (use assms flushed single added in \<open>auto simp: timed_op_def simp del: evaluate_text_op.simps\<close>)
qed

lemma fold_timed_allowed:
  "\<forall>oper\<in>set ops. op_allowed env oper \<Longrightarrow> \<forall>s\<in>set (fst st). allowed_step env s \<Longrightarrow>
   \<forall>s\<in>set (fst (fold (timed_op env args bare) ops st)). allowed_step env s"
proof (induction ops arbitrary: st)
  case (Cons oper ops)
  obtain steps buf where st: "st = (steps, buf)" by (cases st)
  then show ?case using Cons timed_allowed [of steps env oper args bare buf] by simp
qed simp

lemma text_steps_allowed: "s \<in> set (fe_steps (text_steps t)) \<Longrightarrow> allowed_step env s"
  by (auto simp: text_steps_def steps_expansion_def allowed_text split: if_split_asm)

lemma evaluated_allowed:
  assumes "s \<in> set (fe_steps (evaluate env (compile env t) args origin))"
  shows "allowed_step env s"
proof -
  let ?plan = "compile env t" and ?bare = "build_bare_fallback (ep_ops (compile env t)) args"
  have "\<forall>s\<in>set (fst (fold (timed_op env args ?bare) (ep_ops ?plan) ([], []))). allowed_step env s"
    by (rule fold_timed_allowed [OF compiled_allowed]) simp
  then have timed: "\<forall>s\<in>set (fe_steps (evaluate_timed env args ?bare ?plan)). allowed_step env s"
    by (auto simp: evaluate_timed_def ai_expansion_def steps_expansion_def Let_def flush_text_def allowed_text
        split: prod.split)
  have left: "allowed_step env (KeyPressStep ''left'')" by (simp add: allowed_step_def)
  have plain: "\<forall>s\<in>set (fe_steps (evaluate_plain env args ?bare ?plan)). allowed_step env s"
    using text_steps_allowed
    by (auto simp: evaluate_plain_def ai_expansion_def steps_expansion_def left_presses_def allowed_text left Let_def
        split: prod.split option.split)
  have global: "\<forall>s\<in>set (fe_steps (evaluate_global env args ?bare ?plan)). allowed_step env s"
    using text_steps_allowed by (auto simp: evaluate_global_def ai_expansion_def Let_def)
  show ?thesis
    using assms timed plain global text_steps_allowed
    by (auto simp: evaluate_def evaluate_ai_def Let_def split: if_split_asm)
qed

text \<open>C5: Whatever the template, the arguments and the fetched text, a plan never asks for an empty text to be typed
  or a stored script to be run, and for an inline script only when scripts are enabled; and a template from an
  AI gives nothing but text.\<close>

theorem plan_steps_are_safe:
  assumes "s \<in> set (fe_steps (evaluate env (compile env t) args origin))"
  shows "allowed_step env s \<and> (origin = AiOrigin \<longrightarrow> (\<exists>u. s = TextStep u \<and> u \<noteq> []))"
proof -
  have "\<exists>u. s = TextStep u \<and> u \<noteq> []" if "s \<in> set (fe_steps (text_steps u))" for u
    using that by (auto simp: text_steps_def steps_expansion_def split: if_split_asm)
  then have "origin = AiOrigin \<longrightarrow> (\<exists>u. s = TextStep u \<and> u \<noteq> [])"
    using assms
    by (auto simp: evaluate_def evaluate_ai_def evaluate_global_def ai_expansion_def Let_def split: if_split_asm)
  then show ?thesis using evaluated_allowed [OF assms] by blast
qed

section \<open>A script on the clipboard\<close>

definition clip_script :: string where
  "clip_script = ''[execute(bash, ls)]''"

lemma compile_clip:
  "compile env ''[clip]'' = \<lparr>ep_raw_template = ''[clip]'', ep_ops = [SystemVar ''clip'' []],
     ep_global_transformers = [], ep_has_directive_steps = False, ep_has_cursor = False\<rparr>"
  "compile env ''[key(tab)][clip]'' = \<lparr>ep_raw_template = ''[key(tab)][clip]'',
     ep_ops = [KeyPressOp ''tab'', SystemVar ''clip'' []],
     ep_global_transformers = [], ep_has_directive_steps = True, ep_has_cursor = False\<rparr>"
proof -
  have plain: "plain_name ''clip''" by code_simp
  have reserved: "is_reserved ''clip''" and nobrackets: "tag_open \<notin> set ''clip''" by code_simp+
  have "\<not> prefix ''execute('' ''clip''" "\<not> prefix ''use('' ''clip''" by code_simp+
  then have clip: "compile_tag env ''clip'' ops = (ops @ [SystemVar ''clip'' []], False)" for ops
    using plain reserved plain_name_call_args [OF plain]
    by (simp add: compile_tag_def compile_reference_def parse_key_directive_def parse_delay_directive_def
        parse_mouse_directive_def parse_img_directive_def plain_name_pipeline split_key_no_equals plain_name_unquote
        plain_name_unquoted)
  have "parse_key_directive ''key(tab)'' = Some ''tab''" "str_to_lowercase ''tab'' = ''tab''" by code_simp+
  then have key: "compile_tag env ''key(tab)'' ops = (ops @ [KeyPressOp ''tab''], True)" for ops
    by (simp add: compile_tag_def)
  have one: "find_next_tag ''[clip]'' 0 = Some \<lparr>tb_start = 0, tb_end = 5\<rparr>" "find_next_tag ''[clip]'' 6 = None"
    "tag_inner ''[clip]'' \<lparr>tb_start = 0, tb_end = 5\<rparr> = ''clip''" "slice ''[clip]'' 0 0 = []"
    by code_simp+
  have two: "find_next_tag ''[key(tab)][clip]'' 0 = Some \<lparr>tb_start = 0, tb_end = 9\<rparr>"
    "find_next_tag ''[key(tab)][clip]'' 10 = Some \<lparr>tb_start = 10, tb_end = 15\<rparr>"
    "find_next_tag ''[key(tab)][clip]'' 16 = None"
    "tag_inner ''[key(tab)][clip]'' \<lparr>tb_start = 0, tb_end = 9\<rparr> = ''key(tab)''"
    "tag_inner ''[key(tab)][clip]'' \<lparr>tb_start = 10, tb_end = 15\<rparr> = ''clip''"
    "slice ''[key(tab)][clip]'' 0 0 = []" "slice ''[key(tab)][clip]'' 10 10 = []"
    by code_simp+
  have segments: "split_pipeline ''[clip]'' = [''[clip]'']" "split_pipeline ''[key(tab)][clip]'' = [''[key(tab)][clip]'']"
    by code_simp+
  show "compile env ''[clip]'' = \<lparr>ep_raw_template = ''[clip]'', ep_ops = [SystemVar ''clip'' []],
     ep_global_transformers = [], ep_has_directive_steps = False, ep_has_cursor = False\<rparr>"
    by (simp add: compile_def needs_no_work_def segments compile_ops_def compile_loop.simps [of env _ 0]
        compile_loop.simps [of env _ 6] one clip push_unescaped_def)
  show "compile env ''[key(tab)][clip]'' = \<lparr>ep_raw_template = ''[key(tab)][clip]'',
     ep_ops = [KeyPressOp ''tab'', SystemVar ''clip'' []],
     ep_global_transformers = [], ep_has_directive_steps = True, ep_has_cursor = False\<rparr>"
    by (simp add: compile_def needs_no_work_def segments compile_ops_def compile_loop.simps [of env _ 0]
        compile_loop.simps [of env _ 10] compile_loop.simps [of env _ 16] two clip key push_unescaped_def)
qed

lemma clip_value: "resolve_system_placeholder env ''clip'' = sy_clip (tp_system env) ''clip''"
proof -
  have "plain_name ''clip''" and "\<not> is_deferred ''clip''" by code_simp+
  then show ?thesis by (simp add: resolve_system_placeholder_def resolve_def plain_name_call_args)
qed

text \<open>Beside a directive of the template, the final pass runs over the clipboard's text.\<close>

lemma late_clip_script:
  assumes "sy_scripts_enabled (tp_system env)"
    and "to_script_metadata (sy_execute (tp_system env)) ''execute(bash, ls)'' = Some md"
  shows "late_steps env clip_script = [InlineRun md []]"
proof -
  have late: "has_late_directive clip_script" by code_simp
  have tag: "find_next_tag clip_script 0 = Some \<lparr>tb_start = 0, tb_end = 18\<rparr>" "find_next_tag clip_script 19 = None"
    "tag_inner clip_script \<lparr>tb_start = 0, tb_end = 18\<rparr> = ''execute(bash, ls)''" "slice clip_script 0 0 = []"
    "drop 19 clip_script = []" "tag_open \<in> set clip_script"
    by code_simp+
  have call: "split_pipeline ''execute(bash, ls)'' = [''execute(bash, ls)'']"
    "strip_execute_args ''execute(bash, ls)'' \<noteq> None" "parse_key_directive ''execute(bash, ls)'' = None"
    "call_args ''delay'' ''execute(bash, ls)'' = None" "parse_mouse_directive ''execute(bash, ls)'' = None"
    by code_simp+
  then have effect: "tag_effect (tp_system env) ''execute(bash, ls)'' = EffectSteps [InlineRun md []]"
    using assms by (simp add: tag_effect_def)
  have "\<not> tag_is_timed (tp_system env) ''execute(bash, ls)''"
    using call by (simp add: tag_is_timed_def parse_delay_directive_def)
  then have "\<not> contains_key_or_delay_directives (tp_system env) clip_script"
    using tag by (simp add: contains_key_or_delay_directives_def contains_directives_from.simps [of _ clip_script 0]
        contains_directives_from.simps [of _ clip_script 19])
  moreover have "split_into_steps (tp_system env) clip_script UserOrigin = [InlineRun md []]"
    using tag effect
    by (simp add: split_into_steps_def split_steps_loop.simps [of _ _ clip_script 0]
        split_steps_loop.simps [of _ _ clip_script 19] append_unescaped_segment_def flush_text_def)
  ultimately have "fe_steps (finalize (tp_system env) clip_script) = [InlineRun md []]"
    using tag(6)
    by (simp add: finalize_def finalize_with_origin_def steps_expansion_def apply_cursor_positioning_def
        map_filter_simps cursor_tag_def restore_cursor_sentinels_def)
  then show ?thesis using late by (simp add: late_steps_def)
qed

text \<open>An instance: the same clipboard is typed by the template \<open>[clip]\<close> and run by
  \<open>[key(tab)][clip]\<close>.\<close>

lemma clipboard_script_example:
  assumes "sy_clip (tp_system env) ''clip'' = Some clip_script" and "sy_scripts_enabled (tp_system env)"
    and "to_script_metadata (sy_execute (tp_system env)) ''execute(bash, ls)'' = Some md"
  shows "fe_steps (evaluate env (compile env ''[clip]'') args UserOrigin) = [TextStep clip_script] \<and>
    fe_steps (evaluate env (compile env ''[key(tab)][clip]'') args UserOrigin) = [KeyPressStep ''tab'', InlineRun md []]"
proof
  have "str_to_lowercase ''tab'' = ''tab''" and no_cursor: "find_str cursor_tag clip_script = None"
    and typed: "clip_script \<noteq> []" "\<not> contains_ai_markers clip_script" by code_simp+
  then show "fe_steps (evaluate env (compile env ''[key(tab)][clip]'') args UserOrigin) = [KeyPressStep ''tab'', InlineRun md []]"
    using late_clip_script [OF assms(2,3)] assms(1)
    by (simp add: evaluate_def compile_clip evaluate_timed_def timed_op_def clip_value apply_transformers_def
        flush_text_def steps_expansion_def map_filter_simps)
  show "fe_steps (evaluate env (compile env ''[clip]'') args UserOrigin) = [TextStep clip_script]"
    using assms(1) no_cursor typed
    by (simp add: evaluate_def compile_clip evaluate_plain_def plain_op_def clip_value apply_transformers_def
        text_steps_def steps_expansion_def)
qed

text \<open>The outermost tags of a text, in order: the ones the final pass looks at.\<close>

function outer_tags_from :: "string \<Rightarrow> nat \<Rightarrow> tag_bounds list" where
  "outer_tags_from tpl ptr =
     (case find_next_tag tpl ptr of None \<Rightarrow> [] | Some tag \<Rightarrow> tag # outer_tags_from tpl (tb_end tag + 1))"
  by pat_completeness auto
termination
  by (relation "measure (\<lambda>(tpl, ptr). length tpl - ptr)")
    (auto dest!: find_next_tag_less intro!: diff_less_mono2)

declare outer_tags_from.simps [simp del]

definition outer_tags :: "string \<Rightarrow> tag_bounds list" where
  "outer_tags tpl = outer_tags_from tpl 0"

lemma outer_tags_open: "tag \<in> set (outer_tags tpl) \<Longrightarrow> tag_open \<in> set tpl"
  by (rule ccontr) (simp add: outer_tags_def outer_tags_from.simps [of tpl 0] find_next_tag_none)

text \<open>No pass over the steps loses one that is not text.\<close>

lemma flush_keeps: "s \<in> set steps \<Longrightarrow> s \<in> set (flush_text steps buf)"
  by (simp add: flush_text_def)

lemma split_steps_keeps: "s \<in> set steps \<Longrightarrow> s \<in> set (split_steps_loop sys origin tpl ptr steps current)"
proof (induction sys origin tpl ptr steps current rule: split_steps_loop.induct)
  case (1 sys origin tpl ptr steps current)
  show ?case
  proof (cases "find_next_tag tpl ptr")
    case None
    then show ?thesis using "1.prems" by (simp add: split_steps_loop.simps [of sys origin] flush_keeps)
  next
    case (Some tag)
    note IH = "1.IH" [OF Some refl refl refl]
    show ?thesis
    proof (cases "origin = AiOrigin")
      case True
      then show ?thesis
        using IH(1) [OF True "1.prems"] Some by (simp add: split_steps_loop.simps [of sys _ tpl ptr] Let_def)
    next
      case False
      then show ?thesis
        using IH(2,3) [OF False] "1.prems" Some
        by (cases "tag_effect sys (tag_inner tpl tag)")
          (simp_all add: split_steps_loop.simps [of sys _ tpl ptr] Let_def flush_keeps)
    qed
  qed
qed

lemma split_steps_effect:
  "tag \<in> set (outer_tags_from tpl ptr) \<Longrightarrow> tag_effect sys (tag_inner tpl tag) = EffectSteps new \<Longrightarrow>
   s \<in> set new \<Longrightarrow> s \<in> set (split_steps_loop sys UserOrigin tpl ptr steps current)"
proof (induction tpl ptr arbitrary: steps current rule: outer_tags_from.induct)
  case (1 tpl ptr)
  then obtain first where first: "find_next_tag tpl ptr = Some first"
    by (cases "find_next_tag tpl ptr") (auto simp: outer_tags_from.simps [of tpl ptr])
  show ?case
  proof (cases "tag = first")
    case True
    then show ?thesis
      using first "1.prems"(2,3)
      by (simp add: split_steps_loop.simps [of sys _ tpl ptr] Let_def split_steps_keeps)
  next
    case False
    then have "tag \<in> set (outer_tags_from tpl (tb_end first + 1))"
      using "1.prems"(1) first by (simp add: outer_tags_from.simps [of tpl ptr])
    note IH = "1.IH" [OF first this "1.prems"(2,3)]
    show ?thesis
      using first IH
      by (simp add: split_steps_loop.simps [of sys _ tpl ptr] Let_def split: tag_effect.split)
  qed
qed

lemma restore_keeps: "s \<in> set steps \<Longrightarrow> text_of_step s = None \<Longrightarrow> s \<in> set (restore_cursor_sentinels steps)"
  by (force simp: restore_cursor_sentinels_def)

lemma positioning_keeps: "s \<in> set steps \<Longrightarrow> text_of_step s = None \<Longrightarrow> s \<in> set (apply_cursor_positioning steps)"
  by (auto simp: apply_cursor_positioning_def Let_def restore_keeps split: option.split)

lemma finalize_effect:
  assumes "tag \<in> set (outer_tags tpl)" and "tag_effect sys (tag_inner tpl tag) = EffectSteps new"
    and "s \<in> set new" and "text_of_step s = None"
  shows "s \<in> set (fe_steps (finalize sys tpl))"
proof -
  have "s \<in> set (split_into_steps sys tpl UserOrigin)"
    using split_steps_effect assms(1-3) unfolding split_into_steps_def outer_tags_def by blast
  then show ?thesis
    using outer_tags_open [OF assms(1)] assms(4)
    by (simp add: finalize_def finalize_with_origin_def steps_expansion_def Let_def restore_keeps positioning_keeps)
qed

lemma add_steps_keeps:
  "s \<in> set steps \<or> s \<in> set new \<and> text_of_step s = None \<Longrightarrow> s \<in> set (fst (add_steps new (steps, buf)))"
proof (induction new arbitrary: steps buf)
  case (Cons x new)
  then show ?case
    by (cases "text_of_step x") (auto simp del: add_steps.simps(1) simp: flush_keeps intro!: Cons.IH)
qed simp

lemma timed_op_keeps: "s \<in> set (fst st) \<Longrightarrow> s \<in> set (fst (timed_op env args bare oper st))"
  by (cases st; cases oper)
    (simp_all add: timed_op_def flush_keeps add_steps_keeps del: evaluate_text_op.simps)

lemma fold_timed_keeps: "s \<in> set (fst st) \<Longrightarrow> s \<in> set (fst (fold (timed_op env args bare) ops st))"
  by (induction ops arbitrary: st) (simp_all add: timed_op_keeps)

lemma fold_timed_adds:
  assumes "oper \<in> set ops" and "\<And>st. s \<in> set (fst (timed_op env args bare oper st))"
  shows "s \<in> set (fst (fold (timed_op env args bare) ops st))"
  using assms(1)
proof (induction ops arbitrary: st)
  case (Cons x ops)
  show ?case
  proof (cases "x = oper")
    case True
    then show ?thesis using fold_timed_keeps [OF assms(2)] by simp
  next
    case False
    then show ?thesis using Cons by simp
  qed
qed simp

lemma late_clipboard:
  assumes "sy_clip (tp_system env) ''clip'' = Some v" and "has_late_directive v"
    and "s \<in> set (fe_steps (finalize (tp_system env) v))" and "text_of_step s = None"
  shows "s \<in> set (fst (timed_op env args bare (SystemVar ''clip'' []) st))"
  using assms
  by (cases st) (simp add: timed_op_def clip_value apply_transformers_def late_steps_def add_steps_keeps)

lemma plain_plan_runs_nothing:
  "InlineRun md trs \<notin> set (fe_steps (evaluate_plain env args bare plan))"
  by (auto simp: evaluate_plain_def ai_expansion_def text_steps_def steps_expansion_def left_presses_def Let_def
      split: prod.split option.split)

text \<open>C40: Whether a script call on the clipboard is typed or run depends on the rest of the template.  For
  any clipboard text in which a script call stands as a tag, in the spelling the final pass looks for, and
  any template that asks for the clipboard without transformers, neither on the tag nor at the end, while
  scripts are enabled and the call can be prepared: if the template has a directive (a key, a delay, a mouse
  action, an image or a script), the call from the clipboard is among the steps to run, unless the text
  holds a mark for an AI; if it has none, no script is run.\<close>

theorem clipboard_script_is_run:
  assumes "sy_clip (tp_system env) ''clip'' = Some v" and "has_late_directive v" and "tag \<in> set (outer_tags v)"
    and "pipeline = split_pipeline (tag_inner v tag)" and "strip_execute_args (hd pipeline) \<noteq> None"
    and "sy_scripts_enabled (tp_system env)"
    and "to_script_metadata (sy_execute (tp_system env)) (hd pipeline) = Some md"
    and "plan = compile env template" and "SystemVar ''clip'' [] \<in> set (ep_ops plan)"
    and "ep_global_transformers plan = []" and "e = evaluate env plan args UserOrigin"
  shows "if ep_has_directive_steps plan
    then InlineRun md (tl pipeline) \<in> set (fe_steps e) \<or> fe_ai_template e \<noteq> None
    else \<forall>md' trs. InlineRun md' trs \<notin> set (fe_steps e)"
proof (cases "ep_has_directive_steps plan")
  case True
  let ?s = "InlineRun md (tl pipeline)"
  have "tag_effect (tp_system env) (tag_inner v tag) = EffectSteps [?s]"
    using assms(5-7) unfolding assms(4) by (simp add: tag_effect_def)
  from finalize_effect [OF assms(3) this] have "?s \<in> set (fe_steps (finalize (tp_system env) v))" by simp
  from late_clipboard [OF assms(1,2) this]
  have "?s \<in> set (fst (fold (timed_op env args bare) (ep_ops plan) ([], [])))" for bare
    by (intro fold_timed_adds [OF assms(9)]) simp
  then have "?s \<in> set (fe_steps (evaluate_timed env args bare plan)) \<or>
      fe_ai_template (evaluate_timed env args bare plan) \<noteq> None" for bare
    by (auto simp: evaluate_timed_def ai_expansion_def steps_expansion_def Let_def flush_text_def split: prod.split)
      (metis fst_conv)+
  then show ?thesis using True by (simp add: assms(10,11) evaluate_def Let_def)
next
  case False
  then show ?thesis by (simp add: assms(10,11) evaluate_def Let_def plain_plan_runs_nothing)
qed

definition demo_system_env :: system_env where
  "demo_system_env =
     \<lparr>sy_execute = \<lparr>xe_windows = False, xe_exists = \<lambda>_. False, xe_asset = \<lambda>_. None, xe_compress = \<lambda>_. Some []\<rparr>,
      sy_scripts_enabled = True, sy_seconds_ms = \<lambda>_. None, sy_load_asset = \<lambda>_. None, sy_load_file = \<lambda>_. None,
      sy_value = \<lambda>_ _. None, sy_clip = \<lambda>_. Some clip_script\<rparr>"

definition demo_template_env :: "(nat, nat) template_env" where
  "demo_template_env =
     \<lparr>tp_transform = demo_transform_env, tp_validate = \<lparr>va_offset_ok = \<lambda>_. False, va_system = demo_system_env\<rparr>,
      tp_snippet = \<lambda>_. None\<rparr>"

lemma demo_script: "to_script_metadata (sy_execute (tp_system demo_template_env)) ''execute(bash, ls)'' =
    Some \<lparr>sm_interpreter = Bash, sm_behavior = Inline, sm_compressed = []\<rparr>"
proof -
  have "strip_execute_args ''execute(bash, ls)'' = Some ''bash, ls''" by code_simp
  moreover have "parse_invocation ''bash, ls'' = Inr \<lparr>ei_silent = False, ei_interpreter = Bash, ei_file = False,
      ei_subject = ''ls'', ei_args = []\<rparr>" by code_simp
  ultimately show ?thesis
    by (simp add: to_script_metadata_def demo_template_env_def demo_system_env_def resolve_subject_def)
qed

theorem clipboard_script_is_run_witness:
  "InlineRun \<lparr>sm_interpreter = Bash, sm_behavior = Inline, sm_compressed = []\<rparr> [] \<in>
     set (fe_steps (evaluate demo_template_env (compile demo_template_env ''[key(tab)][clip]'') no_args UserOrigin))"
proof -
  let ?tag = "\<lparr>tb_start = 0, tb_end = 18\<rparr>" and ?plan = "compile demo_template_env ''[key(tab)][clip]''"
  have late: "has_late_directive clip_script" by code_simp
  have "find_next_tag clip_script 0 = Some ?tag" by code_simp
  then have tag: "?tag \<in> set (outer_tags clip_script)" by (simp add: outer_tags_def outer_tags_from.simps [of _ 0])
  have inner: "split_pipeline (tag_inner clip_script ?tag) = [''execute(bash, ls)'']"
    "strip_execute_args ''execute(bash, ls)'' \<noteq> None" by code_simp+
  have clip: "sy_clip (tp_system demo_template_env) ''clip'' = Some clip_script"
    and enabled: "sy_scripts_enabled (tp_system demo_template_env)"
    by (simp_all add: demo_template_env_def demo_system_env_def)
  have call: "strip_execute_args (hd [''execute(bash, ls)'']) \<noteq> None"
    "to_script_metadata (sy_execute (tp_system demo_template_env)) (hd [''execute(bash, ls)'']) =
      Some \<lparr>sm_interpreter = Bash, sm_behavior = Inline, sm_compressed = []\<rparr>"
    using inner(2) demo_script by simp_all
  have plan: "SystemVar ''clip'' [] \<in> set (ep_ops ?plan)" "ep_global_transformers ?plan = []"
    "ep_has_directive_steps ?plan"
    by (simp_all add: compile_clip)
  have "str_to_lowercase ''tab'' = ''tab''" by code_simp
  then have "fe_ai_template (evaluate demo_template_env ?plan no_args UserOrigin) = None"
    using late_clip_script [OF enabled demo_script] clip
    by (simp add: evaluate_def compile_clip evaluate_timed_def timed_op_def clip_value apply_transformers_def
        flush_text_def steps_expansion_def map_filter_simps)
  then show ?thesis
    using clipboard_script_is_run [OF clip late tag inner(1) [symmetric] call(1) enabled call(2) refl plan(1,2) refl,
        of no_args] plan(3)
    by (simp only: if_True list.sel simp_thms)
qed

lemma plan_steps_are_safe_witness:
  "allowed_step demo_template_env (TextStep clip_script)"
proof -
  have "sy_clip (tp_system demo_template_env) ''clip'' = Some clip_script"
    by (simp add: demo_template_env_def demo_system_env_def)
  moreover have "find_str cursor_tag clip_script = None" "clip_script \<noteq> []" "\<not> contains_ai_markers clip_script"
    by code_simp+
  ultimately have "TextStep clip_script \<in>
      set (fe_steps (evaluate demo_template_env (compile demo_template_env ''[clip]'') no_args UserOrigin))"
    by (simp add: evaluate_def compile_clip evaluate_plain_def plain_op_def clip_value apply_transformers_def
        text_steps_def steps_expansion_def)
  from plan_steps_are_safe [OF this] show ?thesis by blast
qed

section \<open>An escaped cursor\<close>

definition escaped_cursor_template :: string where
  "escaped_cursor_template = escaped_cursor_literal @ ''x[cursor]y''"

text \<open>The final pass keeps the escaped cursor as text and puts the caret before the \<open>y\<close>; the plan removes the
  literal and leaves the caret at the end.\<close>

theorem plan_loses_escaped_cursor:
  "fe_steps (evaluate env (compile env escaped_cursor_template) args UserOrigin) = [TextStep ''xy''] \<and>
   fe_steps (finalize sys escaped_cursor_template) = [TextStep ''[cursor]xy'', KeyPressStep ''left'']"
proof
  have tag: "find_next_tag escaped_cursor_template 0 = Some \<lparr>tb_start = 11, tb_end = 18\<rparr>"
    "find_next_tag escaped_cursor_template 19 = None"
    "tag_inner escaped_cursor_template \<lparr>tb_start = 11, tb_end = 18\<rparr> = ''cursor''"
    "slice escaped_cursor_template 0 11 = escaped_cursor_literal @ ''x''"
    "slice escaped_cursor_template 11 19 = ''[cursor]''"
    "drop 19 escaped_cursor_template = ''y''"
    "unescape_segment cursor_tag (escaped_cursor_literal @ ''x'') = ''[cursor]x''" "unescape_segment cursor_tag ''y'' = ''y''"
    "\<not> needs_no_work escaped_cursor_template" "split_pipeline escaped_cursor_template = [escaped_cursor_template]"
    "tag_open \<in> set escaped_cursor_template"
    "unescape_segment escaped_cursor_sentinel (escaped_cursor_literal @ ''x'') = escaped_cursor_sentinel @ ''x''"
    "unescape_segment escaped_cursor_sentinel ''y'' = ''y''"
    by code_simp+
  have cleaned: "replace_all cursor_tag [] ''[cursor]xy'' = ''xy''" "\<not> contains_ai_markers ''[cursor]xy''" by code_simp+
  have "compile env escaped_cursor_template = \<lparr>ep_raw_template = escaped_cursor_template,
      ep_ops = [Literal ''[cursor]x'', CursorOp, Literal ''y''], ep_global_transformers = [],
      ep_has_directive_steps = False, ep_has_cursor = True\<rparr>"
    by (simp add: compile_def tag compile_ops_def compile_loop.simps [of env _ 0] compile_loop.simps [of env _ 19]
        push_unescaped_def push_literal_def ends_in_literal_def compile_tag_def)
  moreover have "fold (plain_op env args bare) [Literal ''[cursor]x'', CursorOp, Literal ''y''] ([], None) = (''[cursor]xy'', Some 9)" for bare
    by (simp add: plain_op_def)
  ultimately show "fe_steps (evaluate env (compile env escaped_cursor_template) args UserOrigin) = [TextStep ''xy'']"
    by (simp add: evaluate_def evaluate_plain_def cleaned steps_expansion_def left_presses_def
        del: fold_simps fold.simps replace_all.simps)
  obtain T U where T: "T = escaped_cursor_sentinel @ ''x[cursor]y''" and U: "U = escaped_cursor_sentinel @ ''xy''" by blast
  have parts: "find_str cursor_tag T = Some 13" "replace_all cursor_tag [] T = U"
    "replace_all escaped_cursor_sentinel cursor_tag U = ''[cursor]xy''" "length U = 14" "T \<noteq> []"
    unfolding T U by code_simp+
  have positioned: "apply_cursor_positioning [TextStep T] = [TextStep ''[cursor]xy'', KeyPressStep ''left'']"
    by (simp add: apply_cursor_positioning_def map_filter_simps parts max_output_length_def)
  have "split_into_steps sys escaped_cursor_template UserOrigin = [TextStep T]"
    by (simp add: split_into_steps_def tag split_steps_loop.simps [of sys _ _ 0] split_steps_loop.simps [of sys _ _ 19]
        append_unescaped_segment_def cursor_is_literal flush_text_def T)
  moreover have "\<not> contains_key_or_delay_directives sys escaped_cursor_template"
    by (simp add: contains_key_or_delay_directives_def tag contains_directives_from.simps [of sys _ 0]
        contains_directives_from.simps [of sys _ 19] not_timed)
  ultimately show "fe_steps (finalize sys escaped_cursor_template) = [TextStep ''[cursor]xy'', KeyPressStep ''left'']"
    using positioned by (simp add: finalize_def finalize_with_origin_def tag steps_expansion_def)
qed

end
