(* ===== verification/Snippets.thy ===== *)
theory Snippets
  imports Validation
begin

text \<open>
  The checks of a text before it is stored, \<open>core/src/db/crud/triggers/validate.rs\<close>: the audit of its tags,
  and the limits on the snippets it refers to.  \<open>tag_texts\<close> is the loop over \<open>find_next_tag\<close> that all of them
  share.  An error carries the tag; its wording, with hints and suggestions, is left out.  The catalog, a
  \<open>HashMap\<close>, is a list of pairs with distinct keys, so that what is proved holds for any order of its entries.
\<close>

datatype trigger_type = WordTrigger | HotkeyTrigger | RegexTrigger

section \<open>The tags of a text\<close>

function tag_texts :: "string \<Rightarrow> nat \<Rightarrow> string list" where
  "tag_texts payload ptr =
     (case find_next_tag payload ptr of
        None \<Rightarrow> [] | Some tag \<Rightarrow> tag_inner payload tag # tag_texts payload (tb_end tag + 1))"
  by pat_completeness auto
termination
  by (relation "measure (\<lambda>(payload, ptr). length payload - ptr)")
    (auto dest!: find_next_tag_less intro!: diff_less_mono2)

declare tag_texts.simps [simp del]

lemma tag_inner_shorter: "find_next_tag payload ptr = Some tag \<Longrightarrow> length (tag_inner payload tag) < length payload"
proof -
  assume found: "find_next_tag payload ptr = Some tag"
  have "length (str_trim t) \<le> length t" for t
    unfolding str_trim_def trim_start_def trim_end_def
    by (metis length_dropWhile_le length_rev order_trans)
  moreover from found have "tb_end tag < length payload" by (auto dest: find_next_tag_less)
  then have "length (slice payload (tb_start tag + 1) (tb_end tag)) < length payload" by (simp add: slice_def)
  ultimately show ?thesis by (metis le_less_trans tag_inner_def)
qed

lemma tag_texts_shorter: "inner \<in> set (tag_texts payload ptr) \<Longrightarrow> length inner < length payload"
proof (induction payload ptr rule: tag_texts.induct)
  case (1 payload ptr)
  show ?case
  proof (cases "find_next_tag payload ptr")
    case (Some tag)
    then show ?thesis using 1 tag_inner_shorter [OF Some] by (auto simp: tag_texts.simps [of payload ptr])
  qed (use 1 in \<open>simp add: tag_texts.simps [of payload ptr]\<close>)
qed

section \<open>Variables a text defines\<close>

text \<open>The \<open>HashSet\<close> is a list; only membership in it is asked.\<close>

function defined_variables :: "string \<Rightarrow> string list" where
  "defined_variables payload =
     concat (map (\<lambda>inner.
       if tag_open \<in> set inner then defined_variables inner
       else
         (let (key, initial) = split_key_default (hd (split_pipeline inner)) in
          if initial \<noteq> None \<and> parse_system_call key = None then [unquoted key] else []))
       (tag_texts payload 0))"
  by pat_completeness auto
termination
  by (relation "measure length") (auto dest: tag_texts_shorter)

declare defined_variables.simps [simp del]

section \<open>The audit\<close>

datatype audit_error =
    UnknownTransformer string string
  | PromptMissing string
  | WrongArity string string nat
  | BadValue string string string
  | ManyCursors
  | SystemDefault string
  | InvalidCall string validation_error
  | DotsReserved string
  | NeedsDefault string
  | EmptyDefault string
  | CursorConflict

definition segment_error :: "('f, 'v) transform_env \<Rightarrow> string \<Rightarrow> string \<Rightarrow> audit_error option" where
  "segment_error env inner segment =
     (if \<not> is_valid_transformer segment then Some (UnknownTransformer inner (str_trim segment))
      else if is_ai_transformer segment \<and> str_trim (extract_ai_prompt segment) = [] then Some (PromptMissing inner)
      else
        (case transformer_call_parts segment of
           Some (name, n) \<Rightarrow>
             (case transformer_arity name of
                Some (lo, hi) \<Rightarrow>
                  if n < lo \<or> hi < n then Some (WrongArity inner name n)
                  else map_option (BadValue inner (str_trim segment)) (transformer_value_error env segment)
              | None \<Rightarrow> map_option (BadValue inner (str_trim segment)) (transformer_value_error env segment))
         | None \<Rightarrow> map_option (BadValue inner (str_trim segment)) (transformer_value_error env segment)))"

fun first_error :: "('f, 'v) transform_env \<Rightarrow> string \<Rightarrow> string list \<Rightarrow> audit_error option" where
  "first_error env inner [] = None"
| "first_error env inner (segment # segments) =
     (case segment_error env inner segment of Some e \<Rightarrow> Some e | None \<Rightarrow> first_error env inner segments)"

definition is_timed_root :: "string \<Rightarrow> bool" where
  "is_timed_root ns \<longleftrightarrow> ns = ''key'' \<or> ns = ''delay'' \<or> ns = ''mouse''"

definition system_tag_error ::
  "validate_env \<Rightarrow> string \<Rightarrow> string \<Rightarrow> string \<Rightarrow> string option \<Rightarrow> nat \<Rightarrow> audit_error option" where
  "system_tag_error env inner ns raw initial cursors =
     (if ns = ''cursor'' \<and> 0 < cursors then Some ManyCursors
      else if initial \<noteq> None then Some (SystemDefault inner)
      else case validate_system_call env ns raw of Inl e \<Rightarrow> Some (InvalidCall inner e) | Inr _ \<Rightarrow> None)"

definition user_tag_error ::
  "string list \<Rightarrow> trigger_type \<Rightarrow> bool \<Rightarrow> string \<Rightarrow> string \<Rightarrow> string option \<Rightarrow> audit_error option" where
  "user_tag_error defined trigger_type in_script inner key initial =
     (let name = unquoted key; is_user = (initial \<noteq> None \<or> name \<in> set defined) in
      if in_script \<and> \<not> is_user then None
      else if CHR ''.'' \<in> set name then Some (DotsReserved inner)
      else case initial of
        None \<Rightarrow>
          if name \<in> set defined \<or> (trigger_type = RegexTrigger \<and> name \<noteq> [] \<and> list_all is_ascii_digit name)
          then None else Some (NeedsDefault inner)
      | Some v \<Rightarrow> if str_trim (unquoted v) = [] then Some (EmptyDefault inner) else None)"

function audit_loop ::
  "('f, 'v) transform_env \<Rightarrow> validate_env \<Rightarrow> string list \<Rightarrow> trigger_type \<Rightarrow> bool \<Rightarrow> string \<Rightarrow> nat \<Rightarrow> nat \<Rightarrow> bool \<Rightarrow>
   audit_error + unit" where
  "audit_loop tenv env defined kind in_script payload ptr cursors timed =
     (case find_next_tag payload ptr of
        None \<Rightarrow> if 0 < cursors \<and> timed then Inl CursorConflict else Inr ()
      | Some tag \<Rightarrow>
          (let inner = tag_inner payload tag; pipeline = split_pipeline inner;
               (key, initial) = split_key_default (hd pipeline);
               nested = (tag_open \<in> set key \<or> tag_close \<in> set key \<or> prefix [CHR 0x03] key);
               rest = audit_loop tenv env defined kind in_script payload (tb_end tag + 1)
           in
           case first_error tenv inner (tl pipeline) of
             Some e \<Rightarrow> Inl e
           | None \<Rightarrow>
               if nested then
                 (if tag_open \<in> set inner then
                    (case audit_loop tenv env defined kind in_script inner 0 0 False of
                       Inl e \<Rightarrow> Inl e | Inr _ \<Rightarrow> rest cursors timed)
                  else rest cursors timed)
               else case parse_system_call key of
                 Some (ns, raw) \<Rightarrow>
                   (case system_tag_error env inner ns raw initial cursors of
                      Some e \<Rightarrow> Inl e
                    | None \<Rightarrow> rest (if ns = ''cursor'' then cursors + 1 else cursors) (timed \<or> is_timed_root ns))
               | None \<Rightarrow>
                   (case user_tag_error defined kind in_script inner key initial of
                      Some e \<Rightarrow> Inl e | None \<Rightarrow> rest cursors timed)))"
  by pat_completeness auto
termination
  by (relation "inv_image (less_than <*lex*> less_than)
      (\<lambda>(tenv, env, defined, kind, in_script, payload, ptr, _). (length payload, length payload - ptr))")
    (auto simp: tag_inner_shorter dest!: find_next_tag_less intro!: diff_less_mono2)

declare audit_loop.simps [simp del]

definition audit_payload_tags_impl_opt ::
  "('f, 'v) transform_env \<Rightarrow> validate_env \<Rightarrow> string list \<Rightarrow> trigger_type \<Rightarrow> bool \<Rightarrow> string \<Rightarrow> audit_error + unit" where
  "audit_payload_tags_impl_opt tenv env defined kind in_script payload =
     audit_loop tenv env defined kind in_script payload 0 0 False"

definition audit_payload_tags_with_trigger_type ::
  "('f, 'v) transform_env \<Rightarrow> validate_env \<Rightarrow> string \<Rightarrow> trigger_type \<Rightarrow> audit_error + unit" where
  "audit_payload_tags_with_trigger_type tenv env payload kind =
     audit_payload_tags_impl_opt tenv env (defined_variables payload) kind False payload"

definition audit_payload_tags :: "('f, 'v) transform_env \<Rightarrow> validate_env \<Rightarrow> string \<Rightarrow> audit_error + unit" where
  "audit_payload_tags tenv env payload = audit_payload_tags_with_trigger_type tenv env payload WordTrigger"

definition audit_script_payload_tags ::
  "('f, 'v) transform_env \<Rightarrow> validate_env \<Rightarrow> string \<Rightarrow> trigger_type \<Rightarrow> audit_error + unit" where
  "audit_script_payload_tags tenv env payload kind =
     audit_payload_tags_impl_opt tenv env (defined_variables payload) kind True payload"

section \<open>What a text uses\<close>

text \<open>Cursors, and whether there is a key, delay or mouse directive.\<close>

definition count_directives_in_template :: "string \<Rightarrow> nat \<times> bool" where
  "count_directives_in_template payload =
     (let keys = map (\<lambda>inner. fst (split_key_default inner)) (tag_texts payload 0) in
      (length (filter (\<lambda>k. k = ''cursor'') keys),
       list_ex (\<lambda>k. k \<noteq> ''cursor'' \<and> (prefix ''key('' k \<or> prefix ''delay('' k \<or> prefix ''mouse('' k)) keys))"

definition count_ai_calls_in_template :: "string \<Rightarrow> nat" where
  "count_ai_calls_in_template payload =
     sum_list (map (\<lambda>inner. length (filter is_ai_transformer (tl (split_pipeline inner)))) (tag_texts payload 0))"

definition referenced_trigger :: "string \<Rightarrow> string option" where
  "referenced_trigger inner =
     (let key = fst (split_key_default inner) in
      case strip_prefix ''use('' key of
        None \<Rightarrow> None
      | Some rest \<Rightarrow> map_option strip_argument_quotes (strip_suffix '')'' rest))"

definition get_referenced_triggers :: "string \<Rightarrow> string list" where
  "get_referenced_triggers payload = List.map_filter referenced_trigger (tag_texts payload 0)"

section \<open>Limits\<close>

datatype limit_error =
    Circular string
  | TooDeep
  | TooManyAiCalls
  | TooManyCursors
  | CursorWithKeys
  | MissingSnippet string

record limits =
  li_depth :: nat
  li_ai :: nat
  li_cursors :: nat
  li_timed :: bool

type_synonym snippets = "(string \<times> string) list"

definition add_template :: "string \<Rightarrow> limits \<Rightarrow> limit_error + limits" where
  "add_template template l =
     (let (cursors, timed) = count_directives_in_template template;
          l' = l\<lparr>li_ai := li_ai l + count_ai_calls_in_template template, li_cursors := li_cursors l + cursors,
                 li_timed := li_timed l \<or> timed\<rparr>
      in if 3 < li_ai l' then Inl TooManyAiCalls
         else if 1 < li_cursors l' then Inl TooManyCursors
         else if 0 < li_cursors l' \<and> li_timed l' then Inl CursorWithKeys
         else Inr l')"

text \<open>\<open>visited\<close> is given back as it was whenever the check succeeds, so it is passed down only.\<close>

function check_limits_recursive ::
    "snippets \<Rightarrow> string list \<Rightarrow> string \<Rightarrow> nat \<Rightarrow> limits \<Rightarrow> limit_error + limits"
  and check_references :: "snippets \<Rightarrow> string list \<Rightarrow> string list \<Rightarrow> nat \<Rightarrow> limits \<Rightarrow> limit_error + limits" where
  "check_limits_recursive catalog visited trig depth l =
     (let l' = l\<lparr>li_depth := max (li_depth l) depth\<rparr> in
      if trig \<in> set visited then Inl (Circular trig)
      else if 5 < li_depth l' then Inl TooDeep
      else case map_of catalog trig of
        None \<Rightarrow> Inr l'
      | Some template \<Rightarrow>
          (case add_template template l' of
             Inl e \<Rightarrow> Inl e
           | Inr l'' \<Rightarrow>
               check_references catalog (trig # visited) (get_referenced_triggers template) (depth + 1) l''))"
| "check_references catalog visited [] depth l = Inr l"
| "check_references catalog visited (r # refs) depth l =
     (case check_limits_recursive catalog visited r depth l of
        Inl e \<Rightarrow> Inl e | Inr l' \<Rightarrow> check_references catalog visited refs depth l')"
  by pat_completeness auto
termination
  by (relation "inv_image (less_than <*lex*> less_than <*lex*> less_than)
      (\<lambda>x. case x of Inl (_, _, _, depth, _) \<Rightarrow> (7 - depth, 0, 0)
                   | Inr (_, _, refs, depth, _) \<Rightarrow> (7 - depth, 1, length refs))")
    (auto simp: max_def split: if_split_asm)

declare check_limits_recursive.simps [simp del]

definition check_snippet :: "snippets \<Rightarrow> string \<times> string \<Rightarrow> limit_error option" where
  "check_snippet catalog entry =
     (case entry of (trig, template) \<Rightarrow>
        (case add_template template \<lparr>li_depth = 0, li_ai = 0, li_cursors = 0, li_timed = False\<rparr> of
           Inl e \<Rightarrow> Some e
         | Inr l \<Rightarrow>
             (case check_references catalog [trig] (get_referenced_triggers template) 1 l of
                Inl e \<Rightarrow> Some e | Inr _ \<Rightarrow> None)))"

definition all_references :: "snippets \<Rightarrow> string list" where
  "all_references catalog = concat (map (\<lambda>(_, template). get_referenced_triggers template) catalog)"

text \<open>The active word triggers with a text, and the new one.\<close>

definition catalog_with :: "(string \<times> trigger_action) list \<Rightarrow> string \<Rightarrow> string \<Rightarrow> string \<Rightarrow> snippets" where
  "catalog_with actions new_trigger new_content action_type =
     (let stored = foldl (\<lambda>cat (trig, act). if ta_action_type act = ''text'' then index_insert trig (ta_output act) cat else cat)
            [] actions
      in if action_type = ''text'' then index_insert new_trigger new_content stored
         else filter (\<lambda>(trig, _). trig \<noteq> new_trigger) stored)"

definition check_catalog :: "snippets \<Rightarrow> limit_error + unit" where
  "check_catalog catalog =
     (case List.map_filter (check_snippet catalog) catalog of
        e # _ \<Rightarrow> Inl e
      | [] \<Rightarrow>
          (case filter (\<lambda>r. map_of catalog r = None) (all_references catalog) of
             r # _ \<Rightarrow> Inl (MissingSnippet r) | [] \<Rightarrow> Inr ()))"

definition validate_trigger_limits ::
  "(string \<times> trigger_action) list option \<Rightarrow> string \<Rightarrow> string \<Rightarrow> string \<Rightarrow> limit_error + unit" where
  "validate_trigger_limits actions new_trigger new_content action_type =
     check_catalog (catalog_with (case actions of Some a \<Rightarrow> a | None \<Rightarrow> []) new_trigger new_content action_type)"

section \<open>Chains of references\<close>

definition refers :: "snippets \<Rightarrow> string \<Rightarrow> string \<Rightarrow> bool" where
  "refers catalog trig r \<longleftrightarrow>
     (\<exists>template. map_of catalog trig = Some template \<and> r \<in> set (get_referenced_triggers template))"

lemma add_template_depth: "add_template template l = Inr l' \<Longrightarrow> li_depth l' = li_depth l"
  by (auto simp: add_template_def Let_def split: prod.split_asm if_split_asm)

lemma check_limits_steps:
  assumes "check_limits_recursive catalog visited trig depth l = Inr l'"
  shows "trig \<notin> set visited \<and> depth \<le> 5 \<and>
    (map_of catalog trig = None \<or>
     (\<exists>template m. map_of catalog trig = Some template \<and>
        check_references catalog (trig # visited) (get_referenced_triggers template) (depth + 1) m = Inr l'))"
  using assms
  by (auto simp: check_limits_recursive.simps [of catalog visited trig] Let_def
      split: if_split_asm option.split_asm sum.split_asm)

lemma checked_references:
  "check_references catalog visited refs depth l = Inr l' \<Longrightarrow> r \<in> set refs \<Longrightarrow>
   \<exists>m m'. check_limits_recursive catalog visited r depth m = Inr m'"
proof (induction refs arbitrary: l)
  case (Cons r' refs)
  then obtain m where m: "check_limits_recursive catalog visited r' depth l = Inr m"
    "check_references catalog visited refs depth m = Inr l'" by (auto split: sum.split_asm)
  then show ?case using Cons by (cases "r = r'") auto
qed simp

text \<open>A chain that starts at a checked reference stays within the depth and does not come back.\<close>

lemma checked_chain:
  "check_limits_recursive catalog visited trig depth l = Inr l' \<Longrightarrow> (refers catalog ^^ n) trig x \<Longrightarrow>
   depth + n \<le> 5 \<and> x \<notin> set visited"
proof (induction n arbitrary: visited trig depth l l')
  case 0
  then show ?case using check_limits_steps [OF 0(1)] by auto
next
  case (Suc n)
  note steps = check_limits_steps [OF Suc.prems(1)]
  from Suc.prems(2) obtain r where r: "refers catalog trig r" "(refers catalog ^^ n) r x"
    by (meson relpowp_Suc_D2)
  then obtain template where template: "map_of catalog trig = Some template" "r \<in> set (get_referenced_triggers template)"
    by (auto simp: refers_def)
  then obtain m where "check_references catalog (trig # visited) (get_referenced_triggers template) (depth + 1) m = Inr l'"
    using steps by auto
  then obtain m m' where "check_limits_recursive catalog (trig # visited) r (depth + 1) m = Inr m'"
    using checked_references [OF _ template(2)] by blast
  from Suc.IH [OF this r(2)] show ?case by simp
qed

lemma accepted_snippet:
  assumes "check_catalog catalog = Inr ()" and "distinct (map fst catalog)" and "map_of catalog trig = Some template"
  shows "\<exists>m m'. check_references catalog [trig] (get_referenced_triggers template) 1 m = Inr m'"
proof -
  have "List.map_filter (check_snippet catalog) catalog = []"
    using assms(1) by (auto simp: check_catalog_def split: list.split_asm)
  moreover have "(trig, template) \<in> set catalog" using assms(3) by (rule map_of_SomeD)
  ultimately have "check_snippet catalog (trig, template) = None"
    by (auto simp: List.map_filter_def filter_empty_conv)
  then show ?thesis by (auto simp: check_snippet_def split: sum.split_asm)
qed

lemma accepted_references:
  assumes "check_catalog catalog = Inr ()" and "distinct (map fst catalog)" and "refers catalog trig r"
  shows "map_of catalog r \<noteq> None"
proof -
  have "\<forall>r\<in>set (all_references catalog). map_of catalog r \<noteq> None"
    using assms(1) by (auto simp: check_catalog_def filter_empty_conv split: list.split_asm)
  moreover have "r \<in> set (all_references catalog)"
    using assms(3) by (auto simp: refers_def all_references_def dest: map_of_SomeD)
  ultimately show ?thesis by blast
qed

text \<open>C6: In a catalog that passes the limits, every chain of the references the check reads is at most five
  long, leads to stored snippets only, and never comes back to where it started.  The check reads the tags at
  the top level of a text whose key is \<open>use(\<close>name\<open>)\<close>; a reference inside a default or inside another tag is not
  read, so that a snippet which includes itself there is accepted (\<open>nested_reference_is_unseen\<close>).\<close>

theorem accepted_snippets_nest_finitely:
  assumes "check_catalog catalog = Inr ()" and "distinct (map fst catalog)"
    and "(refers catalog ^^ Suc n) trig x"
  shows "Suc n \<le> 5 \<and> map_of catalog x \<noteq> None \<and> x \<noteq> trig"
proof -
  from assms(3) obtain r where r: "refers catalog trig r" "(refers catalog ^^ n) r x" by (meson relpowp_Suc_D2)
  then obtain template where template: "map_of catalog trig = Some template" "r \<in> set (get_referenced_triggers template)"
    by (auto simp: refers_def)
  obtain m m' where "check_references catalog [trig] (get_referenced_triggers template) 1 m = Inr m'"
    using accepted_snippet [OF assms(1,2) template(1)] by blast
  then obtain m m' where "check_limits_recursive catalog [trig] r 1 m = Inr m'"
    using checked_references [OF _ template(2)] by blast
  from checked_chain [OF this r(2)] have "1 + n \<le> 5" and "x \<noteq> trig" by simp_all
  moreover from assms(3) obtain y where "refers catalog y x" by (metis relpowp_Suc_E)
  then have "map_of catalog x \<noteq> None" by (rule accepted_references [OF assms(1,2)])
  ultimately show ?thesis by simp
qed

definition demo_snippets :: snippets where
  "demo_snippets = [(''sig'', ''Bye, [use(name)]''), (''name'', ''Ann'')]"

theorem accepted_snippets_nest_finitely_witness:
  "Suc 0 \<le> 5 \<and> map_of demo_snippets ''name'' \<noteq> None \<and> ''name'' \<noteq> ''sig''"
proof (rule accepted_snippets_nest_finitely)
  show "check_catalog demo_snippets = Inr ()" and "distinct (map fst demo_snippets)" by code_simp+
  have "get_referenced_triggers ''Bye, [use(name)]'' = [''name'']" by code_simp
  then show "(refers demo_snippets ^^ Suc 0) ''sig'' ''name''" by (simp add: refers_def demo_snippets_def OO_def)
qed

section \<open>References the limits do not see\<close>

text \<open>A reference in a default is not counted: a snippet that includes itself there is accepted.\<close>

theorem nested_reference_is_unseen:
  "check_catalog [(''a'', ''[x=[use(a)]]'')] = Inr () \<and>
   tag_texts ''[x=[use(a)]]'' 0 = [''x=[use(a)]''] \<and> split_key_default ''x=[use(a)]'' = (''x'', Some ''[use(a)]'') \<and>
   get_referenced_triggers ''[use(a)]'' = [''a'']"
  by code_simp

text \<open>A reference with a transformer is taken for the name of a snippet that is not there, so the check
  refuses a text that expands: the pipeline is only split later.\<close>

theorem piped_reference_is_refused:
  "check_catalog [(''a'', ''x''), (''b'', ''[use(a) | case(upper)]'')] = Inl (MissingSnippet ''a) | case(upper'') \<and>
   split_pipeline ''use(a) | case(upper)'' = [''use(a)'', ''case(upper)'']"
  by code_simp

end
