(* ===== verification/VoicePattern.thy ===== *)
theory VoicePattern
  imports Snippets
begin

text \<open>
  Spoken triggers: their patterns (\<open>core/src/voice/pattern.rs\<close>), the phonetic keys of words
  (\<open>phonetic.rs\<close>), the alignment of a transcript with a pattern (\<open>pattern_matcher.rs\<close>), the phrases of
  \<open>core/src/db/crud/triggers/aliases.rs\<close> and the gate that decides whether a trigger fires (\<open>gate.rs\<close>).

  The scores are values of any linear order: the two string similarities of the \<open>strsim\<close> crate and the
  floating-point arithmetic on scores are the operations of \<open>score_ops\<close>; no score is NaN.  NFC is the identity
  on the characters of this model.
\<close>

section \<open>Patterns\<close>

datatype voice_part = Anchor string | Slot string

datatype pattern_error = EmptyPattern | UnclosedSlot | EmptySlot

definition push_anchor :: "voice_part list \<Rightarrow> string \<Rightarrow> voice_part list" where
  "push_anchor parts t = (if t = [] then parts else parts @ [Anchor t])"

definition slot_name :: "string \<Rightarrow> string" where
  "slot_name raw = (case split_once CHR ''='' raw of Some (name, _) \<Rightarrow> str_trim name | None \<Rightarrow> raw)"

function pattern_loop :: "string \<Rightarrow> voice_part list \<Rightarrow> pattern_error + voice_part list" where
  "pattern_loop rest parts =
     (if rest = [] then Inr parts
      else case find_char tag_open rest of
        None \<Rightarrow> Inr (push_anchor parts (str_trim rest))
      | Some opened \<Rightarrow>
          (case find_char tag_close (drop opened rest) of
             None \<Rightarrow> Inl UnclosedSlot
           | Some n \<Rightarrow>
               (let closed = opened + n; name = slot_name (str_trim (slice rest (opened + 1) closed)) in
                if name = [] then Inl EmptySlot
                else pattern_loop (trim_start (drop (closed + 1) rest))
                  (push_anchor parts (str_trim (take opened rest)) @ [Slot name]))))"
  by pat_completeness auto
termination
proof (relation "measure (\<lambda>(rest, parts). length rest)")
  fix rest :: string and opened n closed name parts
  assume "rest \<noteq> []"
  have "length (trim_start t) \<le> length t" for t by (simp add: trim_start_def length_dropWhile_le)
  from this [of "drop (closed + 1) rest"] \<open>rest \<noteq> []\<close>
  show "((trim_start (drop (closed + 1) rest), push_anchor parts (str_trim (take opened rest)) @ [Slot name]), rest, parts)
      \<in> measure (\<lambda>(rest, parts). length rest)"
    by (cases rest) auto
qed simp

declare pattern_loop.simps [simp del]

definition parse_pattern :: "string \<Rightarrow> pattern_error + voice_part list" where
  "parse_pattern input =
     (if str_trim input = [] then Inl EmptyPattern else pattern_loop (str_trim input) [])"

fun is_slot :: "voice_part \<Rightarrow> bool" where
  "is_slot (Slot _) = True"
| "is_slot (Anchor _) = False"

definition is_parameterized :: "voice_part list \<Rightarrow> bool" where
  "is_parameterized parts = list_ex is_slot parts"

fun slot_names :: "voice_part list \<Rightarrow> string list" where
  "slot_names [] = []"
| "slot_names (Slot name # parts) = name # slot_names parts"
| "slot_names (Anchor _ # parts) = slot_names parts"

section \<open>Phonetic keys\<close>

definition is_front_vowel :: "char \<Rightarrow> bool" where
  "is_front_vowel c \<longleftrightarrow> c \<in> set ''EIY''"

definition push_key :: "char \<Rightarrow> char option \<times> string \<Rightarrow> char option \<times> string" where
  "push_key c state =
     (case state of (last_pushed, key) \<Rightarrow> if last_pushed = Some c then state else (Some c, key @ [c]))"

definition next_letter :: "string \<Rightarrow> nat \<Rightarrow> char option" where
  "next_letter letters i = (if i + 1 < length letters then Some (letters ! (i + 1)) else None)"

definition follows :: "string \<Rightarrow> nat \<Rightarrow> (char \<Rightarrow> bool) \<Rightarrow> bool" where
  "follows letters i p = (case next_letter letters i of Some c \<Rightarrow> p c | None \<Rightarrow> False)"

text \<open>What one letter adds to the key, and how many letters it takes.\<close>

definition encode_letter ::
  "string \<Rightarrow> bool \<Rightarrow> nat \<Rightarrow> char option \<times> string \<Rightarrow> (char option \<times> string) \<times> nat" where
  "encode_letter letters alternate i state =
     (let c = letters ! i; after = follows letters i; h = after (\<lambda>d. d = CHR ''H'') in
      if c \<in> set ''AEIOUY'' then ((None, snd state), 1)
      else if c \<in> set ''HW'' then (state, 1)
      else if c = CHR ''B'' then
        (if 0 < i \<and> letters ! (i - 1) = CHR ''M'' \<and> next_letter letters i = None then (state, 1)
         else (push_key CHR ''P'' state, 1))
      else if c = CHR ''C'' then
        (if h then (push_key CHR ''X'' state, 2)
         else if after is_front_vowel then (push_key (if alternate then CHR ''K'' else CHR ''S'') state, 1)
         else (push_key CHR ''K'' state, 1))
      else if c = CHR ''D'' then (push_key CHR ''T'' state, 1)
      else if c \<in> set ''FJLMNR'' then (push_key c state, 1)
      else if c = CHR ''G'' then
        (if 0 < i \<and> letters ! (i - 1) = CHR ''N'' \<and> \<not> after (\<lambda>d. d \<in> set ''AEIOUY'') then (state, 1)
         else if after is_front_vowel then (push_key (if alternate then CHR ''K'' else CHR ''J'') state, 1)
         else (push_key CHR ''K'' state, 1))
      else if c = CHR ''K'' then (push_key CHR ''K'' state, 1)
      else if c = CHR ''P'' then (if h then (push_key CHR ''F'' state, 2) else (push_key CHR ''P'' state, 1))
      else if c = CHR ''Q'' then (push_key CHR ''K'' state, 1)
      else if c = CHR ''Z'' then (push_key CHR ''S'' state, 1)
      else if c = CHR ''S'' then (if h then (push_key CHR ''X'' state, 2) else (push_key CHR ''S'' state, 1))
      else if c = CHR ''T'' then (push_key CHR ''T'' state, 1)
      else if c = CHR ''V'' then (push_key CHR ''F'' state, 1)
      else if c = CHR ''X'' then (push_key CHR ''S'' (push_key CHR ''K'' state), 1)
      else (state, 1))"

lemma encode_letter_advances: "0 < snd (encode_letter letters alternate i state)"
  by (simp add: encode_letter_def Let_def)

function encode_loop :: "string \<Rightarrow> bool \<Rightarrow> nat \<Rightarrow> char option \<times> string \<Rightarrow> string" where
  "encode_loop letters alternate i state =
     (if i < length letters then
        (case encode_letter letters alternate i state of
           (state', n) \<Rightarrow> encode_loop letters alternate (i + n) state')
      else snd state)"
  by pat_completeness auto
termination
proof (relation "measure (\<lambda>(letters, alternate, i, state). length letters - i)")
  fix letters :: string and alternate i state x y
  assume "i < length letters" and "(x, y) = encode_letter letters alternate i state"
  then have "0 < y" and "i < length letters" using encode_letter_advances [of letters alternate i state] by (metis snd_conv)+
  then show "((letters, alternate, i + y, x), letters, alternate, i, state)
      \<in> measure (\<lambda>(letters, alternate, i, state). length letters - i)" by simp
qed simp

declare encode_loop.simps [simp del]

text \<open>Silent initial clusters, and the first letter kept when it is a vowel, \<open>H\<close> or \<open>W\<close>.\<close>

definition encode_start :: "string \<Rightarrow> nat \<times> char option \<times> string" where
  "encode_start letters =
     (case letters of
        [] \<Rightarrow> (0, None, [])
      | c # cs \<Rightarrow>
          if cs \<noteq> [] \<and> ((c \<in> set ''KGP'' \<and> hd cs = CHR ''N'') \<or> (c = CHR ''W'' \<and> hd cs = CHR ''R'')) then (1, None, [])
          else if cs \<noteq> [] \<and> c = CHR ''X'' then (1, Some CHR ''S'', ''S'')
          else if c \<in> set ''AEIOUYHW'' then (1, push_key c (None, []))
          else (0, None, []))"

definition encode_word :: "string \<Rightarrow> bool \<Rightarrow> string" where
  "encode_word letters alternate =
     (if letters = [] then []
      else case encode_start letters of (i, state) \<Rightarrow> encode_loop letters alternate i state)"

definition double_metaphone :: "string \<Rightarrow> string \<times> string" where
  "double_metaphone word =
     (let letters = filter (\<lambda>c. is_ascii_uppercase c \<or> is_ascii_lowercase c) (str_to_uppercase word)
      in (encode_word letters False, encode_word letters True))"

definition primary_key :: "string \<Rightarrow> string" where
  "primary_key word = fst (double_metaphone word)"

section \<open>Similarity\<close>

text \<open>\<open>so_edit\<close> and \<open>so_jaro\<close> are the two similarities; \<open>so_mean\<close> divides the sum of a list by a count,
  \<open>so_mix\<close> weighs the three parts of a score, \<open>so_const\<close> is a number of hundredths.\<close>

record 'v score_ops =
  so_edit :: "string \<Rightarrow> string \<Rightarrow> 'v"
  so_jaro :: "string \<Rightarrow> string \<Rightarrow> 'v"
  so_const :: "nat \<Rightarrow> 'v"
  so_mean :: "'v list \<Rightarrow> nat \<Rightarrow> 'v"
  so_ratio :: "nat \<Rightarrow> nat \<Rightarrow> 'v"
  so_mix :: "'v \<Rightarrow> 'v \<Rightarrow> 'v \<Rightarrow> 'v"
  so_minus :: "'v \<Rightarrow> 'v \<Rightarrow> 'v"

definition word_sim :: "'v::linorder score_ops \<Rightarrow> string \<Rightarrow> string \<Rightarrow> 'v" where
  "word_sim env a b = max (so_edit env a b) (so_jaro env a b)"

definition best :: "'v::linorder score_ops \<Rightarrow> 'v list \<Rightarrow> 'v" where
  "best env scores = foldl max (so_const env 0) scores"

definition keys_sim :: "'v::linorder score_ops \<Rightarrow> string \<times> string \<Rightarrow> string \<times> string \<Rightarrow> 'v" where
  "keys_sim env a b =
     best env (map (\<lambda>(x, y). word_sim env x y)
       (filter (\<lambda>(x, y). x \<noteq> [] \<and> y \<noteq> [])
         [(fst a, fst b), (fst a, snd b), (snd a, fst b), (snd a, snd b)]))"

section \<open>Aligning a transcript\<close>

definition anchor_word_match :: "'v::linorder score_ops \<Rightarrow> string \<Rightarrow> string \<Rightarrow> bool" where
  "anchor_word_match env spoken anchor \<longleftrightarrow>
     eq_ignore_ascii_case spoken anchor \<or>
     so_const env 80 \<le> word_sim env (str_to_lowercase spoken) (str_to_lowercase anchor) \<or>
     so_const env 80 \<le> keys_sim env (double_metaphone (str_to_lowercase spoken)) (double_metaphone (str_to_lowercase anchor))"

definition trim_punctuation :: "string \<Rightarrow> string" where
  "trim_punctuation t = rev (dropWhile is_ascii_punctuation (rev (dropWhile is_ascii_punctuation t)))"

definition clean_slot_text :: "string \<Rightarrow> string" where
  "clean_slot_text raw = str_trim (trim_punctuation (str_trim raw))"

fun match_words :: "'v::linorder score_ops \<Rightarrow> string list \<Rightarrow> nat \<Rightarrow> string list \<Rightarrow> nat option" where
  "match_words env tokens idx [] = Some idx"
| "match_words env tokens idx (word # words) =
     (if idx < length tokens \<and> anchor_word_match env (tokens ! idx) word
      then match_words env tokens (idx + 1) words else None)"

definition match_anchor_at :: "'v::linorder score_ops \<Rightarrow> string list \<Rightarrow> nat \<Rightarrow> string \<Rightarrow> nat option" where
  "match_anchor_at env tokens pos anchor = match_words env tokens pos (split_whitespace anchor)"

text \<open>\<open>match_slot\<close> is the loop over the ends of a slot, from the last one to its start; it starts at \<open>pos + n\<close>.
  The result is the end of the match and what the slots took.\<close>

function match_parts ::
    "'v::linorder score_ops \<Rightarrow> voice_part list \<Rightarrow> string list \<Rightarrow> nat \<Rightarrow> (nat \<times> (string \<times> string) list) option"
  and match_slot ::
    "'v::linorder score_ops \<Rightarrow> string \<Rightarrow> voice_part list \<Rightarrow> string list \<Rightarrow> nat \<Rightarrow> nat \<Rightarrow>
     (nat \<times> (string \<times> string) list) option" where
  "match_parts env [] tokens pos = Some (pos, [])"
| "match_parts env (Anchor anchor # rest) tokens pos =
     (case match_anchor_at env tokens pos anchor of None \<Rightarrow> None | Some e \<Rightarrow> match_parts env rest tokens e)"
| "match_parts env (Slot name # rest) tokens pos =
     (if pos \<le> length tokens then match_slot env name rest tokens pos (length tokens - pos) else None)"
| "match_slot env name rest tokens pos n =
     (let cut = pos + n; taken = clean_slot_text (join_with '' '' (take n (drop pos tokens)));
          other = (case n of 0 \<Rightarrow> None | Suc m \<Rightarrow> match_slot env name rest tokens pos m) in
      if taken = [] then other
      else case match_parts env rest tokens cut of
        None \<Rightarrow> other
      | Some (e, vs) \<Rightarrow> if rest = [] \<and> e \<noteq> length tokens then other else Some (e, (name, taken) # vs))"
  by pat_completeness auto
termination
  by (relation "inv_image (less_than <*lex*> less_than)
      (\<lambda>x. case x of Inl (env, parts, tokens, pos) \<Rightarrow> (length parts, 0)
                   | Inr (env, name, rest, tokens, pos, n) \<Rightarrow> (length rest, Suc n))") auto

definition match_voice_pattern :: "'v::linorder score_ops \<Rightarrow> string \<Rightarrow> voice_part list \<Rightarrow> arg_map option" where
  "match_voice_pattern env transcript parts =
     (let tokens = split_whitespace transcript in
      if tokens = [] then None
      else case match_parts env parts tokens 0 of
        None \<Rightarrow> None
      | Some (e, vs) \<Rightarrow>
          if e \<noteq> length tokens then None
          else Some \<lparr>a_named = foldl (\<lambda>m (name, v). index_insert name v m) [] vs, a_positional = map snd vs\<rparr>)"

section \<open>Phrases\<close>

datatype invocation_type = WordInvocation | HotkeyInvocation | RegexInvocation | VoiceInvocation

fun invocation_db_str :: "invocation_type \<Rightarrow> string" where
  "invocation_db_str WordInvocation = ''word''"
| "invocation_db_str HotkeyInvocation = ''hotkey''"
| "invocation_db_str RegexInvocation = ''regex''"
| "invocation_db_str VoiceInvocation = ''voice''"

definition invocation_parse_str :: "string \<Rightarrow> invocation_type option" where
  "invocation_parse_str s =
     (let t = str_to_lowercase (str_trim s) in
      if t = ''word'' then Some WordInvocation
      else if t = ''hotkey'' then Some HotkeyInvocation
      else if t = ''regex'' then Some RegexInvocation
      else if t = ''voice'' then Some VoiceInvocation
      else None)"

definition threshold_for_phrase :: "'v score_ops \<Rightarrow> string \<Rightarrow> 'v" where
  "threshold_for_phrase env phrase =
     so_const env (if length phrase \<le> 11 then 85 else if length phrase \<le> 24 then 75 else 65)"

datatype phrase_error = EmptyPhrase | LongPhrase | ReservedPhrase

definition validate_voice_phrase :: "string \<Rightarrow> phrase_error + string" where
  "validate_voice_phrase phrase =
     (let trimmed = str_trim phrase; lowered = str_to_lowercase trimmed in
      if trimmed = [] then Inl EmptyPhrase
      else if 200 < length trimmed then Inl LongPhrase
      else if lowered = ''type this'' \<or> prefix ''type this '' lowered then Inl ReservedPhrase
      else Inr lowered)"

definition normalize_voice_phrase :: "string \<Rightarrow> string" where
  "normalize_voice_phrase raw =
     join_with '' '' (split_whitespace (str_to_lowercase (map (\<lambda>c. if is_ascii_punctuation c then CHR '' '' else c) raw)))"

section \<open>The gate\<close>

record 'v resolved_invocation =
  ri_trigger_id :: string
  ri_invocation :: string
  ri_type :: invocation_type
  ri_action :: trigger_action
  ri_require_confirmation :: bool
  ri_strict_threshold :: 'v

record 'v gate_witnesses =
  gw_vad :: 'v
  gw_kws :: 'v
  gw_transcript :: string

datatype drop_reason = WeakSpeech | WeakKeyword | WeakTranscript

datatype 'v gate_decision = Fire "'v resolved_invocation" | AskConfirm "'v resolved_invocation" | Drop drop_reason

definition lexical_score :: "'v::linorder score_ops \<Rightarrow> string list \<Rightarrow> string list \<Rightarrow> string \<Rightarrow> string \<Rightarrow> 'v" where
  "lexical_score env ts ps norm_phrase norm_transcript =
     max (so_mean env (map (\<lambda>p. best env (map (word_sim env p) ts)) ps) (length ps))
       (so_edit env norm_phrase norm_transcript)"

definition phonetic_score :: "'v::linorder score_ops \<Rightarrow> string list \<Rightarrow> string list \<Rightarrow> 'v" where
  "phonetic_score env ts ps =
     so_mean env (map (\<lambda>p. best env (map (\<lambda>t. keys_sim env (double_metaphone p) (double_metaphone t)) ts)) ps) (length ps)"

definition token_jaccard :: "'v score_ops \<Rightarrow> string list \<Rightarrow> string list \<Rightarrow> 'v" where
  "token_jaccard env ts ps =
     (let union = length (remdups (ts @ ps)) in
      if 0 < union then so_ratio env (length (remdups (filter (\<lambda>t. t \<in> set ps) ts))) union else so_const env 0)"

definition score_trigger :: "'v::linorder score_ops \<Rightarrow> string \<Rightarrow> string \<Rightarrow> 'v" where
  "score_trigger env transcript phrase =
     (let norm_transcript = normalize_voice_phrase transcript; norm_phrase = normalize_voice_phrase phrase;
          ts = split_whitespace norm_transcript; ps = split_whitespace norm_phrase in
      if ts = [] \<or> ps = [] then so_const env 0
      else so_mix env (lexical_score env ts ps norm_phrase norm_transcript) (phonetic_score env ts ps)
        (token_jaccard env ts ps))"

definition verifier_similarity :: "'v::linorder score_ops \<Rightarrow> string \<Rightarrow> string \<Rightarrow> 'v" where
  "verifier_similarity env norm_phrase norm_verif =
     (if norm_phrase = norm_verif \<or> find_str norm_phrase norm_verif \<noteq> None then so_const env 100
      else max (score_trigger env norm_verif norm_phrase) (so_edit env norm_phrase norm_verif))"

definition evaluate_gate ::
  "'v::linorder score_ops \<Rightarrow> 'v gate_witnesses \<Rightarrow> 'v resolved_invocation \<Rightarrow> 'v gate_decision" where
  "evaluate_gate env w trigger =
     (let norm_phrase = str_to_lowercase (str_trim (ri_invocation trigger));
          norm_verif = str_to_lowercase (str_trim (gw_transcript w)) in
      if gw_vad w < so_const env 50 then Drop WeakSpeech
      else if gw_kws w < ri_strict_threshold trigger then Drop WeakKeyword
      else if verifier_similarity env norm_phrase norm_verif
              < min (ri_strict_threshold trigger) (threshold_for_phrase env norm_phrase)
      then Drop WeakTranscript
      else if ri_require_confirmation trigger then AskConfirm trigger else Fire trigger)"

section \<open>Ranking\<close>

record 'v trigger_match =
  tr_trigger :: "'v resolved_invocation"
  tr_score :: 'v

definition runner_up_margin :: nat where
  "runner_up_margin = 10"

text \<open>A stable sort by falling score.\<close>

definition by_score :: "('v::linorder \<times> 'a) list \<Rightarrow> ('v \<times> 'a) list" where
  "by_score scored = rev (sort_key fst (rev scored))"

definition rank_voice_triggers ::
  "'v::linorder score_ops \<Rightarrow> string \<Rightarrow> 'v resolved_invocation list \<Rightarrow> 'v trigger_match option" where
  "rank_voice_triggers env transcript triggers =
     (case by_score (map (\<lambda>t. (score_trigger env transcript (ri_invocation t), t)) triggers) of
        [] \<Rightarrow> None
      | (top_score, winner) # others \<Rightarrow>
          if top_score < threshold_for_phrase env (normalize_voice_phrase (ri_invocation winner)) then None
          else if top_score < so_const env 90 \<and> others \<noteq> [] \<and>
              so_minus env top_score (fst (hd others)) < so_const env runner_up_margin then None
          else Some \<lparr>tr_trigger = winner, tr_score = top_score\<rparr>)"

fun anchor_text :: "voice_part list \<Rightarrow> string list" where
  "anchor_text [] = []"
| "anchor_text (Anchor t # parts) = t # anchor_text parts"
| "anchor_text (Slot _ # parts) = anchor_text parts"

type_synonym 'v ranked_match = "'v trigger_match \<times> arg_map"

definition voice_pattern_of :: "'v resolved_invocation \<Rightarrow> voice_part list option" where
  "voice_pattern_of t =
     (case parse_pattern (ri_invocation t) of
        Inr parts \<Rightarrow> if is_parameterized parts then Some parts else None | Inl _ \<Rightarrow> None)"

definition better_pattern ::
  "'v::linorder score_ops \<Rightarrow> string \<Rightarrow> 'v ranked_match option \<Rightarrow> 'v resolved_invocation \<Rightarrow> 'v ranked_match option" where
  "better_pattern env transcript best_so_far trigger =
     (case voice_pattern_of trigger of
        None \<Rightarrow> best_so_far
      | Some parts \<Rightarrow>
          (case match_voice_pattern env transcript parts of
             None \<Rightarrow> best_so_far
           | Some args \<Rightarrow>
               (let anchors = join_with '' '' (anchor_text parts); score = score_trigger env transcript anchors in
                if score < threshold_for_phrase env (normalize_voice_phrase anchors) then best_so_far
                else if (case best_so_far of None \<Rightarrow> True | Some (m, _) \<Rightarrow> tr_score m < score)
                then Some (\<lparr>tr_trigger = trigger, tr_score = score\<rparr>, args) else best_so_far)))"

definition word_total :: "string \<Rightarrow> nat" where
  "word_total phrase = length (split_whitespace (normalize_voice_phrase phrase))"

definition rank_voice_invocations ::
  "'v::linorder score_ops \<Rightarrow> string \<Rightarrow> 'v resolved_invocation list \<Rightarrow> 'v ranked_match option" where
  "rank_voice_invocations env transcript triggers =
     (let static_rank = rank_voice_triggers env transcript (filter (\<lambda>t. voice_pattern_of t = None) triggers);
          plain = map_option (\<lambda>m. (m, no_args)) static_rank in
      if (case static_rank of None \<Rightarrow> False
          | Some m \<Rightarrow> so_const env 90 \<le> tr_score m \<and> word_total transcript = word_total (ri_invocation (tr_trigger m)))
      then plain
      else case foldl (better_pattern env transcript) None triggers of
        Some winner \<Rightarrow> Some winner
      | None \<Rightarrow> plain)"

end
