(* ===== verification/VoiceMatching.thy ===== *)
theory VoiceMatching
  imports VoicePattern
begin

text \<open>
  The alignment of a transcript with a pattern finds a match exactly when there is one: \<open>fits\<close> says which words
  belong to which part, and the loops of \<open>pattern_matcher.rs\<close> are shown sound and complete for it.
\<close>

section \<open>What it means to match\<close>

inductive fits :: "'v::linorder score_ops \<Rightarrow> voice_part list \<Rightarrow> string list \<Rightarrow> (string \<times> string) list \<Rightarrow> bool"
  for env :: "'v::linorder score_ops" where
  fits_done: "fits env [] [] []"
| fits_anchor:
    "list_all2 (anchor_word_match env) ws (split_whitespace a) \<Longrightarrow> fits env parts ts vs \<Longrightarrow>
     fits env (Anchor a # parts) (ws @ ts) vs"
| fits_slot:
    "clean_slot_text (join_with '' '' ws) = v \<Longrightarrow> v \<noteq> [] \<Longrightarrow> fits env parts ts vs \<Longrightarrow>
     fits env (Slot name # parts) (ws @ ts) ((name, v) # vs)"

inductive_cases fits_NilE: "fits env [] ts vs"
inductive_cases fits_AnchorE: "fits env (Anchor a # parts) ts vs"
inductive_cases fits_SlotE: "fits env (Slot name # parts) ts vs"

section \<open>Anchors\<close>

lemma match_words_iff:
  "idx \<le> length tokens \<Longrightarrow>
   match_words env tokens idx words = Some e \<longleftrightarrow>
   e = idx + length words \<and> e \<le> length tokens \<and>
   list_all2 (anchor_word_match env) (take (length words) (drop idx tokens)) words"
proof (induction words arbitrary: idx)
  case (Cons w words)
  show ?case
  proof (cases "idx < length tokens")
    case True
    then have "take (length (w # words)) (drop idx tokens) = tokens ! idx # take (length words) (drop (Suc idx) tokens)"
      by (simp add: Cons_nth_drop_Suc [symmetric])
    then show ?thesis using True Cons.IH [of "Suc idx"] by auto
  qed (use Cons.prems in auto)
qed auto

lemma match_anchor_iff:
  "idx \<le> length tokens \<Longrightarrow>
   match_anchor_at env tokens idx a = Some e \<longleftrightarrow>
   e = idx + length (split_whitespace a) \<and> e \<le> length tokens \<and>
   list_all2 (anchor_word_match env) (take (length (split_whitespace a)) (drop idx tokens)) (split_whitespace a)"
  by (simp add: match_anchor_at_def match_words_iff)

lemma fits_anchor_drop:
  assumes "fits env (Anchor a # parts) (drop pos tokens) vs" and "pos \<le> length tokens"
  shows "match_anchor_at env tokens pos a = Some (pos + length (split_whitespace a)) \<and>
    pos + length (split_whitespace a) \<le> length tokens \<and> fits env parts (drop (pos + length (split_whitespace a)) tokens) vs"
  using assms(1)
proof (rule fits_AnchorE)
  fix ws ts
  assume split: "drop pos tokens = ws @ ts" and words: "list_all2 (anchor_word_match env) ws (split_whitespace a)"
    and rest: "fits env parts ts vs"
  have len: "length ws = length (split_whitespace a)" using words by (rule list_all2_lengthD)
  have total: "pos + length ws \<le> length tokens" using arg_cong [OF split, of length] assms(2) by simp
  have "ts = drop (length ws) (drop pos tokens)" and "take (length ws) (drop pos tokens) = ws" using split by simp_all
  then have ts: "ts = drop (pos + length ws) tokens" and ws: "take (length ws) (drop pos tokens) = ws"
    by (simp_all add: add.commute)
  have "match_anchor_at env tokens pos a = Some (pos + length ws)"
    using words total ws len assms(2) by (simp add: match_anchor_iff)
  then show ?thesis using len total rest ts by simp
qed

section \<open>The loop over the ends of a slot\<close>

definition good_cut :: "'v::linorder score_ops \<Rightarrow> voice_part list \<Rightarrow> string list \<Rightarrow> nat \<Rightarrow> nat \<Rightarrow> bool" where
  "good_cut env rest tokens pos n \<longleftrightarrow>
     clean_slot_text (join_with '' '' (take n (drop pos tokens))) \<noteq> [] \<and>
     (case match_parts env rest tokens (pos + n) of
        None \<Rightarrow> False | Some (e, vs) \<Rightarrow> rest = [] \<longrightarrow> e = length tokens)"

declare match_parts.simps(3) [simp del] match_slot.simps [simp del]

lemma match_slot_step:
  "match_slot env name rest tokens pos n =
   (if good_cut env rest tokens pos n
    then map_option (\<lambda>(e, vs). (e, (name, clean_slot_text (join_with '' '' (take n (drop pos tokens)))) # vs))
      (match_parts env rest tokens (pos + n))
    else case n of 0 \<Rightarrow> None | Suc m \<Rightarrow> match_slot env name rest tokens pos m)"
  by (auto simp: match_slot.simps [of env name rest tokens pos n] good_cut_def Let_def split: option.split)

lemma match_slot_last:
  "match_slot env name rest tokens pos n = Some (e, vs) \<Longrightarrow>
   \<exists>m vs'. m \<le> n \<and> good_cut env rest tokens pos m \<and> match_parts env rest tokens (pos + m) = Some (e, vs') \<and>
     vs = (name, clean_slot_text (join_with '' '' (take m (drop pos tokens)))) # vs' \<and>
     (\<forall>k. m < k \<and> k \<le> n \<longrightarrow> \<not> good_cut env rest tokens pos k)"
proof (induction n)
  case 0
  then show ?case by (auto simp: match_slot_step [of env name rest tokens pos 0] split: if_split_asm)
next
  case (Suc n)
  show ?case
  proof (cases "good_cut env rest tokens pos (Suc n)")
    case True
    then show ?thesis using Suc.prems
      by (intro exI [of _ "Suc n"]) (auto simp: match_slot_step [of env name rest tokens pos "Suc n"])
  next
    case False
    then have "match_slot env name rest tokens pos n = Some (e, vs)"
      using Suc.prems by (simp add: match_slot_step [of env name rest tokens pos "Suc n"])
    then obtain m vs' where m: "m \<le> n" "good_cut env rest tokens pos m" "match_parts env rest tokens (pos + m) = Some (e, vs')"
      "vs = (name, clean_slot_text (join_with '' '' (take m (drop pos tokens)))) # vs'"
      "\<forall>k. m < k \<and> k \<le> n \<longrightarrow> \<not> good_cut env rest tokens pos k"
      using Suc.IH by blast
    then show ?thesis using False by (intro exI [of _ m]) (auto simp: le_Suc_eq)
  qed
qed

lemma match_slot_found: "good_cut env rest tokens pos m \<Longrightarrow> m \<le> n \<Longrightarrow> match_slot env name rest tokens pos n \<noteq> None"
proof (induction n)
  case 0
  then show ?case by (auto simp: match_slot_step [of env name rest tokens pos 0] good_cut_def split: option.split_asm)
next
  case (Suc n)
  then show ?case
    by (cases "good_cut env rest tokens pos (Suc n)")
      (auto simp: match_slot_step [of env name rest tokens pos "Suc n"] good_cut_def le_Suc_eq split: option.split_asm)
qed

section \<open>What is found fits\<close>

lemma matched_parts_fit:
  "match_parts env parts tokens pos = Some (e, vs) \<Longrightarrow> pos \<le> length tokens \<Longrightarrow>
   pos \<le> e \<and> e \<le> length tokens \<and> fits env parts (take (e - pos) (drop pos tokens)) vs"
proof (induction parts arbitrary: pos e vs)
  case Nil
  then show ?case by (simp add: fits_done)
next
  case (Cons part rest)
  have join: "take (e - pos) (drop pos tokens) = take (q - pos) (drop pos tokens) @ take (e - q) (drop q tokens)"
    if "pos \<le> q" "q \<le> e" for q
  proof -
    have "take ((q - pos) + (e - q)) (drop pos tokens) =
        take (q - pos) (drop pos tokens) @ take (e - q) (drop (q - pos) (drop pos tokens))" by (rule take_add)
    then show ?thesis using that by simp
  qed
  show ?case
  proof (cases part)
    case (Anchor a)
    then obtain q where q: "match_anchor_at env tokens pos a = Some q" "match_parts env rest tokens q = Some (e, vs)"
      using Cons.prems(1) by (auto split: option.split_asm)
    note found = q(1) [unfolded match_anchor_iff [OF Cons.prems(2)]]
    have IH: "q \<le> e \<and> e \<le> length tokens \<and> fits env rest (take (e - q) (drop q tokens)) vs"
      by (rule Cons.IH [OF q(2)]) (use found in simp)
    have "fits env (Anchor a # rest) (take (q - pos) (drop pos tokens) @ take (e - q) (drop q tokens)) vs"
      by (rule fits_anchor) (use found IH in simp_all)
    then show ?thesis using Anchor found IH join [of q] by simp
  next
    case (Slot name)
    then have "match_slot env name rest tokens pos (length tokens - pos) = Some (e, vs)"
      using Cons.prems by (simp add: match_parts.simps(3))
    then obtain m vs' where m: "m \<le> length tokens - pos" "good_cut env rest tokens pos m"
      "match_parts env rest tokens (pos + m) = Some (e, vs')"
      "vs = (name, clean_slot_text (join_with '' '' (take m (drop pos tokens)))) # vs'"
      using match_slot_last by blast
    have IH: "pos + m \<le> e \<and> e \<le> length tokens \<and> fits env rest (take (e - (pos + m)) (drop (pos + m) tokens)) vs'"
      by (rule Cons.IH [OF m(3)]) (use m(1) Cons.prems(2) in simp)
    have "fits env (Slot name # rest) (take m (drop pos tokens) @ take (e - (pos + m)) (drop (pos + m) tokens)) vs"
      unfolding m(4) by (rule fits_slot) (use m(2) IH in \<open>simp_all add: good_cut_def\<close>)
    then show ?thesis using Slot IH join [of "pos + m"] by simp
  qed
qed

section \<open>What fits is found\<close>

definition spoken :: "string \<Rightarrow> bool" where
  "spoken word = list_ex (\<lambda>c. \<not> is_ascii_punctuation c \<and> \<not> is_whitespace c) word"

lemma kept_by_dropWhile: "c \<in> set xs \<Longrightarrow> \<not> p c \<Longrightarrow> c \<in> set (dropWhile p xs)"
  by (induction xs) auto

lemma kept_by_trim: "c \<in> set t \<Longrightarrow> \<not> is_whitespace c \<Longrightarrow> c \<in> set (str_trim t)"
  unfolding str_trim_def trim_start_def trim_end_def
  by (simp add: kept_by_dropWhile)

lemma kept_by_join: "w \<in> set ws \<Longrightarrow> c \<in> set w \<Longrightarrow> c \<in> set (join_with sep ws)"
  by (induction sep ws rule: join_with.induct) auto

lemma spoken_words_kept:
  assumes "ws \<noteq> []" and "\<forall>w\<in>set ws. spoken w"
  shows "clean_slot_text (join_with '' '' ws) \<noteq> []"
proof -
  from assms obtain w c where w: "w \<in> set ws" "c \<in> set w" "\<not> is_ascii_punctuation c" "\<not> is_whitespace c"
    by (cases ws) (auto simp: spoken_def list_ex_iff)
  then have "c \<in> set (str_trim (join_with '' '' ws))" by (simp add: kept_by_trim kept_by_join)
  then have "c \<in> set (trim_punctuation (str_trim (join_with '' '' ws)))"
    using w(3) by (simp add: trim_punctuation_def kept_by_dropWhile)
  then have "c \<in> set (clean_slot_text (join_with '' '' ws))" using w(4) by (simp add: clean_slot_text_def kept_by_trim)
  then show ?thesis by auto
qed

lemma fits_slot_drop:
  assumes "fits env (Slot name # parts) (drop pos tokens) vs" and "pos \<le> length tokens"
  obtains n vs' where "pos + n \<le> length tokens" "clean_slot_text (join_with '' '' (take n (drop pos tokens))) \<noteq> []"
    "fits env parts (drop (pos + n) tokens) vs'"
  using assms(1)
proof (rule fits_SlotE)
  fix ws ts vs'
  assume split: "drop pos tokens = ws @ ts" and v: "clean_slot_text (join_with '' '' ws) \<noteq> []"
    and rest: "fits env parts ts vs'"
  have "pos + length ws \<le> length tokens" using arg_cong [OF split, of length] assms(2) by simp
  moreover have "ts = drop (length ws) (drop pos tokens)" and "take (length ws) (drop pos tokens) = ws" using split by simp_all
  ultimately show thesis using that [of "length ws" vs'] v rest by (simp add: add.commute)
qed

lemma fits_found:
  "fits env parts (drop pos tokens) vs \<Longrightarrow> pos \<le> length tokens \<Longrightarrow> \<exists>e vs'. match_parts env parts tokens pos = Some (e, vs')"
proof (induction parts arbitrary: pos vs)
  case (Cons part rest)
  show ?case
  proof (cases part)
    case (Anchor a)
    then show ?thesis using fits_anchor_drop Cons by fastforce
  next
    case (Slot name)
    then obtain n vs' where n: "pos + n \<le> length tokens" "clean_slot_text (join_with '' '' (take n (drop pos tokens))) \<noteq> []"
      "fits env rest (drop (pos + n) tokens) vs'"
      using fits_slot_drop [of env name rest pos tokens vs] Cons.prems by blast
    obtain e vs'' where found: "match_parts env rest tokens (pos + n) = Some (e, vs'')" using Cons.IH [OF n(3,1)] by blast
    moreover have "rest = [] \<Longrightarrow> e = length tokens"
    proof -
      assume "rest = []"
      then have "drop (pos + n) tokens = []" using n(3) by (auto elim: fits_NilE)
      then show "e = length tokens" using \<open>rest = []\<close> found n(1) by simp
    qed
    ultimately have "good_cut env rest tokens pos n" using n(2) by (simp add: good_cut_def)
    from match_slot_found [OF this, of "length tokens - pos"] n(1)
    have "match_slot env name rest tokens pos (length tokens - pos) \<noteq> None" by simp
    then show ?thesis using Slot Cons.prems(2) by (auto simp: match_parts.simps(3))
  qed
qed simp

text \<open>Without a slot there is one way to match.\<close>

definition width :: "voice_part list \<Rightarrow> nat" where
  "width parts = sum_list (map (\<lambda>p. case p of Anchor a \<Rightarrow> length (split_whitespace a) | Slot _ \<Rightarrow> 0) parts)"

lemma anchors_end:
  "\<not> is_parameterized parts \<Longrightarrow> match_parts env parts tokens pos = Some (e, vs) \<Longrightarrow> pos \<le> length tokens \<Longrightarrow>
   e = pos + width parts \<and> e \<le> length tokens"
proof (induction parts arbitrary: pos)
  case (Cons part rest)
  then obtain a where a: "part = Anchor a" by (cases part) (auto simp: is_parameterized_def)
  then obtain q where q: "match_anchor_at env tokens pos a = Some q" "match_parts env rest tokens q = Some (e, vs)"
    using Cons.prems(2) by (auto split: option.split_asm)
  note found = q(1) [unfolded match_anchor_iff [OF Cons.prems(3)]]
  have "e = q + width rest \<and> e \<le> length tokens"
    by (rule Cons.IH [OF _ q(2)]) (use Cons.prems(1) found in \<open>simp_all add: is_parameterized_def\<close>)
  then show ?case using a found by (simp add: width_def)
qed (simp add: width_def)

lemma anchors_fit:
  "\<not> is_parameterized parts \<Longrightarrow> fits env parts (drop pos tokens) vs \<Longrightarrow> pos \<le> length tokens \<Longrightarrow> pos + width parts = length tokens"
proof (induction parts arbitrary: pos vs)
  case Nil
  then show ?case by (auto simp: width_def elim: fits_NilE)
next
  case (Cons part rest)
  then obtain a where a: "part = Anchor a" by (cases part) (auto simp: is_parameterized_def)
  note found = fits_anchor_drop [OF Cons.prems(2) [unfolded a] Cons.prems(3)]
  have "pos + length (split_whitespace a) + width rest = length tokens"
    by (rule Cons.IH) (use found Cons.prems(1) in \<open>auto simp: is_parameterized_def\<close>)
  then show ?case by (simp add: a width_def)
qed

text \<open>With one, the match found ends where the transcript ends if any does.\<close>

lemma slots_reach_end:
  assumes "\<forall>t\<in>set tokens. spoken t"
  shows "is_parameterized parts \<Longrightarrow> match_parts env parts tokens pos = Some (e, vs) \<Longrightarrow> pos \<le> length tokens \<Longrightarrow>
    fits env parts (drop pos' tokens) vs' \<Longrightarrow> pos' \<le> length tokens \<Longrightarrow> e = length tokens"
proof (induction parts arbitrary: pos pos' vs vs')
  case (Cons part rest)
  show ?case
  proof (cases part)
    case (Anchor a)
    then obtain q where q: "match_anchor_at env tokens pos a = Some q" "match_parts env rest tokens q = Some (e, vs)"
      using Cons.prems(2) by (auto split: option.split_asm)
    note found = q(1) [unfolded match_anchor_iff [OF Cons.prems(3)]]
    note fit = fits_anchor_drop [OF Cons.prems(4) [unfolded Anchor] Cons.prems(5)]
    have "is_parameterized rest" using Cons.prems(1) Anchor by (simp add: is_parameterized_def)
    from Cons.IH [OF this q(2)] show ?thesis using found fit by auto
  next
    case (Slot name)
    then have "match_slot env name rest tokens pos (length tokens - pos) = Some (e, vs)"
      using Cons.prems by (simp add: match_parts.simps(3))
    then obtain m vs1 where m: "m \<le> length tokens - pos" "good_cut env rest tokens pos m"
      "match_parts env rest tokens (pos + m) = Some (e, vs1)"
      "\<forall>k. m < k \<and> k \<le> length tokens - pos \<longrightarrow> \<not> good_cut env rest tokens pos k"
      using match_slot_last by blast
    have le: "pos + m \<le> length tokens" using m(1) Cons.prems(3) by simp
    obtain n vs2 where n: "pos' + n \<le> length tokens" "fits env rest (drop (pos' + n) tokens) vs2"
      using fits_slot_drop [OF Cons.prems(4) [unfolded Slot] Cons.prems(5)] by blast
    show ?thesis
    proof (cases "is_parameterized rest \<or> rest = []")
      case True
      then show ?thesis using Cons.IH [OF _ m(3) le n(2,1)] m(2,3) by (auto simp: good_cut_def)
    next
      case False
      let ?q = "pos' + n"
      have q: "?q + width rest = length tokens" using anchors_fit [OF _ n(2,1)] False by simp
      have e: "e = pos + m + width rest" "e \<le> length tokens" using anchors_end [OF _ m(3) le] False by simp_all
      show ?thesis
      proof (rule ccontr)
        assume "e \<noteq> length tokens"
        then have less: "pos + m < ?q" using q e by simp
        let ?k = "?q - pos"
        have "take ?k (drop pos tokens) \<noteq> []" using less n(1) by simp
        then have "clean_slot_text (join_with '' '' (take ?k (drop pos tokens))) \<noteq> []"
          using assms by (intro spoken_words_kept) (auto dest: in_set_takeD in_set_dropD)
        moreover obtain e' vs' where "match_parts env rest tokens (pos + ?k) = Some (e', vs')"
          using fits_found [OF n(2,1)] less by auto
        ultimately have "good_cut env rest tokens pos ?k" using False by (simp add: good_cut_def)
        moreover have "m < ?k" and "?k \<le> length tokens - pos" using less n(1) by simp_all
        ultimately show False using m(4) by blast
      qed
    qed
  qed
qed (simp add: is_parameterized_def)

lemma fits_whole:
  assumes "\<forall>t\<in>set tokens. spoken t" and "fits env parts tokens vs"
  shows "\<exists>vs'. match_parts env parts tokens 0 = Some (length tokens, vs')"
proof -
  have fit: "fits env parts (drop 0 tokens) vs" using assms(2) by simp
  obtain e vs' where found: "match_parts env parts tokens 0 = Some (e, vs')" using fits_found [OF fit] by blast
  have "e = length tokens"
  proof (cases "is_parameterized parts")
    case True
    from slots_reach_end [OF assms(1) this found _ fit] show ?thesis by simp
  next
    case False
    from anchors_end [OF this found] anchors_fit [OF this fit] show ?thesis by simp
  qed
  then show ?thesis using found by blast
qed

text \<open>C16: A transcript whose words all have a letter or digit is matched by a pattern exactly when its words can be
  divided among the parts of the pattern, the anchors sounding alike and every slot taking something; and the
  arguments are what the slots took.\<close>

theorem voice_matching_complete:
  assumes "\<forall>t\<in>set (split_whitespace transcript). spoken t" and "split_whitespace transcript \<noteq> []"
  shows "case match_voice_pattern env transcript parts of
      None \<Rightarrow> \<nexists>vs. fits env parts (split_whitespace transcript) vs
    | Some args \<Rightarrow> \<exists>vs. fits env parts (split_whitespace transcript) vs \<and> a_positional args = map snd vs"
proof (cases "match_voice_pattern env transcript parts")
  case None
  then show ?thesis using fits_whole [OF assms(1)] assms(2)
    by (fastforce simp: match_voice_pattern_def Let_def split: option.split_asm prod.split_asm if_split_asm)
next
  case (Some args)
  then obtain vs where vs: "match_parts env parts (split_whitespace transcript) 0 = Some (length (split_whitespace transcript), vs)"
    "a_positional args = map snd vs"
    by (auto simp: match_voice_pattern_def Let_def split: option.split_asm prod.split_asm if_split_asm)
  then show ?thesis using matched_parts_fit [OF vs(1)] Some by auto
qed

definition exact_scores :: "nat score_ops" where
  "exact_scores =
     \<lparr>so_edit = \<lambda>a b. if a = b then 100 else 0, so_jaro = \<lambda>a b. if a = b then 100 else 0, so_const = \<lambda>n. n,
      so_mean = \<lambda>xs _. foldl max 0 xs, so_ratio = \<lambda>a b. if a = b then 100 else 50,
      so_mix = \<lambda>_ _ c. c, so_minus = \<lambda>a b. a - b\<rparr>"

theorem voice_matching_complete_witness:
  "case match_voice_pattern exact_scores ''tell ann hi'' [Anchor ''tell'', Slot ''who'', Slot ''what''] of
     None \<Rightarrow> \<nexists>vs. fits exact_scores [Anchor ''tell'', Slot ''who'', Slot ''what''] (split_whitespace ''tell ann hi'') vs
   | Some args \<Rightarrow> \<exists>vs. fits exact_scores [Anchor ''tell'', Slot ''who'', Slot ''what''] (split_whitespace ''tell ann hi'') vs \<and>
       a_positional args = map snd vs"
  by (rule voice_matching_complete) code_simp+

section \<open>The trigger that wins\<close>

lemma by_score_set: "set (by_score scored) = set scored"
  by (simp add: by_score_def)

lemma by_score_falls: "by_score scored = (s, t) # others \<Longrightarrow> (u, v) \<in> set scored \<Longrightarrow> u \<le> s"
proof -
  assume first: "by_score scored = (s, t) # others" and mem: "(u, v) \<in> set scored"
  have "sorted (map fst (sort_key fst (rev scored)))" by (rule sorted_sort_key)
  then have "sorted_wrt (\<ge>) (map fst (by_score scored))"
    by (simp add: by_score_def sorted_wrt_rev rev_map [symmetric])
  then have "\<forall>p\<in>set others. fst p \<le> s" using first by simp
  moreover have "(u, v) \<in> set ((s, t) # others)" using mem by_score_set [of scored] first by simp
  ultimately show "u \<le> s" by force
qed

text \<open>The trigger chosen for a transcript is one of the triggers, none of the others scores higher, and its score
  reaches the threshold for its phrase.\<close>

theorem voice_winner_leads:
  assumes "rank_voice_triggers env transcript triggers = Some m"
  shows "tr_trigger m \<in> set triggers \<and>
    tr_score m = score_trigger env transcript (ri_invocation (tr_trigger m)) \<and>
    threshold_for_phrase env (normalize_voice_phrase (ri_invocation (tr_trigger m))) \<le> tr_score m \<and>
    (\<forall>t\<in>set triggers. score_trigger env transcript (ri_invocation t) \<le> tr_score m)"
proof -
  let ?scored = "map (\<lambda>t. (score_trigger env transcript (ri_invocation t), t)) triggers"
  obtain s t others where first: "by_score ?scored = (s, t) # others" and m: "m = \<lparr>tr_trigger = t, tr_score = s\<rparr>"
    and reached: "threshold_for_phrase env (normalize_voice_phrase (ri_invocation t)) \<le> s"
    using assms by (auto simp: rank_voice_triggers_def split: list.split_asm if_split_asm)
  have "(s, t) \<in> set ?scored" by (metis by_score_set first list.set_intros(1))
  moreover have "\<forall>t\<in>set triggers. score_trigger env transcript (ri_invocation t) \<le> s"
    using by_score_falls [OF first] by force
  ultimately show ?thesis using m reached by auto
qed

definition spoken_trigger :: "string \<Rightarrow> nat resolved_invocation" where
  "spoken_trigger phrase =
     \<lparr>ri_trigger_id = phrase, ri_invocation = phrase, ri_type = VoiceInvocation, ri_action = text_action phrase,
      ri_require_confirmation = False, ri_strict_threshold = 85\<rparr>"

theorem voice_winner_leads_witness:
  "score_trigger exact_scores ''open mail'' ''mail'' \<le> score_trigger exact_scores ''open mail'' ''open mail''"
proof -
  let ?ts = "[spoken_trigger ''mail'', spoken_trigger ''open mail'']"
  have plain: "normalize_voice_phrase ''open mail'' = ''open mail''" "normalize_voice_phrase ''mail'' = ''mail''"
    "split_whitespace ''open mail'' = [''open'', ''mail'']" "split_whitespace ''mail'' = [''mail'']"
    by code_simp+
  have mixed: "so_mix exact_scores a b c = c" for a b c by (simp add: exact_scores_def)
  have scores: "score_trigger exact_scores ''open mail'' ''open mail'' = 100"
    "score_trigger exact_scores ''open mail'' ''mail'' = 50"
    by (simp_all add: score_trigger_def plain mixed token_jaccard_def Let_def) (simp_all add: exact_scores_def)
  have "rank_voice_triggers exact_scores ''open mail'' ?ts = Some \<lparr>tr_trigger = spoken_trigger ''open mail'', tr_score = 100\<rparr>"
    using scores by (simp add: rank_voice_triggers_def by_score_def spoken_trigger_def exact_scores_def threshold_for_phrase_def plain)
  from voice_winner_leads [OF this] show ?thesis using scores by (simp add: spoken_trigger_def)
qed

end
