(* ===== verification/TriggerRules.thy ===== *)
theory TriggerRules
  imports VoicePattern Hotkeys Directives
begin

text \<open>
  What may be stored as a trigger, the rules of \<open>core/src/db/crud/triggers/trigger_set.rs\<close> and \<open>validate.rs\<close>
  that need no database: hotkeys, target systems, tags, names, scripts and the slots of voice patterns.  JSON is
  a pair of parameters.  Every early return is an error of \<open>store_error\<close>.
\<close>

section \<open>Errors\<close>

datatype store_error =
    EmptyTrigger
  | LongTrigger
  | NewlineInWord
  | BadHotkey key_parse_error
  | ReservedHotkey
  | DangerousHotkey hotkey_platform
  | HotkeyOnMobile string
  | BadTargetOs string
  | BadRegex
  | BadPhrase phrase_error
  | AliasConflict string
  | ScopeConflict string
  | StoredHotkeyInvalid key_parse_error
  | MissingParent
  | NoInvocation
  | BadActionType string
  | AuditFailed audit_error
  | LimitsFailed limit_error
  | EmptyName
  | NameTooLong
  | DescriptionTooLong
  | TagTooLong string
  | TooManyTags
  | BadTags
  | SlotWithoutVariable string
  | UnknownLanguage
  | EmptyOutput
  | LongOutput
  | ScriptTooBig
  | CompressionFailed
  | BadFilter filter_error
  | DatabaseError
  | TwoEntries string string
  | ImageMissing string
  | ImageUnsupported string

fun ok_then :: "'e + 'a \<Rightarrow> ('a \<Rightarrow> 'e + 'b) \<Rightarrow> 'e + 'b" where
  "ok_then (Inl e) f = Inl e"
| "ok_then (Inr a) f = f a"

lemma ok_then_Inr: "ok_then r f = Inr b \<longleftrightarrow> (\<exists>a. r = Inr a \<and> f a = Inr b)"
  by (cases r) auto

fun map_err :: "('e \<Rightarrow> 'f) \<Rightarrow> 'e + 'a \<Rightarrow> 'f + 'a" where
  "map_err f (Inl e) = Inl (f e)"
| "map_err f (Inr a) = Inr a"

lemma map_err_Inr [simp]: "map_err f r = Inr a \<longleftrightarrow> r = Inr a"
  by (cases r) auto

definition fail_if :: "bool \<Rightarrow> 'e \<Rightarrow> 'e + unit" where
  "fail_if b e = (if b then Inl e else Inr ())"

lemma fail_if_Inr [simp]: "fail_if b e = Inr u \<longleftrightarrow> \<not> b"
  by (simp add: fail_if_def)

section \<open>Names of types and systems\<close>

fun trigger_db_str :: "trigger_type \<Rightarrow> string" where
  "trigger_db_str WordTrigger = ''word''"
| "trigger_db_str HotkeyTrigger = ''hotkey''"
| "trigger_db_str RegexTrigger = ''regex''"

fun trigger_display_name :: "trigger_type \<Rightarrow> string" where
  "trigger_display_name WordTrigger = ''Word''"
| "trigger_display_name HotkeyTrigger = ''Hotkey''"
| "trigger_display_name RegexTrigger = ''Regex''"

definition trigger_parse_str :: "string \<Rightarrow> trigger_type option" where
  "trigger_parse_str s =
     (let t = str_to_lowercase (str_trim s) in
      if t = ''word'' then Some WordTrigger
      else if t = ''hotkey'' then Some HotkeyTrigger
      else if t = ''regex'' then Some RegexTrigger else None)"

definition from_cli_flags :: "bool \<Rightarrow> bool \<Rightarrow> trigger_type" where
  "from_cli_flags use_hotkey use_regex =
     (if use_hotkey then HotkeyTrigger else if use_regex then RegexTrigger else WordTrigger)"

datatype target_os = AllOs | WindowsOs | MacOs | LinuxOs | AndroidOs | IosOs

fun to_db_str :: "target_os \<Rightarrow> string" where
  "to_db_str AllOs = ''all''"
| "to_db_str WindowsOs = ''win''"
| "to_db_str MacOs = ''mac''"
| "to_db_str LinuxOs = ''linux''"
| "to_db_str AndroidOs = ''android''"
| "to_db_str IosOs = ''ios''"

fun os_display_name :: "target_os \<Rightarrow> string" where
  "os_display_name WindowsOs = ''windows''"
| "os_display_name MacOs = ''macos''"
| "os_display_name os = to_db_str os"

definition os_parse_str :: "string \<Rightarrow> target_os option" where
  "os_parse_str s =
     (let t = str_to_lowercase (str_trim s) in
      if t = ''all'' then Some AllOs
      else if t = ''win'' \<or> t = ''windows'' then Some WindowsOs
      else if t = ''mac'' \<or> t = ''macos'' then Some MacOs
      else if t = ''linux'' then Some LinuxOs
      else if t = ''android'' then Some AndroidOs
      else if t = ''ios'' then Some IosOs else None)"

definition normalize_os :: "string \<Rightarrow> string option" where
  "normalize_os os = map_option to_db_str (os_parse_str os)"

text \<open>\<open>TargetOs::current\<close> reads the name the standard library gives the system.\<close>

definition current_os :: "string \<Rightarrow> target_os" where
  "current_os os =
     (if os = ''windows'' then WindowsOs
      else if os = ''macos'' then MacOs
      else if os = ''linux'' then LinuxOs
      else if os = ''android'' then AndroidOs
      else if os = ''ios'' then IosOs else AllOs)"

fun default_for_target_os :: "bool \<Rightarrow> target_os \<Rightarrow> script_interpreter" where
  "default_for_target_os on_windows WindowsOs = PowerShell"
| "default_for_target_os on_windows LinuxOs = Bash"
| "default_for_target_os on_windows MacOs = Bash"
| "default_for_target_os on_windows _ = (if on_windows then PowerShell else Bash)"

section \<open>Triggers\<close>

definition max_tag_length :: nat where
  "max_tag_length = 50"

definition max_tags_count :: nat where
  "max_tags_count = 20"

definition max_trigger_length :: nat where
  "max_trigger_length = 200"

definition max_name_length :: nat where
  "max_name_length = 200"

definition max_description_length :: nat where
  "max_description_length = 1000"

definition max_script_size :: nat where
  "max_script_size = 1048576"

definition desktop_platforms_for_target_os :: "string \<Rightarrow> store_error + hotkey_platform list" where
  "desktop_platforms_for_target_os os =
     (if os = ''all'' then Inr [Windows, Linux, Mac]
      else if os = ''win'' then Inr [Windows]
      else if os = ''linux'' then Inr [Linux]
      else if os = ''mac'' then Inr [Mac]
      else if os = ''android'' \<or> os = ''ios'' then Inl (HotkeyOnMobile os)
      else Inl (BadTargetOs os))"

definition has_newline :: "string \<Rightarrow> bool" where
  "has_newline t \<longleftrightarrow> CHR 0x0A \<in> set t \<or> CHR 0x0D \<in> set t"

record prepared_trigger =
  pt_type :: trigger_type
  pt_stored :: string

definition prepare_hotkey :: "string \<Rightarrow> string \<Rightarrow> store_error + string" where
  "prepare_hotkey trig os =
     ok_then (map_err BadHotkey (parse_hotkey trig)) (\<lambda>hotkey.
     ok_then (fail_if (conflicts_with_taurine_global_hotkey hotkey \<noteq> None) ReservedHotkey) (\<lambda>_.
     ok_then (desktop_platforms_for_target_os os) (\<lambda>platforms.
       case filter (\<lambda>p. danger_for_platform hotkey p \<noteq> None) platforms of
         p # _ \<Rightarrow> Inl (DangerousHotkey p)
       | [] \<Rightarrow> Inr (keypress_canonical hotkey))))"

definition prepare_trigger_with_type :: "string \<Rightarrow> trigger_type \<Rightarrow> string \<Rightarrow> store_error + prepared_trigger" where
  "prepare_trigger_with_type trig kind os =
     (if str_trim trig = [] then Inl EmptyTrigger
      else if max_trigger_length < str_len trig then Inl LongTrigger
      else if kind = WordTrigger \<and> has_newline trig then Inl NewlineInWord
      else if kind = WordTrigger \<or> kind = RegexTrigger then Inr \<lparr>pt_type = kind, pt_stored = trig\<rparr>
      else ok_then (prepare_hotkey trig os) (\<lambda>canonical. Inr \<lparr>pt_type = kind, pt_stored = canonical\<rparr>))"

definition prepare_trigger :: "string \<Rightarrow> bool \<Rightarrow> string \<Rightarrow> store_error + prepared_trigger" where
  "prepare_trigger trig use_hotkey os =
     prepare_trigger_with_type trig (if use_hotkey then HotkeyTrigger else WordTrigger) os"

text \<open>Both checks of names and descriptions: those of \<open>TriggerLimits\<close> count characters, the ones a stored
  entry goes through count bytes.\<close>

definition validate_name :: "string \<Rightarrow> store_error + unit" where
  "validate_name name =
     (let t = str_trim name in
      if t = [] then Inl EmptyName else fail_if (max_name_length < length t) NameTooLong)"

definition validate_description :: "string option \<Rightarrow> store_error + unit" where
  "validate_description description =
     fail_if (case description of None \<Rightarrow> False | Some d \<Rightarrow> max_description_length < length d) DescriptionTooLong"

definition validate_script_size :: "nat \<Rightarrow> store_error + unit" where
  "validate_script_size n = fail_if (max_script_size < n) ScriptTooBig"

lemma validate_script_size_code [code]: "validate_script_size n = fail_if ((1048576 :: int) < int n) ScriptTooBig"
  by (simp add: validate_script_size_def max_script_size_def)

definition check_name_bytes :: "string \<Rightarrow> string option \<Rightarrow> store_error + unit" where
  "check_name_bytes name description =
     ok_then (fail_if (max_name_length < str_len name) NameTooLong) (\<lambda>_.
       fail_if (case description of None \<Rightarrow> False | Some d \<Rightarrow> max_description_length < str_len d) DescriptionTooLong)"

definition validate_trigger_type :: "trigger_type \<Rightarrow> string \<Rightarrow> store_error + unit" where
  "validate_trigger_type kind os =
     fail_if (kind = HotkeyTrigger \<and> (os = ''android'' \<or> os = ''ios'')) (HotkeyOnMobile os)"

definition validate_target_os_value :: "string \<Rightarrow> store_error + unit" where
  "validate_target_os_value os =
     fail_if (os \<notin> {''all'', ''win'', ''linux'', ''mac'', ''android'', ''ios''}) (BadTargetOs os)"

definition is_text_action :: "string \<Rightarrow> store_error + bool" where
  "is_text_action action =
     (if eq_ignore_ascii_case action ''text'' then Inr True
      else if eq_ignore_ascii_case action ''script'' then Inr False
      else Inl (BadActionType action))"

fun invocation_type_for_trigger :: "trigger_type \<Rightarrow> invocation_type" where
  "invocation_type_for_trigger WordTrigger = WordInvocation"
| "invocation_type_for_trigger HotkeyTrigger = HotkeyInvocation"
| "invocation_type_for_trigger RegexTrigger = RegexInvocation"

section \<open>Tags\<close>

fun keep_tags :: "string list \<Rightarrow> string list \<Rightarrow> store_error + string list" where
  "keep_tags [] kept = Inr kept"
| "keep_tags (tag # tags) kept =
     (let t = str_to_lowercase (str_trim tag) in
      if t = [] then keep_tags tags kept
      else if max_tag_length < str_len t then Inl (TagTooLong t)
      else keep_tags tags (if t \<in> set kept then kept else kept @ [t]))"

definition normalize_tags :: "(string \<Rightarrow> string list option) \<Rightarrow> (string list \<Rightarrow> string) \<Rightarrow> string \<Rightarrow> store_error + string" where
  "normalize_tags of_json to_json text =
     (case of_json text of
        None \<Rightarrow> Inl BadTags
      | Some tags \<Rightarrow>
          ok_then (keep_tags tags []) (\<lambda>kept.
            if max_tags_count < length kept then Inl TooManyTags else Inr (to_json kept)))"

fun keep_add_tags :: "string list \<Rightarrow> string list \<Rightarrow> string list \<Rightarrow> string list" where
  "keep_add_tags [] seen kept = kept"
| "keep_add_tags (tag # tags) seen kept =
     (let t = str_to_lowercase (str_trim tag) in
      if t = [] \<or> t \<in> set seen then keep_add_tags tags seen kept
      else keep_add_tags tags (t # seen) (if max_tag_length < str_len t then kept else kept @ [t]))"

definition normalize_add_tags :: "(string list \<Rightarrow> string) \<Rightarrow> string list option \<Rightarrow> string" where
  "normalize_add_tags to_json tags =
     to_json (case tags of None \<Rightarrow> [] | Some list \<Rightarrow> take max_tags_count (keep_add_tags list [] []))"

section \<open>Scripts\<close>

fun strip_shebang :: "string \<Rightarrow> string" where
  "strip_shebang (a # b # cs) = (if a = CHR ''#'' \<and> b = CHR ''!'' then strip_shebang cs else a # b # cs)"
| "strip_shebang cs = cs"

definition first_line :: "string \<Rightarrow> string" where
  "first_line content =
     (let l = takeWhile (\<lambda>c. c \<noteq> CHR 0x0A) content in
      if CHR 0x0A \<in> set content \<and> l \<noteq> [] \<and> last l = CHR 0x0D then butlast l else l)"

text \<open>The extension is that of the path, when there is one.\<close>

definition interpreter_of_extension :: "string \<Rightarrow> script_interpreter option" where
  "interpreter_of_extension ext =
     (let e = str_to_lowercase ext in
      if e = ''sh'' then Some Bash
      else if e = ''ps1'' then Some PowerShell
      else if e = ''py'' then Some Python
      else if e = ''js'' \<or> e = ''cjs'' then Some Node
      else if e = ''bat'' \<or> e = ''cmd'' then Some Cmd else None)"

definition interpreter_of_shebang :: "string \<Rightarrow> script_interpreter option" where
  "interpreter_of_shebang content =
     (if prefix ''#!'' content then
        (let l = first_line content;
             shebang = str_to_ascii_lowercase (replace_char backslash CHR ''/'' (str_trim (strip_shebang l)))
         in
         if find_str ''pwsh'' shebang \<noteq> None \<or> find_str ''powershell'' shebang \<noteq> None then Some PowerShell
         else if list_ex (\<lambda>w. w = ''bash'' \<or> w = ''sh'' \<or> suffix ''/bash'' w \<or> suffix ''/sh'' w) (split_whitespace shebang)
         then Some Bash
         else if find_str ''python'' l \<noteq> None then Some Python
         else if find_str ''node'' l \<noteq> None then Some Node
         else None)
      else None)"

definition infer_interpreter :: "string option \<Rightarrow> string \<Rightarrow> script_interpreter option" where
  "infer_interpreter extension content =
     or_else (Option.bind extension interpreter_of_extension) (interpreter_of_shebang content)"

definition resolve_script_parts ::
  "string \<Rightarrow> script_interpreter option \<Rightarrow> script_behavior option \<Rightarrow> store_error + script_interpreter \<times> script_behavior \<times> string" where
  "resolve_script_parts content interpreter behavior =
     (case or_else interpreter (infer_interpreter None content) of
        None \<Rightarrow> Inl UnknownLanguage
      | Some i \<Rightarrow>
          Inr (i, (case behavior of Some b \<Rightarrow> b | None \<Rightarrow> Inline), ''[Script: '' @ interpreter_as_str i @ '']''))"

section \<open>Texts\<close>

definition validate_output :: "string \<Rightarrow> store_error + unit" where
  "validate_output output =
     (if str_trim output = [] then Inl EmptyOutput
      else if max_output_length < str_len output then Inl LongOutput
      else Inr ())"

text \<open>Comparing integers evaluates faster than comparing large natural numbers.\<close>

lemma validate_output_code [code]:
  "validate_output output =
     (if str_trim output = [] then Inl EmptyOutput
      else if (100000 :: int) < int (str_len output) then Inl LongOutput else Inr ())"
  by (simp add: validate_output_def max_output_length_def)

type_synonym invocation = "invocation_type \<times> string \<times> bool"

definition audit_type_for_entry :: "invocation list \<Rightarrow> trigger_type" where
  "audit_type_for_entry invocations =
     (if list_ex (\<lambda>(ty, _, _). ty = RegexInvocation) invocations then RegexTrigger else WordTrigger)"

definition unfilled_slots :: "string list \<Rightarrow> invocation \<Rightarrow> string list" where
  "unfilled_slots defined entry =
     (case entry of (ty, phrase, _) \<Rightarrow>
        if ty \<noteq> VoiceInvocation then []
        else case parse_pattern phrase of
          Inl _ \<Rightarrow> []
        | Inr parts \<Rightarrow> filter (\<lambda>slot. \<not> list_ex (\<lambda>d. eq_ignore_ascii_case d slot) defined) (slot_names parts))"

definition validate_voice_slot_parity :: "string \<Rightarrow> invocation list \<Rightarrow> store_error + unit" where
  "validate_voice_slot_parity content invocations =
     (case concat (map (unfilled_slots (defined_variables content)) invocations) of
        slot # _ \<Rightarrow> Inl (SlotWithoutVariable slot) | [] \<Rightarrow> Inr ())"

end
