(* ===== verification/TriggerStore.thy ===== *)
theory TriggerStore
  imports TriggerRules Variables Execute
begin

text \<open>
  The triggers in the database, \<open>core/src/db/crud/triggers\<close>: \<open>aliases.rs\<close>, \<open>overlap.rs\<close>, \<open>assets.rs\<close>,
  \<open>trigger_set.rs\<close>, \<open>trigger_get.rs\<close>, \<open>trigger_delete.rs\<close>, \<open>trigger_sync.rs\<close> and \<open>usage.rs\<close>.

  A table is the list of its rows in the order of insertion; that is also the order of a query where SQL leaves
  it open.  Every statement of SQL is a function of the tables, with the primary and foreign keys of the schema
  in \<open>core/src/db/init/migrate.rs\<close>, which the bundled SQLite enforces.  An operation gives an error or a result and the new tables;
  \<open>with_transaction\<close> keeps the old tables on an error.  Identifiers come from \<open>se_uuid\<close>, the clock is
  \<open>se_now\<close>, compression, hashes, regular expressions, files and JSON are functions of the environment.  Strings
  are their own normal form (NFC).  The warning on a name used twice is only logged and left out.
\<close>

section \<open>Tables\<close>

record trigger_row =
  tg_id :: string
  tg_name :: string
  tg_description :: "string option"
  tg_output :: string
  tg_action_type :: string
  tg_is_enabled :: bool
  tg_auto_case :: bool
  tg_target_os :: string
  tg_only_apps :: "string option"
  tg_except_apps :: "string option"
  tg_tags :: string
  tg_usage_count :: int
  tg_last_used_at :: "int option"
  tg_created_at :: int
  tg_updated_at :: int
  tg_version :: int
  tg_is_deleted :: bool
  tg_is_synced :: bool

record 'v alias_row =
  al_id :: string
  al_trigger :: string
  al_invocation :: string
  al_type :: invocation_type
  al_confirm :: bool
  al_threshold :: "'v option"
  al_created_at :: int

record script_row =
  sc_trigger :: string
  sc_interpreter :: string
  sc_behavior :: string
  sc_content :: "u8 list"
  sc_version :: int
  sc_updated_at :: int

record asset_row =
  as_id :: string
  as_trigger :: string
  as_mime :: string
  as_content :: "u8 list"
  as_updated_at :: int

record 'v database =
  db_triggers :: "trigger_row list"
  db_aliases :: "'v alias_row list"
  db_scripts :: "script_row list"
  db_assets :: "asset_row list"
  db_uuids :: nat

record ('f, 'n, 'v) store_env =
  se_uuid :: "nat \<Rightarrow> string"
  se_now :: int
  se_os :: string
  se_windows :: bool
  se_transform :: "('f, 'n) transform_env"
  se_validate :: validate_env
  se_scores :: "'v score_ops"
  se_regex_ok :: "string \<Rightarrow> bool"
  se_tags_of_json :: "string \<Rightarrow> string list option"
  se_json_of_tags :: "string list \<Rightarrow> string"
  se_json_each :: "string \<Rightarrow> string list option"
  se_pack_text :: "string \<Rightarrow> u8 list option"
  se_unpack_text :: "u8 list \<Rightarrow> string option"
  se_pack :: "u8 list \<Rightarrow> u8 list option"
  se_files :: file_ops
  se_read :: "string \<Rightarrow> u8 list option"
  se_extension :: "string \<Rightarrow> string option"
  se_is_image :: "u8 list \<Rightarrow> bool"
  se_hash :: "u8 list \<Rightarrow> string"

type_synonym ('v, 'a) db_action = "'v database \<Rightarrow> store_error + 'a \<times> 'v database"

definition give :: "'a \<Rightarrow> ('v, 'a) db_action" where
  "give a db = Inr (a, db)"

definition check :: "store_error + 'a \<Rightarrow> ('v, 'a) db_action" where
  "check r db = map_sum id (\<lambda>a. (a, db)) r"

definition and_do :: "('v, 'a) db_action \<Rightarrow> ('a \<Rightarrow> ('v, 'b) db_action) \<Rightarrow> ('v, 'b) db_action" where
  "and_do m f db = (case m db of Inl e \<Rightarrow> Inl e | Inr (a, db') \<Rightarrow> f a db')"

definition ask :: "('v database \<Rightarrow> 'a) \<Rightarrow> ('v, 'a) db_action" where
  "ask f db = Inr (f db, db)"

definition change :: "('v database \<Rightarrow> 'v database) \<Rightarrow> ('v, unit) db_action" where
  "change f db = Inr ((), f db)"

fun for_each :: "('a \<Rightarrow> ('v, 'b) db_action) \<Rightarrow> 'a list \<Rightarrow> ('v, 'b list) db_action" where
  "for_each f [] db = Inr ([], db)"
| "for_each f (x # xs) db =
     (case f x db of
        Inl e \<Rightarrow> Inl e
      | Inr (y, db') \<Rightarrow> (case for_each f xs db' of Inl e \<Rightarrow> Inl e | Inr (ys, db'') \<Rightarrow> Inr (y # ys, db'')))"

definition with_transaction :: "('v, 'a) db_action \<Rightarrow> 'v database \<Rightarrow> (store_error + 'a) \<times> 'v database" where
  "with_transaction f db = (case f db of Inl e \<Rightarrow> (Inl e, db) | Inr (a, db') \<Rightarrow> (Inr a, db'))"

section \<open>Statements\<close>

definition find_row :: "string \<Rightarrow> 'v database \<Rightarrow> trigger_row option" where
  "find_row rid db = find (\<lambda>t. tg_id t = rid) (db_triggers db)"

definition get_row :: "string \<Rightarrow> ('v, trigger_row) db_action" where
  "get_row rid db = (case find_row rid db of None \<Rightarrow> Inl DatabaseError | Some t \<Rightarrow> Inr (t, db))"

definition new_uuid :: "('f, 'n, 'v) store_env \<Rightarrow> ('v, string) db_action" where
  "new_uuid env db = Inr (se_uuid env (db_uuids db), db\<lparr>db_uuids := db_uuids db + 1\<rparr>)"

definition insert_row :: "trigger_row \<Rightarrow> ('v, unit) db_action" where
  "insert_row t db =
     (if tg_id t \<in> tg_id ` set (db_triggers db) then Inl DatabaseError
      else Inr ((), db\<lparr>db_triggers := db_triggers db @ [t]\<rparr>))"

definition update_row :: "string \<Rightarrow> (trigger_row \<Rightarrow> trigger_row) \<Rightarrow> 'v database \<Rightarrow> 'v database" where
  "update_row rid f db = db\<lparr>db_triggers := map (\<lambda>t. if tg_id t = rid then f t else t) (db_triggers db)\<rparr>"

definition insert_alias :: "'v alias_row \<Rightarrow> ('v, unit) db_action" where
  "insert_alias al db =
     (if al_id al \<in> al_id ` set (db_aliases db) \<or> find_row (al_trigger al) db = None then Inl DatabaseError
      else Inr ((), db\<lparr>db_aliases := db_aliases db @ [al]\<rparr>))"

definition delete_aliases :: "('v alias_row \<Rightarrow> bool) \<Rightarrow> 'v database \<Rightarrow> 'v database" where
  "delete_aliases P db = db\<lparr>db_aliases := filter (\<lambda>al. \<not> P al) (db_aliases db)\<rparr>"

definition joined :: "'v database \<Rightarrow> ('v alias_row \<times> trigger_row) list" where
  "joined db = List.map_filter (\<lambda>al. map_option (Pair al) (find_row (al_trigger al) db)) (db_aliases db)"

definition live_aliases :: "invocation_type \<Rightarrow> 'v database \<Rightarrow> ('v alias_row \<times> trigger_row) list" where
  "live_aliases ty db = filter (\<lambda>(al, t). al_type al = ty \<and> \<not> tg_is_deleted t) (joined db)"

definition os_active :: "('f, 'n, 'v) store_env \<Rightarrow> trigger_row \<Rightarrow> bool" where
  "os_active env t \<longleftrightarrow> tg_target_os t = ''all'' \<or> tg_target_os t = se_os env"

definition is_active :: "('f, 'n, 'v) store_env \<Rightarrow> trigger_row \<Rightarrow> bool" where
  "is_active env t \<longleftrightarrow> \<not> tg_is_deleted t \<and> tg_is_enabled t \<and> os_active env t"

section \<open>Overlapping invocations\<close>

definition invocations_overlap :: "invocation_type \<Rightarrow> string \<Rightarrow> string \<Rightarrow> store_error + bool" where
  "invocations_overlap ty l r =
     (if ty = HotkeyInvocation then map_err StoredHotkeyInvalid (hotkey_strings_overlap l r) else Inr (l = r))"

definition scope_overlaps :: "string \<Rightarrow> string option \<Rightarrow> string option \<Rightarrow> trigger_row \<Rightarrow> bool" where
  "scope_overlaps os only except t \<longleftrightarrow>
     target_os_values_overlap os (tg_target_os t) \<and> app_filters_overlap only except (tg_only_apps t) (tg_except_apps t)"

fun find_conflict ::
  "invocation_type \<Rightarrow> string \<Rightarrow> string \<Rightarrow> string option \<Rightarrow> string option \<Rightarrow> ('v alias_row \<times> trigger_row) list \<Rightarrow>
   store_error + ('v alias_row \<times> trigger_row) option" where
  "find_conflict ty stored os only except [] = Inr None"
| "find_conflict ty stored os only except ((al, t) # rows) =
     ok_then (invocations_overlap ty stored (al_invocation al)) (\<lambda>same.
       if same \<and> scope_overlaps os only except t then Inr (Some (al, t))
       else find_conflict ty stored os only except rows)"

definition find_overlap_conflict ::
  "invocation_type \<Rightarrow> string \<Rightarrow> string \<Rightarrow> string option \<Rightarrow> string option \<Rightarrow> string option \<Rightarrow> 'v database \<Rightarrow>
   store_error + ('v alias_row \<times> trigger_row) option" where
  "find_overlap_conflict ty trig os only except exclude_id db =
     find_conflict ty trig os only except
       (filter (\<lambda>(al, t). exclude_id \<noteq> Some (tg_id t))
         (sort_key (\<lambda>(al, t). - tg_updated_at t) (live_aliases ty db)))"

definition find_trigger_overlap_conflict ::
  "trigger_type \<Rightarrow> string \<Rightarrow> string \<Rightarrow> string option \<Rightarrow> string option \<Rightarrow> string option \<Rightarrow> 'v database \<Rightarrow>
   store_error + ('v alias_row \<times> trigger_row) option" where
  "find_trigger_overlap_conflict kind trig os only except exclude_id db =
     ok_then (if kind = HotkeyTrigger then map_err BadHotkey (map_sum id keypress_canonical (parse_hotkey trig)) else Inr trig)
       (\<lambda>normalized. find_overlap_conflict (invocation_type_for_trigger kind) normalized os only except exclude_id db)"

definition find_voice_overlap_conflict ::
  "string \<Rightarrow> string \<Rightarrow> string option \<Rightarrow> string option \<Rightarrow> string option \<Rightarrow> 'v database \<Rightarrow>
   store_error + ('v alias_row \<times> trigger_row) option" where
  "find_voice_overlap_conflict trig os only except exclude_id db =
     ok_then (map_err BadPhrase (validate_voice_phrase trig))
       (\<lambda>normalized. find_overlap_conflict VoiceInvocation normalized os only except exclude_id db)"

definition no_conflict :: "string \<Rightarrow> 'a option \<Rightarrow> store_error + unit" where
  "no_conflict trig found = fail_if (found \<noteq> None) (ScopeConflict trig)"

definition validate_trigger_target_os_conflict ::
  "trigger_type \<Rightarrow> string \<Rightarrow> string \<Rightarrow> string option \<Rightarrow> string option \<Rightarrow> string option \<Rightarrow> 'v database \<Rightarrow>
   store_error + unit" where
  "validate_trigger_target_os_conflict kind trig os only except exclude_id db =
     ok_then (validate_trigger_type kind os) (\<lambda>_.
     ok_then (find_trigger_overlap_conflict kind trig os only except exclude_id db) (no_conflict trig))"

definition check_invocation_conflict ::
  "invocation_type \<Rightarrow> string \<Rightarrow> string \<Rightarrow> string option \<Rightarrow> string option \<Rightarrow> string option \<Rightarrow> 'v database \<Rightarrow>
   store_error + unit" where
  "check_invocation_conflict ty trig os only except exclude_id db =
     (case ty of
        VoiceInvocation \<Rightarrow>
          ok_then (find_voice_overlap_conflict trig os only except exclude_id db) (no_conflict trig)
      | WordInvocation \<Rightarrow> validate_trigger_target_os_conflict WordTrigger trig os only except exclude_id db
      | HotkeyInvocation \<Rightarrow> validate_trigger_target_os_conflict HotkeyTrigger trig os only except exclude_id db
      | RegexInvocation \<Rightarrow> validate_trigger_target_os_conflict RegexTrigger trig os only except exclude_id db)"

section \<open>Aliases\<close>

definition check_alias_scope_conflict :: "string \<Rightarrow> invocation_type \<Rightarrow> string \<Rightarrow> 'v database \<Rightarrow> store_error + unit" where
  "check_alias_scope_conflict trigger_id ty stored db =
     (if list_ex (\<lambda>al. al_trigger al = trigger_id \<and> al_type al = ty \<and> al_invocation al = stored) (db_aliases db)
      then Inl (AliasConflict stored)
      else case find_row trigger_id db of
        None \<Rightarrow> Inl DatabaseError
      | Some p \<Rightarrow>
          ok_then
            (find_conflict ty stored (tg_target_os p) (tg_only_apps p) (tg_except_apps p)
              (filter (\<lambda>(al, t). al_trigger al \<noteq> trigger_id) (live_aliases ty db)))
            (\<lambda>found. fail_if (found \<noteq> None) (AliasConflict stored)))"

definition stored_invocation ::
  "('f, 'n, 'v) store_env \<Rightarrow> invocation_type \<Rightarrow> string \<Rightarrow> store_error + string \<times> 'v option" where
  "stored_invocation env ty invocation =
     (case ty of
        WordInvocation \<Rightarrow>
          if str_trim invocation = [] then Inl EmptyTrigger
          else if max_trigger_length < str_len invocation then Inl LongTrigger
          else if has_newline invocation then Inl NewlineInWord
          else Inr (invocation, None)
      | HotkeyInvocation \<Rightarrow>
          map_sum id (\<lambda>p. (pt_stored p, None)) (prepare_trigger_with_type invocation HotkeyTrigger ''all'')
      | RegexInvocation \<Rightarrow> if se_regex_ok env invocation then Inr (invocation, None) else Inl BadRegex
      | VoiceInvocation \<Rightarrow>
          map_err BadPhrase (map_sum id (\<lambda>p. (p, Some (threshold_for_phrase (se_scores env) p)))
            (validate_voice_phrase invocation)))"

definition add_alias ::
  "('f, 'n, 'v) store_env \<Rightarrow> string \<Rightarrow> invocation_type \<Rightarrow> string \<Rightarrow> bool \<Rightarrow> ('v, 'v alias_row) db_action" where
  "add_alias env trigger_id ty invocation confirm =
     and_do (check (stored_invocation env ty invocation)) (\<lambda>(stored, threshold).
     and_do (\<lambda>db. check (check_alias_scope_conflict trigger_id ty stored db) db) (\<lambda>_.
     and_do (new_uuid env) (\<lambda>aid.
     let al = \<lparr>al_id = aid, al_trigger = trigger_id, al_invocation = stored, al_type = ty, al_confirm = confirm,
               al_threshold = threshold, al_created_at = se_now env\<rparr> in
     and_do (insert_alias al) (\<lambda>_. give al))))"

definition list_aliases :: "string \<Rightarrow> 'v database \<Rightarrow> 'v alias_row list" where
  "list_aliases trigger_id db = filter (\<lambda>al. al_trigger al = trigger_id) (db_aliases db)"

definition count_aliases :: "string \<Rightarrow> 'v database \<Rightarrow> nat" where
  "count_aliases trigger_id db = length (list_aliases trigger_id db)"

definition normalize_lookup :: "invocation_type \<Rightarrow> string \<Rightarrow> string option" where
  "normalize_lookup ty invocation =
     (case ty of
        VoiceInvocation \<Rightarrow> (case validate_voice_phrase invocation of Inl _ \<Rightarrow> None | Inr p \<Rightarrow> Some p)
      | HotkeyInvocation \<Rightarrow>
          (case prepare_trigger_with_type invocation HotkeyTrigger ''all'' of Inl _ \<Rightarrow> None | Inr p \<Rightarrow> Some (pt_stored p))
      | _ \<Rightarrow> Some invocation)"

definition find_parent_by_invocation :: "invocation_type \<Rightarrow> string \<Rightarrow> 'v database \<Rightarrow> string option" where
  "find_parent_by_invocation ty invocation db =
     (case normalize_lookup ty invocation of
        None \<Rightarrow> None
      | Some stored \<Rightarrow>
          map_option al_trigger (find (\<lambda>al. al_type al = ty \<and> al_invocation al = stored) (db_aliases db)))"

definition tombstone_entry :: "string \<Rightarrow> int \<Rightarrow> 'v database \<Rightarrow> 'v database" where
  "tombstone_entry trigger_id now db =
     delete_aliases (\<lambda>al. al_trigger al = trigger_id)
       (update_row trigger_id
         (\<lambda>t. t\<lparr>tg_is_deleted := True, tg_version := tg_version t + 1, tg_updated_at := now\<rparr>) db)"

definition delete_alias ::
  "('f, 'n, 'v) store_env \<Rightarrow> string \<Rightarrow> invocation_type \<Rightarrow> string \<Rightarrow> 'v database \<Rightarrow> bool \<times> 'v database" where
  "delete_alias env trigger_id ty invocation db =
     (case normalize_lookup ty invocation of
        None \<Rightarrow> (False, db)
      | Some stored \<Rightarrow>
          (let P = (\<lambda>al. al_trigger al = trigger_id \<and> al_type al = ty \<and> al_invocation al = stored);
               db' = delete_aliases P db
           in if \<not> list_ex P (db_aliases db) then (False, db)
              else (True, if count_aliases trigger_id db' = 0 then tombstone_entry trigger_id (se_now env) db' else db')))"

definition increment_usage_count_by_id :: "('f, 'n, 'v) store_env \<Rightarrow> string \<Rightarrow> 'v database \<Rightarrow> 'v database" where
  "increment_usage_count_by_id env rid db =
     update_row rid
       (\<lambda>t. if tg_is_deleted t then t else t\<lparr>tg_usage_count := tg_usage_count t + 1, tg_last_used_at := Some (se_now env)\<rparr>) db"

definition increment_usage_count_by_trigger :: "('f, 'n, 'v) store_env \<Rightarrow> string \<Rightarrow> 'v database \<Rightarrow> 'v database" where
  "increment_usage_count_by_trigger env trig db =
     (case find (\<lambda>al. al_invocation al = trig) (db_aliases db) of
        None \<Rightarrow> db | Some al \<Rightarrow> increment_usage_count_by_id env (al_trigger al) db)"

definition parents_by_invocation :: "invocation_type \<Rightarrow> string \<Rightarrow> 'v database \<Rightarrow> string list" where
  "parents_by_invocation ty invocation db =
     (case normalize_lookup ty invocation of
        None \<Rightarrow> []
      | Some stored \<Rightarrow>
          map (\<lambda>(al, t). al_trigger al) (filter (\<lambda>(al, t). al_invocation al = stored) (live_aliases ty db)))"

end
