(* ===== verification/TriggerOps.thy ===== *)
theory TriggerOps
  imports TriggerStore
begin

text \<open>
  Storing the files a text refers to (\<open>assets.rs\<close>), scripts and filters (\<open>trigger_set.rs\<close>), and reading triggers
  (\<open>trigger_get.rs\<close>, \<open>trigger_sync.rs\<close>) over the tables of \<open>TriggerStore\<close>.
\<close>

section \<open>Assets\<close>

definition put_asset :: "asset_row \<Rightarrow> ('v, unit) db_action" where
  "put_asset a db =
     (if find_row (as_trigger a) db = None then Inl DatabaseError
      else Inr ((), db\<lparr>db_assets := filter (\<lambda>b. as_id b \<noteq> as_id a) (db_assets db) @ [a]\<rparr>))"

definition image_mime :: "string option \<Rightarrow> string" where
  "image_mime extension =
     (case map_option str_to_lowercase extension of
        Some e \<Rightarrow>
          if e = ''png'' then ''image/png''
          else if e = ''jpg'' \<or> e = ''jpeg'' then ''image/jpeg''
          else if e = ''gif'' then ''image/gif''
          else if e = ''bmp'' then ''image/bmp'' else ''application/octet-stream''
      | None \<Rightarrow> ''application/octet-stream'')"

definition script_mime :: "string option \<Rightarrow> string" where
  "script_mime extension =
     (case map_option str_to_lowercase extension of
        Some e \<Rightarrow>
          if e = ''sh'' \<or> e = ''bash'' then ''text/x-shellscript''
          else if e = ''py'' then ''text/x-python''
          else if e = ''js'' then ''text/javascript''
          else if e = ''ps1'' then ''text/x-powershell'' else ''application/octet-stream''
      | None \<Rightarrow> ''application/octet-stream'')"

definition asset_hash :: "string \<Rightarrow> string option" where
  "asset_hash path =
     (case strip_prefix ''asset('' path of
        None \<Rightarrow> None | Some rest \<Rightarrow> map_option str_trim (strip_suffix '')'' rest))"

definition replace_first :: "string \<Rightarrow> string \<Rightarrow> string \<Rightarrow> string" where
  "replace_first old new s =
     (case find_str old s of None \<Rightarrow> s | Some n \<Rightarrow> take n s @ new @ drop (n + length old) s)"

definition save_bytes ::
  "('f, 'n, 'v) store_env \<Rightarrow> string \<Rightarrow> string \<Rightarrow> u8 list \<Rightarrow> ('v, string) db_action" where
  "save_bytes env trigger_id mime bytes =
     and_do (check (case se_pack env bytes of None \<Rightarrow> Inl CompressionFailed | Some z \<Rightarrow> Inr z)) (\<lambda>z.
     and_do (put_asset \<lparr>as_id = se_hash env z, as_trigger = trigger_id, as_mime = mime, as_content = z,
                        as_updated_at = se_now env\<rparr>) (\<lambda>_.
     give (se_hash env z)))"

text \<open>An image: the path is read, checked and stored.  The result is the new tag and the hash in use.\<close>

definition image_asset ::
  "('f, 'n, 'v) store_env \<Rightarrow> string \<Rightarrow> string \<Rightarrow> ('v, (string \<times> string) option) db_action" where
  "image_asset env trigger_id path =
     (case asset_hash path of
        Some hash \<Rightarrow> give (Some (''[image(asset('' @ hash @ ''))]'', hash))
      | None \<Rightarrow>
          (case if path = [] then None else expand_path (se_files env) path of
             None \<Rightarrow> give None
           | Some file \<Rightarrow>
               (case se_read env file of
                  None \<Rightarrow> check (Inl (ImageMissing file))
                | Some bytes \<Rightarrow>
                    if \<not> se_is_image env bytes then check (Inl (ImageUnsupported file))
                    else and_do (save_bytes env trigger_id (image_mime (se_extension env file)) bytes) (\<lambda>hash.
                      give (Some (''[image(asset('' @ hash @ ''))]'', hash))))))"

text \<open>A script file: a file that cannot be read is left as it is.\<close>

definition script_asset ::
  "('f, 'n, 'v) store_env \<Rightarrow> string \<Rightarrow> string \<Rightarrow> execute_invocation \<Rightarrow> ('v, (string \<times> string) option) db_action" where
  "script_asset env trigger_id inner call =
     (let path = str_trim (ei_subject call) in
      case asset_hash path of
        Some hash \<Rightarrow> give (Some (CHR ''['' # inner @ '']'', hash))
      | None \<Rightarrow>
          (case if path = [] then None else expand_path (se_files env) path of
             None \<Rightarrow> give None
           | Some file \<Rightarrow>
               (case se_read env file of
                  None \<Rightarrow> give None
                | Some bytes \<Rightarrow>
                    and_do (save_bytes env trigger_id (script_mime (se_extension env file)) bytes) (\<lambda>hash.
                      let subject = ei_subject call; new = ''asset('' @ hash @ '')'';
                          quoted = filter (\<lambda>q. find_str q inner \<noteq> None)
                            [CHR 0x22 # subject @ [CHR 0x22], CHR 0x27 # subject @ [CHR 0x27]];
                          old = (case quoted of q # _ \<Rightarrow> q | [] \<Rightarrow> subject)
                      in give (Some (CHR ''['' # replace_first old new inner @ '']'', hash))))))"

definition image_path :: "string \<Rightarrow> string option" where
  "image_path inner =
     (case strip_prefix ''image('' inner of
        None \<Rightarrow> None | Some rest \<Rightarrow> map_option str_trim (strip_suffix '')'' rest))"

definition tag_asset ::
  "('f, 'n, 'v) store_env \<Rightarrow> string \<Rightarrow> string \<Rightarrow> ('v, (string \<times> string) option) db_action" where
  "tag_asset env trigger_id inner =
     (case image_path inner of
        Some path \<Rightarrow> image_asset env trigger_id path
      | None \<Rightarrow>
          (case strip_execute_args inner of
             None \<Rightarrow> give None
           | Some raw \<Rightarrow>
               (case parse_invocation raw of
                  Inl _ \<Rightarrow> give None
                | Inr call \<Rightarrow> if ei_file call then script_asset env trigger_id inner call else give None)))"

function assets_loop ::
  "('f, 'n, 'v) store_env \<Rightarrow> string \<Rightarrow> string \<Rightarrow> nat \<Rightarrow> string \<Rightarrow> string list \<Rightarrow> ('v, string \<times> string list) db_action" where
  "assets_loop env trigger_id output ptr processed hashes db =
     (case find_next_tag output ptr of
        None \<Rightarrow> Inr ((processed @ drop ptr output, hashes), db)
      | Some tag \<Rightarrow>
          (case tag_asset env trigger_id (tag_inner output tag) db of
             Inl e \<Rightarrow> Inl e
           | Inr (result, db') \<Rightarrow>
               (let before = take (tb_start tag - ptr) (drop ptr output);
                    old = take (tb_end tag + 1 - tb_start tag) (drop (tb_start tag) output)
                in case result of
                  None \<Rightarrow>
                    assets_loop env trigger_id output (tb_end tag + 1) (processed @ before @ old) hashes db'
                | Some (new, hash) \<Rightarrow>
                    assets_loop env trigger_id output (tb_end tag + 1) (processed @ before @ new) (hash # hashes) db')))"
  by pat_completeness auto
termination
  by (relation "measure (\<lambda>(env, trigger_id, output, ptr, _). length output - ptr)")
    (auto dest!: find_next_tag_less intro!: diff_less_mono2)

declare assets_loop.simps [simp del]

definition compile_and_save_assets ::
  "('f, 'n, 'v) store_env \<Rightarrow> string \<Rightarrow> string \<Rightarrow> ('v, string) db_action" where
  "compile_and_save_assets env trigger_id output =
     and_do (assets_loop env trigger_id output 0 [] []) (\<lambda>(processed, hashes).
     and_do (change (\<lambda>db. db\<lparr>db_assets :=
         filter (\<lambda>a. as_trigger a \<noteq> trigger_id \<or> as_id a \<in> set hashes) (db_assets db)\<rparr>)) (\<lambda>_.
     give processed))"

section \<open>Writing\<close>

definition json_text :: "string \<Rightarrow> string" where
  "json_text s = CHR 0x22 # s @ [CHR 0x22]"

definition compress_text :: "('f, 'n, 'v) store_env \<Rightarrow> string \<Rightarrow> store_error + u8 list" where
  "compress_text env content =
     (if max_script_size < str_len content then Inl ScriptTooBig
      else case se_pack_text env content of None \<Rightarrow> Inl CompressionFailed | Some z \<Rightarrow> Inr z)"

lemma compress_text_code [code]:
  "compress_text env content =
     (if (1048576 :: int) < int (str_len content) then Inl ScriptTooBig
      else case se_pack_text env content of None \<Rightarrow> Inl CompressionFailed | Some z \<Rightarrow> Inr z)"
  by (simp add: compress_text_def max_script_size_def)

definition put_script :: "script_row \<Rightarrow> 'v database \<Rightarrow> 'v database" where
  "put_script new db =
     (if list_ex (\<lambda>s. sc_trigger s = sc_trigger new) (db_scripts db)
      then db\<lparr>db_scripts := map (\<lambda>s. if sc_trigger s = sc_trigger new
             then new\<lparr>sc_version := sc_version s + 1\<rparr> else s) (db_scripts db)\<rparr>
      else db\<lparr>db_scripts := db_scripts db @ [new]\<rparr>)"

definition upsert_script ::
  "('f, 'n, 'v) store_env \<Rightarrow> string \<Rightarrow> script_interpreter \<Rightarrow> script_behavior \<Rightarrow> u8 list \<Rightarrow> ('v, unit) db_action" where
  "upsert_script env trigger_id interpreter behavior content =
     and_do (check (validate_script_size (length content))) (\<lambda>_.
     and_do (get_row trigger_id) (\<lambda>_.
     change (put_script \<lparr>sc_trigger = trigger_id, sc_interpreter = json_text (interpreter_as_str interpreter),
       sc_behavior = json_text (behavior_as_str behavior), sc_content = content, sc_version = 1,
       sc_updated_at = se_now env\<rparr>)))"

definition save_output :: "('f, 'n, 'v) store_env \<Rightarrow> string \<Rightarrow> string \<Rightarrow> ('v, unit) db_action" where
  "save_output env trigger_id output =
     and_do (compile_and_save_assets env trigger_id output) (\<lambda>processed.
     change (\<lambda>db. if processed = output then db
       else update_row trigger_id (\<lambda>t. t\<lparr>tg_output := processed, tg_updated_at := se_now env\<rparr>) db))"

definition update_trigger_app_filters ::
  "string \<Rightarrow> string option \<Rightarrow> string option \<Rightarrow> ('v, unit) db_action" where
  "update_trigger_app_filters trigger_id only except =
     and_do (check (map_err BadFilter (clean_app_filter_value only))) (\<lambda>only'.
     and_do (check (map_err BadFilter (clean_app_filter_value except))) (\<lambda>except'.
     change (update_row trigger_id
       (\<lambda>t. if tg_is_deleted t then t else t\<lparr>tg_only_apps := only', tg_except_apps := except'\<rparr>))))"

record new_entry =
  ne_name :: string
  ne_description :: "string option"
  ne_content :: string
  ne_action_type :: string
  ne_target_os :: string
  ne_only_apps :: "string option"
  ne_except_apps :: "string option"
  ne_tags :: string
  ne_auto_case :: bool
  ne_interpreter :: "script_interpreter option"
  ne_behavior :: "script_behavior option"
  ne_invocations :: "invocation list"

datatype add_outcome = Created | AlreadyExists | Updated

definition first_invocation :: "invocation list \<Rightarrow> string" where
  "first_invocation invocations = (case invocations of [] \<Rightarrow> [] | (_, phrase, _) # _ \<Rightarrow> phrase)"

fun check_each :: "('a \<Rightarrow> store_error + unit) \<Rightarrow> 'a list \<Rightarrow> store_error + unit" where
  "check_each f [] = Inr ()"
| "check_each f (x # xs) = ok_then (f x) (\<lambda>_. check_each f xs)"

section \<open>Reading\<close>

definition strip_double_quotes :: "string \<Rightarrow> string" where
  "strip_double_quotes s =
     (let quote = (\<lambda>c. c = CHR 0x22) in rev (dropWhile quote (rev (dropWhile quote s))))"

text \<open>The stored names are plain, so JSON needs no escapes.\<close>

definition interpreter_of_json :: "string \<Rightarrow> script_interpreter option" where
  "interpreter_of_json s = find (\<lambda>i. s = json_text (interpreter_as_str i)) [Bash, PowerShell, Python, Node, Cmd]"

definition behavior_of_json :: "string \<Rightarrow> script_behavior option" where
  "behavior_of_json s = find (\<lambda>b. s = json_text (behavior_as_str b)) [Inline, Silent]"

definition parse_json_variant :: "(string \<Rightarrow> 'a option) \<Rightarrow> string option \<Rightarrow> 'a option" where
  "parse_json_variant of_json s = Option.bind s (\<lambda>v. of_json (json_text (strip_double_quotes v)))"

definition script_of :: "string \<Rightarrow> 'v database \<Rightarrow> script_row option" where
  "script_of trigger_id db = find (\<lambda>s. sc_trigger s = trigger_id) (db_scripts db)"

definition row_action :: "trigger_row \<Rightarrow> script_row option \<Rightarrow> trigger_action" where
  "row_action t s =
     \<lparr>ta_output = tg_output t, ta_action_type = tg_action_type t, ta_only_apps = tg_only_apps t,
      ta_except_apps = tg_except_apps t, ta_auto_case = tg_auto_case t, ta_parent_id = tg_id t,
      ta_interpreter = parse_json_variant interpreter_of_json (map_option sc_interpreter s),
      ta_behavior = parse_json_variant behavior_of_json (map_option sc_behavior s),
      ta_script_binary = map_option sc_content s\<rparr>"

definition active_triggers ::
  "('f, 'n, 'v) store_env \<Rightarrow> invocation_type \<Rightarrow> 'v database \<Rightarrow> (string \<times> trigger_action) list" where
  "active_triggers env ty db =
     map (\<lambda>(al, t). (al_invocation al, row_action t (script_of (tg_id t) db)))
       (filter (\<lambda>(al, t). al_type al = ty \<and> is_active env t) (joined db))"

definition get_all_active_triggers :: "('f, 'n, 'v) store_env \<Rightarrow> 'v database \<Rightarrow> (string \<times> trigger_action) list" where
  "get_all_active_triggers env = active_triggers env WordInvocation"

definition get_all_active_regex_triggers ::
  "('f, 'n, 'v) store_env \<Rightarrow> 'v database \<Rightarrow> (string \<times> trigger_action) list" where
  "get_all_active_regex_triggers env = active_triggers env RegexInvocation"

definition get_all_active_hotkey_triggers ::
  "('f, 'n, 'v) store_env \<Rightarrow> 'v database \<Rightarrow> (string \<times> trigger_action) list" where
  "get_all_active_hotkey_triggers env = active_triggers env HotkeyInvocation"

definition get_action_by_trigger :: "('f, 'n, 'v) store_env \<Rightarrow> string \<Rightarrow> 'v database \<Rightarrow> trigger_action option" where
  "get_action_by_trigger env trig db =
     (let rows = map snd (filter (\<lambda>(al, t). al_type al = WordInvocation \<and> al_invocation al = trig \<and> is_active env t)
            (joined db))
      in case sort_key (\<lambda>t. tg_target_os t = ''all'') (sort_key (\<lambda>t. - tg_usage_count t) rows) of
        [] \<Rightarrow> None | t # _ \<Rightarrow> Some (row_action t (script_of (tg_id t) db)))"

definition voice_action ::
  "('f, 'n, 'v) store_env \<Rightarrow> trigger_row \<Rightarrow> script_row option \<Rightarrow> trigger_action" where
  "voice_action env t s =
     (let act = (row_action t s)\<lparr>ta_auto_case := False\<rparr> in
      if eq_ignore_ascii_case (str_trim (tg_action_type t)) ''script'' then
        (let probe = (case Option.bind (ta_script_binary act) (se_unpack_text env) of Some p \<Rightarrow> p | None \<Rightarrow> tg_output t);
             inferred = (case infer_interpreter None probe of
                Some i \<Rightarrow> i
              | None \<Rightarrow> default_for_target_os (se_windows env)
                  (case os_parse_str (tg_target_os t) of Some os \<Rightarrow> os | None \<Rightarrow> AllOs))
         in act\<lparr>ta_action_type := ''script'', ta_interpreter := or_else (ta_interpreter act) (Some inferred),
                ta_behavior := or_else (ta_behavior act) (Some Silent),
                ta_script_binary := or_else (ta_script_binary act)
                  (case compress_text env (tg_output t) of Inl _ \<Rightarrow> None | Inr z \<Rightarrow> Some z)\<rparr>)
      else act\<lparr>ta_interpreter := None, ta_behavior := None, ta_script_binary := None\<rparr>)"

definition list_active_voice_invocations ::
  "('f, 'n, 'v) store_env \<Rightarrow> 'v database \<Rightarrow> 'v resolved_invocation list" where
  "list_active_voice_invocations env db =
     map (\<lambda>(al, t).
        \<lparr>ri_trigger_id = tg_id t, ri_invocation = al_invocation al, ri_type = VoiceInvocation,
         ri_action = voice_action env t (script_of (tg_id t) db), ri_require_confirmation = al_confirm al,
         ri_strict_threshold = (case al_threshold al of Some v \<Rightarrow> v
           | None \<Rightarrow> threshold_for_phrase (se_scores env) (al_invocation al))\<rparr>)
       (filter (\<lambda>(al, t). al_type al = VoiceInvocation \<and> is_active env t) (joined db))"

definition display_alias :: "'v alias_row list \<Rightarrow> 'v alias_row option" where
  "display_alias aliases =
     or_else (find (\<lambda>al. al_type al = WordInvocation) aliases) (case aliases of [] \<Rightarrow> None | al # _ \<Rightarrow> Some al)"

definition display_for_aliases :: "string \<Rightarrow> 'v alias_row list \<Rightarrow> string" where
  "display_for_aliases name aliases =
     (if name \<noteq> [] then name else case display_alias aliases of None \<Rightarrow> [] | Some al \<Rightarrow> al_invocation al)"

text \<open>\<open>TriggerRow\<close>, \<open>TriggerListItem\<close> and \<open>TriggerSummary\<close> are a row with what is joined to it.\<close>

record 'v trigger_view =
  tv_row :: trigger_row
  tv_invocations :: "'v alias_row list"
  tv_display :: string
  tv_interpreter :: "script_interpreter option"
  tv_behavior :: "script_behavior option"
  tv_script :: "u8 list option"

definition view_row ::
  "(string option \<Rightarrow> script_interpreter option) \<Rightarrow> (string option \<Rightarrow> script_behavior option) \<Rightarrow> 'v database \<Rightarrow>
   trigger_row \<Rightarrow> 'v trigger_view" where
  "view_row interpreter_of behavior_of db t =
     (let s = script_of (tg_id t) db; aliases = list_aliases (tg_id t) db in
      \<lparr>tv_row = t, tv_invocations = aliases, tv_display = display_for_aliases (tg_name t) aliases,
       tv_interpreter = interpreter_of (map_option sc_interpreter s),
       tv_behavior = behavior_of (map_option sc_behavior s), tv_script = map_option sc_content s\<rparr>)"

definition view_trigger :: "'v database \<Rightarrow> trigger_row \<Rightarrow> 'v trigger_view" where
  "view_trigger = view_row (parse_json_variant interpreter_of_json) (parse_json_variant behavior_of_json)"

definition get_trigger :: "string \<Rightarrow> 'v database \<Rightarrow> 'v trigger_view option" where
  "get_trigger rid db = map_option (view_trigger db) (find_row rid db)"

text \<open>The list also unpacks the scripts, and fails when one cannot be read.\<close>

fun unpack_scripts ::
  "('f, 'n, 'v) store_env \<Rightarrow> 'v trigger_view list \<Rightarrow> store_error + ('v trigger_view \<times> string option) list" where
  "unpack_scripts env [] = Inr []"
| "unpack_scripts env (v # vs) =
     ok_then (case tv_script v of None \<Rightarrow> Inr None
        | Some z \<Rightarrow> (case se_unpack_text env z of None \<Rightarrow> Inl DatabaseError | Some text' \<Rightarrow> Inr (Some text')))
       (\<lambda>content. map_sum id (Cons (v, content)) (unpack_scripts env vs))"

definition get_triggers_list ::
  "('f, 'n, 'v) store_env \<Rightarrow> 'v database \<Rightarrow> store_error + ('v trigger_view \<times> string option) list" where
  "get_triggers_list env db = unpack_scripts env (map (view_trigger db) (filter (is_active env) (db_triggers db)))"

fun like :: "string \<Rightarrow> string \<Rightarrow> bool" where
  "like [] s = (s = [])"
| "like (p # ps) [] = (p = CHR ''%'' \<and> like ps [])"
| "like (p # ps) (c # cs) =
     (if p = CHR ''%'' then like ps (c # cs) \<or> like (p # ps) cs
      else (p = CHR ''_'' \<or> to_ascii_lowercase p = to_ascii_lowercase c) \<and> like ps cs)"

definition search_triggers ::
  "('f, 'n, 'v) store_env \<Rightarrow> string \<Rightarrow> int \<Rightarrow> 'v database \<Rightarrow> 'v trigger_view list" where
  "search_triggers env query limit db =
     (let pattern = CHR ''%'' # query @ ''%'';
          hits = filter (\<lambda>t. is_active env t \<and>
            (like pattern (tg_name t) \<or> list_ex (\<lambda>al. like pattern (al_invocation al)) (list_aliases (tg_id t) db)))
            (db_triggers db);
          sorted = sort_key (\<lambda>t. tg_target_os t = ''all'')
            (sort_key (\<lambda>t. - tg_usage_count t) (sort_key (\<lambda>t. - tg_updated_at t) hits))
      in map (view_trigger db) (if limit < 0 then sorted else take (nat limit) sorted))"

definition get_syncable_triggers :: "'v database \<Rightarrow> 'v trigger_view list" where
  "get_syncable_triggers db =
     map (view_row (\<lambda>s. Option.bind s (\<lambda>v. interpreter_of_json (json_text v)))
            (\<lambda>s. Option.bind s (\<lambda>v. behavior_of_json (json_text v))) db)
       (sort_key tg_version (sort_key tg_updated_at (filter tg_is_synced (db_triggers db))))"

end
