(* ===== verification/TriggerEntries.thy ===== *)
theory TriggerEntries
  imports TriggerOps
begin

text \<open>
  Entries: creating, updating and merging them (\<open>trigger_set.rs\<close>) and deleting them (\<open>trigger_delete.rs\<close>).
  An operation of the code that opens a transaction has the action it runs, which an outer transaction joins;
  the operation itself is the action under \<open>with_transaction\<close>.
\<close>

section \<open>Checks\<close>

definition check_limits ::
  "('f, 'n, 'v) store_env \<Rightarrow> string \<Rightarrow> string \<Rightarrow> 'v database \<Rightarrow> string \<Rightarrow> store_error + unit" where
  "check_limits env content action_type db trig =
     map_err LimitsFailed
       (validate_trigger_limits (Some (get_all_active_triggers env db)) trig content action_type)"

definition word_invocations :: "invocation list \<Rightarrow> string list" where
  "word_invocations invocations = List.map_filter (\<lambda>(ty, phrase, _). if ty = WordInvocation then Some phrase else None) invocations"

definition validate_entry_payload ::
  "('f, 'n, 'v) store_env \<Rightarrow> string \<Rightarrow> string \<Rightarrow> invocation list \<Rightarrow> string \<Rightarrow> string option \<Rightarrow> string \<Rightarrow>
   'v database \<Rightarrow> store_error + string" where
  "validate_entry_payload env content action_type invocations name description tags db =
     ok_then (is_text_action action_type) (\<lambda>textual.
     ok_then (if textual
        then map_err AuditFailed (audit_payload_tags_with_trigger_type (se_transform env) (se_validate env) content
               (audit_type_for_entry invocations))
        else Inr ()) (\<lambda>_.
     ok_then (check_each (check_limits env content action_type db) (word_invocations invocations)) (\<lambda>_.
     ok_then (if word_invocations invocations = []
        then check_limits env content action_type db (first_invocation invocations) else Inr ()) (\<lambda>_.
     ok_then (check_name_bytes name description) (\<lambda>_.
       normalize_tags (se_tags_of_json env) (se_json_of_tags env) tags)))))"

section \<open>Creating\<close>

definition new_row ::
  "('f, 'n, 'v) store_env \<Rightarrow> new_entry \<Rightarrow> string \<Rightarrow> string \<Rightarrow> string \<Rightarrow> string \<Rightarrow> trigger_row" where
  "new_row env entry rid output action_type tags =
     \<lparr>tg_id = rid, tg_name = ne_name entry, tg_description = ne_description entry, tg_output = output,
      tg_action_type = action_type, tg_is_enabled = True, tg_auto_case = ne_auto_case entry,
      tg_target_os = ne_target_os entry, tg_only_apps = None, tg_except_apps = None, tg_tags = tags,
      tg_usage_count = 0, tg_last_used_at = None, tg_created_at = se_now env, tg_updated_at = se_now env,
      tg_version = 1, tg_is_deleted = False, tg_is_synced = True\<rparr>"

definition write_new ::
  "('f, 'n, 'v) store_env \<Rightarrow> new_entry \<Rightarrow> string \<Rightarrow> bool \<Rightarrow> string \<Rightarrow> ('v, unit) db_action" where
  "write_new env entry rid textual tags =
     (let content = ne_content entry in
      if \<not> textual then
        and_do (check (resolve_script_parts content (ne_interpreter entry) (ne_behavior entry)))
          (\<lambda>(interpreter, behavior, output).
        and_do (insert_row (new_row env entry rid output ''script'' tags)) (\<lambda>_.
        and_do (check (compress_text env content)) (\<lambda>z.
          upsert_script env rid interpreter behavior z)))
      else
        and_do (check (validate_output content)) (\<lambda>_.
        and_do (insert_row (new_row env entry rid content ''text'' tags)) (\<lambda>_.
          save_output env rid content)))"

definition add_aliases :: "('f, 'n, 'v) store_env \<Rightarrow> string \<Rightarrow> invocation list \<Rightarrow> ('v, 'v alias_row list) db_action" where
  "add_aliases env rid = for_each (\<lambda>(ty, phrase, confirm). add_alias env rid ty phrase confirm)"

definition check_conflicts ::
  "new_entry \<Rightarrow> string option \<Rightarrow> invocation list \<Rightarrow> 'v database \<Rightarrow> store_error + unit" where
  "check_conflicts entry exclude_id invocations db =
     check_each (\<lambda>(ty, phrase, _).
       check_invocation_conflict ty phrase (ne_target_os entry) (ne_only_apps entry) (ne_except_apps entry) exclude_id db)
       invocations"

definition validate_entry ::
  "('f, 'n, 'v) store_env \<Rightarrow> new_entry \<Rightarrow> 'v database \<Rightarrow> store_error + bool \<times> string" where
  "validate_entry env entry db =
     ok_then (validate_target_os_value (ne_target_os entry)) (\<lambda>_.
     ok_then (is_text_action (ne_action_type entry)) (\<lambda>textual.
     ok_then (validate_entry_payload env (ne_content entry) (ne_action_type entry) (ne_invocations entry)
        (ne_name entry) (ne_description entry) (ne_tags entry) db) (\<lambda>tags.
     ok_then (if textual then validate_voice_slot_parity (ne_content entry) (ne_invocations entry) else Inr ()) (\<lambda>_.
       Inr (textual, tags)))))"

definition store_new ::
  "('f, 'n, 'v) store_env \<Rightarrow> new_entry \<Rightarrow> bool \<Rightarrow> string \<Rightarrow> ('v, string \<times> 'v alias_row list) db_action" where
  "store_new env entry textual tags =
     and_do (new_uuid env) (\<lambda>rid.
     and_do (write_new env entry rid textual tags) (\<lambda>_.
     and_do (update_trigger_app_filters rid (ne_only_apps entry) (ne_except_apps entry)) (\<lambda>_.
     and_do (add_aliases env rid (ne_invocations entry)) (\<lambda>aliases.
     give (rid, aliases)))))"

definition create_entry_inner ::
  "('f, 'n, 'v) store_env \<Rightarrow> new_entry \<Rightarrow> ('v, string \<times> 'v alias_row list) db_action" where
  "create_entry_inner env entry =
     and_do (check (fail_if (ne_invocations entry = []) NoInvocation)) (\<lambda>_.
     and_do (\<lambda>db. check (validate_entry env entry db) db) (\<lambda>(textual, tags).
     and_do (\<lambda>db. check (check_conflicts entry None (ne_invocations entry) db) db) (\<lambda>_.
     store_new env entry textual tags)))"

definition create_entry ::
  "('f, 'n, 'v) store_env \<Rightarrow> new_entry \<Rightarrow> 'v database \<Rightarrow> (store_error + string \<times> 'v alias_row list) \<times> 'v database" where
  "create_entry env entry = with_transaction (create_entry_inner env entry)"

record new_trigger =
  nt_name :: "string option"
  nt_description :: "string option"
  nt_type :: trigger_type
  nt_trigger :: string
  nt_content :: string
  nt_action_type :: string
  nt_target_os :: string
  nt_tags :: string
  nt_auto_case :: bool
  nt_interpreter :: "script_interpreter option"
  nt_behavior :: "script_behavior option"

definition create_trigger ::
  "('f, 'n, 'v) store_env \<Rightarrow> new_trigger \<Rightarrow> 'v database \<Rightarrow> (store_error + string) \<times> 'v database" where
  "create_trigger env n db =
     map_prod (map_sum id fst) id (create_entry env
       \<lparr>ne_name = (case nt_name n of Some s \<Rightarrow> s | None \<Rightarrow> []), ne_description = nt_description n,
        ne_content = nt_content n, ne_action_type = nt_action_type n, ne_target_os = nt_target_os n,
        ne_only_apps = None, ne_except_apps = None, ne_tags = nt_tags n, ne_auto_case = nt_auto_case n,
        ne_interpreter = nt_interpreter n, ne_behavior = nt_behavior n,
        ne_invocations = [(invocation_type_for_trigger (nt_type n), nt_trigger n, False)]\<rparr> db)"

section \<open>Updating\<close>

definition script_blob_matches ::
  "('f, 'n, 'v) store_env \<Rightarrow> string \<Rightarrow> string \<Rightarrow> script_interpreter \<Rightarrow> script_behavior \<Rightarrow> 'v database \<Rightarrow>
   store_error + bool" where
  "script_blob_matches env rid content interpreter behavior db =
     (case script_of rid db of
        None \<Rightarrow> Inr False
      | Some s \<Rightarrow>
          if sc_interpreter s \<noteq> json_text (interpreter_as_str interpreter) then Inr False
          else if sc_behavior s \<noteq> json_text (behavior_as_str behavior) then Inr False
          else case se_unpack_text env (sc_content s) of None \<Rightarrow> Inl DatabaseError | Some c \<Rightarrow> Inr (c = content))"

definition delete_script :: "string \<Rightarrow> 'v database \<Rightarrow> 'v database" where
  "delete_script rid db = db\<lparr>db_scripts := filter (\<lambda>s. sc_trigger s \<noteq> rid) (db_scripts db)\<rparr>"

definition entry_row ::
  "('f, 'n, 'v) store_env \<Rightarrow> new_entry \<Rightarrow> string \<Rightarrow> string \<Rightarrow> string \<Rightarrow> trigger_row \<Rightarrow> trigger_row" where
  "entry_row env entry output action_type tags t =
     t\<lparr>tg_name := ne_name entry, tg_description := ne_description entry, tg_output := output,
       tg_action_type := action_type, tg_target_os := ne_target_os entry, tg_tags := tags,
       tg_auto_case := ne_auto_case entry, tg_is_deleted := False, tg_version := tg_version t + 1,
       tg_updated_at := se_now env\<rparr>"

definition missing_invocations :: "string \<Rightarrow> invocation list \<Rightarrow> 'v database \<Rightarrow> invocation list" where
  "missing_invocations rid requested db =
     filter (\<lambda>(ty, phrase, _). find_parent_by_invocation ty phrase db \<noteq> Some rid) requested"

definition same_scope :: "new_entry \<Rightarrow> string option \<Rightarrow> string option \<Rightarrow> trigger_row \<Rightarrow> bool" where
  "same_scope entry only except t \<longleftrightarrow>
     tg_target_os t = ne_target_os entry \<and> tg_only_apps t = only \<and> tg_except_apps t = except"

definition same_meta :: "new_entry \<Rightarrow> string \<Rightarrow> trigger_row \<Rightarrow> bool" where
  "same_meta entry tags t \<longleftrightarrow>
     tg_tags t = tags \<and> tg_name t = ne_name entry \<and> tg_description t = ne_description entry \<and>
     tg_auto_case t = ne_auto_case entry"

text \<open>What an update writes before its filters and aliases; \<open>None\<close> when nothing changes.\<close>

definition write_changed ::
  "('f, 'n, 'v) store_env \<Rightarrow> new_entry \<Rightarrow> string \<Rightarrow> bool \<Rightarrow> string \<Rightarrow> trigger_row \<Rightarrow> bool \<Rightarrow> ('v, unit option) db_action" where
  "write_changed env entry rid textual tags current same =
     (let content = ne_content entry in
      if \<not> textual then
        and_do (check (resolve_script_parts content (ne_interpreter entry) (ne_behavior entry)))
          (\<lambda>(interpreter, behavior, output).
        and_do (if eq_ignore_ascii_case (tg_action_type current) ''script''
           then (\<lambda>db. check (script_blob_matches env rid content interpreter behavior db) db) else give False)
          (\<lambda>script_same.
        if tg_output current = output \<and> script_same \<and> same then give None
        else
          and_do (change (update_row rid (entry_row env entry output ''script'' tags))) (\<lambda>_.
          and_do (check (compress_text env content)) (\<lambda>z.
          and_do (upsert_script env rid interpreter behavior z) (\<lambda>_. give (Some ()))))))
      else
        and_do (check (validate_output content)) (\<lambda>_.
        if tg_output current = content \<and> eq_ignore_ascii_case (tg_action_type current) ''text'' \<and> same then give None
        else
          and_do (change (\<lambda>db. delete_script rid (update_row rid (entry_row env entry content ''text'' tags) db))) (\<lambda>_.
          and_do (save_output env rid content) (\<lambda>_. give (Some ())))))"

definition update_entry_inner :: "('f, 'n, 'v) store_env \<Rightarrow> string \<Rightarrow> new_entry \<Rightarrow> ('v, add_outcome) db_action" where
  "update_entry_inner env rid entry =
     and_do (\<lambda>db. check (validate_entry env entry db) db) (\<lambda>(textual, tags).
     and_do (get_row rid) (\<lambda>current.
     and_do (ask (missing_invocations rid (ne_invocations entry))) (\<lambda>missing.
     and_do (\<lambda>db. check (check_conflicts entry (Some rid) missing db) db) (\<lambda>_.
     and_do (check (map_err BadFilter (clean_app_filter_value (ne_only_apps entry)))) (\<lambda>only.
     and_do (check (map_err BadFilter (clean_app_filter_value (ne_except_apps entry)))) (\<lambda>except.
     and_do (write_changed env entry rid textual tags current
        (same_scope entry only except current \<and> same_meta entry tags current \<and> missing = [])) (\<lambda>written.
     if written = None then give AlreadyExists
     else
       and_do (update_trigger_app_filters rid (ne_only_apps entry) (ne_except_apps entry)) (\<lambda>_.
       and_do (add_aliases env rid missing) (\<lambda>_. give Updated)))))))))"

section \<open>Merging\<close>

definition overlapping_parents :: "new_entry \<Rightarrow> 'v database \<Rightarrow> string list \<Rightarrow> string list \<Rightarrow> string list" where
  "overlapping_parents entry db pids found =
     foldl (\<lambda>acc pid.
       if pid \<in> set acc then acc
       else case find_row pid db of
         None \<Rightarrow> acc
       | Some t \<Rightarrow>
           if scope_overlaps (ne_target_os entry) (ne_only_apps entry) (ne_except_apps entry) t then acc @ [pid] else acc)
       found pids"

definition requested_parents :: "new_entry \<Rightarrow> 'v database \<Rightarrow> string list" where
  "requested_parents entry db =
     foldl (\<lambda>found (ty, phrase, _). overlapping_parents entry db (parents_by_invocation ty phrase db) found) []
       (ne_invocations entry)"

definition upsert_entry_inner :: "('f, 'n, 'v) store_env \<Rightarrow> new_entry \<Rightarrow> ('v, add_outcome) db_action" where
  "upsert_entry_inner env entry =
     and_do (check (fail_if (ne_invocations entry = []) NoInvocation)) (\<lambda>_.
     and_do (check (validate_target_os_value (ne_target_os entry))) (\<lambda>_.
     and_do (ask (requested_parents entry)) (\<lambda>parents.
     case parents of
       [] \<Rightarrow> and_do (create_entry_inner env entry) (\<lambda>_. give Created)
     | [rid] \<Rightarrow> update_entry_inner env rid entry
     | a # b # _ \<Rightarrow> check (Inl (TwoEntries a b)))))"

definition upsert_entry_full ::
  "('f, 'n, 'v) store_env \<Rightarrow> new_entry \<Rightarrow> 'v database \<Rightarrow> (store_error + add_outcome) \<times> 'v database" where
  "upsert_entry_full env entry = with_transaction (upsert_entry_inner env entry)"

definition add_trigger_by_type_with_case ::
  "('f, 'n, 'v) store_env \<Rightarrow> trigger_type \<Rightarrow> string \<Rightarrow> string \<Rightarrow> string \<Rightarrow> string option \<Rightarrow> string option \<Rightarrow>
   string list option \<Rightarrow> string option \<Rightarrow> string option \<Rightarrow> bool \<Rightarrow> 'v database \<Rightarrow>
   (store_error + add_outcome) \<times> 'v database" where
  "add_trigger_by_type_with_case env kind trig output os only except tags name description auto_case db =
     (if (case name of Some n \<Rightarrow> max_name_length < str_len n | None \<Rightarrow> False) then (Inl NameTooLong, db)
      else if (case description of Some d \<Rightarrow> max_description_length < str_len d | None \<Rightarrow> False)
      then (Inl DescriptionTooLong, db)
      else upsert_entry_full env
        \<lparr>ne_name = (case name of Some n \<Rightarrow> n | None \<Rightarrow> []), ne_description = description, ne_content = output,
         ne_action_type = ''text'', ne_target_os = os, ne_only_apps = only, ne_except_apps = except,
         ne_tags = normalize_add_tags (se_json_of_tags env) tags, ne_auto_case = auto_case,
         ne_interpreter = None, ne_behavior = None,
         ne_invocations = [(invocation_type_for_trigger kind, trig, False)]\<rparr> db)"

definition add_trigger_by_type where
  "add_trigger_by_type env kind trig output os only except tags =
     add_trigger_by_type_with_case env kind trig output os only except tags None None False"

definition add_trigger_with_case where
  "add_trigger_with_case env = add_trigger_by_type_with_case env WordTrigger"

definition add_trigger where
  "add_trigger env trig output os only except tags =
     add_trigger_by_type_with_case env WordTrigger trig output os only except tags None None False"

section \<open>Editing and writing by identifier\<close>

record existing_update =
  eu_id :: string
  eu_name :: string
  eu_description :: "string option"
  eu_type :: trigger_type
  eu_trigger :: string
  eu_content :: string
  eu_action_type :: string
  eu_target_os :: string
  eu_tags :: string
  eu_auto_case :: bool
  eu_usage_count :: int
  eu_last_used_at :: "int option"
  eu_interpreter :: "script_interpreter option"
  eu_behavior :: "script_behavior option"

definition updated_row ::
  "('f, 'n, 'v) store_env \<Rightarrow> existing_update \<Rightarrow> string \<Rightarrow> string \<Rightarrow> string \<Rightarrow> trigger_row \<Rightarrow> trigger_row" where
  "updated_row env u output action_type tags t =
     t\<lparr>tg_name := eu_name u, tg_description := eu_description u, tg_output := output, tg_action_type := action_type,
       tg_target_os := eu_target_os u, tg_tags := tags, tg_usage_count := eu_usage_count u,
       tg_last_used_at := eu_last_used_at u, tg_auto_case := eu_auto_case u, tg_is_deleted := False,
       tg_version := tg_version t + 1, tg_updated_at := se_now env\<rparr>"

definition check_update ::
  "('f, 'n, 'v) store_env \<Rightarrow> existing_update \<Rightarrow> 'v database \<Rightarrow> store_error + bool \<times> string \<times> prepared_trigger" where
  "check_update env u db =
     ok_then (validate_target_os_value (eu_target_os u)) (\<lambda>_.
     ok_then (is_text_action (eu_action_type u)) (\<lambda>textual.
     ok_then (if textual
        then map_err AuditFailed (audit_payload_tags_with_trigger_type (se_transform env) (se_validate env) (eu_content u)
               (eu_type u))
        else Inr ()) (\<lambda>_.
     ok_then (check_limits env (eu_content u) (eu_action_type u) db (eu_trigger u)) (\<lambda>_.
     ok_then (check_name_bytes (eu_name u) (eu_description u)) (\<lambda>_.
     ok_then (normalize_tags (se_tags_of_json env) (se_json_of_tags env) (eu_tags u)) (\<lambda>tags.
     ok_then (prepare_trigger_with_type (eu_trigger u) (eu_type u) (eu_target_os u)) (\<lambda>prepared.
     ok_then (validate_trigger_target_os_conflict (pt_type prepared) (pt_stored prepared) (eu_target_os u) None None
        (Some (eu_id u)) db) (\<lambda>_.
       Inr (textual, tags, prepared)))))))))"

definition write_update ::
  "('f, 'n, 'v) store_env \<Rightarrow> existing_update \<Rightarrow> bool \<Rightarrow> string \<Rightarrow> ('v, unit) db_action" where
  "write_update env u textual tags =
     (let content = eu_content u; rid = eu_id u in
      if \<not> textual then
        and_do (check (resolve_script_parts content (eu_interpreter u) (eu_behavior u))) (\<lambda>(interpreter, behavior, output).
        and_do (change (update_row rid (updated_row env u output ''script'' tags))) (\<lambda>_.
        and_do (check (compress_text env content)) (\<lambda>z. upsert_script env rid interpreter behavior z)))
      else
        and_do (check (validate_output content)) (\<lambda>_.
        and_do (change (\<lambda>db. delete_script rid (update_row rid (updated_row env u content ''text'' tags) db))) (\<lambda>_.
          save_output env rid content)))"

definition update_existing_inner :: "('f, 'n, 'v) store_env \<Rightarrow> existing_update \<Rightarrow> ('v, unit) db_action" where
  "update_existing_inner env u =
     and_do (\<lambda>db. check (check_update env u db) db) (\<lambda>(textual, tags, prepared).
     and_do (write_update env u textual tags) (\<lambda>_.
     and_do (change (delete_aliases (\<lambda>al. al_trigger al = eu_id u))) (\<lambda>_.
     and_do (add_alias env (eu_id u) (invocation_type_for_trigger (pt_type prepared)) (pt_stored prepared) False)
       (\<lambda>_. give ()))))"

definition update_existing_trigger ::
  "('f, 'n, 'v) store_env \<Rightarrow> existing_update \<Rightarrow> 'v database \<Rightarrow> (store_error + unit) \<times> 'v database" where
  "update_existing_trigger env u = with_transaction (update_existing_inner env u)"

text \<open>The oldest way to write: by identifier, without checks of the payload.\<close>

record raw_trigger =
  rt_id :: string
  rt_name :: string
  rt_description :: "string option"
  rt_type :: trigger_type
  rt_trigger :: string
  rt_output :: string
  rt_action_type :: string
  rt_target_os :: string
  rt_tags :: string
  rt_usage_count :: int
  rt_last_used_at :: "int option"
  rt_auto_case :: bool

definition raw_new_row :: "('f, 'n, 'v) store_env \<Rightarrow> raw_trigger \<Rightarrow> trigger_row" where
  "raw_new_row env r =
     \<lparr>tg_id = rt_id r, tg_name = rt_name r, tg_description = rt_description r, tg_output = rt_output r,
      tg_action_type = rt_action_type r, tg_is_enabled = True, tg_auto_case = rt_auto_case r,
      tg_target_os = rt_target_os r, tg_only_apps = None, tg_except_apps = None, tg_tags = rt_tags r,
      tg_usage_count = rt_usage_count r, tg_last_used_at = rt_last_used_at r, tg_created_at = se_now env,
      tg_updated_at = se_now env, tg_version = 1, tg_is_deleted = False, tg_is_synced = True\<rparr>"

definition raw_row :: "('f, 'n, 'v) store_env \<Rightarrow> raw_trigger \<Rightarrow> trigger_row \<Rightarrow> trigger_row" where
  "raw_row env r t =
     t\<lparr>tg_name := rt_name r, tg_description := rt_description r, tg_output := rt_output r,
       tg_action_type := rt_action_type r, tg_target_os := rt_target_os r, tg_tags := rt_tags r,
       tg_usage_count := rt_usage_count r, tg_last_used_at := rt_last_used_at r, tg_is_deleted := False,
       tg_auto_case := rt_auto_case r, tg_version := tg_version t + 1, tg_updated_at := se_now env\<rparr>"

definition put_raw_row :: "('f, 'n, 'v) store_env \<Rightarrow> raw_trigger \<Rightarrow> 'v database \<Rightarrow> 'v database" where
  "put_raw_row env r db =
     (if find_row (rt_id r) db = None then db\<lparr>db_triggers := db_triggers db @ [raw_new_row env r]\<rparr>
      else update_row (rt_id r) (raw_row env r) db)"

definition check_holders :: "raw_trigger \<Rightarrow> string list \<Rightarrow> 'v database \<Rightarrow> store_error + unit" where
  "check_holders r holders db =
     check_each (\<lambda>pid.
       if pid = rt_id r then Inr ()
       else case find_row pid db of
         None \<Rightarrow> Inl DatabaseError
       | Some t \<Rightarrow> fail_if (scope_overlaps (rt_target_os r) None None t) (AliasConflict (rt_trigger r))) holders"

definition upsert_raw_inner :: "('f, 'n, 'v) store_env \<Rightarrow> raw_trigger \<Rightarrow> ('v, unit) db_action" where
  "upsert_raw_inner env r =
     and_do (change (put_raw_row env r)) (\<lambda>_.
     and_do (if rt_action_type r = ''text'' then save_output env (rt_id r) (rt_output r) else give ()) (\<lambda>_.
     let ty = invocation_type_for_trigger (rt_type r) in
     and_do (ask (parents_by_invocation ty (rt_trigger r))) (\<lambda>holders.
     and_do (\<lambda>db. check (check_holders r holders db) db) (\<lambda>_.
     if rt_id r \<in> set holders then give ()
     else and_do (add_alias env (rt_id r) ty (rt_trigger r) False) (\<lambda>_. give ())))))"

definition upsert_trigger_with_type_and_case ::
  "('f, 'n, 'v) store_env \<Rightarrow> raw_trigger \<Rightarrow> 'v database \<Rightarrow> (store_error + unit) \<times> 'v database" where
  "upsert_trigger_with_type_and_case env r = with_transaction (upsert_raw_inner env r)"

definition upsert_trigger_with_type ::
  "('f, 'n, 'v) store_env \<Rightarrow> raw_trigger \<Rightarrow> 'v database \<Rightarrow> (store_error + unit) \<times> 'v database" where
  "upsert_trigger_with_type env r = upsert_trigger_with_type_and_case env (r\<lparr>rt_auto_case := False\<rparr>)"

definition upsert_trigger ::
  "('f, 'n, 'v) store_env \<Rightarrow> raw_trigger \<Rightarrow> 'v database \<Rightarrow> (store_error + unit) \<times> 'v database" where
  "upsert_trigger env r =
     upsert_trigger_with_type_and_case env (r\<lparr>rt_type := WordTrigger, rt_auto_case := False\<rparr>)"

section \<open>Deleting\<close>

definition delete_trigger :: "('f, 'n, 'v) store_env \<Rightarrow> string \<Rightarrow> 'v database \<Rightarrow> bool \<times> 'v database" where
  "delete_trigger env rid db =
     (if list_ex (\<lambda>t. tg_id t = rid \<and> \<not> tg_is_deleted t) (db_triggers db)
      then (True, tombstone_entry rid (se_now env) db) else (False, db))"

fun delete_holders ::
  "('f, 'n, 'v) store_env \<Rightarrow> invocation_type \<Rightarrow> string \<Rightarrow> string list \<Rightarrow> nat \<times> 'v database \<Rightarrow> nat \<times> 'v database" where
  "delete_holders env ty invocation [] (n, db) = (n, db)"
| "delete_holders env ty invocation (pid # pids) (n, db) =
     (let (removed, db') = delete_alias env pid ty invocation db in
      delete_holders env ty invocation pids (if removed then n + 1 else n, db'))"

definition delete_value ::
  "('f, 'n, 'v) store_env \<Rightarrow> nat \<times> 'v database \<Rightarrow> string \<Rightarrow> nat \<times> 'v database" where
  "delete_value env s invocation =
     foldl (\<lambda>(n, db) ty. delete_holders env ty invocation (parents_by_invocation ty invocation db) (n, db)) s
       [WordInvocation, HotkeyInvocation, RegexInvocation, VoiceInvocation]"

definition delete_triggers_by_values ::
  "('f, 'n, 'v) store_env \<Rightarrow> string list \<Rightarrow> 'v database \<Rightarrow> nat \<times> 'v database" where
  "delete_triggers_by_values env invocations db = foldl (delete_value env) (0, db) invocations"

definition delete_trigger_by_value :: "('f, 'n, 'v) store_env \<Rightarrow> string \<Rightarrow> 'v database \<Rightarrow> nat \<times> 'v database" where
  "delete_trigger_by_value env invocation db = delete_triggers_by_values env [invocation] db"

definition sql_pattern :: "string \<Rightarrow> string" where
  "sql_pattern pattern = replace_char CHR ''*'' CHR ''%'' pattern"

definition parent_ids_by_invocation_like :: "string \<Rightarrow> 'v database \<Rightarrow> string list" where
  "parent_ids_by_invocation_like pattern db =
     remdups (map (\<lambda>(al, t). al_trigger al)
       (filter (\<lambda>(al, t). like pattern (al_invocation al) \<and> \<not> tg_is_deleted t) (joined db)))"

definition count_triggers_by_pattern :: "string \<Rightarrow> 'v database \<Rightarrow> nat" where
  "count_triggers_by_pattern pattern db = length (parent_ids_by_invocation_like (sql_pattern pattern) db)"

definition tombstone_all :: "int \<Rightarrow> string list \<Rightarrow> 'v database \<Rightarrow> 'v database" where
  "tombstone_all now ids db = foldl (\<lambda>d rid. tombstone_entry rid now d) db ids"

definition delete_triggers_by_pattern ::
  "('f, 'n, 'v) store_env \<Rightarrow> string \<Rightarrow> 'v database \<Rightarrow> nat \<times> 'v database" where
  "delete_triggers_by_pattern env pattern db =
     (let ids = parent_ids_by_invocation_like (sql_pattern pattern) db in
      (length ids, tombstone_all (se_now env) ids db))"

text \<open>\<open>json_each\<close> fails on tags that are not JSON.\<close>

definition delete_triggers_by_tag ::
  "('f, 'n, 'v) store_env \<Rightarrow> string \<Rightarrow> 'v database \<Rightarrow> (store_error + nat) \<times> 'v database" where
  "delete_triggers_by_tag env tag db =
     (let live = filter (\<lambda>t. \<not> tg_is_deleted t) (db_triggers db) in
      if list_ex (\<lambda>t. se_json_each env (tg_tags t) = None) live then (Inl DatabaseError, db)
      else
        (let ids = map tg_id (filter (\<lambda>t. case se_json_each env (tg_tags t) of
                Some tags \<Rightarrow> tag \<in> set tags | None \<Rightarrow> False) live)
         in (Inr (length ids), tombstone_all (se_now env) ids db)))"

end
