(* ===== verification/TriggerInvariants.thy ===== *)
theory TriggerInvariants
  imports TriggerEntries
begin

text \<open>
  The invariant of the tables: every operation keeps it.  \<open>valid P m Q\<close> says that an action that succeeds from
  tables with \<open>P\<close> leaves tables with \<open>Q\<close>; \<open>store_ok X\<close> allows the triggers of \<open>X\<close> to be without an alias, which
  they are in the middle of an operation.
\<close>

section \<open>Triples\<close>

definition valid ::
  "('v database \<Rightarrow> bool) \<Rightarrow> ('v, 'a) db_action \<Rightarrow> ('a \<Rightarrow> 'v database \<Rightarrow> bool) \<Rightarrow> bool" where
  "valid P m Q \<longleftrightarrow> (\<forall>db. P db \<longrightarrow> (case m db of Inl _ \<Rightarrow> True | Inr (a, db') \<Rightarrow> Q a db'))"

named_theorems triple \<open>triples of the combinators and operations\<close>

lemma validI: "(\<And>db a db'. P db \<Longrightarrow> m db = Inr (a, db') \<Longrightarrow> Q a db') \<Longrightarrow> valid P m Q"
  by (auto simp: valid_def split: sum.split)

lemma validD: "valid P m Q \<Longrightarrow> P db \<Longrightarrow> m db = Inr (a, db') \<Longrightarrow> Q a db'"
  by (fastforce simp: valid_def)

lemma valid_weaken:
  "valid P m Q \<Longrightarrow> (\<And>db. P' db \<Longrightarrow> P db) \<Longrightarrow> (\<And>a db. Q a db \<Longrightarrow> Q' a db) \<Longrightarrow> valid P' m Q'"
  by (fastforce simp: valid_def split: sum.split_asm sum.split)

lemma valid_post: "valid P m Q \<Longrightarrow> (\<And>a db. Q a db \<Longrightarrow> Q' a db) \<Longrightarrow> valid P m Q'"
  by (rule valid_weaken)

lemma valid_pre: "valid P m Q \<Longrightarrow> (\<And>db. P' db \<Longrightarrow> P db) \<Longrightarrow> valid P' m Q"
  by (rule valid_weaken)

lemma valid_and_do: "valid P m R \<Longrightarrow> (\<And>a. valid (R a) (f a) Q) \<Longrightarrow> valid P (and_do m f) Q"
  by (fastforce simp: valid_def and_do_def split: sum.split_asm sum.split)

lemma valid_give: "valid (Q a) (give a) Q"
  by (simp add: valid_def give_def)

lemma valid_check: "valid (\<lambda>db. \<forall>a. r = Inr a \<longrightarrow> Q a db) (check r) Q"
  by (cases r) (auto simp: valid_def check_def)

lemma valid_check_db: "valid (\<lambda>db. \<forall>a. r db = Inr a \<longrightarrow> Q a db) (\<lambda>db. check (r db) db) Q"
  by (auto simp: valid_def check_def split: sum.split) (case_tac "r db"; auto)+

lemma valid_ask: "valid (\<lambda>db. Q (f db) db) (ask f) Q"
  by (simp add: valid_def ask_def)

lemma valid_change: "valid (\<lambda>db. Q () (f db)) (change f) Q"
  by (simp add: valid_def change_def)

lemma check_Inr: "check r db = Inr (a, db') \<longleftrightarrow> r = Inr a \<and> db' = db"
  by (cases r) (auto simp: check_def)

lemma and_do_Inr: "and_do m f db = Inr r \<longleftrightarrow> (\<exists>a db1. m db = Inr (a, db1) \<and> f a db1 = Inr r)"
  by (auto simp: and_do_def split: sum.split)

lemma give_Inr: "give a db = Inr (b, db') \<longleftrightarrow> a = b \<and> db' = db"
  by (auto simp: give_def)

lemma ask_Inr: "ask f db = Inr (b, db') \<longleftrightarrow> f db = b \<and> db' = db"
  by (auto simp: ask_def)

lemma change_Inr: "change f db = Inr (b, db') \<longleftrightarrow> db' = f db"
  by (auto simp: change_def)

lemmas run_Inr = check_Inr and_do_Inr give_Inr ask_Inr change_Inr

text \<open>Triples that keep a property, for chains of steps that all keep it.\<close>

lemma keep_and_do [triple]: "valid I m (\<lambda>_. I) \<Longrightarrow> (\<And>a. valid I (f a) (\<lambda>_. I)) \<Longrightarrow> valid I (and_do m f) (\<lambda>_. I)"
  by (rule valid_and_do)

lemma keep_give [triple]: "valid I (give a) (\<lambda>_. I)"
  by (rule valid_give)

lemma keep_check [triple]: "valid I (check r) (\<lambda>_. I)"
  by (rule valid_pre [OF valid_check]) simp

lemma keep_check_db [triple]: "valid I (\<lambda>db. check (r db) db) (\<lambda>_. I)"
  by (rule valid_pre [OF valid_check_db]) simp

lemma keep_ask [triple]: "valid I (ask f) (\<lambda>_. I)"
  by (rule valid_ask)

lemma keep_get_row [triple]: "valid I (get_row rid) (\<lambda>_. I)"
  by (auto simp: valid_def get_row_def split: option.split)

lemma keep_for_each [triple]: "(\<And>x. valid I (f x) (\<lambda>_. I)) \<Longrightarrow> valid I (for_each f xs) (\<lambda>_. I)"
proof (induction xs)
  case (Cons x xs)
  show ?case
  proof (rule validI)
    fix db ys db'' assume pre: "I db" and run: "for_each f (x # xs) db = Inr (ys, db'')"
    then obtain y db' ys' where "f x db = Inr (y, db')" and "for_each f xs db' = Inr (ys', db'')"
      by (auto split: sum.split_asm prod.split_asm)
    then show "I db''" using validD [OF Cons.prems pre] validD [OF Cons.IH [OF Cons.prems]] by blast
  qed
qed (simp add: valid_def)

lemma keep_if [triple]: "(b \<Longrightarrow> valid I m (\<lambda>_. I)) \<Longrightarrow> (\<not> b \<Longrightarrow> valid I m' (\<lambda>_. I)) \<Longrightarrow> valid I (if b then m else m') (\<lambda>_. I)"
  by simp

lemma keep_change: "(\<And>db. I db \<Longrightarrow> I (f db)) \<Longrightarrow> valid I (change f) (\<lambda>_. I)"
  by (simp add: valid_def change_def)

section \<open>Scripts and assets\<close>

text \<open>A property of the tables that writing a script, an asset or an output keeps is kept by everything the
  operations do to scripts and assets.\<close>

locale table_invariant =
  fixes I :: "'v database \<Rightarrow> bool"
  assumes assets_added: "I db \<Longrightarrow> find_row (as_trigger a) db \<noteq> None \<Longrightarrow>
      I (db\<lparr>db_assets := filter (\<lambda>b. as_id b \<noteq> as_id a) (db_assets db) @ [a]\<rparr>)"
    and assets_dropped: "I db \<Longrightarrow> I (db\<lparr>db_assets := filter P (db_assets db)\<rparr>)"
    and script_put: "I db \<Longrightarrow> find_row (sc_trigger s) db \<noteq> None \<Longrightarrow> I (put_script s db)"
    and output_written: "I db \<Longrightarrow> I (update_row k (\<lambda>t. t\<lparr>tg_output := out, tg_updated_at := n\<rparr>) db)"
begin

lemma keep_put_asset [triple]: "valid I (put_asset a) (\<lambda>_. I)"
  by (auto simp: valid_def put_asset_def intro: assets_added)

lemma keep_save_bytes [triple]: "valid I (save_bytes env k mime bytes) (\<lambda>_. I)"
  unfolding save_bytes_def by (intro triple)

lemma keep_image_asset [triple]: "valid I (image_asset env k path) (\<lambda>_. I)"
  unfolding image_asset_def by (auto intro!: triple split: option.split)

lemma keep_script_asset [triple]: "valid I (script_asset env k inner call) (\<lambda>_. I)"
  unfolding script_asset_def Let_def by (auto intro!: triple split: option.split)

lemma keep_tag_asset [triple]: "valid I (tag_asset env k inner) (\<lambda>_. I)"
  unfolding tag_asset_def by (auto intro!: triple split: option.split sum.split)

lemma keep_assets_loop:
  "I db \<Longrightarrow> assets_loop env k tmpl ptr processed hashes db = Inr (a, db') \<Longrightarrow> I db'"
proof (induction env k tmpl ptr processed hashes db rule: assets_loop.induct)
  case (1 env k tmpl ptr processed hashes db)
  show ?case
  proof (cases "find_next_tag tmpl ptr")
    case None
    then show ?thesis using 1(3,4) by (simp add: assets_loop.simps [of env k tmpl ptr])
  next
    case (Some tag)
    obtain result db1 where step: "tag_asset env k (tag_inner tmpl tag) db = Inr (result, db1)"
      using 1(4) Some by (cases "tag_asset env k (tag_inner tmpl tag) db")
        (auto simp: assets_loop.simps [of env k tmpl ptr])
    have "I db1" by (rule validD [OF keep_tag_asset 1(3) step])
    then show ?thesis
      using 1(4) Some step 1(1) [OF Some step refl refl refl] 1(2) [OF Some step refl refl refl]
      by (cases result) (auto simp: assets_loop.simps [of env k tmpl ptr] Let_def)
  qed
qed

lemma keep_compile_assets [triple]: "valid I (compile_and_save_assets env k output) (\<lambda>_. I)"
proof -
  have "valid I (assets_loop env k output 0 [] []) (\<lambda>_. I)"
    by (rule validI) (rule keep_assets_loop)
  then show ?thesis unfolding compile_and_save_assets_def
    by (auto intro!: triple keep_change assets_dropped split: prod.split)
qed

lemma keep_save_output [triple]: "valid I (save_output env k output) (\<lambda>_. I)"
  unfolding save_output_def by (intro triple keep_change) (auto intro: output_written)

lemma keep_upsert_script [triple]: "valid I (upsert_script env k i b z) (\<lambda>_. I)"
  by (rule validI) (auto simp: upsert_script_def run_Inr get_row_def intro!: script_put split: option.split_asm)

end

section \<open>The invariant\<close>

definition live_row :: "string \<Rightarrow> 'v database \<Rightarrow> bool" where
  "live_row rid db \<longleftrightarrow> (\<exists>t. find_row rid db = Some t \<and> \<not> tg_is_deleted t)"

definition alias_key :: "'v alias_row \<Rightarrow> string \<times> invocation_type \<times> string" where
  "alias_key al = (al_trigger al, al_type al, al_invocation al)"

definition alias_ok :: "'v database \<Rightarrow> 'v alias_row \<Rightarrow> bool" where
  "alias_ok db al \<longleftrightarrow> live_row (al_trigger al) db \<and>
     (al_type al = HotkeyInvocation \<longrightarrow> (\<exists>h. parse_hotkey (al_invocation al) = Inr h))"

definition holders :: "'v database \<Rightarrow> string set" where
  "holders db = al_trigger ` set (db_aliases db)"

definition attached :: "'v database \<Rightarrow> bool" where
  "attached db \<longleftrightarrow> distinct (map sc_trigger (db_scripts db)) \<and> distinct (map as_id (db_assets db)) \<and>
     (\<forall>s\<in>set (db_scripts db). find_row (sc_trigger s) db \<noteq> None) \<and>
     (\<forall>a\<in>set (db_assets db). find_row (as_trigger a) db \<noteq> None)"

definition store_ok :: "string set \<Rightarrow> 'v database \<Rightarrow> bool" where
  "store_ok X db \<longleftrightarrow> distinct (map tg_id (db_triggers db)) \<and> distinct (map al_id (db_aliases db)) \<and>
     distinct (map alias_key (db_aliases db)) \<and> (\<forall>al\<in>set (db_aliases db). alias_ok db al) \<and>
     (\<forall>rid. live_row rid db \<longrightarrow> rid \<in> X \<or> rid \<in> holders db) \<and> attached db"

definition undead :: "string \<Rightarrow> 'v database \<Rightarrow> bool" where
  "undead rid db \<longleftrightarrow> (\<forall>t. find_row rid db = Some t \<longrightarrow> \<not> tg_is_deleted t)"

definition steady :: "string set \<Rightarrow> string \<Rightarrow> 'v database \<Rightarrow> bool" where
  "steady X rid db \<longleftrightarrow> store_ok X db \<and> undead rid db"

section \<open>Rows\<close>

lemma find_row_id: "find_row rid db = Some t \<Longrightarrow> tg_id t = rid \<and> t \<in> set (db_triggers db)"
  by (auto simp: find_row_def find_Some_iff in_set_conv_nth)

lemma find_row_None: "find_row rid db = None \<longleftrightarrow> rid \<notin> tg_id ` set (db_triggers db)"
  by (auto simp: find_row_def find_None_iff)

lemma find_row_other [simp]:
  "find_row rid (db\<lparr>db_aliases := als\<rparr>) = find_row rid db"
  "find_row rid (db\<lparr>db_scripts := ss\<rparr>) = find_row rid db"
  "find_row rid (db\<lparr>db_assets := bs\<rparr>) = find_row rid db"
  "find_row rid (db\<lparr>db_uuids := n\<rparr>) = find_row rid db"
  "find_row rid (delete_aliases P db) = find_row rid db"
  "find_row rid (delete_script k db) = find_row rid db"
  by (simp_all add: find_row_def delete_aliases_def delete_script_def)

lemma find_map_id:
  "(\<And>t. tg_id (f t) = tg_id t) \<Longrightarrow>
   find (\<lambda>t. tg_id t = k) (map (\<lambda>t. if tg_id t = r then f t else t) ts) =
   map_option (\<lambda>t. if k = r then f t else t) (find (\<lambda>t. tg_id t = k) ts)"
  by (induction ts) auto

lemma find_row_update:
  "(\<And>t. tg_id (f t) = tg_id t) \<Longrightarrow>
   find_row k (update_row r f db) = map_option (\<lambda>t. if k = r then f t else t) (find_row k db)"
  by (simp add: find_row_def update_row_def find_map_id)

lemma find_append: "find P (xs @ ys) = (case find P xs of Some x \<Rightarrow> Some x | None \<Rightarrow> find P ys)"
  by (induction xs) auto

lemma find_row_append:
  "find_row k (db\<lparr>db_triggers := db_triggers db @ [t]\<rparr>) =
   (case find_row k db of Some t' \<Rightarrow> Some t' | None \<Rightarrow> if tg_id t = k then Some t else None)"
  by (auto simp: find_row_def find_append split: option.split)

lemma live_row_other [simp]:
  "live_row rid (db\<lparr>db_aliases := als\<rparr>) = live_row rid db"
  "live_row rid (db\<lparr>db_scripts := ss\<rparr>) = live_row rid db"
  "live_row rid (db\<lparr>db_assets := bs\<rparr>) = live_row rid db"
  "live_row rid (db\<lparr>db_uuids := n\<rparr>) = live_row rid db"
  "live_row rid (delete_aliases P db) = live_row rid db"
  "live_row rid (delete_script k db) = live_row rid db"
  by (simp_all add: live_row_def)

lemma undead_other [simp]:
  "undead rid (db\<lparr>db_aliases := als\<rparr>) = undead rid db"
  "undead rid (db\<lparr>db_scripts := ss\<rparr>) = undead rid db"
  "undead rid (db\<lparr>db_assets := bs\<rparr>) = undead rid db"
  "undead rid (db\<lparr>db_uuids := n\<rparr>) = undead rid db"
  "undead rid (delete_aliases P db) = undead rid db"
  "undead rid (delete_script k db) = undead rid db"
  by (simp_all add: undead_def)

lemma alias_ok_cong: "(\<And>rid. live_row rid db' = live_row rid db) \<Longrightarrow> alias_ok db' = alias_ok db"
  by (simp add: alias_ok_def fun_eq_iff)

lemma other_tables [simp]:
  "db_aliases (update_row r f db) = db_aliases db" "db_scripts (update_row r f db) = db_scripts db"
  "db_assets (update_row r f db) = db_assets db" "db_uuids (update_row r f db) = db_uuids db"
  "db_triggers (delete_aliases P db) = db_triggers db" "db_scripts (delete_aliases P db) = db_scripts db"
  "db_assets (delete_aliases P db) = db_assets db" "db_uuids (delete_aliases P db) = db_uuids db"
  "db_triggers (delete_script k db) = db_triggers db" "db_aliases (delete_script k db) = db_aliases db"
  "db_assets (delete_script k db) = db_assets db" "db_uuids (delete_script k db) = db_uuids db"
  by (simp_all add: update_row_def delete_aliases_def delete_script_def)

lemma update_row_ids: "(\<And>t. tg_id (f t) = tg_id t) \<Longrightarrow>
    map tg_id (db_triggers (update_row r f db)) = map tg_id (db_triggers db)"
  by (auto simp: update_row_def)

text \<open>Updating a row keeps the invariant when it keeps what is live.\<close>

lemma update_row_ok:
  assumes ids: "\<And>t. tg_id (f t) = tg_id t" and dead: "\<And>t. tg_is_deleted (f t) = tg_is_deleted t"
    and ok: "store_ok X db"
  shows "store_ok X (update_row r f db)"
proof -
  have live: "live_row k (update_row r f db) = live_row k db" for k
    by (cases "find_row k db") (simp_all add: live_row_def find_row_update [OF ids] dead)
  have found: "find_row k (update_row r f db) = None \<longleftrightarrow> find_row k db = None" for k
    by (simp add: find_row_update [OF ids])
  show ?thesis using ok
    by (simp add: store_ok_def update_row_ids [OF ids] alias_ok_cong [OF live] live holders_def attached_def found)
qed

text \<open>Reviving a row makes it one that may be without an alias.\<close>

lemma update_row_revives:
  assumes ids: "\<And>t. tg_id (f t) = tg_id t" and alive: "\<And>t. \<not> tg_is_deleted (f t)" and ok: "store_ok X db"
  shows "steady (insert r X) r (update_row r f db)"
proof -
  have live: "live_row k (update_row r f db) \<longleftrightarrow> live_row k db \<or> (k = r \<and> find_row r db \<noteq> None)" for k
    by (cases "find_row k db") (auto simp: live_row_def find_row_update [OF ids] alive)
  have found: "find_row k (update_row r f db) = None \<longleftrightarrow> find_row k db = None" for k
    by (simp add: find_row_update [OF ids])
  have "undead r (update_row r f db)" by (auto simp: undead_def find_row_update [OF ids] alive)
  moreover have "store_ok (insert r X) (update_row r f db)" using ok
    by (auto simp: store_ok_def update_row_ids [OF ids] alias_ok_def live holders_def attached_def found)
  ultimately show ?thesis by (simp add: steady_def)
qed

lemma update_row_steady:
  assumes ids: "\<And>t. tg_id (f t) = tg_id t" and alive: "\<And>t. tg_is_deleted (f t) \<Longrightarrow> tg_is_deleted t"
    and ok: "steady X r db"
  shows "steady X r (update_row r f db)"
proof -
  have live: "live_row k (update_row r f db) = live_row k db" for k
    using ok alive by (cases "find_row k db") (auto simp: live_row_def find_row_update [OF ids] steady_def undead_def)
  have found: "find_row k (update_row r f db) = None \<longleftrightarrow> find_row k db = None" for k
    by (simp add: find_row_update [OF ids])
  have "undead r (update_row r f db)"
    using ok alive by (auto simp: undead_def steady_def find_row_update [OF ids])
  moreover have "store_ok X (update_row r f db)" using ok
    by (simp add: steady_def store_ok_def update_row_ids [OF ids] alias_ok_cong [OF live] live holders_def attached_def found)
  ultimately show ?thesis by (simp add: steady_def)
qed

lemma store_ok_more: "store_ok X db \<Longrightarrow> X \<subseteq> Y \<Longrightarrow> store_ok Y db"
  by (auto simp: store_ok_def)

section \<open>Statements on the other tables\<close>

lemma attached_ok: "store_ok X db \<Longrightarrow> attached db' \<Longrightarrow> db_triggers db' = db_triggers db \<Longrightarrow>
    db_aliases db' = db_aliases db \<Longrightarrow> store_ok X db'"
  by (simp add: store_ok_def alias_ok_def live_row_def find_row_def holders_def)

lemma store_okD: "store_ok X db \<Longrightarrow> attached db"
  by (simp add: store_ok_def)

lemma uuids_ok [simp]: "store_ok X (db\<lparr>db_uuids := n\<rparr>) = store_ok X db"
  by (simp add: store_ok_def alias_ok_def holders_def attached_def)

lemma delete_script_ok: "store_ok X db \<Longrightarrow> store_ok X (delete_script k db)"
  by (rule attached_ok, assumption)
    (auto simp: attached_def delete_script_def distinct_map_filter dest!: store_okD)

lemma drop_assets_ok: "store_ok X db \<Longrightarrow> store_ok X (db\<lparr>db_assets := filter P (db_assets db)\<rparr>)"
  by (rule attached_ok, assumption) (auto simp: attached_def distinct_map_filter dest!: store_okD)

lemma keep_new_uuid [triple]: "valid (steady X r) (new_uuid env) (\<lambda>_. steady X r)"
  by (auto simp: valid_def new_uuid_def steady_def)

lemma update_row_plain:
  assumes "\<And>t. tg_id (f t) = tg_id t" and "\<And>t. tg_is_deleted (f t) = tg_is_deleted t" and "steady X r db"
  shows "steady X r (update_row k f db)"
proof -
  have "store_ok X (update_row k f db)"
    using assms by (intro update_row_ok) (simp_all add: steady_def)
  moreover have "undead r (update_row k f db)"
    using assms(3) by (auto simp: undead_def steady_def find_row_update [OF assms(1)] assms(2))
  ultimately show ?thesis by (simp add: steady_def)
qed

lemma put_script_list:
  "map sc_trigger (db_scripts (put_script s db)) =
     (if sc_trigger s \<in> sc_trigger ` set (db_scripts db) then map sc_trigger (db_scripts db)
      else map sc_trigger (db_scripts db) @ [sc_trigger s])"
proof -
  have "map sc_trigger (map (\<lambda>u. if sc_trigger u = sc_trigger s then s\<lparr>sc_version := sc_version u + 1\<rparr> else u) ss) =
      map sc_trigger ss" for ss by (induction ss) auto
  moreover have "list_ex (\<lambda>u. sc_trigger u = sc_trigger s) (ss :: script_row list) \<longleftrightarrow> sc_trigger s \<in> sc_trigger ` set ss" for ss
    by (induction ss) auto
  ultimately show ?thesis by (simp add: put_script_def del: map_map)
qed

lemma put_script_ids:
  "sc_trigger ` set (db_scripts (put_script s db)) = insert (sc_trigger s) (sc_trigger ` set (db_scripts db))"
  using arg_cong [OF put_script_list, of set s db] by (auto split: if_split_asm)

lemma put_script_distinct:
  "distinct (map sc_trigger (db_scripts db)) \<Longrightarrow> distinct (map sc_trigger (db_scripts (put_script s db)))"
  by (simp add: put_script_list)

lemma put_script_other [simp]:
  "db_triggers (put_script s db) = db_triggers db" "db_aliases (put_script s db) = db_aliases db"
  "db_assets (put_script s db) = db_assets db" "find_row k (put_script s db) = find_row k db"
  by (simp_all add: put_script_def find_row_def)

lemma put_script_ok: "store_ok X db \<Longrightarrow> find_row (sc_trigger s) db \<noteq> None \<Longrightarrow> store_ok X (put_script s db)"
proof (rule attached_ok)
  assume ok: "store_ok X db" and known: "find_row (sc_trigger s) db \<noteq> None"
  have "\<forall>k\<in>sc_trigger ` set (db_scripts (put_script s db)). find_row k db \<noteq> None"
    using store_okD [OF ok] known unfolding put_script_ids by (auto simp: attached_def)
  then show "attached (put_script s db)"
    using store_okD [OF ok] put_script_distinct by (auto simp: attached_def)
qed simp_all

lemma put_asset_ok:
  "store_ok X db \<Longrightarrow> find_row (as_trigger a) db \<noteq> None \<Longrightarrow>
   store_ok X (db\<lparr>db_assets := filter (\<lambda>b. as_id b \<noteq> as_id a) (db_assets db) @ [a]\<rparr>)"
  by (rule attached_ok, assumption) (auto simp: attached_def distinct_map_filter dest!: store_okD)

interpretation steady: table_invariant "steady X r" for X r
  by unfold_locales
    (auto simp: steady_def put_asset_ok drop_assets_ok put_script_ok undead_def find_row_update intro!: update_row_ok)

lemma keep_app_filters [triple]: "valid (steady X r) (update_trigger_app_filters k only except) (\<lambda>_. steady X r)"
  unfolding update_trigger_app_filters_def by (intro triple keep_change) (auto intro!: update_row_plain split: if_split_asm)

section \<open>Aliases\<close>

lemma hotkey_canonical_parses: "prepare_hotkey s os = Inr t \<Longrightarrow> \<exists>h. parse_hotkey t = Inr h"
proof -
  assume "prepare_hotkey s os = Inr t"
  then obtain h platforms where h: "parse_hotkey s = Inr h"
    and t: "(case filter (\<lambda>p. danger_for_platform h p \<noteq> None) platforms of
       p # _ \<Rightarrow> Inl (DangerousHotkey p) | [] \<Rightarrow> Inr (keypress_canonical h)) = Inr t"
    unfolding prepare_hotkey_def ok_then_Inr map_err_Inr by blast
  from t have "t = keypress_canonical h"
    by (cases "filter (\<lambda>p. danger_for_platform h p \<noteq> None) platforms") auto
  then show ?thesis using parse_canonical [OF parse_hotkey_wf [OF h]] by blast
qed

lemma stored_hotkey_parses:
  "stored_invocation env ty s = Inr (stored, v) \<Longrightarrow> ty = HotkeyInvocation \<Longrightarrow> \<exists>h. parse_hotkey stored = Inr h"
  by (cases "prepare_trigger_with_type s HotkeyTrigger ''all''")
    (auto simp: stored_invocation_def prepare_trigger_with_type_def ok_then_Inr
      dest: hotkey_canonical_parses split: if_split_asm)

text \<open>What adding an alias does: the row it finds, the checks it passes and the row it adds.\<close>

lemma add_alias_Inr:
  assumes "add_alias env rid ty s c db = Inr (al, db')"
  obtains stored v where "stored_invocation env ty s = Inr (stored, v)"
    and "check_alias_scope_conflict rid ty stored db = Inr ()"
    and "al = \<lparr>al_id = se_uuid env (db_uuids db), al_trigger = rid, al_invocation = stored, al_type = ty,
               al_confirm = c, al_threshold = v, al_created_at = se_now env\<rparr>"
    and "al_id al \<notin> al_id ` set (db_aliases db)" and "find_row rid db \<noteq> None"
    and "db' = db\<lparr>db_uuids := db_uuids db + 1, db_aliases := db_aliases db @ [al]\<rparr>"
proof -
  obtain stored v where si: "stored_invocation env ty s = Inr (stored, v)"
    using assms by (cases "stored_invocation env ty s") (auto simp: add_alias_def and_do_def check_def)
  moreover have cc: "check_alias_scope_conflict rid ty stored db = Inr ()"
    using assms si by (cases "check_alias_scope_conflict rid ty stored db")
      (auto simp: add_alias_def and_do_def check_def)
  ultimately show ?thesis using assms that
    by (auto simp: add_alias_def and_do_def check_def new_uuid_def insert_alias_def give_def Let_def
        split: if_split_asm)
qed

lemma check_alias_new:
  "check_alias_scope_conflict rid ty stored db = Inr () \<Longrightarrow>
   (rid, ty, stored) \<notin> alias_key ` set (db_aliases db)"
  by (auto simp: check_alias_scope_conflict_def alias_key_def list_ex_iff image_iff split: if_split_asm)

lemma add_alias_steady: "valid (steady X r) (add_alias env r ty s c) (\<lambda>_. steady (X - {r}) r)"
proof (rule validI)
  fix db al db' assume pre: "steady X r db" and run: "add_alias env r ty s c db = Inr (al, db')"
  obtain stored v where si: "stored_invocation env ty s = Inr (stored, v)"
    and cc: "check_alias_scope_conflict r ty stored db = Inr ()"
    and al: "al = \<lparr>al_id = se_uuid env (db_uuids db), al_trigger = r, al_invocation = stored, al_type = ty,
               al_confirm = c, al_threshold = v, al_created_at = se_now env\<rparr>"
    and new: "al_id al \<notin> al_id ` set (db_aliases db)" and row: "find_row r db \<noteq> None"
    and db': "db' = db\<lparr>db_uuids := db_uuids db + 1, db_aliases := db_aliases db @ [al]\<rparr>"
    by (rule add_alias_Inr [OF run])
  have ok: "store_ok X db" and un: "undead r db" using pre by (simp_all add: steady_def)
  have live: "live_row r db" using row un by (auto simp: live_row_def undead_def)
  have key: "alias_key al \<notin> alias_key ` set (db_aliases db)"
    using check_alias_new [OF cc] by (simp add: al alias_key_def)
  have "alias_ok db al" using live stored_hotkey_parses [OF si] by (simp add: alias_ok_def al)
  then have "store_ok (X - {r}) db'" using ok new key
    by (auto simp: store_ok_def db' alias_ok_def holders_def attached_def al)
  then show "steady (X - {r}) r db'" using un by (simp add: steady_def db')
qed

lemma add_aliases_steady:
  "invocations \<noteq> [] \<Longrightarrow> valid (steady X r) (add_aliases env r invocations) (\<lambda>_. steady (X - {r}) r)"
proof (induction invocations arbitrary: X)
  case (Cons x xs)
  obtain ty s c where x: "x = (ty, s, c)" by (cases x)
  show ?case
  proof (rule validI)
    fix db als db'' assume pre: "steady X r db" and run: "add_aliases env r (x # xs) db = Inr (als, db'')"
    then obtain al db' als' where one: "add_alias env r ty s c db = Inr (al, db')"
      and rest: "add_aliases env r xs db' = Inr (als', db'')"
      by (auto simp: add_aliases_def x split: sum.split_asm prod.split_asm)
    have "steady (X - {r}) r db'" by (rule validD [OF add_alias_steady pre one])
    moreover have "steady (X - {r}) r db''" if "xs \<noteq> []"
    proof -
      have "valid (steady (X - {r}) r) (add_aliases env r xs) (\<lambda>_. steady (X - {r} - {r}) r)"
        using that by (rule Cons.IH)
      from validD [OF this \<open>steady (X - {r}) r db'\<close> rest] show ?thesis by simp
    qed
    ultimately show "steady (X - {r}) r db''" using rest by (cases "xs = []") (auto simp: add_aliases_def)
  qed
qed simp

lemma delete_aliases_steady: "steady X r db \<Longrightarrow> steady (insert r X) r (delete_aliases (\<lambda>al. al_trigger al = r) db)"
  by (auto simp: steady_def store_ok_def delete_aliases_def distinct_map_filter alias_ok_def holders_def attached_def)

lemma tombstone_ok:
  assumes ok: "store_ok X db"
  shows "store_ok (X - {rid}) (tombstone_entry rid now db)"
proof -
  let ?f = "\<lambda>t. t\<lparr>tg_is_deleted := True, tg_version := tg_version t + 1, tg_updated_at := now\<rparr>"
  have ids: "tg_id (?f t) = tg_id t" for t by simp
  have live: "live_row k (update_row rid ?f db) \<longleftrightarrow> live_row k db \<and> k \<noteq> rid" for k
    by (cases "find_row k db") (auto simp: live_row_def find_row_update [OF ids])
  have found: "find_row k (update_row rid ?f db) = None \<longleftrightarrow> find_row k db = None" for k
    by (simp add: find_row_update [OF ids])
  show ?thesis using ok unfolding tombstone_entry_def
    by (auto simp: store_ok_def update_row_ids [OF ids] alias_ok_def live holders_def attached_def found
        delete_aliases_def distinct_map_filter)
qed

lemma delete_alias_ok: "store_ok X db \<Longrightarrow> store_ok X (snd (delete_alias env rid ty s db))"
proof -
  assume ok: "store_ok X db"
  let ?P = "\<lambda>al stored. al_trigger al = rid \<and> al_type al = ty \<and> al_invocation al = stored"
  have gone: "store_ok (insert rid X) (delete_aliases (\<lambda>al. ?P al stored) db)" for stored
    using ok by (auto simp: store_ok_def delete_aliases_def distinct_map_filter alias_ok_def holders_def attached_def)
  have "store_ok X (delete_aliases (\<lambda>al. ?P al stored) db)"
    if "count_aliases rid (delete_aliases (\<lambda>al. ?P al stored) db) \<noteq> 0" for stored
    using gone [of stored] that
    by (auto simp: store_ok_def count_aliases_def list_aliases_def holders_def filter_empty_conv)
  moreover have "store_ok X (tombstone_entry rid (se_now env) (delete_aliases (\<lambda>al. ?P al stored) db))" for stored
    using store_ok_more [OF tombstone_ok [OF gone [of stored]], where Y = X] by auto
  ultimately show ?thesis using ok by (auto simp: delete_alias_def Let_def split: option.split)
qed

end
