(* ===== verification/TriggerSteps.thy ===== *)
theory TriggerSteps
  imports TriggerInvariants
begin

text \<open>
  Every operation on the tables keeps their invariant, and the runs of operations as a step relation.
\<close>

section \<open>Creating and updating\<close>

lemma insert_row_steady:
  "valid (store_ok X) (insert_row t) (\<lambda>_. if tg_is_deleted t then store_ok X else steady (insert (tg_id t) X) (tg_id t))"
proof (rule validI)
  fix db u db' assume ok: "store_ok X db" and run: "insert_row t db = Inr (u, db')"
  then have new: "tg_id t \<notin> tg_id ` set (db_triggers db)" and db': "db' = db\<lparr>db_triggers := db_triggers db @ [t]\<rparr>"
    by (auto simp: insert_row_def split: if_split_asm)
  have old: "find_row k db' = (if k = tg_id t then Some t else find_row k db)" for k
    using new by (auto simp: db' find_row_append find_row_None [symmetric] split: option.split)
  have none: "find_row (tg_id t) db = None" using new by (simp add: find_row_None)
  have live: "live_row k db' \<longleftrightarrow> live_row k db \<or> k = tg_id t \<and> \<not> tg_is_deleted t" for k
    using none by (auto simp: live_row_def old)
  have "store_ok (if tg_is_deleted t then X else insert (tg_id t) X) db'"
    using ok new none
    by (auto simp: store_ok_def alias_ok_def holders_def attached_def live old) (auto simp: db' image_iff)
  then show "(if tg_is_deleted t then store_ok X else steady (insert (tg_id t) X) (tg_id t)) db'"
    by (auto simp: steady_def undead_def old)
qed

lemma write_new_steady:
  "valid (store_ok X) (write_new env entry rid textual tags) (\<lambda>_. steady (insert rid X) rid)"
proof -
  have row: "valid (store_ok X) (insert_row (new_row env entry rid out act tags)) (\<lambda>_. steady (insert rid X) rid)" for out act
    using insert_row_steady [of X "new_row env entry rid out act tags"] by (simp add: new_row_def)
  show ?thesis unfolding write_new_def Let_def
    by (auto intro!: valid_and_do [OF keep_check] valid_and_do [OF row] triple split: prod.split)
qed

lemma store_ok_new_uuid: "valid (store_ok X) (new_uuid env) (\<lambda>_. store_ok X)"
  by (simp add: valid_def new_uuid_def)

lemma create_entry_ok: "valid (store_ok {}) (create_entry_inner env entry) (\<lambda>_. store_ok {})"
proof (cases "ne_invocations entry = []")
  case False
  have aliases: "valid (steady {rid} rid) (add_aliases env rid (ne_invocations entry)) (\<lambda>_. store_ok {})" for rid
    using add_aliases_steady [OF False, of "{rid}" rid] by (rule valid_post) (simp add: steady_def)
  show ?thesis unfolding create_entry_inner_def store_new_def
    by (auto intro!: valid_and_do [OF keep_check] valid_and_do [OF keep_check_db] valid_and_do [OF store_ok_new_uuid]
        valid_and_do [OF write_new_steady] valid_and_do [OF keep_app_filters] valid_and_do [OF aliases] keep_give
        split: prod.split)
qed (simp add: valid_def create_entry_inner_def and_do_def check_def fail_if_def)

lemma entry_row_steady: "steady X rid db \<Longrightarrow> steady X rid (update_row rid (entry_row env entry out act tags) db)"
  by (rule update_row_steady) (simp_all add: entry_row_def)

lemma delete_script_steady: "steady X rid db \<Longrightarrow> steady X rid (delete_script k db)"
  by (simp add: steady_def delete_script_ok)

lemma keep_write_changed [triple]:
  "valid (steady X rid) (write_changed env entry rid textual tags current same) (\<lambda>_. steady X rid)"
  unfolding write_changed_def Let_def
  by (auto intro!: triple keep_change entry_row_steady delete_script_steady split: prod.split)

lemma steady_single: "X \<subseteq> {} \<Longrightarrow> steady X rid db \<Longrightarrow> store_ok {} db"
  by (simp add: steady_def)

lemma update_entry_ok: "valid (steady {} rid) (update_entry_inner env rid entry) (\<lambda>_. store_ok {})"
proof -
  have aliases: "valid (steady {} rid) (add_aliases env rid invocations) (\<lambda>_. steady {} rid)" for invocations
  proof (cases "invocations = []")
    case False
    show ?thesis using add_aliases_steady [OF False, of "{}" rid] by simp
  qed (simp add: add_aliases_def valid_def)
  have "valid (steady {} rid) (update_entry_inner env rid entry) (\<lambda>_. steady {} rid)"
    unfolding update_entry_inner_def by (auto intro!: triple aliases split: prod.split)
  then show ?thesis by (rule valid_post) (simp add: steady_def)
qed

lemma live_undead: "live_row rid db \<Longrightarrow> undead rid db"
  by (auto simp: live_row_def undead_def)

lemma joined_iff: "(al, t) \<in> set (joined db) \<longleftrightarrow> al \<in> set (db_aliases db) \<and> find_row (al_trigger al) db = Some t"
  by (force simp: joined_def List.map_filter_def)

lemma live_aliases_iff:
  "(al, t) \<in> set (live_aliases ty db) \<longleftrightarrow>
   al \<in> set (db_aliases db) \<and> find_row (al_trigger al) db = Some t \<and> al_type al = ty \<and> \<not> tg_is_deleted t"
  by (auto simp: live_aliases_def joined_iff)

lemma parents_live: "pid \<in> set (parents_by_invocation ty s db) \<Longrightarrow> live_row pid db"
  by (auto simp: parents_by_invocation_def live_row_def live_aliases_iff split: option.split_asm)

lemma foldl_subset:
  "(\<And>acc x. set (f acc x) \<subseteq> insert x (set acc)) \<Longrightarrow> set (foldl f acc xs) \<subseteq> set xs \<union> set acc"
  by (induction xs arbitrary: acc) fastforce+

lemma overlapping_parents_subset:
  "set (overlapping_parents entry db pids found) \<subseteq> set pids \<union> set found"
  unfolding overlapping_parents_def by (rule foldl_subset) (auto split: option.split)

lemma requested_parents_live: "pid \<in> set (requested_parents entry db) \<Longrightarrow> live_row pid db"
proof -
  have all: "pid \<in> set (foldl (\<lambda>found (ty, phrase, _).
      overlapping_parents entry db (parents_by_invocation ty phrase db) found) found invs) \<Longrightarrow>
    \<forall>p\<in>set found. live_row p db \<Longrightarrow> live_row pid db" for found invs
  proof (induction invs arbitrary: found)
    case (Cons x xs)
    obtain ty s c where x: "x = (ty, s, c)" by (cases x)
    have "\<forall>p\<in>set (overlapping_parents entry db (parents_by_invocation ty s db) found). live_row p db"
      using overlapping_parents_subset [of entry db "parents_by_invocation ty s db" found] Cons.prems(2)
      by (auto dest: parents_live)
    then show ?case using Cons x by simp
  qed simp
  then show "pid \<in> set (requested_parents entry db) \<Longrightarrow> live_row pid db"
    using all [of "[]" "ne_invocations entry"] by (simp add: requested_parents_def)
qed

text \<open>An upsert creates an entry, updates the one it finds, or fails.\<close>

lemma upsert_entry_cases:
  assumes "upsert_entry_inner env entry db = Inr (out, db')"
  obtains res where "requested_parents entry db = []" and "create_entry_inner env entry db = Inr (res, db')"
      and "out = Created"
  | rid where "requested_parents entry db = [rid]" and "update_entry_inner env rid entry db = Inr (out, db')"
proof -
  have run: "(case requested_parents entry db of
       [] \<Rightarrow> and_do (create_entry_inner env entry) (\<lambda>_. give Created)
     | [rid] \<Rightarrow> update_entry_inner env rid entry
     | a # b # _ \<Rightarrow> check (Inl (TwoEntries a b))) db = Inr (out, db')"
    using assms by (auto simp: upsert_entry_inner_def run_Inr)
  show ?thesis
  proof (cases "requested_parents entry db")
    case Nil
    then show ?thesis using run that(1) by (auto simp: run_Inr)
  next
    case (Cons rid rest)
    then show ?thesis using run that(2) by (cases rest) (auto simp: run_Inr)
  qed
qed

lemma upsert_entry_ok: "valid (store_ok {}) (upsert_entry_inner env entry) (\<lambda>_. store_ok {})"
proof (rule validI)
  fix db out db' assume ok: "store_ok {} db" and run: "upsert_entry_inner env entry db = Inr (out, db')"
  from run show "store_ok {} db'"
  proof (cases rule: upsert_entry_cases)
    case (1 res)
    show ?thesis by (rule validD [OF create_entry_ok ok 1(2)])
  next
    case (2 rid)
    have "live_row rid db" by (rule requested_parents_live [of rid entry]) (simp add: 2(1))
    then have "steady {} rid db" using ok by (simp add: steady_def live_undead)
    then show ?thesis by (rule validD [OF update_entry_ok]) (rule 2(2))
  qed
qed

lemma write_update_steady: "valid (store_ok X) (write_update env u textual tags) (\<lambda>_. steady (insert (eu_id u) X) (eu_id u))"
proof -
  have row: "valid (store_ok X) (change (\<lambda>db. k (update_row (eu_id u) (updated_row env u out act tags) db)))
      (\<lambda>_. steady (insert (eu_id u) X) (eu_id u))"
    if "\<And>db. steady (insert (eu_id u) X) (eu_id u) db \<Longrightarrow> steady (insert (eu_id u) X) (eu_id u) (k db)" for out act k
    by (rule valid_pre [OF valid_change], rule that, rule update_row_revives) (simp_all add: updated_row_def)
  show ?thesis unfolding write_update_def Let_def
    by (auto intro!: valid_and_do [OF keep_check] valid_and_do [OF row] valid_and_do [OF row [of "\<lambda>db. db"]]
        triple delete_script_steady split: prod.split)
qed

lemma update_existing_ok: "valid (store_ok {}) (update_existing_inner env u) (\<lambda>_. store_ok {})"
proof -
  have gone: "valid (steady {eu_id u} (eu_id u)) (change (delete_aliases (\<lambda>al. al_trigger al = eu_id u)))
      (\<lambda>_. steady {eu_id u} (eu_id u))"
    by (rule valid_pre [OF valid_change]) (use delete_aliases_steady in fastforce)
  have one: "valid (steady {eu_id u} (eu_id u)) (add_alias env (eu_id u) ty s c) (\<lambda>_. store_ok {})" for ty s c
    using add_alias_steady [of "{eu_id u}" "eu_id u"] by (rule valid_post) (simp add: steady_def)
  show ?thesis unfolding update_existing_inner_def
    by (auto intro!: valid_and_do [OF keep_check_db] valid_and_do [OF write_update_steady] valid_and_do [OF gone]
        valid_and_do [OF one] keep_give split: prod.split)
qed

lemma put_raw_row_steady: "store_ok X db \<Longrightarrow> steady (insert (rt_id r) X) (rt_id r) (put_raw_row env r db)"
proof (cases "find_row (rt_id r) db")
  case None
  assume ok: "store_ok X db"
  have "insert_row (raw_new_row env r) db = Inr ((), put_raw_row env r db)"
    using None by (simp add: insert_row_def put_raw_row_def find_row_None) (simp add: raw_new_row_def)
  from validD [OF insert_row_steady ok this] show ?thesis by (simp add: raw_new_row_def)
next
  case (Some t)
  assume "store_ok X db"
  then show ?thesis using Some
    by (simp add: put_raw_row_def) (rule update_row_revives; simp add: raw_row_def)
qed

lemma upsert_raw_ok: "valid (store_ok {}) (upsert_raw_inner env r) (\<lambda>_. store_ok {})"
proof -
  let ?i = "rt_id r" let ?ty = "invocation_type_for_trigger (rt_type r)"
  have put: "valid (store_ok {}) (change (put_raw_row env r)) (\<lambda>_. steady {?i} ?i)"
    by (rule valid_pre [OF valid_change]) (rule put_raw_row_steady)
  have save: "valid (steady {?i} ?i) (if rt_action_type r = ''text'' then save_output env ?i (rt_output r) else give ())
      (\<lambda>_. steady {?i} ?i)"
    by (intro triple)
  have ask': "valid (steady {?i} ?i) (ask (parents_by_invocation ?ty (rt_trigger r)))
      (\<lambda>hs db. steady {?i} ?i db \<and> hs = parents_by_invocation ?ty (rt_trigger r) db)"
    by (simp add: valid_def ask_def)
  have one: "valid (steady {?i} ?i) (add_alias env ?i ?ty (rt_trigger r) False) (\<lambda>_. store_ok {})"
    using add_alias_steady [of "{?i}" ?i] by (rule valid_post) (simp add: steady_def)
  have held: "steady {?i} ?i db \<Longrightarrow> ?i \<in> set (parents_by_invocation ?ty (rt_trigger r) db) \<Longrightarrow> store_ok {} db" for db
    by (auto simp: steady_def store_ok_def parents_by_invocation_def holders_def live_aliases_iff split: option.split_asm)
  have last: "valid (\<lambda>db. steady {?i} ?i db \<and> hs = parents_by_invocation ?ty (rt_trigger r) db)
      (if ?i \<in> set hs then give () else and_do (add_alias env ?i ?ty (rt_trigger r) False) (\<lambda>_. give ()))
      (\<lambda>_. store_ok {})" for hs
  proof (cases "?i \<in> set hs")
    case True
    then show ?thesis using held by (auto simp: valid_def give_def)
  next
    case False
    then show ?thesis by (auto intro!: valid_and_do [OF valid_pre [OF one]] keep_give)
  qed
  show ?thesis unfolding upsert_raw_inner_def Let_def
    by (rule valid_and_do [OF put], rule valid_and_do [OF save], rule valid_and_do [OF ask'],
        rule valid_and_do [OF keep_check_db]) (rule last)
qed

section \<open>Deleting and counting\<close>

lemma delete_holders_ok: "store_ok X (snd s) \<Longrightarrow> store_ok X (snd (delete_holders env ty phrase pids s))"
proof (induction pids arbitrary: s)
  case Nil
  then show ?case by (cases s) simp
next
  case (Cons pid pids)
  obtain n db where s: "s = (n, db)" by (cases s)
  obtain removed db' where del: "delete_alias env pid ty phrase db = (removed, db')" by fastforce
  have "store_ok X db'" using Cons.prems s delete_alias_ok [of X db env pid ty phrase] by (simp add: del)
  then show ?case using Cons.IH [of "(if removed then n + 1 else n, db')"] by (simp add: s del)
qed

lemma delete_value_ok: "store_ok X (snd s) \<Longrightarrow> store_ok X (snd (delete_value env s phrase))"
  unfolding delete_value_def by (cases s) (simp add: split_beta delete_holders_ok)

lemma delete_values_ok: "store_ok X db \<Longrightarrow> store_ok X (snd (delete_triggers_by_values env phrases db))"
proof -
  have "store_ok X (snd s) \<Longrightarrow> store_ok X (snd (foldl (delete_value env) s phrases))" for s
    by (induction phrases arbitrary: s) (simp_all add: delete_value_ok)
  from this [of "(0, db)"] show "store_ok X db \<Longrightarrow> store_ok X (snd (delete_triggers_by_values env phrases db))"
    by (simp add: delete_triggers_by_values_def)
qed

lemma tombstone_keeps: "store_ok X db \<Longrightarrow> store_ok X (tombstone_entry rid now db)"
  using store_ok_more [OF tombstone_ok, where Y = X] by blast

lemma tombstone_all_ok: "store_ok X db \<Longrightarrow> store_ok X (tombstone_all now ids db)"
  unfolding tombstone_all_def by (induction ids arbitrary: db) (simp_all add: tombstone_keeps)

lemma increment_ok: "store_ok X db \<Longrightarrow> store_ok X (increment_usage_count_by_id env rid db)"
  unfolding increment_usage_count_by_id_def by (rule update_row_ok) simp_all

section \<open>Runs\<close>

text \<open>One operation of the program on the tables; an operation that fails leaves them as they were.  An alias is only
  added by itself to a trigger that is not deleted.\<close>

inductive store_step :: "('f, 'n, 'v) store_env \<Rightarrow> 'v database \<Rightarrow> 'v database \<Rightarrow> bool" for env where
  step_create: "store_step env db (snd (create_entry env entry db))"
| step_upsert: "store_step env db (snd (upsert_entry_full env entry db))"
| step_update: "store_step env db (snd (update_existing_trigger env u db))"
| step_raw: "store_step env db (snd (upsert_trigger_with_type_and_case env r db))"
| step_script: "store_step env db (snd (with_transaction (upsert_script env rid i b z) db))"
| step_filters: "store_step env db (snd (with_transaction (update_trigger_app_filters rid only except) db))"
| step_alias: "live_row rid db \<Longrightarrow> store_step env db (snd (with_transaction (add_alias env rid ty phrase c) db))"
| step_delete_alias: "store_step env db (snd (delete_alias env rid ty phrase db))"
| step_delete: "store_step env db (snd (delete_trigger env rid db))"
| step_delete_values: "store_step env db (snd (delete_triggers_by_values env phrases db))"
| step_delete_pattern: "store_step env db (snd (delete_triggers_by_pattern env pattern db))"
| step_delete_tag: "store_step env db (snd (delete_triggers_by_tag env tag db))"
| step_tombstone: "store_step env db (tombstone_entry rid now db)"
| step_use: "store_step env db (increment_usage_count_by_id env rid db)"
| step_use_trigger: "store_step env db (increment_usage_count_by_trigger env trig db)"

definition empty_store :: "'v database" where
  "empty_store = \<lparr>db_triggers = [], db_aliases = [], db_scripts = [], db_assets = [], db_uuids = 0\<rparr>"

inductive store_reachable :: "('f, 'n, 'v) store_env \<Rightarrow> 'v database \<Rightarrow> bool" for env where
  reach_empty: "store_reachable env empty_store"
| reach_step: "store_reachable env db \<Longrightarrow> store_step env db db' \<Longrightarrow> store_reachable env db'"

lemma transaction_ok:
  "valid P m (\<lambda>_. P) \<Longrightarrow> P db \<Longrightarrow> P (snd (with_transaction m db))"
  using validD by (fastforce simp: with_transaction_def split: sum.split)

text \<open>A name that no row has is never dead: for it \<open>steady\<close> is \<open>store_ok\<close>.\<close>

lemma fresh_name: "\<exists>rid. find_row rid db = None"
proof -
  have "finite (tg_id ` set (db_triggers db))" by simp
  then obtain rid where "rid \<notin> tg_id ` set (db_triggers db)" using ex_new_if_finite infinite_UNIV_listI by blast
  then show ?thesis by (auto simp: find_row_None)
qed

lemma transaction_from_steady:
  assumes keep: "\<And>rid. valid (steady X rid) m (\<lambda>_. steady X rid)" and ok: "store_ok X db"
  shows "store_ok X (snd (with_transaction m db))"
proof -
  obtain rid where "find_row rid db = None" using fresh_name by blast
  then have "steady X rid db" using ok by (simp add: steady_def undead_def)
  from transaction_ok [OF keep this] show ?thesis by (simp add: steady_def)
qed

lemma store_step_ok: "store_step env db db' \<Longrightarrow> store_ok {} db \<Longrightarrow> store_ok {} db'"
proof (induction rule: store_step.induct)
  case (step_create db entry)
  then show ?case unfolding create_entry_def by (rule transaction_ok [OF create_entry_ok])
next
  case (step_upsert db entry)
  then show ?case unfolding upsert_entry_full_def by (rule transaction_ok [OF upsert_entry_ok])
next
  case (step_update db u)
  then show ?case unfolding update_existing_trigger_def by (rule transaction_ok [OF update_existing_ok])
next
  case (step_raw db r)
  then show ?case unfolding upsert_trigger_with_type_and_case_def by (rule transaction_ok [OF upsert_raw_ok])
next
  case (step_script db rid i b z)
  then show ?case by (rule transaction_from_steady [OF steady.keep_upsert_script])
next
  case (step_filters db rid only except)
  then show ?case by (rule transaction_from_steady [OF keep_app_filters])
next
  case (step_alias rid db ty phrase c)
  then have "steady {} rid db" by (simp add: steady_def live_undead)
  moreover have "valid (steady {} rid) (add_alias env rid ty phrase c) (\<lambda>_. steady {} rid)"
    using add_alias_steady [where X = "{}" and r = rid] by simp
  ultimately show ?case using transaction_ok by (fastforce simp: steady_def)
qed (auto simp: delete_alias_ok delete_trigger_def tombstone_keeps delete_values_ok delete_triggers_by_pattern_def Let_def
    delete_triggers_by_tag_def tombstone_all_ok increment_ok increment_usage_count_by_trigger_def split: option.split)

section \<open>An example\<close>

definition no_files :: file_ops where
  "no_files = \<lparr>fo_home = None, fo_join = (\<lambda>a b. a @ ''/'' @ b), fo_open = (\<lambda>_. None)\<rparr>"

definition hundredths :: "nat score_ops" where
  "hundredths = \<lparr>so_edit = (\<lambda>_ _. 0), so_jaro = (\<lambda>_ _. 0), so_const = (\<lambda>n. n), so_mean = (\<lambda>_ _. 0),
     so_ratio = (\<lambda>_ _. 0), so_mix = (\<lambda>_ _ _. 0), so_minus = (\<lambda>_ _. 0)\<rparr>"

text \<open>A store on Windows with one image file, over any rules for templates.\<close>

definition demo_store :: "('f, 'n) transform_env \<Rightarrow> validate_env \<Rightarrow> ('f, 'n, nat) store_env" where
  "demo_store tenv venv =
     \<lparr>se_uuid = (\<lambda>n. replicate n (CHR ''u'')), se_now = 7, se_os = ''win'', se_windows = True, se_transform = tenv,
      se_validate = venv, se_scores = hundredths, se_regex_ok = (\<lambda>_. True), se_tags_of_json = (\<lambda>_. Some []),
      se_json_of_tags = (\<lambda>_. ''[]''), se_json_each = (\<lambda>_. Some []),
      se_pack_text = (\<lambda>s. Some (map (word_of_nat \<circ> of_char) s)),
      se_unpack_text = (\<lambda>z. Some (map (char_of \<circ> unat) z)), se_pack = Some, se_files = no_files,
      se_read = (\<lambda>p. if p = ''logo.png'' then Some [1, 2] else None), se_extension = (\<lambda>_. Some ''png''),
      se_is_image = (\<lambda>_. True), se_hash = (\<lambda>_. ''h'')\<rparr>"

definition demo_store_env :: "(nat, nat, nat) store_env" where
  "demo_store_env = demo_store demo_transform_env \<lparr>va_offset_ok = \<lambda>_. False, va_system = random_only\<rparr>"

definition text_entry :: "string \<Rightarrow> string \<Rightarrow> string option \<Rightarrow> string list \<Rightarrow> new_entry" where
  "text_entry content os only words =
     \<lparr>ne_name = [], ne_description = None, ne_content = content, ne_action_type = ''text'', ne_target_os = os,
      ne_only_apps = only, ne_except_apps = None, ne_tags = ''[]'', ne_auto_case = False, ne_interpreter = None,
      ne_behavior = None, ne_invocations = map (\<lambda>s. (WordInvocation, s, False)) words\<rparr>"

definition demo_tables :: "('f, 'n) transform_env \<Rightarrow> validate_env \<Rightarrow> nat database" where
  "demo_tables tenv venv =
     (let env = demo_store tenv venv in
      snd (create_entry env (text_entry ''yo'' ''linux'' None [''x''])
        (snd (create_entry env (text_entry ''hi'' ''win'' None [''x'', ''y'']) empty_store))))"

lemma demo_tables_rows:
  "map (\<lambda>al. (al_trigger al, al_invocation al)) (db_aliases (demo_tables tenv venv)) = [([], ''x''), ([], ''y''), (''uuu'', ''x'')]"
  by code_simp

lemma demo_tables_length: "length (db_aliases (demo_tables tenv venv)) = 3"
  using arg_cong [OF demo_tables_rows [of tenv venv], of length] by simp

lemma demo_tables_reached: "store_reachable (demo_store tenv venv) (demo_tables tenv venv)"
  unfolding demo_tables_def Let_def by (intro reach_step [OF _ step_create] reach_empty)

section \<open>Every store that is reached\<close>

text \<open>C9: In every store that the operations reach from the empty one, identifiers are distinct, every alias
  belongs to a trigger that is not deleted and is stored once, every trigger that is not deleted has an alias, every
  stored hotkey parses, and scripts and assets belong to a trigger, at most one script to each.\<close>

theorem tables_stay_consistent:
  assumes "store_reachable env db"
  shows "store_ok {} db"
  using assms
proof (induction rule: store_reachable.induct)
  case reach_empty
  show ?case by (simp add: store_ok_def empty_store_def attached_def live_row_def find_row_def)
next
  case (reach_step db db')
  then show ?case using store_step_ok by blast
qed

theorem tables_stay_consistent_witness:
  "\<exists>db. store_ok {} db \<and> store_reachable demo_store_env db \<and> length (db_aliases db) = 3"
proof -
  let ?db = "demo_tables demo_transform_env \<lparr>va_offset_ok = \<lambda>_. False, va_system = random_only\<rparr>"
  have reached: "store_reachable demo_store_env ?db" unfolding demo_store_env_def by (rule demo_tables_reached)
  from tables_stay_consistent [OF reached] reached demo_tables_length show ?thesis by blast
qed

end
