(* ===== verification/TriggerScopes.thy ===== *)
theory TriggerScopes
  imports TriggerSteps
begin

text \<open>
  What the checks for conflicts achieve: no two triggers with overlapping scopes share an invocation, so that at
  most one trigger answers a word in a window.  An update that changes the scope of a trigger breaks this.
\<close>

section \<open>Clashes\<close>

definition same_invocation :: "invocation_type \<Rightarrow> string \<Rightarrow> string \<Rightarrow> bool" where
  "same_invocation ty l r \<longleftrightarrow> invocations_overlap ty l r = Inr True"

definition row_overlap :: "trigger_row \<Rightarrow> trigger_row \<Rightarrow> bool" where
  "row_overlap t u \<longleftrightarrow> scope_overlaps (tg_target_os t) (tg_only_apps t) (tg_except_apps t) u"

definition clash :: "'v database \<Rightarrow> 'v alias_row \<Rightarrow> 'v alias_row \<Rightarrow> bool" where
  "clash db a b \<longleftrightarrow> al_trigger a \<noteq> al_trigger b \<and> al_type a = al_type b \<and>
     same_invocation (al_type a) (al_invocation a) (al_invocation b) \<and>
     (case (find_row (al_trigger a) db, find_row (al_trigger b) db) of
        (Some t, Some u) \<Rightarrow> row_overlap t u | _ \<Rightarrow> False)"

definition no_clash :: "'v database \<Rightarrow> bool" where
  "no_clash db \<longleftrightarrow> (\<forall>a\<in>set (db_aliases db). \<forall>b\<in>set (db_aliases db). \<not> clash db a b)"

lemma target_os_overlap_sym: "target_os_values_overlap l r = target_os_values_overlap r l"
  by (auto simp: target_os_values_overlap_def)

lemma app_filters_overlap_sym: "app_filters_overlap oa ea ob eb = app_filters_overlap ob eb oa ea"
  by (cases oa; cases ea; cases ob; cases eb) (auto simp: app_filters_overlap_def list_ex_iff)

lemma row_overlap_sym: "row_overlap t u = row_overlap u t"
  using target_os_overlap_sym [of "tg_target_os t"] app_filters_overlap_sym [of "tg_only_apps t"]
  by (auto simp: row_overlap_def scope_overlaps_def)

lemma same_invocation_sym: "same_invocation ty l r = same_invocation ty r l"
  using hk.overlap_sym
  by (auto simp: same_invocation_def invocations_overlap_def hotkey_strings_overlap_def
      split: sum.splits)

lemma clash_sym: "clash db a b = clash db b a"
  using same_invocation_sym [of "al_type a"] row_overlap_sym by (auto simp: clash_def split: option.split)

text \<open>The scope of a row is all that matters.\<close>

definition scope_of :: "string \<Rightarrow> 'v database \<Rightarrow> (string \<times> string option \<times> string option) option" where
  "scope_of rid db = map_option (\<lambda>t. (tg_target_os t, tg_only_apps t, tg_except_apps t)) (find_row rid db)"

lemma clash_cong:
  assumes "\<And>k. k \<in> {al_trigger a, al_trigger b} \<Longrightarrow> scope_of k db' = scope_of k db"
  shows "clash db' a b = clash db a b"
proof -
  have "scope_of (al_trigger a) db' = scope_of (al_trigger a) db" and "scope_of (al_trigger b) db' = scope_of (al_trigger b) db"
    using assms by simp_all
  then show ?thesis
    by (auto simp: clash_def scope_of_def row_overlap_def scope_overlaps_def split: option.split)
qed

lemma no_clash_cong:
  assumes "no_clash db" and "set (db_aliases db') \<subseteq> set (db_aliases db)"
    and "\<And>k. k \<in> holders db' \<Longrightarrow> scope_of k db' = scope_of k db"
  shows "no_clash db'"
proof -
  have "\<not> clash db' a b" if "a \<in> set (db_aliases db')" and "b \<in> set (db_aliases db')" for a b
  proof -
    have "clash db' a b = clash db a b" using that assms(3) by (intro clash_cong) (auto simp: holders_def)
    then show ?thesis using assms(1,2) that by (auto simp: no_clash_def)
  qed
  then show ?thesis by (simp add: no_clash_def)
qed

section \<open>Adding an alias\<close>

lemma find_conflict_None:
  "find_conflict ty stored os only except rows = Inr None \<Longrightarrow> (al, t) \<in> set rows \<Longrightarrow>
   \<not> (same_invocation ty stored (al_invocation al) \<and> scope_overlaps os only except t)"
proof (induction rows)
  case (Cons row rows)
  obtain al' t' where row: "row = (al', t')" by (cases row)
  then obtain same where same: "invocations_overlap ty stored (al_invocation al') = Inr same"
    and rest: "\<not> (same \<and> scope_overlaps os only except t')" "find_conflict ty stored os only except rows = Inr None"
    using Cons.prems(1) by (auto simp: ok_then_Inr split: if_split_asm)
  show ?case
  proof (cases "(al, t) = row")
    case True
    then show ?thesis using same rest(1) row by (auto simp: same_invocation_def)
  next
    case False
    then show ?thesis using Cons.IH [OF rest(2)] Cons.prems(2) by auto
  qed
qed simp

lemma checked_alias_no_clash:
  assumes ok: "store_ok X db" and cc: "check_alias_scope_conflict rid ty stored db = Inr ()"
    and new: "al_trigger al = rid" "al_type al = ty" "al_invocation al = stored" and b: "b \<in> set (db_aliases db)"
  shows "\<not> clash db al b"
proof
  assume clash: "clash db al b"
  then obtain p u where p: "find_row rid db = Some p" and u: "find_row (al_trigger b) db = Some u"
    and parts: "al_trigger b \<noteq> rid" "al_type b = ty" "same_invocation ty stored (al_invocation b)" "row_overlap p u"
    by (auto simp: clash_def new split: option.split_asm)
  have "alias_ok db b" using ok b by (simp add: store_ok_def)
  then have "\<not> tg_is_deleted u" using u by (simp add: alias_ok_def live_row_def)
  then have listed: "(b, u) \<in> set (filter (\<lambda>(al, t). al_trigger al \<noteq> rid) (live_aliases ty db))"
    using b u parts by (simp add: live_aliases_iff)
  have none: "find_conflict ty stored (tg_target_os p) (tg_only_apps p) (tg_except_apps p)
      (filter (\<lambda>(al, t). al_trigger al \<noteq> rid) (live_aliases ty db)) = Inr None"
    using cc p by (auto simp: check_alias_scope_conflict_def ok_then_Inr split: if_split_asm) (metis not_None_eq surj_pair)
  show False using find_conflict_None [OF none listed] parts by (simp add: row_overlap_def)
qed

lemma clash_irrefl: "\<not> clash db a a"
  by (simp add: clash_def)

definition sound :: "string set \<Rightarrow> string \<Rightarrow> 'v database \<Rightarrow> bool" where
  "sound X rid db \<longleftrightarrow> steady X rid db \<and> no_clash db"

lemma add_alias_sound: "valid (sound X r) (add_alias env r ty s c) (\<lambda>_. sound (X - {r}) r)"
proof (rule validI)
  fix db al db' assume pre: "sound X r db" and run: "add_alias env r ty s c db = Inr (al, db')"
  have steady: "steady (X - {r}) r db'"
    using validD [OF add_alias_steady _ run] pre by (simp add: sound_def)
  obtain stored v where cc: "check_alias_scope_conflict r ty stored db = Inr ()"
    and al: "al = \<lparr>al_id = se_uuid env (db_uuids db), al_trigger = r, al_invocation = stored, al_type = ty,
               al_confirm = c, al_threshold = v, al_created_at = se_now env\<rparr>"
    and db': "db' = db\<lparr>db_uuids := db_uuids db + 1, db_aliases := db_aliases db @ [al]\<rparr>"
    by (rule add_alias_Inr [OF run])
  have same: "clash db' a b = clash db a b" for a b
    by (rule clash_cong) (simp add: db' scope_of_def)
  have fresh: "\<not> clash db al b" if "b \<in> set (db_aliases db)" for b
    by (rule checked_alias_no_clash [OF _ cc _ _ _ that]) (use pre in \<open>auto simp: sound_def steady_def al\<close>)
  moreover have "\<not> clash db b al" if "b \<in> set (db_aliases db)" for b
    using fresh [OF that] clash_sym [of db b al] by simp
  moreover have "set (db_aliases db') = insert al (set (db_aliases db))" by (simp add: db')
  ultimately have "no_clash db'"
    using pre by (simp add: no_clash_def same sound_def clash_irrefl)
  then show "sound (X - {r}) r db'" using steady by (simp add: sound_def)
qed

lemma add_aliases_sound: "valid (sound X r) (add_aliases env r invocations) (\<lambda>_. sound (X - (if invocations = [] then {} else {r})) r)"
proof (induction invocations arbitrary: X)
  case (Cons x xs)
  obtain ty s c where x: "x = (ty, s, c)" by (cases x)
  show ?case
  proof (rule validI)
    fix db als db'' assume pre: "sound X r db" and run: "add_aliases env r (x # xs) db = Inr (als, db'')"
    then obtain al db' als' where one: "add_alias env r ty s c db = Inr (al, db')"
      and rest: "add_aliases env r xs db' = Inr (als', db'')"
      by (auto simp: add_aliases_def x split: sum.split_asm prod.split_asm)
    have "sound (X - {r}) r db'" by (rule validD [OF add_alias_sound pre one])
    from validD [OF Cons.IH this rest] show "sound (X - (if x # xs = [] then {} else {r})) r db''"
      by (simp split: if_split_asm)
  qed
qed (simp add: valid_def add_aliases_def)

section \<open>Steps that leave the scopes alone\<close>

definition framed :: "string \<Rightarrow> 'v database \<Rightarrow> 'v database \<Rightarrow> bool" where
  "framed rid db0 db \<longleftrightarrow> db_aliases db = db_aliases db0 \<and> (\<forall>k. k \<noteq> rid \<longrightarrow> scope_of k db = scope_of k db0)"

lemma scope_of_update:
  assumes "\<And>t. tg_id (f t) = tg_id t"
  shows "scope_of k (update_row r f db) =
    (if k = r then map_option (\<lambda>t. (tg_target_os (f t), tg_only_apps (f t), tg_except_apps (f t))) (find_row k db)
     else scope_of k db)"
  by (simp add: scope_of_def find_row_update [OF assms] option.map_comp comp_def)

lemma scope_of_output [simp]:
  "scope_of k (update_row r (\<lambda>t. t\<lparr>tg_output := out, tg_updated_at := n\<rparr>) db) = scope_of k db"
  by (cases "find_row k db") (simp_all add: scope_of_def find_row_update)

lemma scope_of_other [simp]:
  "scope_of k (db\<lparr>db_aliases := als\<rparr>) = scope_of k db"
  "scope_of k (db\<lparr>db_scripts := ss\<rparr>) = scope_of k db"
  "scope_of k (db\<lparr>db_assets := bs\<rparr>) = scope_of k db"
  "scope_of k (db\<lparr>db_uuids := n\<rparr>) = scope_of k db"
  "scope_of k (delete_aliases P db) = scope_of k db"
  "scope_of k (delete_script j db) = scope_of k db"
  "scope_of k (put_script s db) = scope_of k db"
  by (simp_all add: scope_of_def)

interpretation framed: table_invariant "framed rid db0" for rid db0
  by unfold_locales (auto simp: framed_def)

definition scopes_kept :: "'v database \<Rightarrow> 'v database \<Rightarrow> bool" where
  "scopes_kept db0 db \<longleftrightarrow> db_aliases db = db_aliases db0 \<and> (\<forall>k. scope_of k db = scope_of k db0)"

interpretation kept: table_invariant "scopes_kept db0" for db0
  by unfold_locales (auto simp: scopes_kept_def)

lemma framed_app_filters [triple]: "valid (framed rid db0) (update_trigger_app_filters rid only except) (\<lambda>_. framed rid db0)"
  unfolding update_trigger_app_filters_def
  by (intro triple keep_change) (auto simp: framed_def scope_of_update split: if_split_asm)

lemma framed_update: "framed rid db0 db \<Longrightarrow> (\<And>t. tg_id (f t) = tg_id t) \<Longrightarrow> framed rid db0 (update_row rid f db)"
  by (simp add: framed_def scope_of_update)

lemma framed_delete_script: "framed rid db0 db \<Longrightarrow> framed rid db0 (delete_script k db)"
  by (simp add: framed_def)

lemma framed_no_clash: "no_clash db0 \<Longrightarrow> rid \<notin> holders db0 \<Longrightarrow> framed rid db0 db \<Longrightarrow> no_clash db"
  by (rule no_clash_cong [of db0]) (auto simp: framed_def holders_def)

lemma kept_no_clash: "no_clash db0 \<Longrightarrow> scopes_kept db0 db \<Longrightarrow> no_clash db"
  by (rule no_clash_cong [of db0]) (auto simp: scopes_kept_def)

lemma framed_refl: "framed rid db db"
  by (simp add: framed_def)

lemma scope_of_append:
  "k \<noteq> tg_id t \<Longrightarrow> scope_of k (db\<lparr>db_triggers := db_triggers db @ [t]\<rparr>) = scope_of k db"
  by (simp add: scope_of_def find_row_append split: option.split)

lemma framed_insert_row: "valid (framed (tg_id t) db0) (insert_row t) (\<lambda>_. framed (tg_id t) db0)"
  by (rule validI) (auto simp: insert_row_def framed_def scope_of_append split: if_split_asm)

section \<open>Operations\<close>

text \<open>Taking aliases away.\<close>

definition fewer :: "'v database \<Rightarrow> 'v database \<Rightarrow> bool" where
  "fewer db db' \<longleftrightarrow> set (db_aliases db') \<subseteq> set (db_aliases db) \<and> (\<forall>k. scope_of k db' = scope_of k db)"

lemma fewer_refl: "fewer db db"
  by (simp add: fewer_def)

lemma fewer_trans: "fewer a b \<Longrightarrow> fewer b c \<Longrightarrow> fewer a c"
  by (auto simp: fewer_def)

lemma fewer_no_clash: "no_clash db \<Longrightarrow> fewer db db' \<Longrightarrow> no_clash db'"
  by (rule no_clash_cong [of db]) (auto simp: fewer_def)

definition orderly :: "'v database \<Rightarrow> bool" where
  "orderly db \<longleftrightarrow> store_ok {} db \<and> no_clash db"

lemma orderly_sound: "orderly db \<Longrightarrow> undead rid db \<Longrightarrow> sound {} rid db"
  by (simp add: orderly_def sound_def steady_def)

lemma sound_orderly: "sound {} rid db \<Longrightarrow> orderly db"
  by (simp add: orderly_def sound_def steady_def)

lemma write_new_fresh: "write_new env entry rid textual tags db = Inr r \<Longrightarrow> find_row rid db = None"
  by (auto simp: write_new_def run_Inr insert_row_def new_row_def find_row_None Let_def split: if_split_asm)

lemma framed_write_new: "valid (framed rid db0) (write_new env entry rid textual tags) (\<lambda>_. framed rid db0)"
proof -
  have row: "valid (framed rid db0) (insert_row (new_row env entry rid out act tags)) (\<lambda>_. framed rid db0)" for out act
    using framed_insert_row [of "new_row env entry rid out act tags"] by (simp add: new_row_def)
  show ?thesis unfolding write_new_def Let_def by (auto intro!: triple row split: prod.split)
qed

lemma and_doE:
  assumes "and_do m f db = Inr r"
  obtains a db1 where "m db = Inr (a, db1)" and "f a db1 = Inr r"
  using assms by (auto simp: and_do_Inr)

lemma create_entry_cases:
  assumes "create_entry_inner env entry db = Inr (res, db')"
  obtains textual tags where "ne_invocations entry \<noteq> []" and "validate_entry env entry db = Inr (textual, tags)"
    and "store_new env entry textual tags db = Inr (res, db')"
  using assms by (auto simp: create_entry_inner_def run_Inr)

lemma store_new_cases:
  assumes "store_new env entry textual tags db = Inr (res, db')"
  obtains rid db1 db2 db3 als where "new_uuid env db = Inr (rid, db1)"
    and "write_new env entry rid textual tags db1 = Inr ((), db2)"
    and "update_trigger_app_filters rid (ne_only_apps entry) (ne_except_apps entry) db2 = Inr ((), db3)"
    and "add_aliases env rid (ne_invocations entry) db3 = Inr (als, db')" and "res = (rid, als)"
proof -
  from assms obtain rid db1 where u: "new_uuid env db = Inr (rid, db1)"
    and r1: "and_do (write_new env entry rid textual tags) (\<lambda>_.
       and_do (update_trigger_app_filters rid (ne_only_apps entry) (ne_except_apps entry)) (\<lambda>_.
       and_do (add_aliases env rid (ne_invocations entry)) (\<lambda>aliases. give (rid, aliases)))) db1 = Inr (res, db')"
    unfolding store_new_def by (subst (asm) and_do_Inr) blast
  from r1 obtain db2 where w: "write_new env entry rid textual tags db1 = Inr ((), db2)"
    and r2: "and_do (update_trigger_app_filters rid (ne_only_apps entry) (ne_except_apps entry)) (\<lambda>_.
       and_do (add_aliases env rid (ne_invocations entry)) (\<lambda>aliases. give (rid, aliases))) db2 = Inr (res, db')"
    by (subst (asm) and_do_Inr) auto
  from r2 obtain db3 where "update_trigger_app_filters rid (ne_only_apps entry) (ne_except_apps entry) db2 = Inr ((), db3)"
    and "and_do (add_aliases env rid (ne_invocations entry)) (\<lambda>aliases. give (rid, aliases)) db3 = Inr (res, db')"
    by (subst (asm) and_do_Inr) auto
  with u w show ?thesis using that by (auto simp: run_Inr)
qed

lemma create_entry_orderly: "valid orderly (create_entry_inner env entry) (\<lambda>_. orderly)"
proof (rule validI)
  fix db res db' assume pre: "orderly db" and run: "create_entry_inner env entry db = Inr (res, db')"
  from run obtain textual tags where some: "ne_invocations entry \<noteq> []"
    and new: "store_new env entry textual tags db = Inr (res, db')"
    by (rule create_entry_cases)
  obtain rid db1 db2 db3 als where uuid: "new_uuid env db = Inr (rid, db1)"
    and new: "write_new env entry rid textual tags db1 = Inr ((), db2)"
    and filters: "update_trigger_app_filters rid (ne_only_apps entry) (ne_except_apps entry) db2 = Inr ((), db3)"
    and als: "add_aliases env rid (ne_invocations entry) db3 = Inr (als, db')"
    using new by (rule store_new_cases) blast
  have db1: "db1 = db\<lparr>db_uuids := db_uuids db + 1\<rparr>" using uuid by (simp add: new_uuid_def)
  have ok1: "store_ok {} db1" using pre by (simp add: db1 orderly_def)
  have "fewer db db1" by (simp add: fewer_def db1)
  with pre have clash1: "no_clash db1" unfolding orderly_def by (blast intro: fewer_no_clash)
  have none: "find_row rid db1 = None" by (rule write_new_fresh [OF new])
  have free: "rid \<notin> holders db1"
    using ok1 none by (auto simp: store_ok_def holders_def alias_ok_def live_row_def)
  have "steady {rid} rid db3"
    using validD [OF keep_app_filters validD [OF write_new_steady ok1 new] filters] by simp
  moreover have "framed rid db1 db3"
    using validD [OF framed_app_filters validD [OF framed_write_new framed_refl new] filters] by simp
  ultimately have "sound {rid} rid db3" using framed_no_clash [OF clash1 free] by (simp add: sound_def)
  from validD [OF add_aliases_sound this als] show "orderly db'" using some by (simp add: sound_orderly)
qed

lemma update_existing_orderly: "valid orderly (update_existing_inner env u) (\<lambda>_. orderly)"
proof (rule validI)
  fix db res db' assume pre: "orderly db" and run: "update_existing_inner env u db = Inr (res, db')"
  let ?i = "eu_id u"
  from run obtain textual tags db1 al and prepared :: prepared_trigger where w: "write_update env u textual tags db = Inr ((), db1)"
    and a: "add_alias env ?i (invocation_type_for_trigger (pt_type prepared)) (pt_stored prepared) False
      (delete_aliases (\<lambda>al. al_trigger al = ?i) db1) = Inr (al, db')"
    unfolding update_existing_inner_def by (elim and_doE) (auto simp: check_Inr change_Inr give_Inr elim!: and_doE)
  let ?db2 = "delete_aliases (\<lambda>al. al_trigger al = ?i) db1"
  have row: "valid (framed ?i db0) (change (update_row ?i (updated_row env u out act tags))) (\<lambda>_. framed ?i db0)"
    "valid (framed ?i db0) (change (\<lambda>db. delete_script ?i (update_row ?i (updated_row env u out act tags) db))) (\<lambda>_. framed ?i db0)"
    for out act db0
    by (rule keep_change, simp add: framed_update framed_delete_script updated_row_def)+
  have "valid (framed ?i db) (write_update env u textual tags) (\<lambda>_. framed ?i db)"
    unfolding write_update_def Let_def by (auto intro!: triple row split: prod.split)
  from validD [OF this framed_refl w] have fr: "framed ?i db db1" .
  have "steady {?i} ?i ?db2"
    using delete_aliases_steady [OF validD [OF write_update_steady _ w, of "{}"]] pre by (simp add: orderly_def)
  moreover have "no_clash ?db2"
    by (rule no_clash_cong [of db]) (use pre fr in \<open>auto simp: orderly_def framed_def delete_aliases_def holders_def\<close>)
  ultimately have "sound {?i} ?i ?db2" by (simp add: sound_def)
  from validD [OF add_alias_sound this a] show "orderly db'" by (simp add: sound_orderly)
qed

text \<open>An update keeps the scopes apart when it does not change the scope of the row.\<close>

definition scope_kept :: "new_entry \<Rightarrow> trigger_row \<Rightarrow> bool" where
  "scope_kept entry t \<longleftrightarrow> tg_target_os t = ne_target_os entry \<and>
     clean_app_filter_value (ne_only_apps entry) = Inr (tg_only_apps t) \<and>
     clean_app_filter_value (ne_except_apps entry) = Inr (tg_except_apps t)"

definition keeps_scopes :: "new_entry \<Rightarrow> 'v database \<Rightarrow> bool" where
  "keeps_scopes entry db \<longleftrightarrow>
     list_all (\<lambda>rid. case find_row rid db of None \<Rightarrow> True | Some t \<Rightarrow> scope_kept entry t) (requested_parents entry db)"

lemma scope_of_row: "scope_of rid db = Some (os, only, except) \<longleftrightarrow>
    (\<exists>t. find_row rid db = Some t \<and> tg_target_os t = os \<and> tg_only_apps t = only \<and> tg_except_apps t = except)"
  by (auto simp: scope_of_def)

lemma kept_scope_update:
  assumes "scopes_kept db0 db" and "\<And>t. tg_id (f t) = tg_id t"
    and "scope_of rid db0 = Some (os, only, except)"
    and "\<And>t. tg_target_os (f t) = os \<and> tg_only_apps (f t) = tg_only_apps t \<and> tg_except_apps (f t) = tg_except_apps t"
  shows "scopes_kept db0 (update_row rid f db)"
proof -
  have "scope_of rid db = Some (os, only, except)" using assms(1,3) by (simp add: scopes_kept_def)
  then show ?thesis using assms(1) by (auto simp: scopes_kept_def scope_of_update [OF assms(2)] assms(3,4) scope_of_row)
qed

lemma kept_write_changed:
  assumes "scope_of rid db0 = Some (ne_target_os entry, only, except)"
  shows "valid (scopes_kept db0) (write_changed env entry rid textual tags current same) (\<lambda>_. scopes_kept db0)"
proof -
  have row: "scopes_kept db0 db \<Longrightarrow> scopes_kept db0 (update_row rid (entry_row env entry out act tags) db)" for out act db
    by (rule kept_scope_update [OF _ _ assms]) (simp_all add: entry_row_def)
  have drop: "scopes_kept db0 db \<Longrightarrow> scopes_kept db0 (delete_script k db)" for k db
    by (simp add: scopes_kept_def)
  show ?thesis unfolding write_changed_def Let_def
    by (auto intro!: triple keep_change row drop split: prod.split)
qed

lemma kept_app_filters:
  assumes "scope_of rid db0 = Some (os, only', except')"
    and "clean_app_filter_value only = Inr only'" and "clean_app_filter_value except = Inr except'"
  shows "valid (scopes_kept db0) (update_trigger_app_filters rid only except) (\<lambda>_. scopes_kept db0)"
proof -
  have "scopes_kept db0 (update_row rid (\<lambda>t. if tg_is_deleted t then t
      else t\<lparr>tg_only_apps := only', tg_except_apps := except'\<rparr>) db)" if "scopes_kept db0 db" for db
  proof -
    have "scope_of rid db = Some (os, only', except')" using that assms(1) by (simp add: scopes_kept_def)
    then obtain t where "find_row rid db = Some t" "tg_target_os t = os" "tg_only_apps t = only'" "tg_except_apps t = except'"
      by (auto simp: scope_of_row)
    then show ?thesis using that assms(1) by (simp add: scopes_kept_def scope_of_update)
  qed
  then show ?thesis unfolding update_trigger_app_filters_def
    by (auto simp: valid_def run_Inr assms(2,3) split: sum.split)
qed

lemma update_entry_cases:
  assumes "update_entry_inner env rid entry db = Inr (out, db')"
  obtains textual tags current same written db1 missing where "find_row rid db = Some current"
    and "write_changed env entry rid textual tags current same db = Inr (written, db1)"
    and "(if written = None then give AlreadyExists
       else and_do (update_trigger_app_filters rid (ne_only_apps entry) (ne_except_apps entry)) (\<lambda>_.
         and_do (add_aliases env rid missing) (\<lambda>_. give Updated))) db1 = Inr (out, db')"
  using assms unfolding update_entry_inner_def
  by (elim and_doE) (auto simp: check_Inr ask_Inr get_row_def elim!: and_doE split: option.split_asm)

lemma update_entry_orderly:
  assumes pre: "orderly db" and live: "live_row rid db" and kept: "\<And>t. find_row rid db = Some t \<Longrightarrow> scope_kept entry t"
    and run: "update_entry_inner env rid entry db = Inr (out, db')"
  shows "orderly db'"
proof -
  obtain t where t: "find_row rid db = Some t" using live by (auto simp: live_row_def)
  have sc: "scope_of rid db = Some (ne_target_os entry, tg_only_apps t, tg_except_apps t)"
    and clean: "clean_app_filter_value (ne_only_apps entry) = Inr (tg_only_apps t)"
      "clean_app_filter_value (ne_except_apps entry) = Inr (tg_except_apps t)"
    using kept [OF t] t by (simp_all add: scope_kept_def scope_of_def)
  from run obtain textual tags same written db1 missing where
      w: "write_changed env entry rid textual tags t same db = Inr (written, db1)"
    and rest: "(if written = None then give AlreadyExists
       else and_do (update_trigger_app_filters rid (ne_only_apps entry) (ne_except_apps entry)) (\<lambda>_.
         and_do (add_aliases env rid missing) (\<lambda>_. give Updated))) db1 = Inr (out, db')"
    by (rule update_entry_cases) (use t in auto)
  have "steady {} rid db" using pre live by (simp add: orderly_def steady_def live_undead)
  from validD [OF keep_write_changed this w] have s1: "steady {} rid db1" .
  have k1: "scopes_kept db db1" by (rule validD [OF kept_write_changed [OF sc] _ w]) (simp add: scopes_kept_def)
  show ?thesis
  proof (cases "written = None")
    case True
    then show ?thesis using rest s1 kept_no_clash [OF _ k1] pre by (simp add: orderly_def steady_def give_Inr)
  next
    case False
    then obtain db2 als where f: "update_trigger_app_filters rid (ne_only_apps entry) (ne_except_apps entry) db1 = Inr ((), db2)"
      and a: "add_aliases env rid missing db2 = Inr (als, db')"
      using rest by (auto simp: run_Inr)
    have "steady {} rid db2" by (rule validD [OF keep_app_filters s1 f])
    moreover have "scopes_kept db db2" by (rule validD [OF kept_app_filters [OF sc clean] k1 f])
    ultimately have "sound {} rid db2" using kept_no_clash pre by (auto simp: sound_def orderly_def)
    from validD [OF add_aliases_sound this a] show ?thesis by (simp add: sound_orderly)
  qed
qed

lemma upsert_entry_orderly:
  assumes pre: "orderly db" and kept: "keeps_scopes entry db" and run: "upsert_entry_inner env entry db = Inr (out, db')"
  shows "orderly db'"
  using run
proof (cases rule: upsert_entry_cases)
  case (1 res)
  show ?thesis by (rule validD [OF create_entry_orderly pre 1(2)])
next
  case (2 rid)
  have "live_row rid db" by (rule requested_parents_live [of rid entry]) (simp add: 2(1))
  then show ?thesis using kept 2 by (intro update_entry_orderly [OF pre]) (auto simp: keeps_scopes_def)
qed

lemma add_alias_orderly: "orderly db \<Longrightarrow> live_row rid db \<Longrightarrow> add_alias env rid ty phrase c db = Inr (al, db') \<Longrightarrow> orderly db'"
  using validD [OF add_alias_sound [where X = "{}" and r = rid]] orderly_sound live_undead sound_orderly by fastforce

lemma scope_of_same:
  "(\<And>t. tg_id (f t) = tg_id t) \<Longrightarrow>
   (\<And>t. tg_target_os (f t) = tg_target_os t \<and> tg_only_apps (f t) = tg_only_apps t \<and> tg_except_apps (f t) = tg_except_apps t) \<Longrightarrow>
   scope_of k (update_row r f db) = scope_of k db"
  by (cases "find_row k db") (simp_all add: scope_of_def find_row_update)

lemma fewer_tombstone: "fewer db (tombstone_entry rid now db)"
  by (auto simp: fewer_def tombstone_entry_def delete_aliases_def scope_of_same)

lemma fewer_delete_alias: "fewer db (snd (delete_alias env rid ty phrase db))"
proof -
  have del: "fewer db (delete_aliases P db)" for P by (auto simp: fewer_def delete_aliases_def)
  have "fewer db (tombstone_entry rid now (delete_aliases P db))" for P now
    by (rule fewer_trans [OF del fewer_tombstone])
  then show ?thesis by (simp add: delete_alias_def Let_def del fewer_refl split: option.split)
qed

lemma fewer_foldl: "(\<And>s x. fewer (snd s) (snd (f s x))) \<Longrightarrow> fewer (snd s) (snd (foldl f s xs))"
proof (induction xs arbitrary: s)
  case (Cons x xs)
  show ?case using fewer_trans [OF Cons.prems Cons.IH [OF Cons.prems]] by simp
qed (simp add: fewer_refl)

lemma fewer_holders: "fewer (snd s) (snd (delete_holders env ty phrase pids s))"
proof (induction pids arbitrary: s)
  case Nil
  then show ?case by (cases s) (simp add: fewer_refl)
next
  case (Cons pid pids)
  obtain n db where s: "s = (n, db)" by (cases s)
  obtain removed db' where del: "delete_alias env pid ty phrase db = (removed, db')" by fastforce
  have "fewer db db'" using fewer_delete_alias [of db env pid ty phrase] by (simp add: del)
  from fewer_trans [OF this] show ?case using Cons.IH [of "(if removed then n + 1 else n, db')"] by (simp add: s del)
qed

lemma fewer_value: "fewer (snd s) (snd (delete_value env s phrase))"
  unfolding delete_value_def
proof (rule fewer_foldl, goal_cases)
  case (1 s ty)
  obtain n db where "s = (n, db)" by (cases s)
  then show ?case using fewer_holders [of s env ty phrase "parents_by_invocation ty phrase db"] by simp
qed

lemma fewer_values: "fewer db (snd (delete_triggers_by_values env phrases db))"
  using fewer_foldl [of "delete_value env" "(0, db)", OF fewer_value] by (simp add: delete_triggers_by_values_def)

lemma fewer_tombstone_all: "fewer db (tombstone_all now ids db)"
  unfolding tombstone_all_def
  by (induction ids arbitrary: db) (auto simp: fewer_refl intro: fewer_trans [OF fewer_tombstone])

lemma fewer_use: "fewer db (increment_usage_count_by_id env rid db)"
  by (auto simp: fewer_def increment_usage_count_by_id_def intro!: scope_of_same)

end
