(* ===== verification/TriggerAnswers.thy ===== *)
theory TriggerAnswers
  imports TriggerScopes ExpansionCatalog
begin

text \<open>
  Consequences for what the daemon answers: runs of operations that keep scopes apart, the one trigger that
  answers a word in a window, the agreement of the two snippet sources, deleting, scripts read back, and the
  places where a store comes out wrong.
\<close>

section \<open>Runs that keep scopes apart\<close>

text \<open>All operations but the ones that change the scope of a trigger that keeps its aliases.\<close>

inductive careful_step :: "('f, 'n, 'v) store_env \<Rightarrow> 'v database \<Rightarrow> 'v database \<Rightarrow> bool" for env where
  careful_create: "careful_step env db (snd (create_entry env entry db))"
| careful_upsert: "keeps_scopes entry db \<Longrightarrow> careful_step env db (snd (upsert_entry_full env entry db))"
| careful_update: "careful_step env db (snd (update_existing_trigger env u db))"
| careful_script: "careful_step env db (snd (with_transaction (upsert_script env rid i b z) db))"
| careful_alias: "live_row rid db \<Longrightarrow> careful_step env db (snd (with_transaction (add_alias env rid ty phrase c) db))"
| careful_delete_alias: "careful_step env db (snd (delete_alias env rid ty phrase db))"
| careful_delete: "careful_step env db (snd (delete_trigger env rid db))"
| careful_delete_values: "careful_step env db (snd (delete_triggers_by_values env phrases db))"
| careful_delete_pattern: "careful_step env db (snd (delete_triggers_by_pattern env pattern db))"
| careful_delete_tag: "careful_step env db (snd (delete_triggers_by_tag env tag db))"
| careful_use: "careful_step env db (increment_usage_count_by_id env rid db)"
| careful_use_trigger: "careful_step env db (increment_usage_count_by_trigger env trig db)"

inductive careful_reachable :: "('f, 'n, 'v) store_env \<Rightarrow> 'v database \<Rightarrow> bool" for env where
  careful_empty: "careful_reachable env empty_store"
| careful_more: "careful_reachable env db \<Longrightarrow> careful_step env db db' \<Longrightarrow> careful_reachable env db'"

lemma transaction_orderly:
  "(\<And>a db'. m db = Inr (a, db') \<Longrightarrow> orderly db') \<Longrightarrow> orderly db \<Longrightarrow> orderly (snd (with_transaction m db))"
  by (simp add: with_transaction_def split: sum.split prod.split)

lemma fewer_orderly: "store_step env db db' \<Longrightarrow> fewer db db' \<Longrightarrow> orderly db \<Longrightarrow> orderly db'"
  using store_step_ok by (auto simp: orderly_def intro: fewer_no_clash)

lemma step_of_careful: "careful_step env db db' \<Longrightarrow> store_step env db db'"
  by (induction rule: careful_step.induct) (auto intro: store_step.intros)

lemma careful_step_orderly: "careful_step env db db' \<Longrightarrow> orderly db \<Longrightarrow> orderly db'"
proof (frule step_of_careful, induction rule: careful_step.induct)
  case (careful_create db entry)
  then show ?case unfolding create_entry_def
    by (intro transaction_orderly) (auto intro: validD [OF create_entry_orderly])
next
  case (careful_upsert entry db)
  then show ?case unfolding upsert_entry_full_def
    by (intro transaction_orderly) (auto intro: upsert_entry_orderly)
next
  case (careful_update db u)
  then show ?case unfolding update_existing_trigger_def
    by (intro transaction_orderly) (auto intro: validD [OF update_existing_orderly])
next
  case (careful_script db rid i b z)
  have "scopes_kept db (snd (with_transaction (upsert_script env rid i b z) db))"
    by (rule transaction_ok [OF kept.keep_upsert_script]) (simp add: scopes_kept_def)
  then show ?case using careful_script store_step_ok kept_no_clash by (auto simp: orderly_def)
next
  case (careful_alias rid db ty phrase c)
  then show ?case by (intro transaction_orderly) (auto intro: add_alias_orderly)
next
  case (careful_delete_alias db rid ty phrase)
  from careful_delete_alias show ?case using fewer_orderly [OF _ fewer_delete_alias] by blast
next
  case (careful_delete db rid)
  have "fewer db (snd (delete_trigger env rid db))" by (simp add: delete_trigger_def fewer_tombstone fewer_refl)
  with careful_delete show ?case using fewer_orderly by blast
next
  case (careful_delete_values db phrases)
  from careful_delete_values show ?case using fewer_orderly [OF _ fewer_values] by blast
next
  case (careful_delete_pattern db pattern)
  have "fewer db (snd (delete_triggers_by_pattern env pattern db))"
    by (simp add: delete_triggers_by_pattern_def Let_def fewer_tombstone_all)
  with careful_delete_pattern show ?case using fewer_orderly by blast
next
  case (careful_delete_tag db tag)
  have "fewer db (snd (delete_triggers_by_tag env tag db))"
    by (simp add: delete_triggers_by_tag_def Let_def fewer_tombstone_all fewer_refl)
  with careful_delete_tag show ?case using fewer_orderly by blast
next
  case (careful_use db rid)
  from careful_use show ?case using fewer_orderly [OF _ fewer_use] by blast
next
  case (careful_use_trigger db trig)
  have "fewer db (increment_usage_count_by_trigger env trig db)"
    by (simp add: increment_usage_count_by_trigger_def fewer_use fewer_refl split: option.split)
  with careful_use_trigger show ?case using fewer_orderly by blast
qed

lemma careful_orderly: "careful_reachable env db \<Longrightarrow> orderly db"
proof (induction rule: careful_reachable.induct)
  case careful_empty
  show ?case
    by (simp add: orderly_def store_ok_def empty_store_def attached_def live_row_def find_row_def no_clash_def)
next
  case (careful_more db db')
  then show ?case using careful_step_orderly by blast
qed

section \<open>One trigger answers\<close>

lemma active_triggers_iff:
  "(phrase, act) \<in> set (active_triggers env ty db) \<longleftrightarrow>
   (\<exists>al t. al \<in> set (db_aliases db) \<and> find_row (al_trigger al) db = Some t \<and> al_type al = ty \<and> is_active env t \<and>
      al_invocation al = phrase \<and> act = row_action t (script_of (tg_id t) db))"
  by (auto simp: active_triggers_def joined_iff image_iff)

text \<open>C7: In a store that grew by operations that keep scopes apart, at most one active trigger of a word runs in a
  window, when the filters are lists of bare executable names.\<close>

theorem one_trigger_answers:
  assumes "careful_reachable env db"
    and "(phrase, a) \<in> set (get_all_active_triggers env db)" and "(phrase, b) \<in> set (get_all_active_triggers env db)"
    and "is_app_allowed a (Some info)" and "is_app_allowed b (Some info)"
    and "list_all bare_filter [ta_only_apps a, ta_except_apps a, ta_only_apps b, ta_except_apps b]"
  shows "a = b"
proof -
  obtain al t where al: "al \<in> set (db_aliases db)" "find_row (al_trigger al) db = Some t" "al_type al = WordInvocation"
      "is_active env t" "al_invocation al = phrase" and a: "a = row_action t (script_of (tg_id t) db)"
    using assms(2) by (auto simp: get_all_active_triggers_def active_triggers_iff)
  obtain al' u where al': "al' \<in> set (db_aliases db)" "find_row (al_trigger al') db = Some u" "al_type al' = WordInvocation"
      "is_active env u" "al_invocation al' = phrase" and b: "b = row_action u (script_of (tg_id u) db)"
    using assms(3) by (auto simp: get_all_active_triggers_def active_triggers_iff)
  have "target_os_values_overlap (tg_target_os t) (tg_target_os u)"
    using al(4) al'(4) by (auto simp: is_active_def os_active_def target_os_values_overlap_def)
  moreover have "app_filters_overlap (tg_only_apps t) (tg_except_apps t) (tg_only_apps u) (tg_except_apps u)"
    using allowed_filters_overlap [of a b info] assms(4-6) by (simp add: a b row_action_def)
  ultimately have "row_overlap t u" by (simp add: row_overlap_def scope_overlaps_def)
  moreover have "\<not> clash db al al'"
    using careful_orderly [OF assms(1)] al(1) al'(1) by (simp add: orderly_def no_clash_def)
  ultimately have "al_trigger al = al_trigger al'"
    using al al' by (auto simp: clash_def same_invocation_def invocations_overlap_def)
  then show ?thesis using al(2) al'(2) a b by simp
qed

section \<open>The two sources\<close>

lemma map_of_filter:
  "map_of (map (\<lambda>x. (g x, h x)) xs) k = (case filter (\<lambda>x. g x = k) xs of [] \<Rightarrow> None | x # _ \<Rightarrow> Some (h x))"
  by (induction xs) auto

lemma distinct_filter_one: "distinct (map g xs) \<Longrightarrow> filter (\<lambda>x. g x = k) xs = [] \<or> (\<exists>x. filter (\<lambda>x. g x = k) xs = [x])"
proof (induction xs)
  case (Cons y ys)
  have "g y = k \<Longrightarrow> filter (\<lambda>x. g x = k) ys = []"
    using Cons.prems by (auto simp: filter_empty_conv image_iff)
  then show ?case using Cons by (cases "g y = k") auto
qed simp

lemma rev_map_of: "distinct (map fst xs) \<Longrightarrow> map_of (rev xs) = map_of xs"
  by (subst map_of_inject_set) (simp_all add: rev_map [symmetric])

text \<open>C27: When no two active triggers share a word, the memory source loaded with them answers every word as the
  database does.\<close>

theorem sources_agree:
  assumes "distinct (map fst (get_all_active_triggers env db))"
  shows "memory_get (memory_load m (get_all_active_triggers env db)) trig = get_action_by_trigger env trig db"
proof -
  let ?rows = "filter (\<lambda>(al, t). al_type al = WordInvocation \<and> is_active env t) (joined db)"
  let ?g = "\<lambda>r. al_invocation (fst r)" and ?h = "\<lambda>r. row_action (snd r) (script_of (tg_id (snd r)) db)"
  have all: "get_all_active_triggers env db = map (\<lambda>r. (?g r, ?h r)) ?rows"
    by (simp add: get_all_active_triggers_def active_triggers_def split_beta)
  have hits: "filter (\<lambda>(al, t). al_type al = WordInvocation \<and> al_invocation al = trig \<and> is_active env t) (joined db) =
      filter (\<lambda>r. ?g r = trig) ?rows"
    by (auto simp: split_beta intro: filter_cong)
  have "distinct (map ?g ?rows)" using assms by (simp add: all comp_def)
  then have one: "filter (\<lambda>r. ?g r = trig) ?rows = [] \<or> (\<exists>r. filter (\<lambda>r. ?g r = trig) ?rows = [r])"
    by (rule distinct_filter_one)
  have "memory_get (memory_load m (get_all_active_triggers env db)) trig = map_of (get_all_active_triggers env db) trig"
    using rev_map_of [OF assms] by (simp add: memory.get_load)
  also have "\<dots> = get_action_by_trigger env trig db"
    using one unfolding all map_of_filter get_action_by_trigger_def hits by auto
  finally show ?thesis .
qed

section \<open>Deleting\<close>

definition shrunk :: "'v database \<Rightarrow> 'v database \<Rightarrow> bool" where
  "shrunk db db' \<longleftrightarrow> set (db_aliases db') \<subseteq> set (db_aliases db) \<and> (\<forall>k. live_row k db' \<longrightarrow> live_row k db)"

definition held :: "invocation_type \<Rightarrow> string \<Rightarrow> 'v database \<Rightarrow> string set" where
  "held ty phrase db = set (parents_by_invocation ty phrase db)"

lemma held_iff:
  "rid \<in> held ty phrase db \<longleftrightarrow> (\<exists>stored al. normalize_lookup ty phrase = Some stored \<and> al \<in> set (db_aliases db) \<and>
     al_trigger al = rid \<and> al_type al = ty \<and> al_invocation al = stored \<and> live_row rid db)"
  by (cases "normalize_lookup ty phrase")
    (force simp: held_def parents_by_invocation_def live_aliases_iff live_row_def)+

lemma held_shrunk: "shrunk db db' \<Longrightarrow> held ty phrase db' \<subseteq> held ty phrase db"
  by (rule subsetI) (unfold held_iff shrunk_def, blast)

lemma shrunk_refl: "shrunk db db"
  by (simp add: shrunk_def)

lemma shrunk_trans: "shrunk a b \<Longrightarrow> shrunk b c \<Longrightarrow> shrunk a c"
  by (auto simp: shrunk_def)

lemma shrunk_tombstone: "shrunk db (tombstone_entry rid now db)"
  by (auto simp: shrunk_def tombstone_entry_def delete_aliases_def live_row_def find_row_update split: if_split_asm)

lemma delete_alias_shrunk: "shrunk db (snd (delete_alias env rid ty phrase db))"
proof -
  have del: "shrunk db (delete_aliases P db)" for P
    by (auto simp: shrunk_def delete_aliases_def)
  then have "shrunk db (tombstone_entry rid now (delete_aliases P db))" for P now
    using shrunk_tombstone shrunk_trans by blast
  then show ?thesis by (simp add: delete_alias_def Let_def del shrunk_refl split: option.split)
qed

lemma delete_alias_gone: "rid \<notin> held ty phrase (snd (delete_alias env rid ty phrase db))"
  by (auto simp: held_iff delete_alias_def Let_def tombstone_entry_def delete_aliases_def update_row_def list_ex_iff
      split: option.split_asm if_split_asm)

lemma delete_holders_spec:
  "shrunk (snd s) (snd (delete_holders env ty phrase pids s)) \<and>
   held ty phrase (snd (delete_holders env ty phrase pids s)) \<subseteq> held ty phrase (snd s) - set pids"
  for s :: "nat \<times> 'v database"
proof (induction env ty phrase pids s rule: delete_holders.induct)
  case (2 env ty phrase pid pids n db)
  obtain removed db1 where del: "delete_alias env pid ty phrase db = (removed, db1)" by fastforce
  have "shrunk db db1" and "pid \<notin> held ty phrase db1"
    using delete_alias_shrunk [of db env pid ty phrase] delete_alias_gone [of pid ty phrase env db] by (simp_all add: del)
  then show ?case using 2 [OF del [symmetric]] held_shrunk [of db db1 ty phrase] by (auto simp: del intro: shrunk_trans)
qed (simp_all add: shrunk_refl)

lemma foldl_reaches:
  assumes "\<And>s x. R s (f s x)" and "\<And>s x. Q x (f s x)" and "\<And>x s s'. Q x s \<Longrightarrow> R s s' \<Longrightarrow> Q x s'"
  shows "x \<in> set xs \<Longrightarrow> Q x (foldl f s xs)"
  using assms by (induction xs rule: rev_induct) auto

lemma foldl_shrunk: "(\<And>s x. shrunk (snd s) (snd (f s x))) \<Longrightarrow> shrunk (snd s) (snd (foldl f s xs))"
proof (induction xs rule: rev_induct)
  case (snoc x xs)
  have "shrunk (snd s) (snd (foldl f s xs))" by (rule snoc.IH) (rule snoc.prems)
  then show ?case using snoc.prems shrunk_trans by fastforce
qed (simp add: shrunk_refl)

definition delete_kind ::
  "('f, 'n, 'v) store_env \<Rightarrow> string \<Rightarrow> nat \<times> 'v database \<Rightarrow> invocation_type \<Rightarrow> nat \<times> 'v database" where
  "delete_kind env phrase s ty = delete_holders env ty phrase (parents_by_invocation ty phrase (snd s)) s"

lemma delete_kind_shrunk: "shrunk (snd s) (snd (delete_kind env phrase s ty))"
  by (simp add: delete_kind_def delete_holders_spec)

lemma delete_kind_gone: "held ty phrase (snd (delete_kind env phrase s ty)) = {}"
  using delete_holders_spec [of s env ty phrase "parents_by_invocation ty phrase (snd s)"]
  by (simp add: delete_kind_def held_def)

lemma held_none_shrunk: "held ty phrase db = {} \<Longrightarrow> shrunk db db' \<Longrightarrow> held ty phrase db' = {}"
  using held_shrunk by blast

lemma delete_value_kinds:
  "delete_value env s phrase =
     foldl (delete_kind env phrase) s [WordInvocation, HotkeyInvocation, RegexInvocation, VoiceInvocation]"
  by (simp add: delete_value_def delete_kind_def split_beta)

lemma delete_value_shrunk: "shrunk (snd s) (snd (delete_value env s phrase))"
  unfolding delete_value_kinds by (rule foldl_shrunk) (rule delete_kind_shrunk)

lemma delete_value_gone: "held ty phrase (snd (delete_value env s phrase)) = {}"
proof -
  have "ty \<in> set [WordInvocation, HotkeyInvocation, RegexInvocation, VoiceInvocation]" by (cases ty) simp_all
  then show ?thesis unfolding delete_value_kinds
    by (rule foldl_reaches [where R = "\<lambda>s s'. shrunk (snd s) (snd s')" and Q = "\<lambda>ty s. held ty phrase (snd s) = {}", rotated 3])
      (rule delete_kind_shrunk delete_kind_gone | erule held_none_shrunk, assumption | simp)+
qed

text \<open>C17: After phrases are deleted by value, no live trigger holds any of them, whatever its kind, and
  no expansion answers them.\<close>

theorem deleted_phrases_are_gone:
  "list_all (\<lambda>phrase.
     list_all (\<lambda>ty. parents_by_invocation ty phrase (snd (delete_triggers_by_values env phrases db)) = [])
       [WordInvocation, HotkeyInvocation, RegexInvocation, VoiceInvocation] \<and>
     get_action_by_trigger env phrase (snd (delete_triggers_by_values env phrases db)) = None) phrases"
proof -
  let ?db = "snd (delete_triggers_by_values env phrases db)"
  have none: "held ty phrase ?db = {}" if "phrase \<in> set phrases" for ty phrase
    unfolding delete_triggers_by_values_def using that
    by (rule foldl_reaches [where R = "\<lambda>s s'. shrunk (snd s) (snd s')" and Q = "\<lambda>w s. held ty w (snd s) = {}", rotated 3])
      (rule delete_value_shrunk delete_value_gone | erule held_none_shrunk, assumption | simp)+
  have "get_action_by_trigger env phrase ?db = None" if "phrase \<in> set phrases" for phrase
  proof -
    have "filter (\<lambda>(al, t). al_type al = WordInvocation \<and> al_invocation al = phrase \<and> is_active env t) (joined ?db) = []"
      using none [OF that, of WordInvocation]
      by (auto simp: filter_empty_conv joined_iff held_iff normalize_lookup_def is_active_def live_row_def set_eq_iff)
    then show ?thesis by (simp add: get_action_by_trigger_def)
  qed
  then show ?thesis using none by (simp add: list_all_iff held_def)
qed

section \<open>Scripts\<close>

definition script_stored :: "string \<Rightarrow> script_interpreter \<Rightarrow> script_behavior \<Rightarrow> u8 list \<Rightarrow> 'v database \<Rightarrow> bool" where
  "script_stored rid i b z db \<longleftrightarrow> find_row rid db \<noteq> None \<and>
     (case script_of rid db of
        None \<Rightarrow> False
      | Some s \<Rightarrow> sc_interpreter s = json_text (interpreter_as_str i) \<and> sc_behavior s = json_text (behavior_as_str b) \<and>
          sc_content s = z)"

lemma script_of_other [simp]:
  "script_of rid (db\<lparr>db_aliases := als\<rparr>) = script_of rid db"
  "script_of rid (db\<lparr>db_uuids := n\<rparr>) = script_of rid db"
  "script_of rid (update_row k f db) = script_of rid db"
  by (simp_all add: script_of_def update_row_def)

lemma stored_app_filters [triple]:
  "valid (script_stored rid i b z) (update_trigger_app_filters k only except) (\<lambda>_. script_stored rid i b z)"
  unfolding update_trigger_app_filters_def
  by (intro triple keep_change) (auto simp: script_stored_def find_row_update)

lemma stored_add_alias [triple]:
  "valid (script_stored rid i b z) (add_alias env k ty phrase c) (\<lambda>_. script_stored rid i b z)"
  by (rule validI) (auto simp: add_alias_def run_Inr new_uuid_def insert_alias_def script_stored_def Let_def
      split: if_split_asm prod.split_asm)

lemma stored_aliases [triple]:
  "valid (script_stored rid i b z) (add_aliases env k invocations) (\<lambda>_. script_stored rid i b z)"
  unfolding add_aliases_def by (auto intro!: triple split: prod.split)

lemma find_put:
  "list_ex (\<lambda>s. sc_trigger s = sc_trigger new) ss \<Longrightarrow>
   \<exists>v. find (\<lambda>s. sc_trigger s = sc_trigger new)
     (map (\<lambda>s. if sc_trigger s = sc_trigger new then new\<lparr>sc_version := sc_version s + 1\<rparr> else s) ss) =
     Some (new\<lparr>sc_version := v\<rparr>)"
  by (induction ss) auto

lemma script_of_put: "\<exists>v. script_of (sc_trigger new) (put_script new db) = Some (new\<lparr>sc_version := v\<rparr>)"
proof (cases "list_ex (\<lambda>s. sc_trigger s = sc_trigger new) (db_scripts db)")
  case True
  then show ?thesis using find_put [OF True] by (simp add: script_of_def put_script_def)
next
  case False
  then have "find (\<lambda>s. sc_trigger s = sc_trigger new) (db_scripts db) = None" by (auto simp: find_None_iff list_ex_iff)
  then have "script_of (sc_trigger new) (put_script new db) = Some (new\<lparr>sc_version := sc_version new\<rparr>)"
    using False by (simp add: script_of_def put_script_def find_append)
  then show ?thesis by blast
qed

lemma upsert_script_stored: "upsert_script env rid i b z db = Inr (u, db') \<Longrightarrow> script_stored rid i b z db'"
  using script_of_put [of "\<lparr>sc_trigger = rid, sc_interpreter = json_text (interpreter_as_str i),
      sc_behavior = json_text (behavior_as_str b), sc_content = z, sc_version = 1, sc_updated_at = se_now env\<rparr>" db]
  by (auto simp: upsert_script_def run_Inr get_row_def script_stored_def split: option.split_asm)

lemma names_read_back:
  "parse_json_variant interpreter_of_json (Some (json_text (interpreter_as_str i))) = Some i"
  "parse_json_variant behavior_of_json (Some (json_text (behavior_as_str b))) = Some b"
  by (induct i; code_simp) (induct b; code_simp)

lemma stored_view:
  assumes "script_stored rid i b z db"
  shows "\<exists>v. get_trigger rid db = Some v \<and> tv_interpreter v = Some i \<and> tv_behavior v = Some b \<and> tv_script v = Some z"
proof -
  obtain t s where t: "find_row rid db = Some t" and s: "script_of rid db = Some s"
    and parts: "sc_interpreter s = json_text (interpreter_as_str i)" "sc_behavior s = json_text (behavior_as_str b)" "sc_content s = z"
    using assms by (auto simp: script_stored_def split: option.split_asm)
  have "tg_id t = rid" using find_row_id [OF t] by simp
  with t s parts show ?thesis by (simp add: get_trigger_def view_trigger_def view_row_def Let_def names_read_back)
qed

lemma created_script:
  assumes run: "create_entry_inner env entry db = Inr ((rid, als), db')" and kind: "is_text_action (ne_action_type entry) = Inr False"
  obtains i b out z where "resolve_script_parts (ne_content entry) (ne_interpreter entry) (ne_behavior entry) = Inr (i, b, out)"
    and "se_pack_text env (ne_content entry) = Some z" and "script_stored rid i b z db'"
proof -
  obtain textual tags db1 where valid: "validate_entry env entry db = Inr (textual, tags)"
    and new: "store_new env entry textual tags db1 = Inr ((rid, als), db')"
    using run by (auto simp: create_entry_inner_def run_Inr)
  have "textual = False" using valid kind by (auto simp: validate_entry_def ok_then_Inr)
  then obtain u db2 db3 where written: "write_new env entry rid False tags db2 = Inr (u, db3)"
    and rest: "and_do (update_trigger_app_filters rid (ne_only_apps entry) (ne_except_apps entry)) (\<lambda>_.
       and_do (add_aliases env rid (ne_invocations entry)) (\<lambda>aliases. give (rid, aliases))) db3 = Inr ((rid, als), db')"
    using new by (auto simp: store_new_def run_Inr)
  obtain i b out z db4 where parts: "resolve_script_parts (ne_content entry) (ne_interpreter entry) (ne_behavior entry) = Inr (i, b, out)"
    and packed: "compress_text env (ne_content entry) = Inr z" and put: "upsert_script env rid i b z db4 = Inr (u, db3)"
    using written by (auto simp: write_new_def Let_def run_Inr split: prod.split_asm)
  have "valid (script_stored rid i b z) (and_do (update_trigger_app_filters rid (ne_only_apps entry) (ne_except_apps entry)) (\<lambda>_.
       and_do (add_aliases env rid (ne_invocations entry)) (\<lambda>aliases. give (rid, aliases)))) (\<lambda>_. script_stored rid i b z)"
    by (intro triple)
  from validD [OF this upsert_script_stored [OF put] rest] have "script_stored rid i b z db'" .
  moreover have "se_pack_text env (ne_content entry) = Some z"
    using packed by (auto simp: compress_text_def split: if_split_asm option.split_asm)
  ultimately show ?thesis using that parts by blast
qed

lemma script_is_not_text: "str_to_ascii_lowercase ''script'' \<noteq> str_to_ascii_lowercase ''text''"
  by code_simp

text \<open>C31: A stored script is read back with the interpreter it was given or that its first line names, with
  the behaviour it was given or \<open>Inline\<close>, and with its content as it was packed.\<close>

theorem script_entry_reads_back:
  assumes "create_entry env entry db = (Inr (rid, aliases), db')"
    and "eq_ignore_ascii_case (ne_action_type entry) ''script''"
  shows "\<exists>v i. get_trigger rid db' = Some v \<and> tv_interpreter v = Some i \<and>
     or_else (ne_interpreter entry) (infer_interpreter None (ne_content entry)) = Some i \<and>
     tv_behavior v = Some (case ne_behavior entry of Some b \<Rightarrow> b | None \<Rightarrow> Inline) \<and>
     tv_script v = se_pack_text env (ne_content entry)"
proof -
  have "create_entry_inner env entry db = Inr ((rid, aliases), db')"
    using assms(1) by (auto simp: create_entry_def with_transaction_def split: sum.split_asm prod.split_asm)
  moreover have "is_text_action (ne_action_type entry) = Inr False"
    using assms(2) script_is_not_text by (auto simp: is_text_action_def eq_ignore_ascii_case_def)
  ultimately obtain i b out z where parts: "resolve_script_parts (ne_content entry) (ne_interpreter entry) (ne_behavior entry) = Inr (i, b, out)"
    and z: "se_pack_text env (ne_content entry) = Some z" and stored: "script_stored rid i b z db'"
    by (rule created_script)
  from parts have "or_else (ne_interpreter entry) (infer_interpreter None (ne_content entry)) = Some i"
    and "b = (case ne_behavior entry of Some b \<Rightarrow> b | None \<Rightarrow> Inline)"
    by (auto simp: resolve_script_parts_def split: option.split_asm)
  then show ?thesis using stored_view [OF stored] z by auto
qed

definition script_entry :: new_entry where
  "script_entry = (text_entry ''echo hi'' ''win'' None [''x''])\<lparr>ne_action_type := ''Script'', ne_interpreter := Some Bash\<rparr>"

lemma script_entry_stored:
  "fst (create_entry (demo_store tenv venv) script_entry empty_store) =
     Inr ([], [\<lparr>al_id = ''u'', al_trigger = [], al_invocation = ''x'', al_type = WordInvocation, al_confirm = False,
       al_threshold = None, al_created_at = 7\<rparr>])"
  by code_simp

theorem script_entry_reads_back_witness:
  "\<exists>v. get_trigger [] (snd (create_entry demo_store_env script_entry empty_store)) = Some v \<and> tv_interpreter v = Some Bash"
proof -
  obtain aliases db' where run: "create_entry demo_store_env script_entry empty_store = (Inr ([], aliases), db')"
    using script_entry_stored unfolding demo_store_env_def by (metis prod.collapse)
  have "eq_ignore_ascii_case (ne_action_type script_entry) ''script''" by code_simp
  moreover have "ne_interpreter script_entry = Some Bash" by (simp add: script_entry_def)
  ultimately show ?thesis using script_entry_reads_back [OF run] by (auto simp: run)
qed

text \<open>Reading for the cloud puts the stored names, which are JSON already, in quotes once more: what is read has
  no interpreter and no behaviour.\<close>

lemma quoted_twice: "interpreter_of_json (json_text (json_text s)) = None" "behavior_of_json (json_text (json_text s)) = None"
  by (simp_all add: interpreter_of_json_def behavior_of_json_def json_text_def find_None_iff interpreter_as_str.simps
      behavior_as_str.simps)

lemma synced_scripts_lose_interpreter:
  assumes "script_stored rid i b z db"
  shows "list_all (\<lambda>v. tg_id (tv_row v) = rid \<longrightarrow> tv_interpreter v = None \<and> tv_behavior v = None)
     (get_syncable_triggers db)"
  using assms by (auto simp: list_all_iff get_syncable_triggers_def view_row_def Let_def script_stored_def quoted_twice
      split: option.split_asm)

section \<open>Where a store comes out wrong\<close>

text \<open>The two triggers of \<open>demo_tables\<close> for \<open>x\<close> run on different systems.  Giving the first one all systems, under
  its other word, leaves both with \<open>x\<close>: the update checks only the phrases the trigger does not have.\<close>

theorem scope_change_clashes:
  "store_reachable (demo_store tenv venv) (demo_tables tenv venv) \<and> no_clash (demo_tables tenv venv) \<and>
   (let (r, db') = upsert_entry_full (demo_store tenv venv) (text_entry ''hi'' ''all'' None [''y'']) (demo_tables tenv venv)
    in r = Inr Updated \<and> \<not> no_clash db')"
proof
  show "no_clash (demo_tables tenv venv) \<and>
    (let (r, db') = upsert_entry_full (demo_store tenv venv) (text_entry ''hi'' ''all'' None [''y'']) (demo_tables tenv venv)
     in r = Inr Updated \<and> \<not> no_clash db')"
    by code_simp
qed (rule demo_tables_reached)

definition shared_image :: "('f, 'n) transform_env \<Rightarrow> validate_env \<Rightarrow> nat database" where
  "shared_image tenv venv =
     (let env = demo_store tenv venv in
      snd (create_entry env (text_entry ''[image(logo.png)]'' ''win'' None [''y''])
        (snd (create_entry env (text_entry ''[image(logo.png)]'' ''win'' None [''x'']) empty_store))))"

text \<open>An asset belongs to the trigger that stored it last.  When that trigger drops the image the asset is deleted,
  though the other trigger still refers to it.\<close>

theorem shared_image_is_deleted:
  "let (r, db') = upsert_entry_full (demo_store tenv venv) (text_entry ''hi'' ''win'' None [''y'']) (shared_image tenv venv)
   in map as_id (db_assets (shared_image tenv venv)) = [''h''] \<and> r = Inr Updated \<and> db_assets db' = [] \<and>
      map_option ta_output (get_action_by_trigger (demo_store tenv venv) ''x'' db') = Some ''[image(asset(h))]''"
  by code_simp

definition two_windows :: "('f, 'n) transform_env \<Rightarrow> validate_env \<Rightarrow> nat database" where
  "two_windows tenv venv =
     (let env = demo_store tenv venv in
      snd (create_entry env (text_entry ''yo'' ''win'' (Some ''vim'') [''x''])
        (snd (create_entry env (text_entry ''hi'' ''win'' (Some ''code'') [''x'']) empty_store))))"

lemma two_windows_actions:
  "map (\<lambda>(phrase, a). (phrase, ta_output a, ta_only_apps a, ta_except_apps a))
     (get_all_active_triggers (demo_store tenv venv) (two_windows tenv venv)) =
   [(''x'', ''hi'', Some ''code'', None), (''x'', ''yo'', Some ''vim'', None)]"
  by code_simp

text \<open>Two triggers may share a word when their windows differ, but each source answers with one of them, whatever
  the window: the database with the first one, the memory with the last one.  In the window of the other no trigger
  runs.\<close>

theorem second_window_is_lost:
  "let env = demo_store tenv venv; db = two_windows tenv venv in
   map_option ta_output (get_action_by_trigger env ''x'' db) = Some ''hi'' \<and>
   map_option ta_output (memory_get (memory_load m (get_all_active_triggers env db)) ''x'') = Some ''yo''"
  by code_simp

lemma two_windows_careful: "careful_reachable (demo_store tenv venv) (two_windows tenv venv)"
  unfolding two_windows_def Let_def by (intro careful_more [OF _ careful_create] careful_empty)

theorem one_trigger_answers_witness:
  "\<exists>db a. set (filter (\<lambda>(phrase, b). phrase = ''x'' \<and> is_app_allowed b (Some (exec_only ''code'')))
     (get_all_active_triggers demo_store_env db)) = {(''x'', a)}"
proof -
  let ?db = "two_windows demo_transform_env \<lparr>va_offset_ok = \<lambda>_. False, va_system = random_only\<rparr>"
  obtain a b where all: "get_all_active_triggers demo_store_env ?db = [(''x'', a), (''x'', b)]"
    and a: "ta_only_apps a = Some ''code''" "ta_except_apps a = None" and b: "ta_only_apps b = Some ''vim''" "ta_except_apps b = None"
    using two_windows_actions [of demo_transform_env "\<lparr>va_offset_ok = \<lambda>_. False, va_system = random_only\<rparr>"]
    unfolding demo_store_env_def by auto
  have allowed: "is_app_allowed a (Some (exec_only ''code''))" unfolding is_app_allowed_def a by code_simp
  have "c = a" if "(''x'', c) \<in> set (get_all_active_triggers demo_store_env ?db)"
    and "is_app_allowed c (Some (exec_only ''code''))" for c
  proof (rule one_trigger_answers [OF _ that(1) _ that(2) allowed])
    show "careful_reachable demo_store_env ?db" unfolding demo_store_env_def by (rule two_windows_careful)
    show "(''x'', a) \<in> set (get_all_active_triggers demo_store_env ?db)" by (simp add: all)
    have "bare_filter None" "bare_filter (Some ''code'')" "bare_filter (Some ''vim'')" by code_simp+
    then show "list_all bare_filter [ta_only_apps c, ta_except_apps c, ta_only_apps a, ta_except_apps a]"
      using that(1) by (auto simp: all a b)
  qed
  then have "set (filter (\<lambda>(phrase, b). phrase = ''x'' \<and> is_app_allowed b (Some (exec_only ''code'')))
      (get_all_active_triggers demo_store_env ?db)) = {(''x'', a)}"
    using allowed by (auto simp: all)
  then show ?thesis by blast
qed

lemma demo_tables_words:
  "map fst (get_all_active_triggers (demo_store tenv venv) (demo_tables tenv venv)) = [''x'', ''y'']"
  by code_simp

theorem sources_agree_witness:
  "\<exists>db. distinct (map fst (get_all_active_triggers demo_store_env db)) \<and> db_triggers db \<noteq> [] \<and>
     memory_get (memory_load Map.empty (get_all_active_triggers demo_store_env db)) ''x'' =
     get_action_by_trigger demo_store_env ''x'' db"
proof -
  let ?db = "demo_tables demo_transform_env \<lparr>va_offset_ok = \<lambda>_. False, va_system = random_only\<rparr>"
  have words: "map fst (get_all_active_triggers demo_store_env ?db) = [''x'', ''y'']"
    unfolding demo_store_env_def by (rule demo_tables_words)
  then have distinct: "distinct (map fst (get_all_active_triggers demo_store_env ?db))" by simp
  have "db_triggers ?db \<noteq> []"
  proof
    assume "db_triggers ?db = []"
    then have "joined ?db = []" by (auto simp: joined_def find_row_def map_filter_simps List.map_filter_def)
    then show False using words by (simp add: get_all_active_triggers_def active_triggers_def)
  qed
  then show ?thesis using sources_agree [OF distinct, of Map.empty "''x''"] distinct by blast
qed

end
