(* ===== verification/Spec2Isabelle.thy ===== *)
theory Spec2Isabelle
  imports Listener PauseSwitch Injector PlanSafety VoiceMatching TriggerAnswers
begin

text \<open>
  Verification of the core of Taurine, a text expander written in Rust.  A daemon watches the keyboard; when the
  user has typed a trigger it deletes the trigger and types, pastes or runs what the trigger stands for.

  \<^bold>\<open>The parts and how they interact.\<close>  A raw event reaches the hook callback (\<open>Listener\<close>).  It passes the
  hotkey evaluator, the case cycle, the undo key and the completion keys in this order, and what none of them
  takes goes to the evaluator (\<open>Evaluator\<close>), which keeps the characters typed last (\<open>Buffer\<close>) and the word
  being completed (\<open>Completion\<close>, \<open>Emoji\<close>).  On the action key the evaluator asks the catalogs
  (\<open>ExpansionCatalog\<close>, \<open>HotkeyCatalog\<close>) for the suffixes of the typed text, in the order of
  \<open>ExpansionLookup\<close>, under the filters of \<open>AppFilter\<close>, and falls back to arithmetic (\<open>MathEval\<close>, \<open>Comma\<close>) and
  other services.  A template is expanded by its compiled plan (\<open>Plan\<close>) or by interpolation (\<open>Interpolate\<close>),
  which share the tags (\<open>Tags\<close>), the arguments (\<open>Args\<close>), the system variables (\<open>Registry\<close>, \<open>Temporal\<close>,
  \<open>Clipboard\<close>, \<open>Variables\<close>, \<open>Execute\<close>), the transformers (\<open>Pipeline\<close>, \<open>Transformers\<close>) and the final pass
  (\<open>Directives\<close>).  The steps of the expansion (\<open>Expansion\<close>) go to the dispatcher (\<open>Dispatch\<close>), which opens the
  undo window and the case cycle (\<open>CaseCycle\<close>) in the shared state (\<open>EngineState\<close>) before the injector
  (\<open>Injector\<close>, \<open>Html\<close>) carries them out under the guards of \<open>Gate\<close>.  What is stored was checked before
  (\<open>Validation\<close>, \<open>Snippets\<close>, \<open>TriggerRules\<close>).  A spoken transcript is matched with the spoken triggers (\<open>VoicePattern\<close>).

  \<^bold>\<open>Which theory models what.\<close>  Paths are under \<open>src/\<close>.  Records, datatypes and operations keep the names of
  the code, with a suffix or prefix where a name is taken.

    \<^item> \<open>Prelude\<close>: characters and strings of Rust's standard library, integers read and printed, list lemmas.
    \<^item> \<open>Keys\<close>, \<open>Hotkeys\<close>: \<open>core/src/keys/key.rs\<close>, \<open>hotkey.rs\<close>.  The modifier set is a word of 16 bits.
    \<^item> \<open>Buffer\<close>: \<open>core/src/engine/buffer.rs\<close>.  \<open>contents\<close> reads the ring as the list of typed characters.
    \<^item> \<open>AppFilter\<close>, \<open>HotkeyCatalog\<close>, \<open>ExpansionCatalog\<close>, \<open>ExpansionLookup\<close>: \<open>core/src/engine/catalog/\<close>,
      \<open>source.rs\<close>, and the filters of \<open>core/src/db/crud/triggers/\<close>.
    \<^item> \<open>Args\<close>, \<open>Expansion\<close>, \<open>Tags\<close>, \<open>Registry\<close>, \<open>Validation\<close>, \<open>Pipeline\<close>, \<open>Transformers\<close>, \<open>Execute\<close>,
      \<open>Temporal\<close>, \<open>Clipboard\<close>, \<open>Variables\<close>, \<open>Directives\<close>, \<open>Interpolate\<close>, \<open>Plan\<close>:
      \<open>core/src/engine/variables/\<close> with \<open>registry/\<close> and \<open>system/\<close>.
    \<^item> \<open>Comma\<close>, \<open>MathEval\<close>: \<open>core/src/engine/comma.rs\<close>, \<open>math/\<close>.
    \<^item> \<open>CaseCycle\<close>, \<open>EngineState\<close>, \<open>Emoji\<close>, \<open>Completion\<close>, \<open>Evaluator\<close>: \<open>core/src/engine/case_cycle.rs\<close>,
      \<open>state.rs\<close>, \<open>emoji.rs\<close>, \<open>completion.rs\<close>, \<open>evaluator.rs\<close>, \<open>expansion.rs\<close>, \<open>fallback.rs\<close>.
    \<^item> \<open>PauseSwitch\<close>: the pause flag, in \<open>daemon/src/input/hotkey.rs\<close>, \<open>lib.rs\<close>, \<open>services/server.rs\<close> and
      \<open>services/tray/\<close>: the burst counter, remote calls, tray and coordinator as one step relation.
    \<^item> \<open>HotkeyInput\<close>, \<open>Gate\<close>, \<open>Dispatch\<close>, \<open>Listener\<close>, \<open>Injector\<close>: \<open>daemon/src/input/\<close>, \<open>injector/\<close>,
      \<open>hook/\<close>; \<open>Html\<close>: \<open>core/src/utils/html.rs\<close>.
    \<^item> \<open>Snippets\<close>: \<open>core/src/db/crud/triggers/validate.rs\<close>.
    \<^item> \<open>TriggerRules\<close>, \<open>TriggerStore\<close>, \<open>TriggerOps\<close>, \<open>TriggerEntries\<close>: the other files of
      \<open>core/src/db/crud/triggers/\<close> and \<open>target_os.rs\<close>.  The tables of \<open>db/init/migrate.rs\<close> are lists of rows, each SQL
      statement a function on them; an operation is an action that fails or gives a result and new tables, and
      \<open>with_transaction\<close> keeps the old tables on failure.
    \<^item> \<open>VoicePattern\<close>: \<open>core/src/voice/pattern.rs\<close>, \<open>phonetic.rs\<close>, \<open>pattern_matcher.rs\<close>, \<open>gate.rs\<close>, and the
      phrases of \<open>core/src/db/crud/triggers/aliases.rs\<close>.
    \<^item> \<open>PlanEquivalence\<close>, \<open>PlanSafety\<close>, \<open>VoiceMatching\<close>, \<open>TriggerInvariants\<close>,
      \<open>TriggerSteps\<close>, \<open>TriggerScopes\<close>, \<open>TriggerAnswers\<close> hold proofs over the theory they import.

  \<^bold>\<open>What the lemmas show.\<close>  Invariants of the state, preserved by every operation and every event: the ring, the
  completion and its copy in the shared state, the undo window and the case cycle, the guards of the injector
  under every interleaving of threads, the pause flag with its icon and its coordinator, the clipboard history, the tables of triggers.  Functional
  specifications: the ring as a list, the suffix candidates, the catalogs as first matches and sorted lists, the
  order of the expansion chain, the file lines.  Equivalence with a reference: the parser with its grammar, the
  lazy lookups with the eager ones, the two ways of expanding a template, the alignment of a spoken transcript
  with what it means to fit a pattern, the validator with what resolves later, the memory of triggers with the
  database.  Safety: what an expansion may delete, run, paste and leave on the clipboard, and that its report counts what was
  injected on any machine; that the arguments of a bash script stay arguments; that accepted snippets nest finitely; that one trigger at most answers a word in a window.  Round trips of grouping, URL encoding, hotkeys
  and stored scripts.  Some theorems show where the code does not do what
  it means to; their texts say so.

  \<^bold>\<open>Interfaces.\<close>  \<open>text_tail\<close> is what the evaluator relies on of the buffer, \<open>trigger_matching\<close> what the catalogs
  rely on of hotkeys, \<open>snippet_source\<close> what they rely on of the sources, \<open>clipboard_machine\<close> and
  \<open>quiet_machine\<close> what the injector relies on of a platform, \<open>checked_variable\<close> the agreement between validator
  and resolver, \<open>table_invariant\<close> what a property of the tables needs to survive the writing of scripts, assets and
  outputs.  Each is interpreted on the model of the code that provides it; for the platform that is the
  recording double of the code's own tests, since the real one is the operating system.

  \<^bold>\<open>Bounds and fuel.\<close>  The arithmetic parser carries the fuel \<open>fuel_for\<close>, seven units per token and seven more,
  proved to be enough for every list of tokens.  \<open>Interpolate\<close> recurses on the 32 levels and loops at most the 128
  times the code allows itself; references of snippets are followed at most five deep, as in the code.  The grouping loop
  of \<open>Comma\<close> and the click loop of \<open>Injector\<close> may run for ever in principle and are \<open>partial_function\<close>s; the first
  is proved to return on every interval list it is given.  All other recursion is proved to terminate.

  \<^bold>\<open>Parameters.\<close>  What is not under \<open>src/\<close> is an argument: the regex crate with the contracts \<open>find_contract\<close> and
  \<open>split_contract\<close>, \<open>f64\<close> arithmetic (\<open>f64_ops\<close>, no law), calendars (\<open>time_ops\<close>), random numbers
  (\<open>random_source\<close>, \<open>lorem_source\<close>), files and network (\<open>file_ops\<close>, \<open>network\<close>), the operating system
  (\<open>injector_ops\<close>, \<open>listener_env\<close>), string measures (\<open>score_ops\<close>).  Parts of the program that are not modelled are
  fields of \<open>catalog_env\<close>, \<open>eval_env\<close>, \<open>transform_env\<close>, \<open>execute_env\<close>, \<open>system_env\<close>, \<open>template_env\<close> and
  \<open>validate_env\<close>, and of \<open>store_env\<close>.  A character is one of U+0000 to U+00FF, on which the character classes are those of Rust and NFC is
  the identity.  Locks are never poisoned; within one expansion a system variable answers the same when asked
  twice; the caches of plans and snippets hold what the function they remember gives.

  \<^bold>\<open>Not modelled.\<close>  Natural-language dates, time zones, units, currencies and the dictionary rest on tables and
  crates (interim, chrono, web services) and are parameters of the lookup.  Of the database, opening,
  encryption and migration of the file are left out.  Settings, import and export, statistics and logs are SQL and serde formats
  around files.  Audio capture, speech recognition, tray, services, the installation of the service, the input
  drivers and the platform back ends call the operating system.  The command line and the terminal user interface
  parse arguments and print.  The texts of error messages, hints and log lines are left out everywhere.
\<close>

end
